(* ===== verification/Prelude.thy ===== *)
theory Prelude
  imports Complex_Main "HOL-Library.Word" "HOL-Library.Char_ord" "HOL-Library.List_Lexorder"
begin

text \<open>
  Shared vocabulary of the development: the errors the C++ code raises, results as sums,
  the C library conversions \<open>atoi\<close> and \<open>std::to_string\<close> that the NETCONF
  message ids rely on, and \<open>std::map\<close> as a key-sorted association list with the
  interface (a locale) that its clients use. Generic lemmas on lists are collected here
  once and declared for the simplifier.
\<close>

named_theorems model_defs \<open>definitions of the model that proofs unfold together\<close>
named_theorems frame_simps \<open>fields an operation leaves unchanged\<close>

subsection \<open>Errors and results\<close>

text \<open>
  \<open>RuntimeError\<close> is OMNeT++'s \<open>cRuntimeError\<close>, \<open>InvalidArgument\<close> is
  \<open>std::invalid_argument\<close>; both end the simulation. \<open>NullDeref\<close> and
  \<open>OutOfRange\<close> mark the places where the C++ code has undefined behaviour (a null
  pointer dereferenced, a vector indexed out of range), as does \<open>Uninitialised\<close> (a variable read that
  no path has assigned, a function that ends without a return value).
\<close>

datatype cerror =
    RuntimeError string
  | InvalidArgument string
  | NullDeref string
  | OutOfRange
  | Uninitialised string

type_synonym 'a res = "cerror + 'a"

definition rbind :: "'a res \<Rightarrow> ('a \<Rightarrow> 'b res) \<Rightarrow> 'b res" where
  "rbind r f = (case r of Inl e \<Rightarrow> Inl e | Inr x \<Rightarrow> f x)"

lemma rbind_simps [simp]:
  "rbind (Inl e) f = Inl e"
  "rbind (Inr x) f = f x"
  by (simp_all add: rbind_def)

lemma rbind_Inr_iff: "rbind r f = Inr y \<longleftrightarrow> (\<exists>x. r = Inr x \<and> f x = Inr y)"
  by (cases r) simp_all

lemma rbind_InrE [elim]:
  assumes "rbind r f = Inr y"
  obtains x where "r = Inr x" and "f x = Inr y"
  using assms by (auto simp: rbind_Inr_iff)

text \<open>Reading a \<open>std::vector\<close> at a C \<open>int\<close> index.\<close>

definition vec_at :: "'a list \<Rightarrow> int \<Rightarrow> 'a res" where
  "vec_at xs i = (if 0 \<le> i \<and> i < int (length xs) then Inr (xs ! nat i) else Inl OutOfRange)"

lemma vec_at_Inr_iff: "vec_at xs i = Inr x \<longleftrightarrow> 0 \<le> i \<and> i < int (length xs) \<and> x = xs ! nat i"
  by (auto simp: vec_at_def)

lemma vec_at_Inr_mem: "vec_at xs i = Inr x \<Longrightarrow> x \<in> set xs"
  by (auto simp: vec_at_def split: if_splits)

subsection \<open>atoi and to\_string\<close>

definition is_space :: "char \<Rightarrow> bool" where
  "is_space c \<longleftrightarrow> of_char c \<in> {9, 10, 11, 12, 13, 32 :: nat}"

definition is_digit :: "char \<Rightarrow> bool" where
  "is_digit c \<longleftrightarrow> 48 \<le> (of_char c :: nat) \<and> (of_char c :: nat) \<le> 57"

fun digits_val :: "int \<Rightarrow> string \<Rightarrow> int" where
  "digits_val acc [] = acc"
| "digits_val acc (c # cs) =
     (if is_digit c then digits_val (acc * 10 + (of_char c - 48)) cs else acc)"

definition atoi :: "string \<Rightarrow> int" where
  "atoi s =
     (case dropWhile is_space s of
        [] \<Rightarrow> 0
      | c # cs \<Rightarrow>
          if c = CHR ''-'' then - digits_val 0 cs
          else if c = CHR ''+'' then digits_val 0 cs
          else digits_val 0 (c # cs))"

definition digit_char :: "nat \<Rightarrow> char" where
  "digit_char d = char_of (48 + d)"

fun to_string :: "nat \<Rightarrow> string" where
  "to_string n = (if n < 10 then [digit_char n] else to_string (n div 10) @ [digit_char (n mod 10)])"

declare to_string.simps [simp del]

lemma of_char_digit_nat: "d < 10 \<Longrightarrow> (of_char (digit_char d) :: nat) = 48 + d"
  by (simp add: digit_char_def)

lemma of_char_digit_int: "d < 10 \<Longrightarrow> (of_char (digit_char d) :: int) = 48 + int d"
  using of_char_digit_nat [of d] by (metis of_nat_add of_nat_numeral of_nat_of_char)

lemmas of_char_digit = of_char_digit_nat of_char_digit_int

lemma is_digit_digit_char [simp]: "d < 10 \<Longrightarrow> is_digit (digit_char d)"
  by (simp add: is_digit_def of_char_digit)

lemma digits_val_append:
  "\<forall>c \<in> set xs. is_digit c \<Longrightarrow> digits_val acc (xs @ ys) = digits_val (digits_val acc xs) ys"
  by (induction xs arbitrary: acc) auto

lemma to_string_digits: "\<forall>c \<in> set (to_string n). is_digit c"
proof (induction n rule: to_string.induct)
  case (1 n)
  show ?case
    by (cases "n < 10") (use "1.IH" in \<open>auto simp: to_string.simps [of n]\<close>)
qed

lemma to_string_nonempty: "to_string n \<noteq> []"
  by (subst to_string.simps) simp

lemma digits_val_to_string: "digits_val 0 (to_string n) = int n"
proof (induction n rule: to_string.induct)
  case (1 n)
  show ?case
  proof (cases "n < 10")
    case True
    then show ?thesis
      by (simp add: to_string.simps [of n] of_char_digit)
  next
    case False
    have "digits_val 0 (to_string n)
        = digits_val (digits_val 0 (to_string (n div 10))) [digit_char (n mod 10)]"
      using False by (simp add: to_string.simps [of n] digits_val_append to_string_digits)
    also have "\<dots> = int (n div 10) * 10 + int (n mod 10)"
      using "1.IH" False by (simp add: of_char_digit)
    also have "\<dots> = int n"
      by presburger
    finally show ?thesis .
  qed
qed

lemma digit_not_space: "is_digit c \<Longrightarrow> \<not> is_space c"
  by (auto simp: is_digit_def is_space_def)

lemma digit_not_sign: "is_digit c \<Longrightarrow> c \<noteq> CHR ''-'' \<and> c \<noteq> CHR ''+''"
  by (auto simp: is_digit_def)

text \<open>The conversion that the transaction application relies on for its change ids.\<close>

lemma atoi_to_string [simp]: "atoi (to_string n) = int n"
proof -
  obtain c cs where eq: "to_string n = c # cs"
    using to_string_nonempty [of n] by (cases "to_string n") auto
  with to_string_digits [of n] have c: "is_digit c" by auto
  then have "dropWhile is_space (to_string n) = c # cs"
    using eq digit_not_space by simp
  then show ?thesis
    using digit_not_sign [OF c] digits_val_to_string [of n] eq by (simp add: atoi_def)
qed

subsection \<open>Time and addresses\<close>

text \<open>
  Simulation times are rationals; \<open>simtime_max\<close> is \<open>SimTime::getMaxTime()\<close> at
  OMNeT++'s default picosecond scale. A module pointer is a number, \<open>nullptr\<close> is 0.
\<close>

type_synonym simtime = rat
type_synonym mac = "48 word"
type_synonym ipv4 = "32 word"
type_synonym cmodule = nat

definition nullptr :: cmodule where
  "nullptr = 0"

definition simtime_max :: simtime where
  "simtime_max = of_int (2 ^ 63 - 1) / of_int (10 ^ 12)"

subsection \<open>First match in a vector\<close>

fun find_idx_from :: "nat \<Rightarrow> ('a \<Rightarrow> bool) \<Rightarrow> 'a list \<Rightarrow> nat option" where
  "find_idx_from k P [] = None"
| "find_idx_from k P (x # xs) = (if P x then Some k else find_idx_from (Suc k) P xs)"

definition find_idx :: "('a \<Rightarrow> bool) \<Rightarrow> 'a list \<Rightarrow> nat option" where
  "find_idx = find_idx_from 0"

lemma find_idx_from_Some:
  "find_idx_from k P xs = Some i \<Longrightarrow>
     k \<le> i \<and> i < k + length xs \<and> P (xs ! (i - k)) \<and> (\<forall>j < i - k. \<not> P (xs ! j))"
proof (induction xs arbitrary: k)
  case Nil
  then show ?case by simp
next
  case (Cons x xs)
  show ?case
  proof (cases "P x")
    case True
    with Cons.prems show ?thesis by simp
  next
    case False
    with Cons.prems have "find_idx_from (Suc k) P xs = Some i" by simp
    from Cons.IH [OF this] False show ?thesis
      by (auto simp: nth_Cons' Suc_diff_le)
  qed
qed

lemma find_idx_from_None: "find_idx_from k P xs = None \<longleftrightarrow> (\<forall>x \<in> set xs. \<not> P x)"
  by (induction xs arbitrary: k) auto

lemma find_idx_Some:
  "find_idx P xs = Some i \<Longrightarrow> i < length xs \<and> P (xs ! i) \<and> (\<forall>j < i. \<not> P (xs ! j))"
  unfolding find_idx_def using find_idx_from_Some [of 0 P xs i] by simp

lemma find_idx_None: "find_idx P xs = None \<longleftrightarrow> (\<forall>x \<in> set xs. \<not> P x)"
  unfolding find_idx_def by (rule find_idx_from_None)

end
