(* ===== verification/StdMap.thy ===== *)
theory StdMap
  imports Prelude
begin

text \<open>
  \<open>std::map\<close> as the code uses it: lookup, insertion through \<open>operator[]\<close>,
  mutation of the object a mapped pointer refers to, and iteration in key order. The locale
  \<open>std_map\<close> is the interface the components rely on; the key-sorted association list
  below it is the model, and the interpretation shows that it keeps the contract.
\<close>

subsection \<open>The interface\<close>

locale std_map =
  fixes wf :: "'m \<Rightarrow> bool"
    and empty :: "'m"
    and get :: "'k :: linorder \<Rightarrow> 'm \<Rightarrow> 'v option"
    and put :: "'k \<Rightarrow> 'v \<Rightarrow> 'm \<Rightarrow> 'm"
    and modify :: "'k \<Rightarrow> ('v \<Rightarrow> 'v) \<Rightarrow> 'm \<Rightarrow> 'm"
    and entries :: "'m \<Rightarrow> ('k \<times> 'v) list"
  assumes wf_empty: "wf empty"
    and wf_put: "wf m \<Longrightarrow> wf (put k v m)"
    and wf_modify: "wf m \<Longrightarrow> wf (modify k f m)"
    and get_empty: "get k empty = None"
    and get_put: "wf m \<Longrightarrow> get j (put k v m) = (if j = k then Some v else get j m)"
    and get_modify: "wf m \<Longrightarrow> get j (modify k f m) = (if j = k then map_option f (get j m) else get j m)"
    and entries_sorted: "wf m \<Longrightarrow> sorted_wrt (<) (map fst (entries m))"
    and entries_get: "wf m \<Longrightarrow> (k, v) \<in> set (entries m) \<longleftrightarrow> get k m = Some v"
begin

definition keys :: "'m \<Rightarrow> 'k set" where
  "keys m = fst ` set (entries m)"

lemma keys_get: "wf m \<Longrightarrow> k \<in> keys m \<longleftrightarrow> get k m \<noteq> None"
proof -
  assume wf: "wf m"
  show "k \<in> keys m \<longleftrightarrow> get k m \<noteq> None"
  proof
    assume "k \<in> keys m"
    then obtain v where "(k, v) \<in> set (entries m)" by (auto simp: keys_def)
    then show "get k m \<noteq> None" using wf by (simp add: entries_get)
  next
    assume "get k m \<noteq> None"
    then obtain v where "(k, v) \<in> set (entries m)" using wf by (auto simp: entries_get)
    then show "k \<in> keys m" by (force simp: keys_def)
  qed
qed

lemma keys_put: "wf m \<Longrightarrow> keys (put k v m) = insert k (keys m)"
  by (auto simp: keys_get wf_put get_put split: if_splits)

lemma keys_modify: "wf m \<Longrightarrow> keys (modify k f m) = keys m"
  by (auto simp: keys_get wf_modify get_modify split: if_splits)

lemma distinct_keys: "wf m \<Longrightarrow> distinct (map fst (entries m))"
  using entries_sorted [of m] by (simp add: strict_sorted_iff)

lemma length_entries: "wf m \<Longrightarrow> length (entries m) = card (keys m)"
  using distinct_card [OF distinct_keys] by (simp add: keys_def)

lemma length_modify: "wf m \<Longrightarrow> length (entries (modify k f m)) = length (entries m)"
  by (simp add: length_entries wf_modify keys_modify)

text \<open>A property of all mapped values survives the change of one of them.\<close>

lemma all_modify:
  assumes "wf m" and "\<And>v. get k m = Some v \<Longrightarrow> P (f v)"
    and "\<And>j v. get j m = Some v \<Longrightarrow> j \<noteq> k \<Longrightarrow> P v"
    and "get j (modify k f m) = Some w"
  shows "P w"
  using assms by (auto simp: get_modify split: if_splits)

end

subsection \<open>The model: association lists sorted by key\<close>

type_synonym ('k, 'v) smap = "('k \<times> 'v) list"

definition smap_wf :: "('k :: linorder, 'v) smap \<Rightarrow> bool" where
  "smap_wf m \<longleftrightarrow> sorted_wrt (<) (map fst m)"

definition smap_get :: "'k :: linorder \<Rightarrow> ('k, 'v) smap \<Rightarrow> 'v option" where
  "smap_get k m = map_of m k"

fun smap_put :: "'k :: linorder \<Rightarrow> 'v \<Rightarrow> ('k, 'v) smap \<Rightarrow> ('k, 'v) smap" where
  "smap_put k v [] = [(k, v)]"
| "smap_put k v ((j, w) # m) =
     (if k < j then (k, v) # (j, w) # m
      else if k = j then (k, v) # m
      else (j, w) # smap_put k v m)"

definition smap_modify :: "'k :: linorder \<Rightarrow> ('v \<Rightarrow> 'v) \<Rightarrow> ('k, 'v) smap \<Rightarrow> ('k, 'v) smap" where
  "smap_modify k f m = map (\<lambda>(j, v). (j, if j = k then f v else v)) m"

lemma set_keys_put: "fst ` set (smap_put k v m) = insert k (fst ` set m)"
  by (induction k v m rule: smap_put.induct) auto

lemma smap_get_Nil [simp]: "smap_get k [] = None"
  by (simp add: smap_get_def)

lemma smap_get_Cons [simp]:
  "smap_get k ((j, v) # m) = (if k = j then Some v else smap_get k m)"
  by (auto simp: smap_get_def)

lemma smap_wf_Nil [simp]: "smap_wf []"
  by (simp add: smap_wf_def)

lemma smap_wf_Cons: "smap_wf ((j, v) # m) \<longleftrightarrow> (\<forall>k \<in> fst ` set m. j < k) \<and> smap_wf m"
  by (auto simp: smap_wf_def)

lemma smap_put_wf: "smap_wf m \<Longrightarrow> smap_wf (smap_put k v m)"
  by (induction k v m rule: smap_put.induct) (force simp: smap_wf_Cons set_keys_put)+

lemma smap_get_put: "smap_wf m \<Longrightarrow> smap_get j (smap_put k v m) = (if j = k then Some v else smap_get j m)"
  by (induction k v m rule: smap_put.induct) (auto simp: smap_wf_Cons)

lemma map_fst_modify [simp]: "map fst (smap_modify k f m) = map fst m"
  by (auto simp: smap_modify_def)

lemma length_smap_modify [simp]: "length (smap_modify k f m) = length m"
  by (simp add: smap_modify_def)

lemma smap_modify_Nil [simp]: "smap_modify k f [] = []"
  by (simp add: smap_modify_def)

lemma smap_modify_Cons [simp]:
  "smap_modify k f ((j, v) # m) = (j, if j = k then f v else v) # smap_modify k f m"
  by (simp add: smap_modify_def)

lemma smap_modify_wf: "smap_wf m \<Longrightarrow> smap_wf (smap_modify k f m)"
  by (simp add: smap_wf_def)

lemma smap_get_modify:
  "smap_get j (smap_modify k f m) = (if j = k then map_option f (smap_get j m) else smap_get j m)"
  by (induction m) auto

lemma smap_entries_get: "smap_wf m \<Longrightarrow> (k, v) \<in> set m \<longleftrightarrow> smap_get k m = Some v"
  by (auto simp: smap_get_def smap_wf_def strict_sorted_iff)

interpretation smap: std_map smap_wf "[]" smap_get smap_put smap_modify "\<lambda>m. m"
  by unfold_locales
    (simp_all add: smap_put_wf smap_modify_wf smap_get_put smap_get_modify smap_entries_get,
     simp add: smap_wf_def)

lemmas smap_simps = smap_put_wf smap_modify_wf smap_get_put smap_get_modify

lemma smap_modify_mem:
  "(j, v) \<in> set (smap_modify k f m) \<longleftrightarrow>
     (\<exists>w. (j, w) \<in> set m \<and> v = (if j = k then f w else w))"
  by (auto simp: smap_modify_def image_iff split: prod.splits)

lemma smap_modify_absent: "smap_get k m = None \<Longrightarrow> smap_modify k f m = m"
  by (induction m) (auto split: if_splits)

subsection \<open>Erasing, and properties of all entries\<close>

locale std_map_erase = std_map wf empty get put modify entries
  for wf :: "'m \<Rightarrow> bool" and empty :: 'm and get :: "'k :: linorder \<Rightarrow> 'm \<Rightarrow> 'v option"
    and put and modify and entries +
  fixes erase :: "'k \<Rightarrow> 'm \<Rightarrow> 'm"
  assumes wf_erase: "wf m \<Longrightarrow> wf (erase k m)"
    and get_erase: "wf m \<Longrightarrow> get j (erase k m) = (if j = k then None else get j m)"
begin

lemma keys_erase: "wf m \<Longrightarrow> keys (erase k m) = keys m - {k}"
  by (auto simp: keys_get wf_erase get_erase split: if_splits)

lemma get_erase_put: "wf m \<Longrightarrow> get j (erase k (put k v m)) = get j (erase k m)"
  by (simp add: get_erase wf_put get_put)

end

definition smap_erase :: "'k :: linorder \<Rightarrow> ('k, 'v) smap \<Rightarrow> ('k, 'v) smap" where
  "smap_erase k m = filter (\<lambda>(j, v). j \<noteq> k) m"

lemma smap_erase_wf: "smap_wf m \<Longrightarrow> smap_wf (smap_erase k m)"
  unfolding smap_wf_def smap_erase_def by (induction m) auto

lemma smap_get_erase: "smap_get j (smap_erase k m) = (if j = k then None else smap_get j m)"
  by (induction m) (auto simp: smap_erase_def)

interpretation smap_er: std_map_erase smap_wf "[]" smap_get smap_put smap_modify "\<lambda>m. m" smap_erase
  by unfold_locales (simp_all add: smap_erase_wf smap_get_erase)

definition smap_all :: "('k \<Rightarrow> 'v \<Rightarrow> bool) \<Rightarrow> ('k :: linorder, 'v) smap \<Rightarrow> bool" where
  "smap_all P m \<longleftrightarrow> (\<forall>(k, v) \<in> set m. P k v)"

lemma smap_all_Nil [simp]: "smap_all P []"
  by (simp add: smap_all_def)

lemma smap_all_Cons [simp]: "smap_all P ((k, v) # m) \<longleftrightarrow> P k v \<and> smap_all P m"
  by (simp add: smap_all_def)

lemma smap_all_get: "smap_all P m \<Longrightarrow> smap_get k m = Some v \<Longrightarrow> P k v"
  by (induction m) (auto split: if_splits)

lemma smap_all_put: "smap_all P m \<Longrightarrow> P k v \<Longrightarrow> smap_all P (smap_put k v m)"
  by (induction k v m rule: smap_put.induct) auto

lemma smap_all_erase: "smap_all P m \<Longrightarrow> smap_all P (smap_erase k m)"
  by (auto simp: smap_all_def smap_erase_def)

lemma smap_all_imp: "smap_all P m \<Longrightarrow> (\<And>k v. P k v \<Longrightarrow> Q k v) \<Longrightarrow> smap_all Q m"
  by (auto simp: smap_all_def)

text \<open>\<open>operator[]\<close> on a map whose values are containers: an absent key reads as empty.\<close>

definition smap_inner :: "'k :: linorder \<Rightarrow> ('k, 'v list) smap \<Rightarrow> 'v list" where
  "smap_inner k m = (case smap_get k m of None \<Rightarrow> [] | Some v \<Rightarrow> v)"

lemma smap_inner_put:
  "smap_wf m \<Longrightarrow> smap_inner j (smap_put k v m) = (if j = k then v else smap_inner j m)"
  by (simp add: smap_inner_def smap_get_put)

lemma smap_inner_erase: "smap_inner j (smap_erase k m) = (if j = k then [] else smap_inner j m)"
  by (simp add: smap_inner_def smap_get_erase)

lemma smap_inner_all: "smap_all P m \<Longrightarrow> P k [] \<Longrightarrow> P k (smap_inner k m)"
  by (auto simp: smap_inner_def split: option.splits dest: smap_all_get)

lemma smap_inner_empty [simp]: "smap_inner k [] = []"
  by (simp add: smap_inner_def)

text \<open>Mapping a function over the values, and dropping some entries.\<close>

lemma smap_get_map: "smap_get k (map (\<lambda>(j, v). (j, f j v)) m) = map_option (f k) (smap_get k m)"
  by (induction m) auto

lemma smap_get_notin: "k \<notin> fst ` set m \<Longrightarrow> smap_get k m = None"
  by (induction m) auto

lemma smap_wf_filter: "smap_wf m \<Longrightarrow> smap_wf (filter P m)"
  unfolding smap_wf_def by (induction m) auto

lemma smap_get_filter_Some:
  "smap_wf m \<Longrightarrow> smap_get k (filter (\<lambda>(j, v). P j v) m) = Some v \<longleftrightarrow> smap_get k m = Some v \<and> P k v"
  by (simp add: smap_entries_get [symmetric] smap_wf_filter)

lemma smap_get_filter:
  assumes "smap_wf m"
  shows "smap_get k (filter (\<lambda>(j, v). P j v) m) =
     (case smap_get k m of None \<Rightarrow> None | Some v \<Rightarrow> if P k v then Some v else None)"
proof (cases "\<exists>v. smap_get k m = Some v \<and> P k v")
  case True
  then obtain v where v: "smap_get k m = Some v" "P k v" by blast
  then have "smap_get k (filter (\<lambda>(j, v). P j v) m) = Some v"
    unfolding smap_get_filter_Some [OF assms] ..
  then show ?thesis using v by simp
next
  case False
  then have "smap_get k (filter (\<lambda>(j, v). P j v) m) \<noteq> Some v" for v
    unfolding smap_get_filter_Some [OF assms] by blast
  then have "smap_get k (filter (\<lambda>(j, v). P j v) m) = None" by (meson not_Some_eq)
  then show ?thesis using False by (cases "smap_get k m") simp_all
qed

lemma smap_wf_map: "smap_wf (map (\<lambda>(j, v). (j, f j v)) m) = smap_wf m"
proof -
  have "map fst (map (\<lambda>(j, v). (j, f j v)) m) = map fst m" by (induction m) auto
  then show ?thesis unfolding smap_wf_def by presburger
qed

end
