(* ===== verification/FlowTable.thy ===== *)
theory FlowTable
  imports Prelude
begin

unbundle bit_operations_syntax

text \<open>
  The OpenFlow flow table of a switch (OpenFlow/src/openflow/openflow/switch/flowtable):
  entries with idle and hard timeouts, the OpenFlow 1.0 match with wildcards, insertion with
  a capacity limit, deletion by match, ageing and lookup. The table is a vector of pointers,
  and the NETCONF configuration objects hold pointers to the same entries, so entries live
  in an explicit store \<open>fheap\<close>; reading a freed entry is \<open>NullDeref\<close>.
\<close>

subsection \<open>Matches and entries\<close>

record oxm_basic_match =
  OFB_IN_PORT :: "16 word"
  OFB_ETH_SRC :: mac
  OFB_ETH_DST :: mac
  OFB_VLAN_VID :: "16 word"
  OFB_VLAN_PCP :: "8 word"
  OFB_ETH_TYPE :: "16 word"
  OFB_IP_DSCP :: "8 word"
  OFB_IP_PROTO :: "8 word"
  OFB_IPV4_SRC :: ipv4
  OFB_IPV4_DST :: ipv4
  OFB_TP_SRC :: "16 word"
  OFB_TP_DST :: "16 word"
  OFB_ARP_OP :: int
  OFB_ARP_SPA :: ipv4
  OFB_ARP_TPA :: ipv4
  OFB_ARP_SHA :: mac
  OFB_ARP_THA :: mac
  OFB_TAG :: "16 word"
  wildcards :: "32 word"

definition "OFPFW_IN_PORT = (1 :: 32 word)"
definition "OFPFW_DL_VLAN = (2 :: 32 word)"
definition "OFPFW_DL_SRC = (4 :: 32 word)"
definition "OFPFW_DL_DST = (8 :: 32 word)"
definition "OFPFW_DL_TYPE = (16 :: 32 word)"
definition "OFPFW_NW_PROTO = (32 :: 32 word)"
definition "OFPFW_TP_SRC = (64 :: 32 word)"
definition "OFPFW_TP_DST = (128 :: 32 word)"
definition "OFPFW_NW_SRC_ALL = (8192 :: 32 word)"
definition "OFPFW_NW_DST_ALL = (524288 :: 32 word)"
definition "OFPFW_DL_VLAN_PCP = (1048576 :: 32 word)"
definition "OFPFW_ALL = (4194303 :: 32 word)"

lemmas ofpfw_defs =
  OFPFW_IN_PORT_def OFPFW_DL_VLAN_def OFPFW_DL_SRC_def OFPFW_DL_DST_def OFPFW_DL_TYPE_def
  OFPFW_NW_PROTO_def OFPFW_TP_SRC_def OFPFW_TP_DST_def OFPFW_NW_SRC_ALL_def
  OFPFW_NW_DST_ALL_def OFPFW_DL_VLAN_PCP_def OFPFW_ALL_def

text \<open>The base class of an entry and its OpenFlow 1.0 subclass.\<close>

record of_entry =
  creationTime :: simtime
  lastMatched :: simtime
  hardTimeout :: rat
  idleTimeout :: rat

record of100_entry = of_entry +
  cookie :: "64 word"
  priority :: int
  flags :: "32 word"
  ematch :: oxm_basic_match
  instructions :: "32 word list"

text \<open>\<open>OF_FlowTableEntry::getTimeOut\<close>: the earlier of idle and hard timeout.\<close>

definition getTimeOut :: "'a of_entry_scheme \<Rightarrow> simtime" where
  "getTimeOut e =
     (let t0 = simtime_max;
          t1 = (if idleTimeout e > 0
                then let it = lastMatched e + idleTimeout e in if t0 > it then it else t0
                else t0)
      in if hardTimeout e > 0
         then let ht = creationTime e + hardTimeout e in if t1 > ht then ht else t1
         else t1)"

text \<open>
  \<open>OF100_FlowTableEntry::tryMatch\<close>. A set wildcard bit makes its field irrelevant. The
  last conjunct compares \<open>OFB_TP_SRC\<close> under the \<open>TP_DST\<close> bit, as the source does.
\<close>

definition tryMatch_wild :: "of100_entry \<Rightarrow> oxm_basic_match \<Rightarrow> 32 word \<Rightarrow> bool" where
  "tryMatch_wild e other w \<longleftrightarrow> (let m = ematch e in
     (w AND OFPFW_IN_PORT \<noteq> 0 \<or> OFB_IN_PORT m = OFB_IN_PORT other) \<and>
     (w AND OFPFW_DL_TYPE \<noteq> 0 \<or> OFB_ETH_TYPE m = OFB_ETH_TYPE other) \<and>
     (w AND OFPFW_DL_SRC \<noteq> 0 \<or> OFB_ETH_SRC m = OFB_ETH_SRC other) \<and>
     (w AND OFPFW_DL_DST \<noteq> 0 \<or> OFB_ETH_DST m = OFB_ETH_DST other) \<and>
     (w AND OFPFW_DL_VLAN \<noteq> 0 \<or> OFB_VLAN_VID m = OFB_VLAN_VID other) \<and>
     (w AND OFPFW_DL_VLAN_PCP \<noteq> 0 \<or> OFB_VLAN_PCP m = OFB_VLAN_PCP other) \<and>
     (w AND OFPFW_NW_PROTO \<noteq> 0 \<or> OFB_IP_PROTO m = OFB_IP_PROTO other) \<and>
     (w AND OFPFW_NW_SRC_ALL \<noteq> 0 \<or> OFB_IPV4_SRC m = OFB_IPV4_SRC other) \<and>
     (w AND OFPFW_NW_DST_ALL \<noteq> 0 \<or> OFB_IPV4_DST m = OFB_IPV4_DST other) \<and>
     (w AND OFPFW_TP_SRC \<noteq> 0 \<or> OFB_TP_SRC m = OFB_TP_SRC other) \<and>
     (w AND OFPFW_TP_DST \<noteq> 0 \<or> OFB_TP_SRC m = OFB_TP_SRC other))"

definition tryMatch :: "of100_entry \<Rightarrow> oxm_basic_match \<Rightarrow> bool" where
  "tryMatch e other = tryMatch_wild e other (wildcards (ematch e))"

text \<open>The \<open>operator<\<close> of \<open>OF100_FlowTableEntry\<close>: priority, then last match, then creation.\<close>

definition entry_less :: "of100_entry \<Rightarrow> of100_entry \<Rightarrow> bool" where
  "entry_less l r \<longleftrightarrow>
     (if priority l < priority r then True
      else if priority l > priority r then False
      else if lastMatched l < lastMatched r then True
      else if lastMatched l > lastMatched r then False
      else if creationTime l < creationTime r then True
      else False)"

subsection \<open>The table\<close>

type_synonym ptr = nat
type_synonym fheap = "ptr \<Rightarrow> of100_entry option"

record flow_table =
  ft_index :: int
  ft_entries :: "ptr list"
  ft_maxEntries :: nat
  ft_nextAging :: simtime
  ft_agingInterval :: rat
  ft_agingMsgs :: "simtime list"  \<comment> \<open>AGING self messages scheduled so far\<close>

definition deref :: "fheap \<Rightarrow> ptr \<Rightarrow> of100_entry res" where
  "deref h p = (case h p of None \<Rightarrow> Inl (NullDeref ''flow entry'') | Some e \<Rightarrow> Inr e)"

text \<open>
  \<open>sortEntries\<close> is \<open>std::sort(_entries.rbegin(), _entries.rend())\<close> on a vector of
  pointers: the addresses end up in descending order, \<open>operator<\<close> of the entries is
  not consulted.
\<close>

definition sortEntries :: "flow_table \<Rightarrow> flow_table" where
  "sortEntries t = t\<lparr>ft_entries := rev (sort (ft_entries t))\<rparr>"

definition scheduleNextAging :: "simtime \<Rightarrow> flow_table \<Rightarrow> flow_table" where
  "scheduleNextAging now t = t\<lparr>ft_agingMsgs := ft_agingMsgs t @ [now + ft_agingInterval t]\<rparr>"

text \<open>The loop of \<open>removeAgedEntries\<close>: entries kept, store, next ageing time, updated flag.\<close>

fun aged_loop :: "simtime \<Rightarrow> ptr list \<Rightarrow> fheap \<Rightarrow> simtime \<Rightarrow> bool
    \<Rightarrow> (ptr list \<times> fheap \<times> simtime \<times> bool) res" where
  "aged_loop now [] h nx upd = Inr ([], h, nx, upd)"
| "aged_loop now (p # ps) h nx upd =
     rbind (deref h p) (\<lambda>e.
       if now \<ge> getTimeOut e then aged_loop now ps (h(p := None)) nx True
       else rbind (aged_loop now ps h (if nx > getTimeOut e then getTimeOut e else nx) upd)
              (\<lambda>(ks, h', nx', upd'). Inr (p # ks, h', nx', upd')))"

definition removeAgedEntries :: "simtime \<Rightarrow> fheap \<times> flow_table \<Rightarrow> (fheap \<times> flow_table) res" where
  "removeAgedEntries now ht =
     (let (h, t) = ht in
      rbind (aged_loop now (ft_entries t) h simtime_max False) (\<lambda>(ks, h', nx, upd).
        let t1 = t\<lparr>ft_entries := ks, ft_nextAging := nx\<rparr>;
            t2 = (if upd then sortEntries t1 else t1);
            t3 = (if ft_agingInterval t2 > 0 then scheduleNextAging now t2 else t2)
        in Inr (h', t3)))"

definition removeAgedEntriesIfNeeded :: "simtime \<Rightarrow> fheap \<times> flow_table \<Rightarrow> (fheap \<times> flow_table) res" where
  "removeAgedEntriesIfNeeded now ht =
     (let t = snd ht in
      if ft_entries t = [] \<or> ft_agingInterval t > 0 then Inr ht
      else if now \<ge> ft_nextAging t then removeAgedEntries now ht
      else Inr ht)"

definition addEntry :: "simtime \<Rightarrow> ptr \<Rightarrow> fheap \<times> flow_table \<Rightarrow> (bool \<times> fheap \<times> flow_table) res" where
  "addEntry now p ht0 =
     rbind (if ft_maxEntries (snd ht0) \<noteq> 0 then removeAgedEntriesIfNeeded now ht0 else Inr ht0)
       (\<lambda>(h, t).
        if ft_maxEntries t \<noteq> 0 \<and> length (ft_entries t) \<ge> ft_maxEntries t then Inr (False, h, t)
        else if p \<in> set (ft_entries t) then Inr (False, h, t)
        else rbind (deref h p) (\<lambda>e.
          let t1 = t\<lparr>ft_entries := ft_entries t @ [p]\<rparr>;
              h1 = h(p \<mapsto> e\<lparr>creationTime := now, lastMatched := now\<rparr>)
          in rbind (removeAgedEntries now (h1, t1)) (\<lambda>(h2, t2). Inr (True, h2, sortEntries t2))))"

fun delete_loop :: "oxm_basic_match \<Rightarrow> ptr list \<Rightarrow> fheap \<Rightarrow> (ptr list \<times> fheap) res" where
  "delete_loop m [] h = Inr ([], h)"
| "delete_loop m (p # ps) h =
     rbind (deref h p) (\<lambda>e.
       if tryMatch_wild e m (wildcards m) then delete_loop m ps (h(p := None))
       else rbind (delete_loop m ps h) (\<lambda>(ks, h'). Inr (p # ks, h')))"

definition deleteMatchingEntries :: "oxm_basic_match \<Rightarrow> fheap \<times> flow_table \<Rightarrow> (fheap \<times> flow_table) res" where
  "deleteMatchingEntries m ht =
     (let (h, t) = ht in
      rbind (delete_loop m (ft_entries t) h) (\<lambda>(ks, h'). Inr (h', t\<lparr>ft_entries := ks\<rparr>)))"

fun lookup_loop :: "oxm_basic_match \<Rightarrow> ptr list \<Rightarrow> fheap \<Rightarrow> ptr option res" where
  "lookup_loop m [] h = Inr None"
| "lookup_loop m (p # ps) h =
     rbind (deref h p) (\<lambda>e. if tryMatch e m then Inr (Some p) else lookup_loop m ps h)"

definition lookup :: "simtime \<Rightarrow> oxm_basic_match \<Rightarrow> fheap \<times> flow_table
    \<Rightarrow> (ptr option \<times> fheap \<times> flow_table) res" where
  "lookup now m ht0 =
     rbind (removeAgedEntriesIfNeeded now ht0) (\<lambda>(h, t).
       rbind (lookup_loop m (ft_entries t) h) (\<lambda>r.
         case r of
           None \<Rightarrow> Inr (None, h, t)
         | Some p \<Rightarrow> rbind (deref h p) (\<lambda>e. Inr (Some p, h(p \<mapsto> e\<lparr>lastMatched := now\<rparr>), t))))"

text \<open>\<open>clear\<close> deletes every entry object and empties the vector.\<close>

definition clear :: "fheap \<times> flow_table \<Rightarrow> fheap \<times> flow_table" where
  "clear ht = (let (h, t) = ht in
     ((\<lambda>p. if p \<in> set (ft_entries t) then None else h p), t\<lparr>ft_entries := []\<rparr>))"

text \<open>\<open>handleMessage\<close>: the AGING self message runs an ageing pass, anything else is an error.\<close>

definition handleMessage_table :: "simtime \<Rightarrow> bool \<Rightarrow> fheap \<times> flow_table \<Rightarrow> (fheap \<times> flow_table) res" where
  "handleMessage_table now isAging ht =
     (if isAging then removeAgedEntries now ht
      else Inl (RuntimeError ''This module doesn't process messages''))"

subsection \<open>OpenFlow flow modification messages\<close>

datatype flow_mod_command = OFPFC_ADD | OFPFC_MODIFY | OFPFC_MODIFY_STRICT | OFPFC_DELETE | OFPFC_DELETE_STRICT

record flow_mod =
  fm_table_id :: "8 word"
  fm_command :: flow_mod_command
  fm_cookie :: "64 word"
  fm_priority :: "16 word"
  fm_flags :: "16 word"
  fm_idle_timeout :: "16 word"
  fm_hard_timeout :: "16 word"
  fm_match :: oxm_basic_match
  fm_actions :: "32 word list"

definition createEntry :: "simtime \<Rightarrow> flow_mod \<Rightarrow> of100_entry" where
  "createEntry now fm =
     \<lparr>creationTime = now, lastMatched = now,
      hardTimeout = of_int (uint (fm_hard_timeout fm)),
      idleTimeout = of_int (uint (fm_idle_timeout fm)),
      cookie = fm_cookie fm, priority = uint (fm_priority fm), flags = ucast (fm_flags fm),
      ematch = fm_match fm, instructions = fm_actions fm\<rparr>"

text \<open>
  \<open>handleFlowMod\<close>, with \<open>p\<close> the address the allocator returns for a new entry. The
  MODIFY cases fall through into DELETE, as the missing \<open>break\<close> statements make them.
\<close>

definition handleFlowMod :: "simtime \<Rightarrow> ptr \<Rightarrow> flow_mod \<Rightarrow> fheap \<times> flow_table \<Rightarrow> (fheap \<times> flow_table) res" where
  "handleFlowMod now p fm ht =
     (case fm_command fm of
        OFPFC_ADD \<Rightarrow>
          (let (h, t) = ht in
           rbind (addEntry now p (h(p \<mapsto> createEntry now fm), t)) (\<lambda>(b, ht'). Inr ht'))
      | OFPFC_MODIFY \<Rightarrow> deleteMatchingEntries (fm_match fm) ht
      | OFPFC_MODIFY_STRICT \<Rightarrow> deleteMatchingEntries (fm_match fm) ht
      | OFPFC_DELETE \<Rightarrow> deleteMatchingEntries (fm_match fm) ht
      | OFPFC_DELETE_STRICT \<Rightarrow> Inr ht)"

subsection \<open>The loops, specified\<close>

definition expired :: "simtime \<Rightarrow> fheap \<Rightarrow> ptr \<Rightarrow> bool" where
  "expired now h p \<longleftrightarrow> (case h p of None \<Rightarrow> False | Some e \<Rightarrow> getTimeOut e \<le> now)"

definition live :: "fheap \<Rightarrow> ptr list \<Rightarrow> bool" where
  "live h ps \<longleftrightarrow> distinct ps \<and> (\<forall>p \<in> set ps. h p \<noteq> None)"

definition free_all :: "(ptr \<Rightarrow> bool) \<Rightarrow> fheap \<Rightarrow> fheap" where
  "free_all P h = (\<lambda>p. if P p then None else h p)"

lemma live_Nil [simp]: "live h []"
  by (simp add: live_def)

lemma live_Cons: "live h (p # ps) \<longleftrightarrow> (\<exists>e. h p = Some e) \<and> p \<notin> set ps \<and> live h ps"
  by (auto simp: live_def)

lemma live_filter: "live h ps \<Longrightarrow> live h (filter P ps)"
  by (auto simp: live_def)

lemma live_upd_other: "p \<notin> set ps \<Longrightarrow> live (h(p := x)) ps = live h ps"
  by (auto simp: live_def)

lemma live_upd_Some: "live h ps \<Longrightarrow> live (h(p \<mapsto> e)) ps"
  by (auto simp: live_def)

lemma live_free: "live h ps \<Longrightarrow> \<forall>p \<in> set ps. \<not> P p \<Longrightarrow> live (free_all P h) ps"
  by (auto simp: live_def free_all_def)

lemma live_sort: "live h (rev (sort ps)) = live h ps"
  by (simp add: live_def)

lemma live_append: "live h (ps @ [p]) \<longleftrightarrow> live h ps \<and> p \<notin> set ps \<and> h p \<noteq> None"
  by (auto simp: live_def)

lemma deref_Some [simp]: "h p = Some e \<Longrightarrow> deref h p = Inr e"
  by (simp add: deref_def)

lemma expired_upd_other: "p \<noteq> q \<Longrightarrow> expired now (h(p := x)) q = expired now h q"
  by (simp add: expired_def)

text \<open>The ageing loop keeps exactly the entries that have not timed out, in order.\<close>

lemma aged_loop_spec:
  assumes "live h ps"
  shows "\<exists>nx'. aged_loop now ps h nx upd =
      Inr (filter (\<lambda>p. \<not> expired now h p) ps,
           free_all (\<lambda>p. p \<in> set ps \<and> expired now h p) h, nx',
           upd \<or> (\<exists>p \<in> set ps. expired now h p))
    \<and> nx' \<le> nx \<and> (\<forall>p \<in> set ps. \<forall>e. h p = Some e \<longrightarrow> \<not> expired now h p \<longrightarrow> nx' \<le> getTimeOut e)"
  using assms
proof (induction ps arbitrary: h nx upd)
  case Nil
  then show ?case by (simp add: free_all_def)
next
  case (Cons p ps)
  from Cons.prems obtain e where e: "h p = Some e" and p: "p \<notin> set ps" and l: "live h ps"
    by (auto simp: live_Cons)
  have same: "\<forall>q \<in> set ps. expired now (h(p := None)) q = expired now h q"
    using p by (auto simp: expired_def)
  show ?case
  proof (cases "expired now h p")
    case True
    have l': "live (h(p := None)) ps" using l p by (simp add: live_upd_other)
    have flt: "filter (\<lambda>q. \<not> expired now (h(p := None)) q) ps = filter (\<lambda>q. \<not> expired now h q) ps"
      by (rule filter_cong [OF refl]) (use same in auto)
    have other: "\<forall>q \<in> set ps. (h(p := None)) q = h q"
      using p by auto
    from Cons.IH [OF l', of nx True] obtain nx' where
      eq: "aged_loop now ps (h(p := None)) nx True =
        Inr (filter (\<lambda>q. \<not> expired now h q) ps,
             free_all (\<lambda>q. q \<in> set ps \<and> expired now (h(p := None)) q) (h(p := None)), nx', True)"
      and nx: "nx' \<le> nx" and nxq: "\<forall>q \<in> set ps. \<forall>e. (h(p := None)) q = Some e \<longrightarrow>
          \<not> expired now (h(p := None)) q \<longrightarrow> nx' \<le> getTimeOut e"
      unfolding flt by (auto simp only: simp_thms)
    have nx': "\<forall>q \<in> set ps. \<forall>e. h q = Some e \<longrightarrow> \<not> expired now h q \<longrightarrow> nx' \<le> getTimeOut e"
    proof (intro ballI allI impI)
      fix q e'
      assume q: "q \<in> set ps" "h q = Some e'" "\<not> expired now h q"
      then show "nx' \<le> getTimeOut e'"
        using bspec [OF nxq q(1)] bspec [OF same q(1)] bspec [OF other q(1)] by simp
    qed
    have fr: "free_all (\<lambda>q. q \<in> set ps \<and> expired now (h(p := None)) q) (h(p := None))
        = free_all (\<lambda>q. q \<in> set (p # ps) \<and> expired now h q) h"
      using True same p by (auto simp: free_all_def fun_eq_iff expired_def)
    show ?thesis
      using True e eq nx nx' fr by (auto simp: expired_def)
  next
    case False
    let ?nx = "if nx > getTimeOut e then getTimeOut e else nx"
    from Cons.IH [OF l, of ?nx upd] obtain nx' where
      eq: "aged_loop now ps h ?nx upd =
        Inr (filter (\<lambda>q. \<not> expired now h q) ps,
             free_all (\<lambda>q. q \<in> set ps \<and> expired now h q) h, nx',
             upd \<or> (\<exists>q \<in> set ps. expired now h q))"
      and nx': "nx' \<le> ?nx"
        "\<forall>q \<in> set ps. \<forall>e. h q = Some e \<longrightarrow> \<not> expired now h q \<longrightarrow> nx' \<le> getTimeOut e"
      by blast
    have fr: "free_all (\<lambda>q. q \<in> set ps \<and> expired now h q) h
        = free_all (\<lambda>q. q \<in> set (p # ps) \<and> expired now h q) h"
      using False by (auto simp: free_all_def fun_eq_iff)
    have "aged_loop now (p # ps) h nx upd =
        rbind (aged_loop now ps h ?nx upd) (\<lambda>(ks, h', nx', upd'). Inr (p # ks, h', nx', upd'))"
      using False e by (simp add: expired_def)
    then show ?thesis
      using False e nx' fr unfolding eq by (auto split: if_splits)
  qed
qed

lemma delete_loop_spec:
  fixes m :: oxm_basic_match
  assumes "live h ps"
  defines "D \<equiv> \<lambda>p. tryMatch_wild (the (h p)) m (wildcards m)"
  shows "delete_loop m ps h =
    Inr (filter (\<lambda>p. \<not> D p) ps, free_all (\<lambda>p. p \<in> set ps \<and> D p) h)"
  using assms(1) unfolding D_def
proof (induction ps arbitrary: h)
  case Nil
  then show ?case by (simp add: free_all_def)
next
  case (Cons p ps)
  from Cons.prems obtain e where e: "h p = Some e" and p: "p \<notin> set ps" and l: "live h ps"
    by (auto simp: live_Cons)
  have l': "live (h(p := None)) ps" using l p by (simp add: live_upd_other)
  have f: "filter (\<lambda>q. \<not> tryMatch_wild (the ((h(p := None)) q)) m (wildcards m)) ps
      = filter (\<lambda>q. \<not> tryMatch_wild (the (h q)) m (wildcards m)) ps"
    using p by (intro filter_cong) auto
  show ?case
  proof (cases "tryMatch_wild e m (wildcards m)")
    case True
    have "free_all (\<lambda>q. q \<in> set ps \<and> tryMatch_wild (the ((h(p := None)) q)) m (wildcards m)) (h(p := None))
        = free_all (\<lambda>q. q \<in> set (p # ps) \<and> tryMatch_wild (the (h q)) m (wildcards m)) h"
      using e p True by (auto simp: free_all_def fun_eq_iff)
    then show ?thesis
      using e True Cons.IH [OF l'] f by (simp del: fun_upd_apply)
  next
    case False
    have "free_all (\<lambda>q. q \<in> set ps \<and> tryMatch_wild (the (h q)) m (wildcards m)) h
        = free_all (\<lambda>q. q \<in> set (p # ps) \<and> tryMatch_wild (the (h q)) m (wildcards m)) h"
      using e False by (auto simp: free_all_def fun_eq_iff)
    then show ?thesis
      using e False Cons.IH [OF l] by simp
  qed
qed

lemma lookup_loop_spec:
  assumes "live h ps"
  shows "lookup_loop m ps h = Inr (find (\<lambda>p. tryMatch (the (h p)) m) ps)"
  using assms by (induction ps) (auto simp: live_Cons)

subsection \<open>The table invariant\<close>

text \<open>
  Every pointer of the vector is live and occurs once, the capacity is respected, and
  \<open>_nextAging\<close> is never later than the timeout of an entry.
\<close>

definition ft_inv :: "fheap \<times> flow_table \<Rightarrow> bool" where
  "ft_inv ht \<longleftrightarrow> (let (h, t) = ht in
     live h (ft_entries t) \<and>
     (ft_maxEntries t \<noteq> 0 \<longrightarrow> length (ft_entries t) \<le> ft_maxEntries t) \<and>
     (\<forall>p \<in> set (ft_entries t). \<forall>e. h p = Some e \<longrightarrow> ft_nextAging t \<le> getTimeOut e))"

lemma ft_invD:
  assumes "ft_inv (h, t)"
  shows "live h (ft_entries t)"
    and "ft_maxEntries t \<noteq> 0 \<Longrightarrow> length (ft_entries t) \<le> ft_maxEntries t"
    and "p \<in> set (ft_entries t) \<Longrightarrow> h p = Some e \<Longrightarrow> ft_nextAging t \<le> getTimeOut e"
  using assms by (auto simp: ft_inv_def)

lemma sortEntries_simps [simp]:
  "set (ft_entries (sortEntries t)) = set (ft_entries t)"
  "length (ft_entries (sortEntries t)) = length (ft_entries t)"
  "ft_maxEntries (sortEntries t) = ft_maxEntries t"
  "ft_nextAging (sortEntries t) = ft_nextAging t"
  "ft_agingInterval (sortEntries t) = ft_agingInterval t"
  "live h (ft_entries (sortEntries t)) = live h (ft_entries t)"
  by (simp_all add: sortEntries_def live_sort)

lemma scheduleNextAging_simps [simp]:
  "ft_entries (scheduleNextAging now t) = ft_entries t"
  "ft_maxEntries (scheduleNextAging now t) = ft_maxEntries t"
  "ft_nextAging (scheduleNextAging now t) = ft_nextAging t"
  "ft_agingInterval (scheduleNextAging now t) = ft_agingInterval t"
  by (simp_all add: scheduleNextAging_def)

lemma ft_inv_sort: "ft_inv (h, sortEntries t) = ft_inv (h, t)"
  by (simp add: ft_inv_def)

text \<open>An ageing pass: what is kept, what is freed, and the invariant it establishes.\<close>

lemma removeAgedEntries_spec:
  assumes "live h (ft_entries t)"
  shows "\<exists>t'. removeAgedEntries now (h, t) =
      Inr (free_all (\<lambda>p. p \<in> set (ft_entries t) \<and> expired now h p) h, t')
    \<and> set (ft_entries t') = {p \<in> set (ft_entries t). \<not> expired now h p}
    \<and> live (free_all (\<lambda>p. p \<in> set (ft_entries t) \<and> expired now h p) h) (ft_entries t')
    \<and> length (ft_entries t') \<le> length (ft_entries t)
    \<and> ft_maxEntries t' = ft_maxEntries t \<and> ft_agingInterval t' = ft_agingInterval t
    \<and> (\<forall>p \<in> set (ft_entries t'). \<forall>e. h p = Some e \<longrightarrow> ft_nextAging t' \<le> getTimeOut e)"
proof -
  let ?h = "free_all (\<lambda>p. p \<in> set (ft_entries t) \<and> expired now h p) h"
  let ?ks = "filter (\<lambda>p. \<not> expired now h p) (ft_entries t)"
  from aged_loop_spec [OF assms, of now simtime_max False] obtain nx' upd where
    eq: "aged_loop now (ft_entries t) h simtime_max False = Inr (?ks, ?h, nx', upd)"
    and nx': "\<forall>p \<in> set (ft_entries t). \<forall>e. h p = Some e \<longrightarrow> \<not> expired now h p \<longrightarrow> nx' \<le> getTimeOut e"
    by auto
  have l: "live ?h ?ks"
    by (rule live_free [OF live_filter [OF assms]]) auto
  show ?thesis
    using l nx' by (auto simp: removeAgedEntries_def eq Let_def)
qed

lemma removeAgedEntries_inv:
  assumes "ft_inv (h, t)"
  shows "\<exists>ht'. removeAgedEntries now (h, t) = Inr ht' \<and> ft_inv ht'"
proof -
  from removeAgedEntries_spec [OF ft_invD(1) [OF assms], of now] obtain t' where
    t': "removeAgedEntries now (h, t) =
        Inr (free_all (\<lambda>p. p \<in> set (ft_entries t) \<and> expired now h p) h, t')"
      "live (free_all (\<lambda>p. p \<in> set (ft_entries t) \<and> expired now h p) h) (ft_entries t')"
      "length (ft_entries t') \<le> length (ft_entries t)"
      "ft_maxEntries t' = ft_maxEntries t"
      "\<forall>p \<in> set (ft_entries t'). \<forall>e. h p = Some e \<longrightarrow> ft_nextAging t' \<le> getTimeOut e"
    by blast
  from t' show ?thesis
    using ft_invD(2) [OF assms] by (auto simp: ft_inv_def free_all_def)
qed

lemma removeAgedEntriesIfNeeded_inv:
  assumes "ft_inv (h, t)"
  shows "\<exists>ht'. removeAgedEntriesIfNeeded now (h, t) = Inr ht' \<and> ft_inv ht'"
  using assms removeAgedEntries_inv [OF assms, of now]
  by (auto simp: removeAgedEntriesIfNeeded_def)

text \<open>
  With interval ageing switched off the cached \<open>_nextAging\<close> decides whether a pass is
  due; the invariant makes that decision sound, so no expired entry survives it.
\<close>

lemma removeAgedEntriesIfNeeded_spec:
  assumes inv: "ft_inv (h, t)" and off: "ft_agingInterval t \<le> 0"
  shows "\<exists>h' t'. removeAgedEntriesIfNeeded now (h, t) = Inr (h', t') \<and> ft_inv (h', t')
    \<and> set (ft_entries t') = {p \<in> set (ft_entries t). \<not> expired now h p}
    \<and> (\<forall>p \<in> set (ft_entries t'). h' p = h p)
    \<and> ft_maxEntries t' = ft_maxEntries t \<and> ft_agingInterval t' = ft_agingInterval t"
proof (cases "ft_entries t \<noteq> [] \<and> ft_nextAging t \<le> now")
  case True
  then have run: "removeAgedEntriesIfNeeded now (h, t) = removeAgedEntries now (h, t)"
    using off by (simp add: removeAgedEntriesIfNeeded_def)
  from removeAgedEntries_spec [OF ft_invD(1) [OF inv], of now]
    removeAgedEntries_inv [OF inv, of now] run
  show ?thesis by (fastforce simp: free_all_def)
next
  case False
  then have run: "removeAgedEntriesIfNeeded now (h, t) = Inr (h, t)"
    using off by (auto simp: removeAgedEntriesIfNeeded_def)
  have "\<not> expired now h p" if "p \<in> set (ft_entries t)" for p
  proof -
    from that have "ft_entries t \<noteq> []" by auto
    with False have "now < ft_nextAging t" by simp
    then show ?thesis
      using ft_invD(3) [OF inv that] by (force simp: expired_def split: option.splits)
  qed
  then show ?thesis using run inv by auto
qed

text \<open>
  The insertion proper, once the capacity test has passed: the new entry is stamped, the
  table stays within its capacity, and the new entry survives the ageing pass.
\<close>

definition insert_step :: "simtime \<Rightarrow> ptr \<Rightarrow> fheap \<Rightarrow> flow_table \<Rightarrow> (bool \<times> fheap \<times> flow_table) res" where
  "insert_step now p h t =
     rbind (deref h p) (\<lambda>e.
       let t1 = t\<lparr>ft_entries := ft_entries t @ [p]\<rparr>;
           h1 = h(p \<mapsto> e\<lparr>creationTime := now, lastMatched := now\<rparr>)
       in rbind (removeAgedEntries now (h1, t1)) (\<lambda>(h2, t2). Inr (True, h2, sortEntries t2)))"

lemma addEntry_unfold:
  "addEntry now p ht0 =
     rbind (if ft_maxEntries (snd ht0) \<noteq> 0 then removeAgedEntriesIfNeeded now ht0 else Inr ht0)
       (\<lambda>(h, t).
        if ft_maxEntries t \<noteq> 0 \<and> length (ft_entries t) \<ge> ft_maxEntries t then Inr (False, h, t)
        else if p \<in> set (ft_entries t) then Inr (False, h, t)
        else insert_step now p h t)"
  unfolding addEntry_def insert_step_def by (rule refl)

lemma new_entry_not_expired:
  "now < simtime_max \<Longrightarrow> now < getTimeOut (e\<lparr>creationTime := now, lastMatched := now\<rparr>)"
  by (simp add: getTimeOut_def Let_def)

lemma insert_step_spec:
  assumes inv: "ft_inv (h, t)" and p: "p \<notin> set (ft_entries t)" and e: "h p = Some e"
    and room: "ft_maxEntries t = 0 \<or> length (ft_entries t) < ft_maxEntries t"
    and now: "now < simtime_max"
  shows "\<exists>h' t'. insert_step now p h t = Inr (True, h', t') \<and> ft_inv (h', t')
    \<and> p \<in> set (ft_entries t') \<and> h' p = Some (e\<lparr>creationTime := now, lastMatched := now\<rparr>)"
proof -
  let ?e = "e\<lparr>creationTime := now, lastMatched := now\<rparr>"
  let ?t1 = "t\<lparr>ft_entries := ft_entries t @ [p]\<rparr>"
  let ?h1 = "h(p \<mapsto> ?e)"
  have "live ?h1 (ft_entries ?t1)"
    using ft_invD(1) [OF inv] p by (simp add: live_append live_upd_other)
  from removeAgedEntries_spec [OF this, of now] obtain t' where
    run: "removeAgedEntries now (?h1, ?t1) =
        Inr (free_all (\<lambda>q. q \<in> set (ft_entries ?t1) \<and> expired now ?h1 q) ?h1, t')"
    and ents: "set (ft_entries t') = {q \<in> set (ft_entries ?t1). \<not> expired now ?h1 q}"
    and lv: "live (free_all (\<lambda>q. q \<in> set (ft_entries ?t1) \<and> expired now ?h1 q) ?h1) (ft_entries t')"
    and len: "length (ft_entries t') \<le> length (ft_entries ?t1)"
    and mx: "ft_maxEntries t' = ft_maxEntries ?t1"
    and nx: "\<forall>q \<in> set (ft_entries t'). \<forall>e. ?h1 q = Some e \<longrightarrow> ft_nextAging t' \<le> getTimeOut e"
    by blast
  let ?h' = "free_all (\<lambda>q. q \<in> set (ft_entries ?t1) \<and> expired now ?h1 q) ?h1"
  have np: "\<not> expired now ?h1 p"
    using new_entry_not_expired [OF now, of e] by (simp add: expired_def)
  have inv': "ft_inv (?h', t')"
    using lv len mx nx room by (auto simp: ft_inv_def free_all_def)
  have "insert_step now p h t = Inr (True, ?h', sortEntries t')"
    using e run by (simp add: insert_step_def)
  moreover have "?h' p = Some ?e" using np by (simp add: free_all_def)
  moreover have "p \<in> set (ft_entries t')" using ents np by simp
  ultimately show ?thesis using inv' by (auto simp: ft_inv_sort)
qed

subsection \<open>Properties of the table\<close>

lemma aged_or_same:
  assumes inv: "ft_inv (h, t)" and p: "p \<notin> set (ft_entries t)"
  shows "\<exists>h0 t0. removeAgedEntriesIfNeeded now (h, t) = Inr (h0, t0) \<and> ft_inv (h0, t0)
    \<and> set (ft_entries t0) \<subseteq> set (ft_entries t) \<and> h0 p = h p \<and> ft_maxEntries t0 = ft_maxEntries t"
proof (cases "ft_entries t = [] \<or> ft_agingInterval t > 0 \<or> now < ft_nextAging t")
  case True
  then show ?thesis using inv by (auto simp: removeAgedEntriesIfNeeded_def)
next
  case False
  then have "removeAgedEntriesIfNeeded now (h, t) = removeAgedEntries now (h, t)"
    by (simp add: removeAgedEntriesIfNeeded_def)
  then show ?thesis
    using removeAgedEntries_spec [OF ft_invD(1) [OF inv], of now] removeAgedEntries_inv [OF inv, of now] p
    by (fastforce simp: free_all_def)
qed


text \<open>
  Deleting by match returns normally on a well-formed table, keeps the table invariant,
  removes (and frees) exactly the entries whose fields agree with the given match outside its
  wildcards, and keeps the order of the others.
\<close>

theorem deleteMatchingEntries_correct:
  assumes inv: "ft_inv (h, t)"
  shows "\<exists>h' t'. deleteMatchingEntries m (h, t) = Inr (h', t') \<and> ft_inv (h', t')
    \<and> ft_entries t' = filter (\<lambda>p. \<not> tryMatch_wild (the (h p)) m (wildcards m)) (ft_entries t)
    \<and> (\<forall>p. h' p = (if p \<in> set (ft_entries t) \<and> tryMatch_wild (the (h p)) m (wildcards m)
                     then None else h p))"
proof -
  let ?D = "\<lambda>p. tryMatch_wild (the (h p)) m (wildcards m)"
  have run: "deleteMatchingEntries m (h, t) =
      Inr (free_all (\<lambda>p. p \<in> set (ft_entries t) \<and> ?D p) h,
           t\<lparr>ft_entries := filter (\<lambda>p. \<not> ?D p) (ft_entries t)\<rparr>)"
    using delete_loop_spec [OF ft_invD(1) [OF inv], of m] by (simp add: deleteMatchingEntries_def)
  have lv: "live (free_all (\<lambda>p. p \<in> set (ft_entries t) \<and> ?D p) h) (filter (\<lambda>p. \<not> ?D p) (ft_entries t))"
    by (rule live_free [OF live_filter [OF ft_invD(1) [OF inv]]]) auto
  have "ft_inv (free_all (\<lambda>p. p \<in> set (ft_entries t) \<and> ?D p) h,
      t\<lparr>ft_entries := filter (\<lambda>p. \<not> ?D p) (ft_entries t)\<rparr>)"
    using lv ft_invD(2,3) [OF inv] length_filter_le [of "\<lambda>p. \<not> ?D p" "ft_entries t"]
    by (auto simp: ft_inv_def free_all_def intro: order_trans [OF length_filter_le])
  then show ?thesis
    unfolding run by (simp add: free_all_def)
qed


subsection \<open>Examples\<close>

definition example_match :: "32 word \<Rightarrow> oxm_basic_match" where
  "example_match w = \<lparr>OFB_IN_PORT = 1, OFB_ETH_SRC = 2, OFB_ETH_DST = 3, OFB_VLAN_VID = 4, OFB_VLAN_PCP = 5,
     OFB_ETH_TYPE = 2048, OFB_IP_DSCP = 0, OFB_IP_PROTO = 17, OFB_IPV4_SRC = 6, OFB_IPV4_DST = 7, OFB_TP_SRC = 8,
     OFB_TP_DST = 9, OFB_ARP_OP = 0, OFB_ARP_SPA = 0, OFB_ARP_TPA = 0, OFB_ARP_SHA = 0, OFB_ARP_THA = 0,
     OFB_TAG = 0, wildcards = w\<rparr>"

definition example_entry :: of100_entry where
  "example_entry = \<lparr>creationTime = 1, lastMatched = 2, hardTimeout = 0, idleTimeout = 3, cookie = 0,
     priority = 7, flags = 0, ematch = example_match 0, instructions = [2]\<rparr>"

definition example_heap :: fheap where
  "example_heap = (\<lambda>p. if p = 4 \<or> p = 9 then Some example_entry else None)"

definition example_table :: flow_table where
  "example_table = \<lparr>ft_index = 0, ft_entries = [4], ft_maxEntries = 8, ft_nextAging = 0,
     ft_agingInterval = 0, ft_agingMsgs = []\<rparr>"

lemma example_inv: "ft_inv (example_heap, example_table)"
  by (simp add: ft_inv_def example_heap_def example_table_def example_entry_def getTimeOut_def live_def simtime_max_def)


theorem deleteMatchingEntries_correct_witness:
  "\<exists>h' t'. deleteMatchingEntries (example_match OFPFW_ALL) (example_heap, example_table) = Inr (h', t') \<and> ft_inv (h', t')
    \<and> ft_entries t' = filter (\<lambda>p. \<not> tryMatch_wild (the (example_heap p)) (example_match OFPFW_ALL) (wildcards (example_match OFPFW_ALL))) (ft_entries example_table)
    \<and> (\<forall>p. h' p = (if p \<in> set (ft_entries example_table) \<and> tryMatch_wild (the (example_heap p)) (example_match OFPFW_ALL) (wildcards (example_match OFPFW_ALL))
                     then None else example_heap p))"
  by (rule deleteMatchingEntries_correct [OF example_inv])


end
