(* ===== verification/SRPTable.thy ===== *)
theory SRPTable
  imports StdMap
begin

text \<open>
  The stream reservation table of CoRE4INET (services/avb/SRP/SRPTable.cc): talkers and
  listeners per VLAN and stream, registration and withdrawal, ageing of listeners and the
  bandwidth sums the shapers read. The nested \<open>std::unordered_map\<close>s are key-sorted maps,
  one of the iteration orders the standard allows; reading \<open>talkerTables[vid]\<close> for an
  absent VLAN reads an empty table. Signals are collected in \<open>srp_emitted\<close>.
\<close>

subsection \<open>Entries\<close>

datatype sr_class = SR_CLASS_A | SR_CLASS_B

text \<open>The enumeration order of \<open>SR_CLASS\<close>.\<close>

instantiation sr_class :: linorder
begin

definition less_sr_class :: "sr_class \<Rightarrow> sr_class \<Rightarrow> bool" where
  "less_sr_class a b \<longleftrightarrow> a = SR_CLASS_A \<and> b = SR_CLASS_B"

definition less_eq_sr_class :: "sr_class \<Rightarrow> sr_class \<Rightarrow> bool" where
  "less_eq_sr_class a b \<longleftrightarrow> a = b \<or> a < b"

instance
proof
  fix x y z :: sr_class
  show "x < y \<longleftrightarrow> x \<le> y \<and> \<not> y \<le> x" by (cases x; cases y) (simp_all add: less_eq_sr_class_def less_sr_class_def)
  show "x \<le> x" by (simp add: less_eq_sr_class_def)
  show "x \<le> y \<Longrightarrow> y \<le> z \<Longrightarrow> x \<le> z"
    by (cases x; cases y; cases z) (simp_all add: less_eq_sr_class_def less_sr_class_def)
  show "x \<le> y \<Longrightarrow> y \<le> x \<Longrightarrow> x = y" by (cases x; cases y) (simp_all add: less_eq_sr_class_def less_sr_class_def)
  show "x \<le> y \<or> y \<le> x" by (cases x; cases y) (simp_all add: less_eq_sr_class_def less_sr_class_def)
qed

end

record talker_entry =
  te_streamId :: "64 word"
  te_srClass :: sr_class
  te_address :: mac
  te_module :: cmodule
  te_framesize :: "64 word"
  te_intervalFrames :: "16 word"
  te_vlan_id :: "16 word"
  te_pcp :: "8 word"
  te_insertionTime :: simtime
  te_isStatic :: bool

record listener_entry =
  le_streamId :: "64 word"
  le_module :: cmodule
  le_vlan_id :: "16 word"
  le_insertionTime :: simtime
  le_isStatic :: bool

type_synonym talker_table = "(64 word, talker_entry) smap"
type_synonym listener_list = "(cmodule, listener_entry) smap"
type_synonym listener_table = "(64 word, listener_list) smap"

datatype srp_signal =
    NF_AVB_TALKER_REGISTERED talker_entry
  | NF_AVB_TALKER_UPDATED talker_entry
  | NF_AVB_LISTENER_REGISTERED listener_entry
  | NF_AVB_LISTENER_UPDATED listener_entry
  | NF_AVB_LISTENER_UNREGISTERED listener_entry
  | NF_AVB_LISTENER_REGISTRATION_TIMEOUT listener_entry

record srp_table =
  talkerTables :: "(16 word, talker_table) smap"
  listenerTables :: "(16 word, listener_table) smap"
  srp_nextAging :: simtime
  srp_agingTime :: rat            \<comment> \<open>the parameter \<open>agingTime\<close>\<close>
  srp_emitted :: "srp_signal list"

definition srp_empty :: "rat \<Rightarrow> srp_table" where
  "srp_empty ag = \<lparr>talkerTables = [], listenerTables = [], srp_nextAging = 0,
     srp_agingTime = ag, srp_emitted = []\<rparr>"

definition srp_emit :: "srp_signal \<Rightarrow> srp_table \<Rightarrow> srp_table" where
  "srp_emit s t = t\<lparr>srp_emitted := srp_emitted t @ [s]\<rparr>"

subsection \<open>Ageing of listeners\<close>

text \<open>
  The three nested loops of \<open>removeAgedEntries\<close>, each returning what is kept, the running
  \<open>nextAging\<close> and the entries that timed out.
\<close>

fun age_list :: "simtime \<Rightarrow> rat \<Rightarrow> listener_list \<Rightarrow> simtime \<Rightarrow> listener_list \<times> simtime \<times> listener_entry list" where
  "age_list now ag [] nx = ([], nx, [])"
| "age_list now ag ((m, l) # ls) nx =
     (let entryAging = le_insertionTime l + ag in
      if \<not> le_isStatic l \<and> now \<ge> entryAging
      then (let (ks, nx', ts) = age_list now ag ls nx in (ks, nx', l # ts))
      else (let (ks, nx', ts) = age_list now ag ls (if \<not> le_isStatic l \<and> nx > entryAging then entryAging else nx)
            in ((m, l) # ks, nx', ts)))"

fun age_table :: "simtime \<Rightarrow> rat \<Rightarrow> listener_table \<Rightarrow> simtime \<Rightarrow> listener_table \<times> simtime \<times> listener_entry list" where
  "age_table now ag [] nx = ([], nx, [])"
| "age_table now ag ((s, l) # t) nx =
     (let (l', nx1, ts1) = age_list now ag l nx;
          (t', nx2, ts2) = age_table now ag t nx1
      in (if l' = [] then t' else (s, l') # t', nx2, ts1 @ ts2))"

fun age_tables :: "simtime \<Rightarrow> rat \<Rightarrow> (16 word, listener_table) smap \<Rightarrow> simtime
    \<Rightarrow> (16 word, listener_table) smap \<times> simtime \<times> listener_entry list" where
  "age_tables now ag [] nx = ([], nx, [])"
| "age_tables now ag ((v, t) # ts) nx =
     (let (t', nx1, es1) = age_table now ag t nx;
          (ts', nx2, es2) = age_tables now ag ts nx1
      in ((v, t') # ts', nx2, es1 @ es2))"

definition removeAgedEntries_srp :: "simtime \<Rightarrow> srp_table \<Rightarrow> srp_table" where
  "removeAgedEntries_srp now t =
     (if srp_agingTime t = 0 then t
      else let (ls, nx, es) = age_tables now (srp_agingTime t) (listenerTables t) 0
           in t\<lparr>listenerTables := ls, srp_nextAging := nx,
                 srp_emitted := srp_emitted t @ map NF_AVB_LISTENER_REGISTRATION_TIMEOUT es\<rparr>)"

definition removeAgedEntriesIfNeeded_srp :: "simtime \<Rightarrow> srp_table \<Rightarrow> srp_table" where
  "removeAgedEntriesIfNeeded_srp now t =
     (if srp_nextAging t \<noteq> 0 \<and> now \<ge> srp_nextAging t then removeAgedEntries_srp now t else t)"

subsection \<open>Queries\<close>

definition containsStream :: "mac \<Rightarrow> 16 word \<Rightarrow> srp_table \<Rightarrow> bool" where
  "containsStream addr vid t = list_ex (\<lambda>(s, e). te_address e = addr) (smap_inner vid (talkerTables t))"

definition getListenersForStreamId :: "simtime \<Rightarrow> 64 word \<Rightarrow> 16 word \<Rightarrow> srp_table \<Rightarrow> cmodule list \<times> srp_table" where
  "getListenersForStreamId now sid vid t0 =
     (let t = removeAgedEntriesIfNeeded_srp now t0;
          ltable = smap_inner vid (listenerTables t)
      in case smap_get sid ltable of
           None \<Rightarrow> ([], t)
         | Some ls \<Rightarrow> (map fst ls, t))"

definition getStreamIdForTalkerAddress :: "mac \<Rightarrow> 16 word \<Rightarrow> srp_table \<Rightarrow> 64 word res" where
  "getStreamIdForTalkerAddress addr vid t =
     (case find (\<lambda>(s, e). te_address e = addr) (smap_inner vid (talkerTables t)) of
        Some (s, e) \<Rightarrow> Inr s
      | None \<Rightarrow> Inl (InvalidArgument ''no stream for this talker address registered''))"

definition getListenersForTalkerAddress :: "simtime \<Rightarrow> mac \<Rightarrow> 16 word \<Rightarrow> srp_table \<Rightarrow> (cmodule list \<times> srp_table) res" where
  "getListenersForTalkerAddress now addr vid t =
     rbind (getStreamIdForTalkerAddress addr vid t) (\<lambda>sid. Inr (getListenersForStreamId now sid vid t))"

definition getSrClassForTalkerAddress :: "mac \<Rightarrow> 16 word \<Rightarrow> srp_table \<Rightarrow> sr_class res" where
  "getSrClassForTalkerAddress addr vid t =
     (case find (\<lambda>(s, e). te_address e = addr) (smap_inner vid (talkerTables t)) of
        Some (s, e) \<Rightarrow> Inr (te_srClass e)
      | None \<Rightarrow> Inl (InvalidArgument ''no stream for this talker address registered''))"

definition getTalkerForStreamId :: "simtime \<Rightarrow> 64 word \<Rightarrow> 16 word \<Rightarrow> srp_table \<Rightarrow> cmodule \<times> srp_table" where
  "getTalkerForStreamId now sid vid t0 =
     (let t = removeAgedEntriesIfNeeded_srp now t0 in
      case smap_get sid (smap_inner vid (talkerTables t)) of
        Some e \<Rightarrow> (te_module e, t)
      | None \<Rightarrow> (nullptr, t))"

definition getTalkerEntryForStreamId :: "simtime \<Rightarrow> 64 word \<Rightarrow> 16 word \<Rightarrow> srp_table \<Rightarrow> talker_entry option \<times> srp_table" where
  "getTalkerEntryForStreamId now sid vid t0 =
     (let t = removeAgedEntriesIfNeeded_srp now t0 in
      (smap_get sid (smap_inner vid (talkerTables t)), t))"

definition getVidsForStreamId :: "simtime \<Rightarrow> 64 word \<Rightarrow> srp_table \<Rightarrow> 16 word list \<times> srp_table" where
  "getVidsForStreamId now sid t0 =
     (let t = removeAgedEntriesIfNeeded_srp now t0 in
      (map fst (filter (\<lambda>(v, tab). smap_get sid tab \<noteq> None) (talkerTables t)), t))"

definition getTalkerEntries :: "srp_table \<Rightarrow> talker_entry list" where
  "getTalkerEntries t = concat (map (\<lambda>(v, tab). map snd tab) (talkerTables t))"

definition getListenerEntries :: "srp_table \<Rightarrow> listener_entry list" where
  "getListenerEntries t =
     concat (map (\<lambda>(v, tab). concat (map (\<lambda>(s, ls). map snd ls) tab)) (listenerTables t))"

definition getNumTalkerEntries :: "simtime \<Rightarrow> srp_table \<Rightarrow> nat \<times> srp_table" where
  "getNumTalkerEntries now t0 =
     (let t = removeAgedEntriesIfNeeded_srp now t0 in
      (sum_list (map (\<lambda>(v, tab). length tab) (talkerTables t)), t))"

definition getNumListenerEntries :: "simtime \<Rightarrow> srp_table \<Rightarrow> nat \<times> srp_table" where
  "getNumListenerEntries now t0 =
     (let t = removeAgedEntriesIfNeeded_srp now t0 in
      (sum_list (map (\<lambda>(v, tab). sum_list (map (\<lambda>(s, ls). length ls) tab)) (listenerTables t)), t))"

subsection \<open>Bandwidth\<close>

text \<open>
  \<open>bandwidthFromSizeAndInterval\<close> (HelperFunctions.cc): preamble and start-of-frame delimiter
  are 8 bytes, the inter-frame gap 96 bits. The double arithmetic is exact here, the conversion
  to \<open>unsigned long\<close> wraps. The observation windows come from the run configuration.
\<close>

definition bandwidthFromSizeAndInterval :: "64 word \<Rightarrow> 16 word \<Rightarrow> rat \<Rightarrow> 64 word" where
  "bandwidthFromSizeAndInterval framesize intervalFrames interval =
     word_of_int \<lceil>(1 / interval) * of_int (uint intervalFrames)
                  * of_int (uint ((framesize + 7 + 1) * 8 + 96))\<rceil>"

type_synonym obs_window = "sr_class \<Rightarrow> rat"

definition talker_bandwidth :: "obs_window \<Rightarrow> talker_entry \<Rightarrow> 64 word" where
  "talker_bandwidth win e =
     bandwidthFromSizeAndInterval (te_framesize e + 1) (te_intervalFrames e) (win (te_srClass e))"

definition srp_registrations :: "srp_table \<Rightarrow> (16 word \<times> 64 word \<times> cmodule) list" where
  "srp_registrations t =
     concat (map (\<lambda>(v, tab). concat (map (\<lambda>(s, ls). map (\<lambda>(m, l). (v, s, m)) ls) tab)) (listenerTables t))"

fun bandwidth_loop :: "(talker_entry \<Rightarrow> 64 word) \<Rightarrow> cmodule \<Rightarrow> (16 word, talker_table) smap
    \<Rightarrow> (16 word \<times> 64 word \<times> cmodule) list \<Rightarrow> 64 word \<Rightarrow> 64 word res" where
  "bandwidth_loop f m tts [] acc = Inr acc"
| "bandwidth_loop f m tts ((v, s, k) # rs) acc =
     (if k = m then
        (case smap_get s (smap_inner v tts) of
           None \<Rightarrow> Inl (NullDeref ''talker entry'')
         | Some e \<Rightarrow> bandwidth_loop f m tts rs (acc + f e))
      else bandwidth_loop f m tts rs acc)"

definition getBandwidthForModule :: "obs_window \<Rightarrow> simtime \<Rightarrow> cmodule \<Rightarrow> srp_table \<Rightarrow> (64 word \<times> srp_table) res" where
  "getBandwidthForModule win now m t0 =
     (let t = removeAgedEntriesIfNeeded_srp now t0 in
      rbind (bandwidth_loop (talker_bandwidth win) m (talkerTables t) (srp_registrations t) 0)
        (\<lambda>b. Inr (b, t)))"

definition getBandwidthForModuleAndSRClass :: "obs_window \<Rightarrow> simtime \<Rightarrow> cmodule \<Rightarrow> sr_class \<Rightarrow> srp_table
    \<Rightarrow> (64 word \<times> srp_table) res" where
  "getBandwidthForModuleAndSRClass win now m c t0 =
     (let t = removeAgedEntriesIfNeeded_srp now t0 in
      rbind (bandwidth_loop (\<lambda>e. if te_srClass e = c then talker_bandwidth win e else 0) m
               (talkerTables t) (srp_registrations t) 0)
        (\<lambda>b. Inr (b, t)))"

definition getBandwidthForStream :: "obs_window \<Rightarrow> simtime \<Rightarrow> 64 word \<Rightarrow> 16 word \<Rightarrow> srp_table
    \<Rightarrow> (64 word \<times> srp_table) res" where
  "getBandwidthForStream win now sid vid t0 =
     (let t = removeAgedEntriesIfNeeded_srp now t0 in
      case smap_get sid (smap_inner vid (talkerTables t)) of
        None \<Rightarrow> Inl (RuntimeError ''talkerTable entry not found'')
      | Some e \<Rightarrow> Inr (talker_bandwidth win e, t))"

subsection \<open>Registration and withdrawal\<close>

definition set_talker :: "16 word \<Rightarrow> 64 word \<Rightarrow> talker_entry \<Rightarrow> srp_table \<Rightarrow> srp_table" where
  "set_talker vid sid e t =
     t\<lparr>talkerTables := smap_put vid (smap_put sid e (smap_inner vid (talkerTables t))) (talkerTables t)\<rparr>"

definition updateTalkerWithStreamId :: "simtime \<Rightarrow> 64 word \<Rightarrow> cmodule \<Rightarrow> mac \<Rightarrow> sr_class \<Rightarrow> 64 word
    \<Rightarrow> 16 word \<Rightarrow> 16 word \<Rightarrow> 8 word \<Rightarrow> bool \<Rightarrow> srp_table \<Rightarrow> (bool \<times> srp_table) res" where
  "updateTalkerWithStreamId now sid m addr cls fs ivf vid pcp static t =
     (case smap_get sid (smap_inner vid (talkerTables t)) of
        None \<Rightarrow>
          if fs = 0 then Inl (InvalidArgument ''cannot register talker with zero framesize'')
          else if ivf = 0 then Inl (InvalidArgument ''cannot register talker with zero frameInterval'')
          else if m = nullptr then Inl (InvalidArgument ''cannot register talker without module'')
          else
            (let e = \<lparr>te_streamId = sid, te_srClass = cls, te_address = addr, te_module = m,
                      te_framesize = fs, te_intervalFrames = ivf, te_vlan_id = vid, te_pcp = pcp,
                      te_insertionTime = now, te_isStatic = static\<rparr>;
                 t1 = set_talker vid sid e t
             in Inr (False, if static then t1 else srp_emit (NF_AVB_TALKER_REGISTERED e) t1))
      | Some e0 \<Rightarrow>
          if te_module e0 \<noteq> m then Inl (InvalidArgument ''trying to update talker from wrong module'')
          else
            (let e = e0\<lparr>te_streamId := sid, te_srClass := cls, te_address := addr, te_module := m,
                        te_framesize := (if fs > 0 then fs else te_framesize e0),
                        te_intervalFrames := (if ivf > 0 then ivf else te_intervalFrames e0),
                        te_vlan_id := vid, te_pcp := pcp,
                        te_insertionTime := now, te_isStatic := static\<rparr>;
                 t1 = set_talker vid sid e t
             in Inr (True, if static then t1 else srp_emit (NF_AVB_TALKER_UPDATED e) t1)))"

definition removeTalkerWithStreamId :: "64 word \<Rightarrow> cmodule \<Rightarrow> mac \<Rightarrow> 16 word \<Rightarrow> srp_table \<Rightarrow> (bool \<times> srp_table) res" where
  "removeTalkerWithStreamId sid m addr vid t =
     (let tab = smap_inner vid (talkerTables t) in
      case smap_get sid tab of
        None \<Rightarrow> Inr (False, t)
      | Some e \<Rightarrow>
          if te_module e \<noteq> m then Inl (InvalidArgument ''trying to unregister talker from wrong module'')
          else Inr (True, t\<lparr>talkerTables := smap_put vid (smap_erase sid tab) (talkerTables t)\<rparr>))"

definition set_listeners :: "16 word \<Rightarrow> 64 word \<Rightarrow> listener_list \<Rightarrow> srp_table \<Rightarrow> srp_table" where
  "set_listeners vid sid ls t =
     (let tab = smap_inner vid (listenerTables t);
          tab' = (if ls = [] then smap_erase sid tab else smap_put sid ls tab)
      in t\<lparr>listenerTables := smap_put vid tab' (listenerTables t)\<rparr>)"

definition updateListenerWithStreamId :: "simtime \<Rightarrow> 64 word \<Rightarrow> cmodule \<Rightarrow> 16 word \<Rightarrow> bool \<Rightarrow> srp_table
    \<Rightarrow> (bool \<times> srp_table) res" where
  "updateListenerWithStreamId now sid m vid static t =
     (if smap_get sid (smap_inner vid (talkerTables t)) = None
      then Inl (InvalidArgument ''no talker for stream'')
      else
        (let llist = smap_inner sid (smap_inner vid (listenerTables t));
             updated = (smap_get m llist \<noteq> None)
         in if \<not> updated \<and> m = nullptr
            then Inl (InvalidArgument ''cannot register listener without module'')
            else
              (let l = \<lparr>le_streamId = sid, le_module = m, le_vlan_id = vid,
                        le_insertionTime = now, le_isStatic = static\<rparr>;
                   t1 = set_listeners vid sid (smap_put m l llist) t;
                   t2 = (if static then t1
                         else if updated then srp_emit (NF_AVB_LISTENER_UPDATED l) t1
                         else srp_emit (NF_AVB_LISTENER_REGISTERED l) t1);
                   t3 = (if srp_nextAging t2 = 0 then t2\<lparr>srp_nextAging := now + srp_agingTime t2\<rparr> else t2)
               in Inr (updated, t3))))"

definition removeListenerWithStreamId :: "64 word \<Rightarrow> cmodule \<Rightarrow> 16 word \<Rightarrow> srp_table \<Rightarrow> bool \<times> srp_table" where
  "removeListenerWithStreamId sid m vid t =
     (case smap_get sid (smap_inner vid (listenerTables t)) of
        None \<Rightarrow> (False, t)
      | Some ls \<Rightarrow>
          (case smap_get m ls of
             None \<Rightarrow> (False, t)
           | Some l \<Rightarrow>
               (True, set_listeners vid sid (smap_erase m ls) (srp_emit (NF_AVB_LISTENER_UNREGISTERED l) t))))"

subsection \<open>The ageing loops, specified\<close>

definition listener_alive :: "simtime \<Rightarrow> rat \<Rightarrow> listener_entry \<Rightarrow> bool" where
  "listener_alive now ag l \<longleftrightarrow> le_isStatic l \<or> now < le_insertionTime l + ag"

definition aged_llist :: "simtime \<Rightarrow> rat \<Rightarrow> listener_list \<Rightarrow> listener_list" where
  "aged_llist now ag ls = filter (\<lambda>(m, l). listener_alive now ag l) ls"

definition aged_ltable :: "simtime \<Rightarrow> rat \<Rightarrow> listener_table \<Rightarrow> listener_table" where
  "aged_ltable now ag tab = filter (\<lambda>(s, ls). ls \<noteq> []) (map (\<lambda>(s, ls). (s, aged_llist now ag ls)) tab)"

lemma age_list_fst: "fst (age_list now ag ls nx) = aged_llist now ag ls"
  by (induction now ag ls nx rule: age_list.induct)
    (auto simp: aged_llist_def listener_alive_def Let_def split: prod.splits)

lemma age_table_fst: "fst (age_table now ag tab nx) = aged_ltable now ag tab"
proof (induction now ag tab nx rule: age_table.induct)
  case (2 now ag s l t nx)
  obtain l' nx1 ts1 where a: "age_list now ag l nx = (l', nx1, ts1)" by (cases "age_list now ag l nx") auto
  obtain t' nx2 ts2 where b: "age_table now ag t nx1 = (t', nx2, ts2)" by (cases "age_table now ag t nx1") auto
  show ?case
    using age_list_fst [of now ag l nx] 2 [OF a [symmetric] refl refl] a b
    by (simp add: aged_ltable_def)
qed (simp add: aged_ltable_def)

lemma age_tables_fst:
  "fst (age_tables now ag tabs nx) = map (\<lambda>(v, tab). (v, aged_ltable now ag tab)) tabs"
proof (induction now ag tabs nx rule: age_tables.induct)
  case (2 now ag v t ts nx)
  obtain t' nx1 es1 where a: "age_table now ag t nx = (t', nx1, es1)" by (cases "age_table now ag t nx") auto
  obtain ts' nx2 es2 where b: "age_tables now ag ts nx1 = (ts', nx2, es2)" by (cases "age_tables now ag ts nx1") auto
  show ?case
    using age_table_fst [of now ag t nx] 2 [OF a [symmetric] refl refl] a b by simp
qed simp

text \<open>The running minimum starts at 0 and never moves as long as no entry ages before time 0.\<close>

definition entry_times_ok :: "rat \<Rightarrow> listener_entry \<Rightarrow> bool" where
  "entry_times_ok ag l \<longleftrightarrow> 0 \<le> le_insertionTime l + ag"

lemma age_list_next:
  "\<forall>(m, l) \<in> set ls. entry_times_ok ag l \<Longrightarrow> fst (snd (age_list now ag ls 0)) = 0"
  by (induction ls) (auto simp: entry_times_ok_def Let_def split: prod.splits)

lemma age_table_next:
  assumes "\<forall>(s, ls) \<in> set tab. \<forall>(m, l) \<in> set ls. entry_times_ok ag l"
  shows "fst (snd (age_table now ag tab 0)) = 0"
  using assms
proof (induction tab)
  case (Cons p tab)
  obtain s l where p: "p = (s, l)" by (cases p)
  obtain l' nx1 ts1 where a: "age_list now ag l 0 = (l', nx1, ts1)" by (cases "age_list now ag l 0") auto
  have "nx1 = 0" using age_list_next [of l ag now] Cons.prems p a by simp
  then show ?case using Cons p a by (auto split: prod.splits)
qed simp

lemma age_tables_next:
  assumes "\<forall>(v, tab) \<in> set tabs. \<forall>(s, ls) \<in> set tab. \<forall>(m, l) \<in> set ls. entry_times_ok ag l"
  shows "fst (snd (age_tables now ag tabs 0)) = 0"
  using assms
proof (induction tabs)
  case (Cons p tabs)
  obtain v t where p: "p = (v, t)" by (cases p)
  obtain t' nx1 es1 where a: "age_table now ag t 0 = (t', nx1, es1)" by (cases "age_table now ag t 0") auto
  have "nx1 = 0" using age_table_next [of t ag now] Cons.prems p a by simp
  then show ?case using Cons p a by (auto split: prod.splits)
qed simp

lemma smap_get_aged_ltable:
  assumes "smap_wf tab"
  shows "smap_get s (aged_ltable now ag tab) =
     (case smap_get s tab of
        None \<Rightarrow> None
      | Some ls \<Rightarrow> if aged_llist now ag ls = [] then None else Some (aged_llist now ag ls))"
proof -
  have wf: "smap_wf (map (\<lambda>(s, ls). (s, aged_llist now ag ls)) tab)"
    using assms smap_wf_map [of "\<lambda>_ ls. aged_llist now ag ls" tab] by simp
  show ?thesis
    unfolding aged_ltable_def smap_get_filter [OF wf, of s "\<lambda>_ ls. ls \<noteq> []"]
      smap_get_map [of s "\<lambda>_ ls. aged_llist now ag ls" tab]
    by (cases "smap_get s tab") simp_all
qed

subsection \<open>Well-formed tables\<close>

definition talker_ok :: "16 word \<Rightarrow> 64 word \<Rightarrow> talker_entry \<Rightarrow> bool" where
  "talker_ok v s e \<longleftrightarrow> te_streamId e = s \<and> te_vlan_id e = v \<and> te_module e \<noteq> nullptr
     \<and> te_framesize e \<noteq> 0 \<and> te_intervalFrames e \<noteq> 0"

definition ttable_ok :: "16 word \<Rightarrow> talker_table \<Rightarrow> bool" where
  "ttable_ok v tab \<longleftrightarrow> smap_wf tab \<and> smap_all (talker_ok v) tab"

definition listener_ok :: "16 word \<Rightarrow> 64 word \<Rightarrow> cmodule \<Rightarrow> listener_entry \<Rightarrow> bool" where
  "listener_ok v s m l \<longleftrightarrow> le_streamId l = s \<and> le_vlan_id l = v \<and> le_module l = m \<and> m \<noteq> nullptr"

definition llist_ok :: "16 word \<Rightarrow> 64 word \<Rightarrow> listener_list \<Rightarrow> bool" where
  "llist_ok v s ls \<longleftrightarrow> smap_wf ls \<and> smap_all (listener_ok v s) ls"

definition ltable_ok :: "16 word \<Rightarrow> listener_table \<Rightarrow> bool" where
  "ltable_ok v tab \<longleftrightarrow> smap_wf tab \<and> smap_all (\<lambda>s ls. llist_ok v s ls \<and> ls \<noteq> []) tab"

definition srp_inv :: "srp_table \<Rightarrow> bool" where
  "srp_inv t \<longleftrightarrow> smap_wf (talkerTables t) \<and> smap_all ttable_ok (talkerTables t)
     \<and> smap_wf (listenerTables t) \<and> smap_all ltable_ok (listenerTables t)"

text \<open>Every stream with listeners has a talker.\<close>

definition srp_linked :: "srp_table \<Rightarrow> bool" where
  "srp_linked t \<longleftrightarrow> (\<forall>v s. smap_get s (smap_inner v (listenerTables t)) \<noteq> None
     \<longrightarrow> smap_get s (smap_inner v (talkerTables t)) \<noteq> None)"

lemma srp_inv_inner:
  assumes "srp_inv t"
  shows "ttable_ok v (smap_inner v (talkerTables t))" and "ltable_ok v (smap_inner v (listenerTables t))"
  using assms smap_inner_all [of ttable_ok "talkerTables t" v] smap_inner_all [of ltable_ok "listenerTables t" v]
  by (simp_all add: srp_inv_def ttable_ok_def ltable_ok_def)

lemma srp_emit_simps [simp]:
  "talkerTables (srp_emit s t) = talkerTables t"
  "listenerTables (srp_emit s t) = listenerTables t"
  "srp_nextAging (srp_emit s t) = srp_nextAging t"
  "srp_agingTime (srp_emit s t) = srp_agingTime t"
  by (simp_all add: srp_emit_def)

lemma srp_inv_cong:
  "talkerTables t' = talkerTables t \<Longrightarrow> listenerTables t' = listenerTables t \<Longrightarrow> srp_inv t' = srp_inv t"
  by (simp add: srp_inv_def)

lemma srp_inv_emit [simp]: "srp_inv (srp_emit s t) = srp_inv t"
  by (simp add: srp_inv_def)

lemma llist_ok_aged: "llist_ok v s ls \<Longrightarrow> llist_ok v s (aged_llist now ag ls)"
  by (auto simp: llist_ok_def aged_llist_def smap_wf_filter smap_all_def)

lemma ltable_ok_aged:
  assumes "ltable_ok v tab"
  shows "ltable_ok v (aged_ltable now ag tab)"
proof -
  have "smap_wf (aged_ltable now ag tab)"
    using assms smap_wf_map [of "\<lambda>_ ls. aged_llist now ag ls" tab]
    by (simp add: aged_ltable_def ltable_ok_def smap_wf_filter)
  then show ?thesis
    using assms by (auto simp: ltable_ok_def smap_all_def aged_ltable_def llist_ok_aged)
qed

lemma removeAgedEntries_srp_tables:
  "talkerTables (removeAgedEntries_srp now t) = talkerTables t"
  "srp_agingTime (removeAgedEntries_srp now t) = srp_agingTime t"
  "srp_agingTime t \<noteq> 0 \<Longrightarrow> listenerTables (removeAgedEntries_srp now t) =
     map (\<lambda>(v, tab). (v, aged_ltable now (srp_agingTime t) tab)) (listenerTables t)"
  "srp_agingTime t = 0 \<Longrightarrow> removeAgedEntries_srp now t = t"
  using age_tables_fst [of now "srp_agingTime t" "listenerTables t" 0]
  by (auto simp: removeAgedEntries_srp_def split: prod.splits)

lemma removeAgedEntries_srp_inv:
  assumes "srp_inv t"
  shows "srp_inv (removeAgedEntries_srp now t)"
proof (cases "srp_agingTime t = 0")
  case False
  have "smap_wf (map (\<lambda>(v, tab). (v, aged_ltable now (srp_agingTime t) tab)) (listenerTables t))"
    using assms smap_wf_map [of "\<lambda>_ tab. aged_ltable now (srp_agingTime t) tab" "listenerTables t"]
    by (simp add: srp_inv_def)
  then show ?thesis
    using assms False
    by (auto simp: srp_inv_def removeAgedEntries_srp_tables smap_all_def ltable_ok_aged)
qed (use assms in \<open>simp add: removeAgedEntries_srp_tables\<close>)

lemma removeAgedEntriesIfNeeded_srp_inv: "srp_inv t \<Longrightarrow> srp_inv (removeAgedEntriesIfNeeded_srp now t)"
  by (simp add: removeAgedEntriesIfNeeded_srp_def removeAgedEntries_srp_inv)

lemma smap_inner_aged:
  "smap_inner v (map (\<lambda>(v, tab). (v, aged_ltable now ag tab)) tabs) = aged_ltable now ag (smap_inner v tabs)"
  using smap_get_map [of v "\<lambda>_ tab. aged_ltable now ag tab" tabs]
  by (auto simp: smap_inner_def aged_ltable_def split: option.splits)

lemma removeAgedEntries_srp_linked:
  assumes "srp_inv t" and "srp_linked t"
  shows "srp_linked (removeAgedEntries_srp now t)"
proof (cases "srp_agingTime t = 0")
  case False
  have wf: "smap_wf (smap_inner v (listenerTables t))" for v
    using srp_inv_inner(2) [OF assms(1)] by (simp add: ltable_ok_def)
  show ?thesis
    using assms(2) False
    by (auto simp: srp_linked_def removeAgedEntries_srp_tables smap_inner_aged smap_get_aged_ltable [OF wf]
        split: option.splits if_splits)
qed (use assms in \<open>simp add: removeAgedEntries_srp_tables\<close>)

lemma removeAgedEntriesIfNeeded_srp_linked:
  "srp_inv t \<Longrightarrow> srp_linked t \<Longrightarrow> srp_linked (removeAgedEntriesIfNeeded_srp now t)"
  by (simp add: removeAgedEntriesIfNeeded_srp_def removeAgedEntries_srp_linked)

subsection \<open>Every operation keeps the table well-formed\<close>

lemma set_talker_inv:
  assumes "srp_inv t" and "talker_ok v s e"
  shows "srp_inv (set_talker v s e t)"
  using assms srp_inv_inner(1) [OF assms(1), of v]
  by (auto simp: srp_inv_def set_talker_def ttable_ok_def smap_put_wf intro!: smap_all_put)

lemma set_listeners_inv:
  assumes "srp_inv t" and "llist_ok v s ls"
  shows "srp_inv (set_listeners v s ls t)"
  using assms srp_inv_inner(2) [OF assms(1), of v]
  by (auto simp: srp_inv_def set_listeners_def Let_def ltable_ok_def smap_put_wf smap_erase_wf
      intro!: smap_all_put smap_all_erase)

lemma set_talker_get:
  assumes "srp_inv t"
  shows "smap_get s' (smap_inner v' (talkerTables (set_talker v s e t))) =
     (if v' = v \<and> s' = s then Some e else smap_get s' (smap_inner v' (talkerTables t)))"
  using assms srp_inv_inner(1) [OF assms, of v]
  by (auto simp: set_talker_def smap_inner_put smap_get_put srp_inv_def ttable_ok_def)

lemma set_listeners_get:
  assumes "srp_inv t"
  shows "smap_get s' (smap_inner v' (listenerTables (set_listeners v s ls t))) =
     (if v' = v \<and> s' = s then (if ls = [] then None else Some ls)
      else smap_get s' (smap_inner v' (listenerTables t)))"
  using assms srp_inv_inner(2) [OF assms, of v]
  by (auto simp: set_listeners_def Let_def smap_inner_put smap_get_put smap_get_erase srp_inv_def ltable_ok_def)

lemma set_frame [simp]:
  "listenerTables (set_talker v s e t) = listenerTables t"
  "talkerTables (set_listeners v s ls t) = talkerTables t"
  "srp_nextAging (set_talker v s e t) = srp_nextAging t"
  "srp_nextAging (set_listeners v s ls t) = srp_nextAging t"
  "srp_agingTime (set_talker v s e t) = srp_agingTime t"
  "srp_agingTime (set_listeners v s ls t) = srp_agingTime t"
  by (simp_all add: set_talker_def set_listeners_def Let_def)

lemma talker_get_ok:
  "srp_inv t \<Longrightarrow> smap_get s (smap_inner v (talkerTables t)) = Some e \<Longrightarrow> talker_ok v s e"
  using srp_inv_inner(1) [of t v] by (auto simp: ttable_ok_def dest: smap_all_get)

lemma llist_get_ok:
  "srp_inv t \<Longrightarrow> smap_get s (smap_inner v (listenerTables t)) = Some ls \<Longrightarrow> llist_ok v s ls \<and> ls \<noteq> []"
  using srp_inv_inner(2) [of t v] by (auto simp: ltable_ok_def dest: smap_all_get)

lemma llist_inner_ok: "srp_inv t \<Longrightarrow> llist_ok v s (smap_inner s (smap_inner v (listenerTables t)))"
  unfolding smap_inner_def [of s]
  by (auto split: option.splits dest: llist_get_ok) (simp add: llist_ok_def)

lemma updateTalker_inv:
  assumes "srp_inv t" and "updateTalkerWithStreamId now sid m addr cls fs ivf vid pcp static t = Inr (u, t')"
  shows "srp_inv t'"
proof (cases "smap_get sid (smap_inner vid (talkerTables t))")
  case None
  with assms show ?thesis
    by (auto simp: updateTalkerWithStreamId_def Let_def talker_ok_def split: if_splits
        intro!: set_talker_inv)
next
  case (Some e0)
  with assms talker_get_ok [OF assms(1) Some] show ?thesis
    by (auto simp: updateTalkerWithStreamId_def Let_def talker_ok_def split: if_splits
        intro!: set_talker_inv)
qed

lemma removeTalker_inv:
  assumes "srp_inv t" and "removeTalkerWithStreamId sid m addr vid t = Inr (u, t')"
  shows "srp_inv t'"
  using assms srp_inv_inner(1) [OF assms(1), of vid]
  by (auto simp: removeTalkerWithStreamId_def Let_def srp_inv_def ttable_ok_def smap_put_wf smap_erase_wf
      split: option.splits if_splits intro!: smap_all_put smap_all_erase)

lemma updateListener_inv:
  assumes "srp_inv t" and "updateListenerWithStreamId now sid m vid static t = Inr (u, t')"
  shows "srp_inv t'"
proof -
  let ?ls = "smap_inner sid (smap_inner vid (listenerTables t))"
  let ?l = "\<lparr>le_streamId = sid, le_module = m, le_vlan_id = vid, le_insertionTime = now, le_isStatic = static\<rparr>"
  have ok: "llist_ok vid sid ?ls" by (rule llist_inner_ok [OF assms(1)])
  have "m \<noteq> nullptr"
  proof (cases "smap_get m ?ls")
    case (Some l)
    with ok show ?thesis by (auto simp: llist_ok_def listener_ok_def dest: smap_all_get)
  qed (use assms(2) in \<open>auto simp: updateListenerWithStreamId_def Let_def split: if_splits\<close>)
  then have "llist_ok vid sid (smap_put m ?l ?ls)"
    using ok by (auto simp: llist_ok_def listener_ok_def smap_put_wf intro!: smap_all_put)
  from set_listeners_inv [OF assms(1) this] assms(2) show ?thesis
    by (auto simp: updateListenerWithStreamId_def Let_def srp_inv_def split: if_splits)
qed

lemma removeListener_inv:
  assumes "srp_inv t"
  shows "srp_inv (snd (removeListenerWithStreamId sid m vid t))"
proof (cases "smap_get sid (smap_inner vid (listenerTables t))")
  case (Some ls)
  have "llist_ok vid sid (smap_erase m ls)"
    using llist_get_ok [OF assms Some] by (auto simp: llist_ok_def smap_erase_wf smap_all_erase)
  then show ?thesis
    using assms Some by (auto simp: removeListenerWithStreamId_def set_listeners_inv split: option.splits)
qed (use assms in \<open>simp add: removeListenerWithStreamId_def\<close>)

text \<open>The calls of the table that change it, as data, and sequences of timed calls.\<close>

datatype srp_call =
    UpdateTalker "64 word" cmodule mac sr_class "64 word" "16 word" "16 word" "8 word" bool
  | RemoveTalker "64 word" cmodule mac "16 word"
  | UpdateListener "64 word" cmodule "16 word" bool
  | RemoveListener "64 word" cmodule "16 word"
  | AnyQuery

fun srp_exec :: "simtime \<Rightarrow> srp_call \<Rightarrow> srp_table \<Rightarrow> srp_table res" where
  "srp_exec now (UpdateTalker sid m a c fs ivf vid pcp st) t =
     rbind (updateTalkerWithStreamId now sid m a c fs ivf vid pcp st t) (\<lambda>(b, t'). Inr t')"
| "srp_exec now (RemoveTalker sid m a vid) t = rbind (removeTalkerWithStreamId sid m a vid t) (\<lambda>(b, t'). Inr t')"
| "srp_exec now (UpdateListener sid m vid st) t =
     rbind (updateListenerWithStreamId now sid m vid st t) (\<lambda>(b, t'). Inr t')"
| "srp_exec now (RemoveListener sid m vid) t = Inr (snd (removeListenerWithStreamId sid m vid t))"
| "srp_exec now AnyQuery t = Inr (removeAgedEntriesIfNeeded_srp now t)"

fun srp_run :: "(simtime \<times> srp_call) list \<Rightarrow> srp_table \<Rightarrow> srp_table res" where
  "srp_run [] t = Inr t"
| "srp_run ((now, c) # cs) t = rbind (srp_exec now c t) (srp_run cs)"

lemma srp_exec_inv:
  assumes "srp_exec now c t = Inr t'" and "srp_inv t"
  shows "srp_inv t'"
  using assms by (cases c)
    (auto simp: rbind_Inr_iff removeListener_inv removeAgedEntriesIfNeeded_srp_inv
      dest: updateTalker_inv removeTalker_inv updateListener_inv)

lemma srp_exec_linked:
  assumes "srp_exec now c t = Inr t'" and "srp_inv t" and "srp_linked t"
    and "\<forall>sid m a vid. c \<noteq> RemoveTalker sid m a vid"
  shows "srp_linked t'"
proof (cases c)
  case (UpdateTalker sid m a cl fs ivf vid pcp st)
  with assms show ?thesis
    by (auto simp: rbind_Inr_iff updateTalkerWithStreamId_def Let_def srp_linked_def set_talker_get
        split: option.splits if_splits)
next
  case (UpdateListener sid m vid st)
  with assms show ?thesis
    by (auto simp: rbind_Inr_iff updateListenerWithStreamId_def Let_def srp_linked_def set_listeners_get
        split: if_splits)
next
  case (RemoveListener sid m vid)
  with assms show ?thesis
    by (auto simp: removeListenerWithStreamId_def srp_linked_def set_listeners_get
        split: option.splits if_splits)
next
  case AnyQuery
  with assms show ?thesis by (auto simp: removeAgedEntriesIfNeeded_srp_linked)
qed (use assms in auto)

lemma srp_empty_inv [simp]: "srp_inv (srp_empty ag)" "srp_linked (srp_empty ag)"
  by (simp_all add: srp_inv_def srp_linked_def srp_empty_def)

lemma srp_run_inv_from: "srp_run cs t = Inr t' \<Longrightarrow> srp_inv t \<Longrightarrow> srp_inv t'"
  by (induction cs t rule: srp_run.induct) (auto simp: rbind_Inr_iff dest: srp_exec_inv)

definition no_withdrawal :: "(simtime \<times> srp_call) list \<Rightarrow> bool" where
  "no_withdrawal cs \<longleftrightarrow> list_all (\<lambda>(now, c). case c of RemoveTalker _ _ _ _ \<Rightarrow> False | _ \<Rightarrow> True) cs"

lemma srp_run_linked_from:
  "srp_run cs t = Inr t' \<Longrightarrow> no_withdrawal cs \<Longrightarrow> srp_inv t \<Longrightarrow> srp_linked t \<Longrightarrow> srp_linked t'"
proof (induction cs t rule: srp_run.induct)
  case (2 now c cs t)
  then obtain t1 where t1: "srp_exec now c t = Inr t1" "srp_run cs t1 = Inr t'"
    by (auto simp: rbind_Inr_iff)
  have "srp_linked t1"
    using t1(1) "2.prems"(2,3,4) by (intro srp_exec_linked [OF t1(1)]) (auto simp: no_withdrawal_def)
  then show ?case
    using "2.IH" [OF t1(2)] t1 "2.prems" srp_exec_inv [OF t1(1)] by (auto simp: no_withdrawal_def)
qed simp

subsection \<open>Bandwidth sums\<close>

lemma bandwidth_loop_ok:
  "\<forall>(v, s, k) \<in> set rs. smap_get s (smap_inner v tts) \<noteq> None \<Longrightarrow> \<exists>b. bandwidth_loop f m tts rs acc = Inr b"
proof (induction rs arbitrary: acc)
  case (Cons r rs)
  then show ?case by (cases r) auto
qed simp

lemma bandwidth_loop_fail:
  "(v, s, m) \<in> set rs \<Longrightarrow> smap_get s (smap_inner v tts) = None \<Longrightarrow>
     bandwidth_loop f m tts rs acc = Inl (NullDeref ''talker entry'')"
proof (induction rs arbitrary: acc)
  case (Cons r rs)
  then show ?case by (cases r) (auto split: option.splits)
qed simp

lemma bandwidth_loop_add:
  "bandwidth_loop f m tts rs a = Inr x \<Longrightarrow> bandwidth_loop g m tts rs b = Inr y \<Longrightarrow>
     bandwidth_loop (\<lambda>e. f e + g e) m tts rs (a + b) = Inr (x + y)"
proof (induction rs arbitrary: a b)
  case (Cons r rs)
  obtain v s k where r: "r = (v, s, k)" by (cases r)
  show ?case
  proof (cases "k = m")
    case True
    with Cons.prems r obtain e where e: "smap_get s (smap_inner v tts) = Some e" by (auto split: option.splits)
    then show ?thesis
      using Cons.IH [of "a + f e" "b + g e"] Cons.prems r True by (simp add: ac_simps)
  qed (use Cons r in simp)
qed simp

lemma registrations_mem:
  assumes "srp_inv t"
  shows "(v, s, m) \<in> set (srp_registrations t) \<longleftrightarrow>
    (\<exists>ls. smap_get s (smap_inner v (listenerTables t)) = Some ls \<and> m \<in> fst ` set ls)"
proof -
  have wf: "smap_wf (listenerTables t)" using assms by (simp add: srp_inv_def)
  have wfi: "smap_wf (smap_inner v (listenerTables t))"
    using srp_inv_inner(2) [OF assms] by (simp add: ltable_ok_def)
  have "(v, s, m) \<in> set (srp_registrations t) \<longleftrightarrow>
     (\<exists>tab ls. (v, tab) \<in> set (listenerTables t) \<and> (s, ls) \<in> set tab \<and> m \<in> fst ` set ls)"
    unfolding srp_registrations_def by (force simp: image_iff)
  also have "\<dots> \<longleftrightarrow> (\<exists>tab ls. smap_get v (listenerTables t) = Some tab \<and> (s, ls) \<in> set tab \<and> m \<in> fst ` set ls)"
    by (simp only: smap_entries_get [OF wf])
  also have "\<dots> \<longleftrightarrow> (\<exists>ls. (s, ls) \<in> set (smap_inner v (listenerTables t)) \<and> m \<in> fst ` set ls)"
    by (cases "smap_get v (listenerTables t)") (simp_all add: smap_inner_def)
  finally show ?thesis by (simp only: smap_entries_get [OF wfi])
qed

lemma linked_bandwidth:
  assumes "srp_inv t" and "srp_linked t"
  shows "\<exists>b. bandwidth_loop f m (talkerTables t) (srp_registrations t) acc = Inr b"
  using assms registrations_mem [OF assms(1)]
  by (intro bandwidth_loop_ok) (auto simp: srp_linked_def)

text \<open>A small run: one talker in VLAN 2 with one listener.\<close>

definition srp_example :: "(simtime \<times> srp_call) list" where
  "srp_example = [(1, UpdateTalker 7 3 5 SR_CLASS_A 100 1 2 6 False), (2, UpdateListener 7 4 2 False)]"

lemma srp_example_runs: "\<exists>t. srp_run srp_example (srp_empty 10) = Inr t"
  by (simp add: srp_example_def updateTalkerWithStreamId_def updateListenerWithStreamId_def srp_empty_def
      set_talker_def set_listeners_def srp_emit_def nullptr_def smap_inner_def Let_def)

lemma srp_example_keeps: "no_withdrawal srp_example"
  by (simp add: srp_example_def no_withdrawal_def)

lemma getListenerEntries_mem:
  "(v, tab) \<in> set (listenerTables t) \<Longrightarrow> (s, ls) \<in> set tab \<Longrightarrow> (m, l) \<in> set ls \<Longrightarrow>
     l \<in> set (getListenerEntries t)"
  unfolding getListenerEntries_def by force

subsection \<open>Properties of the reservation table\<close>

text \<open>
  Whatever sequence of registrations, withdrawals and queries runs on an empty reservation
  table, every entry it holds afterwards sits under the VLAN, stream and module it names, no
  talker has zero frame size or zero interval frames, no listener list is empty, and no map has
  a key twice.
\<close>

theorem srp_run_inv: "srp_run cs (srp_empty ag) = Inr t \<Longrightarrow> srp_inv t"
  by (rule srp_run_inv_from [OF _ srp_empty_inv(1)])

theorem srp_run_inv_witness:
  "\<exists>t. srp_run srp_example (srp_empty 10) = Inr t \<and> srp_inv t"
  using srp_example_runs srp_run_inv by blast

text \<open>
  C36: As long as no talker is withdrawn, the bandwidth query of every module returns: the
  talker entry it dereferences for each registered listener is always there.
\<close>

theorem getBandwidth_total:
  assumes run: "srp_run cs (srp_empty ag) = Inr t" and no: "no_withdrawal cs"
  shows "\<exists>b t'. getBandwidthForModule win now m t = Inr (b, t') \<and> srp_inv t' \<and> srp_linked t'"
proof -
  have inv: "srp_inv t" by (rule srp_run_inv_from [OF run]) simp
  have lk: "srp_linked t" by (rule srp_run_linked_from [OF run no]) simp_all
  have "srp_inv (removeAgedEntriesIfNeeded_srp now t)" "srp_linked (removeAgedEntriesIfNeeded_srp now t)"
    using inv lk by (simp_all add: removeAgedEntriesIfNeeded_srp_inv removeAgedEntriesIfNeeded_srp_linked)
  then show ?thesis
    using linked_bandwidth [of "removeAgedEntriesIfNeeded_srp now t" "talker_bandwidth win" m 0]
    by (auto simp: getBandwidthForModule_def Let_def)
qed

theorem getBandwidth_total_witness:
  "\<exists>t. srp_run srp_example (srp_empty 10) = Inr t
    \<and> (\<exists>b t'. getBandwidthForModule (\<lambda>c. 1 / 8000) 3 4 t = Inr (b, t') \<and> srp_inv t' \<and> srp_linked t')"
  using srp_example_runs getBandwidth_total [of srp_example 10] srp_example_keeps by blast

text \<open>
  Withdrawing a talker that still has a listener leaves that listener registered, and the
  next bandwidth query of the listener's module dereferences a null talker entry.
\<close>

theorem removeTalker_dangles:
  assumes inv: "srp_inv t"
    and reg: "smap_get sid (smap_inner vid (listenerTables t)) = Some ls" "m \<in> fst ` set ls"
    and rm: "removeTalkerWithStreamId sid k a vid t = Inr (True, t')"
    and fresh: "now < srp_nextAging t"
  shows "getBandwidthForModule win now m t' = Inl (NullDeref ''talker entry'')"
proof -
  have inv': "srp_inv t'" by (rule removeTalker_inv [OF inv rm])
  have wf: "smap_wf (talkerTables t)" using inv by (simp add: srp_inv_def)
  from rm have t': "listenerTables t' = listenerTables t" "srp_nextAging t' = srp_nextAging t"
    "smap_get sid (smap_inner vid (talkerTables t')) = None"
    using wf by (auto simp: removeTalkerWithStreamId_def Let_def smap_inner_put smap_get_erase
        split: option.splits if_splits)
  have same: "removeAgedEntriesIfNeeded_srp now t' = t'"
    using fresh t'(2) by (simp add: removeAgedEntriesIfNeeded_srp_def)
  have "(vid, sid, m) \<in> set (srp_registrations t')"
    using reg t'(1) by (simp add: registrations_mem [OF inv'])
  from bandwidth_loop_fail [OF this t'(3)] show ?thesis
    by (simp add: getBandwidthForModule_def Let_def same)
qed

text \<open>
  The bandwidth a module reserves is the sum of its class A and class B reservations (in
  the 64-bit arithmetic of the code), whenever the two per-class queries return.
\<close>

theorem bandwidth_by_class:
  assumes "getBandwidthForModuleAndSRClass win now m SR_CLASS_A t = Inr (x, t1)"
    and "getBandwidthForModuleAndSRClass win now m SR_CLASS_B t = Inr (y, t2)"
  shows "getBandwidthForModule win now m t = Inr (x + y, t1)"
proof -
  have f: "(\<lambda>e. (if te_srClass e = SR_CLASS_A then talker_bandwidth win e else 0)
          + (if te_srClass e = SR_CLASS_B then talker_bandwidth win e else 0)) = talker_bandwidth win"
  proof
    fix e :: talker_entry
    show "(if te_srClass e = SR_CLASS_A then talker_bandwidth win e else 0)
          + (if te_srClass e = SR_CLASS_B then talker_bandwidth win e else 0) = talker_bandwidth win e"
      by (cases "te_srClass e") simp_all
  qed
  let ?t = "removeAgedEntriesIfNeeded_srp now t"
  have x: "bandwidth_loop (\<lambda>e. if te_srClass e = SR_CLASS_A then talker_bandwidth win e else 0) m
      (talkerTables ?t) (srp_registrations ?t) 0 = Inr x \<and> t1 = ?t"
    using assms(1) by (auto simp: getBandwidthForModuleAndSRClass_def Let_def rbind_Inr_iff)
  have y: "bandwidth_loop (\<lambda>e. if te_srClass e = SR_CLASS_B then talker_bandwidth win e else 0) m
      (talkerTables ?t) (srp_registrations ?t) 0 = Inr y"
    using assms(2) by (auto simp: getBandwidthForModuleAndSRClass_def Let_def rbind_Inr_iff)
  from bandwidth_loop_add [OF conjunct1 [OF x] y] x show ?thesis
    unfolding f by (simp add: getBandwidthForModule_def Let_def)
qed

text \<open>
  An ageing pass keeps exactly the listeners that are static or have not reached their
  ageing time, whatever talkers and VLANs the table holds; and as long as no entry ages before
  time 0 it leaves no next ageing time behind, so no later query ages anything until another
  listener registers.
\<close>

theorem removeAgedEntries_srp_correct:
  assumes inv: "srp_inv t" and ag: "srp_agingTime t \<noteq> 0"
    and times: "\<forall>l \<in> set (getListenerEntries t). 0 \<le> le_insertionTime l + srp_agingTime t"
    and t': "t' = removeAgedEntries_srp now t"
  shows "(\<forall>v s. smap_inner s (smap_inner v (listenerTables t'))
       = filter (\<lambda>(m, l). le_isStatic l \<or> now < le_insertionTime l + srp_agingTime t)
           (smap_inner s (smap_inner v (listenerTables t))))
    \<and> talkerTables t' = talkerTables t
    \<and> (\<forall>later. removeAgedEntriesIfNeeded_srp later t' = t')"
proof -
  let ?ag = "srp_agingTime t"
  have wf: "smap_wf (smap_inner v (listenerTables t))" for v
    using srp_inv_inner(2) [OF inv] by (simp add: ltable_ok_def)
  have "smap_inner s (aged_ltable now ?ag (smap_inner v (listenerTables t)))
      = aged_llist now ?ag (smap_inner s (smap_inner v (listenerTables t)))" for v s
    unfolding smap_inner_def [of s] smap_get_aged_ltable [OF wf]
    by (auto simp: aged_llist_def split: option.splits)
  then have kept: "smap_inner s (smap_inner v (listenerTables t'))
       = filter (\<lambda>(m, l). le_isStatic l \<or> now < le_insertionTime l + ?ag)
           (smap_inner s (smap_inner v (listenerTables t)))" for v s
    unfolding t' removeAgedEntries_srp_tables(3) [OF ag] smap_inner_aged
    by (simp add: aged_llist_def listener_alive_def)
  have "\<forall>(v, tab) \<in> set (listenerTables t). \<forall>(s, ls) \<in> set tab. \<forall>(m, l) \<in> set ls. entry_times_ok ?ag l"
  proof (clarify)
    fix v tab s ls m l
    assume "(v, tab) \<in> set (listenerTables t)" "(s, ls) \<in> set tab" "(m, l) \<in> set ls"
    then show "entry_times_ok ?ag l"
      using bspec [OF times getListenerEntries_mem] by (simp add: entry_times_ok_def)
  qed
  from age_tables_next [OF this, of now] have "srp_nextAging t' = 0"
    using ag by (auto simp: t' removeAgedEntries_srp_def split: prod.splits)
  then show ?thesis
    using kept by (simp add: removeAgedEntriesIfNeeded_srp_def t' removeAgedEntries_srp_tables(1))
qed

text \<open>
  A successful talker registration reports whether the stream was already known; a lookup
  then finds the registering module under that stream, and no other stream's talker changes.
\<close>

theorem updateTalker_lookup:
  assumes inv: "srp_inv t"
    and up: "updateTalkerWithStreamId now sid m addr cls fs ivf vid pcp static t = Inr (u, t')"
  shows "(u \<longleftrightarrow> smap_get sid (smap_inner vid (talkerTables t)) \<noteq> None)
    \<and> fst (getTalkerForStreamId later sid vid t') = m
    \<and> (\<forall>v' s'. (v', s') \<noteq> (vid, sid) \<longrightarrow>
        smap_get s' (smap_inner v' (talkerTables t')) = smap_get s' (smap_inner v' (talkerTables t)))"
proof -
  have u: "u \<longleftrightarrow> smap_get sid (smap_inner vid (talkerTables t)) \<noteq> None"
    using up by (auto simp: updateTalkerWithStreamId_def Let_def split: option.splits if_splits)
  have "\<exists>e. te_module e = m \<and> talkerTables t' = talkerTables (set_talker vid sid e t)"
  proof (cases "smap_get sid (smap_inner vid (talkerTables t))")
    case None
    with up show ?thesis
      by (auto simp: updateTalkerWithStreamId_def Let_def split: if_splits intro!: exI)
  next
    case (Some e0)
    let ?e = "e0\<lparr>te_streamId := sid, te_srClass := cls, te_address := addr, te_module := m,
                te_framesize := (if fs > 0 then fs else te_framesize e0),
                te_intervalFrames := (if ivf > 0 then ivf else te_intervalFrames e0),
                te_vlan_id := vid, te_pcp := pcp, te_insertionTime := now, te_isStatic := static\<rparr>"
    have "talkerTables t' = talkerTables (set_talker vid sid ?e t)"
      using up Some by (cases static) (auto simp: updateTalkerWithStreamId_def Let_def split: if_split_asm)
    then show ?thesis by (intro exI [of _ ?e]) simp
  qed
  then obtain e where e: "te_module e = m" "talkerTables t' = talkerTables (set_talker vid sid e t)" by blast
  have aged: "talkerTables (removeAgedEntriesIfNeeded_srp later t') = talkerTables t'"
    by (simp add: removeAgedEntriesIfNeeded_srp_def removeAgedEntries_srp_tables)
  have "fst (getTalkerForStreamId later sid vid t') = m"
    using e by (simp add: getTalkerForStreamId_def Let_def aged set_talker_get [OF inv])
  then show ?thesis using u e by (auto simp: set_talker_get [OF inv])
qed

subsection \<open>Examples\<close>

definition example_srp :: srp_table where
  "example_srp = (case srp_run srp_example (srp_empty 10) of Inr t \<Rightarrow> t | Inl e \<Rightarrow> srp_empty 10)"

definition withdrawn_srp :: srp_table where
  "withdrawn_srp = (case removeTalkerWithStreamId 7 3 5 2 example_srp of Inr (b, t) \<Rightarrow> t | Inl e \<Rightarrow> srp_empty 10)"

lemma example_srp_inv: "srp_inv example_srp"
  using srp_example_runs srp_run_inv_from [OF _ srp_empty_inv(1)] by (auto simp: example_srp_def)

lemma example_listeners:
  "smap_get 7 (smap_inner 2 (listenerTables example_srp))
    = Some [(4, \<lparr>le_streamId = 7, le_module = 4, le_vlan_id = 2, le_insertionTime = 2, le_isStatic = False\<rparr>)]"
  by code_simp

lemma withdrawn_eq: "removeTalkerWithStreamId 7 3 5 2 example_srp = Inr (True, withdrawn_srp)"
  by code_simp

theorem removeTalker_dangles_witness:
  "getBandwidthForModule (\<lambda>c. 1 / 8000) 3 4 withdrawn_srp = Inl (NullDeref ''talker entry'')"
  by (rule removeTalker_dangles [OF example_srp_inv example_listeners _ withdrawn_eq]) (simp, code_simp)

definition class_bandwidth :: "sr_class \<Rightarrow> 64 word" where
  "class_bandwidth cls = (case getBandwidthForModuleAndSRClass (\<lambda>c. 1 / 8000) 3 4 cls example_srp of
     Inr (b, t) \<Rightarrow> b | Inl e \<Rightarrow> 0)"

lemma class_bandwidth_eq:
  "getBandwidthForModuleAndSRClass (\<lambda>c. 1 / 8000) 3 4 cls example_srp = Inr (class_bandwidth cls, example_srp)"
  by (cases cls; hypsubst; code_simp)

theorem bandwidth_by_class_witness:
  "getBandwidthForModule (\<lambda>c. 1 / 8000) 3 4 example_srp
    = Inr (class_bandwidth SR_CLASS_A + class_bandwidth SR_CLASS_B, example_srp)"
  by (rule bandwidth_by_class [OF class_bandwidth_eq class_bandwidth_eq])

theorem removeAgedEntries_srp_correct_witness:
  "\<exists>t'. t' = removeAgedEntries_srp 20 example_srp
    \<and> (\<forall>v s. smap_inner s (smap_inner v (listenerTables t'))
       = filter (\<lambda>(m, l). le_isStatic l \<or> 20 < le_insertionTime l + srp_agingTime example_srp)
           (smap_inner s (smap_inner v (listenerTables example_srp))))
    \<and> talkerTables t' = talkerTables example_srp
    \<and> (\<forall>later. removeAgedEntriesIfNeeded_srp later t' = t')"
proof (rule exI, rule conjI [OF refl], rule removeAgedEntries_srp_correct [OF example_srp_inv _ _ refl])
  show "srp_agingTime example_srp \<noteq> 0" by code_simp
  have "list_all (\<lambda>l. 0 \<le> le_insertionTime l + srp_agingTime example_srp) (getListenerEntries example_srp)"
    by code_simp
  then show "\<forall>l \<in> set (getListenerEntries example_srp). 0 \<le> le_insertionTime l + srp_agingTime example_srp"
    by (simp add: list_all_iff)
qed

lemma reregistered_eq:
  "updateTalkerWithStreamId 4 8 6 5 SR_CLASS_B 200 1 2 3 False example_srp
    = Inr (False, (case updateTalkerWithStreamId 4 8 6 5 SR_CLASS_B 200 1 2 3 False example_srp of
        Inr (b, t) \<Rightarrow> t | Inl e \<Rightarrow> srp_empty 10))"
  by code_simp

theorem updateTalker_lookup_witness:
  "\<exists>t'. updateTalkerWithStreamId 4 8 6 5 SR_CLASS_B 200 1 2 3 False example_srp = Inr (False, t')
    \<and> (False \<longleftrightarrow> smap_get 8 (smap_inner 2 (talkerTables example_srp)) \<noteq> None)
    \<and> fst (getTalkerForStreamId 5 8 2 t') = 6
    \<and> (\<forall>v' s'. (v', s') \<noteq> (2, 8) \<longrightarrow>
        smap_get s' (smap_inner v' (talkerTables t')) = smap_get s' (smap_inner v' (talkerTables example_srp)))"
  using reregistered_eq updateTalker_lookup [OF example_srp_inv reregistered_eq] by blast

end
