(* ===== verification/GateControl.thy ===== *)
theory GateControl
  imports SRPTable
begin

text \<open>
  The IEEE 802.1Qbv shaper of CoRE4INET (linklayer/shaper/IEEE8021Qbv): the gate control list
  that a NETCONF client replaces at run time, with its textual format, the transmission gates
  it drives, the selection of the next frame and the credit based shaper. The clock values a
  step reads from period, timer and oscillator are its arguments; the events it registers with
  the scheduler are collected in the state.
\<close>

subsection \<open>Strings: tokenizer and stod\<close>

text \<open>\<open>cStringTokenizer::asVector\<close> with one delimiter: empty tokens are skipped.\<close>

definition push_token :: "string \<Rightarrow> string list \<Rightarrow> string list" where
  "push_token cur ts = (if cur = [] then ts else rev cur # ts)"

fun tokens_from :: "char \<Rightarrow> string \<Rightarrow> string \<Rightarrow> string list" where
  "tokens_from d cur [] = push_token cur []"
| "tokens_from d cur (c # cs) =
     (if c = d then push_token cur (tokens_from d [] cs) else tokens_from d (c # cur) cs)"

definition tokens :: "char \<Rightarrow> string \<Rightarrow> string list" where
  "tokens d s = tokens_from d [] s"

text \<open>
  \<open>std::stod\<close> on decimal numbers: optional white space and sign, digits with an optional
  fraction and an optional decimal exponent; None is \<open>std::invalid_argument\<close>. Hexadecimal
  numbers, infinities and NaN are not read.
\<close>

definition span_digits :: "string \<Rightarrow> string \<times> string" where
  "span_digits s = (takeWhile is_digit s, dropWhile is_digit s)"

definition decimal_value :: "string \<Rightarrow> rat" where
  "decimal_value s = of_int (digits_val 0 s)"

definition scale10 :: "int \<Rightarrow> rat \<Rightarrow> rat" where
  "scale10 e x = (if 0 \<le> e then x * 10 ^ nat e else x / 10 ^ nat (- e))"

definition stod_exponent :: "string \<Rightarrow> int" where
  "stod_exponent s =
     (case s of
        [] \<Rightarrow> 0
      | c # cs \<Rightarrow>
          if c = CHR ''e'' \<or> c = CHR ''E'' then
            (case cs of
               [] \<Rightarrow> 0
             | d # ds \<Rightarrow>
                 if d = CHR ''-'' then - digits_val 0 ds
                 else if d = CHR ''+'' then digits_val 0 ds
                 else digits_val 0 cs)
          else 0)"

definition stod_unsigned :: "string \<Rightarrow> rat option" where
  "stod_unsigned s =
     (let (ip, r) = span_digits s;
          (fp, r') = (case r of [] \<Rightarrow> ([], r) | c # cs \<Rightarrow> if c = CHR ''.'' then span_digits cs else ([], r))
      in if ip = [] \<and> fp = [] then None
         else Some (scale10 (stod_exponent r') (decimal_value ip + decimal_value fp / 10 ^ length fp)))"

definition stod :: "string \<Rightarrow> rat option" where
  "stod s =
     (case dropWhile is_space s of
        [] \<Rightarrow> None
      | c # cs \<Rightarrow>
          if c = CHR ''-'' then map_option uminus (stod_unsigned cs)
          else if c = CHR ''+'' then stod_unsigned cs
          else stod_unsigned (c # cs))"

subsection \<open>Transmission gates\<close>

datatype gate_state = OPEN | CLOSED

text \<open>
  \<open>changeState\<close> of one gate: the new state, and the NF\_QBV\_STATE\_CHANGED signals it emits.
\<close>

definition changeState :: "gate_state \<Rightarrow> gate_state \<Rightarrow> gate_state \<times> gate_state list" where
  "changeState old new = (new, if new \<noteq> old then [new] else [])"

subsection \<open>The gate control list\<close>

type_synonym gcl_row = "string list \<times> rat"

record gcl =
  numGates :: nat
  gateControlList :: "gcl_row list"
  gateControlElement :: nat                     \<comment> \<open>position of the iterator\<close>
  configNo :: "32 word"
  timerEventName :: string
  gcl_gates :: "gate_state list"                \<comment> \<open>the \<open>transmissionGate\<close> modules\<close>
  gcl_signals :: "gate_state list"
  gcl_events :: "(string \<times> 32 word) list"      \<comment> \<open>events registered with the period\<close>

record gcl_clock =
  gc_ticks :: "32 word"          \<comment> \<open>\<open>getPeriod()->getTicks()\<close>\<close>
  gc_cycleTicks :: "32 word"     \<comment> \<open>\<open>getPeriod()->getCycleTicks()\<close>\<close>
  gc_preciseTick :: rat          \<comment> \<open>\<open>getOscillator()->getPreciseTick()\<close>\<close>

text \<open>One row: \<open>GateStatus,...,GateStatus:time\<close>.\<close>

definition parse_row :: "nat \<Rightarrow> string \<Rightarrow> gcl_row res" where
  "parse_row n row =
     (let tupel = tokens (CHR '':'') row in
      rbind (vec_at tupel 0) (\<lambda>s0.
        let gates = tokens (CHR '','') s0 in
        if length gates \<noteq> n then Inl (RuntimeError ''controlList row size is not numGates'')
        else if \<exists>g \<in> set gates. g \<noteq> ''o'' \<and> g \<noteq> ''C''
        then Inl (RuntimeError ''controlList contains unexpected character'')
        else rbind (vec_at tupel 1) (\<lambda>s1.
          case stod s1 of None \<Rightarrow> Inl (InvalidArgument ''stod'') | Some x \<Rightarrow> Inr (gates, x))))"

fun parse_rows :: "nat \<Rightarrow> string list \<Rightarrow> gcl_row list res" where
  "parse_rows n [] = Inr []"
| "parse_rows n (r # rs) = rbind (parse_row n r) (\<lambda>x. rbind (parse_rows n rs) (\<lambda>xs. Inr (x # xs)))"

text \<open>\<open>propagateGateControlElement\<close>: gates \<open>i - 1\<close> down to 0.\<close>

fun propagate_loop :: "string list \<Rightarrow> nat \<Rightarrow> gcl \<Rightarrow> gcl res" where
  "propagate_loop sts 0 g = Inr g"
| "propagate_loop sts (Suc i) g =
     rbind (vec_at sts (int i)) (\<lambda>s.
       if s = ''o'' \<or> s = ''C'' then
         (if i < length (gcl_gates g) then
            (let (st, sigs) = changeState (gcl_gates g ! i) (if s = ''o'' then OPEN else CLOSED)
             in propagate_loop sts i
                  (g\<lparr>gcl_gates := (gcl_gates g)[i := st], gcl_signals := gcl_signals g @ sigs\<rparr>))
          else Inl (NullDeref ''transmissionGate''))
       else propagate_loop sts i g)"

definition propagateGateControlElement :: "string list \<Rightarrow> gcl \<Rightarrow> gcl res" where
  "propagateGateControlElement sts g = propagate_loop sts (numGates g) g"

definition scheduleCurrentGateControlElementTime :: "gcl_clock \<Rightarrow> gcl \<Rightarrow> gcl res" where
  "scheduleCurrentGateControlElementTime c g =
     rbind (vec_at (gateControlList g) (int (gateControlElement g))) (\<lambda>row.
       let actionTime = (word_of_int \<lceil>snd row / gc_preciseTick c\<rceil> :: 32 word) in
       if actionTime \<ge> gc_cycleTicks c
       then Inl (RuntimeError ''The send window starts outside of the period'')
       else Inr (g\<lparr>gcl_events := gcl_events g @ [(timerEventName g, actionTime)]\<rparr>))"

definition switchToNextGateControlElement :: "gcl \<Rightarrow> gcl" where
  "switchToNextGateControlElement g =
     (let i = gateControlElement g + 1 in
      g\<lparr>gateControlElement := (if i = length (gateControlList g) then 0 else i)\<rparr>)"

definition first_element :: "rat \<Rightarrow> gcl_row list \<Rightarrow> nat" where
  "first_element now rows = (case find_idx (\<lambda>row. snd row \<ge> now) rows of Some i \<Rightarrow> i | None \<Rightarrow> 0)"

definition switchToFirstGateControlElement :: "gcl_clock \<Rightarrow> gcl \<Rightarrow> gcl res" where
  "switchToFirstGateControlElement c g =
     (let rows = gateControlList g in
      if length rows > 0 then
        (let now = of_int (uint (gc_ticks c)) * gc_preciseTick c;
             i = first_element now rows;
             g1 = g\<lparr>gateControlElement := i\<rparr>
         in if snd (rows ! i) \<noteq> now
            then propagateGateControlElement (fst (rows ! (if i = 0 then length rows - 1 else i - 1))) g1
            else Inr g1)
      else Inr g)"

definition event_name :: "32 word \<Rightarrow> string" where
  "event_name n = ''Gate Control List Config '' @ to_string (unat n) @ '' Scheduler Event''"

definition setGateControlList :: "gcl_clock \<Rightarrow> string \<Rightarrow> gcl \<Rightarrow> gcl res" where
  "setGateControlList c s g =
     rbind (parse_rows (numGates g) (tokens (CHR '';'') s)) (\<lambda>rows.
       let g1 = g\<lparr>gateControlList := rows\<rparr> in
       if length rows > 0 then
         rbind (switchToFirstGateControlElement c g1) (\<lambda>g2.
           let n = configNo g2 + 1;
               g3 = g2\<lparr>configNo := n, timerEventName := event_name n\<rparr>
           in scheduleCurrentGateControlElementTime c g3)
       else Inr g1)"

text \<open>
  \<open>handleMessage\<close> for a scheduler action time event of the given name; an event of an earlier
  configuration is dropped.
\<close>

definition handleMessage_gcl :: "gcl_clock \<Rightarrow> string \<Rightarrow> gcl \<Rightarrow> gcl res" where
  "handleMessage_gcl c name g =
     (if name = timerEventName g then
        rbind (vec_at (gateControlList g) (int (gateControlElement g))) (\<lambda>row.
          rbind (propagateGateControlElement (fst row) g) (\<lambda>g1.
            if length (gateControlList g1) > 1
            then scheduleCurrentGateControlElementTime c (switchToNextGateControlElement g1)
            else Inr g1))
      else Inr g)"

subsection \<open>Frame selection\<close>

text \<open>
  \<open>IEEE8021QbvSelection::selectFrame\<close> over the queues, selection algorithms and gates of
  the port, from the highest priority down. The result is the chosen queue.
\<close>

record qbv_port =
  framesRequested :: "64 word"
  queue_size :: "nat list"
  tsa_open :: "bool list"
  tg_state :: "gate_state list"
  numPCP :: nat

definition can_send :: "qbv_port \<Rightarrow> nat \<Rightarrow> bool" where
  "can_send p i \<longleftrightarrow>
     i < length (queue_size p) \<and> queue_size p ! i > 0 \<and>
     i < length (tsa_open p) \<and> tsa_open p ! i \<and>
     i < length (tg_state p) \<and> tg_state p ! i = OPEN"

fun select_loop :: "nat \<Rightarrow> qbv_port \<Rightarrow> (nat option \<times> qbv_port) res" where
  "select_loop 0 p = Inr (None, p)"
| "select_loop (Suc i) p =
     (if can_send p i then
        (let p1 = p\<lparr>framesRequested := framesRequested p - 1\<rparr> in
         if framesRequested p1 > 1 then Inl (RuntimeError ''Frames requested counter is higher than 1.'')
         else Inr (Some i, p1\<lparr>queue_size := (queue_size p1)[i := queue_size p1 ! i - 1]\<rparr>))
      else select_loop i p)"

definition selectFrame :: "qbv_port \<Rightarrow> (nat option \<times> qbv_port) res" where
  "selectFrame p = (if framesRequested p > 0 then select_loop (numPCP p) p else Inr (None, p))"

definition requestPacket :: "qbv_port \<Rightarrow> (nat option \<times> qbv_port) res" where
  "requestPacket p =
     (let p1 = p\<lparr>framesRequested := framesRequested p + 1\<rparr> in
      if framesRequested p1 > 1 then Inl (RuntimeError ''Frames requested counter is higher than 1.'')
      else selectFrame p1)"

subsection \<open>Credit based shaper\<close>

text \<open>
  The credit of one traffic class. The reserved bandwidth comes from the reservation table,
  times from timer and oscillator; \<open>cbs_timers\<close> collects the timer events in ticks.
  The credit is an \<open>int\<close> of the code, unbounded here.
\<close>

record cbs =
  credit :: int
  isScheduled :: bool
  queueSize :: nat
  previousQueueSize :: nat
  oldTime :: simtime
  portBandwidth :: "32 word"
  cbs_state :: gate_state
  cbs_timers :: "int list"

definition refreshState :: "cbs \<Rightarrow> cbs" where
  "refreshState c = c\<lparr>cbs_state := (if credit c < 0 then CLOSED else OPEN)\<rparr>"

definition schedule_cbs :: "int \<Rightarrow> cbs \<Rightarrow> cbs" where
  "schedule_cbs ticks c = c\<lparr>cbs_timers := cbs_timers c @ [ticks], isScheduled := True\<rparr>"

definition idleSlope :: "64 word \<Rightarrow> rat \<Rightarrow> simtime \<Rightarrow> bool \<Rightarrow> cbs \<Rightarrow> cbs" where
  "idleSlope bw tick now maxCreditZero c =
     (let duration = now - oldTime c in
      if bw > 0 then
        (let c1 = (if duration > 0 then
                     (let cr = credit c + \<lceil>of_int (uint bw) * duration\<rceil> in
                      refreshState (c\<lparr>credit := (if maxCreditZero \<and> cr > 0 then 0 else cr), oldTime := now\<rparr>))
                   else c)
         in if credit c1 < 0 \<and> \<not> isScheduled c1
            then schedule_cbs \<lceil>(of_int (- credit c1) / of_int (uint bw)) / tick\<rceil> c1
            else c1)
      else c)"

definition sendSlope :: "64 word \<Rightarrow> rat \<Rightarrow> simtime \<Rightarrow> simtime \<Rightarrow> cbs \<Rightarrow> cbs" where
  "sendSlope bw tick now duration c =
     (if duration > 0 then
        (let c1 = refreshState (c\<lparr>credit := credit c
                    - \<lceil>of_int (uint ((ucast (portBandwidth c) :: 64 word) - bw)) * duration\<rceil>,
                    oldTime := now + duration\<rparr>)
         in if \<not> isScheduled c1 then schedule_cbs \<lceil>duration / tick\<rceil> c1 else c1)
      else c)"

definition isOpen_cbs :: "64 word \<Rightarrow> rat \<Rightarrow> simtime \<Rightarrow> cbs \<Rightarrow> bool \<times> cbs" where
  "isOpen_cbs bw tick now c =
     (let c1 = idleSlope bw tick now (queueSize c = 0) c in (cbs_state c1 = OPEN, c1))"

text \<open>A scheduler event, and a change of the queue length; \<open>wire n\<close> is the duration of n bytes.\<close>

definition handleMessage_cbs :: "64 word \<Rightarrow> rat \<Rightarrow> simtime \<Rightarrow> cbs \<Rightarrow> cbs" where
  "handleMessage_cbs bw tick now c = idleSlope bw tick now (queueSize c = 0) (c\<lparr>isScheduled := False\<rparr>)"

definition receive_size :: "64 word \<Rightarrow> rat \<Rightarrow> (nat \<Rightarrow> simtime) \<Rightarrow> simtime \<Rightarrow> nat \<Rightarrow> cbs \<Rightarrow> cbs" where
  "receive_size bw tick wire now l c =
     (let c1 = c\<lparr>previousQueueSize := queueSize c, queueSize := l\<rparr>;
          c2 = (if queueSize c1 > previousQueueSize c1
                then idleSlope bw tick now (previousQueueSize c1 = 0) c1 else c1)
      in if queueSize c2 < previousQueueSize c2
         then sendSlope bw tick now (wire (previousQueueSize c2 - queueSize c2 + 7 + 1 + 96 div 8)) c2
         else c2)"

subsection \<open>Lemmas on the text format\<close>

fun join :: "char \<Rightarrow> string list \<Rightarrow> string" where
  "join d [] = []"
| "join d [x] = x"
| "join d (x # y # xs) = x @ d # join d (y # xs)"

lemma tokens_from_plain:
  "d \<notin> set x \<Longrightarrow> tokens_from d cur (x @ ys) = tokens_from d (rev x @ cur) ys"
  by (induction x arbitrary: cur) auto

lemma tokens_join:
  "\<forall>x \<in> set xs. x \<noteq> [] \<and> d \<notin> set x \<Longrightarrow> tokens d (join d xs) = xs"
proof (induction d xs rule: join.induct)
  case (2 d x)
  then show ?case using tokens_from_plain [of d x "[]" "[]"] by (simp add: tokens_def push_token_def)
next
  case (3 d x y xs)
  then show ?case
    using tokens_from_plain [of d x "[]" "d # join d (y # xs)"] by (simp add: tokens_def push_token_def)
qed (simp add: tokens_def push_token_def)

lemma set_join: "set (join d xs) \<subseteq> insert d (\<Union> (set ` set xs))"
  by (induction d xs rule: join.induct) auto

lemma join_nonempty: "xs \<noteq> [] \<Longrightarrow> \<forall>x \<in> set xs. x \<noteq> [] \<Longrightarrow> join d xs \<noteq> []"
  by (induction d xs rule: join.induct) auto

lemma join_states_chars:
  assumes "\<forall>g \<in> set gs. g = ''o'' \<or> g = ''C''" and "c \<in> set (join (CHR '','') gs)"
  shows "c = CHR ''o'' \<or> c = CHR ''C'' \<or> c = CHR '',''"
proof (cases "c = CHR '',''")
  case False
  with subsetD [OF set_join assms(2)] obtain g where "g \<in> set gs" and c: "c \<in> set g" by blast
  with assms(1) have "g = ''o'' \<or> g = ''C''" by blast
  then show ?thesis
  proof
    assume "g = ''o''"
    with c show ?thesis by simp
  next
    assume "g = ''C''"
    with c show ?thesis by simp
  qed
qed simp

lemma join_states_nonempty:
  "gs \<noteq> [] \<Longrightarrow> \<forall>g \<in> set gs. g = ''o'' \<or> g = ''C'' \<Longrightarrow> join (CHR '','') gs \<noteq> []"
  by (rule join_nonempty) blast+

lemma tokens_nonempty: "x \<in> set (tokens_from d cur s) \<Longrightarrow> x \<noteq> []"
  by (induction d cur s rule: tokens_from.induct) (auto simp: push_token_def split: if_splits)

subsection \<open>The invariant of the gate control list\<close>

definition row_ok :: "nat \<Rightarrow> gcl_row \<Rightarrow> bool" where
  "row_ok n row \<longleftrightarrow> length (fst row) = n \<and> (\<forall>g \<in> set (fst row). g = ''o'' \<or> g = ''C'')"

definition gcl_inv :: "gcl \<Rightarrow> bool" where
  "gcl_inv g \<longleftrightarrow> length (gcl_gates g) = numGates g \<and> (\<forall>row \<in> set (gateControlList g). row_ok (numGates g) row)
     \<and> (gateControlList g \<noteq> [] \<longrightarrow> gateControlElement g < length (gateControlList g))"

definition state_of :: "string \<Rightarrow> gate_state" where
  "state_of s = (if s = ''o'' then OPEN else CLOSED)"

lemma parse_row_Inr:
  assumes "parse_row n s = Inr row"
  obtains s0 s1 x where "vec_at (tokens (CHR '':'') s) 0 = Inr s0" and "vec_at (tokens (CHR '':'') s) 1 = Inr s1"
    and "stod s1 = Some x" and "row = (tokens (CHR '','') s0, x)" and "length (tokens (CHR '','') s0) = n"
    and "\<not> (\<exists>g \<in> set (tokens (CHR '','') s0). g \<noteq> ''o'' \<and> g \<noteq> ''C'')"
proof -
  from assms obtain s0 where s0: "vec_at (tokens (CHR '':'') s) 0 = Inr s0"
    unfolding parse_row_def Let_def by (rule rbind_InrE)
  let ?gs = "tokens (CHR '','') s0"
  let ?bad = "\<exists>g \<in> set ?gs. g \<noteq> ''o'' \<and> g \<noteq> ''C''"
  have eq: "parse_row n s = (if length ?gs \<noteq> n then Inl (RuntimeError ''controlList row size is not numGates'')
      else if ?bad then Inl (RuntimeError ''controlList contains unexpected character'')
      else rbind (vec_at (tokens (CHR '':'') s) 1) (\<lambda>s1.
        case stod s1 of None \<Rightarrow> Inl (InvalidArgument ''stod'') | Some x \<Rightarrow> Inr (?gs, x)))"
    unfolding parse_row_def Let_def s0 rbind_simps by (rule refl)
  have len: "length ?gs = n"
    using assms unfolding eq by (cases "length ?gs = n") simp_all
  have ok: "\<not> ?bad"
    using assms unfolding eq by (cases ?bad) (simp_all only: len if_True if_False simp_thms sum.distinct)
  from assms have "rbind (vec_at (tokens (CHR '':'') s) 1) (\<lambda>s1.
        case stod s1 of None \<Rightarrow> Inl (InvalidArgument ''stod'') | Some x \<Rightarrow> Inr (?gs, x)) = Inr row"
    unfolding eq by (simp only: len ok if_False simp_thms)
  then obtain s1 where s1: "vec_at (tokens (CHR '':'') s) 1 = Inr s1"
    and r: "(case stod s1 of None \<Rightarrow> Inl (InvalidArgument ''stod'') | Some x \<Rightarrow> Inr (?gs, x)) = Inr row"
    by (rule rbind_InrE)
  from r obtain x where "stod s1 = Some x" "row = (?gs, x)" by (cases "stod s1") simp_all
  with s0 s1 len ok show ?thesis by (rule_tac that) assumption+
qed

lemma parse_row_ok: "parse_row n s = Inr row \<Longrightarrow> row_ok n row"
  by (erule parse_row_Inr) (simp only: row_ok_def fst_conv, blast)

lemma parse_rows_ok: "parse_rows n ss = Inr rows \<Longrightarrow> \<forall>row \<in> set rows. row_ok n row"
  by (induction ss arbitrary: rows) (auto simp: rbind_Inr_iff dest: parse_row_ok)

lemma parse_rows_length: "parse_rows n ss = Inr rows \<Longrightarrow> length rows = length ss"
  by (induction ss arbitrary: rows) (auto simp: rbind_Inr_iff)

lemma propagate_loop_spec:
  "k \<le> length sts \<Longrightarrow> length sts = length (gcl_gates g) \<Longrightarrow> \<forall>s \<in> set sts. s = ''o'' \<or> s = ''C'' \<Longrightarrow>
   \<exists>sigs. propagate_loop sts k g =
     Inr (g\<lparr>gcl_gates := map state_of (take k sts) @ drop k (gcl_gates g),
            gcl_signals := gcl_signals g @ sigs\<rparr>)"
proof (induction k arbitrary: g)
  case 0
  have "g = g\<lparr>gcl_gates := gcl_gates g, gcl_signals := gcl_signals g @ []\<rparr>" by simp
  then show ?case by (intro exI [of _ "[]"]) simp
next
  case (Suc k)
  let ?s = "sts ! k"
  let ?st = "state_of ?s"
  obtain sg where ch: "changeState (gcl_gates g ! k) ?st = (?st, sg)" by (simp add: changeState_def)
  let ?g = "g\<lparr>gcl_gates := (gcl_gates g)[k := ?st], gcl_signals := gcl_signals g @ sg\<rparr>"
  have k: "k < length sts" "k < length (gcl_gates g)" using Suc.prems by auto
  have s: "?s = ''o'' \<or> ?s = ''C''" using Suc.prems(3) k(1) by (simp add: nth_mem)
  have step: "propagate_loop sts (Suc k) g = propagate_loop sts k ?g"
    using s k ch by (auto simp: vec_at_def state_of_def)
  have eq: "map state_of (take k sts) @ drop k ((gcl_gates g)[k := ?st])
      = map state_of (take (Suc k) sts) @ drop (Suc k) (gcl_gates g)"
    using k by (simp add: take_Suc_conv_app_nth drop_update_swap Cons_nth_drop_Suc [symmetric])
  from Suc.IH [of ?g] obtain sigs where "propagate_loop sts k ?g =
     Inr (?g\<lparr>gcl_gates := map state_of (take k sts) @ drop k (gcl_gates ?g),
            gcl_signals := gcl_signals ?g @ sigs\<rparr>)"
    using Suc.prems by auto
  then show ?case unfolding step using eq by (intro exI [of _ "sg @ sigs"]) simp
qed

lemma propagate_spec:
  assumes "gcl_inv g" and "row_ok (numGates g) row"
  shows "\<exists>sigs. propagateGateControlElement (fst row) g =
     Inr (g\<lparr>gcl_gates := map state_of (fst row), gcl_signals := gcl_signals g @ sigs\<rparr>)"
  using propagate_loop_spec [of "numGates g" "fst row" g] assms
  by (auto simp: propagateGateControlElement_def gcl_inv_def row_ok_def)

lemma gcl_inv_propagated:
  assumes "gcl_inv g" and "row_ok (numGates g) row"
  shows "gcl_inv (g\<lparr>gcl_gates := map state_of (fst row), gcl_signals := sigs\<rparr>)"
  using assms by (simp add: gcl_inv_def row_ok_def)

lemma schedule_gcl_spec:
  "scheduleCurrentGateControlElementTime c g = Inr g' \<Longrightarrow>
    gateControlElement g < length (gateControlList g) \<and>
    (\<exists>a. g' = g\<lparr>gcl_events := gcl_events g @ [(timerEventName g, a)]\<rparr> \<and> a < gc_cycleTicks c
       \<and> a = word_of_int \<lceil>snd (gateControlList g ! gateControlElement g) / gc_preciseTick c\<rceil>)"
  by (auto simp: scheduleCurrentGateControlElementTime_def rbind_Inr_iff vec_at_Inr_iff Let_def
      split: if_splits)

lemma first_element_less: "rows \<noteq> [] \<Longrightarrow> first_element now rows < length rows"
  by (auto simp: first_element_def split: option.splits dest: find_idx_Some)

lemma switchToFirst_spec:
  assumes "gcl_inv g" and "gateControlList g \<noteq> []"
  shows "\<exists>gs sigs. switchToFirstGateControlElement c g =
     Inr (g\<lparr>gateControlElement := first_element (of_int (uint (gc_ticks c)) * gc_preciseTick c) (gateControlList g),
            gcl_gates := gs, gcl_signals := sigs\<rparr>) \<and> length gs = numGates g"
proof -
  let ?rows = "gateControlList g"
  let ?now = "of_int (uint (gc_ticks c)) * gc_preciseTick c"
  let ?i = "first_element ?now ?rows"
  let ?j = "if ?i = 0 then length ?rows - 1 else ?i - 1"
  let ?g1 = "g\<lparr>gateControlElement := ?i\<rparr>"
  have i: "?i < length ?rows" using assms(2) by (rule first_element_less)
  have inv1: "gcl_inv ?g1" using assms i by (simp add: gcl_inv_def)
  have "?j < length ?rows" using i by (cases "?i = 0") auto
  then have row: "row_ok (numGates ?g1) (?rows ! ?j)" using assms(1) by (simp add: gcl_inv_def)
  have len: "length (gcl_gates g) = numGates g" using assms(1) by (simp add: gcl_inv_def)
  show ?thesis
  proof (cases "snd (?rows ! ?i) = ?now")
    case True
    then have "switchToFirstGateControlElement c g = Inr (g\<lparr>gateControlElement := ?i,
        gcl_gates := gcl_gates g, gcl_signals := gcl_signals g\<rparr>)"
      using assms(2) by (simp add: switchToFirstGateControlElement_def Let_def)
    then show ?thesis using len by blast
  next
    case False
    obtain sigs where p: "propagateGateControlElement (fst (?rows ! ?j)) ?g1
        = Inr (?g1\<lparr>gcl_gates := map state_of (fst (?rows ! ?j)), gcl_signals := sigs\<rparr>)"
      using propagate_spec [OF inv1 row] by auto
    have "switchToFirstGateControlElement c g = propagateGateControlElement (fst (?rows ! ?j)) ?g1"
      using assms(2) False by (simp add: switchToFirstGateControlElement_def Let_def)
    then have "switchToFirstGateControlElement c g = Inr (g\<lparr>gateControlElement := ?i,
        gcl_gates := map state_of (fst (?rows ! ?j)), gcl_signals := sigs\<rparr>)"
      using p by simp
    moreover have "length (map state_of (fst (?rows ! ?j))) = numGates g"
      using row by (simp add: row_ok_def)
    ultimately show ?thesis by blast
  qed
qed

lemma switchToFirst_cong:
  "gateControlList g \<noteq> [] \<Longrightarrow>
    switchToFirstGateControlElement c (g\<lparr>gateControlElement := j\<rparr>) = switchToFirstGateControlElement c g"
  by (simp add: switchToFirstGateControlElement_def Let_def)

lemma event_name_inj: "event_name m = event_name n \<longleftrightarrow> m = n"
proof
  assume "event_name m = event_name n"
  then have "to_string (unat m) = to_string (unat n)" by (simp add: event_name_def)
  then have "atoi (to_string (unat m)) = atoi (to_string (unat n))" by (rule arg_cong)
  then show "m = n" by (simp add: unsigned_word_eqI)
qed simp

text \<open>The text of a row: states and time.\<close>

definition row_text :: "string list \<times> string \<Rightarrow> string" where
  "row_text r = join (CHR '':'') [join (CHR '','') (fst r), snd r]"

definition row_text_ok :: "nat \<Rightarrow> string list \<times> string \<Rightarrow> bool" where
  "row_text_ok n r \<longleftrightarrow> fst r \<noteq> [] \<and> length (fst r) = n \<and> list_all (\<lambda>g. g = ''o'' \<or> g = ''C'') (fst r)
     \<and> stod (snd r) \<noteq> None \<and> snd r \<noteq> [] \<and> CHR '':'' \<notin> set (snd r) \<and> CHR '';'' \<notin> set (snd r)"

lemma row_text_parse:
  assumes "row_text_ok n (gs, ts)"
  shows "parse_row n (row_text (gs, ts)) = Inr (gs, the (stod ts))"
    and "row_text (gs, ts) \<noteq> []" and "CHR '';'' \<notin> set (row_text (gs, ts))"
proof -
  have ne: "gs \<noteq> []" and len: "length gs = n" and gs: "\<forall>g \<in> set gs. g = ''o'' \<or> g = ''C''"
    and ts: "stod ts \<noteq> None" "ts \<noteq> []" "CHR '':'' \<notin> set ts" "CHR '';'' \<notin> set ts"
    using assms unfolding row_text_ok_def list_all_iff fst_conv snd_conv by blast+
  let ?j = "join (CHR '','') gs"
  have j: "?j \<noteq> []" by (rule join_states_nonempty [OF ne gs])
  have jc: "CHR '':'' \<notin> set ?j" "CHR '';'' \<notin> set ?j"
    using join_states_chars [OF gs, of "CHR '':''"] join_states_chars [OF gs, of "CHR '';''"] by auto
  have t1: "tokens (CHR '':'') (join (CHR '':'') [?j, ts]) = [?j, ts]"
    by (rule tokens_join) (simp add: j jc ts)
  have each: "g \<noteq> [] \<and> CHR '','' \<notin> set g" if g: "g \<in> set gs" for g
  proof -
    from bspec [OF gs g] show ?thesis
    proof
      assume "g = ''o''"
      then show ?thesis by simp
    next
      assume "g = ''C''"
      then show ?thesis by simp
    qed
  qed
  have t2: "tokens (CHR '','') ?j = gs"
    by (rule tokens_join) (use each in blast)
  have bad: "\<not> (\<exists>g \<in> set gs. g \<noteq> ''o'' \<and> g \<noteq> ''C'')" using gs by blast
  from ts(1) obtain x where x: "stod ts = Some x" by blast
  have v: "vec_at [?j, ts] 0 = Inr ?j" "vec_at [?j, ts] 1 = Inr ts" by (simp_all add: vec_at_def)
  show "parse_row n (row_text (gs, ts)) = Inr (gs, the (stod ts))"
    unfolding row_text_def fst_conv snd_conv parse_row_def Let_def t1 v rbind_simps t2 x option.case option.sel
    by (simp only: bad len if_False simp_thms)
  show "row_text (gs, ts) \<noteq> []" using j by (simp add: row_text_def)
  show "CHR '';'' \<notin> set (row_text (gs, ts))" using jc ts by (simp add: row_text_def)
qed

subsection \<open>Properties of the gate control list\<close>

text \<open>
  C31: The rows of a gate control list are exactly what its text says: joining row texts with
  semicolons, and the states and time of a row with commas and a colon, reads back as the same
  states, row by row, with the time \<open>stod\<close> reads.
\<close>

theorem gate_list_roundtrip:
  assumes "list_all (row_text_ok n) rows"
  shows "parse_rows n (tokens (CHR '';'') (join (CHR '';'') (map row_text rows)))
    = Inr (map (\<lambda>(gs, ts). (gs, the (stod ts))) rows)"
proof -
  have "tokens (CHR '';'') (join (CHR '';'') (map row_text rows)) = map row_text rows"
  proof (intro tokens_join ballI)
    fix x assume "x \<in> set (map row_text rows)"
    then obtain gs ts where "(gs, ts) \<in> set rows" "x = row_text (gs, ts)" by auto
    then show "x \<noteq> [] \<and> CHR '';'' \<notin> set x" using assms row_text_parse(2,3) [of n gs ts] by (simp add: list_all_iff)
  qed
  moreover have "parse_rows n (map row_text rows) = Inr (map (\<lambda>(gs, ts). (gs, the (stod ts))) rows)"
    using assms by (induction rows) (auto simp: row_text_parse(1))
  ultimately show ?thesis by simp
qed

theorem gate_list_roundtrip_witness:
  "parse_rows 2 (tokens (CHR '';'') (join (CHR '';'') (map row_text [([''o'', ''C''], ''0''), ([''C'', ''o''], ''0.5'')])))
    = Inr (map (\<lambda>(gs, ts). (gs, the (stod ts))) [([''o'', ''C''], ''0''), ([''C'', ''o''], ''0.5'')])"
  by (rule gate_list_roundtrip)
    (simp add: row_text_ok_def stod_def stod_unsigned_def span_digits_def is_space_def is_digit_def)

lemma setGateControlList_spec:
  assumes inv: "gcl_inv g" and set: "setGateControlList c s g = Inr g'"
  shows "gcl_inv g' \<and> parse_rows (numGates g) (tokens (CHR '';'') s) = Inr (gateControlList g')
    \<and> (gateControlList g' \<noteq> [] \<longrightarrow> configNo g' = configNo g + 1 \<and> timerEventName g' = event_name (configNo g')
        \<and> (\<exists>a. gcl_events g' = gcl_events g @ [(timerEventName g', a)] \<and> a < gc_cycleTicks c))"
proof -
  obtain rows where rows: "parse_rows (numGates g) (tokens (CHR '';'') s) = Inr rows"
    using set unfolding setGateControlList_def by (rule rbind_InrE)
  let ?g1 = "g\<lparr>gateControlList := rows\<rparr>"
  show ?thesis
  proof (cases "rows = []")
    case True
    then have "g' = ?g1" using set rows by (simp add: setGateControlList_def Let_def)
    then show ?thesis using inv rows True by (simp add: gcl_inv_def)
  next
    case False
    let ?i = "first_element (of_int (uint (gc_ticks c)) * gc_preciseTick c) rows"
    have inv0: "gcl_inv (?g1\<lparr>gateControlElement := ?i\<rparr>)"
      using inv parse_rows_ok [OF rows] first_element_less [OF False] by (simp add: gcl_inv_def)
    have inv1: "gcl_inv (?g1\<lparr>gateControlElement := 0\<rparr>)"
      using inv0 False by (simp add: gcl_inv_def)
    from switchToFirst_spec [OF inv1, of c] False obtain gs sigs where
      "switchToFirstGateControlElement c (?g1\<lparr>gateControlElement := 0\<rparr>) =
        Inr (?g1\<lparr>gateControlElement := ?i, gcl_gates := gs, gcl_signals := sigs\<rparr>)" and len: "length gs = numGates g"
      by auto
    moreover have "switchToFirstGateControlElement c (?g1\<lparr>gateControlElement := 0\<rparr>)
        = switchToFirstGateControlElement c ?g1"
      using switchToFirst_cong [of ?g1 c 0] False by simp
    ultimately have sw: "switchToFirstGateControlElement c ?g1 =
        Inr (?g1\<lparr>gateControlElement := ?i, gcl_gates := gs, gcl_signals := sigs\<rparr>)" by simp
    let ?n = "configNo g + 1"
    let ?g3 = "?g1\<lparr>gateControlElement := ?i, gcl_gates := gs, gcl_signals := sigs,
      configNo := ?n, timerEventName := event_name ?n\<rparr>"
    have "scheduleCurrentGateControlElementTime c ?g3 = Inr g'"
      using set rows sw False by (simp add: setGateControlList_def Let_def)
    from schedule_gcl_spec [OF this] obtain a where
      "g' = ?g3\<lparr>gcl_events := gcl_events g @ [(event_name ?n, a)]\<rparr>" "a < gc_cycleTicks c"
      by auto
    then show ?thesis using rows inv0 len by (simp add: gcl_inv_def)
  qed
qed

lemma setGateControlList_inv: "gcl_inv g \<Longrightarrow> setGateControlList c s g = Inr g' \<Longrightarrow> gcl_inv g'"
  using setGateControlList_spec by blast

text \<open>
  Replacing the gate control list either fails or leaves a well-formed list: every row has
  one state per gate, the current element lies inside the list, and for a non-empty list a new
  configuration number is in force with one event for it registered inside the cycle.
\<close>

theorem setGateControlList_correct:
  assumes inv: "gcl_inv g" and set: "setGateControlList c s g = Inr g'"
  shows "gcl_inv g' \<and> parse_rows (numGates g) (tokens (CHR '';'') s) = Inr (gateControlList g')
    \<and> (gateControlList g' \<noteq> [] \<longrightarrow> configNo g' = configNo g + 1 \<and> timerEventName g' = event_name (configNo g')
        \<and> (\<exists>a. gcl_events g' = gcl_events g @ [(timerEventName g', a)] \<and> a < gc_cycleTicks c))"
  by (rule setGateControlList_spec [OF inv set])

lemma set_list_named:
  assumes "setGateControlList c s g = Inr g'" and "gateControlList g' \<noteq> []"
  shows "timerEventName g' = event_name (configNo g')"
proof -
  obtain rows where rows: "parse_rows (numGates g) (tokens (CHR '';'') s) = Inr rows"
    using assms(1) unfolding setGateControlList_def by (rule rbind_InrE)
  have "rows \<noteq> []" using assms rows by (auto simp: setGateControlList_def Let_def)
  then show ?thesis
    using assms(1) rows by (auto simp: setGateControlList_def Let_def rbind_Inr_iff dest!: schedule_gcl_spec)
qed

text \<open>
  After a new non-empty list is in force, an event of any other configuration is dropped
  without touching gates, list or schedule.
\<close>

theorem stale_event_ignored:
  assumes "setGateControlList c s g = Inr g'" and "gateControlList g' \<noteq> []" and "n \<noteq> configNo g'"
  shows "handleMessage_gcl c' (event_name n) g' = Inr g'"
  using assms(3) set_list_named [OF assms(1,2)] by (simp add: handleMessage_gcl_def event_name_inj)

text \<open>One event of the configuration in force.\<close>

definition gcl_tick :: "gcl_clock \<Rightarrow> gcl \<Rightarrow> gcl res" where
  "gcl_tick c g = handleMessage_gcl c (timerEventName g) g"

fun gcl_ticks :: "gcl_clock \<Rightarrow> nat \<Rightarrow> gcl \<Rightarrow> gcl res" where
  "gcl_ticks c 0 g = Inr g"
| "gcl_ticks c (Suc k) g = rbind (gcl_ticks c k g) (gcl_tick c)"

definition times_ok :: "gcl_clock \<Rightarrow> gcl \<Rightarrow> bool" where
  "times_ok c g \<longleftrightarrow> (\<forall>row \<in> set (gateControlList g).
     (word_of_int \<lceil>snd row / gc_preciseTick c\<rceil> :: 32 word) < gc_cycleTicks c)"

lemma switchToNext_mod:
  "gateControlElement g < length (gateControlList g) \<Longrightarrow>
    switchToNextGateControlElement g =
      g\<lparr>gateControlElement := (gateControlElement g + 1) mod length (gateControlList g)\<rparr>"
  by (auto simp: switchToNextGateControlElement_def Let_def)

lemma gcl_tick_spec:
  assumes inv: "gcl_inv g" and ne: "gateControlList g \<noteq> []" and ok: "times_ok c g"
  shows "\<exists>g'. gcl_tick c g = Inr g' \<and> gcl_inv g' \<and> gateControlList g' = gateControlList g
    \<and> numGates g' = numGates g
    \<and> gateControlElement g' = (gateControlElement g + 1) mod length (gateControlList g)
    \<and> gcl_gates g' = map state_of (fst (gateControlList g ! gateControlElement g))"
proof -
  let ?i = "gateControlElement g"
  let ?rows = "gateControlList g"
  have i: "?i < length ?rows" using inv ne by (simp add: gcl_inv_def)
  have row: "row_ok (numGates g) (?rows ! ?i)" using inv i by (simp add: gcl_inv_def)
  from propagate_spec [OF inv row] obtain sigs where
    p: "propagateGateControlElement (fst (?rows ! ?i)) g =
      Inr (g\<lparr>gcl_gates := map state_of (fst (?rows ! ?i)), gcl_signals := gcl_signals g @ sigs\<rparr>)"
    by blast
  let ?g1 = "g\<lparr>gcl_gates := map state_of (fst (?rows ! ?i)), gcl_signals := gcl_signals g @ sigs\<rparr>"
  have v: "vec_at ?rows (int ?i) = Inr (?rows ! ?i)" using i by (simp add: vec_at_def)
  have inv1: "gcl_inv ?g1" by (rule gcl_inv_propagated [OF inv row])
  show ?thesis
  proof (cases "length ?rows > 1")
    case True
    let ?j = "(?i + 1) mod length ?rows"
    let ?g2 = "?g1\<lparr>gateControlElement := ?j\<rparr>"
    have j: "?j < length ?rows" by (rule mod_less_divisor) (use True in linarith)
    then have lt: "(word_of_int \<lceil>snd (?rows ! ?j) / gc_preciseTick c\<rceil> :: 32 word) < gc_cycleTicks c"
      using ok nth_mem [OF j] unfolding times_ok_def by blast
    let ?g3 = "?g2\<lparr>gcl_events := gcl_events g @ [(timerEventName g,
        word_of_int \<lceil>snd (?rows ! ?j) / gc_preciseTick c\<rceil>)]\<rparr>"
    have "vec_at ?rows (int ?j) = Inr (?rows ! ?j)" using j by (simp add: vec_at_def del: of_nat_mod)
    then have s: "scheduleCurrentGateControlElementTime c ?g2 = Inr ?g3"
      using lt by (simp add: scheduleCurrentGateControlElementTime_def Let_def not_le del: of_nat_mod)
    have "switchToNextGateControlElement ?g1 = ?g2" using i by (subst switchToNext_mod) simp_all
    then have "gcl_tick c g = Inr ?g3"
      using p v True s by (simp add: gcl_tick_def handleMessage_gcl_def)
    moreover have "gcl_inv ?g3" using inv1 j by (simp add: gcl_inv_def)
    ultimately show ?thesis by simp
  next
    case False
    then have "length ?rows = 1" using i by linarith
    then show ?thesis
      using p v inv1 i by (simp add: gcl_tick_def handleMessage_gcl_def)
  qed
qed

text \<open>
  C30: The gate control list runs as a cyclic schedule: if all row times lie inside the period,
  then after k + 1 events of the current configuration the gates show row (i + k) mod n of the n
  rows, where i was the current element, and the next element is the one after it.
\<close>

theorem gcl_cyclic:
  assumes "gcl_inv g" and "gateControlList g \<noteq> []" and "times_ok c g"
  shows "\<exists>g'. gcl_ticks c (Suc k) g = Inr g' \<and> gcl_inv g' \<and> gateControlList g' = gateControlList g
    \<and> gateControlElement g' = (gateControlElement g + k + 1) mod length (gateControlList g)
    \<and> gcl_gates g' = map state_of (fst (gateControlList g !
        ((gateControlElement g + k) mod length (gateControlList g))))"
proof (induction k)
  case 0
  have "gateControlElement g mod length (gateControlList g) = gateControlElement g"
    using assms(1,2) by (simp add: gcl_inv_def)
  then show ?case using gcl_tick_spec [OF assms] by auto
next
  case (Suc k)
  then obtain g1 where g1: "gcl_ticks c (Suc k) g = Inr g1" "gcl_inv g1" "gateControlList g1 = gateControlList g"
    "gateControlElement g1 = (gateControlElement g + k + 1) mod length (gateControlList g)"
    by blast
  have "gateControlList g1 \<noteq> []" "times_ok c g1" using assms g1(3) by (simp_all add: times_ok_def)
  from gcl_tick_spec [OF g1(2) this] g1 show ?case by (auto simp: mod_Suc_eq)
qed

text \<open>
  Installing an empty list keeps the event name in force, so the event still registered for
  the previous configuration then reads the current element of an empty list.
\<close>

theorem empty_list_dangles:
  assumes "setGateControlList c [] g = Inr g'"
  shows "handleMessage_gcl c' (timerEventName g) g' = Inl OutOfRange"
  using assms
  by (auto simp: setGateControlList_def tokens_def push_token_def handleMessage_gcl_def vec_at_def)

subsection \<open>Properties of frame selection and of the credit based shaper\<close>

lemma select_loop_spec:
  assumes "framesRequested p = 1"
  shows "select_loop n p =
    (case find (can_send p) (rev [0..<n]) of
       None \<Rightarrow> Inr (None, p)
     | Some i \<Rightarrow> Inr (Some i, p\<lparr>framesRequested := 0, queue_size := (queue_size p)[i := queue_size p ! i - 1]\<rparr>))"
  using assms by (induction n) (simp_all add: Let_def)



definition cbs_inv :: "cbs \<Rightarrow> bool" where
  "cbs_inv c \<longleftrightarrow> (cbs_state c = OPEN \<longleftrightarrow> credit c \<ge> 0)"

lemma refreshState_simps [simp]:
  "credit (refreshState c) = credit c" "isScheduled (refreshState c) = isScheduled c"
  "oldTime (refreshState c) = oldTime c" "cbs_timers (refreshState c) = cbs_timers c"
  "queueSize (refreshState c) = queueSize c" "previousQueueSize (refreshState c) = previousQueueSize c"
  "cbs_inv (refreshState c)"
  by (simp_all add: refreshState_def cbs_inv_def)

lemma schedule_cbs_simps [simp]:
  "credit (schedule_cbs n c) = credit c" "isScheduled (schedule_cbs n c)"
  "oldTime (schedule_cbs n c) = oldTime c" "cbs_inv (schedule_cbs n c) = cbs_inv c"
  "cbs_state (schedule_cbs n c) = cbs_state c" "queueSize (schedule_cbs n c) = queueSize c"
  by (simp_all add: schedule_cbs_def cbs_inv_def)

lemma idleSlope_inv: "cbs_inv c \<Longrightarrow> cbs_inv (idleSlope bw tick now z c)"
  by (simp add: idleSlope_def Let_def)

lemma sendSlope_inv: "cbs_inv c \<Longrightarrow> cbs_inv (sendSlope bw tick now d c)"
  by (simp add: sendSlope_def Let_def)

lemma cbs_inv_frame [simp]:
  "cbs_inv (c\<lparr>isScheduled := b\<rparr>) = cbs_inv c"
  "cbs_inv (c\<lparr>previousQueueSize := x\<rparr>) = cbs_inv c"
  "cbs_inv (c\<lparr>queueSize := y\<rparr>) = cbs_inv c"
  by (simp_all add: cbs_inv_def)

lemma ceiling_covers:
  fixes K B t :: rat
  assumes "0 < B" and "0 < t"
  shows "K \<le> B * (of_int \<lceil>K / B / t\<rceil> * t)"
proof -
  define n :: rat where "n = of_int \<lceil>K / B / t\<rceil>"
  have "K / B / t \<le> n" unfolding n_def by (rule le_of_int_ceiling)
  then show ?thesis unfolding n_def [symmetric] using assms by (simp add: field_simps)
qed

text \<open>The inputs of a shaper, each with the bandwidth reserved and the time at that moment.\<close>

datatype cbs_input = QueueLength nat | TimerFired | PortIdle

fun cbs_step :: "rat \<Rightarrow> (nat \<Rightarrow> simtime) \<Rightarrow> 64 word \<times> simtime \<times> cbs_input \<Rightarrow> cbs \<Rightarrow> cbs" where
  "cbs_step tick wire (bw, now, QueueLength l) c = receive_size bw tick wire now l c"
| "cbs_step tick wire (bw, now, TimerFired) c = handleMessage_cbs bw tick now c"
| "cbs_step tick wire (bw, now, PortIdle) c = idleSlope bw tick now (queueSize c = 0) c"

lemma cbs_step_inv: "cbs_inv c \<Longrightarrow> cbs_inv (cbs_step tick wire ev c)"
  by (cases "(tick, wire, ev, c)" rule: cbs_step.cases)
    (simp_all add: receive_size_def handleMessage_cbs_def Let_def idleSlope_inv sendSlope_inv)

text \<open>
  Whatever queue changes, timer events and port events a credit based shaper sees, and
  whatever bandwidth is reserved meanwhile, it reports itself open only with a non-negative credit.
\<close>

theorem cbs_open_credit:
  assumes "cbs_inv c"
  shows "fst (isOpen_cbs bw tick now (fold (cbs_step tick wire) evs c)) \<longrightarrow>
    credit (snd (isOpen_cbs bw tick now (fold (cbs_step tick wire) evs c))) \<ge> 0"
proof -
  have "cbs_inv (fold (cbs_step tick wire) evs c)"
    using assms by (induction evs arbitrary: c) (simp_all add: cbs_step_inv)
  from idleSlope_inv [OF this, of bw tick now] show ?thesis
    by (simp add: isOpen_cbs_def Let_def cbs_inv_def)
qed

text \<open>
  A closed shaper recovers: when an idle slope at time \<open>now\<close> leaves negative credit, it
  registers a timer, and if nothing else happens the event after that many ticks reopens the gate.
\<close>

theorem cbs_recovers:
  assumes bw: "bw > 0" and tick: "tick > 0" and dur: "now > oldTime c" and idle: "\<not> isScheduled c"
    and neg: "credit (idleSlope bw tick now z c) < 0"
  shows "\<exists>n. cbs_timers (idleSlope bw tick now z c) = cbs_timers c @ [n] \<and> n > 0
    \<and> cbs_state (handleMessage_cbs bw tick (now + of_int n * tick) (idleSlope bw tick now z c)) = OPEN"
proof -
  let ?c1 = "idleSlope bw tick now z c"
  define n where "n = \<lceil>(of_int (- credit ?c1) / of_int (uint bw)) / tick\<rceil>"
  have bw': "0 < (of_int (uint bw) :: rat)" using bw unfolding of_int_0_less_iff by (simp add: word_less_def)
  have c1: "cbs_timers ?c1 = cbs_timers c @ [n]" "oldTime ?c1 = now"
    using bw dur idle neg unfolding n_def by (auto simp: idleSlope_def schedule_cbs_def refreshState_def Let_def split: if_splits)
  have "(of_int (- credit ?c1) / of_int (uint bw)) / tick > 0"
    by (rule divide_pos_pos [OF divide_pos_pos [OF _ bw'] tick]) (use neg in simp)
  then have n0: "n > 0" unfolding n_def by simp
  have "of_int (- credit ?c1) \<le> of_int (uint bw) * (of_int n * tick)"
    unfolding n_def by (rule ceiling_covers [OF bw' tick])
  then have "\<lceil>of_int (uint bw) * (of_int n * tick)\<rceil> \<ge> - credit ?c1"
    by (metis ceiling_mono ceiling_of_int)
  then have cr: "credit ?c1 + \<lceil>of_int (uint bw) * (of_int n * tick)\<rceil> \<ge> 0" by linarith
  have pos: "of_int n * tick > 0" using n0 tick by simp
  let ?c2 = "?c1\<lparr>isScheduled := False\<rparr>"
  have "cbs_state (idleSlope bw tick (now + of_int n * tick) zz ?c2) = OPEN" for zz
    using cr pos bw c1(2) by (simp add: idleSlope_def Let_def refreshState_def)
  then show ?thesis using c1 n0 by (auto simp: handleMessage_cbs_def)
qed

subsection \<open>Examples\<close>

definition example_gcl :: gcl where
  "example_gcl = \<lparr>numGates = 2, gateControlList = [], gateControlElement = 0, configNo = 0, timerEventName = ''x'',
     gcl_gates = [OPEN, OPEN], gcl_signals = [], gcl_events = []\<rparr>"

definition example_gcl_clock :: gcl_clock where
  "example_gcl_clock = \<lparr>gc_ticks = 0, gc_cycleTicks = 100, gc_preciseTick = 1 / 100\<rparr>"

definition installed_gcl :: gcl where
  "installed_gcl = (case setGateControlList example_gcl_clock ''o,C:0;C,o:0.5'' example_gcl of Inr g \<Rightarrow> g | Inl e \<Rightarrow> example_gcl)"

lemma example_gcl_inv: "gcl_inv example_gcl"
  by (simp add: gcl_inv_def example_gcl_def)

lemma installed_eq: "setGateControlList example_gcl_clock ''o,C:0;C,o:0.5'' example_gcl = Inr installed_gcl"
proof -
  have "\<not> isl (setGateControlList example_gcl_clock ''o,C:0;C,o:0.5'' example_gcl)" by code_simp
  then show ?thesis
    by (cases "setGateControlList example_gcl_clock ''o,C:0;C,o:0.5'' example_gcl") (simp_all add: installed_gcl_def)
qed

lemma installed_facts:
  "map (\<lambda>x. x = []) [gateControlList installed_gcl] = [False]"
  "gcl_inv installed_gcl \<and> times_ok example_gcl_clock installed_gcl"
  by code_simp+

theorem setGateControlList_correct_witness:
  "gcl_inv installed_gcl \<and> parse_rows (numGates example_gcl) (tokens (CHR '';'') ''o,C:0;C,o:0.5'') = Inr (gateControlList installed_gcl)
    \<and> configNo installed_gcl = configNo example_gcl + 1
    \<and> timerEventName installed_gcl = event_name (configNo installed_gcl)
    \<and> (\<exists>a. gcl_events installed_gcl = gcl_events example_gcl @ [(timerEventName installed_gcl, a)]
         \<and> a < gc_cycleTicks example_gcl_clock)"
  using setGateControlList_correct [OF example_gcl_inv installed_eq] installed_facts(1) by auto

theorem stale_event_ignored_witness:
  "handleMessage_gcl example_gcl_clock (event_name 7) installed_gcl = Inr installed_gcl"
  by (rule stale_event_ignored [OF installed_eq]) (use installed_facts in simp, code_simp)

theorem gcl_cyclic_witness:
  "\<exists>g'. gcl_ticks example_gcl_clock (Suc 3) installed_gcl = Inr g' \<and> gcl_inv g'
    \<and> gateControlList g' = gateControlList installed_gcl
    \<and> gateControlElement g' = (gateControlElement installed_gcl + 3 + 1) mod length (gateControlList installed_gcl)
    \<and> gcl_gates g' = map state_of (fst (gateControlList installed_gcl !
        ((gateControlElement installed_gcl + 3) mod length (gateControlList installed_gcl))))"
  by (rule gcl_cyclic) (use installed_facts in simp_all)

definition emptied_gcl :: gcl where
  "emptied_gcl = (case setGateControlList example_gcl_clock [] installed_gcl of Inr g \<Rightarrow> g | Inl e \<Rightarrow> example_gcl)"

lemma emptied_eq: "setGateControlList example_gcl_clock [] installed_gcl = Inr emptied_gcl"
proof -
  have "\<not> isl (setGateControlList example_gcl_clock [] installed_gcl)" by code_simp
  then show ?thesis by (cases "setGateControlList example_gcl_clock [] installed_gcl") (simp_all add: emptied_gcl_def)
qed

theorem empty_list_dangles_witness:
  "handleMessage_gcl example_gcl_clock (timerEventName installed_gcl) emptied_gcl = Inl OutOfRange"
  by (rule empty_list_dangles [OF emptied_eq])

definition example_cbs :: cbs where
  "example_cbs = \<lparr>credit = -500, isScheduled = False, queueSize = 1, previousQueueSize = 0, oldTime = 0,
     portBandwidth = 100000000, cbs_state = CLOSED, cbs_timers = []\<rparr>"

theorem cbs_open_credit_witness:
  "credit (snd (isOpen_cbs 1000 (1 / 100) 2 (fold (cbs_step (1 / 100) of_nat) [(1000, 1, QueueLength 5)] example_cbs))) \<ge> 0"
proof (rule cbs_open_credit [THEN mp])
  show "cbs_inv example_cbs" by (simp add: cbs_inv_def example_cbs_def)
  show "fst (isOpen_cbs 1000 (1 / 100) 2 (fold (cbs_step (1 / 100) of_nat) [(1000, 1, QueueLength 5)] example_cbs))"
    by code_simp
qed

theorem cbs_recovers_witness:
  "\<exists>n. cbs_timers (idleSlope 1000 (1 / 100) (1 / 10) False example_cbs) = cbs_timers example_cbs @ [n] \<and> n > 0
    \<and> cbs_state (handleMessage_cbs 1000 (1 / 100) (1 / 10 + of_int n * (1 / 100))
         (idleSlope 1000 (1 / 100) (1 / 10) False example_cbs)) = OPEN"
  by (rule cbs_recovers) (simp_all add: example_cbs_def idleSlope_def Let_def refreshState_def schedule_cbs_def)

end
