(* ===== verification/NetConfConfig.thy ===== *)
theory NetConfConfig
  imports FlowTable GateControl
begin

text \<open>
  The configuration data NETCONF sessions transfer (sdn4core/netconf/datastructures) and the
  operations and replies that carry it (sdn4core/netconf/messages). Configurations are values;
  only the flow entries a flow table configuration points to live in the store of FlowTable.
\<close>

subsection \<open>Configuration data\<close>

record commit_timestamp =
  ts_cycle :: "32 word"
  ts_period :: nat
  ts_time :: rat
  ts_executeAtStartOfPeriod :: bool

datatype flow_command = ADD_FLOW | MODIFY_FLOW | MODIFY_STRICT_FLOW | DELETE_FLOW | DELETE_STRICT_FLOW | NO_ACTION

record flow_table_config =
  fc_command :: flow_command
  fc_table_id :: "8 word"
  fc_entries :: "ptr list"

record gate_config =
  gcfg_port :: int
  gcfg_list :: string

datatype netconf_config =
    PlainConfig
  | CommitTimestampConfig commit_timestamp
  | QbvConfig "gate_config list"
  | FlowModConfig "flow_table_config list"
  | SRPConfig "talker_entry list" "listener_entry list"
  | MultipartConfig "netconf_config list"

text \<open>The sizes of the C++ structs, which the platform fixes.\<close>

record abi_sizes =
  sz_talker :: nat
  sz_listener :: nat
  sz_flow_config :: nat
  sz_gate_config :: nat

fun getByteSize :: "abi_sizes \<Rightarrow> netconf_config \<Rightarrow> nat" where
  "getByteSize z PlainConfig = 4"
| "getByteSize z (CommitTimestampConfig t) = 108"
| "getByteSize z (QbvConfig gs) = length gs * sz_gate_config z"
| "getByteSize z (FlowModConfig fs) = sz_flow_config z * length fs"
| "getByteSize z (SRPConfig ts ls) = sz_talker z * length ts + sz_listener z * length ls"
| "getByteSize z (MultipartConfig cs) = sum_list (map (getByteSize z) cs)"

text \<open>\<open>dup\<close>: the copy constructors, entry by entry; nested configurations are copied in turn.\<close>

definition dup_talker :: "talker_entry \<Rightarrow> talker_entry" where
  "dup_talker o1 = \<lparr>te_streamId = te_streamId o1, te_srClass = te_srClass o1, te_address = te_address o1,
     te_module = te_module o1, te_framesize = te_framesize o1, te_intervalFrames = te_intervalFrames o1,
     te_vlan_id = te_vlan_id o1, te_pcp = te_pcp o1, te_insertionTime = te_insertionTime o1,
     te_isStatic = te_isStatic o1\<rparr>"

definition dup_listener :: "listener_entry \<Rightarrow> listener_entry" where
  "dup_listener o1 = \<lparr>le_streamId = le_streamId o1, le_module = le_module o1, le_vlan_id = le_vlan_id o1,
     le_insertionTime = le_insertionTime o1, le_isStatic = le_isStatic o1\<rparr>"

definition dup_gate :: "gate_config \<Rightarrow> gate_config" where
  "dup_gate g = \<lparr>gcfg_port = gcfg_port g, gcfg_list = gcfg_list g\<rparr>"

fun dup :: "netconf_config \<Rightarrow> netconf_config" where
  "dup PlainConfig = PlainConfig"
| "dup (CommitTimestampConfig t) = CommitTimestampConfig t"
| "dup (QbvConfig gs) = QbvConfig (map dup_gate gs)"
| "dup (FlowModConfig fs) = FlowModConfig fs"
| "dup (SRPConfig ts ls) = SRPConfig (map dup_talker ts) (map dup_listener ls)"
| "dup (MultipartConfig cs) = MultipartConfig (map dup cs)"

text \<open>\<open>NetConfConfigIEEE8021Qbv\<close>\<close>

definition getGateConfigurationForPort :: "int \<Rightarrow> gate_config list \<Rightarrow> gate_config option" where
  "getGateConfigurationForPort port gs = find (\<lambda>g. gcfg_port g = port) gs"

text \<open>
  The loop assigns the new pointer to its own loop variable and returns, so a configuration
  already present for the port stays.
\<close>

fun setGateConfiguration_loop :: "gate_config \<Rightarrow> gate_config list \<Rightarrow> bool" where
  "setGateConfiguration_loop c [] = False"
| "setGateConfiguration_loop c (g # gs) = (if gcfg_port g = gcfg_port c then True else setGateConfiguration_loop c gs)"

definition setGateConfiguration :: "gate_config \<Rightarrow> gate_config list \<Rightarrow> gate_config list" where
  "setGateConfiguration c gs = (if setGateConfiguration_loop c gs then gs else gs @ [c])"

text \<open>\<open>NetConfConfigMultipart\<close>\<close>

definition setConfigurations :: "netconf_config list \<Rightarrow> netconf_config list" where
  "setConfigurations new_configs = map dup new_configs"

definition addConfiguration :: "netconf_config \<Rightarrow> netconf_config list \<Rightarrow> netconf_config list" where
  "addConfiguration c cs = cs @ [c]"

subsection \<open>Operations and replies\<close>

datatype netconf_default_op =
  OP_NONE | OP_MERGE | OP_REPLACE | OP_CREATE | OP_DELETE | OP_REMOVE

datatype netconf_error_option = STOPONERROR | CONTINUEONERROR | ROLLBACKONERROR

datatype netconf_operation =
    GetConfig string
  | EditConfig string netconf_default_op netconf_error_option "netconf_config option"
  | CopyConfig string string       \<comment> \<open>source, target\<close>
  | DeleteConfig string
  | Get
  | CloseSession
  | Lock string
  | Unlock string
  | Commit
  | DiscardChanges
  | OtherOperation

record ctrl_info =
  ci_messageType :: int
  ci_message_id :: string
  ci_session_id :: int

datatype rpc_error_type = ERROR_TRANSPORT | ERROR_RPC | ERROR_PROTOCOL | ERROR_APPLICATION

datatype reply_element =
    ReplyOk
  | ReplyError rpc_error_type string
  | ReplyData netconf_config
  | ReplyOther

text \<open>The byte lengths of the operation packets, before the strings are added.\<close>

fun operation_base_length :: "netconf_operation \<Rightarrow> nat" where
  "operation_base_length (GetConfig s) = 133"
| "operation_base_length (EditConfig t d e c) = 119"
| "operation_base_length (CopyConfig s t) = 67"
| "operation_base_length (DeleteConfig t) = 51"
| "operation_base_length Get = 99"
| "operation_base_length CloseSession = 16"
| "operation_base_length (Lock t) = 33"
| "operation_base_length (Unlock t) = 37"
| "operation_base_length Commit = 9"
| "operation_base_length DiscardChanges = 18"
| "operation_base_length OtherOperation = 0"

subsection \<open>Properties of the data\<close>

lemma dup_talker_id [simp]: "dup_talker t = t"
  by (simp add: dup_talker_def)

lemma dup_listener_id [simp]: "dup_listener l = l"
  by (simp add: dup_listener_def)

lemma dup_gate_id [simp]: "dup_gate g = g"
  by (simp add: dup_gate_def)

lemma dup_id: "dup c = c"
proof (induction c)
  case (QbvConfig gs)
  show ?case by (simp add: map_idI)
next
  case (SRPConfig ts ls)
  show ?case by (simp add: map_idI)
next
  case (MultipartConfig cs)
  then show ?case by (simp add: map_idI)
qed simp_all

text \<open>
  Duplicating a configuration copies every field of every nested part: the copy is equal to
  the original, however deep multipart configurations nest, and so has the same byte size.
\<close>

theorem dup_correct: "dup c = c \<and> getByteSize z (dup c) = getByteSize z c"
  by (simp add: dup_id)

lemma setGateConfiguration_loop_iff:
  "setGateConfiguration_loop c gs \<longleftrightarrow> (\<exists>g \<in> set gs. gcfg_port g = gcfg_port c)"
  by (induction gs) auto

text \<open>
  Setting a gate configuration for a port works only for a port that has none yet: then a
  lookup of the port finds the new list; if the port already has a configuration, the old one
  stays in force, although the interface promises to replace it.
\<close>

theorem setGateConfiguration_correct:
  "(case getGateConfigurationForPort (gcfg_port c) gs of
      None \<Rightarrow> getGateConfigurationForPort (gcfg_port c) (setGateConfiguration c gs) = Some c
    | Some old \<Rightarrow> setGateConfiguration c gs = gs
        \<and> getGateConfigurationForPort (gcfg_port c) (setGateConfiguration c gs) = Some old)"
proof (cases "find (\<lambda>g. gcfg_port g = gcfg_port c) gs")
  case None
  then have n: "\<forall>g \<in> set gs. gcfg_port g \<noteq> gcfg_port c" by (auto simp: find_None_iff)
  have "find (\<lambda>g. gcfg_port g = gcfg_port c) (gs @ [c]) = Some c"
    using n by (induction gs) auto
  then show ?thesis
    using None n by (simp add: getGateConfigurationForPort_def setGateConfiguration_def setGateConfiguration_loop_iff)
next
  case (Some old)
  then have "\<exists>g \<in> set gs. gcfg_port g = gcfg_port c" by (auto simp: find_Some_iff)
  then show ?thesis
    using Some by (simp add: getGateConfigurationForPort_def setGateConfiguration_def setGateConfiguration_loop_iff)
qed

end
