(* ===== verification/DataStores.thy ===== *)
theory DataStores
  imports NetConfConfig
begin

text \<open>
  The data configurators, the running and the candidate store of a NETCONF server
  (sdn4core/netconf/datastores/config and store). The running store is the device itself: it
  hands each configuration to every configurator, and the multipart configurator hands the
  parts back to the running store. The candidate store collects configurations until
  \<open>applyTo\<close> merges them into the running store.
\<close>

subsection \<open>The device behind the running store\<close>

datatype configurator = CfgDummy | CfgFlowTable | CfgSRP | CfgQbv | CfgMultipart

record device =
  d_now :: simtime
  d_alloc :: ptr                               \<comment> \<open>the next free address of the entry store\<close>
  d_heap :: fheap
  d_flowTables :: "flow_table list"
  d_srp :: srp_table
  d_gateControlLists :: "(int, gcl) smap"      \<comment> \<open>\<open>_gateControlListModules\<close>, by port\<close>
  d_clocks :: "int \<Rightarrow> gcl_clock"

text \<open>
  \<open>initialize\<close> of the running store: the configured modules in order, and a multipart
  configurator created at the end if there is none.
\<close>

definition initialize_configurators :: "configurator list \<Rightarrow> configurator list" where
  "initialize_configurators cs = (if CfgMultipart \<in> set cs then cs else cs @ [CfgMultipart])"

subsection \<open>Flow table configurator\<close>

definition with_table :: "8 word \<Rightarrow> device \<Rightarrow> (fheap \<times> flow_table \<Rightarrow> ('a \<times> fheap \<times> flow_table) res)
    \<Rightarrow> ('a \<times> device) res" where
  "with_table i d f =
     rbind (vec_at (d_flowTables d) (uint i)) (\<lambda>t.
       rbind (f (d_heap d, t)) (\<lambda>(x, h, t').
         Inr (x, d\<lparr>d_heap := h, d_flowTables := (d_flowTables d)[unat i := t']\<rparr>)))"

definition table_add :: "8 word \<Rightarrow> ptr \<Rightarrow> device \<Rightarrow> (bool \<times> device) res" where
  "table_add i p d = with_table i d (addEntry (d_now d) p)"

definition table_delete :: "8 word \<Rightarrow> oxm_basic_match \<Rightarrow> device \<Rightarrow> device res" where
  "table_delete i m d =
     rbind (with_table i d (\<lambda>ht. rbind (deleteMatchingEntries m ht) (\<lambda>ht'. Inr ((), ht'))))
       (\<lambda>(u, d'). Inr d')"

fun flow_entries_loop :: "flow_command \<Rightarrow> 8 word \<Rightarrow> ptr list \<Rightarrow> bool \<Rightarrow> device \<Rightarrow> (bool \<times> device) res" where
  "flow_entries_loop cmd tid [] status d = Inr (status, d)"
| "flow_entries_loop cmd tid (p # ps) status d =
     rbind (deref (d_heap d) p) (\<lambda>e.
       case cmd of
         ADD_FLOW \<Rightarrow> rbind (table_add tid p d) (\<lambda>(b, d'). flow_entries_loop cmd tid ps b d')
       | MODIFY_FLOW \<Rightarrow>
           rbind (table_delete tid (ematch e) d) (\<lambda>d1.
             rbind (table_add tid p d1) (\<lambda>(b, d'). flow_entries_loop cmd tid ps b d'))
       | DELETE_FLOW \<Rightarrow>
           rbind (table_delete tid (ematch e) d) (\<lambda>d'. flow_entries_loop cmd tid ps True d')
       | _ \<Rightarrow> flow_entries_loop cmd tid ps status d)"

fun flow_configs_loop :: "flow_table_config list \<Rightarrow> bool \<Rightarrow> device \<Rightarrow> (bool \<times> device) res" where
  "flow_configs_loop [] status d = Inr (status, d)"
| "flow_configs_loop (c # cs) status d =
     rbind (flow_entries_loop (fc_command c) (fc_table_id c) (fc_entries c) status d)
       (\<lambda>(s, d'). flow_configs_loop cs s d')"

definition editConfig_FlowTable :: "netconf_config \<Rightarrow> device \<Rightarrow> (bool \<times> device) res" where
  "editConfig_FlowTable config d =
     (case config of FlowModConfig fs \<Rightarrow> flow_configs_loop fs False d | _ \<Rightarrow> Inr (False, d))"

definition validateConfig_FlowTable :: "netconf_config \<Rightarrow> bool" where
  "validateConfig_FlowTable config =
     (case config of
        FlowModConfig fs \<Rightarrow>
          list_ex (\<lambda>c. fc_entries c \<noteq> [] \<and> fc_command c \<in> {ADD_FLOW, MODIFY_FLOW, DELETE_FLOW}) fs
      | _ \<Rightarrow> False)"

definition getConfig_FlowTable :: "device \<Rightarrow> netconf_config" where
  "getConfig_FlowTable d =
     FlowModConfig (map (\<lambda>(i, t). \<lparr>fc_command = NO_ACTION, fc_table_id = word_of_nat i, fc_entries = ft_entries t\<rparr>)
       (enumerate 0 (d_flowTables d)))"

subsection \<open>SRP configurator\<close>

definition validateConfig_SRP :: "netconf_config \<Rightarrow> netconf_default_op \<Rightarrow> device \<Rightarrow> bool" where
  "validateConfig_SRP config dop d =
     (case config of
        SRPConfig ts ls \<Rightarrow>
          (if dop = OP_CREATE \<and> dop = OP_DELETE then
             list_all (\<lambda>l. fst (getListenersForStreamId (d_now d) (le_streamId l) (le_vlan_id l) (d_srp d)) \<noteq> []) ls \<and>
             list_all (\<lambda>t. fst (getTalkerEntryForStreamId (d_now d) (te_streamId t) (te_vlan_id t) (d_srp d)) \<noteq> None) ts
           else True)
      | _ \<Rightarrow> False)"

definition put_talker :: "simtime \<Rightarrow> talker_entry \<Rightarrow> srp_table \<Rightarrow> srp_table res" where
  "put_talker now t s =
     rbind (updateTalkerWithStreamId now (te_streamId t) (te_module t) (te_address t) (te_srClass t)
              (te_framesize t) (te_intervalFrames t) (te_vlan_id t) (te_pcp t) True s) (\<lambda>(b, s'). Inr s')"

definition edit_talker :: "simtime \<Rightarrow> netconf_default_op \<Rightarrow> talker_entry \<Rightarrow> bool \<Rightarrow> srp_table \<Rightarrow> (bool \<times> srp_table) res" where
  "edit_talker now dop t noError s =
     (case dop of
        OP_CREATE \<Rightarrow>
          (let (m, s1) = getTalkerForStreamId now (te_streamId t) (te_vlan_id t) s in
           if m \<noteq> nullptr then Inr (False, s1)
           else rbind (put_talker now t s1) (\<lambda>s2. Inr (noError, s2)))
      | OP_MERGE \<Rightarrow> rbind (put_talker now t s) (\<lambda>s2. Inr (noError, s2))
      | OP_DELETE \<Rightarrow>
          rbind (removeTalkerWithStreamId (te_streamId t) (te_module t) (te_address t) (te_vlan_id t) s)
            (\<lambda>(b, s'). Inr (noError \<and> b, s'))
      | OP_REMOVE \<Rightarrow>
          rbind (removeTalkerWithStreamId (te_streamId t) (te_module t) (te_address t) (te_vlan_id t) s)
            (\<lambda>(b, s'). Inr (noError, s'))
      | _ \<Rightarrow> Inr (noError, s))"

definition put_listener :: "simtime \<Rightarrow> listener_entry \<Rightarrow> srp_table \<Rightarrow> srp_table res" where
  "put_listener now l s =
     rbind (updateListenerWithStreamId now (le_streamId l) (le_module l) (le_vlan_id l) False s) (\<lambda>(b, s'). Inr s')"

definition edit_listener :: "simtime \<Rightarrow> netconf_default_op \<Rightarrow> listener_entry \<Rightarrow> bool \<Rightarrow> srp_table \<Rightarrow> (bool \<times> srp_table) res" where
  "edit_listener now dop l noError s =
     (case dop of
        OP_CREATE \<Rightarrow>
          (let (ms, s1) = getListenersForStreamId now (le_streamId l) (le_vlan_id l) s in
           if length ms \<le> 0 then Inr (False, s1)
           else rbind (put_listener now l s1) (\<lambda>s2. Inr (noError, s2)))
      | OP_MERGE \<Rightarrow> rbind (put_listener now l s) (\<lambda>s2. Inr (noError, s2))
      | OP_DELETE \<Rightarrow>
          (let (b, s') = removeListenerWithStreamId (le_streamId l) (le_module l) (le_vlan_id l) s
           in Inr (noError \<and> b, s'))
      | OP_REMOVE \<Rightarrow>
          (let (b, s') = removeListenerWithStreamId (le_streamId l) (le_module l) (le_vlan_id l) s
           in Inr (noError, s'))
      | _ \<Rightarrow> Inr (noError, s))"

text \<open>
  A loop of \<open>editConfig\<close>: the first component of the result is False where the code
  returns early because of STOPONERROR.
\<close>

fun edit_loop :: "('e \<Rightarrow> bool \<Rightarrow> srp_table \<Rightarrow> (bool \<times> srp_table) res) \<Rightarrow> netconf_error_option
    \<Rightarrow> 'e list \<Rightarrow> bool \<Rightarrow> srp_table \<Rightarrow> (bool \<times> bool \<times> srp_table) res" where
  "edit_loop f eo [] noError s = Inr (True, noError, s)"
| "edit_loop f eo (x # xs) noError s =
     (if \<not> noError \<and> eo = STOPONERROR then Inr (False, noError, s)
      else rbind (f x noError s) (\<lambda>(n, s'). edit_loop f eo xs n s'))"

definition editConfig_SRP :: "netconf_default_op \<Rightarrow> netconf_error_option \<Rightarrow> netconf_config \<Rightarrow> device \<Rightarrow> (bool \<times> device) res" where
  "editConfig_SRP dop eo config d =
     (case config of
        SRPConfig ts ls \<Rightarrow>
          if eo = ROLLBACKONERROR \<and> \<not> validateConfig_SRP config dop d then Inr (False, d)
          else
            rbind (edit_loop (edit_talker (d_now d) dop) eo ts True (d_srp d)) (\<lambda>(go, n1, s1).
              if \<not> go then Inr (False, d\<lparr>d_srp := s1\<rparr>)
              else rbind (edit_loop (edit_listener (d_now d) dop) eo ls n1 s1) (\<lambda>(go2, n2, s2).
                if \<not> go2 then Inr (False, d\<lparr>d_srp := s2\<rparr>) else Inr (n2, d\<lparr>d_srp := s2\<rparr>)))
      | _ \<Rightarrow> Inr (False, d))"

definition getConfig_SRP :: "device \<Rightarrow> netconf_config" where
  "getConfig_SRP d = SRPConfig (getTalkerEntries (d_srp d)) (getListenerEntries (d_srp d))"

subsection \<open>IEEE 802.1Qbv configurator\<close>

definition validateConfig_Qbv :: "netconf_config \<Rightarrow> device \<Rightarrow> bool" where
  "validateConfig_Qbv config d =
     (case config of
        QbvConfig gs \<Rightarrow> list_all (\<lambda>g. smap_get (gcfg_port g) (d_gateControlLists d) \<noteq> None) gs
      | _ \<Rightarrow> False)"

fun qbv_loop :: "(int \<Rightarrow> gcl_clock) \<Rightarrow> gate_config list \<Rightarrow> (int, gcl) smap \<Rightarrow> (int, gcl) smap res" where
  "qbv_loop clk gs [] = Inr []"
| "qbv_loop clk gs ((port, g) # m) =
     (case getGateConfigurationForPort port gs of
        None \<Rightarrow> rbind (qbv_loop clk gs m) (\<lambda>m'. Inr ((port, g) # m'))
      | Some c \<Rightarrow>
          rbind (setGateControlList (clk port) (gcfg_list c) g) (\<lambda>g'.
            rbind (qbv_loop clk gs m) (\<lambda>m'. Inr ((port, g') # m'))))"

definition editConfig_Qbv :: "netconf_config \<Rightarrow> device \<Rightarrow> (bool \<times> device) res" where
  "editConfig_Qbv config d =
     (if validateConfig_Qbv config d then
        (case config of
           QbvConfig gs \<Rightarrow>
             rbind (qbv_loop (d_clocks d) gs (d_gateControlLists d))
               (\<lambda>m. Inr (True, d\<lparr>d_gateControlLists := m\<rparr>))
         | _ \<Rightarrow> Inr (True, d))
      else Inr (False, d))"

text \<open>\<open>getConfig\<close> builds one gate configuration per port but never adds it to the result.\<close>

definition getConfig_Qbv :: "device \<Rightarrow> netconf_config" where
  "getConfig_Qbv d = QbvConfig []"

subsection \<open>Validation by the running store\<close>

text \<open>The multipart configurator validates each part against the whole running store.\<close>

fun validate_running :: "configurator list \<Rightarrow> device \<Rightarrow> netconf_config \<Rightarrow> bool" where
  "validate_running cs d (MultipartConfig parts) =
     list_ex (\<lambda>k. case k of
         CfgDummy \<Rightarrow> True
       | CfgFlowTable \<Rightarrow> validateConfig_FlowTable (MultipartConfig parts)
       | CfgSRP \<Rightarrow> validateConfig_SRP (MultipartConfig parts) OP_NONE d
       | CfgQbv \<Rightarrow> validateConfig_Qbv (MultipartConfig parts) d
       | CfgMultipart \<Rightarrow> list_all (validate_running cs d) parts) cs"
| "validate_running cs d config =
     list_ex (\<lambda>k. case k of
         CfgDummy \<Rightarrow> True
       | CfgFlowTable \<Rightarrow> validateConfig_FlowTable config
       | CfgSRP \<Rightarrow> validateConfig_SRP config OP_NONE d
       | CfgQbv \<Rightarrow> validateConfig_Qbv config d
       | CfgMultipart \<Rightarrow> False) cs"

definition validateConfig_Multipart :: "configurator list \<Rightarrow> device \<Rightarrow> netconf_config \<Rightarrow> bool" where
  "validateConfig_Multipart cs d config =
     (case config of MultipartConfig parts \<Rightarrow> list_all (validate_running cs d) parts | _ \<Rightarrow> False)"

subsection \<open>Editing the running store\<close>

text \<open>
  \<open>edit_running\<close> goes through the configurators that are left, \<open>edit_one\<close> is
  \<open>editConfig\<close> of one configurator and \<open>edit_parts\<close> the loop over the parts of a
  multipart configuration. The first argument is the full list of configurators of the store.
\<close>

function (sequential)
  edit_running :: "configurator list \<Rightarrow> netconf_default_op \<Rightarrow> netconf_error_option \<Rightarrow> netconf_config
    \<Rightarrow> configurator list \<Rightarrow> bool \<Rightarrow> device \<Rightarrow> (bool \<times> device) res"
and edit_one :: "configurator list \<Rightarrow> netconf_default_op \<Rightarrow> netconf_error_option \<Rightarrow> netconf_config
    \<Rightarrow> configurator \<Rightarrow> device \<Rightarrow> (bool \<times> device) res"
and edit_parts :: "configurator list \<Rightarrow> netconf_default_op \<Rightarrow> netconf_error_option \<Rightarrow> netconf_config list
    \<Rightarrow> bool \<Rightarrow> device \<Rightarrow> (bool \<times> device) res"
where
  "edit_running cs dop eo config [] newConfigs d = Inr (newConfigs, d)"
| "edit_running cs dop eo config (k # ks) newConfigs d =
     rbind (edit_one cs dop eo config k d) (\<lambda>(b, d').
       edit_running cs dop eo config ks (if b then True else newConfigs) d')"
| "edit_one cs dop eo (MultipartConfig parts) CfgMultipart d =
     (if eo = ROLLBACKONERROR \<and> \<not> validateConfig_Multipart cs d (MultipartConfig parts) then Inr (False, d)
      else edit_parts cs dop eo parts True d)"
| "edit_one cs dop eo config CfgMultipart d = Inr (False, d)"
| "edit_one cs dop eo config CfgDummy d = Inr (True, d)"
| "edit_one cs dop eo config CfgFlowTable d = editConfig_FlowTable config d"
| "edit_one cs dop eo config CfgSRP d = editConfig_SRP dop eo config d"
| "edit_one cs dop eo config CfgQbv d = editConfig_Qbv config d"
| "edit_parts cs dop eo [] status d = Inr (status, d)"
| "edit_parts cs dop eo (part # parts) status d =
     rbind (edit_running cs dop eo part cs False d) (\<lambda>(b, d').
       let status' = (status \<and> b) in
       if \<not> status' \<and> eo = STOPONERROR then Inr (False, d')
       else edit_parts cs dop eo parts status' d')"
  by pat_completeness auto

termination
  by (relation "measures [
      \<lambda>x. case x of
          Inl (cs, dop, eo, c, ks, b, d) \<Rightarrow> size c
        | Inr (Inl (cs, dop, eo, c, k, d)) \<Rightarrow> size c
        | Inr (Inr (cs, dop, eo, ps, b, d)) \<Rightarrow> size_list size ps,
      \<lambda>x. case x of
          Inl (cs, dop, eo, c, ks, b, d) \<Rightarrow> Suc (length ks)
        | Inr (Inl (cs, dop, eo, c, k, d)) \<Rightarrow> 0
        | Inr (Inr (cs, dop, eo, ps, b, d)) \<Rightarrow> 0]")
    auto

definition editConfig_running :: "configurator list \<Rightarrow> netconf_default_op \<Rightarrow> netconf_error_option
    \<Rightarrow> netconf_config \<Rightarrow> device \<Rightarrow> (bool \<times> device) res" where
  "editConfig_running cs dop eo config d = edit_running cs dop eo config cs False d"

text \<open>The first configurator answers a retrieval; the filter is ignored.\<close>

definition getConfig_running :: "configurator list \<Rightarrow> device \<Rightarrow> netconf_config option res" where
  "getConfig_running cs d =
     (case cs of
        [] \<Rightarrow> Inr None
      | CfgDummy # _ \<Rightarrow> Inr (Some PlainConfig)
      | CfgFlowTable # _ \<Rightarrow> Inr (Some (getConfig_FlowTable d))
      | CfgSRP # _ \<Rightarrow> Inr (Some (getConfig_SRP d))
      | CfgQbv # _ \<Rightarrow> Inr (Some (getConfig_Qbv d))
      | CfgMultipart # _ \<Rightarrow> Inl (RuntimeError ''Get Config not implemented''))"

subsection \<open>Locks\<close>

text \<open>
  What the data store manager relies on when it locks and unlocks a store; \<open>'s\<close> is the
  state of the store. Session ids below 0 are never lock owners.
\<close>

locale lockable_store =
  fixes isLocked :: "'s \<Rightarrow> bool"
    and isLockedBy :: "int \<Rightarrow> 's \<Rightarrow> bool"
    and unlock :: "'s \<Rightarrow> 's"
    and checkAndLock :: "int \<Rightarrow> 's \<Rightarrow> bool \<times> 's"
  assumes lock_granted: "checkAndLock sid s = (True, s') \<Longrightarrow> \<not> isLocked s \<and> 0 \<le> sid \<and> isLockedBy sid s'"
    and lock_denied: "checkAndLock sid s = (False, s') \<Longrightarrow> s' = s"
    and unlock_free: "\<not> isLocked (unlock s)"
    and owner_locked: "isLockedBy sid s \<Longrightarrow> 0 \<le> sid \<Longrightarrow> isLocked s"
    and owner_unique: "isLockedBy a s \<Longrightarrow> isLockedBy b s \<Longrightarrow> a = b"
begin

text \<open>\<open>verifyLock\<close>: whether a session may change the store.\<close>

definition may_edit :: "int \<Rightarrow> 's \<Rightarrow> bool" where
  "may_edit sid s \<longleftrightarrow> (isLocked s \<longrightarrow> isLockedBy sid s)"

lemma locked_exclusive:
  assumes "checkAndLock a s = (True, s')" and "b \<noteq> a"
  shows "\<not> may_edit b s'" and "checkAndLock b s' = (False, s')" and "may_edit a s'"
proof -
  have a: "isLockedBy a s'" and l: "isLocked s'"
    using lock_granted [OF assms(1)] owner_locked by blast+
  show "\<not> may_edit b s'" using a l owner_unique assms(2) by (auto simp: may_edit_def)
  show "may_edit a s'" using a by (simp add: may_edit_def)
  show "checkAndLock b s' = (False, s')"
  proof (cases "checkAndLock b s'")
    case (Pair r s'')
    then show ?thesis using lock_granted [of b s' s''] lock_denied [of b s' s''] l by (cases r) auto
  qed
qed

lemma unlocked_editable: "may_edit a (unlock s)"
  using unlock_free by (simp add: may_edit_def)

end

text \<open>The lock of \<open>NetConfDataStoreBase\<close>: the session id of the owner, negative if there is none.\<close>

definition isLocked :: "int \<Rightarrow> bool" where
  "isLocked lockHolderSessionId \<longleftrightarrow> lockHolderSessionId \<ge> 0"

definition isLockedBy :: "int \<Rightarrow> int \<Rightarrow> bool" where
  "isLockedBy sid lockHolderSessionId \<longleftrightarrow> lockHolderSessionId = sid"

definition unlock :: "int \<Rightarrow> int" where
  "unlock lockHolderSessionId = -1"

definition checkAndLock :: "int \<Rightarrow> int \<Rightarrow> bool \<times> int" where
  "checkAndLock sid lockHolderSessionId =
     (if sid \<ge> 0 \<and> \<not> isLocked lockHolderSessionId then (True, sid) else (False, lockHolderSessionId))"

interpretation running_lock: lockable_store isLocked isLockedBy unlock checkAndLock
  by unfold_locales
    (auto simp: checkAndLock_def isLocked_def isLockedBy_def unlock_def split: if_splits)

subsection \<open>The candidate store\<close>

record candidate =
  c_lock :: int
  c_configs :: "netconf_config list"       \<comment> \<open>\<open>_configVector\<close>\<close>

definition isLocked_c :: "candidate \<Rightarrow> bool" where
  "isLocked_c c = isLocked (c_lock c)"

definition isLockedBy_c :: "int \<Rightarrow> candidate \<Rightarrow> bool" where
  "isLockedBy_c sid c = isLockedBy sid (c_lock c)"

definition unlock_c :: "candidate \<Rightarrow> candidate" where
  "unlock_c c = c\<lparr>c_lock := unlock (c_lock c)\<rparr>"

definition checkAndLock_c :: "int \<Rightarrow> candidate \<Rightarrow> bool \<times> candidate" where
  "checkAndLock_c sid c =
     (if c_configs c \<noteq> [] then (False, c)
      else let (b, l) = checkAndLock sid (c_lock c) in (b, c\<lparr>c_lock := l\<rparr>))"

interpretation candidate_lock: lockable_store isLocked_c isLockedBy_c unlock_c checkAndLock_c
  by unfold_locales
    (auto simp: checkAndLock_c_def checkAndLock_def isLocked_c_def isLockedBy_c_def unlock_c_def
       isLocked_def isLockedBy_def unlock_def split: if_splits)

definition editConfig_c :: "configurator list \<Rightarrow> device \<Rightarrow> netconf_config \<Rightarrow> candidate \<Rightarrow> bool \<times> candidate" where
  "editConfig_c cs d config c =
     (if validate_running cs d config then (True, c\<lparr>c_configs := c_configs c @ [dup config]\<rparr>)
      else (False, c))"

definition clear_c :: "candidate \<Rightarrow> candidate" where
  "clear_c c = c\<lparr>c_configs := []\<rparr>"

fun apply_loop :: "configurator list \<Rightarrow> netconf_config list \<Rightarrow> bool \<Rightarrow> device \<Rightarrow> (bool \<times> device) res" where
  "apply_loop cs [] success d = Inr (success, d)"
| "apply_loop cs (x # xs) success d =
     (if success then
        rbind (editConfig_running cs OP_MERGE ROLLBACKONERROR x d) (\<lambda>(b, d'). apply_loop cs xs b d')
      else apply_loop cs xs False d)"

definition applyTo :: "configurator list \<Rightarrow> candidate \<Rightarrow> device \<Rightarrow> (bool \<times> candidate \<times> device) res" where
  "applyTo cs c d =
     rbind (apply_loop cs (c_configs c) True d) (\<lambda>(b, d'). Inr (b, clear_c c, d'))"

subsection \<open>What an edit keeps\<close>

text \<open>The reservation table and the gate control lists of a device are well-formed.\<close>

definition dev_ok :: "device \<Rightarrow> bool" where
  "dev_ok d \<longleftrightarrow> srp_inv (d_srp d) \<and> smap_all (\<lambda>p g. gcl_inv g) (d_gateControlLists d)"

lemma dev_ok_cong:
  "d_srp d' = d_srp d \<Longrightarrow> d_gateControlLists d' = d_gateControlLists d \<Longrightarrow> dev_ok d' = dev_ok d"
  by (simp add: dev_ok_def)

lemma with_table_frame:
  "with_table i d f = Inr (x, d') \<Longrightarrow> d_srp d' = d_srp d \<and> d_gateControlLists d' = d_gateControlLists d"
  by (auto simp: with_table_def rbind_Inr_iff)

lemma table_frame:
  "table_add i p d = Inr (b, d') \<Longrightarrow> d_srp d' = d_srp d \<and> d_gateControlLists d' = d_gateControlLists d"
  "table_delete i m d = Inr d' \<Longrightarrow> d_srp d' = d_srp d \<and> d_gateControlLists d' = d_gateControlLists d"
  by (auto simp: table_add_def table_delete_def rbind_Inr_iff dest: with_table_frame)

lemma flow_entries_loop_ok:
  "flow_entries_loop cmd tid ps s d = Inr (b, d') \<Longrightarrow> dev_ok d \<Longrightarrow> dev_ok d'"
proof (induction cmd tid ps s d rule: flow_entries_loop.induct)
  case (2 cmd tid p ps s d)
  then show ?case
    by (cases cmd) (auto simp: rbind_Inr_iff dest!: table_frame dev_ok_cong)
qed simp

lemma flow_configs_loop_ok:
  "flow_configs_loop cs s d = Inr (b, d') \<Longrightarrow> dev_ok d \<Longrightarrow> dev_ok d'"
  by (induction cs s d rule: flow_configs_loop.induct)
    (auto simp: rbind_Inr_iff dest: flow_entries_loop_ok)

lemma srp_query_inv:
  "srp_inv s \<Longrightarrow> srp_inv (snd (getTalkerForStreamId now sid vid s))"
  "srp_inv s \<Longrightarrow> srp_inv (snd (getListenersForStreamId now sid vid s))"
  by (auto simp: getTalkerForStreamId_def getListenersForStreamId_def Let_def
      removeAgedEntriesIfNeeded_srp_inv split: option.splits)

lemma put_inv:
  "put_talker now t s = Inr s' \<Longrightarrow> srp_inv s \<Longrightarrow> srp_inv s'"
  "put_listener now l s = Inr s' \<Longrightarrow> srp_inv s \<Longrightarrow> srp_inv s'"
  by (auto simp: put_talker_def put_listener_def rbind_Inr_iff dest: updateTalker_inv updateListener_inv)

lemma edit_talker_inv: "edit_talker now dop t n s = Inr (b, s') \<Longrightarrow> srp_inv s \<Longrightarrow> srp_inv s'"
  using srp_query_inv(1) [of s now "te_streamId t" "te_vlan_id t"]
  by (cases dop) (auto simp: edit_talker_def rbind_Inr_iff split: prod.splits if_splits
      dest: put_inv removeTalker_inv)

lemma edit_listener_inv: "edit_listener now dop l n s = Inr (b, s') \<Longrightarrow> srp_inv s \<Longrightarrow> srp_inv s'"
  using srp_query_inv(2) [of s now "le_streamId l" "le_vlan_id l"]
    removeListener_inv [of s "le_streamId l" "le_module l" "le_vlan_id l"]
  by (cases dop) (auto simp: edit_listener_def rbind_Inr_iff split: prod.splits if_splits dest: put_inv)

lemma edit_loop_inv:
  assumes f: "\<And>x n s b s'. f x n s = Inr (b, s') \<Longrightarrow> srp_inv s \<Longrightarrow> srp_inv s'"
  shows "edit_loop f eo xs n s = Inr (g, b, s') \<Longrightarrow> srp_inv s \<Longrightarrow> srp_inv s'"
  by (induction xs arbitrary: n s) (auto simp: rbind_Inr_iff split: if_splits dest: f)

lemma edit_talkers_inv:
  "edit_loop (edit_talker now dop) eo xs n s = Inr (g, b, s') \<Longrightarrow> srp_inv s \<Longrightarrow> srp_inv s'"
  using edit_loop_inv [of "edit_talker now dop"] edit_talker_inv by blast

lemma edit_listeners_inv:
  "edit_loop (edit_listener now dop) eo xs n s = Inr (g, b, s') \<Longrightarrow> srp_inv s \<Longrightarrow> srp_inv s'"
  using edit_loop_inv [of "edit_listener now dop"] edit_listener_inv by blast

lemma editConfig_SRP_ok:
  assumes "editConfig_SRP dop eo c d = Inr (b, d')" and "dev_ok d"
  shows "dev_ok d'"
proof (cases c)
  case (SRPConfig ts ls)
  show ?thesis
    using assms SRPConfig
    by (auto simp: editConfig_SRP_def rbind_Inr_iff dev_ok_def split: if_splits
        dest: edit_talkers_inv edit_listeners_inv)
qed (use assms in \<open>auto simp: editConfig_SRP_def\<close>)

lemma qbv_loop_ok:
  "qbv_loop clk gs m = Inr m' \<Longrightarrow> smap_all (\<lambda>p g. gcl_inv g) m \<Longrightarrow> smap_all (\<lambda>p g. gcl_inv g) m'"
proof (induction clk gs m arbitrary: m' rule: qbv_loop.induct)
  case (2 clk gs port g m)
  show ?case
  proof (cases "getGateConfigurationForPort port gs")
    case None
    with 2 show ?thesis by (auto simp: rbind_Inr_iff)
  next
    case (Some c)
    with "2.prems" obtain g' m1 where g': "setGateControlList (clk port) (gcfg_list c) g = Inr g'"
      and m1: "qbv_loop clk gs m = Inr m1" and m': "m' = (port, g') # m1"
      by (auto simp: rbind_Inr_iff)
    then have "gcl_inv g'" using setGateControlList_inv [OF _ g'] "2.prems"(2) by simp
    then show ?thesis using "2.IH"(2) [OF Some m1] "2.prems"(2) m' by simp
  qed
qed simp

lemma editConfig_Qbv_ok: "editConfig_Qbv c d = Inr (b, d') \<Longrightarrow> dev_ok d \<Longrightarrow> dev_ok d'"
  by (auto simp: editConfig_Qbv_def rbind_Inr_iff dev_ok_def split: if_splits netconf_config.splits
      dest: qbv_loop_ok)

lemma editConfig_FlowTable_ok: "editConfig_FlowTable c d = Inr (b, d') \<Longrightarrow> dev_ok d \<Longrightarrow> dev_ok d'"
  by (auto simp: editConfig_FlowTable_def split: netconf_config.splits dest: flow_configs_loop_ok)

lemma edit_running_step:
  assumes "edit_running cs dop eo config (k # ks) n d = Inr (b, d')"
  shows "\<exists>b1 d1. edit_one cs dop eo config k d = Inr (b1, d1)
    \<and> edit_running cs dop eo config ks (if b1 then True else n) d1 = Inr (b, d')"
proof -
  obtain x where x: "edit_one cs dop eo config k d = Inr x"
    "(case x of (b1, d1) \<Rightarrow> edit_running cs dop eo config ks (if b1 then True else n) d1) = Inr (b, d')"
    using assms unfolding edit_running.simps by (rule rbind_InrE)
  obtain b1 d1 where "x = (b1, d1)" by (cases x)
  with x show ?thesis by (simp only: prod.case) blast
qed

lemma edit_parts_step:
  assumes "edit_parts cs dop eo (part # parts) s d = Inr (b, d')"
  shows "\<exists>b1 d1. edit_running cs dop eo part cs False d = Inr (b1, d1)
    \<and> (if \<not> (s \<and> b1) \<and> eo = STOPONERROR then d' = d1 \<and> \<not> b
       else edit_parts cs dop eo parts (s \<and> b1) d1 = Inr (b, d'))"
proof -
  obtain x where x: "edit_running cs dop eo part cs False d = Inr x"
    "(case x of (b1, d1) \<Rightarrow> let status' = (s \<and> b1) in
       if \<not> status' \<and> eo = STOPONERROR then Inr (False, d1)
       else edit_parts cs dop eo parts status' d1) = Inr (b, d')"
    using assms unfolding edit_parts.simps by (rule rbind_InrE)
  obtain b1 d1 where p: "x = (b1, d1)" by (cases x)
  show ?thesis
  proof (intro exI conjI)
    show "edit_running cs dop eo part cs False d = Inr (b1, d1)" using x(1) p by simp
    show "if \<not> (s \<and> b1) \<and> eo = STOPONERROR then d' = d1 \<and> \<not> b
       else edit_parts cs dop eo parts (s \<and> b1) d1 = Inr (b, d')"
      using x(2) p by (cases "\<not> (s \<and> b1) \<and> eo = STOPONERROR") (auto simp: Let_def)
  qed
qed

lemma edit_ok:
  "edit_running cs dop eo c ks n d = Inr (b, d') \<Longrightarrow> dev_ok d \<Longrightarrow> dev_ok d'"
  "edit_one cs dop eo c k d = Inr (b, d') \<Longrightarrow> dev_ok d \<Longrightarrow> dev_ok d'"
  "edit_parts cs dop eo ps s d = Inr (b, d') \<Longrightarrow> dev_ok d \<Longrightarrow> dev_ok d'"
proof (induction cs dop eo c ks n d and cs dop eo c k d and cs dop eo ps s d
    arbitrary: b d' and b d' and b d' rule: edit_running_edit_one_edit_parts.induct)
  fix cs dop eo config k ks newConfigs d b d'
  assume one: "\<And>b d'. edit_one cs dop eo config k d = Inr (b, d') \<Longrightarrow> dev_ok d \<Longrightarrow> dev_ok d'"
    and more: "\<And>x xa b d'. edit_running cs dop eo config ks (if x then True else newConfigs) xa = Inr (b, d') \<Longrightarrow>
        dev_ok xa \<Longrightarrow> dev_ok d'"
    and run: "edit_running cs dop eo config (k # ks) newConfigs d = Inr (b, d')" and ok: "dev_ok d"
  from edit_running_step [OF run] one ok more show "dev_ok d'" by blast
next
  fix cs dop eo part parts status d b d'
  assume one: "\<And>b d'. edit_running cs dop eo part cs False d = Inr (b, d') \<Longrightarrow> dev_ok d \<Longrightarrow> dev_ok d'"
    and more: "\<And>x xa xb b d'. xb = (status \<and> x) \<Longrightarrow> \<not> (\<not> xb \<and> eo = STOPONERROR) \<Longrightarrow>
        edit_parts cs dop eo parts xb xa = Inr (b, d') \<Longrightarrow> dev_ok xa \<Longrightarrow> dev_ok d'"
    and run: "edit_parts cs dop eo (part # parts) status d = Inr (b, d')" and ok: "dev_ok d"
  from edit_parts_step [OF run] obtain b1 d1 where b1: "edit_running cs dop eo part cs False d = Inr (b1, d1)"
    and r: "if \<not> (status \<and> b1) \<and> eo = STOPONERROR then d' = d1 \<and> \<not> b
       else edit_parts cs dop eo parts (status \<and> b1) d1 = Inr (b, d')" by blast
  have ok1: "dev_ok d1" by (rule one [OF b1 ok])
  show "dev_ok d'"
  proof (cases "\<not> (status \<and> b1) \<and> eo = STOPONERROR")
    case True
    then show ?thesis using r ok1 by auto
  next
    case False
    have "edit_parts cs dop eo parts (status \<and> b1) d1 = Inr (b, d')" using r unfolding if_not_P [OF False] .
    then show ?thesis by (rule more [OF refl False _ ok1])
  qed
qed (auto split: if_splits dest: editConfig_FlowTable_ok editConfig_SRP_ok editConfig_Qbv_ok)

subsection \<open>Properties of the stores\<close>

text \<open>
  Whatever configuration the running store is edited with, under any default operation and
  error option and for any set of configurators, a normal return leaves the reservation table and
  every gate control list of the device well-formed.
\<close>

theorem editConfig_running_keeps:
  "editConfig_running cs dop eo config d = Inr (b, d') \<Longrightarrow> dev_ok d \<Longrightarrow> dev_ok d'"
  unfolding editConfig_running_def by (rule edit_ok(1))

text \<open>The outcomes of merging a list of configurations one after the other.\<close>

fun merge_all :: "configurator list \<Rightarrow> netconf_config list \<Rightarrow> device \<Rightarrow> (bool list \<times> device) res" where
  "merge_all cs [] d = Inr ([], d)"
| "merge_all cs (x # xs) d =
     rbind (editConfig_running cs OP_MERGE ROLLBACKONERROR x d) (\<lambda>(b, d1).
       rbind (merge_all cs xs d1) (\<lambda>(bs, d2). Inr (b # bs, d2)))"

lemma apply_loop_False [simp]: "apply_loop cs xs False d = Inr (False, d)"
  by (induction xs) simp_all

lemma apply_loop_spec:
  "apply_loop cs xs True d = Inr (b, d') \<Longrightarrow>
    (if b then merge_all cs xs d = Inr (replicate (length xs) True, d')
     else \<exists>n < length xs. merge_all cs (take (Suc n) xs) d = Inr (replicate n True @ [False], d'))"
proof (induction xs arbitrary: d)
  case (Cons x xs)
  then obtain b1 d1 where e: "editConfig_running cs OP_MERGE ROLLBACKONERROR x d = Inr (b1, d1)"
    and l: "apply_loop cs xs b1 d1 = Inr (b, d')"
    by (auto simp: rbind_Inr_iff)
  show ?case
  proof (cases b1)
    case True
    with Cons.IH [of d1] l e show ?thesis
      by (cases b) (auto intro: exI [of _ "Suc n" for n])
  next
    case False
    with l e show ?thesis by (auto intro!: exI [of _ 0])
  qed
qed auto

lemma merge_all_apply:
  "merge_all cs xs d = Inr (replicate (length xs) True, d') \<Longrightarrow> apply_loop cs xs True d = Inr (True, d')"
  by (induction xs arbitrary: d) (auto simp: rbind_Inr_iff intro!: exI [of _ True])

text \<open>
  C28: Applying the candidate to the running store empties the candidate and keeps its lock. If
  it reports success, all collected configurations were merged, in the order they were staged,
  each successfully. If it reports failure, the configurations up to and including the first
  failing one were merged and the rest dropped; nothing that was merged is undone.
\<close>

theorem applyTo_correct:
  assumes "applyTo cs c d = Inr (b, c', d')"
  shows "c' = c\<lparr>c_configs := []\<rparr>
    \<and> (if b then merge_all cs (c_configs c) d = Inr (replicate (length (c_configs c)) True, d')
       else \<exists>n < length (c_configs c).
         merge_all cs (take (Suc n) (c_configs c)) d = Inr (replicate n True @ [False], d'))"
  using assms apply_loop_spec [of cs "c_configs c" d b d']
  by (auto simp: applyTo_def rbind_Inr_iff clear_c_def simp del: split_paired_Ex)

text \<open>
  The candidate only collects what the running store accepts: staging a configuration
  succeeds exactly if one of the configurators validates it, then appends a copy at the end and
  otherwise changes nothing.
\<close>

theorem editConfig_candidate_correct:
  "editConfig_c cs d config c =
    (if list_ex (\<lambda>k. case k of CfgDummy \<Rightarrow> True | CfgFlowTable \<Rightarrow> validateConfig_FlowTable config
          | CfgSRP \<Rightarrow> validateConfig_SRP config OP_NONE d | CfgQbv \<Rightarrow> validateConfig_Qbv config d
          | CfgMultipart \<Rightarrow> validateConfig_Multipart cs d config) cs
     then (True, c\<lparr>c_configs := c_configs c @ [config]\<rparr>) else (False, c))"
proof -
  have "validate_running cs d config = list_ex (\<lambda>k. case k of CfgDummy \<Rightarrow> True
          | CfgFlowTable \<Rightarrow> validateConfig_FlowTable config
          | CfgSRP \<Rightarrow> validateConfig_SRP config OP_NONE d | CfgQbv \<Rightarrow> validateConfig_Qbv config d
          | CfgMultipart \<Rightarrow> validateConfig_Multipart cs d config) cs"
    by (cases config; hypsubst; simp add: validateConfig_Multipart_def cong: configurator.case_cong)
  then show ?thesis by (simp add: editConfig_c_def dup_id)
qed

text \<open>
  A multipart configuration applied with rollback-on-error is all or nothing at validation:
  if some part is rejected by every configurator the multipart configurator changes nothing and
  reports failure; otherwise it edits the running store with the parts in order and reports
  whether all of them succeeded.
\<close>

theorem multipart_rollback:
  "edit_one cs dop ROLLBACKONERROR (MultipartConfig parts) CfgMultipart d =
    (if list_all (validate_running cs d) parts then edit_parts cs dop ROLLBACKONERROR parts True d
     else Inr (False, d))"
  by (simp add: validateConfig_Multipart_def)

subsection \<open>Examples\<close>

definition example_device :: device where
  "example_device = \<lparr>d_now = 1, d_alloc = 0, d_heap = (\<lambda>p. None), d_flowTables = [], d_srp = srp_empty 10,
     d_gateControlLists = [(3, installed_gcl)], d_clocks = (\<lambda>p. example_gcl_clock)\<rparr>"

definition example_config :: netconf_config where
  "example_config = SRPConfig
     [\<lparr>te_streamId = 7, te_srClass = SR_CLASS_A, te_address = 5, te_module = 3, te_framesize = 100,
        te_intervalFrames = 1, te_vlan_id = 2, te_pcp = 6, te_insertionTime = 0, te_isStatic = False\<rparr>]
     [\<lparr>le_streamId = 7, le_module = 4, le_vlan_id = 2, le_insertionTime = 0, le_isStatic = False\<rparr>]"

definition example_candidate :: candidate where
  "example_candidate = \<lparr>c_lock = 1, c_configs = [example_config]\<rparr>"

definition edited_device :: device where
  "edited_device = (case editConfig_running [CfgSRP] OP_MERGE ROLLBACKONERROR example_config example_device of
     Inr (b, d) \<Rightarrow> d | Inl e \<Rightarrow> example_device)"

lemma edited_eq:
  "editConfig_running [CfgSRP] OP_MERGE ROLLBACKONERROR example_config example_device = Inr (True, edited_device)"
proof -
  let ?r = "editConfig_running [CfgSRP] OP_MERGE ROLLBACKONERROR example_config example_device"
  have "case ?r of Inr (b, d) \<Rightarrow> b | Inl e \<Rightarrow> False" by code_simp
  then show ?thesis by (cases ?r) (auto simp: edited_device_def)
qed

lemma applied_eq:
  "applyTo [CfgSRP] example_candidate example_device = Inr (True, example_candidate\<lparr>c_configs := []\<rparr>, edited_device)"
  by (simp add: applyTo_def example_candidate_def edited_eq clear_c_def)

theorem editConfig_running_keeps_witness:
  "dev_ok edited_device"
proof (rule editConfig_running_keeps [OF edited_eq])
  show "dev_ok example_device"
    using installed_facts by (simp add: dev_ok_def example_device_def srp_empty_inv smap_all_def)
qed

theorem applyTo_correct_witness:
  "example_candidate\<lparr>c_configs := []\<rparr> = example_candidate\<lparr>c_configs := []\<rparr>
    \<and> (if True then merge_all [CfgSRP] (c_configs example_candidate) example_device
         = Inr (replicate (length (c_configs example_candidate)) True, edited_device)
       else \<exists>n < length (c_configs example_candidate).
         merge_all [CfgSRP] (take (Suc n) (c_configs example_candidate)) example_device
           = Inr (replicate n True @ [False], edited_device))"
  by (rule applyTo_correct [OF applied_eq])

end
