(* ===== verification/DataStoreManager.thy ===== *)
theory DataStoreManager
  imports DataStores
begin

text \<open>
  The data store manager of a NETCONF server
  (sdn4core/netconf/datastores/manager/base/NetConfDataStoreManagerBase.cc): it executes the
  NETCONF operations on the running and the candidate store, keeps their locks, and executes
  a commit at once, at the start of a period cycle or at a point in time. Messages it sends,
  events it schedules and signal subscriptions are returned as effects in the order of the code.
\<close>

subsection \<open>State and effects\<close>

record manager =
  m_configurators :: "configurator list"
  m_running :: int                                  \<comment> \<open>lock owner of the running store\<close>
  m_candidate :: candidate
  m_device :: device
  m_commitOperation :: "ctrl_info option option"    \<comment> \<open>a kept commit and its control info\<close>
  m_commitTimestamp :: commit_timestamp

text \<open>What the manager reads from scheduler, periods and timer.\<close>

record manager_clock =
  mc_cycles :: "32 word list"      \<comment> \<open>\<open>getCycles()\<close> of each period\<close>
  mc_time :: rat                   \<comment> \<open>\<open>getTotalSimTime()\<close>\<close>
  mc_preciseTick :: rat

datatype manager_effect =
    SendReply "ctrl_info option" reply_element
  | SubscribePeriod nat
  | UnsubscribePeriod nat
  | RegisterTimer "64 word"
  | ScheduleTimedCommit
  | EmitEditConfig
  | EmitCommitExecution

type_synonym 'a manager_step = "(('a \<times> manager) \<times> manager_effect list) res"

definition NETCONF_CONFIG_RUNNING :: string where "NETCONF_CONFIG_RUNNING = ''running''"
definition NETCONF_CONFIG_CANDIDATE :: string where "NETCONF_CONFIG_CANDIDATE = ''candidate''"

lemmas config_names = NETCONF_CONFIG_RUNNING_def NETCONF_CONFIG_CANDIDATE_def

definition err :: "string \<Rightarrow> reply_element" where
  "err tag = ReplyError ERROR_APPLICATION tag"

definition no_timestamp :: commit_timestamp where
  "no_timestamp = \<lparr>ts_cycle = 0, ts_period = 0, ts_time = 0, ts_executeAtStartOfPeriod = False\<rparr>"

definition resetCommitTimestamp :: "manager \<Rightarrow> manager" where
  "resetCommitTimestamp m = m\<lparr>m_commitOperation := None, m_commitTimestamp := no_timestamp\<rparr>"

text \<open>\<open>verifyLock\<close> reads the session id of the control info, which must be present.\<close>

definition verifyLock_running :: "ctrl_info option \<Rightarrow> manager \<Rightarrow> bool res" where
  "verifyLock_running ci m =
     (case ci of
        None \<Rightarrow> Inl (NullDeref ''control info'')
      | Some i \<Rightarrow> Inr (isLocked (m_running m) \<longrightarrow> isLockedBy (ci_session_id i) (m_running m)))"

definition verifyLock_candidate :: "ctrl_info option \<Rightarrow> manager \<Rightarrow> bool res" where
  "verifyLock_candidate ci m =
     (case ci of
        None \<Rightarrow> Inl (NullDeref ''control info'')
      | Some i \<Rightarrow> Inr (isLocked_c (m_candidate m) \<longrightarrow> isLockedBy_c (ci_session_id i) (m_candidate m)))"

subsection \<open>Operations\<close>

definition handleGetConfig :: "string \<Rightarrow> manager \<Rightarrow> reply_element res" where
  "handleGetConfig source m =
     (if source = NETCONF_CONFIG_RUNNING then
        rbind (getConfig_running (m_configurators m) (m_device m)) (\<lambda>c.
          case c of
            Some config \<Rightarrow> Inr (ReplyData config)
          | None \<Rightarrow> Inr (err ''Failed to retrieve the data requested.''))
      else if source = NETCONF_CONFIG_CANDIDATE then Inl (RuntimeError ''Not yet implemented'')
      else Inr (err ''The Config store does not exist.''))"

definition timestamp_in_future :: "manager_clock \<Rightarrow> commit_timestamp \<Rightarrow> bool res" where
  "timestamp_in_future clk t =
     rbind (vec_at (mc_cycles clk) (int (ts_period t))) (\<lambda>cycles.
       Inr ((ts_cycle t > cycles \<and> ts_executeAtStartOfPeriod t)
          \<or> (ts_time t > mc_time clk \<and> \<not> ts_executeAtStartOfPeriod t)))"

definition edit_store :: "manager_clock \<Rightarrow> bool \<Rightarrow> netconf_default_op \<Rightarrow> netconf_error_option \<Rightarrow> netconf_config
    \<Rightarrow> manager \<Rightarrow> reply_element manager_step" where
  "edit_store clk toRunning dop eo config m =
     (case config of
        CommitTimestampConfig t \<Rightarrow>
          rbind (timestamp_in_future clk t) (\<lambda>ok.
            if ok then Inr ((ReplyOk, m\<lparr>m_commitTimestamp := t\<rparr>), [])
            else Inr ((err ''Commit Timestamp is in the past.'', m), []))
      | _ \<Rightarrow>
          rbind (if toRunning
                 then rbind (editConfig_running (m_configurators m) dop eo config (m_device m))
                        (\<lambda>(b, d). Inr (b, m\<lparr>m_device := d\<rparr>))
                 else (let (b, c) = editConfig_c (m_configurators m) (m_device m) config (m_candidate m)
                       in Inr (b, m\<lparr>m_candidate := c\<rparr>)))
            (\<lambda>(success, m'). Inr ((if success then ReplyOk else err ''Failed to apply config.'', m'), [EmitEditConfig])))"

definition handleEditConfig :: "manager_clock \<Rightarrow> ctrl_info option \<Rightarrow> string \<Rightarrow> netconf_default_op
    \<Rightarrow> netconf_error_option \<Rightarrow> netconf_config option \<Rightarrow> manager \<Rightarrow> reply_element manager_step" where
  "handleEditConfig clk ci target dop eo encap m =
     (case encap of
        None \<Rightarrow> Inl (RuntimeError ''Edit config does not contain a configuration'')
      | Some config \<Rightarrow>
          if target = NETCONF_CONFIG_RUNNING then
            rbind (verifyLock_running ci m) (\<lambda>ok.
              if ok then edit_store clk True dop eo config m else Inr ((err ''Store Locked'', m), []))
          else if target = NETCONF_CONFIG_CANDIDATE then
            rbind (verifyLock_candidate ci m) (\<lambda>ok.
              if ok then edit_store clk False dop eo config m else Inr ((err ''Store Locked'', m), []))
          else Inr ((err ''The Config store does not exist.'', m), []))"

definition handleCopyConfig :: "ctrl_info option \<Rightarrow> string \<Rightarrow> string \<Rightarrow> manager \<Rightarrow> (reply_element \<times> manager) res" where
  "handleCopyConfig ci source target m =
     rbind (verifyLock_running ci m) (\<lambda>okr.
     rbind (if okr then verifyLock_candidate ci m else Inr False) (\<lambda>ok.
       if \<not> ok then Inr (err ''Store Locked'', m)
       else if source = NETCONF_CONFIG_CANDIDATE \<and> target = NETCONF_CONFIG_RUNNING then
         rbind (applyTo (m_configurators m) (m_candidate m) (m_device m)) (\<lambda>(success, c, d).
           Inr (if success then ReplyOk else err ''Failed to copy config.'',
                m\<lparr>m_candidate := c, m_device := d\<rparr>))
       else if source = NETCONF_CONFIG_RUNNING \<and> target = NETCONF_CONFIG_CANDIDATE then
         Inr (ReplyOk, m\<lparr>m_candidate := clear_c (m_candidate m)\<rparr>)
       else Inr (err ''Target or Source is unknown'', m)))"

definition handleDeleteConfig :: "ctrl_info option \<Rightarrow> string \<Rightarrow> manager \<Rightarrow> (reply_element \<times> manager) res" where
  "handleDeleteConfig ci target m =
     (if target = NETCONF_CONFIG_RUNNING then Inr (err ''The running config must not be deleted.'', m)
      else if target = NETCONF_CONFIG_CANDIDATE then
        rbind (verifyLock_candidate ci m) (\<lambda>ok.
          if \<not> ok then Inr (err ''Store Locked'', m)
          else Inr (ReplyOk, m\<lparr>m_candidate := unlock_c (clear_c (m_candidate m))\<rparr>))
      else Inr (err ''Target is unknown.'', m))"

definition handleGet :: reply_element where
  "handleGet = ReplyData PlainConfig"

text \<open>Without control info lock and unlock yield no reply; \<open>None\<close> is that null pointer.\<close>

definition handleLock :: "ctrl_info option \<Rightarrow> string \<Rightarrow> manager \<Rightarrow> reply_element option \<times> manager" where
  "handleLock ci target m =
     (if target = NETCONF_CONFIG_RUNNING then
        (case ci of
           None \<Rightarrow> (None, m)
         | Some i \<Rightarrow>
             (let (b, l) = checkAndLock (ci_session_id i) (m_running m)
              in (Some (if b then ReplyOk else err ''lock-denied''), m\<lparr>m_running := l\<rparr>)))
      else if target = NETCONF_CONFIG_CANDIDATE then
        (case ci of
           None \<Rightarrow> (None, m)
         | Some i \<Rightarrow>
             (let (b, c) = checkAndLock_c (ci_session_id i) (m_candidate m)
              in (Some (if b then ReplyOk else err ''lock-denied''), m\<lparr>m_candidate := c\<rparr>)))
      else (Some (err ''The Config store does not exist.''), m))"

definition handleUnlock :: "ctrl_info option \<Rightarrow> string \<Rightarrow> manager \<Rightarrow> reply_element option \<times> manager" where
  "handleUnlock ci target m =
     (if target = NETCONF_CONFIG_RUNNING then
        (case ci of
           None \<Rightarrow> (None, m)
         | Some i \<Rightarrow>
             if \<not> isLocked (m_running m) then (Some (err ''lock is not active''), m)
             else if isLockedBy (ci_session_id i) (m_running m)
             then (Some ReplyOk, m\<lparr>m_running := unlock (m_running m)\<rparr>)
             else (Some (err ''Cannot unlock config because session Id differs from lock owner''), m))
      else if target = NETCONF_CONFIG_CANDIDATE then
        (case ci of
           None \<Rightarrow> (None, m)
         | Some i \<Rightarrow>
             if \<not> isLocked_c (m_candidate m) then (Some (err ''lock is not active''), m)
             else if isLockedBy_c (ci_session_id i) (m_candidate m)
             then (Some ReplyOk, m\<lparr>m_candidate := unlock_c (m_candidate m)\<rparr>)
             else (Some (err ''Cannot unlock config because session Id differs from lock owner''), m))
      else (Some (err ''The Config store does not exist.''), m))"

subsection \<open>Commit\<close>

definition hasCommitTimestamp :: "manager \<Rightarrow> bool" where
  "hasCommitTimestamp m =
     (let t = m_commitTimestamp m in
      if (ts_cycle t = 0 \<and> ts_executeAtStartOfPeriod t) \<or> (ts_time t = 0 \<and> \<not> ts_executeAtStartOfPeriod t)
      then False else True)"

definition executeCommit :: "manager \<Rightarrow> ((bool \<times> manager) \<times> manager_effect list) res" where
  "executeCommit m =
     rbind (applyTo (m_configurators m) (m_candidate m) (m_device m)) (\<lambda>(b, c, d).
       Inr ((b, m\<lparr>m_candidate := c, m_device := d\<rparr>), [EmitCommitExecution]))"

definition scheduleTimedCommit :: "manager_clock \<Rightarrow> ctrl_info option \<Rightarrow> manager
    \<Rightarrow> (manager \<times> manager_effect list) res" where
  "scheduleTimedCommit clk ci m =
     (let m1 = m\<lparr>m_commitOperation := Some ci\<rparr>;
          t = m_commitTimestamp m1
      in if ts_executeAtStartOfPeriod t
         then (if ts_period t < length (mc_cycles clk) then Inr (m1, [SubscribePeriod (ts_period t)])
               else Inl OutOfRange)
         else Inr (m1, [RegisterTimer (word_of_int \<lceil>(ts_time t - mc_time clk) / mc_preciseTick clk\<rceil>)]))"

text \<open>The reply is None while a timed commit is pending.\<close>

definition handleCommit :: "manager_clock \<Rightarrow> ctrl_info option \<Rightarrow> manager \<Rightarrow> reply_element option manager_step" where
  "handleCommit clk ci m =
     rbind (verifyLock_running ci m) (\<lambda>ok.
       if ok then
         (if hasCommitTimestamp m then
            rbind (scheduleTimedCommit clk ci m) (\<lambda>(m', es). Inr ((None, m'), es))
          else rbind (executeCommit m) (\<lambda>((b, m'), es).
            Inr ((Some (if b then ReplyOk else err ''Commit Execution finished with errors''), m'), es)))
       else Inr ((Some (err ''Cannot commit because session Id differs from lock owner''), m), []))"

subsection \<open>Messages and signals\<close>

text \<open>One NETCONF operation with its control info.\<close>

definition send_reply :: "ctrl_info option \<Rightarrow> reply_element option \<times> manager \<Rightarrow> manager_effect list
    \<Rightarrow> (manager \<times> manager_effect list) res" where
  "send_reply ci rm es =
     (case fst rm of
        Some r \<Rightarrow> Inr (snd rm, es @ [SendReply ci r])
      | None \<Rightarrow> Inl (RuntimeError ''Received an operation that did not result in a reply''))"

definition handleOperation :: "manager_clock \<Rightarrow> ctrl_info option \<Rightarrow> netconf_operation \<Rightarrow> manager
    \<Rightarrow> (manager \<times> manager_effect list) res" where
  "handleOperation clk ci operation m =
     (case operation of
        GetConfig source \<Rightarrow> rbind (handleGetConfig source m) (\<lambda>r. send_reply ci (Some r, m) [])
      | EditConfig target dop eo config \<Rightarrow>
          rbind (handleEditConfig clk ci target dop eo config m) (\<lambda>((r, m'), es). send_reply ci (Some r, m') es)
      | CopyConfig source target \<Rightarrow>
          rbind (handleCopyConfig ci source target m) (\<lambda>(r, m'). send_reply ci (Some r, m') [])
      | DeleteConfig target \<Rightarrow>
          rbind (handleDeleteConfig ci target m) (\<lambda>(r, m'). send_reply ci (Some r, m') [])
      | Get \<Rightarrow> send_reply ci (Some handleGet, m) []
      | Lock target \<Rightarrow> send_reply ci (handleLock ci target m) []
      | Unlock target \<Rightarrow> send_reply ci (handleUnlock ci target m) []
      | Commit \<Rightarrow>
          rbind (handleCommit clk ci m) (\<lambda>((r, m'), es).
            case r of None \<Rightarrow> Inr (m', es) | Some x \<Rightarrow> send_reply ci (Some x, m') es)
      | _ \<Rightarrow> send_reply ci (Some (ReplyError ERROR_RPC ''This operation is not supported.''), m) [])"

text \<open>The self message or timer event EXECUTE\_TIMED\_COMMIT.\<close>

definition executeTimedCommit :: "manager_clock \<Rightarrow> manager \<Rightarrow> (manager \<times> manager_effect list) res" where
  "executeTimedCommit clk m =
     rbind (executeCommit m) (\<lambda>((b, m1), es).
       let t = m_commitTimestamp m1 in
       rbind (if ts_executeAtStartOfPeriod t
              then (if ts_period t < length (mc_cycles clk) then Inr [UnsubscribePeriod (ts_period t)] else Inl OutOfRange)
              else Inr []) (\<lambda>us.
         case m_commitOperation m1 of
           None \<Rightarrow> Inl (NullDeref ''commit operation'')
         | Some ci \<Rightarrow>
             Inr (resetCommitTimestamp m1,
                  es @ us @ [SendReply ci (if b then ReplyOk else err ''Commit Execution finished with errors'')])))"

text \<open>The new-cycle signal of period \<open>i\<close>.\<close>

definition receiveSignal :: "manager_clock \<Rightarrow> nat \<Rightarrow> manager \<Rightarrow> manager_effect list res" where
  "receiveSignal clk i m =
     rbind (vec_at (mc_cycles clk) (int (ts_period (m_commitTimestamp m)))) (\<lambda>cycles.
       if i = ts_period (m_commitTimestamp m) then
         (if cycles = ts_cycle (m_commitTimestamp m) then Inr [ScheduleTimedCommit]
          else if cycles > ts_cycle (m_commitTimestamp m)
          then Inl (RuntimeError ''The commit cycle timestamp was missed!'')
          else Inr [])
       else Inr [])"

subsection \<open>Lemmas on locks\<close>

lemma verifyLock_may_edit:
  "verifyLock_running (Some i) m = Inr (running_lock.may_edit (ci_session_id i) (m_running m))"
  "verifyLock_candidate (Some i) m = Inr (candidate_lock.may_edit (ci_session_id i) (m_candidate m))"
  by (simp_all add: verifyLock_running_def verifyLock_candidate_def
      running_lock.may_edit_def candidate_lock.may_edit_def)

lemma send_reply_Inr: "send_reply ci rm es = Inr (m', es') \<Longrightarrow> m' = snd rm"
  by (auto simp: send_reply_def split: option.splits)

lemmas manager_ops_defs = handleEditConfig_def handleCopyConfig_def handleDeleteConfig_def
  handleLock_def handleUnlock_def handleCommit_def

lemma other_session_running:
  assumes own: "isLockedBy a (m_running m)" and a: "0 \<le> a" and ci: "ci_session_id i \<noteq> a"
  shows "\<not> running_lock.may_edit (ci_session_id i) (m_running m)"
    and "fst (checkAndLock (ci_session_id i) (m_running m)) = False"
    and "snd (checkAndLock (ci_session_id i) (m_running m)) = m_running m"
    and "isLocked (m_running m)" and "\<not> isLockedBy (ci_session_id i) (m_running m)"
proof -
  show l: "isLocked (m_running m)" by (rule running_lock.owner_locked [OF own a])
  show n: "\<not> isLockedBy (ci_session_id i) (m_running m)"
    using running_lock.owner_unique [OF own] ci by auto
  show "\<not> running_lock.may_edit (ci_session_id i) (m_running m)"
    using l n by (simp add: running_lock.may_edit_def)
  obtain b l' where c: "checkAndLock (ci_session_id i) (m_running m) = (b, l')" by force
  then have "\<not> b" using running_lock.lock_granted [of "ci_session_id i" "m_running m" l'] l by (cases b) auto
  then show "fst (checkAndLock (ci_session_id i) (m_running m)) = False"
    "snd (checkAndLock (ci_session_id i) (m_running m)) = m_running m"
    using c running_lock.lock_denied [of "ci_session_id i" "m_running m" l'] by auto
qed

lemma edit_store_frame:
  assumes "edit_store clk False dop eo config m = Inr ((r, m'), es)"
  shows "m_device m' = m_device m \<and> m_running m' = m_running m \<and> m_configurators m' = m_configurators m"
  using assms by (cases config)
    (auto simp: edit_store_def rbind_Inr_iff split: if_splits prod.splits)

lemma edit_store_running_frame:
  assumes "edit_store clk True dop eo config m = Inr ((r, m'), es)"
  shows "m_candidate m' = m_candidate m \<and> m_running m' = m_running m"
  using assms by (cases config)
    (auto simp: edit_store_def rbind_Inr_iff split: if_splits prod.splits)

lemma handleOperation_cases:
  assumes "handleOperation clk ci opn m = Inr (m', es)"
  shows "m' = m
    \<or> (\<exists>target dop eo config r es1. opn = EditConfig target dop eo config
         \<and> handleEditConfig clk ci target dop eo config m = Inr ((r, m'), es1))
    \<or> (\<exists>source target r. opn = CopyConfig source target \<and> handleCopyConfig ci source target m = Inr (r, m'))
    \<or> (\<exists>target r. opn = DeleteConfig target \<and> handleDeleteConfig ci target m = Inr (r, m'))
    \<or> (\<exists>target. opn = Lock target \<and> m' = snd (handleLock ci target m))
    \<or> (\<exists>target. opn = Unlock target \<and> m' = snd (handleUnlock ci target m))
    \<or> (\<exists>r es1. opn = Commit \<and> handleCommit clk ci m = Inr ((r, m'), es1))"
  using assms by (cases opn)
    (auto simp: handleOperation_def rbind_Inr_iff dest!: send_reply_Inr split: option.splits)

subsection \<open>Properties of the manager\<close>

lemma running_lock_frame:
  assumes own: "isLockedBy a (m_running m)" and a: "0 \<le> a" and i: "ci_session_id i \<noteq> a"
    and run: "handleOperation clk (Some i) opn m = Inr (m', es)"
  shows "m_device m' = m_device m \<and> m_running m' = m_running m"
proof -
  note other = other_session_running [OF own a i]
  note [simp] = verifyLock_may_edit other
  from handleOperation_cases [OF run] show ?thesis
  proof (elim disjE exE conjE)
    fix target dop eo config r es1
    assume "handleEditConfig clk (Some i) target dop eo config m = Inr ((r, m'), es1)"
    then show ?thesis
      by (auto simp: handleEditConfig_def dest: edit_store_frame split: option.splits if_splits)
  next
    fix source target r
    assume "handleCopyConfig (Some i) source target m = Inr (r, m')"
    then show ?thesis by (auto simp: handleCopyConfig_def)
  next
    fix target r
    assume "handleDeleteConfig (Some i) target m = Inr (r, m')"
    then show ?thesis by (auto simp: handleDeleteConfig_def split: if_splits)
  next
    fix target
    assume "m' = snd (handleLock (Some i) target m)"
    moreover have "checkAndLock (ci_session_id i) (m_running m) = (False, m_running m)"
      using other(2,3) by (simp add: prod_eq_iff)
    ultimately show ?thesis by (auto simp: handleLock_def split: prod.splits if_splits)
  next
    fix target
    assume "m' = snd (handleUnlock (Some i) target m)"
    then show ?thesis by (auto simp: handleUnlock_def)
  next
    fix r es1
    assume "handleCommit clk (Some i) m = Inr ((r, m'), es1)"
    then show ?thesis by (auto simp: handleCommit_def)
  qed simp
qed

text \<open>
  C10: While a session holds the lock of the running store, no operation of any other session
  changes the device or the lock.
\<close>

theorem running_lock_protects:
  assumes own: "isLockedBy a (m_running m)" and a: "0 \<le> a" and i: "ci_session_id i \<noteq> a"
    and run: "handleOperation clk (Some i) opn m = Inr (m', es)"
  shows "m_device m' = m_device m \<and> m_running m' = m_running m"
  by (rule running_lock_frame [OF assms])

text \<open>Sequences of operations.\<close>

fun handleOperations :: "(manager_clock \<times> ctrl_info \<times> netconf_operation) list \<Rightarrow> manager
    \<Rightarrow> (manager \<times> manager_effect list) res" where
  "handleOperations [] m = Inr (m, [])"
| "handleOperations ((clk, i, opn) # os) m =
     rbind (handleOperation clk (Some i) opn m) (\<lambda>(m1, es1).
       rbind (handleOperations os m1) (\<lambda>(m2, es2). Inr (m2, es1 @ es2)))"

text \<open>
  A candidate edit never touches the device: whatever configurations, commit timestamps
  included, sessions stage in the candidate store, the running configuration and both locks stay
  as they were.
\<close>

theorem candidate_edit_isolated:
  assumes "handleOperation clk ci (EditConfig NETCONF_CONFIG_CANDIDATE dop eo config) m = Inr (m', es)"
  shows "m_device m' = m_device m \<and> m_running m' = m_running m \<and> c_lock (m_candidate m') = c_lock (m_candidate m)"
proof -
  obtain r es1 where r: "handleEditConfig clk ci NETCONF_CONFIG_CANDIDATE dop eo config m = Inr ((r, m'), es1)"
    using assms by (auto simp: handleOperation_def rbind_Inr_iff dest!: send_reply_Inr)
  have lock: "edit_store clk False dop eo c m = Inr ((r, m'), es1) \<Longrightarrow>
      c_lock (m_candidate m') = c_lock (m_candidate m)" for c
    by (cases c) (auto simp: edit_store_def rbind_Inr_iff editConfig_c_def split: if_splits)
  have ne: "NETCONF_CONFIG_CANDIDATE \<noteq> NETCONF_CONFIG_RUNNING" by (simp add: config_names)
  from r show ?thesis
    by (auto simp: handleEditConfig_def ne rbind_Inr_iff dest: edit_store_frame lock
        split: option.splits if_splits)
qed

text \<open>
  The lock of the candidate store is respected by every operation except commit: as long as a
  session holds it, an operation of another session that is not a commit leaves the collected
  configurations and the lock as they were.
\<close>

theorem candidate_lock_protects:
  assumes own: "isLockedBy_c a (m_candidate m)" and a: "0 \<le> a" and i: "ci_session_id i \<noteq> a"
    and run: "handleOperation clk (Some i) opn m = Inr (m', es)" and opn: "opn \<noteq> Commit"
  shows "m_candidate m' = m_candidate m"
proof -
  have l: "isLocked_c (m_candidate m)" by (rule candidate_lock.owner_locked [OF own a])
  have n: "\<not> isLockedBy_c (ci_session_id i) (m_candidate m)"
    using candidate_lock.owner_unique [OF own] i by auto
  have may: "\<not> candidate_lock.may_edit (ci_session_id i) (m_candidate m)"
    using l n by (simp add: candidate_lock.may_edit_def)
  have lk: "snd (checkAndLock_c (ci_session_id i) (m_candidate m)) = m_candidate m"
    using l by (simp add: checkAndLock_c_def checkAndLock_def isLocked_c_def)
  note [simp] = verifyLock_may_edit l n may
  from handleOperation_cases [OF run] show ?thesis
  proof (elim disjE exE conjE)
    fix target dop eo config r es1
    assume "handleEditConfig clk (Some i) target dop eo config m = Inr ((r, m'), es1)"
    then show ?thesis
      by (auto simp: handleEditConfig_def dest: edit_store_running_frame split: option.splits if_splits)
  next
    fix source target r
    assume "handleCopyConfig (Some i) source target m = Inr (r, m')"
    then show ?thesis by (auto simp: handleCopyConfig_def split: if_splits)
  next
    fix target r
    assume "handleDeleteConfig (Some i) target m = Inr (r, m')"
    then show ?thesis by (auto simp: handleDeleteConfig_def split: if_splits)
  next
    fix target
    assume "m' = snd (handleLock (Some i) target m)"
    then show ?thesis using lk by (auto simp: handleLock_def split: prod.splits if_splits)
  next
    fix target
    assume "m' = snd (handleUnlock (Some i) target m)"
    then show ?thesis by (auto simp: handleUnlock_def)
  qed (use opn in auto)
qed

text \<open>
  A commit does not check the candidate's lock: if the running store is unlocked and no
  commit time is set, a session applies and discards what another session has staged in a
  candidate it holds locked.
\<close>

theorem commit_ignores_candidate_lock:
  assumes own: "isLockedBy_c a (m_candidate m)" and a: "0 \<le> a" and i: "ci_session_id i \<noteq> a"
    and free: "\<not> isLocked (m_running m)" and no: "m_commitTimestamp m = no_timestamp"
    and ap: "applyTo (m_configurators m) (m_candidate m) (m_device m) = Inr (b, c, d)"
  shows "handleOperation clk (Some i) Commit m =
    Inr (m\<lparr>m_candidate := c, m_device := d\<rparr>,
      [EmitCommitExecution, SendReply (Some i) (if b then ReplyOk else err ''Commit Execution finished with errors'')])
    \<and> c_configs c = []"
proof -
  have h: "\<not> hasCommitTimestamp m" using no by (simp add: hasCommitTimestamp_def no_timestamp_def)
  have "handleOperation clk (Some i) Commit m =
    Inr (m\<lparr>m_candidate := c, m_device := d\<rparr>,
      [EmitCommitExecution, SendReply (Some i) (if b then ReplyOk else err ''Commit Execution finished with errors'')])"
    using free h ap
    by (simp add: handleOperation_def handleCommit_def verifyLock_running_def executeCommit_def send_reply_def)
  moreover have "c_configs c = []" using ap by (auto simp: applyTo_def rbind_Inr_iff clear_c_def)
  ultimately show ?thesis by blast
qed


text \<open>
  The commit fires at its cycle and not before: while a period counts through its cycles, the
  new-cycle signal of that period schedules the execution exactly in the cycle of the commit time,
  does nothing in the cycles before it and reports a missed commit in the cycles after it.
\<close>

theorem receiveSignal_correct:
  assumes "ts_period (m_commitTimestamp m) < length (mc_cycles clk)"
  shows "receiveSignal clk (ts_period (m_commitTimestamp m)) m =
    (let now = mc_cycles clk ! ts_period (m_commitTimestamp m); due = ts_cycle (m_commitTimestamp m) in
     if now < due then Inr [] else if now = due then Inr [ScheduleTimedCommit]
     else Inl (RuntimeError ''The commit cycle timestamp was missed!''))"
  using assms by (auto simp: receiveSignal_def vec_at_def Let_def)

lemma commit_timer:
  assumes "hasCommitTimestamp m" and "\<not> ts_executeAtStartOfPeriod (m_commitTimestamp m)"
    and "running_lock.may_edit (ci_session_id i) (m_running m)"
  shows "\<exists>e. handleOperation clk (Some i) Commit m = Inr (m\<lparr>m_commitOperation := Some (Some i)\<rparr>, [RegisterTimer e])"
  using assms by (simp add: handleOperation_def handleCommit_def verifyLock_may_edit scheduleTimedCommit_def Let_def)

text \<open>
  A second timed commit before the first one executes replaces it without an answer: the
  first execution event answers only the second commit, and the second execution event, which is
  already registered, finds no commit operation and dereferences null.
\<close>

theorem second_timed_commit_dangles:
  assumes ts: "hasCommitTimestamp m" "\<not> ts_executeAtStartOfPeriod (m_commitTimestamp m)"
    and lock: "running_lock.may_edit (ci_session_id i) (m_running m)"
      "running_lock.may_edit (ci_session_id j) (m_running m)"
    and ap: "applyTo (m_configurators m) (m_candidate m) (m_device m) = Inr (b, c, d)"
    and ap2: "applyTo (m_configurators m) c d = Inr (b2, c2, d2)"
  shows "\<exists>e1 e2 m3. handleOperations [(clk, i, Commit), (clk, j, Commit)] m
      = Inr (m\<lparr>m_commitOperation := Some (Some j)\<rparr>, [RegisterTimer e1, RegisterTimer e2])
    \<and> executeTimedCommit clk2 (m\<lparr>m_commitOperation := Some (Some j)\<rparr>) = Inr (m3,
         [EmitCommitExecution, SendReply (Some j) (if b then ReplyOk else err ''Commit Execution finished with errors'')])
    \<and> executeTimedCommit clk3 m3 = Inl (NullDeref ''commit operation'')"
proof -
  have h: "hasCommitTimestamp (m\<lparr>m_commitOperation := x\<rparr>)" for x
    using ts(1) by (simp add: hasCommitTimestamp_def)
  have r: "m_running (m\<lparr>m_commitOperation := x\<rparr>) = m_running m" for x by simp
  obtain e1 where s1: "handleOperation clk (Some i) Commit m
      = Inr (m\<lparr>m_commitOperation := Some (Some i)\<rparr>, [RegisterTimer e1])"
    using commit_timer [OF ts lock(1), of clk] by blast
  obtain e2 where s2: "handleOperation clk (Some j) Commit (m\<lparr>m_commitOperation := Some (Some i)\<rparr>)
      = Inr (m\<lparr>m_commitOperation := Some (Some j)\<rparr>, [RegisterTimer e2])"
    using commit_timer [of "m\<lparr>m_commitOperation := Some (Some i)\<rparr>" j clk] ts h lock(2) by auto
  let ?m3 = "m\<lparr>m_candidate := c, m_device := d, m_commitOperation := None, m_commitTimestamp := no_timestamp\<rparr>"
  have x1: "executeTimedCommit clk2 (m\<lparr>m_commitOperation := Some (Some j)\<rparr>) = Inr (?m3,
       [EmitCommitExecution, SendReply (Some j) (if b then ReplyOk else err ''Commit Execution finished with errors'')])"
    using ts ap by (simp add: executeTimedCommit_def executeCommit_def resetCommitTimestamp_def Let_def)
  have x2: "executeTimedCommit clk3 ?m3 = Inl (NullDeref ''commit operation'')"
    using ap2 by (simp add: executeTimedCommit_def executeCommit_def Let_def no_timestamp_def)
  have "handleOperations [(clk, i, Commit), (clk, j, Commit)] m
      = Inr (m\<lparr>m_commitOperation := Some (Some j)\<rparr>, [RegisterTimer e1, RegisterTimer e2])"
    using s1 s2 by simp
  then show ?thesis using x1 x2 by blast
qed

text \<open>The operations of a transaction on one server.\<close>

definition transaction_ops :: "netconf_config list \<Rightarrow> netconf_operation list" where
  "transaction_ops configs =
     [Lock ''running'', CopyConfig ''running'' ''candidate'', Lock ''candidate'']
     @ map (\<lambda>c. EditConfig ''candidate'' OP_MERGE CONTINUEONERROR (Some c)) configs
     @ [Commit, DeleteConfig ''candidate'', Unlock ''running'']"

lemma handleOperations_append:
  "handleOperations (xs @ ys) m =
     rbind (handleOperations xs m) (\<lambda>(m1, es1).
       rbind (handleOperations ys m1) (\<lambda>(m2, es2). Inr (m2, es1 @ es2)))"
proof (induction xs arbitrary: m)
  case Nil
  show ?case by (cases "handleOperations ys m") auto
next
  case (Cons x xs)
  obtain clk i opn where x: "x = (clk, i, opn)" by (cases x)
  show ?case
  proof (cases "handleOperation clk (Some i) opn m")
    case (Inr p)
    obtain m1 es1 where p: "p = (m1, es1)" by (cases p)
    show ?thesis
    proof (cases "handleOperations xs m1")
      case (Inr q)
      obtain m2 es2 where "q = (m2, es2)" by (cases q)
      then show ?thesis
        using Cons x \<open>handleOperation clk (Some i) opn m = Inr p\<close> p Inr
        by (cases "handleOperations ys m2") auto
    qed (use Cons x Inr p in simp)
  qed (use x in simp)
qed

definition plain_config :: "netconf_config \<Rightarrow> bool" where
  "plain_config c \<longleftrightarrow> (\<forall>t. c \<noteq> CommitTimestampConfig t)"

lemma stage_all:
  assumes "\<forall>c \<in> set configs. plain_config c \<and> validate_running (m_configurators m) (m_device m) c"
    and "isLockedBy_c (ci_session_id i) (m_candidate m)"
  shows "\<exists>es. handleOperations (map (\<lambda>c. (clk, i, EditConfig ''candidate'' OP_MERGE CONTINUEONERROR (Some c))) configs) m
     = Inr (m\<lparr>m_candidate := (m_candidate m)\<lparr>c_configs := c_configs (m_candidate m) @ configs\<rparr>\<rparr>, es)
     \<and> (\<forall>ci r. SendReply ci r \<in> set es \<longrightarrow> r = ReplyOk)"
  using assms
proof (induction configs arbitrary: m)
  case (Cons c cs)
  let ?c1 = "(m_candidate m)\<lparr>c_configs := c_configs (m_candidate m) @ [c]\<rparr>"
  let ?m1 = "m\<lparr>m_candidate := ?c1\<rparr>"
  have "edit_store clk False OP_MERGE CONTINUEONERROR c m = Inr ((ReplyOk, ?m1), [EmitEditConfig])"
    using Cons.prems(1) by (cases c) (auto simp: edit_store_def editConfig_c_def dup_id plain_config_def)
  then have step: "handleOperation clk (Some i) (EditConfig ''candidate'' OP_MERGE CONTINUEONERROR (Some c)) m
      = Inr (?m1, [EmitEditConfig, SendReply (Some i) ReplyOk])"
    using Cons.prems(2)
    by (simp add: handleOperation_def handleEditConfig_def config_names verifyLock_candidate_def send_reply_def)
  have "isLockedBy_c (ci_session_id i) (m_candidate ?m1)"
    using Cons.prems(2) by (simp add: isLockedBy_c_def)
  with Cons.IH [of ?m1] Cons.prems(1) obtain es where
    "handleOperations (map (\<lambda>c. (clk, i, EditConfig ''candidate'' OP_MERGE CONTINUEONERROR (Some c))) cs) ?m1
     = Inr (?m1\<lparr>m_candidate := ?c1\<lparr>c_configs := c_configs ?c1 @ cs\<rparr>\<rparr>, es)"
    "\<forall>ci r. SendReply ci r \<in> set es \<longrightarrow> r = ReplyOk"
    by auto
  then show ?case using step by auto
qed (simp add: exI [of _ "[]"])


subsection \<open>Examples\<close>

text \<open>A server whose candidate store holds one staged configuration and is locked by session 1.\<close>

definition example_manager :: manager where
  "example_manager = \<lparr>m_configurators = [CfgSRP], m_running = -1, m_candidate = example_candidate,
     m_device = example_device, m_commitOperation = None, m_commitTimestamp = no_timestamp\<rparr>"

definition running_locked :: manager where
  "running_locked = example_manager\<lparr>m_running := 1\<rparr>"

definition example_manager_clock :: manager_clock where
  "example_manager_clock = \<lparr>mc_cycles = [4], mc_time = 1, mc_preciseTick = 1 / 100\<rparr>"

definition session :: "int \<Rightarrow> ctrl_info" where
  "session n = \<lparr>ci_messageType = 0, ci_message_id = ''0'', ci_session_id = n\<rparr>"

lemmas example_manager_defs = example_manager_def running_locked_def example_manager_clock_def session_def
  example_candidate_def isLockedBy_def isLockedBy_c_def isLocked_def isLocked_c_def
  running_lock.may_edit_def candidate_lock.may_edit_def config_names err_def no_timestamp_def

lemma foreign_edit_refused:
  "handleOperation example_manager_clock (Some (session 2))
      (EditConfig NETCONF_CONFIG_RUNNING OP_MERGE CONTINUEONERROR (Some example_config)) running_locked
    = Inr (running_locked, [SendReply (Some (session 2)) (err ''Store Locked'')])"
  by (simp add: handleOperation_def handleEditConfig_def verifyLock_running_def send_reply_def example_manager_defs)

theorem running_lock_protects_witness:
  "\<exists>m' es. handleOperation example_manager_clock (Some (session 2))
      (EditConfig NETCONF_CONFIG_RUNNING OP_MERGE CONTINUEONERROR (Some example_config)) running_locked = Inr (m', es)
    \<and> m_device m' = m_device running_locked \<and> m_running m' = m_running running_locked"
  using foreign_edit_refused running_lock_protects [OF _ _ _ foreign_edit_refused, of 1]
  by (simp add: example_manager_defs)

definition staged_manager :: manager where
  "staged_manager = example_manager\<lparr>m_candidate := example_candidate\<lparr>c_configs := [example_config, example_config]\<rparr>\<rparr>"

lemma stage_step:
  "handleOperation example_manager_clock (Some (session 1))
      (EditConfig NETCONF_CONFIG_CANDIDATE OP_MERGE CONTINUEONERROR (Some example_config)) example_manager
    = Inr (staged_manager, [EmitEditConfig, SendReply (Some (session 1)) ReplyOk])"
  by (simp add: handleOperation_def handleEditConfig_def edit_store_def verifyLock_candidate_def send_reply_def
      editConfig_c_def dup_id staged_manager_def example_manager_defs example_config_def validateConfig_SRP_def)

theorem candidate_edit_isolated_witness:
  "m_device staged_manager = m_device example_manager \<and> m_running staged_manager = m_running example_manager
    \<and> c_lock (m_candidate staged_manager) = c_lock (m_candidate example_manager)"
  by (rule candidate_edit_isolated [OF stage_step])

lemma foreign_delete_refused:
  "handleOperation example_manager_clock (Some (session 2)) (DeleteConfig NETCONF_CONFIG_CANDIDATE) example_manager
    = Inr (example_manager, [SendReply (Some (session 2)) (err ''Store Locked'')])"
  by (simp add: handleOperation_def handleDeleteConfig_def verifyLock_candidate_def send_reply_def example_manager_defs)

theorem candidate_lock_protects_witness:
  "\<exists>m' es. handleOperation example_manager_clock (Some (session 2)) (DeleteConfig NETCONF_CONFIG_CANDIDATE) example_manager
      = Inr (m', es) \<and> m_candidate m' = m_candidate example_manager"
  using foreign_delete_refused candidate_lock_protects [OF _ _ _ foreign_delete_refused, of 1]
  by (simp add: example_manager_defs)

lemma example_apply:
  "applyTo (m_configurators example_manager) (m_candidate example_manager) (m_device example_manager)
    = Inr (True, example_candidate\<lparr>c_configs := []\<rparr>, edited_device)"
  by (simp add: example_manager_def applied_eq)

theorem commit_ignores_candidate_lock_witness:
  "handleOperation example_manager_clock (Some (session 2)) Commit example_manager
    = Inr (example_manager\<lparr>m_candidate := example_candidate\<lparr>c_configs := []\<rparr>, m_device := edited_device\<rparr>,
      [EmitCommitExecution, SendReply (Some (session 2))
         (if True then ReplyOk else err ''Commit Execution finished with errors'')])
    \<and> c_configs (example_candidate\<lparr>c_configs := []\<rparr>) = []"
  by (rule commit_ignores_candidate_lock [OF _ _ _ _ _ example_apply, of 1]) (simp_all add: example_manager_defs)

definition commit_time :: commit_timestamp where
  "commit_time = \<lparr>ts_cycle = 9, ts_period = 0, ts_time = 0, ts_executeAtStartOfPeriod = True\<rparr>"


theorem receiveSignal_correct_witness:
  "receiveSignal (example_manager_clock\<lparr>mc_cycles := [9]\<rparr>) (ts_period commit_time)
      (example_manager\<lparr>m_commitTimestamp := commit_time\<rparr>) = Inr [ScheduleTimedCommit]"
  using receiveSignal_correct [of "example_manager\<lparr>m_commitTimestamp := commit_time\<rparr>"
      "example_manager_clock\<lparr>mc_cycles := [9]\<rparr>"]
  by (simp add: commit_time_def)

definition timed_manager :: manager where
  "timed_manager = example_manager\<lparr>m_commitTimestamp :=
     \<lparr>ts_cycle = 0, ts_period = 0, ts_time = 5, ts_executeAtStartOfPeriod = False\<rparr>\<rparr>"

lemma timed_apply:
  "applyTo (m_configurators timed_manager) (m_candidate timed_manager) (m_device timed_manager)
    = Inr (True, example_candidate\<lparr>c_configs := []\<rparr>, edited_device)"
  "applyTo (m_configurators timed_manager) (example_candidate\<lparr>c_configs := []\<rparr>) edited_device
    = Inr (True, example_candidate\<lparr>c_configs := []\<rparr>, edited_device)"
  using example_apply by (simp_all add: timed_manager_def applyTo_def clear_c_def)

theorem second_timed_commit_dangles_witness:
  "\<exists>e1 e2 m3. handleOperations [(example_manager_clock, session 1, Commit), (example_manager_clock, session 2, Commit)] timed_manager
      = Inr (timed_manager\<lparr>m_commitOperation := Some (Some (session 2))\<rparr>, [RegisterTimer e1, RegisterTimer e2])
    \<and> executeTimedCommit example_manager_clock (timed_manager\<lparr>m_commitOperation := Some (Some (session 2))\<rparr>) = Inr (m3,
         [EmitCommitExecution, SendReply (Some (session 2)) (if True then ReplyOk else err ''Commit Execution finished with errors'')])
    \<and> executeTimedCommit example_manager_clock m3 = Inl (NullDeref ''commit operation'')"
  by (rule second_timed_commit_dangles [OF _ _ _ _ timed_apply])
    (simp_all add: hasCommitTimestamp_def timed_manager_def example_manager_defs)

lemma example_valid: "plain_config example_config \<and> validate_running [CfgSRP] d example_config"
  by (simp add: example_config_def plain_config_def validateConfig_SRP_def)

lemma example_merge: "merge_all [CfgSRP] [example_config] example_device = Inr ([True], edited_device)"
  by (simp add: edited_eq)

definition idle_manager :: manager where
  "idle_manager = example_manager\<lparr>m_candidate := \<lparr>c_lock = -1, c_configs = []\<rparr>\<rparr>"


end
