(* ===== verification/NetConfApplication.thy ===== *)
theory NetConfApplication
  imports NetConfConfig
begin

text \<open>
  The NETCONF application base of the controller
  (sdn4core/netconf/applications/base/NetConfApplicationBase.cc) with its connections and
  configurations (configparser/base/Configuration\_t.h): when to connect, which configuration to
  send next, how remote procedure calls are built and how replies are booked. Messages sent and
  events scheduled are appended to \<open>a_out\<close>.
\<close>

subsection \<open>Configurations and connections\<close>

datatype configuration_state =
  ConfigurationStateWaiting | ConfigurationStateScheduled | ConfigurationStateRequested
| ConfigurationStateSuccess | ConfigurationStateError

datatype message_type =
  MT_EditConfig | MT_GetConfig | MT_CopyConfig | MT_DeleteConfig | MT_Lock | MT_Unlock | MT_Commit

record configuration =
  cf_executeAt :: simtime
  cf_target :: string
  cf_source :: string
  cf_data :: "netconf_config option"
  cf_filter :: "unit option"
  cf_type :: message_type
  cf_state :: configuration_state

text \<open>\<open>new Configuration_t()\<close>\<close>

definition new_configuration :: configuration where
  "new_configuration = \<lparr>cf_executeAt = 0, cf_target = [], cf_source = [], cf_data = None, cf_filter = None,
     cf_type = MT_EditConfig, cf_state = ConfigurationStateWaiting\<rparr>"

definition netconfMessageTypeToString :: "message_type \<Rightarrow> string" where
  "netconfMessageTypeToString t =
     (case t of
        MT_EditConfig \<Rightarrow> ''edit_config'' | MT_GetConfig \<Rightarrow> ''get_config'' | MT_CopyConfig \<Rightarrow> ''copy_config''
      | MT_DeleteConfig \<Rightarrow> ''delete_config'' | MT_Lock \<Rightarrow> ''lock'' | MT_Unlock \<Rightarrow> ''unlock''
      | MT_Commit \<Rightarrow> ''commit'')"

text \<open>None is the value -1.\<close>

definition getConfigTypeFor :: "string \<Rightarrow> message_type option" where
  "getConfigTypeFor s =
     (if s = ''edit_config'' then Some MT_EditConfig
      else if s = ''get_config'' then Some MT_GetConfig
      else if s = ''copy_config'' then Some MT_CopyConfig
      else if s = ''delete_config'' then Some MT_DeleteConfig
      else if s = ''lock'' then Some MT_Lock
      else if s = ''unlock'' then Some MT_Unlock
      else if s = ''commit'' then Some MT_Commit
      else None)"

datatype connection_state =
  ConnectionStateWaiting | ConnectionStateScheduled | ConnectionStateRequested | ConnectionStateEstablished

record connection =
  cn_localPort :: int
  cn_remoteAddress :: string
  cn_remotePort :: int
  cn_connectAt :: simtime
  cn_state :: connection_state
  cn_configurations :: "configuration list"
  cn_session_id :: int

subsection \<open>Messages\<close>

record rpc =
  rpc_message_id :: string
  rpc_ctrl :: ctrl_info
  rpc_operation :: netconf_operation
  rpc_byteLength :: nat

record rpc_reply =
  rp_message_id :: string
  rp_element :: reply_element
  rp_ctrl :: "ctrl_info option"

record session_info =
  si_session_id :: int
  si_remoteAddress :: string

record hello_request =
  hr_connectAddress :: string
  hr_connectPort :: int
  hr_localPort :: int

text \<open>The messages that arrive; a connection pointer is its position in \<open>_connections\<close>.\<close>

datatype app_msg =
    MsgSendHello "nat option"
  | MsgSendNetconf "(rpc \<times> nat) option"
  | MsgStartTransaction
  | MsgLambda
  | MsgHello "session_info option"
  | MsgReply rpc_reply
  | MsgOther

datatype phase = PHASE_LOCK | PHASE_CHANGE | PHASE_CONFIRMATION | PHASE_UNLOCK | PHASE_DEFAULT

datatype app_effect =
    SendHello hello_request
  | SendRPC rpc
  | SendDelayed rat rpc
  | ScheduleAt simtime app_msg
  | EmitNumSent
  | EmitNumReceived
  | EmitResult bool
  | EmitDuration
  | EmitPhase phase

record app =
  a_connections :: "connection list"
  a_out :: "app_effect list"

definition out :: "app_effect \<Rightarrow> 'a app_scheme \<Rightarrow> 'a app_scheme" where
  "out e a = a\<lparr>a_out := a_out a @ [e]\<rparr>"

definition set_connection :: "nat \<Rightarrow> (connection \<Rightarrow> connection) \<Rightarrow> 'a app_scheme \<Rightarrow> 'a app_scheme" where
  "set_connection i f a = a\<lparr>a_connections := (a_connections a)[i := f (a_connections a ! i)]\<rparr>"

definition set_configuration :: "nat \<Rightarrow> nat \<Rightarrow> (configuration \<Rightarrow> configuration) \<Rightarrow> 'a app_scheme \<Rightarrow> 'a app_scheme" where
  "set_configuration i k f a =
     set_connection i (\<lambda>c. c\<lparr>cn_configurations := (cn_configurations c)[k := f (cn_configurations c ! k)]\<rparr>) a"

definition get_connection :: "nat \<Rightarrow> 'a app_scheme \<Rightarrow> connection res" where
  "get_connection i a = vec_at (a_connections a) (int i)"

text \<open>\<open>configurations[idx]\<close> of a connection, for the value of an \<open>atoi\<close>.\<close>

definition get_configuration :: "nat \<Rightarrow> int \<Rightarrow> 'a app_scheme \<Rightarrow> configuration res" where
  "get_configuration i k a = rbind (get_connection i a) (\<lambda>c. vec_at (cn_configurations c) k)"

subsection \<open>Building remote procedure calls\<close>

text \<open>
  Each string adds \<open>sizeof(const char*)\<close>, 8 bytes, to the byte length; an encapsulated packet
  adds its own length, and a configuration packet itself has none.
\<close>

definition createOperation :: "configuration \<Rightarrow> (netconf_operation \<times> nat) res" where
  "createOperation config =
     (case cf_type config of
        MT_EditConfig \<Rightarrow>
          (case cf_data config of
             None \<Rightarrow> Inl (NullDeref ''config data'')
           | Some d \<Rightarrow>
               (let operation = EditConfig (cf_target config) OP_MERGE CONTINUEONERROR (Some (dup d))
                in Inr (operation, operation_base_length operation + 8)))
      | MT_GetConfig \<Rightarrow>
          (case cf_filter config of
             None \<Rightarrow> Inl (NullDeref ''config filter'')
           | Some f \<Rightarrow>
               (let operation = GetConfig (cf_source config)
                in Inr (operation, operation_base_length operation + (8 + 4))))
      | MT_CopyConfig \<Rightarrow>
          (let operation = CopyConfig (cf_source config) (cf_target config)
           in Inr (operation, operation_base_length operation + (8 + 8)))
      | MT_DeleteConfig \<Rightarrow>
          (let operation = DeleteConfig (cf_target config) in Inr (operation, operation_base_length operation + 8))
      | MT_Lock \<Rightarrow> (let operation = Lock (cf_target config) in Inr (operation, operation_base_length operation + 8))
      | MT_Unlock \<Rightarrow> (let operation = Unlock (cf_target config) in Inr (operation, operation_base_length operation + 8))
      | MT_Commit \<Rightarrow> Inr (Commit, operation_base_length Commit))"

definition createControlInfo :: "int \<Rightarrow> int \<Rightarrow> string \<Rightarrow> ctrl_info" where
  "createControlInfo messageType sessionId messageId =
     \<lparr>ci_messageType = messageType, ci_message_id = messageId, ci_session_id = sessionId\<rparr>"

definition createNetConfRPCForConfiguration :: "connection \<Rightarrow> configuration \<Rightarrow> string \<Rightarrow> rpc res" where
  "createNetConfRPCForConfiguration connection config message_id =
     rbind (createOperation config) (\<lambda>(operation, len).
       Inr \<lparr>rpc_message_id = message_id,
            rpc_ctrl = createControlInfo 0 (cn_session_id connection) message_id,
            rpc_operation = operation,
            rpc_byteLength = 25 + (4 + 8) + len\<rparr>)"

definition createHelloFor :: "connection \<Rightarrow> hello_request" where
  "createHelloFor connection =
     \<lparr>hr_connectAddress = cn_remoteAddress connection, hr_connectPort = cn_remotePort connection,
      hr_localPort = cn_localPort connection\<rparr>"

subsection \<open>Scheduling connections and configurations\<close>

text \<open>The loops keep the first index with the smallest time.\<close>

fun next_connection :: "simtime \<Rightarrow> nat \<Rightarrow> connection list \<Rightarrow> nat option \<times> simtime \<Rightarrow> nat option \<times> simtime" where
  "next_connection now i [] best = best"
| "next_connection now i (c # cs) (index, nxt) =
     next_connection now (Suc i) cs
       (if cn_connectAt c < nxt \<and> cn_connectAt c \<ge> now \<and> cn_state c = ConnectionStateWaiting
        then (Some i, cn_connectAt c) else (index, nxt))"

definition scheduleNextConnection :: "simtime \<Rightarrow> 'a app_scheme \<Rightarrow> bool \<times> 'a app_scheme" where
  "scheduleNextConnection now a =
     (case next_connection now 0 (a_connections a) (None, simtime_max) of
        (Some i, nxt) \<Rightarrow>
          (True, out (ScheduleAt nxt (MsgSendHello (Some i)))
                   (set_connection i (\<lambda>c. c\<lparr>cn_state := ConnectionStateScheduled\<rparr>) a))
      | (None, _) \<Rightarrow> (False, a))"

fun next_configuration :: "simtime \<Rightarrow> nat \<Rightarrow> configuration list \<Rightarrow> nat option \<times> simtime \<Rightarrow> nat option \<times> simtime" where
  "next_configuration now i [] best = best"
| "next_configuration now i (c # cs) (index, nxt) =
     next_configuration now (Suc i) cs
       (if cf_executeAt c < nxt \<and> cf_executeAt c \<ge> now \<and> cf_state c = ConfigurationStateWaiting
        then (Some i, cf_executeAt c) else (index, nxt))"

definition scheduleNextConfigurationFor :: "simtime \<Rightarrow> nat \<Rightarrow> 'a app_scheme \<Rightarrow> (bool \<times> 'a app_scheme) res" where
  "scheduleNextConfigurationFor now i a =
     rbind (get_connection i a) (\<lambda>connection.
       if cn_state connection = ConnectionStateEstablished then
         (case next_configuration now 0 (cn_configurations connection) (None, simtime_max) of
            (Some k, nxt) \<Rightarrow>
              rbind (createNetConfRPCForConfiguration connection (cn_configurations connection ! k) (to_string k))
                (\<lambda>rpc. Inr (True,
                   set_configuration i k (\<lambda>c. c\<lparr>cf_state := ConfigurationStateScheduled\<rparr>)
                     (out (ScheduleAt nxt (MsgSendNetconf (Some (rpc, i)))) a)))
          | (None, _) \<Rightarrow> Inr (False, a))
       else Inr (False, a))"

subsection \<open>Messages\<close>

definition find_established :: "int \<Rightarrow> 'a app_scheme \<Rightarrow> nat option" where
  "find_established sid a =
     find_idx (\<lambda>c. cn_state c = ConnectionStateEstablished \<and> cn_session_id c = sid) (a_connections a)"

text \<open>The loop of the base class keeps the last match instead of the first.\<close>

fun find_last_established :: "int \<Rightarrow> nat \<Rightarrow> connection list \<Rightarrow> nat option \<Rightarrow> nat option" where
  "find_last_established sid i [] found = found"
| "find_last_established sid i (c # cs) found =
     find_last_established sid (Suc i) cs
       (if cn_state c = ConnectionStateEstablished \<and> cn_session_id c = sid then Some i else found)"

text \<open>\<open>resolve\<close> is INET's address resolver.\<close>

definition mapSessionInfoToConnection :: "(string \<Rightarrow> string) \<Rightarrow> session_info option \<Rightarrow> 'a app_scheme \<Rightarrow> nat option" where
  "mapSessionInfoToConnection resolve info a =
     (case info of
        None \<Rightarrow> None
      | Some si \<Rightarrow>
          find_idx (\<lambda>c. (cn_state c = ConnectionStateEstablished \<and> cn_session_id c = si_session_id si)
              \<or> (cn_session_id c = -1 \<and> resolve (cn_remoteAddress c) = si_remoteAddress si)) (a_connections a))"

text \<open>
  \<open>handleMessage\<close>. The two scheduling functions are virtual and therefore arguments: what to
  do for the next connection, and what to do for an established connection.
\<close>

definition handleMessage_base ::
  "(string \<Rightarrow> string) \<Rightarrow> ('a app_scheme \<Rightarrow> bool \<times> 'a app_scheme)
    \<Rightarrow> (nat \<Rightarrow> 'a app_scheme \<Rightarrow> (bool \<times> 'a app_scheme) res)
    \<Rightarrow> app_msg \<Rightarrow> 'a app_scheme \<Rightarrow> 'a app_scheme res" where
  "handleMessage_base resolve nextConn nextConf msg a =
     (case msg of
        MsgSendHello (Some i) \<Rightarrow>
          rbind (get_connection i a) (\<lambda>c.
            Inr (snd (nextConn (set_connection i (\<lambda>c. c\<lparr>cn_state := ConnectionStateRequested\<rparr>)
              (out (SendHello (createHelloFor c)) a)))))
      | MsgSendHello None \<Rightarrow> Inr (snd (nextConn a))
      | MsgSendNetconf (Some (rpc, i)) \<Rightarrow>
          rbind (get_configuration i (atoi (ci_message_id (rpc_ctrl rpc))) a) (\<lambda>cf.
            rbind (nextConf i (out (SendRPC rpc)
                (set_configuration i (nat (atoi (ci_message_id (rpc_ctrl rpc))))
                   (\<lambda>c. c\<lparr>cf_state := ConfigurationStateRequested\<rparr>) a)))
              (\<lambda>(b, a'). Inr a'))
      | MsgHello info \<Rightarrow>
          (case mapSessionInfoToConnection resolve info a of
             None \<Rightarrow> Inr a
           | Some i \<Rightarrow>
               rbind (nextConf i (set_connection i
                   (\<lambda>c. c\<lparr>cn_session_id := si_session_id (the info), cn_state := ConnectionStateEstablished\<rparr>) a))
                 (\<lambda>(b, a'). Inr a'))
      | MsgReply reply \<Rightarrow>
          (case rp_ctrl reply of
             None \<Rightarrow> Inr a
           | Some info \<Rightarrow>
               (case find_last_established (ci_session_id info) 0 (a_connections a) None of
                  None \<Rightarrow> Inr a
                | Some i \<Rightarrow>
                    (case rp_element reply of
                       ReplyOk \<Rightarrow>
                         rbind (get_configuration i (atoi (ci_message_id info)) a) (\<lambda>cf.
                           Inr (set_configuration i (nat (atoi (ci_message_id info)))
                             (\<lambda>c. c\<lparr>cf_state := ConfigurationStateSuccess\<rparr>) a))
                     | ReplyError et tag \<Rightarrow>
                         rbind (get_configuration i (atoi (ci_message_id info)) a) (\<lambda>cf.
                           Inr (set_configuration i (nat (atoi (ci_message_id info)))
                             (\<lambda>c. c\<lparr>cf_state := ConfigurationStateError\<rparr>) a))
                     | _ \<Rightarrow> Inr a)))
      | _ \<Rightarrow> Inr a)"

subsection \<open>Properties of the application base\<close>

lemma netconfMessageType_roundtrip: "getConfigTypeFor (netconfMessageTypeToString t) = Some t"
  by (cases t) (simp_all add: getConfigTypeFor_def netconfMessageTypeToString_def)

lemma next_configuration_spec:
  assumes "next_configuration now i cs (index, nxt) = (r, t)"
  shows "(r = index \<and> t = nxt \<and> (\<forall>c \<in> set cs. cf_state c = ConfigurationStateWaiting \<longrightarrow> now \<le> cf_executeAt c \<longrightarrow> nxt \<le> cf_executeAt c))
    \<or> (\<exists>k < length cs. r = Some (i + k) \<and> t = cf_executeAt (cs ! k) \<and> t < nxt
         \<and> cf_state (cs ! k) = ConfigurationStateWaiting \<and> now \<le> t
         \<and> (\<forall>c \<in> set cs. cf_state c = ConfigurationStateWaiting \<longrightarrow> now \<le> cf_executeAt c \<longrightarrow> t \<le> cf_executeAt c))"
  using assms
proof (induction cs arbitrary: i index nxt)
  case Nil
  then show ?case by simp
next
  case (Cons c cs)
  let ?take = "cf_executeAt c < nxt \<and> cf_executeAt c \<ge> now \<and> cf_state c = ConfigurationStateWaiting"
  show ?case
  proof (cases ?take)
    case True
    then have "next_configuration now (Suc i) cs (Some i, cf_executeAt c) = (r, t)" using Cons.prems by simp
    from Cons.IH [OF this] show ?thesis
    proof (elim disjE exE conjE)
      assume "r = Some i" "t = cf_executeAt c"
        "\<forall>c'\<in>set cs. cf_state c' = ConfigurationStateWaiting \<longrightarrow> now \<le> cf_executeAt c' \<longrightarrow> cf_executeAt c \<le> cf_executeAt c'"
      then show ?thesis using True by (intro disjI2 exI [of _ 0]) auto
    next
      fix k
      assume "k < length cs" "r = Some (Suc i + k)" "t = cf_executeAt (cs ! k)" "t < cf_executeAt c"
        "cf_state (cs ! k) = ConfigurationStateWaiting" "now \<le> t"
        "\<forall>c\<in>set cs. cf_state c = ConfigurationStateWaiting \<longrightarrow> now \<le> cf_executeAt c \<longrightarrow> t \<le> cf_executeAt c"
      then show ?thesis using True by (intro disjI2 exI [of _ "Suc k"]) auto
    qed
  next
    case False
    then have "next_configuration now (Suc i) cs (index, nxt) = (r, t)"
      using Cons.prems by (auto simp only: next_configuration.simps if_False)
    from Cons.IH [OF this] show ?thesis
    proof (elim disjE exE conjE)
      assume "r = index" "t = nxt"
        "\<forall>c\<in>set cs. cf_state c = ConfigurationStateWaiting \<longrightarrow> now \<le> cf_executeAt c \<longrightarrow> nxt \<le> cf_executeAt c"
      then show ?thesis using False by (intro disjI1) auto
    next
      fix k
      assume k: "k < length cs" "r = Some (Suc i + k)" "t = cf_executeAt (cs ! k)" "t < nxt"
        "cf_state (cs ! k) = ConfigurationStateWaiting" "now \<le> t"
        "\<forall>c\<in>set cs. cf_state c = ConfigurationStateWaiting \<longrightarrow> now \<le> cf_executeAt c \<longrightarrow> t \<le> cf_executeAt c"
      then show ?thesis using False by (intro disjI2 exI [of _ "Suc k"]) auto
    qed
  qed
qed

text \<open>
  The base application sends the configurations of an established connection in the order of
  their execution times: the one it schedules is waiting, not in the past, and no waiting
  configuration that is still due comes earlier; its call carries the position that the reply is
  booked under.
\<close>

theorem scheduleNextConfigurationFor_correct:
  assumes "scheduleNextConfigurationFor now i a = Inr (True, a')"
  shows "\<exists>c k rpc. get_connection i a = Inr c \<and> k < length (cn_configurations c)
    \<and> a_out a' = a_out a @ [ScheduleAt (cf_executeAt (cn_configurations c ! k)) (MsgSendNetconf (Some (rpc, i)))]
    \<and> cf_state (cn_configurations c ! k) = ConfigurationStateWaiting \<and> now \<le> cf_executeAt (cn_configurations c ! k)
    \<and> (\<forall>c' \<in> set (cn_configurations c). cf_state c' = ConfigurationStateWaiting \<longrightarrow> now \<le> cf_executeAt c'
          \<longrightarrow> cf_executeAt (cn_configurations c ! k) \<le> cf_executeAt c')
    \<and> atoi (ci_message_id (rpc_ctrl rpc)) = int k \<and> ci_session_id (rpc_ctrl rpc) = cn_session_id c"
proof -
  from assms obtain c where c: "get_connection i a = Inr c" and e: "cn_state c = ConnectionStateEstablished"
    by (auto simp: scheduleNextConfigurationFor_def rbind_Inr_iff split: if_splits)
  obtain r t where n: "next_configuration now 0 (cn_configurations c) (None, simtime_max) = (r, t)" by force
  with assms c e obtain k rpc where r: "r = Some k"
    and rpc: "createNetConfRPCForConfiguration c (cn_configurations c ! k) (to_string k) = Inr rpc"
    and a': "a' = set_configuration i k (\<lambda>c. c\<lparr>cf_state := ConfigurationStateScheduled\<rparr>)
                     (out (ScheduleAt t (MsgSendNetconf (Some (rpc, i)))) a)"
    by (auto simp: scheduleNextConfigurationFor_def rbind_Inr_iff split: option.splits)
  have id: "ci_message_id (rpc_ctrl rpc) = to_string k" "ci_session_id (rpc_ctrl rpc) = cn_session_id c"
    using rpc by (auto simp: createNetConfRPCForConfiguration_def rbind_Inr_iff createControlInfo_def)
  have o: "a_out a' = a_out a @ [ScheduleAt t (MsgSendNetconf (Some (rpc, i)))]"
    by (simp add: a' set_configuration_def set_connection_def out_def)
  from next_configuration_spec [OF n] r show ?thesis
    using c id o by auto
qed

subsection \<open>An example\<close>

definition two_configs_app :: app where
  "two_configs_app = \<lparr>a_connections = [\<lparr>cn_localPort = 1, cn_remoteAddress = ''s1'', cn_remotePort = 830, cn_connectAt = 0,
      cn_state = ConnectionStateEstablished,
      cn_configurations = [new_configuration\<lparr>cf_executeAt := 7, cf_type := MT_Commit\<rparr>,
                           new_configuration\<lparr>cf_executeAt := 3, cf_type := MT_Lock, cf_target := ''running''\<rparr>],
      cn_session_id = 4\<rparr>], a_out = []\<rparr>"

definition scheduled_app :: app where
  "scheduled_app = (case scheduleNextConfigurationFor 1 0 two_configs_app of Inr (b, a) \<Rightarrow> a | Inl e \<Rightarrow> two_configs_app)"

lemma scheduled_eq: "scheduleNextConfigurationFor 1 0 two_configs_app = Inr (True, scheduled_app)"
proof -
  let ?r = "scheduleNextConfigurationFor 1 0 two_configs_app"
  have "case ?r of Inr (b, a) \<Rightarrow> b | Inl e \<Rightarrow> False" by code_simp
  then show ?thesis by (cases ?r) (auto simp: scheduled_app_def)
qed

theorem scheduleNextConfigurationFor_correct_witness:
  "\<exists>c k (rpc :: rpc). get_connection 0 two_configs_app = Inr c \<and> k < length (cn_configurations c)
    \<and> a_out scheduled_app = a_out two_configs_app @ [ScheduleAt (cf_executeAt (cn_configurations c ! k)) (MsgSendNetconf (Some (rpc, 0)))]
    \<and> cf_state (cn_configurations c ! k) = ConfigurationStateWaiting \<and> 1 \<le> cf_executeAt (cn_configurations c ! k)
    \<and> (\<forall>c' \<in> set (cn_configurations c). cf_state c' = ConfigurationStateWaiting \<longrightarrow> 1 \<le> cf_executeAt c'
          \<longrightarrow> cf_executeAt (cn_configurations c ! k) \<le> cf_executeAt c')
    \<and> atoi (ci_message_id (rpc_ctrl rpc)) = int k \<and> ci_session_id (rpc_ctrl rpc) = cn_session_id c"
  by (rule scheduleNextConfigurationFor_correct [OF scheduled_eq])

end
