(* ===== verification/TransactionApp.thy ===== *)
theory TransactionApp
  imports NetConfApplication
begin

text \<open>
  The transaction application (sdn4core/netconf/applications/transactionModel/TransactionApp.cc):
  a finite state machine that drives one reconfiguration of all connected switches through lock,
  copy, candidate lock, change, commit, delete and unlock, with the branches that abort it. The
  functions that the time synchronous variant overrides are arguments.
\<close>

subsection \<open>States\<close>

datatype tx_state =
    BeginOfTransaction | WaitOnLockResponse | WaitOnCandidateConfirmation
  | WaitOnCandidateLockResponse | WaitOnChangeConfirmation | WaitOnCommitExecution
  | WaitOnDeleteOldConfiguration | WaitOnDeleteCandidate | WaitOnUnlock
  | ErrorState | EndOfTransaction
  | WaitOnTimestampConfirmation   \<comment> \<open>of \<open>TimeSynchronousTransactionApp\<close> only\<close>

datatype sw_kind =
    SwitchAvailable | SwitchLocked | SwitchWithCandidate | SwitchWithLockedCandidate
  | SwitchWithChangedCandidateConfiguration | SwitchCommited | SwitchWithoutCandidate
  | SwitchWithoutOldConfig | SwitchUnlocked | SwitchError
  | SwitchWithTimestamp           \<comment> \<open>of \<open>TimeSynchronousTransactionApp\<close> only\<close>

record switch_state =
  hasLockedRunning :: bool
  hasCandidate :: bool
  hasLockedCandidate :: bool
  hasConfiguration :: bool
  hasCommited :: bool
  hasError :: bool

definition isInState :: "sw_kind \<Rightarrow> 'z switch_state_scheme \<Rightarrow> bool" where
  "isInState k s =
     (case k of
        SwitchAvailable \<Rightarrow> \<not> hasLockedRunning s \<and> \<not> hasCandidate s \<and> \<not> hasLockedCandidate s
          \<and> \<not> hasConfiguration s \<and> \<not> hasCommited s \<and> \<not> hasError s
      | SwitchLocked \<Rightarrow> hasLockedRunning s \<and> \<not> hasError s
      | SwitchWithCandidate \<Rightarrow> hasLockedRunning s \<and> hasCandidate s \<and> \<not> hasLockedCandidate s
          \<and> \<not> hasConfiguration s \<and> \<not> hasCommited s \<and> \<not> hasError s
      | SwitchWithLockedCandidate \<Rightarrow> hasLockedRunning s \<and> hasCandidate s \<and> hasLockedCandidate s
          \<and> \<not> hasConfiguration s \<and> \<not> hasCommited s \<and> \<not> hasError s
      | SwitchWithChangedCandidateConfiguration \<Rightarrow> hasLockedRunning s \<and> hasCandidate s
          \<and> hasLockedCandidate s \<and> hasConfiguration s \<and> \<not> hasCommited s \<and> \<not> hasError s
      | SwitchCommited \<Rightarrow> hasLockedRunning s \<and> hasCandidate s \<and> hasLockedCandidate s
          \<and> hasConfiguration s \<and> hasCommited s \<and> \<not> hasError s
      | SwitchWithoutCandidate \<Rightarrow> hasLockedRunning s \<and> \<not> hasCandidate s \<and> \<not> hasCommited s
      | SwitchWithoutOldConfig \<Rightarrow> hasLockedRunning s \<and> \<not> hasCandidate s \<and> hasCommited s
      | SwitchUnlocked \<Rightarrow> \<not> hasLockedRunning s
      | SwitchError \<Rightarrow> hasError s
      | SwitchWithTimestamp \<Rightarrow> False)"

text \<open>\<open>new SwitchState_t()\<close>\<close>

definition new_switch_state :: switch_state where
  "new_switch_state = \<lparr>hasLockedRunning = False, hasCandidate = False, hasLockedCandidate = False,
     hasConfiguration = False, hasCommited = False, hasError = False\<rparr>"

text \<open>
  \<open>switchStates\<close> is keyed by remote address, the order of \<open>connections_less\<close>; the entry
  holds the connection pointer of the key and the state.
\<close>

record 'z tapp = app +
  tx_result :: bool
  transactionState :: tx_state
  switchStates :: "(string, nat \<times> 'z switch_state_scheme) smap"
  controllerProcessingTime :: rat
  startHelloHandshake :: rat
  startTransaction :: rat

subsection \<open>Message ids\<close>

definition "LOCK_MSG_ID = ''Lock''"
definition "COPY_CONFIG_MSG_ID = ''Copy Config''"
definition "LOCK_CANDIDATE_MSG_ID = ''Lock Candidate''"
definition "CHANGE_MSG_ID = (0 :: nat)"
definition "TIMESTAMP_MSG_ID = ''Timestamp''"
definition "UNLOCK_MSG_ID = ''Unlock''"
definition "COMMIT_APPROVED_MSG_ID = ''Commit approved''"
definition "DELETE_CANDIDATE_MSG_ID = ''Delete Candidate Config''"
definition "DELETE_OLD_CONFIG_MSG_ID = ''Delete Old Config''"

lemmas msg_ids = LOCK_MSG_ID_def COPY_CONFIG_MSG_ID_def LOCK_CANDIDATE_MSG_ID_def CHANGE_MSG_ID_def
  TIMESTAMP_MSG_ID_def UNLOCK_MSG_ID_def COMMIT_APPROVED_MSG_ID_def DELETE_CANDIDATE_MSG_ID_def
  DELETE_OLD_CONFIG_MSG_ID_def

subsection \<open>Switches\<close>

type_synonym ('z, 'a) handler = "app_msg \<Rightarrow> ('z, 'a) tapp_scheme \<Rightarrow> (bool \<times> ('z, 'a) tapp_scheme) res"

definition getSwitchesInState :: "sw_kind \<Rightarrow> ('z, 'a) tapp_scheme \<Rightarrow> nat list" where
  "getSwitchesInState k a = map (\<lambda>(addr, ci, s). ci) (filter (\<lambda>(addr, ci, s). isInState k s) (switchStates a))"

abbreviation count :: "sw_kind \<Rightarrow> ('z, 'a) tapp_scheme \<Rightarrow> nat" where
  "count k a \<equiv> length (getSwitchesInState k a)"

abbreviation total :: "('z, 'a) tapp_scheme \<Rightarrow> nat" where
  "total a \<equiv> length (switchStates a)"

text \<open>\<open>switchStates[con]\<close> for a connection pointer, and an assignment to its fields.\<close>

definition switch_of :: "nat \<Rightarrow> ('z, 'a) tapp_scheme \<Rightarrow> (nat \<times> 'z switch_state_scheme) res" where
  "switch_of i a = rbind (get_connection i a) (\<lambda>c.
     case smap_get (cn_remoteAddress c) (switchStates a) of
       None \<Rightarrow> Inl (NullDeref ''switch state'') | Some s \<Rightarrow> Inr s)"

definition set_switch :: "nat \<Rightarrow> ('z switch_state_scheme \<Rightarrow> 'z switch_state_scheme)
    \<Rightarrow> ('z, 'a) tapp_scheme \<Rightarrow> ('z, 'a) tapp_scheme res" where
  "set_switch i f a = rbind (switch_of i a) (\<lambda>s.
     Inr (a\<lparr>switchStates := smap_modify (cn_remoteAddress (a_connections a ! i))
              (\<lambda>(ci, s). (ci, f s)) (switchStates a)\<rparr>))"

fun determine_loop :: "'z switch_state_scheme \<Rightarrow> nat \<Rightarrow> connection list
    \<Rightarrow> (string, nat \<times> 'z switch_state_scheme) smap \<Rightarrow> (string, nat \<times> 'z switch_state_scheme) smap" where
  "determine_loop new i [] m = m"
| "determine_loop new i (c # cs) m =
     determine_loop new (Suc i) cs
       (case smap_get (cn_remoteAddress c) m of
          None \<Rightarrow> smap_put (cn_remoteAddress c) (i, new) m
        | Some (j, s) \<Rightarrow> smap_put (cn_remoteAddress c) (j, new) m)"

definition determineLockOrder :: "'z switch_state_scheme \<Rightarrow> ('z, 'a) tapp_scheme \<Rightarrow> ('z, 'a) tapp_scheme" where
  "determineLockOrder new a = a\<lparr>switchStates := determine_loop new 0 (a_connections a) (switchStates a)\<rparr>"

definition findConnectionForReply :: "rpc_reply \<Rightarrow> ('z, 'a) tapp_scheme \<Rightarrow> nat res" where
  "findConnectionForReply reply a =
     (case rp_ctrl reply of
        None \<Rightarrow> Inl (RuntimeError ''undefined sessionInfo'')
      | Some info \<Rightarrow>
          (case find_established (ci_session_id info) a of
             None \<Rightarrow> Inl (RuntimeError ''undefined connection'')
           | Some i \<Rightarrow> Inr i))"

subsection \<open>Sending\<close>

definition send_config :: "nat \<Rightarrow> configuration \<Rightarrow> string \<Rightarrow> ('z, 'a) tapp_scheme \<Rightarrow> ('z, 'a) tapp_scheme res" where
  "send_config i config mid a =
     rbind (get_connection i a) (\<lambda>c.
       rbind (createNetConfRPCForConfiguration c config mid) (\<lambda>rpc.
         Inr (out (SendDelayed (controllerProcessingTime a) rpc) a)))"

text \<open>
  The loop over \<open>switchStates\<close> that sends one configuration to every connection, with the
  statements that follow each send.
\<close>

fun send_loop :: "nat list \<Rightarrow> configuration \<Rightarrow> string \<Rightarrow> app_effect list \<Rightarrow> ('z, 'a) tapp_scheme \<Rightarrow> ('z, 'a) tapp_scheme res" where
  "send_loop [] config mid es a = Inr a"
| "send_loop (i # is) config mid es a =
     rbind (send_config i config mid a) (\<lambda>a1. send_loop is config mid es (fold out es a1))"

definition send_to_all :: "configuration \<Rightarrow> string \<Rightarrow> app_effect list \<Rightarrow> ('z, 'a) tapp_scheme \<Rightarrow> ('z, 'a) tapp_scheme res" where
  "send_to_all config mid es a = send_loop (map (\<lambda>(addr, ci, s). ci) (switchStates a)) config mid es a"

definition lock_config :: "string \<Rightarrow> configuration" where
  "lock_config t = new_configuration\<lparr>cf_type := MT_Lock, cf_target := t\<rparr>"

definition unlock_config :: "string \<Rightarrow> configuration" where
  "unlock_config t = new_configuration\<lparr>cf_type := MT_Unlock, cf_target := t\<rparr>"

definition copy_config :: "string \<Rightarrow> string \<Rightarrow> configuration" where
  "copy_config s t = new_configuration\<lparr>cf_type := MT_CopyConfig, cf_source := s, cf_target := t\<rparr>"

definition delete_config :: "string \<Rightarrow> configuration" where
  "delete_config t = new_configuration\<lparr>cf_type := MT_DeleteConfig, cf_target := t\<rparr>"

definition commit_config :: configuration where
  "commit_config = new_configuration\<lparr>cf_type := MT_Commit\<rparr>"

subsection \<open>Transitions\<close>

definition transitionToState :: "simtime \<Rightarrow> tx_state \<Rightarrow> ('z, 'a) tapp_scheme \<Rightarrow> ('z, 'a) tapp_scheme res" where
  "transitionToState now nextState a0 =
     (let a = a0\<lparr>transactionState := nextState\<rparr> in
      case nextState of
        WaitOnLockResponse \<Rightarrow>
          (case find (\<lambda>(addr, ci, s). isInState SwitchAvailable s) (switchStates a) of
             Some (addr, ci, s) \<Rightarrow>
               rbind (send_config ci (lock_config ''running'') LOCK_MSG_ID a) (\<lambda>a1. Inr (out EmitNumSent a1))
           | None \<Rightarrow> Inl (RuntimeError ''connection cannot locked''))
      | ErrorState \<Rightarrow>
          Inr (out (ScheduleAt now MsgLambda) (out (EmitResult False)
            ((out (EmitPhase PHASE_DEFAULT) a)\<lparr>tx_result := False\<rparr>)))
      | EndOfTransaction \<Rightarrow>
          Inr (out EmitDuration (out (EmitResult True)
            ((out (EmitPhase PHASE_DEFAULT) a)\<lparr>tx_result := True\<rparr>)))
      | _ \<Rightarrow> Inr a)"

definition handled :: "('z, 'a) tapp_scheme res \<Rightarrow> (bool \<times> ('z, 'a) tapp_scheme) res" where
  "handled r = rbind r (\<lambda>a. Inr (True, a))"

definition unhandled :: "('z, 'a) tapp_scheme \<Rightarrow> (bool \<times> ('z, 'a) tapp_scheme) res" where
  "unhandled a = Inr (False, a)"

subsection \<open>One handler per state\<close>

definition handleMessageInBeginOfTransaction :: "simtime \<Rightarrow> 'z switch_state_scheme \<Rightarrow> ('z, 'a) handler" where
  "handleMessageInBeginOfTransaction now new msg a =
     (case msg of
        MsgStartTransaction \<Rightarrow>
          handled (transitionToState now WaitOnLockResponse
            (determineLockOrder new (out (EmitPhase PHASE_LOCK) (out EmitDuration a))))
      | _ \<Rightarrow> unhandled a)"

definition handleMessageInWaitOnLockResponse :: "simtime \<Rightarrow> ('z, 'a) handler" where
  "handleMessageInWaitOnLockResponse now msg a =
     (case msg of
        MsgReply reply \<Rightarrow>
          (case rp_element reply of
             ReplyOk \<Rightarrow>
               rbind (findConnectionForReply reply a) (\<lambda>con.
               rbind (if rp_message_id reply = LOCK_MSG_ID
                      then rbind (switch_of con a) (\<lambda>s. Inr (isInState SwitchAvailable (snd s))) else Inr False) (\<lambda>ok.
                 if ok then
                   rbind (set_switch con (\<lambda>s. s\<lparr>hasLockedRunning := True\<rparr>) a) (\<lambda>a1.
                     if count SwitchLocked a1 < total a1 then handled (transitionToState now WaitOnLockResponse a1)
                     else if count SwitchLocked a1 = total a1 then
                       rbind (send_to_all (copy_config ''running'' ''candidate'') COPY_CONFIG_MSG_ID []
                                (out (EmitPhase PHASE_CHANGE) a1)) (\<lambda>a2.
                         handled (transitionToState now WaitOnCandidateConfirmation a2))
                     else unhandled a1)
                 else Inl (RuntimeError ''reply is not the response of e_Switch_gesperrt and cannot locked'')))
           | ReplyError et tag \<Rightarrow>
               if rp_message_id reply \<noteq> LOCK_MSG_ID
               then Inl (RuntimeError ''error-reply is not the response of e_bereits_belegt'')
               else if count SwitchLocked a = 0 then
                 handled (transitionToState now EndOfTransaction (out (EmitResult False) (a\<lparr>tx_result := False\<rparr>)))
               else
                 rbind (findConnectionForReply reply a) (\<lambda>con.
                 rbind (get_connection con a) (\<lambda>c.
                 rbind (send_loop (map (\<lambda>(addr, ci, s). ci)
                            (filter (\<lambda>(addr, ci, s). cn_remoteAddress (a_connections a ! ci) = cn_remoteAddress c) (switchStates a)))
                          (unlock_config ''running'') UNLOCK_MSG_ID [] a) (\<lambda>a1.
                 rbind (set_switch con (\<lambda>s. s\<lparr>hasLockedRunning := False\<rparr>) a1) (\<lambda>a2.
                   handled (transitionToState now WaitOnUnlock (out (EmitResult False) (a2\<lparr>tx_result := False\<rparr>)))))))
           | _ \<Rightarrow> unhandled a)
      | _ \<Rightarrow> unhandled a)"

definition handleMessageInWaitOnCandidateConfirmation :: "simtime \<Rightarrow> ('z, 'a) handler" where
  "handleMessageInWaitOnCandidateConfirmation now msg a =
     (case msg of
        MsgReply reply \<Rightarrow>
          (case rp_element reply of
             ReplyOk \<Rightarrow>
               rbind (findConnectionForReply reply a) (\<lambda>con.
                 if rp_message_id reply \<noteq> COPY_CONFIG_MSG_ID
                 then Inl (RuntimeError ''reply is not the response of e_Konfig_kopiert'')
                 else rbind (set_switch con (\<lambda>s. s\<lparr>hasCandidate := True\<rparr>) a) (\<lambda>a1.
                   if count SwitchError a1 > 0 then
                     (if count SwitchWithCandidate a1 + count SwitchError a1 = total a1
                      then handled (transitionToState now ErrorState a1)
                      else handled (transitionToState now WaitOnCandidateConfirmation a1))
                   else if count SwitchWithCandidate a1 < total a1
                   then handled (transitionToState now WaitOnCandidateConfirmation a1)
                   else if count SwitchWithCandidate a1 = total a1 then
                     rbind (send_to_all (lock_config ''candidate'') LOCK_CANDIDATE_MSG_ID [EmitNumSent] a1) (\<lambda>a2.
                       handled (transitionToState now WaitOnCandidateLockResponse a2))
                   else unhandled a1))
           | ReplyError et tag \<Rightarrow>
               rbind (findConnectionForReply reply a) (\<lambda>con.
                 if rp_message_id reply \<noteq> COPY_CONFIG_MSG_ID
                 then Inl (RuntimeError ''reply is not the response of e_Kandidat_fehlgeschlagen'')
                 else rbind (set_switch con (\<lambda>s. s\<lparr>hasError := True\<rparr>) a) (\<lambda>a1.
                   if count SwitchWithCandidate a1 = 0 \<and> count SwitchError a1 = total a1 then
                     rbind (send_to_all (unlock_config ''running'') UNLOCK_MSG_ID [] a1) (\<lambda>a2.
                       handled (transitionToState now WaitOnUnlock a2))
                   else if count SwitchWithCandidate a1 + count SwitchError a1 < total a1
                   then handled (transitionToState now WaitOnCandidateConfirmation a1)
                   else if count SwitchWithCandidate a1 + count SwitchError a1 = total a1
                   then handled (transitionToState now ErrorState a1)
                   else unhandled a1))
           | _ \<Rightarrow> unhandled a)
      | _ \<Rightarrow> unhandled a)"

text \<open>The first change of every connection whose first configuration is waiting.\<close>

fun first_changes :: "nat list \<Rightarrow> ('z, 'a) tapp_scheme \<Rightarrow> ('z, 'a) tapp_scheme res" where
  "first_changes [] a = Inr a"
| "first_changes (i # is) a =
     rbind (get_configuration i 0 a) (\<lambda>cf.
       if cf_state cf = ConfigurationStateWaiting then
         (let a1 = set_configuration i 0 (\<lambda>c. c\<lparr>cf_target := ''candidate''\<rparr>) a in
          rbind (send_config i (cf\<lparr>cf_target := ''candidate''\<rparr>) (to_string (CHANGE_MSG_ID + 0)) a1) (\<lambda>a2.
            first_changes is (set_configuration i 0 (\<lambda>c. c\<lparr>cf_state := ConfigurationStateRequested\<rparr>) a2)))
       else first_changes is a)"

definition handleMessageInWaitOnCandidateLockResponse :: "simtime \<Rightarrow> ('z, 'a) handler" where
  "handleMessageInWaitOnCandidateLockResponse now msg a =
     (case msg of
        MsgReply reply \<Rightarrow>
          (case rp_element reply of
             ReplyOk \<Rightarrow>
               rbind (findConnectionForReply reply a) (\<lambda>con.
                 if rp_message_id reply \<noteq> LOCK_CANDIDATE_MSG_ID
                 then Inl (RuntimeError ''reply is not the response of e_Switch_Kandidat_gesperrt'')
                 else rbind (set_switch con (\<lambda>s. s\<lparr>hasLockedCandidate := True\<rparr>) a) (\<lambda>a1.
                   if count SwitchWithLockedCandidate a1 < total a1
                   then handled (transitionToState now WaitOnCandidateLockResponse a1)
                   else if count SwitchWithLockedCandidate a1 = total a1 then
                     rbind (first_changes (map (\<lambda>(addr, ci, s). ci) (switchStates a1)) a1) (\<lambda>a2.
                       handled (transitionToState now WaitOnChangeConfirmation a2))
                   else unhandled a1))
           | _ \<Rightarrow> unhandled a)
      | _ \<Rightarrow> unhandled a)"

text \<open>
  The answer to a change. \<open>all_changed\<close> is what happens when the last change of the last
  switch is confirmed: the base class sends the commits, the time synchronous one the timestamps.
\<close>

definition next_change :: "nat \<Rightarrow> ('z, 'a) tapp_scheme \<Rightarrow> ('z, 'a) tapp_scheme res" where
  "next_change con a =
     rbind (get_connection con a) (\<lambda>c.
       case find_idx (\<lambda>cf. cf_state cf = ConfigurationStateWaiting) (cn_configurations c) of
         Some k \<Rightarrow>
           (let f = (\<lambda>cf. cf\<lparr>cf_type := MT_EditConfig, cf_target := ''candidate''\<rparr>) in
            rbind (send_config con (f (cn_configurations c ! k)) (to_string (CHANGE_MSG_ID + k))
                     (set_configuration con k f a)) (\<lambda>a1.
              Inr (set_configuration con k (\<lambda>cf. cf\<lparr>cf_state := ConfigurationStateRequested\<rparr>) (out EmitNumSent a1))))
       | None \<Rightarrow> set_switch con (\<lambda>s. s\<lparr>hasConfiguration := True\<rparr>) a)"

definition handle_change :: "(('z, 'a) tapp_scheme \<Rightarrow> (bool \<times> ('z, 'a) tapp_scheme) res) \<Rightarrow> simtime \<Rightarrow> ('z, 'a) handler" where
  "handle_change all_changed now msg a =
     (case msg of
        MsgReply reply \<Rightarrow>
          rbind (findConnectionForReply reply a) (\<lambda>con.
            let idx = atoi (rp_message_id reply) - int CHANGE_MSG_ID in
            rbind (get_configuration con idx a) (\<lambda>cf.
              if cf_state cf \<noteq> ConfigurationStateRequested
              then Inl (RuntimeError ''reply is not the response for last change of e_Aenderung_durchgefuehrt'')
              else
                (case rp_element reply of
                   ReplyOk \<Rightarrow>
                     (let a1 = set_configuration con (nat idx) (\<lambda>c. c\<lparr>cf_state := ConfigurationStateSuccess\<rparr>) a in
                      if count SwitchError a1 > 0 then
                        rbind (set_switch con (\<lambda>s. s\<lparr>hasConfiguration := True\<rparr>) a1) (\<lambda>a2.
                          if count SwitchError a2 + count SwitchWithChangedCandidateConfiguration a2 = total a2
                          then handled (transitionToState now ErrorState a2)
                          else handled (transitionToState now WaitOnChangeConfirmation a2))
                      else
                        rbind (next_change con a1) (\<lambda>a2.
                          if count SwitchWithChangedCandidateConfiguration a2 = total a2 \<and> count SwitchError a2 = 0
                          then all_changed a2
                          else handled (transitionToState now WaitOnChangeConfirmation a2)))
                 | ReplyError et tag \<Rightarrow>
                     (let a1 = set_configuration con (nat idx) (\<lambda>c. c\<lparr>cf_state := ConfigurationStateError\<rparr>) a in
                      rbind (set_switch con (\<lambda>s. s\<lparr>hasError := True\<rparr>) a1) (\<lambda>a2.
                        if count SwitchWithChangedCandidateConfiguration a2 + count SwitchError a2 < total a2
                        then handled (transitionToState now WaitOnChangeConfirmation a2)
                        else if count SwitchWithChangedCandidateConfiguration a2 + count SwitchError a2 = total a2
                        then handled (transitionToState now ErrorState a2)
                        else unhandled a2))
                 | _ \<Rightarrow> unhandled a)))
      | _ \<Rightarrow> unhandled a)"

definition commit_all :: "simtime \<Rightarrow> ('z, 'a) tapp_scheme \<Rightarrow> (bool \<times> ('z, 'a) tapp_scheme) res" where
  "commit_all now a =
     rbind (send_to_all commit_config COMMIT_APPROVED_MSG_ID [EmitPhase PHASE_CONFIRMATION] a) (\<lambda>a1.
       handled (transitionToState now WaitOnCommitExecution a1))"

definition handleMessageInWaitOnChangeConfirmation :: "simtime \<Rightarrow> ('z, 'a) handler" where
  "handleMessageInWaitOnChangeConfirmation now = handle_change (commit_all now) now"

definition handleMessageInWaitOnCommitExecution :: "simtime \<Rightarrow> ('z, 'a) handler" where
  "handleMessageInWaitOnCommitExecution now msg a =
     (case msg of
        MsgReply reply \<Rightarrow>
          (case rp_element reply of
             ReplyOk \<Rightarrow>
               rbind (findConnectionForReply reply a) (\<lambda>con.
                 if rp_message_id reply \<noteq> COMMIT_APPROVED_MSG_ID
                 then Inl (RuntimeError ''reply is not the response of e_Commit_ausgefuehrt'')
                 else rbind (set_switch con (\<lambda>s. s\<lparr>hasCommited := True\<rparr>) a) (\<lambda>a1.
                   if total a1 > count SwitchCommited a1
                   then handled (transitionToState now WaitOnCommitExecution a1)
                   else if total a1 = count SwitchCommited a1 then
                     rbind (send_to_all (delete_config ''candidate'') DELETE_OLD_CONFIG_MSG_ID [EmitNumSent]
                              (out (EmitPhase PHASE_UNLOCK) a1)) (\<lambda>a2.
                       handled (transitionToState now WaitOnDeleteOldConfiguration a2))
                   else unhandled a1))
           | _ \<Rightarrow> Inl (RuntimeError ''Reply for commit execution is not ok response of e_Commit_ausgefuehrt''))
      | _ \<Rightarrow> unhandled a)"

definition handleMessageInWaitOnDeleteOldConfiguration :: "simtime \<Rightarrow> ('z, 'a) handler" where
  "handleMessageInWaitOnDeleteOldConfiguration now msg a =
     (case msg of
        MsgReply reply \<Rightarrow>
          (case rp_element reply of
             ReplyOk \<Rightarrow>
               rbind (findConnectionForReply reply a) (\<lambda>con.
                 if rp_message_id reply \<noteq> DELETE_OLD_CONFIG_MSG_ID
                 then Inl (RuntimeError ''reply is not the response of e_alte_Konfig_geloescht'')
                 else rbind (set_switch con (\<lambda>s. s\<lparr>hasCandidate := False, hasLockedCandidate := False\<rparr>) a) (\<lambda>a1.
                   if count SwitchWithoutOldConfig a1 = total a1 then
                     rbind (send_to_all (unlock_config ''running'') UNLOCK_MSG_ID [EmitNumSent] a1) (\<lambda>a2.
                       handled (transitionToState now WaitOnUnlock a2))
                   else if count SwitchWithoutOldConfig a1 < total a1
                   then handled (transitionToState now WaitOnDeleteOldConfiguration a1)
                   else unhandled a1))
           | _ \<Rightarrow> unhandled a)
      | _ \<Rightarrow> unhandled a)"

definition handleMessageInWaitOnDeleteCandidate :: "simtime \<Rightarrow> ('z, 'a) handler" where
  "handleMessageInWaitOnDeleteCandidate now msg a =
     (case msg of
        MsgReply reply \<Rightarrow>
          (case rp_element reply of
             ReplyOk \<Rightarrow>
               rbind (findConnectionForReply reply a) (\<lambda>con.
                 if rp_message_id reply \<noteq> DELETE_CANDIDATE_MSG_ID
                 then Inl (RuntimeError ''reply is not the response of e_Kandidat_geloescht'')
                 else rbind (set_switch con (\<lambda>s. s\<lparr>hasCandidate := False, hasLockedCandidate := False\<rparr>) a) (\<lambda>a1.
                   if total a1 > count SwitchWithoutCandidate a1
                   then handled (transitionToState now WaitOnDeleteCandidate a1)
                   else if total a1 = count SwitchWithoutCandidate a1 then
                     rbind (send_to_all (unlock_config ''running'') UNLOCK_MSG_ID [] a1) (\<lambda>a2.
                       handled (transitionToState now WaitOnUnlock a2))
                   else unhandled a1))
           | _ \<Rightarrow> unhandled a)
      | _ \<Rightarrow> unhandled a)"

definition handleMessageInWaitOnUnlock :: "simtime \<Rightarrow> ('z, 'a) handler" where
  "handleMessageInWaitOnUnlock now msg a =
     (case msg of
        MsgReply reply \<Rightarrow>
          (case rp_element reply of
             ReplyOk \<Rightarrow>
               rbind (findConnectionForReply reply a) (\<lambda>con.
                 if rp_message_id reply \<noteq> UNLOCK_MSG_ID
                 then Inl (RuntimeError ''reply is not the response of e_Switch_sperren'')
                 else rbind (set_switch con (\<lambda>s. s\<lparr>hasLockedRunning := False\<rparr>) a) (\<lambda>a1.
                   if count SwitchUnlocked a1 < total a1 then handled (transitionToState now WaitOnUnlock a1)
                   else if count SwitchUnlocked a1 = total a1
                   then handled (transitionToState now EndOfTransaction (out (EmitPhase PHASE_UNLOCK) a1))
                   else unhandled a1))
           | _ \<Rightarrow> unhandled a)
      | _ \<Rightarrow> unhandled a)"

definition handleMessageInErrorState :: "simtime \<Rightarrow> ('z, 'a) handler" where
  "handleMessageInErrorState now msg a =
     (case msg of
        MsgLambda \<Rightarrow>
          (let a1 = out (EmitResult False) (a\<lparr>tx_result := False\<rparr>) in
           rbind (send_loop (map (\<lambda>(addr, ci, s). ci) (filter (\<lambda>(addr, ci, s). hasCandidate s) (switchStates a1)))
                    (delete_config ''candidate'') DELETE_CANDIDATE_MSG_ID [EmitNumSent] a1) (\<lambda>a2.
             handled (transitionToState now WaitOnDeleteCandidate a2)))
      | _ \<Rightarrow> unhandled a)"

subsection \<open>The machine\<close>

definition transactionAppStateToString :: "tx_state \<Rightarrow> string" where
  "transactionAppStateToString s =
     (case s of
        BeginOfTransaction \<Rightarrow> ''BeginOfTransaction''
      | WaitOnLockResponse \<Rightarrow> ''WaitOnLockResponse''
      | WaitOnCandidateConfirmation \<Rightarrow> ''WaitOnCandidateConfirmation''
      | WaitOnChangeConfirmation \<Rightarrow> ''WaitOnChangeConfirmation''
      | WaitOnCommitExecution \<Rightarrow> ''WaitOnCommitExecution''
      | WaitOnDeleteOldConfiguration \<Rightarrow> ''WaitOnDeleteOldConfiguration''
      | WaitOnDeleteCandidate \<Rightarrow> ''WaitOnDeleteCandidate''
      | WaitOnUnlock \<Rightarrow> ''WaitOnUnlock''
      | ErrorState \<Rightarrow> ''ErrorState''
      | EndOfTransaction \<Rightarrow> ''EndOfTransaction''
      | _ \<Rightarrow> ''invalid state'')"

definition checkEventHandled :: "(tx_state \<Rightarrow> string) \<Rightarrow> bool \<times> ('z, 'a) tapp_scheme \<Rightarrow> ('z, 'a) tapp_scheme res" where
  "checkEventHandled toString r =
     (if \<not> fst r then Inl (RuntimeError (''Cannot handle event in state '' @ toString (transactionState (snd r))))
      else Inr (snd r))"

text \<open>
  \<open>finiteStateMachine\<close>; \<open>new\<close> and \<open>change\<close> stand for the virtual
  \<open>determineLockOrder\<close> and \<open>handleMessageInWaitOnChangeConfirmation\<close>.
\<close>

definition finiteStateMachine :: "(tx_state \<Rightarrow> string) \<Rightarrow> 'z switch_state_scheme \<Rightarrow> (simtime \<Rightarrow> ('z, 'a) handler)
    \<Rightarrow> simtime \<Rightarrow> app_msg \<Rightarrow> ('z, 'a) tapp_scheme \<Rightarrow> ('z, 'a) tapp_scheme res" where
  "finiteStateMachine toString new change now msg a =
     rbind
       (case transactionState a of
          BeginOfTransaction \<Rightarrow> handleMessageInBeginOfTransaction now new msg a
        | WaitOnLockResponse \<Rightarrow> handleMessageInWaitOnLockResponse now msg a
        | WaitOnCandidateConfirmation \<Rightarrow> handleMessageInWaitOnCandidateConfirmation now msg a
        | WaitOnCandidateLockResponse \<Rightarrow> handleMessageInWaitOnCandidateLockResponse now msg a
        | WaitOnChangeConfirmation \<Rightarrow> change now msg a
        | ErrorState \<Rightarrow> handleMessageInErrorState now msg a
        | WaitOnCommitExecution \<Rightarrow> handleMessageInWaitOnCommitExecution now msg a
        | WaitOnDeleteOldConfiguration \<Rightarrow> handleMessageInWaitOnDeleteOldConfiguration now msg a
        | WaitOnDeleteCandidate \<Rightarrow> handleMessageInWaitOnDeleteCandidate now msg a
        | WaitOnUnlock \<Rightarrow> handleMessageInWaitOnUnlock now msg a
        | EndOfTransaction \<Rightarrow> unhandled a
        | _ \<Rightarrow> unhandled a)
       (checkEventHandled toString)"

definition isFSMAlphabet :: "app_msg \<Rightarrow> bool" where
  "isFSMAlphabet msg =
     (case msg of MsgStartTransaction \<Rightarrow> True | MsgReply r \<Rightarrow> True | MsgLambda \<Rightarrow> True | _ \<Rightarrow> False)"

text \<open>Connections are opened one after the other, and the transaction starts when all stand.\<close>

definition scheduleNextConnection_tx :: "('z, 'a) tapp_scheme \<Rightarrow> bool \<times> ('z, 'a) tapp_scheme" where
  "scheduleNextConnection_tx a =
     (case find_idx (\<lambda>c. cn_state c = ConnectionStateWaiting) (a_connections a) of
        Some i \<Rightarrow>
          (True, out (ScheduleAt (cn_connectAt (a_connections a ! i)) (MsgSendHello (Some i)))
                   (set_connection i (\<lambda>c. c\<lparr>cn_state := ConnectionStateScheduled\<rparr>) a))
      | None \<Rightarrow> (False, a))"

definition scheduleTransactionStart :: "simtime \<Rightarrow> rat \<Rightarrow> ('z, 'a) tapp_scheme \<Rightarrow> ('z, 'a) tapp_scheme res" where
  "scheduleTransactionStart now startTime a =
     (if startTime = 0 then Inr (out (ScheduleAt now MsgStartTransaction) a)
      else if startTime \<ge> now then Inr (out (ScheduleAt startTime MsgStartTransaction) a)
      else Inl (RuntimeError ''Start Transaction time is in the past.''))"

definition scheduleNextConfigurationFor_tx :: "simtime \<Rightarrow> nat \<Rightarrow> ('z, 'a) tapp_scheme \<Rightarrow> (bool \<times> ('z, 'a) tapp_scheme) res" where
  "scheduleNextConfigurationFor_tx now i a =
     (if a_connections a \<noteq> [] \<and> list_all (\<lambda>c. cn_state c = ConnectionStateEstablished) (a_connections a)
      then rbind (scheduleTransactionStart now (startTransaction a) a) (\<lambda>a1. Inr (True, a1))
      else Inr (False, a))"

text \<open>\<open>initialize\<close>: the parsed connections, all to be opened at the same time.\<close>

definition initialize_tx :: "connection list \<Rightarrow> ('z, 'a) tapp_scheme \<Rightarrow> ('z, 'a) tapp_scheme" where
  "initialize_tx parsed a =
     snd (scheduleNextConnection_tx
       (a\<lparr>a_connections := a_connections a @ map (\<lambda>c. c\<lparr>cn_connectAt := startHelloHandshake a\<rparr>) parsed\<rparr>))"

definition handleMessage_tx :: "(string \<Rightarrow> string)
    \<Rightarrow> (simtime \<Rightarrow> app_msg \<Rightarrow> ('z, 'a) tapp_scheme \<Rightarrow> ('z, 'a) tapp_scheme res)
    \<Rightarrow> simtime \<Rightarrow> app_msg \<Rightarrow> ('z, 'a) tapp_scheme \<Rightarrow> ('z, 'a) tapp_scheme res" where
  "handleMessage_tx resolve fsm now msg a =
     (if isFSMAlphabet msg then fsm now msg (out EmitNumReceived a)
      else handleMessage_base resolve scheduleNextConnection_tx (scheduleNextConfigurationFor_tx now) msg a)"

text \<open>The machine of \<open>TransactionApp\<close> itself.\<close>

definition fsm :: "simtime \<Rightarrow> app_msg \<Rightarrow> (unit, 'a) tapp_scheme \<Rightarrow> (unit, 'a) tapp_scheme res" where
  "fsm = finiteStateMachine transactionAppStateToString new_switch_state handleMessageInWaitOnChangeConfirmation"

end
