(* ===== verification/TransactionInvariant.thy ===== *)
theory TransactionInvariant
  imports TransactionApp
begin

text \<open>
  What the transaction keeps, for the base class and for every machine that overrides
  \<open>determineLockOrder\<close> and \<open>handleMessageInWaitOnChangeConfirmation\<close>: the flags of
  the switches in each state, and when a commit may have been sent. The two locales state what an
  overriding machine owes; their interpretations give the invariant for \<open>TransactionApp\<close> here
  and for \<open>TimeSynchronousTransactionApp\<close> in its own theory.
\<close>

subsection \<open>Counting switches\<close>

definition sw_all :: "('z switch_state_scheme \<Rightarrow> bool) \<Rightarrow> ('z, 'a) tapp_scheme \<Rightarrow> bool" where
  "sw_all P a \<longleftrightarrow> (\<forall>x \<in> set (switchStates a). P (snd (snd x)))"

lemma length_switches: "count k a = length (filter (\<lambda>x. isInState k (snd (snd x))) (switchStates a))"
  by (simp add: getSwitchesInState_def split_def)

lemma count_le_total: "count k a \<le> total a"
  by (simp add: length_switches)

lemma count_total: "count k a = total a \<longleftrightarrow> sw_all (isInState k) a"
  unfolding length_switches sw_all_def
  by (metis (no_types, lifting) filter_True length_filter_less order_less_irrefl)

lemma count_zero: "count k a = 0 \<longleftrightarrow> sw_all (\<lambda>s. \<not> isInState k s) a"
  by (simp add: length_switches sw_all_def filter_empty_conv)

lemma count_two:
  fixes a :: "('z, 'a) tapp_scheme"
  assumes "count k a + count l a = total a" and "\<And>s :: 'z switch_state_scheme. isInState k s \<Longrightarrow> \<not> isInState l s"
  shows "sw_all (\<lambda>s. isInState k s \<or> isInState l s) a"
proof -
  have "length (filter (\<lambda>x. isInState k (snd (snd x)) \<or> isInState l (snd (snd x))) xs)
      = length (filter (\<lambda>x. isInState k (snd (snd x))) xs) + length (filter (\<lambda>x. isInState l (snd (snd x))) xs)"
    for xs :: "(string \<times> nat \<times> 'z switch_state_scheme) list"
    by (induction xs) (use assms(2) in auto)
  then have "length (filter (\<lambda>x. isInState k (snd (snd x)) \<or> isInState l (snd (snd x))) (switchStates a)) = total a"
    using assms(1) by (simp add: length_switches)
  then show ?thesis unfolding sw_all_def by (metis (no_types, lifting) length_filter_less order_less_irrefl)
qed

lemma sw_all_mono: "sw_all P a \<Longrightarrow> (\<And>s. P s \<Longrightarrow> Q s) \<Longrightarrow> sw_all Q a"
  by (auto simp: sw_all_def)

lemma sw_all_conj: "sw_all (\<lambda>s. P s \<and> Q s) a \<longleftrightarrow> sw_all P a \<and> sw_all Q a"
  by (auto simp: sw_all_def)

subsection \<open>Frames\<close>

text \<open>The calls that carry a commit approval.\<close>

fun is_commit :: "app_effect \<Rightarrow> bool" where
  "is_commit (SendDelayed d r) = (rpc_message_id r = COMMIT_APPROVED_MSG_ID)"
| "is_commit _ = False"

definition commits_sent :: "('z, 'a) tapp_scheme \<Rightarrow> app_effect list" where
  "commits_sent a = filter is_commit (a_out a)"

lemma out_frame [simp]:
  "switchStates (out e a) = switchStates a" "transactionState (out e a) = transactionState a"
  "tx_result (out e a) = tx_result a" "a_connections (out e a) = a_connections a"
  "a_out (out e a) = a_out a @ [e]" "controllerProcessingTime (out e a) = controllerProcessingTime a"
  by (simp_all add: out_def)

lemma commits_out [simp]: "commits_sent (out e a) = commits_sent a @ (if is_commit e then [e] else [])"
  by (simp add: commits_sent_def)

lemma commits_update [simp]:
  "commits_sent (a\<lparr>tx_result := b\<rparr>) = commits_sent a"
  "commits_sent (a\<lparr>switchStates := m\<rparr>) = commits_sent a"
  "commits_sent (a\<lparr>transactionState := st\<rparr>) = commits_sent a"
  by (simp_all add: commits_sent_def)

lemma sw_all_frame [simp]:
  "sw_all P (out e a) = sw_all P a"
  "sw_all P (a\<lparr>tx_result := b\<rparr>) = sw_all P a"
  "sw_all P (a\<lparr>transactionState := st\<rparr>) = sw_all P a"
  by (simp_all add: sw_all_def)

lemma set_connection_frame [simp]:
  "switchStates (set_connection i f a) = switchStates a"
  "transactionState (set_connection i f a) = transactionState a"
  "tx_result (set_connection i f a) = tx_result a" "a_out (set_connection i f a) = a_out a"
  "controllerProcessingTime (set_connection i f a) = controllerProcessingTime a"
  by (simp_all add: set_connection_def)

lemma set_configuration_frame [simp]:
  "switchStates (set_configuration i k f a) = switchStates a"
  "transactionState (set_configuration i k f a) = transactionState a"
  "tx_result (set_configuration i k f a) = tx_result a" "a_out (set_configuration i k f a) = a_out a"
  by (simp_all add: set_configuration_def)

text \<open>\<open>same_tx\<close>: what the sending functions leave alone, and how many commits they add.\<close>

definition same_tx :: "nat \<Rightarrow> ('z, 'a) tapp_scheme \<Rightarrow> ('z, 'a) tapp_scheme \<Rightarrow> bool" where
  "same_tx n a a' \<longleftrightarrow> switchStates a' = switchStates a \<and> transactionState a' = transactionState a
     \<and> tx_result a' = tx_result a
     \<and> (\<exists>cs. commits_sent a' = commits_sent a @ cs \<and> length cs = n)"

lemma same_tx_trans: "same_tx n a b \<Longrightarrow> same_tx m b c \<Longrightarrow> same_tx (n + m) a c"
  by (fastforce simp: same_tx_def)

lemma same_tx_refl [simp]: "same_tx 0 a a"
  by (simp add: same_tx_def)

lemma same_tx_outs: "\<forall>e \<in> set es. \<not> is_commit e \<Longrightarrow> same_tx 0 a (fold out es a)"
proof (induction es arbitrary: a)
  case (Cons e es)
  then have "same_tx 0 a (out e a)" by (simp add: same_tx_def)
  moreover have "same_tx 0 (out e a) (fold out es (out e a))" using Cons by simp
  ultimately show ?case using same_tx_trans [of 0 a "out e a" 0] by simp
qed simp

lemma send_config_tx:
  "send_config i config mid a = Inr a' \<Longrightarrow> same_tx (if mid = COMMIT_APPROVED_MSG_ID then 1 else 0) a a'"
  by (auto simp: send_config_def rbind_Inr_iff same_tx_def createNetConfRPCForConfiguration_def)

lemma send_loop_tx:
  assumes "send_loop is config mid es a = Inr a'" and "\<forall>e \<in> set es. \<not> is_commit e"
  shows "same_tx (if mid = COMMIT_APPROVED_MSG_ID then length is else 0) a a'"
  using assms(1)
proof (induction "is" arbitrary: a)
  case (Cons i "is")
  then obtain a1 where a1: "send_config i config mid a = Inr a1"
    and r: "send_loop is config mid es (fold out es a1) = Inr a'" by auto
  from same_tx_trans [OF send_config_tx [OF a1] same_tx_trans [OF same_tx_outs [OF assms(2)] Cons.IH [OF r]]]
  show ?case by (simp split: if_splits)
qed simp

lemma send_to_all_tx:
  assumes "send_to_all config mid es a = Inr a'" and "\<forall>e \<in> set es. \<not> is_commit e"
  shows "same_tx (if mid = COMMIT_APPROVED_MSG_ID then total a else 0) a a'"
  using send_loop_tx [OF assms(1) [unfolded send_to_all_def] assms(2)] by (simp only: length_map)

lemma set_switch_cases:
  assumes "set_switch i f a = Inr a'"
  obtains k where "a' = a\<lparr>switchStates := smap_modify k (\<lambda>(ci, s). (ci, f s)) (switchStates a)\<rparr>"
  using assms by (auto simp: set_switch_def rbind_Inr_iff)

lemma set_switch_frame:
  assumes "set_switch i f a = Inr a'"
  shows "transactionState a' = transactionState a \<and> tx_result a' = tx_result a \<and> a_connections a' = a_connections a
    \<and> commits_sent a' = commits_sent a \<and> total a' = total a"
  using assms by (rule set_switch_cases) simp

lemma set_switch_all:
  assumes "set_switch i f a = Inr a'" and "sw_all P a" and "\<And>s. P s \<Longrightarrow> Q s" and "\<And>s. P s \<Longrightarrow> Q (f s)"
  shows "sw_all Q a'"
  using assms by (elim set_switch_cases) (fastforce simp: sw_all_def smap_modify_def)

lemma set_switch_wf: "set_switch i f a = Inr a' \<Longrightarrow> smap_wf (switchStates a) \<Longrightarrow> smap_wf (switchStates a')"
  by (erule set_switch_cases) (simp add: smap_modify_wf)

lemma transition_frame:
  assumes "transitionToState now st a = Inr a'"
  shows "transactionState a' = st \<and> switchStates a' = switchStates a \<and> commits_sent a' = commits_sent a
    \<and> (tx_result a' = (if st = EndOfTransaction then True else if st = ErrorState then False else tx_result a))"
  using assms
  by (cases st) (auto simp: transitionToState_def Let_def rbind_Inr_iff same_tx_def msg_ids
      split: option.splits dest!: send_config_tx)

subsection \<open>The invariant\<close>

text \<open>
  What holds of every switch in each state. \<open>done_ok\<close> is a switch that has committed and been
  cleaned up; in the states after the commit decision either all switches are committed or none.
\<close>

definition done_ok :: "'z switch_state_scheme \<Rightarrow> bool" where
  "done_ok s \<longleftrightarrow> hasCommited s \<and> hasConfiguration s \<and> \<not> hasError s \<and> \<not> hasCandidate s \<and> \<not> hasLockedCandidate s"

definition switch_inv :: "tx_state \<Rightarrow> 'z switch_state_scheme \<Rightarrow> bool" where
  "switch_inv st s =
     (case st of
        BeginOfTransaction \<Rightarrow> False
      | WaitOnLockResponse \<Rightarrow> \<not> hasCandidate s \<and> \<not> hasLockedCandidate s \<and> \<not> hasConfiguration s
          \<and> \<not> hasCommited s \<and> \<not> hasError s
      | WaitOnCandidateConfirmation \<Rightarrow> hasLockedRunning s \<and> \<not> hasLockedCandidate s \<and> \<not> hasConfiguration s \<and> \<not> hasCommited s
      | WaitOnCandidateLockResponse \<Rightarrow> hasLockedRunning s \<and> hasCandidate s \<and> \<not> hasConfiguration s
          \<and> \<not> hasCommited s \<and> \<not> hasError s
      | WaitOnChangeConfirmation \<Rightarrow> hasLockedRunning s \<and> hasCandidate s \<and> hasLockedCandidate s \<and> \<not> hasCommited s
      | WaitOnTimestampConfirmation \<Rightarrow> hasLockedRunning s \<and> hasCandidate s \<and> hasLockedCandidate s
          \<and> hasConfiguration s \<and> \<not> hasCommited s
      | WaitOnCommitExecution \<Rightarrow> hasLockedRunning s \<and> hasCandidate s \<and> hasLockedCandidate s
          \<and> hasConfiguration s \<and> \<not> hasError s
      | WaitOnDeleteOldConfiguration \<Rightarrow> hasLockedRunning s \<and> hasConfiguration s \<and> hasCommited s \<and> \<not> hasError s
          \<and> hasCandidate s = hasLockedCandidate s
      | ErrorState \<Rightarrow> hasLockedRunning s \<and> \<not> hasCommited s
      | WaitOnDeleteCandidate \<Rightarrow> hasLockedRunning s \<and> \<not> hasCommited s
      | WaitOnUnlock \<Rightarrow> True
      | EndOfTransaction \<Rightarrow> \<not> hasLockedRunning s)"

definition committing :: "tx_state \<Rightarrow> bool" where
  "committing st \<longleftrightarrow> st = WaitOnCommitExecution \<or> st = WaitOnDeleteOldConfiguration"

definition final :: "tx_state \<Rightarrow> bool" where
  "final st \<longleftrightarrow> st = WaitOnUnlock \<or> st = EndOfTransaction"

definition tx_inv :: "('z, 'a) tapp_scheme \<Rightarrow> bool" where
  "tx_inv a \<longleftrightarrow>
     sw_all (switch_inv (transactionState a)) a
     \<and> (committing (transactionState a) \<longrightarrow> length (commits_sent a) = total a)
     \<and> (final (transactionState a) \<longrightarrow>
          sw_all done_ok a \<and> length (commits_sent a) = total a \<or> sw_all (\<lambda>s. \<not> hasCommited s) a \<and> commits_sent a = [])
     \<and> (\<not> committing (transactionState a) \<and> \<not> final (transactionState a) \<longrightarrow> commits_sent a = [])
     \<and> (transactionState a = EndOfTransaction \<longrightarrow> tx_result a)"

lemmas inv_defs = tx_inv_def committing_def final_def

text \<open>Entering a state that is neither committing nor final, one that commits, and a final one.\<close>

lemma tx_inv_enter:
  assumes "transitionToState now st a = Inr a'" and "sw_all (switch_inv st) a" and "commits_sent a = []"
    and "\<not> committing st" and "\<not> final st"
  shows "tx_inv a'"
  using transition_frame [OF assms(1)] assms(2-) by (auto simp: inv_defs sw_all_def)

lemma tx_inv_enter_commit:
  assumes "transitionToState now st a = Inr a'" and "sw_all (switch_inv st) a" and "length (commits_sent a) = total a"
    and "committing st"
  shows "tx_inv a'"
  using transition_frame [OF assms(1)] assms(2-) by (auto simp: inv_defs sw_all_def)

lemma tx_inv_enter_final:
  assumes "transitionToState now st a = Inr a'" and "sw_all (switch_inv st) a"
    and "sw_all done_ok a \<and> length (commits_sent a) = total a \<or> sw_all (\<lambda>s. \<not> hasCommited s) a \<and> commits_sent a = []"
    and "final st"
  shows "tx_inv a'"
  using transition_frame [OF assms(1)] assms(2-) by (auto simp: inv_defs sw_all_def)

lemma handled_Inr: "handled r = Inr (b, a') \<longleftrightarrow> b \<and> r = Inr a'"
  by (auto simp: handled_def rbind_Inr_iff)

lemma same_tx_sw_all: "same_tx n a a' \<Longrightarrow> sw_all P a' = sw_all P a"
  by (simp add: same_tx_def sw_all_def)

lemma same_tx_none: "same_tx 0 a a' \<Longrightarrow> commits_sent a' = commits_sent a"
  by (auto simp: same_tx_def)

lemma same_tx_count: "same_tx n a a' \<Longrightarrow> length (commits_sent a') = length (commits_sent a) + n \<and> total a' = total a"
  by (auto simp: same_tx_def)

lemma send_to_all_quiet:
  assumes "send_to_all config mid es a = Inr a'" and "\<forall>e \<in> set es. \<not> is_commit e" and "mid \<noteq> COMMIT_APPROVED_MSG_ID"
  shows "same_tx 0 a a'"
  using send_to_all_tx [OF assms(1,2)] assms(3) by simp

lemma send_loop_quiet:
  assumes "send_loop is config mid es a = Inr a'" and "\<forall>e \<in> set es. \<not> is_commit e" and "mid \<noteq> COMMIT_APPROVED_MSG_ID"
  shows "same_tx 0 a a'"
  using send_loop_tx [OF assms(1,2)] assms(3) by simp

lemma determine_loop_inv:
  "\<forall>x \<in> set m. P (snd (snd x)) \<Longrightarrow> P new \<Longrightarrow> \<forall>x \<in> set (determine_loop new i cs m). P (snd (snd x))"
proof (induction cs arbitrary: i m)
  case (Cons c cs)
  have put: "\<forall>x \<in> set (smap_put k (j, new) m). P (snd (snd x))" for k j
    using smap_all_put [of "\<lambda>k v. P (snd v)" m k "(j, new)"] Cons.prems by (simp add: smap_all_def split_def)
  show ?case using Cons.IH [OF put Cons.prems(2)] by (auto split: option.split)
qed simp

lemma all_switch_inv_locked:
  "count SwitchLocked a = total a \<Longrightarrow> sw_all (switch_inv WaitOnLockResponse) a \<Longrightarrow> sw_all (switch_inv WaitOnCandidateConfirmation) a"
  by (auto simp: count_total sw_all_def switch_inv_def isInState_def)

subsection \<open>Every handler keeps it\<close>

text \<open>
  Each handler in two steps: which successor it takes and with which switches, then one of the
  three entering lemmas.
\<close>

lemma begin_inv:
  assumes "handleMessageInBeginOfTransaction now new msg a = Inr (b, a')" and "b"
    and "transactionState a = BeginOfTransaction" and "tx_inv a" and "switch_inv WaitOnLockResponse new"
  shows "tx_inv a'"
proof -
  have nil: "switchStates a = []" using assms(3,4)
    by (cases "switchStates a") (auto simp: tx_inv_def sw_all_def switch_inv_def)
  let ?a1 = "determineLockOrder new (out (EmitPhase PHASE_LOCK) (out EmitDuration a))"
  have t: "transitionToState now WaitOnLockResponse ?a1 = Inr a'"
    using assms(1,2) by (auto simp: handleMessageInBeginOfTransaction_def handled_Inr unhandled_def split: app_msg.splits)
  have "sw_all (switch_inv WaitOnLockResponse) ?a1"
    using determine_loop_inv [of "[]" "switch_inv WaitOnLockResponse" new] nil assms(5)
    by (simp add: determineLockOrder_def sw_all_def)
  moreover have "commits_sent ?a1 = []"
    using assms(3,4) by (simp add: determineLockOrder_def inv_defs)
  ultimately show ?thesis
    using tx_inv_enter [OF t] by (simp add: inv_defs)
qed

lemma lock_inv:
  assumes h: "handleMessageInWaitOnLockResponse now msg a = Inr (b, a')" and b: "b"
    and st: "transactionState a = WaitOnLockResponse" and inv: "tx_inv a"
  shows "tx_inv a'"
proof -
  from h b obtain reply where msg: "msg = MsgReply reply"
    by (auto simp: handleMessageInWaitOnLockResponse_def unhandled_def split: app_msg.splits)
  have sw: "sw_all (switch_inv WaitOnLockResponse) a" and nc: "commits_sent a = []"
    using inv st by (auto simp: inv_defs)
  show ?thesis
  proof (cases "rp_element reply")
    case ReplyOk
    with h b msg obtain con a1 where a1: "set_switch con (\<lambda>s. s\<lparr>hasLockedRunning := True\<rparr>) a = Inr a1"
      and r: "transitionToState now WaitOnLockResponse a1 = Inr a'
        \<or> count SwitchLocked a1 = total a1 \<and> (\<exists>a2. send_to_all (copy_config ''running'' ''candidate'') COPY_CONFIG_MSG_ID []
             (out (EmitPhase PHASE_CHANGE) a1) = Inr a2 \<and> transitionToState now WaitOnCandidateConfirmation a2 = Inr a')"
      by (auto simp: handleMessageInWaitOnLockResponse_def rbind_Inr_iff handled_Inr unhandled_def split: if_splits)
    have sw1: "sw_all (switch_inv WaitOnLockResponse) a1"
      by (rule set_switch_all [OF a1 sw]) (simp_all add: switch_inv_def)
    have nc1: "commits_sent a1 = []" using set_switch_frame [OF a1] nc by simp
    from r show ?thesis
    proof (elim disjE conjE exE)
      assume "transitionToState now WaitOnLockResponse a1 = Inr a'"
      from tx_inv_enter [OF this sw1 nc1] show ?thesis by (simp add: inv_defs)
    next
      fix a2
      assume c: "count SwitchLocked a1 = total a1"
        and s: "send_to_all (copy_config ''running'' ''candidate'') COPY_CONFIG_MSG_ID [] (out (EmitPhase PHASE_CHANGE) a1) = Inr a2"
        and t: "transitionToState now WaitOnCandidateConfirmation a2 = Inr a'"
      have q: "same_tx 0 (out (EmitPhase PHASE_CHANGE) a1) a2" by (rule send_to_all_quiet [OF s]) (simp_all add: msg_ids)
      from tx_inv_enter [OF t] all_switch_inv_locked [OF c sw1] same_tx_sw_all [OF q] same_tx_none [OF q] nc1
      show ?thesis by (simp add: inv_defs)
    qed
  next
    case (ReplyError et tag)
    have nocom: "sw_all (\<lambda>s. \<not> hasCommited s) a" by (rule sw_all_mono [OF sw]) (simp add: switch_inv_def)
    from ReplyError h b msg consider
      (none) "count SwitchLocked a = 0" "transitionToState now EndOfTransaction (out (EmitResult False) (a\<lparr>tx_result := False\<rparr>)) = Inr a'"
    | (some) con c a1 a2 where
        "send_loop c (unlock_config ''running'') UNLOCK_MSG_ID [] a = Inr a1"
        "set_switch con (\<lambda>s. s\<lparr>hasLockedRunning := False\<rparr>) a1 = Inr a2"
        "transitionToState now WaitOnUnlock (out (EmitResult False) (a2\<lparr>tx_result := False\<rparr>)) = Inr a'"
      by (auto simp: handleMessageInWaitOnLockResponse_def rbind_Inr_iff handled_Inr split: if_splits)
    then show ?thesis
    proof cases
      case none
      have "sw_all (switch_inv EndOfTransaction) a"
        using sw none(1) [unfolded count_zero] by (auto simp: sw_all_def switch_inv_def isInState_def)
      with tx_inv_enter_final [OF none(2)] nocom nc show ?thesis by (simp add: final_def)
    next
      case some
      have q: "same_tx 0 a a1" by (rule send_loop_quiet [OF some(1)]) (simp_all add: msg_ids)
      have "sw_all (\<lambda>s. \<not> hasCommited s) a1" using nocom same_tx_sw_all [OF q] by simp
      then have "sw_all (\<lambda>s. \<not> hasCommited s) a2" by (rule set_switch_all [OF some(2)]) simp_all
      moreover have "commits_sent a2 = []" using set_switch_frame [OF some(2)] same_tx_none [OF q] nc by simp
      ultimately show ?thesis
        using tx_inv_enter_final [OF some(3)] by (simp add: final_def sw_all_def switch_inv_def)
    qed
  qed (use h b msg in \<open>auto simp: handleMessageInWaitOnLockResponse_def unhandled_def\<close>)
qed

lemma error_excl:
  "isInState SwitchWithCandidate s \<Longrightarrow> \<not> isInState SwitchError s"
  "isInState SwitchWithChangedCandidateConfiguration s \<Longrightarrow> \<not> isInState SwitchError s"
  by (simp_all add: isInState_def)

lemma candidate_inv:
  assumes h: "handleMessageInWaitOnCandidateConfirmation now msg a = Inr (b, a')" and b: "b"
    and st: "transactionState a = WaitOnCandidateConfirmation" and inv: "tx_inv a"
  shows "tx_inv a'"
proof -
  let ?send = "\<lambda>c m es a1 a2. send_to_all c m es a1 = Inr a2"
  from h b obtain reply where msg: "msg = MsgReply reply"
    by (auto simp: handleMessageInWaitOnCandidateConfirmation_def unhandled_def split: app_msg.splits)
  have sw: "sw_all (switch_inv WaitOnCandidateConfirmation) a" and nc: "commits_sent a = []"
    using inv st by (auto simp: inv_defs)
  have step: "sw_all (switch_inv WaitOnCandidateConfirmation) a1 \<and> sw_all (switch_inv ErrorState) a1
      \<and> sw_all (\<lambda>s. \<not> hasCommited s) a1 \<and> commits_sent a1 = []"
    if "set_switch con f a = Inr a1" and "\<And>s. switch_inv WaitOnCandidateConfirmation s \<Longrightarrow> switch_inv WaitOnCandidateConfirmation (f s)" for con f a1
  proof -
    have "sw_all (switch_inv WaitOnCandidateConfirmation) a1" by (rule set_switch_all [OF that(1) sw]) (use that(2) in simp_all)
    then show ?thesis using set_switch_frame [OF that(1)] nc by (simp add: sw_all_def switch_inv_def)
  qed
  from h b msg consider
    (err) con f a1 where "set_switch con f a = Inr a1"
      "\<And>s. switch_inv WaitOnCandidateConfirmation s \<Longrightarrow> switch_inv WaitOnCandidateConfirmation (f s)"
      "transitionToState now ErrorState a1 = Inr a' \<or> transitionToState now WaitOnCandidateConfirmation a1 = Inr a'"
  | (all) con f a1 a2 where "set_switch con f a = Inr a1"
      "\<And>s. switch_inv WaitOnCandidateConfirmation s \<Longrightarrow> switch_inv WaitOnCandidateConfirmation (f s)"
      "count SwitchWithCandidate a1 = total a1"
      "?send (lock_config ''candidate'') LOCK_CANDIDATE_MSG_ID [EmitNumSent] a1 a2"
      "transitionToState now WaitOnCandidateLockResponse a2 = Inr a'"
  | (unlock) con f a1 a2 where "set_switch con f a = Inr a1"
      "\<And>s. switch_inv WaitOnCandidateConfirmation s \<Longrightarrow> switch_inv WaitOnCandidateConfirmation (f s)"
      "?send (unlock_config ''running'') UNLOCK_MSG_ID [] a1 a2" "transitionToState now WaitOnUnlock a2 = Inr a'"
    by (auto simp: handleMessageInWaitOnCandidateConfirmation_def rbind_Inr_iff handled_Inr unhandled_def switch_inv_def
        split: reply_element.splits if_splits)
  then show ?thesis
  proof cases
    case err
    from step [OF err(1,2)] err(3) tx_inv_enter [of now ErrorState a1 a'] tx_inv_enter [of now WaitOnCandidateConfirmation a1 a']
    show ?thesis by (elim disjE) (simp_all add: committing_def final_def)
  next
    case all
    have q: "same_tx 0 a1 a2" by (rule send_to_all_quiet [OF all(4)]) (simp_all add: msg_ids)
    have "sw_all (switch_inv WaitOnCandidateLockResponse) a1"
      using all(3) [unfolded count_total] by (auto simp: sw_all_def switch_inv_def isInState_def)
    with step [OF all(1,2)] tx_inv_enter [OF all(5)] same_tx_sw_all [OF q] same_tx_none [OF q]
    show ?thesis by (simp add: inv_defs)
  next
    case unlock
    have q: "same_tx 0 a1 a2" by (rule send_to_all_quiet [OF unlock(3)]) (simp_all add: msg_ids)
    have "sw_all (\<lambda>s. \<not> hasCommited s) a2" and "commits_sent a2 = []"
      using step [OF unlock(1,2)] same_tx_sw_all [OF q, of "\<lambda>s. \<not> hasCommited s"] same_tx_none [OF q] by simp_all
    moreover have "sw_all (switch_inv WaitOnUnlock) a2" by (simp add: sw_all_def switch_inv_def)
    ultimately show ?thesis using tx_inv_enter_final [OF unlock(4)] by (simp add: final_def)
  qed
qed

lemma first_changes_tx: "first_changes is a = Inr a' \<Longrightarrow> same_tx 0 a a'"
proof (induction "is" arbitrary: a)
  case (Cons i "is")
  have id: "to_string k \<noteq> COMMIT_APPROVED_MSG_ID" for k
    using atoi_to_string [of k] to_string_digits [of k] by (auto simp: msg_ids is_digit_def)
  from Cons.prems obtain cf where "get_configuration i 0 a = Inr cf"
    and r: "(if cf_state cf = ConfigurationStateWaiting then
         (let a1 = set_configuration i 0 (\<lambda>c. c\<lparr>cf_target := ''candidate''\<rparr>) a in
          rbind (send_config i (cf\<lparr>cf_target := ''candidate''\<rparr>) (to_string (CHANGE_MSG_ID + 0)) a1) (\<lambda>a2.
            first_changes is (set_configuration i 0 (\<lambda>c. c\<lparr>cf_state := ConfigurationStateRequested\<rparr>) a2)))
       else first_changes is a) = Inr a'" by (auto simp: rbind_Inr_iff)
  show ?case
  proof (cases "cf_state cf = ConfigurationStateWaiting")
    case True
    with r obtain a2 where s: "send_config i (cf\<lparr>cf_target := ''candidate''\<rparr>) (to_string (CHANGE_MSG_ID + 0))
        (set_configuration i 0 (\<lambda>c. c\<lparr>cf_target := ''candidate''\<rparr>) a) = Inr a2"
      and n: "first_changes is (set_configuration i 0 (\<lambda>c. c\<lparr>cf_state := ConfigurationStateRequested\<rparr>) a2) = Inr a'"
      by (auto simp: Let_def rbind_Inr_iff)
    have "same_tx 0 a a2" using send_config_tx [OF s] id by (simp add: same_tx_def commits_sent_def)
    with Cons.IH [OF n] show ?thesis by (simp add: same_tx_def commits_sent_def)
  next
    case False
    with r Cons.IH show ?thesis by simp
  qed
qed simp

lemma candidate_lock_inv:
  assumes h: "handleMessageInWaitOnCandidateLockResponse now msg a = Inr (b, a')" and b: "b"
    and st: "transactionState a = WaitOnCandidateLockResponse" and inv: "tx_inv a"
  shows "tx_inv a'"
proof -
  have sw: "sw_all (switch_inv WaitOnCandidateLockResponse) a" and nc: "commits_sent a = []"
    using inv st by (auto simp: inv_defs)
  from h b obtain con a1 where a1: "set_switch con (\<lambda>s. s\<lparr>hasLockedCandidate := True\<rparr>) a = Inr a1"
    and r: "transitionToState now WaitOnCandidateLockResponse a1 = Inr a' \<or> count SwitchWithLockedCandidate a1 = total a1
        \<and> (\<exists>a2. first_changes (map (\<lambda>(addr, ci, s). ci) (switchStates a1)) a1 = Inr a2
             \<and> transitionToState now WaitOnChangeConfirmation a2 = Inr a')"
    by (auto simp: handleMessageInWaitOnCandidateLockResponse_def rbind_Inr_iff handled_Inr unhandled_def
        split: app_msg.splits reply_element.splits if_splits)
  have sw1: "sw_all (switch_inv WaitOnCandidateLockResponse) a1"
    by (rule set_switch_all [OF a1 sw]) (simp_all add: switch_inv_def)
  have nc1: "commits_sent a1 = []" using set_switch_frame [OF a1] nc by simp
  from r show ?thesis
  proof (elim disjE conjE exE)
    assume "transitionToState now WaitOnCandidateLockResponse a1 = Inr a'"
    from tx_inv_enter [OF this sw1 nc1] show ?thesis by (simp add: inv_defs)
  next
    fix a2
    assume c: "count SwitchWithLockedCandidate a1 = total a1"
      and f: "first_changes (map (\<lambda>(addr, ci, s). ci) (switchStates a1)) a1 = Inr a2"
      and t: "transitionToState now WaitOnChangeConfirmation a2 = Inr a'"
    have "sw_all (switch_inv WaitOnChangeConfirmation) a1"
      using c [unfolded count_total] by (auto simp: sw_all_def switch_inv_def isInState_def)
    with tx_inv_enter [OF t] first_changes_tx [OF f] nc1 show ?thesis
      by (simp add: inv_defs same_tx_sw_all same_tx_none)
  qed
qed

lemma next_change_tx:
  assumes "next_change con a = Inr a'"
  shows "same_tx 0 a a' \<or> set_switch con (\<lambda>s. s\<lparr>hasConfiguration := True\<rparr>) a = Inr a'"
proof -
  from assms obtain c where c: "get_connection con a = Inr c" by (auto simp: next_change_def rbind_Inr_iff)
  have id: "to_string k \<noteq> COMMIT_APPROVED_MSG_ID" for k
    using to_string_digits [of k] by (auto simp: msg_ids is_digit_def)
  show ?thesis
  proof (cases "find_idx (\<lambda>cf. cf_state cf = ConfigurationStateWaiting) (cn_configurations c)")
    case None
    with assms c show ?thesis by (simp add: next_change_def)
  next
    case (Some k)
    with assms c obtain cf a1 a0 where s: "send_config con cf (to_string (CHANGE_MSG_ID + k)) a0 = Inr a1"
      and a0: "a0 = set_configuration con k (\<lambda>cf. cf\<lparr>cf_type := MT_EditConfig, cf_target := ''candidate''\<rparr>) a"
      and a': "a' = set_configuration con k (\<lambda>cf. cf\<lparr>cf_state := ConfigurationStateRequested\<rparr>) (out EmitNumSent a1)"
      by (auto simp: next_change_def Let_def rbind_Inr_iff)
    have "same_tx 0 a a'" using send_config_tx [OF s] id by (simp add: same_tx_def commits_sent_def a0 a')
    then show ?thesis ..
  qed
qed

lemma change_inv_same:
  "same_tx 0 a a' \<Longrightarrow> sw_all (switch_inv WaitOnChangeConfirmation) a \<and> commits_sent a = []
     \<Longrightarrow> sw_all (switch_inv WaitOnChangeConfirmation) a' \<and> commits_sent a' = []"
  by (simp add: same_tx_sw_all same_tx_none)

lemma change_inv_set:
  assumes "set_switch con f a = Inr a'" and "sw_all (switch_inv WaitOnChangeConfirmation) a \<and> commits_sent a = []"
    and "\<And>s. switch_inv WaitOnChangeConfirmation s \<Longrightarrow> switch_inv WaitOnChangeConfirmation (f s)"
  shows "sw_all (switch_inv WaitOnChangeConfirmation) a' \<and> commits_sent a' = []"
  using set_switch_all [OF assms(1) conjunct1 [OF assms(2)], where Q = "switch_inv WaitOnChangeConfirmation"]
    set_switch_frame [OF assms(1)] assms(2,3) by simp

lemma handle_change_cases:
  assumes h: "handle_change all_changed now (MsgReply reply) a = Inr (b, a')" and b: "b"
  obtains (failing) con a2 where "set_switch con (\<lambda>s. s\<lparr>hasConfiguration := True\<rparr>)
        (set_configuration con (nat (atoi (rp_message_id reply) - int CHANGE_MSG_ID))
           (\<lambda>c. c\<lparr>cf_state := ConfigurationStateSuccess\<rparr>) a) = Inr a2"
      "transitionToState now ErrorState a2 = Inr a' \<or> transitionToState now WaitOnChangeConfirmation a2 = Inr a'"
  | (more) con a2 where "next_change con
        (set_configuration con (nat (atoi (rp_message_id reply) - int CHANGE_MSG_ID))
           (\<lambda>c. c\<lparr>cf_state := ConfigurationStateSuccess\<rparr>) a) = Inr a2"
      "all_changed a2 = Inr (True, a') \<and> count SwitchWithChangedCandidateConfiguration a2 = total a2
       \<or> transitionToState now WaitOnChangeConfirmation a2 = Inr a'"
  | (error) con a2 where "set_switch con (\<lambda>s. s\<lparr>hasError := True\<rparr>)
        (set_configuration con (nat (atoi (rp_message_id reply) - int CHANGE_MSG_ID))
           (\<lambda>c. c\<lparr>cf_state := ConfigurationStateError\<rparr>) a) = Inr a2"
      "transitionToState now ErrorState a2 = Inr a' \<or> transitionToState now WaitOnChangeConfirmation a2 = Inr a'"
proof -
  from h obtain con cf where cf: "get_configuration con (atoi (rp_message_id reply) - int CHANGE_MSG_ID) a = Inr cf"
    and con: "findConnectionForReply reply a = Inr con" and rq: "cf_state cf = ConfigurationStateRequested"
    by (auto simp: handle_change_def Let_def rbind_Inr_iff split: if_splits)
  show ?thesis
  proof (cases "rp_element reply")
    case ReplyOk
    show ?thesis
    proof (cases "count SwitchError (set_configuration con (nat (atoi (rp_message_id reply) - int CHANGE_MSG_ID))
           (\<lambda>c. c\<lparr>cf_state := ConfigurationStateSuccess\<rparr>) a) > 0")
      case True
      with h cf con rq ReplyOk obtain a2 where f: "set_switch con (\<lambda>s. s\<lparr>hasConfiguration := True\<rparr>)
        (set_configuration con (nat (atoi (rp_message_id reply) - int CHANGE_MSG_ID))
           (\<lambda>c. c\<lparr>cf_state := ConfigurationStateSuccess\<rparr>) a) = Inr a2"
        and r: "(if count SwitchError a2 + count SwitchWithChangedCandidateConfiguration a2 = total a2
                 then handled (transitionToState now ErrorState a2)
                 else handled (transitionToState now WaitOnChangeConfirmation a2)) = Inr (b, a')"
        by (auto simp: handle_change_def Let_def rbind_Inr_iff)
      from r b show ?thesis by (intro failing [OF f]) (auto simp: handled_Inr split: if_splits)
    next
      case False
      with h b cf con rq ReplyOk obtain a2 where n: "next_change con
        (set_configuration con (nat (atoi (rp_message_id reply) - int CHANGE_MSG_ID))
           (\<lambda>c. c\<lparr>cf_state := ConfigurationStateSuccess\<rparr>) a) = Inr a2"
        and r: "(if count SwitchWithChangedCandidateConfiguration a2 = total a2 \<and> count SwitchError a2 = 0
                 then all_changed a2 else handled (transitionToState now WaitOnChangeConfirmation a2)) = Inr (b, a')"
        by (auto simp: handle_change_def Let_def rbind_Inr_iff)
      from r b show ?thesis by (intro more [OF n]) (auto simp: handled_Inr split: if_splits)
    qed
  next
    case (ReplyError et tag)
    with h cf con rq obtain a2 where s: "set_switch con (\<lambda>s. s\<lparr>hasError := True\<rparr>)
        (set_configuration con (nat (atoi (rp_message_id reply) - int CHANGE_MSG_ID))
           (\<lambda>c. c\<lparr>cf_state := ConfigurationStateError\<rparr>) a) = Inr a2"
      and r: "(if count SwitchWithChangedCandidateConfiguration a2 + count SwitchError a2 < total a2
               then handled (transitionToState now WaitOnChangeConfirmation a2)
               else if count SwitchWithChangedCandidateConfiguration a2 + count SwitchError a2 = total a2
               then handled (transitionToState now ErrorState a2) else unhandled a2) = Inr (b, a')"
      by (auto simp: handle_change_def Let_def rbind_Inr_iff)
    from r b show ?thesis by (intro error [OF s]) (auto simp: handled_Inr unhandled_def split: if_splits)
  qed (use h b cf con rq in \<open>auto simp: handle_change_def Let_def unhandled_def\<close>)
qed

text \<open>
  The answer to a change, for any continuation that keeps the invariant from a state in which every
  switch holds its changed candidate.
\<close>

lemma handle_change_inv:
  assumes h: "handle_change all_changed now msg a = Inr (b, a')" and b: "b"
    and st: "transactionState a = WaitOnChangeConfirmation" and inv: "tx_inv a"
    and all: "\<And>a2. all_changed a2 = Inr (True, a') \<Longrightarrow> sw_all (isInState SwitchWithChangedCandidateConfiguration) a2
      \<Longrightarrow> commits_sent a2 = [] \<Longrightarrow> tx_inv a'"
  shows "tx_inv a'"
proof -
  let ?I = "\<lambda>a. sw_all (switch_inv WaitOnChangeConfirmation) a \<and> commits_sent a = []"
  have I: "?I a" using inv st by (auto simp: inv_defs)
  have enter: "tx_inv a'" if "?I a2"
    "transitionToState now ErrorState a2 = Inr a' \<or> transitionToState now WaitOnChangeConfirmation a2 = Inr a'" for a2
  proof -
    have "sw_all (switch_inv ErrorState) a2" using that(1) by (auto simp: sw_all_def switch_inv_def)
    with that tx_inv_enter [of now ErrorState a2 a'] tx_inv_enter [of now WaitOnChangeConfirmation a2 a'] show ?thesis
      by (elim disjE) (simp_all add: committing_def final_def)
  qed
  from h b obtain reply where msg: "msg = MsgReply reply"
    by (auto simp: handle_change_def unhandled_def split: app_msg.splits)
  let ?idx = "nat (atoi (rp_message_id reply) - int CHANGE_MSG_ID)"
  from h [unfolded msg] b show ?thesis
  proof (cases rule: handle_change_cases)
    case (failing con a2)
    from failing(1) have "?I a2"
      by (rule change_inv_set) (use I in \<open>auto simp: sw_all_def commits_sent_def switch_inv_def\<close>)
    from enter [OF this failing(2)] show ?thesis .
  next
    case (error con a2)
    from error(1) have "?I a2"
      by (rule change_inv_set) (use I in \<open>auto simp: sw_all_def commits_sent_def switch_inv_def\<close>)
    from enter [OF this error(2)] show ?thesis .
  next
    case (more con a2)
    let ?a1 = "set_configuration con ?idx (\<lambda>c. c\<lparr>cf_state := ConfigurationStateSuccess\<rparr>) a"
    have I1: "?I ?a1" using I by (simp add: sw_all_def commits_sent_def)
    have I2: "?I a2" using next_change_tx [OF more(1)]
    proof
      assume "same_tx 0 ?a1 a2"
      from change_inv_same [OF this I1] show ?thesis .
    next
      assume "set_switch con (\<lambda>s. s\<lparr>hasConfiguration := True\<rparr>) ?a1 = Inr a2"
      from change_inv_set [OF this I1] show ?thesis by (simp add: switch_inv_def)
    qed
    from more(2) show ?thesis
      using all [of a2] enter [OF I2] I2 by (auto simp: count_total)
  qed
qed

lemma commit_all_inv:
  assumes "commit_all now a = Inr (True, a')" and "sw_all (isInState SwitchWithChangedCandidateConfiguration) a"
    and "commits_sent a = []"
  shows "tx_inv a'"
proof -
  from assms(1) obtain a1 where s: "send_to_all commit_config COMMIT_APPROVED_MSG_ID [EmitPhase PHASE_CONFIRMATION] a = Inr a1"
    and t: "transitionToState now WaitOnCommitExecution a1 = Inr a'"
    by (auto simp: commit_all_def rbind_Inr_iff handled_Inr)
  have q: "same_tx (total a) a a1" using send_to_all_tx [OF s] by simp
  have "sw_all (switch_inv WaitOnCommitExecution) a" using assms(2) by (auto simp: sw_all_def switch_inv_def isInState_def)
  with tx_inv_enter_commit [OF t] same_tx_sw_all [OF q] same_tx_count [OF q] assms(3)
  show ?thesis by (simp add: committing_def)
qed

lemma change_inv:
  assumes "handleMessageInWaitOnChangeConfirmation now msg a = Inr (b, a')" and "b"
    and "transactionState a = WaitOnChangeConfirmation" and "tx_inv a"
  shows "tx_inv a'"
  using handle_change_inv [OF assms(1) [unfolded handleMessageInWaitOnChangeConfirmation_def] assms(2-4)] commit_all_inv
  by blast

lemma commit_inv:
  assumes h: "handleMessageInWaitOnCommitExecution now msg a = Inr (b, a')" and b: "b"
    and st: "transactionState a = WaitOnCommitExecution" and inv: "tx_inv a"
  shows "tx_inv a'"
proof -
  have sw: "sw_all (switch_inv WaitOnCommitExecution) a" and nc: "length (commits_sent a) = total a"
    using inv st by (auto simp: inv_defs)
  from h b obtain con a1 where a1: "set_switch con (\<lambda>s. s\<lparr>hasCommited := True\<rparr>) a = Inr a1"
    and r: "transitionToState now WaitOnCommitExecution a1 = Inr a' \<or> total a1 = count SwitchCommited a1
        \<and> (\<exists>a2. send_to_all (delete_config ''candidate'') DELETE_OLD_CONFIG_MSG_ID [EmitNumSent] (out (EmitPhase PHASE_UNLOCK) a1) = Inr a2
             \<and> transitionToState now WaitOnDeleteOldConfiguration a2 = Inr a')"
    by (auto simp: handleMessageInWaitOnCommitExecution_def rbind_Inr_iff handled_Inr unhandled_def
        split: app_msg.splits reply_element.splits if_splits)
  have sw1: "sw_all (switch_inv WaitOnCommitExecution) a1"
    by (rule set_switch_all [OF a1 sw]) (simp_all add: switch_inv_def)
  have nc1: "length (commits_sent a1) = total a1" using set_switch_frame [OF a1] nc by simp
  from r show ?thesis
  proof (elim disjE conjE exE)
    assume "transitionToState now WaitOnCommitExecution a1 = Inr a'"
    from tx_inv_enter_commit [OF this sw1 nc1] show ?thesis by (simp add: committing_def)
  next
    fix a2
    assume c: "total a1 = count SwitchCommited a1"
      and f: "send_to_all (delete_config ''candidate'') DELETE_OLD_CONFIG_MSG_ID [EmitNumSent] (out (EmitPhase PHASE_UNLOCK) a1) = Inr a2"
      and t: "transitionToState now WaitOnDeleteOldConfiguration a2 = Inr a'"
    have q: "same_tx 0 (out (EmitPhase PHASE_UNLOCK) a1) a2" by (rule send_to_all_quiet [OF f]) (simp_all add: msg_ids)
    have "sw_all (switch_inv WaitOnDeleteOldConfiguration) a1"
      using c [symmetric, unfolded count_total] by (auto simp: sw_all_def switch_inv_def isInState_def)
    with tx_inv_enter_commit [OF t] same_tx_sw_all [OF q] same_tx_count [OF q] nc1
    show ?thesis by (simp add: committing_def)
  qed
qed

lemma delete_old_inv:
  assumes h: "handleMessageInWaitOnDeleteOldConfiguration now msg a = Inr (b, a')" and b: "b"
    and st: "transactionState a = WaitOnDeleteOldConfiguration" and inv: "tx_inv a"
  shows "tx_inv a'"
proof -
  have sw: "sw_all (switch_inv WaitOnDeleteOldConfiguration) a" and nc: "length (commits_sent a) = total a"
    using inv st by (auto simp: inv_defs)
  from h b obtain con a1 where a1: "set_switch con (\<lambda>s. s\<lparr>hasCandidate := False, hasLockedCandidate := False\<rparr>) a = Inr a1"
    and r: "transitionToState now WaitOnDeleteOldConfiguration a1 = Inr a' \<or> count SwitchWithoutOldConfig a1 = total a1
        \<and> (\<exists>a2. send_to_all (unlock_config ''running'') UNLOCK_MSG_ID [EmitNumSent] a1 = Inr a2
             \<and> transitionToState now WaitOnUnlock a2 = Inr a')"
    by (auto simp: handleMessageInWaitOnDeleteOldConfiguration_def rbind_Inr_iff handled_Inr unhandled_def
        split: app_msg.splits reply_element.splits if_splits)
  have sw1: "sw_all (switch_inv WaitOnDeleteOldConfiguration) a1"
    by (rule set_switch_all [OF a1 sw]) (simp_all add: switch_inv_def)
  have nc1: "length (commits_sent a1) = total a1" using set_switch_frame [OF a1] nc by simp
  from r show ?thesis
  proof (elim disjE conjE exE)
    assume "transitionToState now WaitOnDeleteOldConfiguration a1 = Inr a'"
    from tx_inv_enter_commit [OF this sw1 nc1] show ?thesis by (simp add: committing_def)
  next
    fix a2
    assume c: "count SwitchWithoutOldConfig a1 = total a1"
      and f: "send_to_all (unlock_config ''running'') UNLOCK_MSG_ID [EmitNumSent] a1 = Inr a2"
      and t: "transitionToState now WaitOnUnlock a2 = Inr a'"
    have q: "same_tx 0 a1 a2" by (rule send_to_all_quiet [OF f]) (simp_all add: msg_ids)
    have "sw_all done_ok a1"
      using c [unfolded count_total] sw1 by (auto simp: sw_all_def switch_inv_def done_ok_def isInState_def)
    then have "sw_all done_ok a2 \<and> length (commits_sent a2) = total a2"
      using same_tx_sw_all [OF q, of done_ok] same_tx_count [OF q] nc1 by simp
    moreover have "sw_all (switch_inv WaitOnUnlock) a2" by (simp add: sw_all_def switch_inv_def)
    ultimately show ?thesis using tx_inv_enter_final [OF t] by (simp add: final_def)
  qed
qed

lemma delete_candidate_inv:
  assumes h: "handleMessageInWaitOnDeleteCandidate now msg a = Inr (b, a')" and b: "b"
    and st: "transactionState a = WaitOnDeleteCandidate" and inv: "tx_inv a"
  shows "tx_inv a'"
proof -
  have sw: "sw_all (switch_inv WaitOnDeleteCandidate) a" and nc: "commits_sent a = []"
    using inv st by (auto simp: inv_defs)
  from h b obtain con a1 where a1: "set_switch con (\<lambda>s. s\<lparr>hasCandidate := False, hasLockedCandidate := False\<rparr>) a = Inr a1"
    and r: "transitionToState now WaitOnDeleteCandidate a1 = Inr a'
        \<or> (\<exists>a2. send_to_all (unlock_config ''running'') UNLOCK_MSG_ID [] a1 = Inr a2
             \<and> transitionToState now WaitOnUnlock a2 = Inr a')"
    by (auto simp: handleMessageInWaitOnDeleteCandidate_def rbind_Inr_iff handled_Inr unhandled_def
        split: app_msg.splits reply_element.splits if_splits)
  have sw1: "sw_all (switch_inv WaitOnDeleteCandidate) a1"
    by (rule set_switch_all [OF a1 sw]) (simp_all add: switch_inv_def)
  have nc1: "commits_sent a1 = []" using set_switch_frame [OF a1] nc by simp
  from r show ?thesis
  proof (elim disjE conjE exE)
    assume "transitionToState now WaitOnDeleteCandidate a1 = Inr a'"
    from tx_inv_enter [OF this sw1 nc1] show ?thesis by (simp add: committing_def final_def)
  next
    fix a2
    assume f: "send_to_all (unlock_config ''running'') UNLOCK_MSG_ID [] a1 = Inr a2"
      and t: "transitionToState now WaitOnUnlock a2 = Inr a'"
    have q: "same_tx 0 a1 a2" by (rule send_to_all_quiet [OF f]) (simp_all add: msg_ids)
    have "sw_all (\<lambda>s. \<not> hasCommited s) a1" by (rule sw_all_mono [OF sw1]) (simp add: switch_inv_def)
    then have "sw_all (\<lambda>s. \<not> hasCommited s) a2 \<and> commits_sent a2 = []"
      using same_tx_sw_all [OF q, of "\<lambda>s. \<not> hasCommited s"] same_tx_none [OF q] nc1 by simp
    moreover have "sw_all (switch_inv WaitOnUnlock) a2" by (simp add: sw_all_def switch_inv_def)
    ultimately show ?thesis using tx_inv_enter_final [OF t] by (simp add: final_def)
  qed
qed

lemma unlock_inv:
  assumes h: "handleMessageInWaitOnUnlock now msg a = Inr (b, a')" and b: "b"
    and st: "transactionState a = WaitOnUnlock" and inv: "tx_inv a"
  shows "tx_inv a'"
proof -
  let ?fate = "\<lambda>a. sw_all done_ok a \<and> length (commits_sent a) = total a \<or> sw_all (\<lambda>s. \<not> hasCommited s) a \<and> commits_sent a = []"
  have fate: "?fate a" using inv st by (auto simp: inv_defs)
  from h b obtain con a1 where a1: "set_switch con (\<lambda>s. s\<lparr>hasLockedRunning := False\<rparr>) a = Inr a1"
    and r: "transitionToState now WaitOnUnlock a1 = Inr a' \<or> count SwitchUnlocked a1 = total a1
        \<and> transitionToState now EndOfTransaction (out (EmitPhase PHASE_UNLOCK) a1) = Inr a'"
    by (auto simp: handleMessageInWaitOnUnlock_def rbind_Inr_iff handled_Inr unhandled_def
        split: app_msg.splits reply_element.splits if_splits)
  have fate1: "?fate a1"
    using fate set_switch_frame [OF a1] set_switch_all [OF a1, of done_ok done_ok]
      set_switch_all [OF a1, of "\<lambda>s. \<not> hasCommited s" "\<lambda>s. \<not> hasCommited s"] by (auto simp: done_ok_def)
  from r show ?thesis
  proof (elim disjE conjE)
    assume t: "transitionToState now WaitOnUnlock a1 = Inr a'"
    have "sw_all (switch_inv WaitOnUnlock) a1" by (simp add: sw_all_def switch_inv_def)
    from tx_inv_enter_final [OF t this fate1] show ?thesis by (simp add: final_def)
  next
    assume c: "count SwitchUnlocked a1 = total a1"
      and t: "transitionToState now EndOfTransaction (out (EmitPhase PHASE_UNLOCK) a1) = Inr a'"
    have "sw_all (switch_inv EndOfTransaction) a1"
      using c [unfolded count_total] by (auto simp: sw_all_def switch_inv_def isInState_def)
    with tx_inv_enter_final [OF t] fate1 show ?thesis by (simp add: final_def)
  qed
qed

lemma error_inv:
  assumes h: "handleMessageInErrorState now msg a = Inr (b, a')" and b: "b"
    and st: "transactionState a = ErrorState" and inv: "tx_inv a"
  shows "tx_inv a'"
proof -
  let ?a1 = "out (EmitResult False) (a\<lparr>tx_result := False\<rparr>)"
  have sw: "sw_all (switch_inv ErrorState) a" and nc: "commits_sent a = []"
    using inv st by (auto simp: inv_defs)
  from h b obtain cs a2 where f: "send_loop cs (delete_config ''candidate'') DELETE_CANDIDATE_MSG_ID [EmitNumSent] ?a1 = Inr a2"
    and t: "transitionToState now WaitOnDeleteCandidate a2 = Inr a'"
    by (auto simp: handleMessageInErrorState_def rbind_Inr_iff handled_Inr unhandled_def Let_def split: app_msg.splits)
  have q: "same_tx 0 ?a1 a2" by (rule send_loop_quiet [OF f]) (simp_all add: msg_ids)
  have "sw_all (switch_inv WaitOnDeleteCandidate) a" using sw by (simp add: sw_all_def switch_inv_def)
  with tx_inv_enter [OF t] same_tx_sw_all [OF q] same_tx_none [OF q] nc
  show ?thesis by (simp add: committing_def final_def)
qed

subsection \<open>The machine and its runs\<close>

text \<open>
  A machine class supplies the switch state it creates and its handler of the change answers. This
  is what the base machine asks of both.
\<close>

locale overridden_machine =
  fixes toString :: "tx_state \<Rightarrow> string"
    and new :: "'z switch_state_scheme"
    and change :: "simtime \<Rightarrow> ('z, 'a) handler"
  assumes new_available: "isInState SwitchAvailable new"
    and change_keeps: "change now msg a = Inr (True, a') \<Longrightarrow> transactionState a = WaitOnChangeConfirmation
      \<Longrightarrow> tx_inv a \<Longrightarrow> tx_inv a'"
begin

lemma machine_keeps:
  assumes "finiteStateMachine toString new change now msg a = Inr a'" and inv: "tx_inv a"
  shows "tx_inv a'"
proof -
  from assms(1) obtain b x where h: "(case transactionState a of
          BeginOfTransaction \<Rightarrow> handleMessageInBeginOfTransaction now new msg a
        | WaitOnLockResponse \<Rightarrow> handleMessageInWaitOnLockResponse now msg a
        | WaitOnCandidateConfirmation \<Rightarrow> handleMessageInWaitOnCandidateConfirmation now msg a
        | WaitOnCandidateLockResponse \<Rightarrow> handleMessageInWaitOnCandidateLockResponse now msg a
        | WaitOnChangeConfirmation \<Rightarrow> change now msg a
        | ErrorState \<Rightarrow> handleMessageInErrorState now msg a
        | WaitOnCommitExecution \<Rightarrow> handleMessageInWaitOnCommitExecution now msg a
        | WaitOnDeleteOldConfiguration \<Rightarrow> handleMessageInWaitOnDeleteOldConfiguration now msg a
        | WaitOnDeleteCandidate \<Rightarrow> handleMessageInWaitOnDeleteCandidate now msg a
        | WaitOnUnlock \<Rightarrow> handleMessageInWaitOnUnlock now msg a
        | EndOfTransaction \<Rightarrow> unhandled a
        | _ \<Rightarrow> unhandled a) = Inr (b, x)" and "checkEventHandled toString (b, x) = Inr a'"
    unfolding finiteStateMachine_def by (elim rbind_InrE) auto
  then have b: "b" and x: "x = a'" by (auto simp: checkEventHandled_def split: if_splits)
  have new: "switch_inv WaitOnLockResponse new"
    using new_available by (simp add: isInState_def switch_inv_def)
  show ?thesis
    using h b x inv new change_keeps
    by (cases "transactionState a")
      (auto simp: unhandled_def intro: begin_inv lock_inv candidate_inv candidate_lock_inv commit_inv
        delete_old_inv delete_candidate_inv unlock_inv error_inv)
qed

end

text \<open>What a whole module owes, whatever machine it runs, and what all its runs then keep.\<close>

locale transaction_module =
  fixes machine :: "simtime \<Rightarrow> app_msg \<Rightarrow> ('z, 'a) tapp_scheme \<Rightarrow> ('z, 'a) tapp_scheme res"
  assumes keeps: "machine now msg a = Inr a' \<Longrightarrow> tx_inv a \<Longrightarrow> tx_inv a'"

sublocale overridden_machine \<subseteq> transaction_module "finiteStateMachine toString new change"
  by unfold_locales (rule machine_keeps)

lemma nextConnection_tx: "scheduleNextConnection_tx a = (b, a') \<Longrightarrow> same_tx 0 a a'"
  by (auto simp: scheduleNextConnection_tx_def same_tx_def commits_sent_def split: option.splits)

lemma nextConfiguration_tx: "scheduleNextConfigurationFor_tx now i a = Inr (b, a') \<Longrightarrow> same_tx 0 a a'"
  by (auto simp: scheduleNextConfigurationFor_tx_def scheduleTransactionStart_def rbind_Inr_iff same_tx_def
      split: if_splits)

lemma same_tx_inv: "same_tx 0 a a' \<Longrightarrow> tx_inv a \<Longrightarrow> tx_inv a'"
  by (simp add: tx_inv_def same_tx_sw_all same_tx_none) (auto simp: same_tx_def)

lemma base_same_tx:
  assumes "handleMessage_base resolve scheduleNextConnection_tx (scheduleNextConfigurationFor_tx now) msg a = Inr a'"
    and "\<not> isFSMAlphabet msg"
  shows "same_tx 0 a a'"
proof -
  have fr: "same_tx 0 a (set_connection i f (out e a))" "same_tx 0 a (out e (set_configuration i k g a))"
      "same_tx 0 a (set_connection i f a)"
    if "\<not> is_commit e" for i f e k g
    using that by (simp_all add: same_tx_def commits_sent_def)
  show ?thesis
  proof (cases msg)
    case (MsgSendHello c)
    show ?thesis
    proof (cases c)
      case None
      with assms MsgSendHello show ?thesis
        using nextConnection_tx [of a "fst (scheduleNextConnection_tx a)" a'] by (auto simp: handleMessage_base_def)
    next
      case (Some i)
      with assms MsgSendHello obtain c where
        "a' = snd (scheduleNextConnection_tx (set_connection i (\<lambda>c. c\<lparr>cn_state := ConnectionStateRequested\<rparr>)
              (out (SendHello (createHelloFor c)) a)))"
        by (auto simp: handleMessage_base_def rbind_Inr_iff)
      then show ?thesis
        using same_tx_trans [OF fr(1) nextConnection_tx [OF prod.collapse [symmetric]]] by simp
    qed
  next
    case (MsgSendNetconf c)
    with assms show ?thesis
      by (auto simp: handleMessage_base_def rbind_Inr_iff split: option.splits
          dest!: nextConfiguration_tx intro!: same_tx_trans [OF fr(2), of "SendRPC r" for r, simplified])
  next
    case (MsgHello info)
    with assms show ?thesis
      by (auto simp: handleMessage_base_def rbind_Inr_iff split: option.splits
          dest!: nextConfiguration_tx intro: same_tx_trans [OF fr(3) [of EmitDuration], simplified])
  qed (use assms in \<open>auto simp: handleMessage_base_def isFSMAlphabet_def\<close>)
qed

text \<open>
  The runs of a module from its creation: any message, in any order. \<open>resolve\<close> is the address
  resolver.
\<close>

inductive tx_reachable :: "(simtime \<Rightarrow> app_msg \<Rightarrow> ('z, 'a) tapp_scheme \<Rightarrow> ('z, 'a) tapp_scheme res)
    \<Rightarrow> (string \<Rightarrow> string) \<Rightarrow> ('z, 'a) tapp_scheme \<Rightarrow> bool"
  for machine :: "simtime \<Rightarrow> app_msg \<Rightarrow> ('z, 'a) tapp_scheme \<Rightarrow> ('z, 'a) tapp_scheme res"
    and resolve :: "string \<Rightarrow> string" where
  start: "\<lbrakk>transactionState a = BeginOfTransaction; switchStates a = []; a_out a = []\<rbrakk> \<Longrightarrow> tx_reachable machine resolve a"
| step: "\<lbrakk>tx_reachable machine resolve a; handleMessage_tx resolve machine now msg a = Inr a'\<rbrakk>
    \<Longrightarrow> tx_reachable machine resolve a'"

context transaction_module begin

lemma handleMessage_keeps:
  assumes "handleMessage_tx resolve machine now msg a = Inr a'" and "tx_inv a"
  shows "tx_inv a'"
proof (cases "isFSMAlphabet msg")
  case True
  have "tx_inv (out EmitNumReceived a)" by (rule same_tx_inv [OF _ assms(2)]) (simp add: same_tx_def)
  with True assms(1) show ?thesis using keeps by (simp add: handleMessage_tx_def)
next
  case False
  with assms base_same_tx same_tx_inv show ?thesis by (fastforce simp: handleMessage_tx_def)
qed

lemma reachable_inv: "tx_reachable machine resolve a \<Longrightarrow> tx_inv a"
proof (induction rule: tx_reachable.induct)
  case (start a)
  then show ?case by (simp add: inv_defs sw_all_def commits_sent_def)
next
  case (step a now msg a')
  then show ?case using handleMessage_keeps by blast
qed

text \<open>No switch commits unless every switch is prepared; in the end all have committed or none has.\<close>

lemma commit_only_when_prepared:
  assumes "tx_reachable machine resolve a" and "commits_sent a \<noteq> []"
  shows "sw_all (\<lambda>s. hasConfiguration s \<and> \<not> hasError s) a \<and> length (commits_sent a) = total a"
  using reachable_inv [OF assms(1)] assms(2)
  by (auto simp: inv_defs sw_all_def switch_inv_def done_ok_def)

lemma all_or_nothing:
  assumes "tx_reachable machine resolve a" and "transactionState a = EndOfTransaction"
  shows "(sw_all done_ok a \<or> sw_all (\<lambda>s. \<not> hasCommited s) a) \<and> sw_all (\<lambda>s. \<not> hasLockedRunning s) a"
  using reachable_inv [OF assms(1)] assms(2) by (auto simp: inv_defs sw_all_def switch_inv_def)

lemma end_reports_success:
  assumes "tx_reachable machine resolve a" and "transactionState a = EndOfTransaction"
  shows "tx_result a"
  using reachable_inv [OF assms(1)] assms(2) by (simp add: inv_defs)

end

interpretation base_machine: overridden_machine transactionAppStateToString new_switch_state
  handleMessageInWaitOnChangeConfirmation
  by unfold_locales (auto simp: new_switch_state_def isInState_def intro: change_inv)

lemma fsm_module: "transaction_module fsm"
  unfolding fsm_def by (rule base_machine.transaction_module_axioms)

interpretation base_module: transaction_module fsm
  by (rule fsm_module)

end
