(* ===== verification/TransactionSafety.thy ===== *)
theory TransactionSafety
  imports TransactionInvariant
begin

text \<open>
  The properties of the base transaction application: atomicity of the reconfiguration, the result
  it reports, the order of the locks, and what a denied lock leaves behind; with the example run
  that the witnesses evaluate.
\<close>

subsection \<open>Runs as message lists\<close>

fun tx_run :: "(simtime \<Rightarrow> app_msg \<Rightarrow> ('z, 'a) tapp_scheme \<Rightarrow> ('z, 'a) tapp_scheme res) \<Rightarrow> (string \<Rightarrow> string)
    \<Rightarrow> (simtime \<times> app_msg) list \<Rightarrow> ('z, 'a) tapp_scheme \<Rightarrow> ('z, 'a) tapp_scheme res" where
  "tx_run machine resolve [] a = Inr a"
| "tx_run machine resolve ((now, msg) # ms) a =
     rbind (handleMessage_tx resolve machine now msg a) (tx_run machine resolve ms)"

lemma tx_run_reachable:
  "tx_run machine resolve ms a = Inr a' \<Longrightarrow> tx_reachable machine resolve a \<Longrightarrow> tx_reachable machine resolve a'"
proof (induction ms arbitrary: a)
  case (Cons m ms)
  obtain now msg where m: "m = (now, msg)" by force
  with Cons.prems(1) obtain a1 where "handleMessage_tx resolve machine now msg a = Inr a1"
    and "tx_run machine resolve ms a1 = Inr a'" by auto
  with Cons.IH Cons.prems(2) show ?case by (blast intro: tx_reachable.step)
qed simp

definition ok_reply :: "string \<Rightarrow> int \<Rightarrow> app_msg" where
  "ok_reply mid sid = MsgReply \<lparr>rp_message_id = mid, rp_element = ReplyOk,
     rp_ctrl = Some \<lparr>ci_messageType = 1, ci_message_id = mid, ci_session_id = sid\<rparr>\<rparr>"

definition error_reply :: "string \<Rightarrow> int \<Rightarrow> app_msg" where
  "error_reply mid sid = MsgReply \<lparr>rp_message_id = mid, rp_element = ReplyError ERROR_PROTOCOL ''in-use'',
     rp_ctrl = Some \<lparr>ci_messageType = 1, ci_message_id = mid, ci_session_id = sid\<rparr>\<rparr>"

text \<open>Two established connections with one configuration each.\<close>

definition example_connection :: "string \<Rightarrow> int \<Rightarrow> connection" where
  "example_connection addr sid = \<lparr>cn_localPort = 1, cn_remoteAddress = addr, cn_remotePort = 830, cn_connectAt = 0,
     cn_state = ConnectionStateEstablished, cn_configurations = [new_configuration\<lparr>cf_data := Some PlainConfig\<rparr>],
     cn_session_id = sid\<rparr>"

definition example_tapp :: "unit tapp" where
  "example_tapp = \<lparr>a_connections = [example_connection ''a'' 1, example_connection ''b'' 2], a_out = [], tx_result = False,
     transactionState = BeginOfTransaction, switchStates = [], controllerProcessingTime = 0, startHelloHandshake = 0,
     startTransaction = 0\<rparr>"

definition commit_script :: "(simtime \<times> app_msg) list" where
  "commit_script = [(1, MsgStartTransaction),
     (2, ok_reply LOCK_MSG_ID 1), (3, ok_reply LOCK_MSG_ID 2),
     (4, ok_reply COPY_CONFIG_MSG_ID 2), (5, ok_reply COPY_CONFIG_MSG_ID 1),
     (6, ok_reply LOCK_CANDIDATE_MSG_ID 1), (7, ok_reply LOCK_CANDIDATE_MSG_ID 2),
     (8, ok_reply (to_string 0) 2), (9, ok_reply (to_string 0) 1)]"

definition cleanup_script :: "(simtime \<times> app_msg) list" where
  "cleanup_script = [(10, ok_reply COMMIT_APPROVED_MSG_ID 1), (11, ok_reply COMMIT_APPROVED_MSG_ID 2),
     (12, ok_reply DELETE_OLD_CONFIG_MSG_ID 1), (13, ok_reply DELETE_OLD_CONFIG_MSG_ID 2),
     (14, ok_reply UNLOCK_MSG_ID 1), (15, ok_reply UNLOCK_MSG_ID 2)]"

definition example_run :: "(simtime \<times> app_msg) list \<Rightarrow> unit tapp" where
  "example_run ms = (case tx_run fsm id ms example_tapp of Inr a \<Rightarrow> a | Inl e \<Rightarrow> example_tapp)"

lemma example_reachable: "tx_reachable fsm id (example_run ms)"
proof -
  have "tx_reachable fsm id example_tapp" by (rule tx_reachable.start) (simp_all add: example_tapp_def)
  then show ?thesis by (auto simp: example_run_def split: sum.split dest: tx_run_reachable)
qed

lemma commit_run: "transactionState (example_run commit_script) = WaitOnCommitExecution
    \<and> length (commits_sent (example_run commit_script)) = 2"
  by code_simp

lemma end_run: "transactionState (example_run (commit_script @ cleanup_script)) = EndOfTransaction
    \<and> total (example_run (commit_script @ cleanup_script)) = 2
    \<and> sw_all hasCommited (example_run (commit_script @ cleanup_script))"
  by code_simp

lemma denied_run: "transactionState (example_run [(1, MsgStartTransaction), (2, error_reply LOCK_MSG_ID 1)]) = EndOfTransaction
    \<and> sw_all (\<lambda>s. \<not> hasLockedRunning s) (example_run [(1, MsgStartTransaction), (2, error_reply LOCK_MSG_ID 1)])
    \<and> total (example_run [(1, MsgStartTransaction), (2, error_reply LOCK_MSG_ID 1)]) = 2"
  by code_simp

subsection \<open>Atomicity\<close>

text \<open>
  C1: A reconfiguration is all or nothing. Whatever messages arrive and in whatever order, when the
  transaction application reaches its end state, either every switch has been configured, has
  committed without an error and holds no candidate any more, or no switch has committed; and in
  both cases it holds no running lock.
\<close>

theorem transaction_atomic:
  assumes "tx_reachable fsm resolve a" and "transactionState a = EndOfTransaction"
  shows "((\<forall>(addr, ci, s) \<in> set (switchStates a). hasCommited s \<and> hasConfiguration s \<and> \<not> hasError s
            \<and> \<not> hasCandidate s \<and> \<not> hasLockedCandidate s)
        \<or> (\<forall>(addr, ci, s) \<in> set (switchStates a). \<not> hasCommited s))
    \<and> (\<forall>(addr, ci, s) \<in> set (switchStates a). \<not> hasLockedRunning s)"
  using base_module.all_or_nothing [OF assms] by (auto simp: sw_all_def done_ok_def)

lemma transaction_atomic_witness:
  "sw_all (\<lambda>s. \<not> hasLockedRunning s) (example_run (commit_script @ cleanup_script))
    \<and> sw_all hasCommited (example_run (commit_script @ cleanup_script))"
  using transaction_atomic [OF example_reachable, of "commit_script @ cleanup_script"] end_run
  by (auto simp: sw_all_def)



text \<open>
  Entering the end state always books the result true, also on the way of an aborted
  transaction: in every reachable end state the stored result is true, although a transaction that
  no switch has committed ends there as well (the abort branches set it to false first, and the
  entry action overwrites it).
\<close>

theorem end_always_success:
  assumes "tx_reachable fsm resolve a" and "transactionState a = EndOfTransaction"
  shows "tx_result a"
  by (rule base_module.end_reports_success [OF assms])

lemma end_always_success_witness:
  "tx_result (example_run [(1, MsgStartTransaction), (2, error_reply LOCK_MSG_ID 1)])
   \<and> sw_all (\<lambda>s. \<not> hasLockedRunning s) (example_run [(1, MsgStartTransaction), (2, error_reply LOCK_MSG_ID 1)])"
  using end_always_success [OF example_reachable conjunct1 [OF denied_run]] denied_run by simp

subsection \<open>The order of the locks\<close>

lemma find_first:
  assumes "find P m = Some x"
  shows "\<exists>xs ys. m = xs @ x # ys \<and> P x \<and> (\<forall>y \<in> set xs. \<not> P y)"
  using assms
proof (induction m)
  case (Cons y m)
  show ?case
  proof (cases "P y")
    case True
    with Cons.prems show ?thesis by (intro exI [of _ "[]"] exI [of _ m]) auto
  next
    case False
    with Cons obtain xs ys where "m = xs @ x # ys \<and> P x \<and> (\<forall>y \<in> set xs. \<not> P y)" by auto
    with False show ?thesis by (intro exI [of _ "y # xs"] exI [of _ ys]) auto
  qed
qed simp

text \<open>
  Locks are requested one at a time and in the order of the remote addresses: entering
  WaitOnLockResponse sends exactly one call, a lock of the running datastore, to a switch that is
  still available, and every switch with a smaller address is no longer available.
\<close>

theorem lock_next_in_order:
  assumes "transitionToState now WaitOnLockResponse a = Inr a'" and "smap_wf (switchStates a)"
  shows "\<exists>addr ci s c rpc. smap_get addr (switchStates a) = Some (ci, s) \<and> isInState SwitchAvailable s
    \<and> get_connection ci a = Inr c \<and> a_out a' = a_out a @ [SendDelayed (controllerProcessingTime a) rpc, EmitNumSent]
    \<and> rpc_operation rpc = Lock ''running'' \<and> ci_session_id (rpc_ctrl rpc) = cn_session_id c
    \<and> (\<forall>addr' ci' s'. smap_get addr' (switchStates a) = Some (ci', s') \<longrightarrow> addr' < addr \<longrightarrow> \<not> isInState SwitchAvailable s')"
proof -
  let ?a = "a\<lparr>transactionState := WaitOnLockResponse\<rparr>"
  from assms(1) obtain addr ci s a1 where
    f: "find (\<lambda>(addr, ci, s). isInState SwitchAvailable s) (switchStates a) = Some (addr, ci, s)"
    and s: "send_config ci (lock_config ''running'') LOCK_MSG_ID ?a = Inr a1" and a': "a' = out EmitNumSent a1"
    by (auto simp: transitionToState_def Let_def rbind_Inr_iff split: option.splits)
  from find_first [OF f] obtain xs ys where m: "switchStates a = xs @ (addr, ci, s) # ys"
    and av: "isInState SwitchAvailable s" and first: "\<forall>y \<in> set xs. \<not> isInState SwitchAvailable (snd (snd y))"
    by (auto simp: split_def)
  have get: "smap_get addr (switchStates a) = Some (ci, s)"
    using m by (subst smap_entries_get [OF assms(2), symmetric]) simp
  from s obtain c rpc where c: "get_connection ci a = Inr c"
    and r: "createNetConfRPCForConfiguration c (lock_config ''running'') LOCK_MSG_ID = Inr rpc"
    and a1: "a1 = out (SendDelayed (controllerProcessingTime ?a) rpc) ?a"
    by (auto simp: send_config_def rbind_Inr_iff get_connection_def)
  from r have rpc: "rpc_operation rpc = Lock ''running''" "ci_session_id (rpc_ctrl rpc) = cn_session_id c"
    by (auto simp: createNetConfRPCForConfiguration_def rbind_Inr_iff createOperation_def lock_config_def createControlInfo_def)
  have "\<not> isInState SwitchAvailable s'" if g: "smap_get addr' (switchStates a) = Some (ci', s')" and lt: "addr' < addr" for addr' ci' s'
  proof -
    have mem: "(addr', ci', s') \<in> set (switchStates a)" using g by (simp add: smap_entries_get [OF assms(2)])
    have "\<forall>k \<in> fst ` set ys. addr < k"
      using assms(2) m by (simp add: smap_wf_def sorted_wrt_append)
    with mem lt m have "(addr', ci', s') \<in> set xs" by (fastforce dest: order.asym)
    with first show ?thesis by auto
  qed
  with get av c rpc show ?thesis
    by (intro exI [of _ addr] exI [of _ ci] exI [of _ s] exI [of _ c] exI [of _ rpc]) (simp add: a' a1)
qed

lemma lock_next_in_order_witness:
  "\<exists>addr ci s c. \<exists>rpc :: rpc. smap_get addr (switchStates (determineLockOrder new_switch_state example_tapp)) = Some (ci, s)
    \<and> isInState SwitchAvailable s \<and> get_connection ci (determineLockOrder new_switch_state example_tapp) = Inr c
    \<and> rpc_operation rpc = Lock ''running'' \<and> ci_session_id (rpc_ctrl rpc) = cn_session_id c"
proof -
  let ?a = "determineLockOrder new_switch_state example_tapp"
  have "\<not> isl (transitionToState 0 WaitOnLockResponse ?a)" by code_simp
  then obtain a' where t: "transitionToState 0 WaitOnLockResponse ?a = Inr a'"
    by (cases "transitionToState 0 WaitOnLockResponse ?a") simp_all
  have w: "smap_wf (switchStates ?a)" by code_simp
  from lock_next_in_order [OF t w] show ?thesis by (elim exE conjE) (intro exI conjI; assumption)
qed

subsection \<open>A denied lock\<close>

text \<open>A call sent over a connection.\<close>

definition call_over :: "connection \<Rightarrow> app_effect \<Rightarrow> bool" where
  "call_over c e \<longleftrightarrow> (\<exists>d rpc. e = SendDelayed d rpc \<and> ci_session_id (rpc_ctrl rpc) = cn_session_id c)"

lemma send_config_call:
  assumes "send_config i config mid a = Inr a1"
  shows "\<exists>c e. get_connection i a = Inr c \<and> a1 = out e a \<and> call_over c e"
proof -
  from assms obtain c rpc where c: "get_connection i a = Inr c"
    and r: "createNetConfRPCForConfiguration c config mid = Inr rpc" and "a1 = out (SendDelayed (controllerProcessingTime a) rpc) a"
    by (auto simp: send_config_def rbind_Inr_iff)
  moreover from r have "call_over c (SendDelayed (controllerProcessingTime a) rpc)"
    by (auto simp: createNetConfRPCForConfiguration_def createControlInfo_def rbind_Inr_iff call_over_def)
  ultimately show ?thesis by blast
qed

lemma send_loop_calls:
  assumes "send_loop is config mid [] a = Inr a'"
  shows "\<exists>es. a_out a' = a_out a @ es \<and> a_connections a' = a_connections a
    \<and> (\<forall>e \<in> set es. \<exists>i \<in> set is. \<exists>c. get_connection i a = Inr c \<and> call_over c e)"
  using assms
proof (induction "is" arbitrary: a)
  case (Cons i "is")
  then obtain a1 where s: "send_config i config mid a = Inr a1" and r: "send_loop is config mid [] a1 = Inr a'" by auto
  from send_config_call [OF s] obtain c e where c: "get_connection i a = Inr c" and a1: "a1 = out e a" and e: "call_over c e"
    by blast
  from Cons.IH [OF r] obtain es where es: "a_out a' = a_out a1 @ es" "a_connections a' = a_connections a1"
    "\<forall>e \<in> set es. \<exists>i \<in> set is. \<exists>c. get_connection i a1 = Inr c \<and> call_over c e" by blast
  have "get_connection j a1 = get_connection j a" for j by (simp add: a1 get_connection_def)
  with es c e show ?case by (intro exI [of _ "e # es"]) (simp add: a1)
qed simp

text \<open>\<open>left_locked k a\<close>: the application waits for unlock answers, and a switch other than \<open>k\<close> is locked.\<close>

definition left_locked :: "string \<Rightarrow> ('z, 'a) tapp_scheme \<Rightarrow> bool" where
  "left_locked k a \<longleftrightarrow> transactionState a = WaitOnUnlock
     \<and> (\<exists>addr ci s. (addr, ci, s) \<in> set (switchStates a) \<and> addr \<noteq> k \<and> hasLockedRunning s)"

lemma left_locked_keeps:
  assumes l: "left_locked k a" and h: "handleMessageInWaitOnUnlock now (MsgReply r) a = Inr (True, a')"
    and con: "findConnectionForReply r a = Inr con" and k: "cn_remoteAddress (a_connections a ! con) = k"
  shows "left_locked k a' \<and> a_connections a' = a_connections a"
proof -
  from h con obtain a1 where a1: "set_switch con (\<lambda>s. s\<lparr>hasLockedRunning := False\<rparr>) a = Inr a1"
    and r: "transitionToState now WaitOnUnlock a1 = Inr a' \<or> count SwitchUnlocked a1 = total a1"
    by (auto simp: handleMessageInWaitOnUnlock_def rbind_Inr_iff handled_Inr unhandled_def
        split: reply_element.splits if_splits)
  from a1 have a1': "a1 = a\<lparr>switchStates := smap_modify k (\<lambda>(ci, s). (ci, s\<lparr>hasLockedRunning := False\<rparr>)) (switchStates a)\<rparr>"
    by (auto simp: set_switch_def rbind_Inr_iff k)
  from l obtain addr ci s where m: "(addr, ci, s) \<in> set (switchStates a)" "addr \<noteq> k" "hasLockedRunning s"
    by (auto simp: left_locked_def)
  then have m1: "(addr, ci, s) \<in> set (switchStates a1)" by (force simp: a1' smap_modify_def)
  with m have "\<not> count SwitchUnlocked a1 = total a1"
    unfolding count_total by (force simp: sw_all_def isInState_def)
  with r have t: "transitionToState now WaitOnUnlock a1 = Inr a'" by blast
  then have a': "a' = a1\<lparr>transactionState := WaitOnUnlock\<rparr>" by (simp add: transitionToState_def Let_def)
  show ?thesis using m m1 by (auto simp: left_locked_def a' a1')
qed

lemma findConnection_cong:
  "a_connections a = a_connections b \<Longrightarrow> findConnectionForReply r a = findConnectionForReply r b"
  by (simp add: findConnectionForReply_def find_established_def cong: option.case_cong)

lemma left_locked_run:
  assumes "left_locked k a" and "transactionState a = WaitOnUnlock"
    and "\<forall>m \<in> set ms. \<exists>r con. snd m = MsgReply r \<and> findConnectionForReply r a = Inr con \<and> cn_remoteAddress (a_connections a ! con) = k"
    and "tx_run fsm resolve ms a = Inr a'"
  shows "left_locked k a'"
  using assms
proof (induction ms arbitrary: a)
  case (Cons m ms)
  obtain now msg where m: "m = (now, msg)" by force
  with Cons.prems(3) obtain r con where msg: "msg = MsgReply r" and con: "findConnectionForReply r a = Inr con"
    and k: "cn_remoteAddress (a_connections a ! con) = k" by auto
  have st: "transactionState (out EmitNumReceived a) = WaitOnUnlock" using Cons.prems(2) by simp
  from Cons.prems(4) m msg obtain a1 where a1: "fsm now (MsgReply r) (out EmitNumReceived a) = Inr a1"
    and rest: "tx_run fsm resolve ms a1 = Inr a'" by (auto simp: handleMessage_tx_def isFSMAlphabet_def)
  from a1 st have h: "handleMessageInWaitOnUnlock now (MsgReply r) (out EmitNumReceived a) = Inr (True, a1)"
    by (auto simp: fsm_def finiteStateMachine_def rbind_Inr_iff checkEventHandled_def split: if_splits)
  have "left_locked k (out EmitNumReceived a)" using Cons.prems(1) by (simp add: left_locked_def)
  from left_locked_keeps [OF this h, of con] con k findConnection_cong [of "out EmitNumReceived a" a]
  have l: "left_locked k a1" and c: "a_connections a1 = a_connections a" by simp_all
  have "transactionState a1 = WaitOnUnlock" using l by (simp add: left_locked_def)
  from Cons.IH [OF l this _ rest] Cons.prems(3) findConnection_cong [OF c] c show ?case by simp
qed simp

text \<open>
  A lock that is denied while other switches are locked never ends the transaction. The only
  unlock calls go to connections with the address of the switch that denied the lock, not to the
  switches that hold it; and however many answers come from that connection, the application stays
  in WaitOnUnlock with a switch still marked as locked.
\<close>

theorem lock_denied_waits_forever:
  assumes st: "transactionState a = WaitOnLockResponse"
    and reply: "rp_element reply = ReplyError et tag" "rp_message_id reply = LOCK_MSG_ID"
    and con: "findConnectionForReply reply a = Inr con"
    and held: "(addr, ci, s) \<in> set (switchStates a)" "hasLockedRunning s" "\<not> hasError s"
      "addr \<noteq> cn_remoteAddress (a_connections a ! con)"
    and h: "fsm now (MsgReply reply) a = Inr a1"
    and ms: "\<forall>m \<in> set ms. \<exists>r con'. snd m = MsgReply r \<and> findConnectionForReply r a = Inr con'
      \<and> cn_remoteAddress (a_connections a ! con') = cn_remoteAddress (a_connections a ! con)"
    and run: "tx_run fsm resolve ms a1 = Inr a2"
  shows "(\<exists>es. a_out a1 = a_out a @ es \<and> (\<forall>d rpc. SendDelayed d rpc \<in> set es \<longrightarrow>
      (\<exists>c \<in> set (a_connections a). cn_remoteAddress c = cn_remoteAddress (a_connections a ! con)
         \<and> ci_session_id (rpc_ctrl rpc) = cn_session_id c)))
    \<and> transactionState a2 = WaitOnUnlock \<and> (\<exists>(addr, ci, s) \<in> set (switchStates a2). hasLockedRunning s)"
proof -
  let ?k = "cn_remoteAddress (a_connections a ! con)"
  let ?is = "map (\<lambda>(addr, ci, s). ci) (filter (\<lambda>(addr, ci, s). cn_remoteAddress (a_connections a ! ci) = ?k) (switchStates a))"
  have "\<not> count SwitchLocked a = 0"
    unfolding count_zero using held by (force simp: sw_all_def isInState_def)
  moreover have "get_connection con a = Inr c \<Longrightarrow> cn_remoteAddress c = ?k" for c
    by (auto simp: get_connection_def vec_at_Inr_iff)
  ultimately obtain b b1 where b: "send_loop ?is (unlock_config ''running'') UNLOCK_MSG_ID [] a = Inr b"
    and b1: "set_switch con (\<lambda>s. s\<lparr>hasLockedRunning := False\<rparr>) b = Inr b1"
    and a1: "transitionToState now WaitOnUnlock (out (EmitResult False) (b1\<lparr>tx_result := False\<rparr>)) = Inr a1"
    using h st reply con
    by (auto simp: fsm_def finiteStateMachine_def handleMessageInWaitOnLockResponse_def rbind_Inr_iff handled_Inr
        checkEventHandled_def split: if_splits)
  from send_loop_calls [OF b] obtain es where es: "a_out b = a_out a @ es" "a_connections b = a_connections a"
    "\<forall>e \<in> set es. \<exists>i \<in> set ?is. \<exists>c. get_connection i a = Inr c \<and> call_over c e" by blast
  have a1': "a1 = (out (EmitResult False) (b1\<lparr>tx_result := False\<rparr>))\<lparr>transactionState := WaitOnUnlock\<rparr>"
    using a1 by (simp add: transitionToState_def Let_def)
  have b1': "b1 = b\<lparr>switchStates := smap_modify ?k (\<lambda>(ci, s). (ci, s\<lparr>hasLockedRunning := False\<rparr>)) (switchStates b)\<rparr>"
    using b1 es(2) by (auto simp: set_switch_def rbind_Inr_iff)
  have o: "a_out a1 = a_out a @ (es @ [EmitResult False])" by (simp add: a1' b1' es(1))
  have calls: "\<exists>c \<in> set (a_connections a). cn_remoteAddress c = ?k \<and> ci_session_id (rpc_ctrl rpc) = cn_session_id c"
    if "SendDelayed d rpc \<in> set (es @ [EmitResult False])" for d rpc
  proof -
    from that have "SendDelayed d rpc \<in> set es" by simp
    with es(3) obtain i c where i: "i \<in> set ?is" and c: "get_connection i a = Inr c" and "call_over c (SendDelayed d rpc)"
      by blast
    then have "ci_session_id (rpc_ctrl rpc) = cn_session_id c" by (simp add: call_over_def)
    moreover have "c \<in> set (a_connections a)" using c by (auto simp: get_connection_def dest: vec_at_Inr_mem)
    moreover have "cn_remoteAddress c = ?k" using i c by (auto simp: get_connection_def vec_at_Inr_iff)
    ultimately show ?thesis by blast
  qed
  have sb: "switchStates b = switchStates a"
    using send_loop_quiet [OF b] by (simp add: msg_ids same_tx_def)
  have "(addr, ci, s) \<in> set (switchStates a1)"
    using held sb by (force simp: a1' b1' smap_modify_def)
  then have l: "left_locked ?k a1" using held a1' by (auto simp: left_locked_def)
  have c1: "a_connections a1 = a_connections a" using es(2) by (simp add: a1' b1')
  have "\<forall>m \<in> set ms. \<exists>r con'. snd m = MsgReply r \<and> findConnectionForReply r a1 = Inr con'
      \<and> cn_remoteAddress (a_connections a1 ! con') = ?k"
    using ms findConnection_cong [OF c1] c1 by simp
  from left_locked_run [OF l _ this run] a1' have "left_locked ?k a2" by simp
  with o calls show ?thesis by (auto simp: left_locked_def)
qed

definition denied_script :: "(simtime \<times> app_msg) list" where
  "denied_script = [(1, MsgStartTransaction), (2, ok_reply LOCK_MSG_ID 1)]"

lemma lock_denied_waits_forever_witness:
  "\<exists>a1 a2. fsm 3 (error_reply LOCK_MSG_ID 2) (example_run denied_script) = Inr a1
     \<and> tx_run fsm id [(4, ok_reply UNLOCK_MSG_ID 2)] a1 = Inr a2 \<and> transactionState a2 = WaitOnUnlock"
proof -
  let ?a = "example_run denied_script"
  let ?r = "\<lparr>rp_message_id = LOCK_MSG_ID, rp_element = ReplyError ERROR_PROTOCOL ''in-use'',
     rp_ctrl = Some \<lparr>ci_messageType = 1, ci_message_id = LOCK_MSG_ID, ci_session_id = 2\<rparr>\<rparr>"
  let ?u = "\<lparr>rp_message_id = UNLOCK_MSG_ID, rp_element = ReplyOk,
     rp_ctrl = Some \<lparr>ci_messageType = 1, ci_message_id = UNLOCK_MSG_ID, ci_session_id = 2\<rparr>\<rparr>"
  have "\<not> isl (fsm 3 (MsgReply ?r) ?a)" by code_simp
  then obtain a1 where a1: "fsm 3 (MsgReply ?r) ?a = Inr a1" by (cases "fsm 3 (MsgReply ?r) ?a") simp_all
  have "\<not> isl (rbind (fsm 3 (MsgReply ?r) ?a) (tx_run fsm id [(4, MsgReply ?u)]))" by code_simp
  then obtain a2 where a2: "tx_run fsm id [(4, MsgReply ?u)] a1 = Inr a2"
    by (cases "tx_run fsm id [(4, MsgReply ?u)] a1") (simp_all add: a1)
  have st: "transactionState ?a = WaitOnLockResponse" by code_simp
  have con: "findConnectionForReply ?r ?a = Inr 1" "findConnectionForReply ?u ?a = Inr 1" by code_simp+
  have held: "(''a'', 0, new_switch_state\<lparr>hasLockedRunning := True\<rparr>) \<in> set (switchStates ?a)" by code_simp
  have k: "''a'' \<noteq> cn_remoteAddress (a_connections ?a ! 1)" by code_simp
  have "transactionState a2 = WaitOnUnlock"
    using lock_denied_waits_forever [OF st _ _ con(1) held _ _ k a1 _ a2, of ERROR_PROTOCOL "''in-use''"] con
    by (simp add: new_switch_state_def)
  then show ?thesis using a1 a2 by (auto simp: ok_reply_def error_reply_def)
qed

end
