(* ===== verification/TimeSyncTransaction.thy ===== *)
theory TimeSyncTransaction
  imports TransactionSafety
begin

text \<open>
  The time synchronous transaction application
  (sdn4core/netconf/applications/transactionModel/TimeSynchronousTransactionApp.cc): between the
  changes and the commits it tells every switch at which cycle to commit, and it releases the
  commits only while they can still arrive before that cycle. Times are exact rationals where the
  code has doubles; cycles are 32 bit words.
\<close>

subsection \<open>State\<close>

record ts_switch_state = switch_state +
  hasCommitTimeStamp :: bool

type_synonym ts_ext = "unit ts_switch_state_ext"

definition new_ts_switch_state :: ts_switch_state where
  "new_ts_switch_state = switch_state.extend new_switch_state (ts_switch_state.fields False)"

definition isInState_ts :: "sw_kind \<Rightarrow> ts_switch_state \<Rightarrow> bool" where
  "isInState_ts k s =
     (case k of
        SwitchWithTimestamp \<Rightarrow> hasLockedRunning s \<and> hasCandidate s \<and> hasLockedCandidate s \<and> hasConfiguration s
          \<and> hasCommitTimeStamp s \<and> \<not> hasCommited s \<and> \<not> hasError s
      | _ \<Rightarrow> isInState k s)"

text \<open>
  The module state: the timestamp sent, the sum of the last latencies, and the parameters of the
  module (\<open>signalDelay\<close>, \<open>bitRate\<close> and so on).
\<close>

record tsapp = "ts_ext tapp" +
  ts_timestamp :: commit_timestamp
  ts_syncPeriod :: nat
  ts_sumOfLastLatencies :: rat
  par_signalDelay :: rat
  par_switchDelay :: rat
  par_switchProcessingTime :: rat
  par_bitRate :: rat
  par_distanceAndHops :: string
  par_executeAtStartOfPeriod :: bool

text \<open>What the scheduler of the node shows at one moment: \<open>getCycles\<close>, the length of a period and the total time.\<close>

record clock_view =
  ck_cycles :: "32 word"
  ck_periodLength :: rat
  ck_totalSimTime :: rat

definition getSwitchesInState_ts :: "sw_kind \<Rightarrow> tsapp \<Rightarrow> nat list" where
  "getSwitchesInState_ts k a = map (\<lambda>(addr, ci, s). ci) (filter (\<lambda>(addr, ci, s). isInState_ts k s) (switchStates a))"

abbreviation count_ts :: "sw_kind \<Rightarrow> tsapp \<Rightarrow> nat" where
  "count_ts k a \<equiv> length (getSwitchesInState_ts k a)"

text \<open>\<open>initialize\<close>: the period of the scheduler it looks up is part of the clock argument below.\<close>

definition initialize_ts :: "connection list \<Rightarrow> tsapp \<Rightarrow> tsapp" where
  "initialize_ts parsed a = initialize_tx parsed a"

definition determineLockOrder_ts :: "tsapp \<Rightarrow> tsapp" where
  "determineLockOrder_ts a = determineLockOrder new_ts_switch_state a"

subsection \<open>The timestamp\<close>

text \<open>\<open>NetConfConfigCommitTimestamp\<close> and the edit-config that carries it.\<close>

definition getCommitTimestampConfig :: "commit_timestamp \<Rightarrow> configuration" where
  "getCommitTimestampConfig timestamp = new_configuration\<lparr>
     cf_data := Some (CommitTimestampConfig timestamp), cf_type := MT_EditConfig, cf_target := ''candidate'',
     cf_filter := Some (), cf_state := ConfigurationStateWaiting\<rparr>"

definition "SEND_TIMESTAMP_MSG_SIZE = (226 * 8 :: int)"
definition "ACK_TIMESTAMP_MSG_SIZE = (112 * 8 :: int)"
definition "SEND_COMMIT_MSG_SIZE = (108 * 8 :: int)"
definition "MAX_ETHERNET_FRAME_SIZE = (1530 * 8 :: int)"

text \<open>\<open>cStringTokenizer::asIntVector\<close>: every token is an optional sign and digits.\<close>

definition int_token :: "string \<Rightarrow> bool" where
  "int_token s = (let ds = (if s \<noteq> [] \<and> (hd s = CHR ''-'' \<or> hd s = CHR ''+'') then tl s else s)
                  in ds \<noteq> [] \<and> list_all is_digit ds)"

definition asIntVector :: "string \<Rightarrow> int list res" where
  "asIntVector s =
     (let ts = tokens (CHR '','') s in
      if list_all int_token ts then Inr (map atoi ts)
      else Inl (RuntimeError ''cStringTokenizer: not an integer''))"

text \<open>Wire length and hop count of one entry, \<open>values[0]\<close> and \<open>values[1]\<close>.\<close>

definition distance_hops :: "string \<Rightarrow> (int \<times> int) res" where
  "distance_hops s = rbind (asIntVector s) (\<lambda>values.
     rbind (vec_at values 0) (\<lambda>w. rbind (vec_at values 1) (\<lambda>h. Inr (w, h))))"

fun all_distance_hops :: "string list \<Rightarrow> (int \<times> int) list res" where
  "all_distance_hops [] = Inr []"
| "all_distance_hops (s # ss) = rbind (distance_hops s) (\<lambda>d. rbind (all_distance_hops ss) (\<lambda>ds. Inr (d # ds)))"

text \<open>The latency of one frame over \<open>hop\<close> switches.\<close>

definition frame_latency :: "tsapp \<Rightarrow> int \<times> int \<Rightarrow> int \<Rightarrow> rat" where
  "frame_latency a d frameSize =
     (let wireDelay = 1 / par_signalDelay a; bitTransferTime = 1 / par_bitRate a;
          queuingDelay = of_int MAX_ETHERNET_FRAME_SIZE * bitTransferTime; (wireLength, hop) = d
      in wireDelay * of_int wireLength + of_int ((hop + 1) * frameSize) * bitTransferTime
           + of_int hop * par_switchDelay a + of_int (hop + 1) * queuingDelay)"

text \<open>The two nested loops: the sum over all frames, and the one over the last frame alone.\<close>

fun sum_latencies :: "tsapp \<Rightarrow> (int \<times> int) list \<Rightarrow> rat \<times> rat \<Rightarrow> rat \<times> rat" where
  "sum_latencies a [] acc = acc"
| "sum_latencies a (d # ds) (sumOfLatencies, lastSum) =
     sum_latencies a ds
       (sumOfLatencies + frame_latency a d SEND_TIMESTAMP_MSG_SIZE + frame_latency a d ACK_TIMESTAMP_MSG_SIZE
          + frame_latency a d SEND_COMMIT_MSG_SIZE,
        lastSum + frame_latency a d SEND_COMMIT_MSG_SIZE)"

text \<open>\<open>static_cast<uint32_t>(std::ceil(buffer / periodLength))\<close>\<close>

definition ceil_cycles :: "rat \<Rightarrow> rat \<Rightarrow> 32 word" where
  "ceil_cycles buffer periodLength = word_of_int (ceiling (buffer / periodLength))"

definition determineTimestamp :: "clock_view \<Rightarrow> tsapp \<Rightarrow> (commit_timestamp \<times> tsapp) res" where
  "determineTimestamp ck a =
     (let distanceAndHopPerSwitches = tokens (CHR '';'') (par_distanceAndHops a) in
      rbind
        (if length distanceAndHopPerSwitches = 1 then all_distance_hops distanceAndHopPerSwitches
         else if length distanceAndHopPerSwitches = length (a_connections a) then all_distance_hops distanceAndHopPerSwitches
         else Inl (RuntimeError ''number of switches are not''))
        (\<lambda>ds.
           let (sumOfLatencies, lastSum) = sum_latencies a ds (0, ts_sumOfLastLatencies a);
               buffer = sumOfLatencies + 2 * par_switchProcessingTime a + 2 * controllerProcessingTime a;
               timestamp = \<lparr>ts_cycle = ck_cycles ck + ceil_cycles buffer (ck_periodLength ck),
                  ts_period = ts_syncPeriod a, ts_time = buffer + ck_totalSimTime ck,
                  ts_executeAtStartOfPeriod = par_executeAtStartOfPeriod a\<rparr>
           in Inr (timestamp, a\<lparr>ts_sumOfLastLatencies := lastSum, ts_timestamp := timestamp\<rparr>)))"

definition checkCommitrelease :: "clock_view \<Rightarrow> tsapp \<Rightarrow> bool" where
  "checkCommitrelease ck a =
     (let buffer = ts_sumOfLastLatencies a + par_switchProcessingTime a;
          calculatedExecutionCycle = ck_cycles ck + ceil_cycles buffer (ck_periodLength ck)
      in ts_cycle (ts_timestamp a) > calculatedExecutionCycle)"

subsection \<open>The machine\<close>

definition transactionAppStateToString_ts :: "tx_state \<Rightarrow> string" where
  "transactionAppStateToString_ts s =
     (case s of WaitOnTimestampConfirmation \<Rightarrow> ''WaitOnTimestampConfirmation'' | _ \<Rightarrow> transactionAppStateToString s)"

text \<open>What follows the last confirmed change: the timestamp goes to every switch.\<close>

definition send_timestamps :: "(simtime \<Rightarrow> clock_view) \<Rightarrow> simtime \<Rightarrow> tsapp \<Rightarrow> (bool \<times> tsapp) res" where
  "send_timestamps clk now a =
     rbind (determineTimestamp (clk now) a) (\<lambda>(timestamp, a1).
     rbind (send_loop (getSwitchesInState SwitchWithChangedCandidateConfiguration a1) (getCommitTimestampConfig timestamp)
              TIMESTAMP_MSG_ID [EmitPhase PHASE_CONFIRMATION, EmitNumSent] a1) (\<lambda>a2.
       handled (transitionToState now WaitOnTimestampConfirmation a2)))"

definition handleMessageInWaitOnChangeConfirmation_ts ::
  "(simtime \<Rightarrow> clock_view) \<Rightarrow> simtime \<Rightarrow> app_msg \<Rightarrow> tsapp \<Rightarrow> (bool \<times> tsapp) res" where
  "handleMessageInWaitOnChangeConfirmation_ts clk now = handle_change (send_timestamps clk now) now"

definition handleMessageInWaitOnTimestampConfirmation ::
  "(simtime \<Rightarrow> clock_view) \<Rightarrow> simtime \<Rightarrow> app_msg \<Rightarrow> tsapp \<Rightarrow> (bool \<times> tsapp) res" where
  "handleMessageInWaitOnTimestampConfirmation clk now msg a =
     (case msg of
        MsgReply reply \<Rightarrow>
          (case rp_element reply of
             ReplyOk \<Rightarrow>
               rbind (findConnectionForReply reply a) (\<lambda>con.
                 if rp_message_id reply \<noteq> TIMESTAMP_MSG_ID
                 then Inl (RuntimeError ''reply is not the response of e_Zeitstempel_akzeptiert'')
                 else rbind (set_switch con (\<lambda>s. s\<lparr>hasCommitTimeStamp := True\<rparr>) a) (\<lambda>a1.
                   if count_ts SwitchError a1 > 0 \<and> count_ts SwitchWithTimestamp a1 + count_ts SwitchError a1 = total a1
                   then handled (transitionToState now ErrorState a1)
                   else if count_ts SwitchWithTimestamp a1 < total a1
                   then handled (transitionToState now WaitOnTimestampConfirmation a1)
                   else if count_ts SwitchWithTimestamp a1 = total a1 then
                     (if \<not> checkCommitrelease (clk now) a1 then handled (transitionToState now ErrorState a1)
                      else rbind (send_to_all commit_config COMMIT_APPROVED_MSG_ID [EmitNumSent] a1) (\<lambda>a2.
                        handled (transitionToState now WaitOnCommitExecution a2)))
                   else unhandled a1))
           | ReplyError et tag \<Rightarrow>
               if rp_message_id reply \<noteq> TIMESTAMP_MSG_ID
               then Inl (RuntimeError ''reply is not the response of e_Zeitpunkt_ ueberschritten'')
               else
                 rbind (findConnectionForReply reply a) (\<lambda>con.
                 rbind (set_switch con (\<lambda>s. s\<lparr>hasError := True\<rparr>) a) (\<lambda>a1.
                   if count_ts SwitchWithTimestamp a1 + count_ts SwitchError a1 < total a1
                   then handled (transitionToState now WaitOnTimestampConfirmation a1)
                   else if count_ts SwitchWithTimestamp a1 + count_ts SwitchError a1 = total a1
                   then handled (transitionToState now ErrorState a1)
                   else unhandled a1))
           | _ \<Rightarrow> unhandled a)
      | _ \<Rightarrow> unhandled a)"

definition finiteStateMachine_ts :: "(simtime \<Rightarrow> clock_view) \<Rightarrow> simtime \<Rightarrow> app_msg \<Rightarrow> tsapp \<Rightarrow> tsapp res" where
  "finiteStateMachine_ts clk now msg a =
     (if transactionState a = WaitOnTimestampConfirmation
      then rbind (handleMessageInWaitOnTimestampConfirmation clk now msg a) (checkEventHandled transactionAppStateToString_ts)
      else finiteStateMachine transactionAppStateToString_ts new_ts_switch_state
             (handleMessageInWaitOnChangeConfirmation_ts clk) now msg a)"

subsection \<open>The invariant holds for this machine too\<close>

lemma same_tx_ts [simp]:
  "same_tx n a (b\<lparr>ts_sumOfLastLatencies := x, ts_timestamp := t\<rparr>) = same_tx n a b"
  by (simp add: same_tx_def commits_sent_def)

lemma determineTimestamp_tx: "determineTimestamp ck a = Inr (t, a') \<Longrightarrow> same_tx 0 a a'"
  by (auto simp: determineTimestamp_def Let_def rbind_Inr_iff split_def)

lemma count_ts_base: "k \<noteq> SwitchWithTimestamp \<Longrightarrow> count_ts k a = count k a"
  by (cases k) (simp_all add: getSwitchesInState_ts_def getSwitchesInState_def isInState_ts_def)

lemma count_ts_timestamp: "count_ts SwitchWithTimestamp a = total a \<longleftrightarrow> sw_all (isInState_ts SwitchWithTimestamp) a"
  unfolding getSwitchesInState_ts_def sw_all_def length_map
  by (metis (no_types, lifting) case_prod_beta filter_True length_filter_less order_less_irrefl)

lemma send_timestamps_inv:
  assumes "send_timestamps clk now a = Inr (True, a')" and "sw_all (isInState SwitchWithChangedCandidateConfiguration) a"
    and "commits_sent a = []"
  shows "tx_inv a'"
proof -
  from assms(1) obtain t a1 a2 cs c where d: "determineTimestamp (clk now) a = Inr (t, a1)"
    and s: "send_loop cs c TIMESTAMP_MSG_ID [EmitPhase PHASE_CONFIRMATION, EmitNumSent] a1 = Inr a2"
    and tr: "transitionToState now WaitOnTimestampConfirmation a2 = Inr a'"
    by (auto simp: send_timestamps_def rbind_Inr_iff handled_Inr split_def)
  have q1: "same_tx 0 a a1" by (rule determineTimestamp_tx [OF d])
  have q2: "same_tx 0 a1 a2" by (rule send_loop_quiet [OF s]) (simp_all add: msg_ids)
  have q: "same_tx 0 a a2" using same_tx_trans [OF q1 q2] by simp
  have "sw_all (switch_inv WaitOnTimestampConfirmation) a"
    using assms(2) by (auto simp: sw_all_def switch_inv_def isInState_def)
  then have "sw_all (switch_inv WaitOnTimestampConfirmation) a2"
    using same_tx_sw_all [OF q, of "switch_inv WaitOnTimestampConfirmation"] by simp
  from tx_inv_enter [OF tr this] same_tx_none [OF q] assms(3) show ?thesis by (simp add: committing_def final_def)
qed

lemma change_ts_inv:
  assumes "handleMessageInWaitOnChangeConfirmation_ts clk now msg a = Inr (True, a')"
    and "transactionState a = WaitOnChangeConfirmation" and "tx_inv a"
  shows "tx_inv a'"
  using handle_change_inv [OF assms(1) [unfolded handleMessageInWaitOnChangeConfirmation_ts_def] TrueI assms(2,3)]
    send_timestamps_inv by blast

text \<open>How the answer to a timestamp ends: in the three ways, and a release only under its conditions.\<close>

lemma timestamp_cases:
  assumes h: "handleMessageInWaitOnTimestampConfirmation clk now msg a = Inr (True, a')"
  obtains (wait) con f a1 where "set_switch con f a = Inr a1"
      "f = (\<lambda>s. s\<lparr>hasCommitTimeStamp := True\<rparr>) \<or> f = (\<lambda>s. s\<lparr>hasError := True\<rparr>)"
      "transitionToState now WaitOnTimestampConfirmation a1 = Inr a' \<or> transitionToState now ErrorState a1 = Inr a'"
  | (release) con a1 a2 where "set_switch con (\<lambda>s. s\<lparr>hasCommitTimeStamp := True\<rparr>) a = Inr a1"
      "count_ts SwitchWithTimestamp a1 = total a1" "checkCommitrelease (clk now) a1"
      "send_to_all commit_config COMMIT_APPROVED_MSG_ID [EmitNumSent] a1 = Inr a2"
      "transitionToState now WaitOnCommitExecution a2 = Inr a'"
proof -
  from h obtain reply where msg: "msg = MsgReply reply"
    by (auto simp: handleMessageInWaitOnTimestampConfirmation_def unhandled_def split: app_msg.splits)
  show thesis
  proof (cases "rp_element reply")
    case ReplyOk
    with h msg obtain con a1 where s: "set_switch con (\<lambda>s. s\<lparr>hasCommitTimeStamp := True\<rparr>) a = Inr a1"
      and r: "(if count_ts SwitchError a1 > 0 \<and> count_ts SwitchWithTimestamp a1 + count_ts SwitchError a1 = total a1
                   then handled (transitionToState now ErrorState a1)
                   else if count_ts SwitchWithTimestamp a1 < total a1
                   then handled (transitionToState now WaitOnTimestampConfirmation a1)
                   else if count_ts SwitchWithTimestamp a1 = total a1 then
                     (if \<not> checkCommitrelease (clk now) a1 then handled (transitionToState now ErrorState a1)
                      else rbind (send_to_all commit_config COMMIT_APPROVED_MSG_ID [EmitNumSent] a1) (\<lambda>a2.
                        handled (transitionToState now WaitOnCommitExecution a2)))
                   else unhandled a1) = Inr (True, a')"
      by (auto simp: handleMessageInWaitOnTimestampConfirmation_def rbind_Inr_iff split: if_split_asm)
    show thesis
    proof (cases "transitionToState now WaitOnTimestampConfirmation a1 = Inr a' \<or> transitionToState now ErrorState a1 = Inr a'")
      case True
      then show thesis using wait [OF s] by blast
    next
      case False
      with r obtain a2 where "count_ts SwitchWithTimestamp a1 = total a1" "checkCommitrelease (clk now) a1"
        "send_to_all commit_config COMMIT_APPROVED_MSG_ID [EmitNumSent] a1 = Inr a2"
        "transitionToState now WaitOnCommitExecution a2 = Inr a'"
        by (auto simp: handled_Inr rbind_Inr_iff unhandled_def split: if_splits)
      from release [OF s this] show thesis .
    qed
  next
    case (ReplyError et tag)
    with h msg obtain con a1 where s: "set_switch con (\<lambda>s. s\<lparr>hasError := True\<rparr>) a = Inr a1"
      and r: "(if count_ts SwitchWithTimestamp a1 + count_ts SwitchError a1 < total a1
                   then handled (transitionToState now WaitOnTimestampConfirmation a1)
                   else if count_ts SwitchWithTimestamp a1 + count_ts SwitchError a1 = total a1
                   then handled (transitionToState now ErrorState a1)
                   else unhandled a1) = Inr (True, a')"
      by (auto simp: handleMessageInWaitOnTimestampConfirmation_def rbind_Inr_iff split: if_split_asm)
    then have "transitionToState now WaitOnTimestampConfirmation a1 = Inr a' \<or> transitionToState now ErrorState a1 = Inr a'"
      by (auto simp: handled_Inr unhandled_def split: if_splits)
    then show thesis using wait [OF s] by blast
  qed (use h msg in \<open>auto simp: handleMessageInWaitOnTimestampConfirmation_def unhandled_def\<close>)
qed

lemma timestamp_inv:
  assumes h: "handleMessageInWaitOnTimestampConfirmation clk now msg a = Inr (True, a')"
    and st: "transactionState a = WaitOnTimestampConfirmation" and inv: "tx_inv a"
  shows "tx_inv a'"
proof -
  have sw: "sw_all (switch_inv WaitOnTimestampConfirmation) a" and nc: "commits_sent a = []"
    using inv st by (auto simp: inv_defs)
  from h show ?thesis
  proof (cases rule: timestamp_cases)
    case (wait con f a1)
    have sw1: "sw_all (switch_inv WaitOnTimestampConfirmation) a1"
      by (rule set_switch_all [OF wait(1) sw]) (use wait(2) in \<open>auto simp: switch_inv_def\<close>)
    have err1: "sw_all (switch_inv ErrorState) a1" by (rule sw_all_mono [OF sw1]) (simp add: switch_inv_def)
    have nc1: "commits_sent a1 = []" using set_switch_frame [OF wait(1)] nc by simp
    from wait(3) show ?thesis
      using tx_inv_enter [OF _ sw1 nc1] tx_inv_enter [OF _ err1 nc1] by (auto simp: committing_def final_def)
  next
    case (release con a1 a2)
    have q: "same_tx (total a1) a1 a2" using send_to_all_tx [OF release(4)] by simp
    have "sw_all (switch_inv WaitOnCommitExecution) a1"
      using release(2) [unfolded count_ts_timestamp] by (auto simp: sw_all_def switch_inv_def isInState_ts_def)
    then have "sw_all (switch_inv WaitOnCommitExecution) a2" using same_tx_sw_all [OF q, of "switch_inv WaitOnCommitExecution"] by simp
    from tx_inv_enter_commit [OF release(5) this] same_tx_count [OF q] set_switch_frame [OF release(1)] nc
    show ?thesis by (simp add: committing_def)
  qed
qed

interpretation ts_machine: overridden_machine transactionAppStateToString_ts new_ts_switch_state
  "handleMessageInWaitOnChangeConfirmation_ts clk"
  by unfold_locales
    (auto simp: new_ts_switch_state_def new_switch_state_def switch_state.defs ts_switch_state.defs isInState_def intro: change_ts_inv)

interpretation ts_module: transaction_module "finiteStateMachine_ts clk"
proof
  fix now msg a a'
  assume h: "finiteStateMachine_ts clk now msg a = Inr a'" and inv: "tx_inv a"
  show "tx_inv a'"
  proof (cases "transactionState a = WaitOnTimestampConfirmation")
    case True
    with h have "handleMessageInWaitOnTimestampConfirmation clk now msg a = Inr (True, a')"
      by (auto simp: finiteStateMachine_ts_def rbind_Inr_iff checkEventHandled_def split: if_splits)
    from timestamp_inv [OF this True inv] show ?thesis .
  next
    case False
    with h have "finiteStateMachine transactionAppStateToString_ts new_ts_switch_state
             (handleMessageInWaitOnChangeConfirmation_ts clk) now msg a = Inr a'"
      by (simp add: finiteStateMachine_ts_def)
    from ts_machine.machine_keeps [OF this inv] show ?thesis .
  qed
qed

subsection \<open>Properties\<close>

text \<open>
  C6: The time synchronous reconfiguration is all or nothing as well, whatever the scheduler's
  clock shows: in its end state all switches have committed without an error, or none has.
\<close>

theorem ts_transaction_atomic:
  assumes "tx_reachable (finiteStateMachine_ts clk) resolve a" and "transactionState a = EndOfTransaction"
  shows "((\<forall>(addr, ci, s) \<in> set (switchStates a). hasCommited s \<and> hasConfiguration s \<and> \<not> hasError s
            \<and> \<not> hasCandidate s \<and> \<not> hasLockedCandidate s)
        \<or> (\<forall>(addr, ci, s) \<in> set (switchStates a). \<not> hasCommited s))
    \<and> (\<forall>(addr, ci, s) \<in> set (switchStates a). \<not> hasLockedRunning s)"
  using ts_module.all_or_nothing [OF assms] by (auto simp: sw_all_def done_ok_def)


text \<open>The loops of \<open>determineTimestamp\<close> are sums.\<close>

definition transaction_latency :: "tsapp \<Rightarrow> int \<times> int \<Rightarrow> rat" where
  "transaction_latency a d = frame_latency a d SEND_TIMESTAMP_MSG_SIZE + frame_latency a d ACK_TIMESTAMP_MSG_SIZE
     + frame_latency a d SEND_COMMIT_MSG_SIZE"

lemma sum_latencies_sum:
  "sum_latencies a ds (x, y) = (x + sum_list (map (transaction_latency a) ds),
     y + sum_list (map (\<lambda>d. frame_latency a d SEND_COMMIT_MSG_SIZE) ds))"
  by (induction ds arbitrary: x y) (simp_all add: transaction_latency_def algebra_simps)

lemma determineTimestamp_value:
  assumes "determineTimestamp ck a = Inr (t, a')"
    and "all_distance_hops (tokens (CHR '';'') (par_distanceAndHops a)) = Inr ds"
  shows "let buffer = sum_list (map (transaction_latency a) ds) + 2 * par_switchProcessingTime a + 2 * controllerProcessingTime a
    in ts_cycle t = ck_cycles ck + ceil_cycles buffer (ck_periodLength ck) \<and> ts_time t = buffer + ck_totalSimTime ck
      \<and> ts_timestamp a' = t \<and> ts_period t = ts_syncPeriod a
      \<and> ts_sumOfLastLatencies a' = ts_sumOfLastLatencies a + sum_list (map (\<lambda>d. frame_latency a d SEND_COMMIT_MSG_SIZE) ds)"
  using assms by (auto simp: determineTimestamp_def Let_def sum_latencies_sum split: if_splits)

lemma unat_add_ceil:
  assumes "0 \<le> buffer" and "0 < p" and "int (unat c) + \<lceil>buffer / p\<rceil> < 2 ^ 32"
  shows "int (unat (c + ceil_cycles buffer p)) = int (unat c) + \<lceil>buffer / p\<rceil>"
proof -
  have nn: "0 \<le> \<lceil>buffer / p\<rceil>" using assms(1,2) by (simp add: le_ceiling_iff divide_nonneg_pos less_le_trans [of _ 0])
  have lt: "\<lceil>buffer / p\<rceil> < 2 ^ 32" using assms(3) by linarith
  have "uint (c + ceil_cycles buffer p) = (uint c + uint (ceil_cycles buffer p)) mod 2 ^ 32"
    by (simp add: uint_word_ariths)
  moreover have "uint (ceil_cycles buffer p) = \<lceil>buffer / p\<rceil>"
    using mod_pos_pos_trivial [OF nn lt] by (simp add: ceil_cycles_def uint_word_of_int)
  ultimately show ?thesis using nn assms(3) uint_ge_0 [of c] by simp
qed

text \<open>
  C29: The commit timestamp leaves time for the transaction. With the distances and hops parsed,
  non-negative latencies and no overflow of the cycle counter, the cycles between now and the
  timestamp, each one period long, cover the latency of the three remaining messages to every
  switch of the list and twice the processing times of switch and controller, and by less than one
  period too much; the application remembers the timestamp it sends.
\<close>

theorem determineTimestamp_correct:
  assumes "determineTimestamp ck a = Inr (t, a')"
    and "all_distance_hops (tokens (CHR '';'') (par_distanceAndHops a)) = Inr ds"
    and "buffer = sum_list (map (transaction_latency a) ds) + 2 * par_switchProcessingTime a + 2 * controllerProcessingTime a"
    and "0 \<le> buffer" and "0 < ck_periodLength ck" and "int (unat (ck_cycles ck)) + \<lceil>buffer / ck_periodLength ck\<rceil> < 2 ^ 32"
  shows "buffer \<le> of_int (int (unat (ts_cycle t)) - int (unat (ck_cycles ck))) * ck_periodLength ck
    \<and> of_int (int (unat (ts_cycle t)) - int (unat (ck_cycles ck))) * ck_periodLength ck < buffer + ck_periodLength ck
    \<and> ts_timestamp a' = t"
proof -
  let ?p = "ck_periodLength ck"
  from determineTimestamp_value [OF assms(1,2)] assms(3)
  have t: "ts_cycle t = ck_cycles ck + ceil_cycles buffer ?p" "ts_timestamp a' = t" by (simp_all add: Let_def)
  have c: "int (unat (ts_cycle t)) - int (unat (ck_cycles ck)) = \<lceil>buffer / ?p\<rceil>"
    using unat_add_ceil [OF assms(4,5,6)] t by simp
  have "buffer = buffer / ?p * ?p" using assms(5) by simp
  also have "\<dots> \<le> of_int \<lceil>buffer / ?p\<rceil> * ?p" using assms(5) by (intro mult_right_mono le_of_int_ceiling) simp
  finally have lo: "buffer \<le> of_int \<lceil>buffer / ?p\<rceil> * ?p" .
  have "of_int \<lceil>buffer / ?p\<rceil> * ?p < (buffer / ?p + 1) * ?p"
    using assms(5) by (intro mult_strict_right_mono) (linarith | simp)+
  also have "\<dots> = buffer + ?p" using assms(5) by (simp add: distrib_right)
  finally have hi: "of_int \<lceil>buffer / ?p\<rceil> * ?p < buffer + ?p" .
  show ?thesis unfolding c using lo hi t(2) by simp
qed

text \<open>
  Released commits arrive in time as long as the cycle counter does not overflow: at the moment
  of the release the periods that are left until the timestamp's cycle are longer than the latency
  of the commit messages plus the processing time of the switch.
\<close>

theorem released_commit_arrives:
  assumes "checkCommitrelease ck a" and "0 \<le> ts_sumOfLastLatencies a + par_switchProcessingTime a"
    and "0 < ck_periodLength ck"
    and "int (unat (ck_cycles ck)) + \<lceil>(ts_sumOfLastLatencies a + par_switchProcessingTime a) / ck_periodLength ck\<rceil> < 2 ^ 32"
  shows "ts_sumOfLastLatencies a + par_switchProcessingTime a
    < of_int (int (unat (ts_cycle (ts_timestamp a))) - int (unat (ck_cycles ck))) * ck_periodLength ck"
proof -
  let ?b = "ts_sumOfLastLatencies a + par_switchProcessingTime a" and ?p = "ck_periodLength ck"
  have "unat (ts_cycle (ts_timestamp a)) > unat (ck_cycles ck + ceil_cycles ?b ?p)"
    using assms(1) by (simp add: checkCommitrelease_def Let_def word_less_nat_alt)
  then have c: "\<lceil>?b / ?p\<rceil> + 1 \<le> int (unat (ts_cycle (ts_timestamp a))) - int (unat (ck_cycles ck))"
    using unat_add_ceil [OF assms(2,3,4)] by linarith
  have "?b = ?b / ?p * ?p" using assms(3) by simp
  also have "\<dots> \<le> of_int \<lceil>?b / ?p\<rceil> * ?p" using assms(3) by (intro mult_right_mono le_of_int_ceiling) simp
  also have "\<dots> < (of_int \<lceil>?b / ?p\<rceil> + 1) * ?p" using assms(3) by simp
  also have "\<dots> = of_int (\<lceil>?b / ?p\<rceil> + 1) * ?p" by simp
  also have "\<dots> \<le> of_int (int (unat (ts_cycle (ts_timestamp a))) - int (unat (ck_cycles ck))) * ?p"
    using c assms(3) by (intro mult_right_mono) (simp_all only: of_int_le_iff less_imp_le)
  finally show ?thesis .
qed

text \<open>
  A single distance entry is not scaled by the number of switches: where the list spells out
  the same entry for each of n connections, the timestamp lies later by the latency of the three
  messages to n - 1 switches, although the module's documentation calls the two equal.
\<close>

theorem single_entry_not_scaled:
  assumes "tokens (CHR '';'') (par_distanceAndHops a) = [e]" and "determineTimestamp ck a = Inr (t, a1)"
    and "tokens (CHR '';'') s = replicate n e" and "n = length (a_connections a)"
    and "determineTimestamp ck (a\<lparr>par_distanceAndHops := s\<rparr>) = Inr (t', a2)" and "distance_hops e = Inr d"
  shows "ts_time t' - ts_time t = (of_nat n - 1) * transaction_latency a d"
proof -
  have all: "all_distance_hops (replicate m e) = Inr (replicate m d)" for m
    by (induction m) (simp_all add: assms(6))
  have eq: "transaction_latency (a\<lparr>par_distanceAndHops := s\<rparr>) d = transaction_latency a d"
    by (simp add: transaction_latency_def frame_latency_def)
  have "all_distance_hops (tokens (CHR '';'') (par_distanceAndHops a)) = Inr [d]"
    using all [of 1] assms(1) by simp
  from determineTimestamp_value [OF assms(2) this]
  have t: "ts_time t = transaction_latency a d + 2 * par_switchProcessingTime a + 2 * controllerProcessingTime a + ck_totalSimTime ck"
    by (simp add: Let_def)
  have "all_distance_hops (tokens (CHR '';'') (par_distanceAndHops (a\<lparr>par_distanceAndHops := s\<rparr>))) = Inr (replicate n d)"
    using all assms(3) by simp
  from determineTimestamp_value [OF assms(5) this] eq
  have "ts_time t' = of_nat n * transaction_latency a d + 2 * par_switchProcessingTime a + 2 * controllerProcessingTime a + ck_totalSimTime ck"
    by (simp add: Let_def sum_list_replicate)
  with t show ?thesis by (simp add: algebra_simps)
qed

subsection \<open>An example run\<close>

definition example_tsapp :: tsapp where
  "example_tsapp = \<lparr>a_connections = [example_connection ''a'' 1, example_connection ''b'' 2], a_out = [], tx_result = False,
     transactionState = BeginOfTransaction, switchStates = [], controllerProcessingTime = 0, startHelloHandshake = 0,
     startTransaction = 0, ts_timestamp = \<lparr>ts_cycle = 0, ts_period = 0, ts_time = 0, ts_executeAtStartOfPeriod = True\<rparr>,
     ts_syncPeriod = 0, ts_sumOfLastLatencies = 0, par_signalDelay = 200000000, par_switchDelay = 8 / 1000000,
     par_switchProcessingTime = 0, par_bitRate = 1000000000, par_distanceAndHops = ''2,1'', par_executeAtStartOfPeriod = True\<rparr>"

definition example_clock :: "simtime \<Rightarrow> clock_view" where
  "example_clock now = \<lparr>ck_cycles = 0, ck_periodLength = 1 / 100000, ck_totalSimTime = now\<rparr>"

definition ts_run :: "(simtime \<times> app_msg) list \<Rightarrow> tsapp" where
  "ts_run ms = (case tx_run (finiteStateMachine_ts example_clock) id ms example_tsapp of Inr a \<Rightarrow> a | Inl e \<Rightarrow> example_tsapp)"

definition ts_script :: "(simtime \<times> app_msg) list" where
  "ts_script = commit_script @ [(9, ok_reply TIMESTAMP_MSG_ID 2)]"

lemma ts_example_reachable: "tx_reachable (finiteStateMachine_ts example_clock) id (ts_run ms)"
proof -
  have "tx_reachable (finiteStateMachine_ts example_clock) id example_tsapp"
    by (rule tx_reachable.start) (simp_all add: example_tsapp_def)
  then show ?thesis by (auto simp: ts_run_def split: sum.split dest: tx_run_reachable)
qed

definition ended_committed :: "tsapp \<Rightarrow> bool" where
  "ended_committed a \<longleftrightarrow> transactionState a = EndOfTransaction \<and> sw_all hasCommited a"

lemma ts_end_run: "ended_committed (ts_run (ts_script @ [(9, ok_reply TIMESTAMP_MSG_ID 1)] @ cleanup_script))"
  by code_simp

lemma ts_transaction_atomic_witness:
  "sw_all (\<lambda>s. \<not> hasLockedRunning s) (ts_run (ts_script @ [(9, ok_reply TIMESTAMP_MSG_ID 1)] @ cleanup_script))
    \<and> sw_all hasCommited (ts_run (ts_script @ [(9, ok_reply TIMESTAMP_MSG_ID 1)] @ cleanup_script))"
  using ts_transaction_atomic [OF ts_example_reachable conjunct1 [OF ts_end_run [unfolded ended_committed_def]]]
    ts_end_run [unfolded ended_committed_def] by (auto simp: sw_all_def)

definition about_to_release :: "tsapp \<Rightarrow> bool" where
  "about_to_release a \<longleftrightarrow> transactionState a = WaitOnTimestampConfirmation
   \<and> (case finiteStateMachine_ts example_clock 9 (ok_reply TIMESTAMP_MSG_ID 1) a of
        Inr a' \<Rightarrow> transactionState a' = WaitOnCommitExecution | Inl e \<Rightarrow> False)
   \<and> checkCommitrelease (example_clock 9) a \<and> 0 \<le> ts_sumOfLastLatencies a + par_switchProcessingTime a
   \<and> \<lceil>(ts_sumOfLastLatencies a + par_switchProcessingTime a) / (1 / 100000)\<rceil> = 4"

lemma ts_release_run: "about_to_release (ts_run ts_script)"
  by code_simp


lemma released_commit_arrives_witness:
  "ts_sumOfLastLatencies (ts_run ts_script) + par_switchProcessingTime (ts_run ts_script)
    < of_int (int (unat (ts_cycle (ts_timestamp (ts_run ts_script))))) / 100000"
proof -
  let ?a = "ts_run ts_script"
  have r: "checkCommitrelease (example_clock 9) ?a" and n: "0 \<le> ts_sumOfLastLatencies ?a + par_switchProcessingTime ?a"
    and c: "\<lceil>(ts_sumOfLastLatencies ?a + par_switchProcessingTime ?a) / (1 / 100000)\<rceil> = 4"
    using ts_release_run by (simp_all only: about_to_release_def)
  have p: "ck_periodLength (example_clock 9) = 1 / 100000" "ck_cycles (example_clock 9) = 0"
    by (simp_all add: example_clock_def)
  from released_commit_arrives [OF r n, unfolded p c] show ?thesis by simp
qed

lemma ds_example: "all_distance_hops (tokens (CHR '';'') (par_distanceAndHops example_tsapp)) = Inr [(2, 1)]"
  by code_simp

lemma determineTimestamp_correct_witness:
  "\<exists>t a'. determineTimestamp (example_clock 1) example_tsapp = Inr (t, a')
     \<and> transaction_latency example_tsapp (2, 1) \<le> of_int (int (unat (ts_cycle t))) / 100000"
proof -
  obtain t a' where d: "determineTimestamp (example_clock 1) example_tsapp = Inr (t, a')"
  proof -
    have "\<not> isl (determineTimestamp (example_clock 1) example_tsapp)" by code_simp
    with that show thesis by (cases "determineTimestamp (example_clock 1) example_tsapp") auto
  qed
  have b: "transaction_latency example_tsapp (2, 1) = 104606 / 1000000000"
    by code_simp
  have z: "par_switchProcessingTime example_tsapp = 0" "controllerProcessingTime example_tsapp = 0"
    by (simp_all add: example_tsapp_def)
  have buf: "104606 / 1000000000 = sum_list (map (transaction_latency example_tsapp) [(2, 1)])
      + 2 * par_switchProcessingTime example_tsapp + 2 * controllerProcessingTime example_tsapp"
    by (simp add: b z)
  have p: "ck_periodLength (example_clock 1) = 1 / 100000" "ck_cycles (example_clock 1) = 0"
    by (simp_all add: example_clock_def)
  have c: "\<lceil>104606 / 1000000000 / (1 / 100000) :: rat\<rceil> = 11"
    by (intro ceiling_unique) simp_all
  from determineTimestamp_correct [OF d ds_example buf, unfolded p c] d b show ?thesis
    by (intro exI [of _ t] exI [of _ a']) simp
qed

lemma single_entry_not_scaled_witness:
  "\<exists>t a1 t' a2. determineTimestamp (example_clock 1) example_tsapp = Inr (t, a1)
     \<and> determineTimestamp (example_clock 1) (example_tsapp\<lparr>par_distanceAndHops := ''2,1;2,1''\<rparr>) = Inr (t', a2)
     \<and> ts_time t' - ts_time t = transaction_latency example_tsapp (2, 1)"
proof -
  let ?x = "determineTimestamp (example_clock 1) example_tsapp"
  let ?y = "determineTimestamp (example_clock 1) (example_tsapp\<lparr>par_distanceAndHops := ''2,1;2,1''\<rparr>)"
  have "\<not> isl ?x" and "\<not> isl ?y" by code_simp+
  then obtain t a1 t' a2 where x: "?x = Inr (t, a1)" and y: "?y = Inr (t', a2)"
    by (cases ?x; cases ?y) auto
  have e: "tokens (CHR '';'') (par_distanceAndHops example_tsapp) = [''2,1'']"
    and r: "tokens (CHR '';'') ''2,1;2,1'' = replicate 2 ''2,1''" and n: "2 = length (a_connections example_tsapp)"
    and h: "distance_hops ''2,1'' = Inr (2, 1)" by code_simp+
  from single_entry_not_scaled [OF e x r n y h] x y show ?thesis by auto
qed

end
