(* ===== verification/ProcessingTime.thy ===== *)
theory ProcessingTime
  imports Prelude
begin

text \<open>
  \<open>ProcessingTimeSimulation\<close> (SDN4CoRE/utility/processing): a module that handles one message at
  a time, each after its processing time, and queues what arrives meanwhile. What the subclass
  does with a message is the argument \<open>process\<close>. \<open>pt_events\<close> are the service events in the
  future event set, each with its time and the message in its context pointer.
\<close>

subsection \<open>State and operations\<close>

record ('m, 's) processing =
  pt_busy :: bool
  pt_msgList :: "'m list"
  pt_events :: "(simtime \<times> 'm) list"
  pt_state :: 's                      \<comment> \<open>the state of the subclass\<close>

definition pt_init :: "'s \<Rightarrow> ('m, 's) processing" where
  "pt_init s = \<lparr>pt_busy = False, pt_msgList = [], pt_events = [], pt_state = s\<rparr>"

definition simulateProcessingTime :: "bool \<Rightarrow> simtime \<Rightarrow> simtime \<Rightarrow> 'm \<Rightarrow> ('m, 's) processing \<Rightarrow> ('m, 's) processing" where
  "simulateProcessingTime allowParallel now time msg p =
     (if pt_busy p \<and> \<not> allowParallel then p\<lparr>pt_msgList := pt_msgList p @ [msg]\<rparr>
      else p\<lparr>pt_busy := True, pt_events := pt_events p @ [(now + time, msg)]\<rparr>)"

definition triggerNextProcessingTime :: "simtime \<Rightarrow> simtime \<Rightarrow> ('m, 's) processing \<Rightarrow> ('m, 's) processing" where
  "triggerNextProcessingTime now time p =
     (case pt_msgList p of
        [] \<Rightarrow> p\<lparr>pt_busy := False\<rparr>
      | m # ms \<Rightarrow> p\<lparr>pt_msgList := ms, pt_events := pt_events p @ [(now + time, m)]\<rparr>)"

text \<open>A service event, the one at position \<open>k\<close>, and the effects of the message it processes.\<close>

definition handleService :: "('m \<Rightarrow> 's \<Rightarrow> ('s \<times> 'e list) res) \<Rightarrow> simtime \<Rightarrow> nat \<Rightarrow> ('m, 's) processing
    \<Rightarrow> (('m, 's) processing \<times> 'e list) res" where
  "handleService process time k p =
     (if k < length (pt_events p) then
        (let (now, msg) = pt_events p ! k;
             p1 = p\<lparr>pt_events := take k (pt_events p) @ drop (Suc k) (pt_events p)\<rparr>
         in rbind (process msg (pt_state p1)) (\<lambda>(s, es).
              Inr (triggerNextProcessingTime now time (p1\<lparr>pt_state := s\<rparr>), es)))
      else Inl OutOfRange)"

subsection \<open>One message at a time, in order\<close>

text \<open>The inputs: an arrival at a time with a processing time, and the next service event.\<close>

datatype 'm processing_input = Arrival simtime simtime 'm | Service simtime

fun processing_step :: "('m \<Rightarrow> 's \<Rightarrow> ('s \<times> 'e list) res) \<Rightarrow> 'm processing_input \<Rightarrow> ('m, 's) processing
    \<Rightarrow> (('m, 's) processing \<times> 'e list) res" where
  "processing_step process (Arrival now time m) p = Inr (simulateProcessingTime False now time m p, [])"
| "processing_step process (Service time) p = handleService process time 0 p"

fun processing_run :: "('m \<Rightarrow> 's \<Rightarrow> ('s \<times> 'e list) res) \<Rightarrow> 'm processing_input list \<Rightarrow> ('m, 's) processing
    \<Rightarrow> (('m, 's) processing \<times> 'e list) res" where
  "processing_run process [] p = Inr (p, [])"
| "processing_run process (i # is) p =
     rbind (processing_step process i p) (\<lambda>(p1, es1).
       rbind (processing_run process is p1) (\<lambda>(p2, es2). Inr (p2, es1 @ es2)))"

text \<open>The reference: the messages processed one after the other.\<close>

fun process_all :: "('m \<Rightarrow> 's \<Rightarrow> ('s \<times> 'e list) res) \<Rightarrow> 'm list \<Rightarrow> 's \<Rightarrow> ('s \<times> 'e list) res" where
  "process_all process [] s = Inr (s, [])"
| "process_all process (m # ms) s =
     rbind (process m s) (\<lambda>(s1, es1). rbind (process_all process ms s1) (\<lambda>(s2, es2). Inr (s2, es1 @ es2)))"

fun arrivals :: "'m processing_input list \<Rightarrow> 'm list" where
  "arrivals [] = []"
| "arrivals (Arrival now time m # is) = m # arrivals is"
| "arrivals (Service time # is) = arrivals is"

definition pt_pending :: "('m, 's) processing \<Rightarrow> 'm list" where
  "pt_pending p = map snd (pt_events p) @ pt_msgList p"

definition pt_inv :: "('m, 's) processing \<Rightarrow> bool" where
  "pt_inv p \<longleftrightarrow> length (pt_events p) = (if pt_busy p then 1 else 0) \<and> (pt_msgList p \<noteq> [] \<longrightarrow> pt_busy p)"

lemma pt_init_inv: "pt_inv (pt_init s)" "pt_pending (pt_init s) = []"
  by (simp_all add: pt_inv_def pt_init_def pt_pending_def)

lemma process_all_append:
  "process_all process (xs @ ys) s =
     rbind (process_all process xs s) (\<lambda>(s1, es1).
       rbind (process_all process ys s1) (\<lambda>(s2, es2). Inr (s2, es1 @ es2)))"
proof (induction xs arbitrary: s)
  case Nil
  show ?case by (cases "process_all process ys s") auto
next
  case (Cons x xs)
  show ?case
  proof (cases "process x s")
    case (Inr a)
    obtain s1 e1 where a: "a = (s1, e1)" by (cases a)
    show ?thesis
    proof (cases "process_all process xs s1")
      case (Inr b)
      obtain s2 e2 where "b = (s2, e2)" by (cases b)
      then show ?thesis
        using \<open>process x s = Inr a\<close> a Inr Cons by (cases "process_all process ys s2") auto
    qed (use \<open>process x s = Inr a\<close> a Cons in simp)
  qed simp
qed

lemma simulate_inv:
  assumes "pt_inv p"
  shows "pt_inv (simulateProcessingTime False now time m p)"
    and "pt_pending (simulateProcessingTime False now time m p) = pt_pending p @ [m]"
    and "pt_state (simulateProcessingTime False now time m p) = pt_state p"
  using assms by (auto simp: pt_inv_def simulateProcessingTime_def pt_pending_def)

lemma service_inv:
  assumes inv: "pt_inv p" and h: "handleService process time 0 p = Inr (p', es)"
  shows "pt_inv p'"
    and "\<exists>m. pt_pending p = m # pt_pending p' \<and> process m (pt_state p) = Inr (pt_state p', es)"
proof -
  from h have "pt_events p \<noteq> []" by (auto simp: handleService_def split: if_splits)
  with inv obtain t m where ev: "pt_events p = [(t, m)]" and busy: "pt_busy p"
    by (cases "pt_events p") (auto simp: pt_inv_def split: if_splits)
  from h ev obtain s where pr: "process m (pt_state p) = Inr (s, es)"
    and p': "p' = triggerNextProcessingTime t time (p\<lparr>pt_events := [], pt_state := s\<rparr>)"
    by (auto simp: handleService_def rbind_Inr_iff)
  show "pt_inv p'" using busy
    by (auto simp: p' pt_inv_def triggerNextProcessingTime_def split: list.splits)
  show "\<exists>m. pt_pending p = m # pt_pending p' \<and> process m (pt_state p) = Inr (pt_state p', es)"
    using pr ev by (auto simp: p' pt_pending_def triggerNextProcessingTime_def split: list.splits)
qed

lemma processing_run_spec:
  assumes "processing_run process is p = Inr (p', es)" and "pt_inv p"
  shows "pt_inv p' \<and> (\<exists>ms. pt_pending p @ arrivals is = ms @ pt_pending p'
    \<and> process_all process ms (pt_state p) = Inr (pt_state p', es))"
  using assms
proof (induction "is" arbitrary: p es)
  case Nil
  then show ?case by (auto intro: exI [of _ "[]"])
next
  case (Cons i "is")
  from Cons.prems obtain p1 e1 e2 where st: "processing_step process i p = Inr (p1, e1)"
    and run: "processing_run process is p1 = Inr (p', e2)" and es: "es = e1 @ e2"
    by (auto simp: rbind_Inr_iff)
  show ?case
  proof (cases i)
    case (Arrival now time m)
    with st have p1: "p1 = simulateProcessingTime False now time m p" and "e1 = []" by auto
    with Cons.IH [OF run] simulate_inv [OF Cons.prems(2)] es Arrival show ?thesis by auto
  next
    case (Service time)
    with st have h: "handleService process time 0 p = Inr (p1, e1)" by simp
    from service_inv [OF Cons.prems(2) h] obtain m where
      inv: "pt_inv p1" and pend: "pt_pending p = m # pt_pending p1"
      and pr: "process m (pt_state p) = Inr (pt_state p1, e1)" by blast
    from Cons.IH [OF run inv] obtain ms where inv': "pt_inv p'"
      and eq: "pt_pending p1 @ arrivals is = ms @ pt_pending p'"
      and all: "process_all process ms (pt_state p1) = Inr (pt_state p', e2)" by blast
    have "pt_pending p @ arrivals (i # is) = (m # ms) @ pt_pending p'"
      using pend eq Service by simp
    moreover have "process_all process (m # ms) (pt_state p) = Inr (pt_state p', es)"
      using pr all es by simp
    ultimately show ?thesis using inv' by blast
  qed
qed

text \<open>
  Simulating the processing time changes when messages are handled, not what is done: without
  parallel processing the messages are processed one after the other in the order of their
  arrival, those that are not processed yet are exactly the one in service and the queue behind
  it, and the module is busy exactly while a service event is pending.
\<close>

theorem processing_in_order:
  assumes "processing_run process is (pt_init s) = Inr (p, es)"
  shows "(\<exists>done. arrivals is = done @ pt_pending p \<and> process_all process done s = Inr (pt_state p, es))
    \<and> length (pt_events p) = (if pt_busy p then 1 else 0)"
proof -
  from processing_run_spec [OF assms pt_init_inv(1)] show ?thesis
    by (auto simp: pt_init_inv(2) pt_inv_def) (auto simp: pt_init_def)
qed

definition example_process :: "nat \<Rightarrow> nat \<Rightarrow> (nat \<times> nat list) res" where
  "example_process m s = Inr (s + m, [s])"

lemma example_processing:
  "\<exists>p. processing_run example_process [Arrival 0 1 5, Arrival 0 1 7, Service 1] (pt_init 2) = Inr (p, [2])
    \<and> pt_pending p = [7]"
  by (simp add: simulateProcessingTime_def handleService_def triggerNextProcessingTime_def pt_init_def
      example_process_def pt_pending_def)

theorem processing_in_order_witness:
  "\<exists>p. (\<exists>done. arrivals [Arrival 0 1 5, Arrival 0 1 7, Service 1] = done @ pt_pending p
      \<and> process_all example_process done 2 = Inr (pt_state p, [2]))
    \<and> length (pt_events p) = (if pt_busy p then 1 else 0)"
  using example_processing processing_in_order [of example_process] by blast

end
