(* ===== verification/NetConfServer.thy ===== *)
theory NetConfServer
  imports DataStoreManager ProcessingTime
begin

text \<open>
  The NETCONF server: \<open>NetConfServerBase\<close> and its TCP subclass \<open>NetConfServerTCP\<close>
  (SDN4CoRE/netconf/server), and the server together with the data store manager. A TCP connection
  is its connection id. \<open>_nextSessionId\<close> is static, so the servers of a simulation share it; here
  it is a field that each step returns.
\<close>

subsection \<open>Messages and state\<close>

datatype netconf_payload =
    HelloMsg int                                   \<comment> \<open>\<open>NetConfHello\<close> with its session id\<close>
  | RpcMsg string "netconf_operation option"       \<comment> \<open>\<open>NetConfMessage\_RPC\<close> and what it encapsulates\<close>
  | ReplyMsg string reply_element                  \<comment> \<open>\<open>NetConfMessage\_RPCReply\<close>\<close>
  | BareMsg int                                    \<comment> \<open>a \<open>NetConfMessage\<close> of the given message type\<close>
  | OtherPacket

record server_session =
  ss_id :: int
  ss_conn :: int

record server =
  sv_nextSessionId :: int
  sv_openSessions :: "server_session list"

datatype server_effect =
    SocketSend int netconf_payload                 \<comment> \<open>over the connection with this id\<close>
  | ToManager "ctrl_info option" netconf_operation

definition server_init :: "int \<Rightarrow> server" where
  "server_init n = \<lparr>sv_nextSessionId = n, sv_openSessions = []\<rparr>"

definition messageType :: "netconf_payload \<Rightarrow> int" where
  "messageType p = (case p of RpcMsg i opn \<Rightarrow> 0 | ReplyMsg i r \<Rightarrow> 1 | BareMsg t \<Rightarrow> t | _ \<Rightarrow> 0)"

subsection \<open>Sessions\<close>

text \<open>\<open>conn\<close> is the connection id in the TCP control info, None if there is none.\<close>

definition findSessionInfoForMsg :: "int option \<Rightarrow> server \<Rightarrow> server_session option res" where
  "findSessionInfoForMsg conn sv =
     (case conn of
        None \<Rightarrow> Inl (RuntimeError ''TCPSocketMap: findSocketFor(): no TCPCommand control info in message (not from TCP?)'')
      | Some c \<Rightarrow> Inr (find (\<lambda>s. ss_conn s = c) (sv_openSessions sv)))"

definition findSessionInfoForId :: "int \<Rightarrow> server \<Rightarrow> server_session option" where
  "findSessionInfoForId sid sv = find (\<lambda>s. ss_id s = sid) (sv_openSessions sv)"

definition openNewSession :: "int option \<Rightarrow> server \<Rightarrow> (server_session \<times> server) res" where
  "openNewSession conn sv =
     rbind (findSessionInfoForMsg conn sv) (\<lambda>found.
       case found of
         Some s \<Rightarrow> Inr (s, sv)
       | None \<Rightarrow>
           (let s = \<lparr>ss_id = sv_nextSessionId sv, ss_conn = the conn\<rparr>
            in Inr (s, sv\<lparr>sv_nextSessionId := sv_nextSessionId sv + 1, sv_openSessions := sv_openSessions sv @ [s]\<rparr>)))"

text \<open>
  \<open>closeSession\<close> tests for the missing session and then uses it: without a session it reads a null
  pointer, with one it does nothing and reports failure.
\<close>

definition closeSession :: "int \<Rightarrow> server \<Rightarrow> bool res" where
  "closeSession sid sv =
     (case findSessionInfoForId sid sv of
        None \<Rightarrow> Inl (NullDeref ''session info'')
      | Some s \<Rightarrow> Inr False)"

definition sendToTransport :: "ctrl_info option \<Rightarrow> netconf_payload \<Rightarrow> server \<Rightarrow> server_effect res" where
  "sendToTransport ctrl msg sv =
     (case ctrl of
        None \<Rightarrow> Inl (NullDeref ''control info'')
      | Some i \<Rightarrow>
          (case findSessionInfoForId (ci_session_id i) sv of
             None \<Rightarrow> Inl (NullDeref ''session info'')
           | Some s \<Rightarrow> Inr (SocketSend (ss_conn s) msg)))"

definition createCtrlInfoFor :: "server_session \<Rightarrow> netconf_payload \<Rightarrow> ctrl_info" where
  "createCtrlInfoFor s msg =
     \<lparr>ci_messageType = messageType msg,
      ci_message_id = (case msg of RpcMsg i opn \<Rightarrow> i | ReplyMsg i r \<Rightarrow> i | _ \<Rightarrow> []),
      ci_session_id = ss_id s\<rparr>"

subsection \<open>Replies and calls\<close>

text \<open>\<open>createRPCReply\<close> and \<open>sendToTransport\<close>, which the code always calls together.\<close>

definition createRPCReply :: "ctrl_info option \<Rightarrow> reply_element \<Rightarrow> netconf_payload res" where
  "createRPCReply ctrl element =
     (case ctrl of
        None \<Rightarrow> Inl (NullDeref ''control info'')
      | Some i \<Rightarrow> Inr (ReplyMsg (ci_message_id i) element))"

definition send_rpc_reply :: "ctrl_info option \<Rightarrow> reply_element \<Rightarrow> server \<Rightarrow> server_effect res" where
  "send_rpc_reply ctrl element sv = rbind (createRPCReply ctrl element) (\<lambda>reply. sendToTransport ctrl reply sv)"

definition handleHello :: "int option \<Rightarrow> server \<Rightarrow> (server \<times> server_effect list) res" where
  "handleHello conn sv =
     rbind (openNewSession conn sv) (\<lambda>(s, sv').
       rbind (sendToTransport (Some \<lparr>ci_messageType = 0, ci_message_id = [], ci_session_id = ss_id s\<rparr>)
                (HelloMsg (ss_id s)) sv') (\<lambda>e. Inr (sv', [e])))"

definition handleCloseSession :: "ctrl_info \<Rightarrow> server \<Rightarrow> server_effect list res" where
  "handleCloseSession ctrl sv =
     rbind (closeSession (ci_session_id ctrl) sv) (\<lambda>closed.
       rbind (send_rpc_reply (Some ctrl)
                (if closed then ReplyOk else ReplyError ERROR_APPLICATION ''Session could not be closed.'') sv)
         (\<lambda>e. Inr [e]))"

text \<open>
  A close session call is answered by the server itself, which takes the control info from the
  operation, and the operation is forwarded to the manager nevertheless.
\<close>

definition handleRPC :: "ctrl_info \<Rightarrow> netconf_payload \<Rightarrow> server \<Rightarrow> server_effect list res" where
  "handleRPC ctrl msg sv =
     (case msg of
        RpcMsg i (Some CloseSession) \<Rightarrow>
          rbind (handleCloseSession ctrl sv) (\<lambda>es. Inr (es @ [ToManager None CloseSession]))
      | RpcMsg i (Some operation) \<Rightarrow> Inr [ToManager (Some ctrl) operation]
      | _ \<Rightarrow> Inr [])"

text \<open>A message from TCP after its processing time, and a reply element from the manager.\<close>

definition processScheduledMessage :: "int option \<times> netconf_payload \<Rightarrow> server \<Rightarrow> (server \<times> server_effect list) res" where
  "processScheduledMessage m sv =
     (case m of
        (conn, HelloMsg i) \<Rightarrow> handleHello conn sv
      | (conn, OtherPacket) \<Rightarrow> Inr (sv, [])
      | (conn, netconf) \<Rightarrow>
          rbind (findSessionInfoForMsg conn sv) (\<lambda>found.
            case found of
              None \<Rightarrow> Inl (RuntimeError ''Received NetConfMessage but there is no session for it.'')
            | Some s \<Rightarrow>
                (let ctrl = createCtrlInfoFor s netconf in
                 if messageType netconf = 0 then rbind (handleRPC ctrl netconf sv) (\<lambda>es. Inr (sv, es))
                 else rbind (send_rpc_reply (Some ctrl)
                        (ReplyError ERROR_APPLICATION ''Incoming message not of type NETCONFMESSAGETYPE_RPC'') sv)
                        (\<lambda>e. Inr (sv, [e])))))"

definition handleResponse :: "ctrl_info option \<Rightarrow> reply_element \<Rightarrow> server \<Rightarrow> server_effect res" where
  "handleResponse ctrl element sv = send_rpc_reply ctrl element sv"

subsection \<open>Server and manager\<close>

text \<open>
  What follows from one message: the operations it forwards are handled by the manager
  (\<open>handle\<close>), and the replies of the manager go back through the server.
\<close>

fun reply_effects :: "server \<Rightarrow> manager_effect list \<Rightarrow> server_effect list res" where
  "reply_effects sv [] = Inr []"
| "reply_effects sv (SendReply ctrl r # es) =
     rbind (handleResponse ctrl r sv) (\<lambda>e. rbind (reply_effects sv es) (\<lambda>es'. Inr (e # es')))"
| "reply_effects sv (_ # es) = reply_effects sv es"

fun forward :: "(ctrl_info option \<Rightarrow> netconf_operation \<Rightarrow> 'm \<Rightarrow> ('m \<times> manager_effect list) res) \<Rightarrow> server
    \<Rightarrow> server_effect list \<Rightarrow> 'm \<Rightarrow> ('m \<times> (int \<times> netconf_payload) list) res" where
  "forward handle sv [] m = Inr (m, [])"
| "forward handle sv (SocketSend c p # es) m =
     rbind (forward handle sv es m) (\<lambda>(m', out). Inr (m', (c, p) # out))"
| "forward handle sv (ToManager ctrl opn # es) m =
     rbind (handle ctrl opn m) (\<lambda>(m1, mes).
       rbind (reply_effects sv mes) (\<lambda>rs.
         rbind (forward handle sv es m1) (\<lambda>(m2, out).
           Inr (m2, map (\<lambda>r. case r of SocketSend c p \<Rightarrow> (c, p) | _ \<Rightarrow> (-1, OtherPacket)) rs @ out))))"

definition serve :: "(ctrl_info option \<Rightarrow> netconf_operation \<Rightarrow> 'm \<Rightarrow> ('m \<times> manager_effect list) res)
    \<Rightarrow> int option \<times> netconf_payload \<Rightarrow> server \<times> 'm \<Rightarrow> ((server \<times> 'm) \<times> (int \<times> netconf_payload) list) res" where
  "serve handle msg svm =
     rbind (processScheduledMessage msg (fst svm)) (\<lambda>(sv, es).
       rbind (forward handle sv es (snd svm)) (\<lambda>(m, out). Inr ((sv, m), out)))"

subsection \<open>Sessions stay unique\<close>

definition server_inv :: "server \<Rightarrow> bool" where
  "server_inv sv \<longleftrightarrow> distinct (map ss_id (sv_openSessions sv)) \<and> distinct (map ss_conn (sv_openSessions sv))
     \<and> (\<forall>s \<in> set (sv_openSessions sv). 0 \<le> ss_id s \<and> ss_id s < sv_nextSessionId sv) \<and> 0 \<le> sv_nextSessionId sv"

lemma server_init_inv: "0 \<le> n \<Longrightarrow> server_inv (server_init n)"
  by (simp add: server_inv_def server_init_def)

lemma find_distinct:
  assumes "distinct (map f xs)" and "x \<in> set xs"
  shows "find (\<lambda>y. f y = f x) xs = Some x"
  using assms by (induction xs) (auto simp: image_iff)

lemma findSession_known:
  assumes "server_inv sv" and "s \<in> set (sv_openSessions sv)"
  shows "findSessionInfoForId (ss_id s) sv = Some s"
    and "findSessionInfoForMsg (Some (ss_conn s)) sv = Inr (Some s)"
  using assms find_distinct [of ss_id "sv_openSessions sv" s] find_distinct [of ss_conn "sv_openSessions sv" s]
  by (simp_all add: server_inv_def findSessionInfoForId_def findSessionInfoForMsg_def)

lemma findSession_conn:
  "findSessionInfoForMsg (Some c) sv = Inr (Some s) \<Longrightarrow> s \<in> set (sv_openSessions sv) \<and> ss_conn s = c"
  by (auto simp: findSessionInfoForMsg_def find_Some_iff)

lemma openNewSession_spec:
  assumes inv: "server_inv sv" and op: "openNewSession conn sv = Inr (s, sv')"
  shows "server_inv sv'" and "s \<in> set (sv_openSessions sv')" and "conn = Some (ss_conn s)"
    and "set (sv_openSessions sv) \<subseteq> set (sv_openSessions sv')"
    and "sv_nextSessionId sv \<le> sv_nextSessionId sv'"
proof -
  obtain c where c: "conn = Some c" using op by (cases conn) (auto simp: openNewSession_def findSessionInfoForMsg_def)
  have *: "server_inv sv' \<and> s \<in> set (sv_openSessions sv') \<and> ss_conn s = c
      \<and> set (sv_openSessions sv) \<subseteq> set (sv_openSessions sv') \<and> sv_nextSessionId sv \<le> sv_nextSessionId sv'"
  proof (cases "find (\<lambda>s. ss_conn s = c) (sv_openSessions sv)")
    case None
    with op c inv show ?thesis
      by (fastforce simp: openNewSession_def findSessionInfoForMsg_def Let_def server_inv_def find_None_iff)
  next
    case (Some s0)
    with op c inv show ?thesis
      by (auto simp: openNewSession_def findSessionInfoForMsg_def find_Some_iff)
  qed
  then show "server_inv sv'" and "s \<in> set (sv_openSessions sv')" and "conn = Some (ss_conn s)"
    and "set (sv_openSessions sv) \<subseteq> set (sv_openSessions sv')"
    and "sv_nextSessionId sv \<le> sv_nextSessionId sv'"
    by (simp_all add: c)
qed

lemma handleHello_spec:
  assumes inv: "server_inv sv" and h: "handleHello conn sv = Inr (sv', es)"
  shows "server_inv sv'" and "set (sv_openSessions sv) \<subseteq> set (sv_openSessions sv')"
    and "\<exists>s \<in> set (sv_openSessions sv'). conn = Some (ss_conn s) \<and> es = [SocketSend (ss_conn s) (HelloMsg (ss_id s))]"
    and "sv_nextSessionId sv \<le> sv_nextSessionId sv'"
proof -
  from h obtain s where op: "openNewSession conn sv = Inr (s, sv')"
    and snd: "rbind (sendToTransport (Some \<lparr>ci_messageType = 0, ci_message_id = [], ci_session_id = ss_id s\<rparr>)
                (HelloMsg (ss_id s)) sv') (\<lambda>e. Inr (sv', [e])) = Inr (sv', es)"
    by (auto simp: handleHello_def rbind_Inr_iff)
  note o = openNewSession_spec [OF inv op]
  show "server_inv sv'" and "set (sv_openSessions sv) \<subseteq> set (sv_openSessions sv')"
    and "sv_nextSessionId sv \<le> sv_nextSessionId sv'" by (fact o)+
  have "es = [SocketSend (ss_conn s) (HelloMsg (ss_id s))]"
    using snd findSession_known(1) [OF o(1,2)] by (simp add: sendToTransport_def)
  then show "\<exists>s \<in> set (sv_openSessions sv'). conn = Some (ss_conn s)
      \<and> es = [SocketSend (ss_conn s) (HelloMsg (ss_id s))]" using o(2,3) by blast
qed

lemma processScheduledMessage_frame:
  assumes "processScheduledMessage (conn, p) sv = Inr (sv', es)" and "\<forall>i. p \<noteq> HelloMsg i"
  shows "sv' = sv"
  using assms by (cases p) (auto simp: processScheduledMessage_def rbind_Inr_iff Let_def split: option.splits if_splits)

lemma processScheduledMessage_inv:
  assumes "processScheduledMessage (conn, p) sv = Inr (sv', es)" and "server_inv sv"
  shows "server_inv sv' \<and> set (sv_openSessions sv) \<subseteq> set (sv_openSessions sv')
    \<and> sv_nextSessionId sv \<le> sv_nextSessionId sv'"
proof (cases p)
  case (HelloMsg i)
  with assms handleHello_spec [of sv conn sv' es] show ?thesis by (simp add: processScheduledMessage_def)
qed (use assms processScheduledMessage_frame [OF assms(1)] in auto)

lemma process_all_inv:
  "process_all processScheduledMessage ms sv = Inr (sv', es) \<Longrightarrow> server_inv sv \<Longrightarrow>
    server_inv sv' \<and> set (sv_openSessions sv) \<subseteq> set (sv_openSessions sv')"
proof (induction ms arbitrary: sv es)
  case (Cons m ms)
  obtain conn p where m: "m = (conn, p)" by (cases m)
  from Cons.prems(1) obtain sv1 e1 e2 where "processScheduledMessage (conn, p) sv = Inr (sv1, e1)"
    and "process_all processScheduledMessage ms sv1 = Inr (sv', e2)"
    by (auto simp: rbind_Inr_iff m)
  with processScheduledMessage_inv [of conn p sv sv1 e1] Cons.IH [of sv1 e2] Cons.prems(2) show ?case
    by blast
qed simp

text \<open>
  Sessions identify connections: whatever messages arrive at the server and whatever their
  processing times are, no two open sessions have the same session id or the same connection, the
  ids that are in use lie below the next one, and a session that is open stays open under its id.
\<close>

theorem server_sessions_unique:
  assumes "processing_run processScheduledMessage is (pt_init (server_init n)) = Inr (p, es)" and "0 \<le> n"
    and "processing_run processScheduledMessage js p = Inr (q, fs)"
  shows "distinct (map ss_id (sv_openSessions (pt_state q))) \<and> distinct (map ss_conn (sv_openSessions (pt_state q)))
    \<and> (\<forall>s \<in> set (sv_openSessions (pt_state q)). 0 \<le> ss_id s \<and> ss_id s < sv_nextSessionId (pt_state q))
    \<and> set (sv_openSessions (pt_state p)) \<subseteq> set (sv_openSessions (pt_state q))"
proof -
  have st: "pt_state (pt_init (server_init n)) = server_init n" by (simp add: pt_init_def)
  from processing_run_spec [OF assms(1) pt_init_inv(1)] obtain ms where ptp: "pt_inv p"
    and ms: "process_all processScheduledMessage ms (server_init n) = Inr (pt_state p, es)"
    by (auto simp: st)
  have p: "server_inv (pt_state p)"
    using process_all_inv [OF ms server_init_inv [OF assms(2)]] by simp
  from processing_run_spec [OF assms(3) ptp] obtain ks where
    "process_all processScheduledMessage ks (pt_state p) = Inr (pt_state q, fs)" by blast
  from process_all_inv [OF this p] show ?thesis by (simp add: server_inv_def)
qed

subsection \<open>Calls and their replies\<close>

text \<open>
  What the server relies on when it forwards an operation: replies carry the control info of the
  operation they answer, and there is at most one.
\<close>

definition replies :: "manager_effect list \<Rightarrow> (ctrl_info option \<times> reply_element) list" where
  "replies es = concat (map (\<lambda>e. case e of SendReply ci r \<Rightarrow> [(ci, r)] | _ \<Rightarrow> []) es)"

lemma replies_simps [simp]:
  "replies [] = []"
  "replies (SendReply ci r # es) = (ci, r) # replies es"
  "replies (SubscribePeriod i # es) = replies es"
  "replies (UnsubscribePeriod i # es) = replies es"
  "replies (RegisterTimer w # es) = replies es"
  "replies (ScheduleTimedCommit # es) = replies es"
  "replies (EmitEditConfig # es) = replies es"
  "replies (EmitCommitExecution # es) = replies es"
  "replies (es @ fs) = replies es @ replies fs"
  by (simp_all add: replies_def)

locale operation_handler =
  fixes handle :: "ctrl_info option \<Rightarrow> netconf_operation \<Rightarrow> 'm \<Rightarrow> ('m \<times> manager_effect list) res"
  assumes answers: "handle ci opn m = Inr (m', es) \<Longrightarrow> replies es = [] \<or> (\<exists>r. replies es = [(ci, r)])"
begin

lemma reply_effects_to_session:
  assumes inv: "server_inv sv" and s: "s \<in> set (sv_openSessions sv)" and id: "ci_session_id i = ss_id s"
  shows "(\<forall>(ci, r) \<in> set (replies es). ci = Some i) \<Longrightarrow>
    reply_effects sv es = Inr (map (\<lambda>(ci, r). SocketSend (ss_conn s) (ReplyMsg (ci_message_id i) r)) (replies es))"
proof (induction es)
  case (Cons e es)
  then show ?case
    using findSession_known(1) [OF inv s] id
    by (cases e) (simp_all add: handleResponse_def send_rpc_reply_def createRPCReply_def sendToTransport_def)
qed simp

lemma serve_rpc:
  assumes inv: "server_inv sv" and s: "s \<in> set (sv_openSessions sv)" and opn: "opn \<noteq> CloseSession"
  shows "serve handle (Some (ss_conn s), RpcMsg mid (Some opn)) (sv, m) =
    rbind (handle (Some \<lparr>ci_messageType = 0, ci_message_id = mid, ci_session_id = ss_id s\<rparr>) opn m)
      (\<lambda>(m', es). Inr ((sv, m'), map (\<lambda>(ci, r). (ss_conn s, ReplyMsg mid r)) (replies es)))"
proof -
  let ?i = "\<lparr>ci_messageType = 0, ci_message_id = mid, ci_session_id = ss_id s\<rparr>"
  have p: "processScheduledMessage (Some (ss_conn s), RpcMsg mid (Some opn)) sv = Inr (sv, [ToManager (Some ?i) opn])"
    using findSession_known(2) [OF inv s] opn
    by (cases opn) (simp_all add: processScheduledMessage_def createCtrlInfoFor_def messageType_def handleRPC_def)
  show ?thesis
  proof (cases "handle (Some ?i) opn m")
    case (Inr a)
    obtain m' es where a: "a = (m', es)" by (cases a)
    with answers [of "Some ?i" opn m m' es] Inr have "\<forall>(ci, r) \<in> set (replies es). ci = Some ?i" by auto
    from reply_effects_to_session [OF inv s _ this] show ?thesis
      using p Inr a by (simp add: serve_def comp_def split_def)
  qed (use p in \<open>simp add: serve_def\<close>)
qed

end

lemma send_reply_replies:
  "send_reply ci rm es = Inr (m', es') \<Longrightarrow> replies es = [] \<Longrightarrow> \<exists>r. replies es' = [(ci, r)]"
  by (cases "fst rm") (auto simp: send_reply_def)

lemma edit_store_replies: "edit_store clk b dop eo config m = Inr ((r, m'), es) \<Longrightarrow> replies es = []"
  by (cases config) (auto simp: edit_store_def rbind_Inr_iff split: if_splits)

lemma handleEditConfig_replies:
  "handleEditConfig clk ci target dop eo config m = Inr ((r, m'), es) \<Longrightarrow> replies es = []"
  by (auto simp: handleEditConfig_def rbind_Inr_iff dest: edit_store_replies split: option.splits if_splits)

lemma handleCommit_replies: "handleCommit clk ci m = Inr ((r, m'), es) \<Longrightarrow> replies es = []"
  by (auto simp: handleCommit_def scheduleTimedCommit_def executeCommit_def rbind_Inr_iff Let_def split: if_splits)

lemma handleOperation_replies:
  assumes "handleOperation clk ci opn m = Inr (m', es)"
  shows "replies es = [] \<and> opn = Commit \<or> (\<exists>r. replies es = [(ci, r)])"
  using assms
  by (cases opn) (auto simp: handleOperation_def rbind_Inr_iff split: option.splits
      dest!: send_reply_replies dest: handleEditConfig_replies handleCommit_replies)

interpretation manager_answers: operation_handler "handleOperation clk" for clk
  by unfold_locales (use handleOperation_replies in blast)


fun serve_all :: "(ctrl_info option \<Rightarrow> netconf_operation \<Rightarrow> 'm \<Rightarrow> ('m \<times> manager_effect list) res)
    \<Rightarrow> (int option \<times> netconf_payload) list \<Rightarrow> server \<times> 'm
    \<Rightarrow> ((server \<times> 'm) \<times> (int \<times> netconf_payload) list) res" where
  "serve_all handle [] svm = Inr (svm, [])"
| "serve_all handle (x # xs) svm =
     rbind (serve handle x svm) (\<lambda>(svm1, out1).
       rbind (serve_all handle xs svm1) (\<lambda>(svm2, out2). Inr (svm2, out1 @ out2)))"

lemma serve_server:
  assumes "serve handle (conn, p) (sv, m) = Inr ((sv', m'), out)" and "server_inv sv"
  shows "server_inv sv' \<and> set (sv_openSessions sv) \<subseteq> set (sv_openSessions sv')"
  using assms processScheduledMessage_inv [of conn p sv sv'] by (auto simp: serve_def rbind_Inr_iff)

lemma server_session_unique:
  "server_inv sv \<Longrightarrow> s \<in> set (sv_openSessions sv) \<Longrightarrow> t \<in> set (sv_openSessions sv) \<Longrightarrow> ss_id s = ss_id t \<Longrightarrow> s = t"
  by (auto simp: server_inv_def distinct_map inj_on_def)

text \<open>
  A message that is not an operation, or a close session call, leaves the manager as it is: it is
  answered by the server alone, or the manager is not reached.
\<close>

lemma forward_sends:
  "forward handle sv (map (\<lambda>(c, p). SocketSend c p) cps) m = Inr (m', out) \<Longrightarrow> m' = m"
  by (induction cps arbitrary: out) (auto simp: rbind_Inr_iff split_def)

lemma send_rpc_reply_Inr: "send_rpc_reply ctrl r sv = Inr e \<Longrightarrow> \<exists>c p. e = SocketSend c p"
  by (auto simp: send_rpc_reply_def createRPCReply_def sendToTransport_def rbind_Inr_iff split: option.splits)

lemma serve_close:
  assumes inv: "server_inv sv" and s: "s \<in> set (sv_openSessions sv)"
  shows "serve (handleOperation clk) (Some (ss_conn s), RpcMsg mid (Some CloseSession)) (sv, m)
    = Inl (NullDeref ''control info'')"
  using findSession_known [OF inv s]
  by (simp add: serve_def processScheduledMessage_def createCtrlInfoFor_def messageType_def handleRPC_def
      handleCloseSession_def closeSession_def send_rpc_reply_def createRPCReply_def sendToTransport_def
      handleOperation_def send_reply_def handleResponse_def)

lemma serve_manager:
  assumes inv: "server_inv sv" and run: "serve (handleOperation clk) (conn, p) (sv, m) = Inr ((sv', m'), out)"
  shows "m' = m \<or> (\<exists>s mid opn es. s \<in> set (sv_openSessions sv) \<and> conn = Some (ss_conn s)
    \<and> handleOperation clk (Some \<lparr>ci_messageType = 0, ci_message_id = mid, ci_session_id = ss_id s\<rparr>) opn m = Inr (m', es))"
proof (cases "\<exists>mid opn. p = RpcMsg mid (Some opn)")
  case True
  then obtain mid opn where p: "p = RpcMsg mid (Some opn)" by blast
  from run obtain s where f: "findSessionInfoForMsg conn sv = Inr (Some s)"
    by (auto simp: p serve_def processScheduledMessage_def rbind_Inr_iff split: option.splits)
  then obtain c where "conn = Some c" by (cases conn) (auto simp: findSessionInfoForMsg_def)
  with findSession_conn f have s: "s \<in> set (sv_openSessions sv)" and c: "conn = Some (ss_conn s)" by auto
  have opn: "opn \<noteq> CloseSession" using run serve_close [OF inv s] by (auto simp: p c)
  show ?thesis
    using run s c unfolding p c manager_answers.serve_rpc [OF inv s opn]
    by (auto simp: rbind_Inr_iff)
next
  case False
  have "m' = m"
  proof (cases p)
    case (HelloMsg i)
    with run handleHello_spec(3) [OF inv] show ?thesis
      by (fastforce simp: serve_def processScheduledMessage_def rbind_Inr_iff)
  next
    case (RpcMsg mid opn)
    with False have "opn = None" by (cases opn) auto
    with run RpcMsg show ?thesis
      by (auto simp: serve_def processScheduledMessage_def rbind_Inr_iff Let_def handleRPC_def messageType_def
          split: option.splits)
  next
    case (ReplyMsg mid r)
    with run show ?thesis
      by (auto simp: serve_def processScheduledMessage_def rbind_Inr_iff Let_def messageType_def
          split: option.splits dest!: send_rpc_reply_Inr)
  next
    case (BareMsg t)
    with run show ?thesis
      by (auto simp: serve_def processScheduledMessage_def rbind_Inr_iff Let_def messageType_def handleRPC_def
          split: option.splits if_splits dest!: send_rpc_reply_Inr)
  next
    case OtherPacket
    with run show ?thesis by (auto simp: serve_def processScheduledMessage_def)
  qed
  then show ?thesis ..
qed

lemma serve_all_locked:
  "serve_all (handleOperation clk) msgs (sv, m) = Inr ((sv', m'), out) \<Longrightarrow> server_inv sv
    \<Longrightarrow> s \<in> set (sv_openSessions sv) \<Longrightarrow> isLockedBy (ss_id s) (m_running m)
    \<Longrightarrow> Some (ss_conn s) \<notin> fst ` set msgs
    \<Longrightarrow> m_device m' = m_device m \<and> m_running m' = m_running m"
proof (induction msgs arbitrary: sv m out)
  case (Cons x xs)
  obtain conn p where x: "x = (conn, p)" by (cases x)
  from Cons.prems(1) obtain sv1 m1 o1 o2 where one: "serve (handleOperation clk) (conn, p) (sv, m) = Inr ((sv1, m1), o1)"
    and rest: "serve_all (handleOperation clk) xs (sv1, m1) = Inr ((sv', m'), o2)"
    by (auto simp: rbind_Inr_iff x)
  have step: "m_device m1 = m_device m \<and> m_running m1 = m_running m"
  proof (cases "m1 = m")
    case False
    with serve_manager [OF Cons.prems(2) one] obtain t mid opn es where
      t: "t \<in> set (sv_openSessions sv)" "conn = Some (ss_conn t)"
      and h: "handleOperation clk (Some \<lparr>ci_messageType = 0, ci_message_id = mid, ci_session_id = ss_id t\<rparr>) opn m = Inr (m1, es)"
      by blast
    have "t \<noteq> s" using Cons.prems(5) t(2) x by force
    with server_session_unique [OF Cons.prems(2) t(1) Cons.prems(3)] have "ss_id t \<noteq> ss_id s" by blast
    moreover have "0 \<le> ss_id s" using Cons.prems(2,3) by (simp add: server_inv_def)
    ultimately show ?thesis
      using running_lock_frame [OF Cons.prems(4) _ _ h] by simp
  qed simp
  from serve_server [OF one Cons.prems(2)] Cons.prems(3) have "server_inv sv1" "s \<in> set (sv_openSessions sv1)" by blast+
  from Cons.IH [OF rest this] step Cons.prems(4,5) show ?case by (simp add: x)
qed simp

text \<open>
  C38: A lock excludes every other connection: while the session of one connection holds the lock of
  the running store, no sequence of messages from other connections, new sessions and malformed
  messages included, changes the device or the lock.
\<close>

theorem lock_excludes_connections:
  assumes "serve_all (handleOperation clk) msgs (sv, m) = Inr ((sv', m'), out)" and "server_inv sv"
    and "s \<in> set (sv_openSessions sv)" and "isLockedBy (ss_id s) (m_running m)"
    and "Some (ss_conn s) \<notin> fst ` set msgs"
  shows "m_device m' = m_device m \<and> m_running m' = m_running m"
  by (rule serve_all_locked [OF assms])

text \<open>
  A close session call cannot succeed: for an open session the server answers that the session
  could not be closed and keeps it, and then it forwards the operation without the control info
  that it has removed, so that the manager's answer is dereferenced as a null pointer.
\<close>

theorem close_session_crashes:
  assumes "server_inv sv" and "s \<in> set (sv_openSessions sv)"
  shows "processScheduledMessage (Some (ss_conn s), RpcMsg mid (Some CloseSession)) sv
      = Inr (sv, [SocketSend (ss_conn s) (ReplyMsg mid (ReplyError ERROR_APPLICATION ''Session could not be closed.'')),
                  ToManager None CloseSession])
    \<and> serve (handleOperation clk) (Some (ss_conn s), RpcMsg mid (Some CloseSession)) (sv, m) = Inl (NullDeref ''control info'')"
  using findSession_known [OF assms] serve_close [OF assms]
  by (simp add: processScheduledMessage_def createCtrlInfoFor_def messageType_def handleRPC_def
      handleCloseSession_def closeSession_def send_rpc_reply_def createRPCReply_def sendToTransport_def)

subsection \<open>Examples\<close>

definition example_server :: server where
  "example_server = \<lparr>sv_nextSessionId = 3, sv_openSessions = [\<lparr>ss_id = 1, ss_conn = 10\<rparr>, \<lparr>ss_id = 2, ss_conn = 11\<rparr>]\<rparr>"

lemma example_server_inv: "server_inv example_server"
  by (simp add: server_inv_def example_server_def)

theorem server_sessions_unique_witness:
  "\<exists>p q es fs. processing_run processScheduledMessage [Arrival 0 1 (Some 10, HelloMsg 0), Service 1] (pt_init (server_init 0)) = Inr (p, es)
    \<and> processing_run processScheduledMessage [Arrival 2 1 (Some 11, HelloMsg 0), Arrival 2 1 (Some 10, HelloMsg 0), Service 1, Service 1] p = Inr (q, fs)
    \<and> length (sv_openSessions (pt_state q)) = 2
    \<and> distinct (map ss_id (sv_openSessions (pt_state q))) \<and> distinct (map ss_conn (sv_openSessions (pt_state q)))
    \<and> (\<forall>s \<in> set (sv_openSessions (pt_state q)). 0 \<le> ss_id s \<and> ss_id s < sv_nextSessionId (pt_state q))
    \<and> set (sv_openSessions (pt_state p)) \<subseteq> set (sv_openSessions (pt_state q))"
proof -
  define p :: "(int option \<times> netconf_payload, server) processing" where "p = \<lparr>pt_busy = False, pt_msgList = [], pt_events = [],
    pt_state = \<lparr>sv_nextSessionId = 1, sv_openSessions = [\<lparr>ss_id = 0, ss_conn = 10\<rparr>]\<rparr>\<rparr>"
  define q :: "(int option \<times> netconf_payload, server) processing" where "q = \<lparr>pt_busy = False, pt_msgList = [], pt_events = [],
    pt_state = \<lparr>sv_nextSessionId = 2, sv_openSessions = [\<lparr>ss_id = 0, ss_conn = 10\<rparr>, \<lparr>ss_id = 1, ss_conn = 11\<rparr>]\<rparr>\<rparr>"
  note defs = simulateProcessingTime_def handleService_def triggerNextProcessingTime_def pt_init_def server_init_def
    processScheduledMessage_def handleHello_def openNewSession_def findSessionInfoForMsg_def sendToTransport_def
    findSessionInfoForId_def Let_def
  have p: "\<exists>es. processing_run processScheduledMessage [Arrival 0 1 (Some 10, HelloMsg 0), Service 1] (pt_init (server_init 0)) = Inr (p, es)"
    by (simp add: defs p_def)
  have q: "\<exists>fs. processing_run processScheduledMessage [Arrival 2 1 (Some 11, HelloMsg 0), Arrival 2 1 (Some 10, HelloMsg 0), Service 1, Service 1] p = Inr (q, fs)"
    by (simp add: defs p_def q_def)
  have l: "length (sv_openSessions (pt_state q)) = 2" by (simp add: q_def)
  from p q obtain es fs where "processing_run processScheduledMessage [Arrival 0 1 (Some 10, HelloMsg 0), Service 1] (pt_init (server_init 0)) = Inr (p, es)"
    and "processing_run processScheduledMessage [Arrival 2 1 (Some 11, HelloMsg 0), Arrival 2 1 (Some 10, HelloMsg 0), Service 1, Service 1] p = Inr (q, fs)"
    by blast
  with server_sessions_unique [OF this(1) _ this(2)] l show ?thesis by fastforce
qed

lemma example_call:
  "serve (handleOperation example_manager_clock) (Some 10, RpcMsg ''5'' (Some (Lock ''running''))) (example_server, idle_manager)
    = Inr ((example_server, idle_manager\<lparr>m_running := 1\<rparr>), [(10, ReplyMsg ''5'' ReplyOk)])"
  by (simp add: serve_def processScheduledMessage_def findSessionInfoForMsg_def example_server_def messageType_def
      handleRPC_def createCtrlInfoFor_def handleOperation_def handleLock_def send_reply_def checkAndLock_def
      idle_manager_def example_manager_defs handleResponse_def send_rpc_reply_def createRPCReply_def
      sendToTransport_def findSessionInfoForId_def)


definition foreign_run :: "cerror + ((server \<times> manager) \<times> (int \<times> netconf_payload) list)" where
  "foreign_run = serve_all (handleOperation example_manager_clock)
      [(Some 12, HelloMsg 0), (Some 11, RpcMsg ''6'' (Some (Unlock ''running'')))] (example_server, idle_manager\<lparr>m_running := 1\<rparr>)"

lemma example_foreign: "\<exists>svm out. foreign_run = Inr (svm, out)"
proof -
  have "\<not> isl foreign_run" by code_simp
  then obtain svm_out where "foreign_run = Inr svm_out" by (metis sum.collapse(2))
  then show ?thesis by (cases svm_out) blast
qed

theorem lock_excludes_connections_witness:
  "\<exists>sv' m' out. serve_all (handleOperation example_manager_clock)
      [(Some 12, HelloMsg 0), (Some 11, RpcMsg ''6'' (Some (Unlock ''running'')))] (example_server, idle_manager\<lparr>m_running := 1\<rparr>)
      = Inr ((sv', m'), out)
    \<and> m_device m' = m_device idle_manager \<and> m_running m' = 1"
proof -
  from example_foreign [unfolded foreign_run_def] obtain sv' m' out where run: "serve_all (handleOperation example_manager_clock)
      [(Some 12, HelloMsg 0), (Some 11, RpcMsg ''6'' (Some (Unlock ''running'')))] (example_server, idle_manager\<lparr>m_running := 1\<rparr>)
      = Inr ((sv', m'), out)" by auto
  have "m_device m' = m_device (idle_manager\<lparr>m_running := 1\<rparr>) \<and> m_running m' = m_running (idle_manager\<lparr>m_running := 1\<rparr>)"
    by (rule lock_excludes_connections [OF run example_server_inv, of "\<lparr>ss_id = 1, ss_conn = 10\<rparr>"])
      (simp_all add: example_server_def isLockedBy_def)
  with run show ?thesis by auto
qed

theorem close_session_crashes_witness:
  "processScheduledMessage (Some 10, RpcMsg ''7'' (Some CloseSession)) example_server
      = Inr (example_server, [SocketSend 10 (ReplyMsg ''7'' (ReplyError ERROR_APPLICATION ''Session could not be closed.'')),
                  ToManager None CloseSession])
    \<and> serve (handleOperation example_manager_clock) (Some 10, RpcMsg ''7'' (Some CloseSession)) (example_server, idle_manager)
      = Inl (NullDeref ''control info'')"
  using close_session_crashes [OF example_server_inv, of "\<lparr>ss_id = 1, ss_conn = 10\<rparr>"]
  by (simp add: example_server_def)

end
