(* ===== verification/NetConfClient.thy ===== *)
theory NetConfClient
  imports NetConfServer TransactionSafety
begin

text \<open>
  The NETCONF client: \<open>NetConfClientBase\<close> and its TCP subclass \<open>NetConfClientTCP\<close>
  (SDN4CoRE/netconf/client), which sits between the applications and TCP, and the path of a call
  from an application through client, server and data store manager and back.

  The connection id of a new socket is chosen by TCP and is therefore an argument, and so is the
  value of the session id that the constructor of the session info leaves uninitialised.
\<close>

subsection \<open>State\<close>

record client_session =
  cs_id :: int
  cs_conn :: int
  cs_app :: nat                   \<comment> \<open>index of the application gate\<close>

record client =
  cl_openSessions :: "client_session list"

record connect_info =
  co_localPort :: int
  co_connectAddress :: string
  co_connectPort :: int

datatype client_effect =
    SocketConnect int string int int                    \<comment> \<open>connection, address, port, local port\<close>
  | ClientSend int netconf_payload
  | ToApplication nat netconf_payload "ctrl_info option"

definition client_init :: client where
  "client_init = \<lparr>cl_openSessions = []\<rparr>"

subsection \<open>Sessions\<close>

definition findSessionInfoForId_c :: "int \<Rightarrow> client \<Rightarrow> client_session option" where
  "findSessionInfoForId_c sid cl = find (\<lambda>s. cs_id s = sid) (cl_openSessions cl)"

definition findSessionInfoForMsg_c :: "int option \<Rightarrow> client \<Rightarrow> client_session option res" where
  "findSessionInfoForMsg_c conn cl =
     (case conn of
        None \<Rightarrow> Inl (RuntimeError ''TCPSocketMap: findSocketFor(): no TCPCommand control info in message (not from TCP?)'')
      | Some c \<Rightarrow> Inr (find (\<lambda>s. cs_conn s = c) (cl_openSessions cl)))"

definition closeSession_c :: "int \<Rightarrow> client \<Rightarrow> bool res" where
  "closeSession_c sid cl =
     (case findSessionInfoForId_c sid cl of None \<Rightarrow> Inl (NullDeref ''session info'') | Some s \<Rightarrow> Inr False)"

definition sendToTransport_c :: "ctrl_info option \<Rightarrow> netconf_payload \<Rightarrow> client \<Rightarrow> client_effect res" where
  "sendToTransport_c ctrl msg cl =
     (case ctrl of
        None \<Rightarrow> Inl (NullDeref ''control info'')
      | Some i \<Rightarrow>
          (case findSessionInfoForId_c (ci_session_id i) cl of
             None \<Rightarrow> Inl (NullDeref ''session info'')
           | Some s \<Rightarrow> Inr (ClientSend (cs_conn s) msg)))"

text \<open>
  \<open>sendHello\<close> with \<open>openNewSession\<close>: the hello of the application carries the connection to open,
  and goes out directly. The new session is stored with the application's index.
\<close>

definition sendHello :: "int \<Rightarrow> int \<Rightarrow> nat \<Rightarrow> connect_info option \<Rightarrow> int \<Rightarrow> client \<Rightarrow> (client \<times> client_effect list) res" where
  "sendHello conn junk appIndex ctrl helloId cl =
     (case ctrl of
        None \<Rightarrow> Inl (NullDeref ''session info'')
      | Some i \<Rightarrow>
          Inr (cl\<lparr>cl_openSessions := cl_openSessions cl @ [\<lparr>cs_id = junk, cs_conn = conn, cs_app = appIndex\<rparr>]\<rparr>,
               [SocketConnect conn (co_connectAddress i) (co_connectPort i) (co_localPort i),
                ClientSend conn (HelloMsg helloId)]))"

text \<open>The hello of the server tells the session id. The pointer is to the first session of the connection.\<close>

fun set_session_id :: "int \<Rightarrow> int \<Rightarrow> client_session list \<Rightarrow> client_session list" where
  "set_session_id conn sid [] = []"
| "set_session_id conn sid (s # ss) =
     (if cs_conn s = conn then s\<lparr>cs_id := sid\<rparr> # ss else s # set_session_id conn sid ss)"

definition handleHello_c :: "int option \<Rightarrow> int \<Rightarrow> client \<Rightarrow> (client \<times> client_effect list) res" where
  "handleHello_c conn sid cl =
     rbind (findSessionInfoForMsg_c conn cl) (\<lambda>found.
       case found of
         None \<Rightarrow> Inl (NullDeref ''session info'')
       | Some s \<Rightarrow>
           Inr (cl\<lparr>cl_openSessions := set_session_id (cs_conn s) sid (cl_openSessions cl)\<rparr>,
                [ToApplication (cs_app s) (HelloMsg sid) None]))"

definition createCtrlInfoFor_c :: "client_session \<Rightarrow> netconf_payload \<Rightarrow> ctrl_info" where
  "createCtrlInfoFor_c s msg =
     \<lparr>ci_messageType = messageType msg,
      ci_message_id = (case msg of RpcMsg i opn \<Rightarrow> i | ReplyMsg i r \<Rightarrow> i | _ \<Rightarrow> []),
      ci_session_id = cs_id s\<rparr>"

subsection \<open>Messages\<close>

text \<open>
  A message from an application: a hello with the connection it asks for, or a NETCONF message
  with its control info; and one from TCP. \<open>Established\<close> is the kind TCP\_I\_ESTABLISHED.
\<close>

datatype client_input =
    AppHello int int nat "connect_info option" int    \<comment> \<open>socket, initial id, application, control info, id\<close>
  | AppMessage "ctrl_info option" netconf_payload
  | TcpEstablished "int option"
  | TcpMessage "int option" netconf_payload

definition handleMessage_c :: "client_input \<Rightarrow> client \<Rightarrow> (client \<times> client_effect list) res" where
  "handleMessage_c input cl =
     (case input of
        AppHello conn junk appIndex ctrl i \<Rightarrow> sendHello conn junk appIndex ctrl i cl
      | AppMessage ctrl msg \<Rightarrow>
          (case msg of
             HelloMsg i \<Rightarrow> Inl (NullDeref ''session info'')
           | OtherPacket \<Rightarrow> Inl (RuntimeError ''Received message of unknown type from application.'')
           | _ \<Rightarrow> rbind (sendToTransport_c ctrl msg cl) (\<lambda>e. Inr (cl, [e])))
      | TcpEstablished conn \<Rightarrow>
          rbind (findSessionInfoForMsg_c conn cl) (\<lambda>found.
            case found of None \<Rightarrow> Inl (NullDeref ''session info'') | Some s \<Rightarrow> Inr (cl, []))
      | TcpMessage conn msg \<Rightarrow>
          (case msg of
             HelloMsg i \<Rightarrow> handleHello_c conn i cl
           | OtherPacket \<Rightarrow> Inr (cl, [])
           | _ \<Rightarrow>
               rbind (findSessionInfoForMsg_c conn cl) (\<lambda>found.
                 case found of
                   None \<Rightarrow> Inl (RuntimeError ''Received NetConfMessage but there is no session for it.'')
                 | Some s \<Rightarrow>
                     if messageType msg = 1
                     then Inr (cl, [ToApplication (cs_app s) msg (Some (createCtrlInfoFor_c s msg))])
                     else Inl (RuntimeError ''Received NetConfMessage but its not Hello or RPCReply''))))"

subsection \<open>From an application to a switch and back\<close>

definition client_inv :: "client \<Rightarrow> bool" where
  "client_inv cl \<longleftrightarrow> distinct (map cs_conn (cl_openSessions cl)) \<and> distinct (map cs_id (cl_openSessions cl))"

lemma client_find:
  assumes "client_inv cl" and "t \<in> set (cl_openSessions cl)"
  shows "findSessionInfoForId_c (cs_id t) cl = Some t"
    and "findSessionInfoForMsg_c (Some (cs_conn t)) cl = Inr (Some t)"
  using assms find_distinct [of cs_id "cl_openSessions cl" t] find_distinct [of cs_conn "cl_openSessions cl" t]
  by (simp_all add: client_inv_def findSessionInfoForId_c_def findSessionInfoForMsg_c_def)

text \<open>What an application receives from the client.\<close>

definition app_message :: "netconf_payload \<Rightarrow> ctrl_info option \<Rightarrow> string \<Rightarrow> app_msg" where
  "app_message p ctrl address =
     (case p of
        HelloMsg sid \<Rightarrow> MsgHello (Some \<lparr>si_session_id = sid, si_remoteAddress = address\<rparr>)
      | ReplyMsg mid r \<Rightarrow> MsgReply \<lparr>rp_message_id = mid, rp_element = r, rp_ctrl = ctrl\<rparr>
      | _ \<Rightarrow> MsgOther)"

lemma set_session_id_spec:
  assumes "distinct (map cs_conn ss)" and "s \<in> set ss" and "cs_conn s = c"
  shows "map cs_conn (set_session_id c sid ss) = map cs_conn ss"
    and "s\<lparr>cs_id := sid\<rparr> \<in> set (set_session_id c sid ss)"
    and "distinct (map cs_id ss) \<Longrightarrow> sid \<notin> cs_id ` (set ss - {s}) \<Longrightarrow> distinct (map cs_id (set_session_id c sid ss))"
proof -
  have ids: "set (map cs_id (set_session_id c sid ss)) \<subseteq> insert sid (cs_id ` (set ss - {s}))"
    if "distinct (map cs_conn ss)" "s \<in> set ss" "cs_conn s = c" for ss
    using that by (induction ss) (auto simp: image_iff)
  show "map cs_conn (set_session_id c sid ss) = map cs_conn ss"
    by (induction ss) auto
  show "s\<lparr>cs_id := sid\<rparr> \<in> set (set_session_id c sid ss)"
    using assms by (induction ss) (auto simp: image_iff)
  show "distinct (map cs_id ss) \<Longrightarrow> sid \<notin> cs_id ` (set ss - {s}) \<Longrightarrow> distinct (map cs_id (set_session_id c sid ss))"
    using assms
  proof (induction ss)
    case (Cons x xs)
    show ?case
    proof (cases "cs_conn x = c")
      case True
      then have "x = s" using Cons.prems by (auto simp: image_iff)
      then show ?thesis using Cons.prems True by auto
    next
      case False
      then have s: "s \<in> set xs" and ne: "x \<noteq> s" using Cons.prems by auto
      then have "cs_id x \<noteq> sid" using Cons.prems(2) by auto
      moreover have "cs_id x \<notin> cs_id ` (set xs - {s})" using Cons.prems(1) by auto
      ultimately have "cs_id x \<notin> set (map cs_id (set_session_id c sid xs))"
        using ids [of xs] s Cons.prems by auto
      then show ?thesis using Cons s False ne by auto
    qed
  qed simp
qed

text \<open>
  Opening a session makes both ends agree: when an application asks the client for a connection
  and the server answers the hello, the server has a session for the connection, and the client
  books exactly that session's id for the new connection and reports it to the application that
  asked; the sessions of the client stay distinguishable.
\<close>

theorem session_agreed:
  assumes cl: "client_inv cl" "conn \<notin> cs_conn ` set (cl_openSessions cl)" "junk \<notin> cs_id ` set (cl_openSessions cl)"
    and opens: "handleMessage_c (AppHello conn junk k (Some i) h) cl = Inr (cl1, es)"
    and sv: "server_inv sv" and srv: "serve handle (Some c, HelloMsg h) (sv, m) = Inr ((sv', m'), sent)"
  shows "es = [SocketConnect conn (co_connectAddress i) (co_connectPort i) (co_localPort i), ClientSend conn (HelloMsg h)]
    \<and> (\<exists>s \<in> set (sv_openSessions sv'). ss_conn s = c \<and> sent = [(c, HelloMsg (ss_id s))] \<and> m' = m
        \<and> (ss_id s \<notin> cs_id ` set (cl_openSessions cl) \<longrightarrow>
            (\<exists>cl2. handleMessage_c (TcpMessage (Some conn) (HelloMsg (ss_id s))) cl1
                = Inr (cl2, [ToApplication k (HelloMsg (ss_id s)) None])
              \<and> client_inv cl2 \<and> \<lparr>cs_id = ss_id s, cs_conn = conn, cs_app = k\<rparr> \<in> set (cl_openSessions cl2))))"
proof -
  let ?t = "\<lparr>cs_id = junk, cs_conn = conn, cs_app = k\<rparr>"
  have cl1: "cl_openSessions cl1 = cl_openSessions cl @ [?t]"
    and es: "es = [SocketConnect conn (co_connectAddress i) (co_connectPort i) (co_localPort i), ClientSend conn (HelloMsg h)]"
    using opens by (auto simp: handleMessage_c_def sendHello_def)
  have inv1: "client_inv cl1" using cl by (auto simp: client_inv_def cl1)
  have t: "?t \<in> set (cl_openSessions cl1)" by (simp add: cl1)
  from srv obtain fs where hello: "handleHello (Some c) sv = Inr (sv', fs)"
    and fwd: "forward handle sv' fs m = Inr (m', sent)"
    by (auto simp: serve_def processScheduledMessage_def rbind_Inr_iff)
  from handleHello_spec(3) [OF sv hello] obtain s where s: "s \<in> set (sv_openSessions sv')" "ss_conn s = c"
    and fs: "fs = [SocketSend c (HelloMsg (ss_id s))]" by auto
  have sent: "sent = [(c, HelloMsg (ss_id s))]" "m' = m" using fwd by (simp_all add: fs)
  have "\<exists>cl2. handleMessage_c (TcpMessage (Some conn) (HelloMsg (ss_id s))) cl1
        = Inr (cl2, [ToApplication k (HelloMsg (ss_id s)) None])
      \<and> client_inv cl2 \<and> \<lparr>cs_id = ss_id s, cs_conn = conn, cs_app = k\<rparr> \<in> set (cl_openSessions cl2)"
    if "ss_id s \<notin> cs_id ` set (cl_openSessions cl)"
  proof -
    have d: "distinct (map cs_conn (cl_openSessions cl1))" "distinct (map cs_id (cl_openSessions cl1))"
      using inv1 by (simp_all add: client_inv_def)
    have "ss_id s \<notin> cs_id ` (set (cl_openSessions cl1) - {?t})" using that by (auto simp: cl1)
    with set_session_id_spec [OF d(1) t, of conn "ss_id s"] d show ?thesis
      using client_find(2) [OF inv1 t]
      by (simp add: handleMessage_c_def handleHello_c_def client_inv_def)
  qed
  with es s sent show ?thesis by blast
qed

text \<open>
  A call returns to its caller: a call that an application sends for an open session leaves the
  client over the connection of that session, and whatever the switch answers reaches the client
  over the same connection, is handed to the application that opened the session, carries the
  message id of the call, and is booked by the transaction application under the connection it
  was sent for.
\<close>

theorem call_returns_to_caller:
  assumes cl: "client_inv cl" "t \<in> set (cl_openSessions cl)"
    and sv: "server_inv sv" "s \<in> set (sv_openSessions sv)" and same: "ss_id s = cs_id t"
    and rpc: "ci_session_id (rpc_ctrl rpc) = cs_id t" "rpc_operation rpc \<noteq> CloseSession"
    and app: "find_established (cs_id t) a = Some n"
    and run: "serve (handleOperation clk) (Some (ss_conn s), RpcMsg (rpc_message_id rpc) (Some (rpc_operation rpc))) (sv, m)
      = Inr ((sv', m'), sent)"
  shows "handleMessage_c (AppMessage (Some (rpc_ctrl rpc)) (RpcMsg (rpc_message_id rpc) (Some (rpc_operation rpc)))) cl
      = Inr (cl, [ClientSend (cs_conn t) (RpcMsg (rpc_message_id rpc) (Some (rpc_operation rpc)))])
    \<and> (\<forall>(c, p) \<in> set sent. c = ss_conn s \<and> (\<exists>ci reply.
        handleMessage_c (TcpMessage (Some (cs_conn t)) p) cl = Inr (cl, [ToApplication (cs_app t) p (Some ci)])
        \<and> app_message p (Some ci) address = MsgReply reply
        \<and> rp_message_id reply = rpc_message_id rpc \<and> findConnectionForReply reply a = Inr n))"
proof -
  note f = client_find [OF cl]
  have sent: "\<forall>x \<in> set sent. \<exists>r. x = (ss_conn s, ReplyMsg (rpc_message_id rpc) r)"
    using run unfolding manager_answers.serve_rpc [OF sv rpc(2)] by (auto simp: rbind_Inr_iff)
  have "\<exists>ci reply. handleMessage_c (TcpMessage (Some (cs_conn t)) (ReplyMsg mid r)) cl
        = Inr (cl, [ToApplication (cs_app t) (ReplyMsg mid r) (Some ci)])
      \<and> app_message (ReplyMsg mid r) (Some ci) address = MsgReply reply
      \<and> rp_message_id reply = mid \<and> findConnectionForReply reply a = Inr n" for mid r
    using f app
    by (simp add: handleMessage_c_def messageType_def app_message_def findConnectionForReply_def createCtrlInfoFor_c_def)
  with sent f rpc(1) show ?thesis
    by (fastforce simp: handleMessage_c_def sendToTransport_c_def)
qed

subsection \<open>Examples\<close>

definition example_client :: client where
  "example_client = \<lparr>cl_openSessions = [\<lparr>cs_id = 7, cs_conn = 20, cs_app = 0\<rparr>, \<lparr>cs_id = 1, cs_conn = 21, cs_app = 3\<rparr>]\<rparr>"

definition example_connect :: connect_info where
  "example_connect = \<lparr>co_localPort = -1, co_connectAddress = ''switch3'', co_connectPort = 830\<rparr>"

lemma example_client_inv: "client_inv example_client"
  by (simp add: client_inv_def example_client_def)

lemma example_open:
  "handleMessage_c (AppHello 22 (-5) 4 (Some example_connect) 0) example_client
    = Inr (example_client\<lparr>cl_openSessions := cl_openSessions example_client @ [\<lparr>cs_id = -5, cs_conn = 22, cs_app = 4\<rparr>]\<rparr>,
        [SocketConnect 22 ''switch3'' 830 (-1), ClientSend 22 (HelloMsg 0)])"
  by (simp add: handleMessage_c_def sendHello_def example_connect_def)

lemma example_hello:
  "serve (handleOperation example_manager_clock) (Some 12, HelloMsg 0) (example_server, idle_manager)
    = Inr ((\<lparr>sv_nextSessionId = 4, sv_openSessions = sv_openSessions example_server @ [\<lparr>ss_id = 3, ss_conn = 12\<rparr>]\<rparr>, idle_manager),
        [(12, HelloMsg 3)])"
  by (simp add: serve_def processScheduledMessage_def handleHello_def openNewSession_def findSessionInfoForMsg_def
      sendToTransport_def findSessionInfoForId_def example_server_def Let_def)

theorem session_agreed_witness:
  "\<exists>s :: server_session. ss_conn s = 12 \<and> [(12 :: int, HelloMsg 3)] = [(12, HelloMsg (ss_id s))]
    \<and> (\<exists>cl2. handleMessage_c (TcpMessage (Some 22) (HelloMsg (ss_id s)))
          (example_client\<lparr>cl_openSessions := cl_openSessions example_client @ [\<lparr>cs_id = -5, cs_conn = 22, cs_app = 4\<rparr>]\<rparr>)
        = Inr (cl2, [ToApplication 4 (HelloMsg (ss_id s)) None])
      \<and> client_inv cl2 \<and> \<lparr>cs_id = ss_id s, cs_conn = 22, cs_app = 4\<rparr> \<in> set (cl_openSessions cl2))"
proof -
  have f: "22 \<notin> cs_conn ` set (cl_openSessions example_client)" "-5 \<notin> cs_id ` set (cl_openSessions example_client)"
    "3 \<notin> cs_id ` set (cl_openSessions example_client)"
    by (simp_all add: example_client_def)
  from session_agreed [OF example_client_inv f(1,2) example_open example_server_inv example_hello]
  obtain s :: server_session where s: "ss_conn s = 12" "[(12 :: int, HelloMsg 3)] = [(12, HelloMsg (ss_id s))]"
    and c: "ss_id s \<notin> cs_id ` set (cl_openSessions example_client) \<longrightarrow>
      (\<exists>cl2. handleMessage_c (TcpMessage (Some 22) (HelloMsg (ss_id s)))
          (example_client\<lparr>cl_openSessions := cl_openSessions example_client @ [\<lparr>cs_id = -5, cs_conn = 22, cs_app = 4\<rparr>]\<rparr>)
        = Inr (cl2, [ToApplication 4 (HelloMsg (ss_id s)) None])
      \<and> client_inv cl2 \<and> \<lparr>cs_id = ss_id s, cs_conn = 22, cs_app = 4\<rparr> \<in> set (cl_openSessions cl2))"
    by blast
  have "ss_id s = 3" using s(2) by simp
  with s c f(3) show ?thesis by metis
qed

definition example_rpc :: rpc where
  "example_rpc = \<lparr>rpc_message_id = ''5'', rpc_ctrl = \<lparr>ci_messageType = 0, ci_message_id = ''5'', ci_session_id = 1\<rparr>,
     rpc_operation = Lock ''running'', rpc_byteLength = 37\<rparr>"

theorem call_returns_to_caller_witness:
  "handleMessage_c (AppMessage (Some (rpc_ctrl example_rpc)) (RpcMsg ''5'' (Some (Lock ''running'')))) example_client
      = Inr (example_client, [ClientSend 21 (RpcMsg ''5'' (Some (Lock ''running'')))])
    \<and> (\<exists>ci reply. handleMessage_c (TcpMessage (Some 21) (ReplyMsg ''5'' ReplyOk)) example_client
        = Inr (example_client, [ToApplication 3 (ReplyMsg ''5'' ReplyOk) (Some ci)])
      \<and> app_message (ReplyMsg ''5'' ReplyOk) (Some ci) ''10.0.0.1'' = MsgReply reply
      \<and> rp_message_id reply = ''5'' \<and> findConnectionForReply reply example_tapp = Inr 0)"
proof -
  have find: "find_established 1 example_tapp = Some 0"
    by (simp add: find_established_def find_idx_def example_tapp_def example_connection_def)
  have "serve (handleOperation example_manager_clock) (Some (ss_conn \<lparr>ss_id = 1, ss_conn = 10\<rparr>),
      RpcMsg (rpc_message_id example_rpc) (Some (rpc_operation example_rpc))) (example_server, idle_manager)
    = Inr ((example_server, idle_manager\<lparr>m_running := 1\<rparr>), [(10, ReplyMsg ''5'' ReplyOk)])"
    using example_call by (simp add: example_rpc_def)
  from call_returns_to_caller [OF example_client_inv _ example_server_inv _ _ _ _ _ this,
      of "\<lparr>cs_id = 1, cs_conn = 21, cs_app = 3\<rparr>" example_tapp 0 "''10.0.0.1''"]
  show ?thesis using find
    by (simp add: example_client_def example_server_def example_rpc_def)
qed

end
