(* ===== verification/TransactionLiveness.thy ===== *)
theory TransactionLiveness
  imports TransactionSafety "HOL-Library.Multiset"
begin

text \<open>
  That a transaction comes to its end: if all connections stand and every call is answered with ok,
  in whatever order the answers arrive, the transaction commits on every switch and ends, after a
  number of answers that depends on the numbers of switches and configurations alone.
\<close>

subsection \<open>The environment that answers\<close>

text \<open>The calls an application has sent, as message id and session id.\<close>

fun call_of :: "app_effect \<Rightarrow> (string \<times> int) list" where
  "call_of (SendDelayed d r) = [(rpc_message_id r, ci_session_id (rpc_ctrl r))]"
| "call_of _ = []"

definition calls :: "'a app_scheme \<Rightarrow> (string \<times> int) list" where
  "calls a = concat (map call_of (a_out a))"

definition new_calls :: "'a app_scheme \<Rightarrow> 'a app_scheme \<Rightarrow> (string \<times> int) list" where
  "new_calls a a' = drop (length (calls a)) (calls a')"

text \<open>Each choice names the time and the position of the call that is answered next.\<close>

fun ok_run :: "(simtime \<Rightarrow> app_msg \<Rightarrow> ('z, 'a) tapp_scheme \<Rightarrow> ('z, 'a) tapp_scheme res) \<Rightarrow> (string \<Rightarrow> string)
    \<Rightarrow> (simtime \<times> nat) list \<Rightarrow> ('z, 'a) tapp_scheme \<times> (string \<times> int) list
    \<Rightarrow> (('z, 'a) tapp_scheme \<times> (string \<times> int) list) res" where
  "ok_run machine resolve [] (a, pend) = Inr (a, pend)"
| "ok_run machine resolve ((now, k) # xs) (a, pend) =
     (if pend = [] then Inr (a, pend)
      else let c = pend ! (k mod length pend) in
        rbind (handleMessage_tx resolve machine now (ok_reply (fst c) (snd c)) a) (\<lambda>a'.
          ok_run machine resolve xs (a', remove1 c pend @ new_calls a a')))"

subsection \<open>Switches and their connections\<close>

definition sid :: "'a app_scheme \<Rightarrow> nat \<Rightarrow> int" where
  "sid a ci = cn_session_id (a_connections a ! ci)"

definition linked :: "('z, 'a) tapp_scheme \<Rightarrow> bool" where
  "linked a \<longleftrightarrow> smap_wf (switchStates a) \<and> (\<forall>c \<in> set (a_connections a). cn_state c = ConnectionStateEstablished)
     \<and> distinct (map cn_session_id (a_connections a))
     \<and> (\<forall>x \<in> set (switchStates a). fst (snd x) < length (a_connections a)
          \<and> cn_remoteAddress (a_connections a ! fst (snd x)) = fst x)"

text \<open>The connections of the switches with a property.\<close>

definition conns_with :: "('z switch_state_scheme \<Rightarrow> bool) \<Rightarrow> ('z, 'a) tapp_scheme \<Rightarrow> nat list" where
  "conns_with P a = map (\<lambda>x. fst (snd x)) (filter (\<lambda>x. P (snd (snd x))) (switchStates a))"

lemma calls_out [simp]: "calls (out e a) = calls a @ call_of e"
  by (simp add: calls_def out_def)

lemma calls_update [simp]:
  "calls (a\<lparr>switchStates := m\<rparr>) = calls a" "calls (a\<lparr>transactionState := st\<rparr>) = calls a"
  "calls (a\<lparr>tx_result := r\<rparr>) = calls a" "calls (set_configuration i k f a) = calls a"
  by (simp_all add: calls_def)

lemma linked_cong:
  "a_connections a' = a_connections a \<Longrightarrow> switchStates a' = switchStates a \<Longrightarrow> linked a' = linked a"
  "a_connections a' = a_connections a \<Longrightarrow> sid a' = sid a"
  "switchStates a' = switchStates a \<Longrightarrow> conns_with P a' = conns_with P a"
  by (simp_all add: linked_def sid_def conns_with_def fun_eq_iff)

lemma linked_entry:
  assumes "linked a" and "(addr, ci, s) \<in> set (switchStates a)"
  shows "ci < length (a_connections a)" and "cn_remoteAddress (a_connections a ! ci) = addr"
    and "smap_get addr (switchStates a) = Some (ci, s)"
    and "get_connection ci a = Inr (a_connections a ! ci)"
  using assms by (auto simp: linked_def smap_entries_get [symmetric] get_connection_def vec_at_def)

lemma linked_find:
  assumes l: "linked a" and i: "ci < length (a_connections a)"
  shows "find_established (sid a ci) a = Some ci"
proof -
  have est: "j < length (a_connections a) \<Longrightarrow> cn_state (a_connections a ! j) = ConnectionStateEstablished" for j
    using l by (simp add: linked_def)
  have d: "distinct (map cn_session_id (a_connections a))" using l by (simp add: linked_def)
  have inj: "j = ci" if "j < length (a_connections a)" "cn_session_id (a_connections a ! j) = sid a ci" for j
    using nth_eq_iff_index_eq [OF d, of j ci] that i by (simp add: sid_def)
  show ?thesis
  proof (cases "find_established (sid a ci) a")
    case None
    then show ?thesis using nth_mem [OF i] est [OF i]
      by (auto simp: find_established_def find_idx_None sid_def)
  next
    case (Some j)
    then show ?thesis using inj by (auto simp: find_established_def dest!: find_idx_Some)
  qed
qed

lemma reply_known:
  assumes "linked a" and "(addr, ci, s) \<in> set (switchStates a)"
  shows "ok_reply mid (sid a ci) = MsgReply r \<Longrightarrow> findConnectionForReply r a = Inr ci"
  using linked_find [OF assms(1) linked_entry(1) [OF assms]]
  by (auto simp: ok_reply_def findConnectionForReply_def)

lemma set_switch_known:
  assumes "linked a" and "(addr, ci, s) \<in> set (switchStates a)"
  shows "set_switch ci f a = Inr (a\<lparr>switchStates := smap_modify addr (\<lambda>(c, s). (c, f s)) (switchStates a)\<rparr>)"
  using linked_entry [OF assms] by (simp add: set_switch_def switch_of_def)

lemma linked_modify [simp]:
  "linked (a\<lparr>switchStates := smap_modify addr (\<lambda>(c, s). (c, f s)) (switchStates a)\<rparr>) = linked a"
proof -
  have "(\<forall>x \<in> set (smap_modify addr (\<lambda>(c, s). (c, f s)) m). P (fst x) (fst (snd x)))
      = (\<forall>x \<in> set m. P (fst x) (fst (snd x)))" for m :: "(string, nat \<times> 'a switch_state_scheme) smap" and P
    by (auto simp: smap_modify_def split_def)
  from this [of "switchStates a" "\<lambda>k ci. ci < length (a_connections a) \<and> cn_remoteAddress (a_connections a ! ci) = k"]
  show ?thesis by (simp add: linked_def smap_wf_def)
qed

text \<open>Setting a flag takes one switch out of those without it.\<close>

lemma filter_modify:
  assumes "smap_wf m" and "smap_get addr m = Some (ci, s)" and "P s" and "\<not> P (f s)"
  shows "add_mset ci (mset (map (\<lambda>x. fst (snd x)) (filter (\<lambda>x. P (snd (snd x)))
        (smap_modify addr (\<lambda>(c, s). (c, f s)) m)))) = mset (map (\<lambda>x. fst (snd x)) (filter (\<lambda>x. P (snd (snd x))) m))"
  using assms(1,2)
proof (induction m)
  case (Cons x m)
  obtain k c s' where x: "x = (k, c, s')" by (cases x)
  show ?case
  proof (cases "k = addr")
    case True
    then have "smap_get addr m = None" using Cons.prems(1) x by (auto simp: smap_wf_Cons intro: smap_get_notin)
    then show ?thesis using True x Cons.prems(2) assms(3,4) by (simp add: smap_modify_absent)
  next
    case False
    then show ?thesis using Cons x by (auto simp: smap_wf_Cons)
  qed
qed simp

lemma conns_with_modify:
  assumes "linked a" and "(addr, ci, s) \<in> set (switchStates a)" and "P s" and "\<not> P (f s)"
  shows "mset (conns_with P a)
    = add_mset ci (mset (conns_with P (a\<lparr>switchStates := smap_modify addr (\<lambda>(c, s). (c, f s)) (switchStates a)\<rparr>)))"
  using filter_modify [of "switchStates a" addr ci s P f] linked_entry(3) [OF assms(1,2)] assms
  by (simp add: conns_with_def linked_def)

lemma conns_with_mem: "ci \<in> set (conns_with P a) \<longleftrightarrow> (\<exists>addr s. (addr, ci, s) \<in> set (switchStates a) \<and> P s)"
  by (force simp: conns_with_def)

lemma conns_with_all: "sw_all P a \<Longrightarrow> conns_with P a = map (\<lambda>x. fst (snd x)) (switchStates a)"
  by (simp add: conns_with_def sw_all_def)

lemma conns_with_none: "conns_with P a = [] \<longleftrightarrow> sw_all (\<lambda>s. \<not> P s) a"
  by (simp add: conns_with_def sw_all_def filter_empty_conv)

lemma sw_all_modify:
  assumes "sw_all P a" and "\<And>s. P s \<Longrightarrow> P (f s)"
  shows "sw_all P (a\<lparr>switchStates := smap_modify addr (\<lambda>(c, s). (c, f s)) (switchStates a)\<rparr>)"
  using assms by (fastforce simp: sw_all_def smap_modify_def)

subsection \<open>Sending\<close>

definition sent :: "(string \<times> int) list \<Rightarrow> ('z, 'a) tapp_scheme \<Rightarrow> ('z, 'a) tapp_scheme \<Rightarrow> bool" where
  "sent cs a a' \<longleftrightarrow> a_connections a' = a_connections a \<and> switchStates a' = switchStates a \<and> calls a' = calls a @ cs"

lemma sent_refl [simp]: "sent [] a a"
  by (simp add: sent_def)

lemma sent_trans: "sent cs a b \<Longrightarrow> sent ds b c \<Longrightarrow> sent (cs @ ds) a c"
  by (simp add: sent_def)

lemma sent_outs: "\<forall>e \<in> set es. call_of e = [] \<Longrightarrow> sent [] a (fold out es a)"
proof (induction es arbitrary: a)
  case (Cons e es)
  then have "sent [] (out e a) (fold out es (out e a))" by simp
  then show ?case using Cons.prems by (simp add: sent_def)
qed simp

lemma send_config_ok:
  assumes "i < length (a_connections a)" and "createOperation config = Inr ol"
  shows "\<exists>a'. send_config i config mid a = Inr a' \<and> sent [(mid, sid a i)] a a'"
  using assms by (cases ol)
    (simp add: send_config_def get_connection_def vec_at_def createNetConfRPCForConfiguration_def sent_def
      createControlInfo_def sid_def)

lemma send_loop_ok:
  assumes "createOperation config = Inr ol" and "\<forall>e \<in> set es. call_of e = []"
  shows "\<forall>i \<in> set is. i < length (a_connections a) \<Longrightarrow>
    \<exists>a'. send_loop is config mid es a = Inr a' \<and> sent (map (\<lambda>i. (mid, sid a i)) is) a a'"
proof (induction "is" arbitrary: a)
  case (Cons i "is")
  from send_config_ok [OF _ assms(1), of i a mid] Cons.prems
  obtain a1 where a1: "send_config i config mid a = Inr a1" and s1: "sent [(mid, sid a i)] a a1" by auto
  have s2: "sent [] a1 (fold out es a1)" by (rule sent_outs [OF assms(2)])
  from s1 s2 have c: "a_connections (fold out es a1) = a_connections a" by (simp add: sent_def)
  have "\<forall>i \<in> set is. i < length (a_connections (fold out es a1))" using Cons.prems unfolding c by simp
  from Cons.IH [OF this] obtain a' where a': "send_loop is config mid es (fold out es a1) = Inr a'"
    and s3: "sent (map (\<lambda>i. (mid, sid (fold out es a1) i)) is) (fold out es a1) a'" by blast
  have "sid (fold out es a1) = sid a" by (rule linked_cong(2) [OF c])
  with sent_trans [OF s1 sent_trans [OF s2 s3]] a1 a' show ?case by auto
qed simp

lemma send_to_all_ok:
  assumes "linked a" and "createOperation config = Inr ol" and "\<forall>e \<in> set es. call_of e = []"
  shows "\<exists>a'. send_to_all config mid es a = Inr a'
    \<and> sent (map (\<lambda>i. (mid, sid a i)) (map (\<lambda>x. fst (snd x)) (switchStates a))) a a'"
  using send_loop_ok [OF assms(2,3), of "map (\<lambda>x. fst (snd x)) (switchStates a)" a mid] assms(1)
  by (simp add: send_to_all_def linked_def split_def)

subsection \<open>What every state promises\<close>

definition live_switch :: "tx_state \<Rightarrow> 'z switch_state_scheme \<Rightarrow> bool" where
  "live_switch st s \<longleftrightarrow> \<not> hasError s \<and>
     (case st of
        WaitOnLockResponse \<Rightarrow> \<not> hasCandidate s \<and> \<not> hasLockedCandidate s \<and> \<not> hasConfiguration s \<and> \<not> hasCommited s
      | WaitOnCandidateConfirmation \<Rightarrow> hasLockedRunning s \<and> \<not> hasLockedCandidate s \<and> \<not> hasConfiguration s \<and> \<not> hasCommited s
      | WaitOnCandidateLockResponse \<Rightarrow> hasLockedRunning s \<and> hasCandidate s \<and> \<not> hasConfiguration s \<and> \<not> hasCommited s
      | WaitOnChangeConfirmation \<Rightarrow> hasLockedRunning s \<and> hasCandidate s \<and> hasLockedCandidate s \<and> \<not> hasCommited s
      | WaitOnCommitExecution \<Rightarrow> hasLockedRunning s \<and> hasCandidate s \<and> hasLockedCandidate s \<and> hasConfiguration s
      | WaitOnDeleteOldConfiguration \<Rightarrow> hasLockedRunning s \<and> hasConfiguration s \<and> hasCommited s
          \<and> hasCandidate s = hasLockedCandidate s
      | WaitOnUnlock \<Rightarrow> done_ok s
      | EndOfTransaction \<Rightarrow> done_ok s \<and> \<not> hasLockedRunning s
      | _ \<Rightarrow> False)"

text \<open>Whether a switch has answered in a state, the kind it is counted by, and the id of its call.\<close>

definition answered :: "tx_state \<Rightarrow> 'z switch_state_scheme \<Rightarrow> bool" where
  "answered st s =
     (case st of
        WaitOnLockResponse \<Rightarrow> hasLockedRunning s
      | WaitOnCandidateConfirmation \<Rightarrow> hasCandidate s
      | WaitOnCandidateLockResponse \<Rightarrow> hasLockedCandidate s
      | WaitOnChangeConfirmation \<Rightarrow> hasConfiguration s
      | WaitOnCommitExecution \<Rightarrow> hasCommited s
      | WaitOnDeleteOldConfiguration \<Rightarrow> \<not> hasCandidate s
      | WaitOnUnlock \<Rightarrow> \<not> hasLockedRunning s
      | _ \<Rightarrow> True)"

definition kind_of :: "tx_state \<Rightarrow> sw_kind" where
  "kind_of st =
     (case st of
        WaitOnLockResponse \<Rightarrow> SwitchLocked
      | WaitOnCandidateConfirmation \<Rightarrow> SwitchWithCandidate
      | WaitOnCandidateLockResponse \<Rightarrow> SwitchWithLockedCandidate
      | WaitOnChangeConfirmation \<Rightarrow> SwitchWithChangedCandidateConfiguration
      | WaitOnCommitExecution \<Rightarrow> SwitchCommited
      | WaitOnDeleteOldConfiguration \<Rightarrow> SwitchWithoutOldConfig
      | _ \<Rightarrow> SwitchUnlocked)"

definition call_id :: "tx_state \<Rightarrow> string" where
  "call_id st =
     (case st of
        WaitOnLockResponse \<Rightarrow> LOCK_MSG_ID
      | WaitOnCandidateConfirmation \<Rightarrow> COPY_CONFIG_MSG_ID
      | WaitOnCandidateLockResponse \<Rightarrow> LOCK_CANDIDATE_MSG_ID
      | WaitOnCommitExecution \<Rightarrow> COMMIT_APPROVED_MSG_ID
      | WaitOnDeleteOldConfiguration \<Rightarrow> DELETE_OLD_CONFIG_MSG_ID
      | _ \<Rightarrow> UNLOCK_MSG_ID)"

text \<open>The rounds of one call per switch that follow a state, and the states of such a round.\<close>

definition rounds :: "tx_state \<Rightarrow> nat" where
  "rounds st =
     (case st of WaitOnLockResponse \<Rightarrow> 5 | WaitOnCandidateConfirmation \<Rightarrow> 4 | WaitOnCandidateLockResponse \<Rightarrow> 3
      | WaitOnCommitExecution \<Rightarrow> 2 | WaitOnDeleteOldConfiguration \<Rightarrow> 1 | _ \<Rightarrow> 0)"

definition simple_phase :: "tx_state \<Rightarrow> bool" where
  "simple_phase st \<longleftrightarrow> st = WaitOnCandidateConfirmation \<or> st = WaitOnCandidateLockResponse
     \<or> st = WaitOnCommitExecution \<or> st = WaitOnDeleteOldConfiguration \<or> st = WaitOnUnlock"

definition unanswered :: "('z, 'a) tapp_scheme \<Rightarrow> nat list" where
  "unanswered a = conns_with (\<lambda>s. \<not> answered (transactionState a) s) a"

lemmas phase_defs = live_switch_def answered_def kind_of_def call_id_def rounds_def simple_phase_def done_ok_def

text \<open>The configurations of a connection while they are changed one after the other.\<close>

definition cfgs :: "'a app_scheme \<Rightarrow> nat \<Rightarrow> configuration list" where
  "cfgs a ci = cn_configurations (a_connections a ! ci)"

definition changeable :: "configuration \<Rightarrow> bool" where
  "changeable cf \<longleftrightarrow> cf_type cf = MT_EditConfig \<and> cf_data cf \<noteq> None"

definition progress :: "configuration list \<Rightarrow> nat \<Rightarrow> bool" where
  "progress cs m \<longleftrightarrow> m < length cs \<and> (\<forall>j < m. cf_state (cs ! j) = ConfigurationStateSuccess)
     \<and> cf_state (cs ! m) = ConfigurationStateRequested
     \<and> (\<forall>j. m < j \<longrightarrow> j < length cs \<longrightarrow> cf_state (cs ! j) = ConfigurationStateWaiting)"

definition current :: "configuration list \<Rightarrow> nat" where
  "current cs = (case find_idx (\<lambda>cf. cf_state cf = ConfigurationStateRequested) cs of Some m \<Rightarrow> m | None \<Rightarrow> 0)"

definition cfg_ok :: "tx_state \<Rightarrow> bool \<Rightarrow> configuration list \<Rightarrow> bool" where
  "cfg_ok st b cs \<longleftrightarrow> (\<forall>cf \<in> set cs. changeable cf) \<and>
     (if rounds st \<ge> 3 then cs \<noteq> [] \<and> (\<forall>cf \<in> set cs. cf_state cf = ConfigurationStateWaiting)
      else if st = WaitOnChangeConfirmation \<and> \<not> b then progress cs (current cs)
      else \<forall>cf \<in> set cs. cf_state cf = ConfigurationStateSuccess)"

definition cfg_left :: "configuration list \<Rightarrow> nat" where
  "cfg_left cs = length (filter (\<lambda>cf. cf_state cf \<noteq> ConfigurationStateSuccess) cs)"

definition configs_left :: "('z, 'a) tapp_scheme \<Rightarrow> nat" where
  "configs_left a = sum_list (map (\<lambda>x. cfg_left (cfgs a (fst (snd x)))) (switchStates a))"

definition expected :: "('z, 'a) tapp_scheme \<Rightarrow> (string \<times> int) list" where
  "expected a =
     (case transactionState a of
        WaitOnLockResponse \<Rightarrow> map (\<lambda>ci. (LOCK_MSG_ID, sid a ci)) (take 1 (unanswered a))
      | WaitOnChangeConfirmation \<Rightarrow> map (\<lambda>ci. (to_string (current (cfgs a ci)), sid a ci)) (unanswered a)
      | st \<Rightarrow> map (\<lambda>ci. (call_id st, sid a ci)) (unanswered a))"

definition answers_left :: "('z, 'a) tapp_scheme \<Rightarrow> nat" where
  "answers_left a =
     (if transactionState a = WaitOnChangeConfirmation then 3 * total a
      else length (unanswered a) + rounds (transactionState a) * total a) + configs_left a"

definition live :: "('z, 'a) tapp_scheme \<Rightarrow> (string \<times> int) list \<Rightarrow> nat \<Rightarrow> bool" where
  "live a pend w \<longleftrightarrow> linked a \<and> switchStates a \<noteq> [] \<and> sw_all (live_switch (transactionState a)) a
     \<and> (\<forall>x \<in> set (switchStates a). cfg_ok (transactionState a) (hasConfiguration (snd (snd x))) (cfgs a (fst (snd x))))
     \<and> mset pend = mset (expected a) \<and> (transactionState a \<noteq> EndOfTransaction \<longrightarrow> unanswered a \<noteq> [])
     \<and> w = answers_left a"

lemma live_cong:
  assumes "a_connections a' = a_connections a" and "switchStates a' = switchStates a"
    and "transactionState a' = transactionState a"
  shows "live a' pend w = live a pend w"
proof -
  have "unanswered a' = unanswered a" "sid a' = sid a" "cfgs a' = cfgs a"
    using assms by (simp_all add: unanswered_def conns_with_def sid_def cfgs_def fun_eq_iff)
  then show ?thesis
    using assms linked_cong(1) [OF assms(1,2)]
    by (simp add: live_def expected_def answers_left_def configs_left_def sw_all_def cong: tx_state.case_cong)
qed

lemma count_answered:
  assumes "sw_all (live_switch st) a" and "st \<noteq> EndOfTransaction"
  shows "length (getSwitchesInState (kind_of st) a) = total a \<longleftrightarrow> conns_with (\<lambda>s. \<not> answered st s) a = []"
proof -
  have "sw_all (isInState (kind_of st)) a \<longleftrightarrow> sw_all (answered st) a"
    using assms by (cases st) (auto simp: sw_all_def phase_defs isInState_def)
  then show ?thesis by (simp add: count_total conns_with_none)
qed

lemma count_answered_less:
  assumes "sw_all (live_switch st) a" and "st \<noteq> EndOfTransaction"
  shows "length (getSwitchesInState (kind_of st) a) < total a \<longleftrightarrow> conns_with (\<lambda>s. \<not> answered st s) a \<noteq> []"
  using count_answered [OF assms] count_le_total [of "kind_of st" a] by linarith

lemma no_errors: "sw_all (live_switch st) a \<Longrightarrow> getSwitchesInState SwitchError a = []"
  using count_zero [of SwitchError a] by (auto simp: sw_all_def live_switch_def isInState_def)

lemma configs_left_cong:
  assumes "a_connections a' = a_connections a"
    and "switchStates a' = smap_modify addr (\<lambda>(c, s). (c, f s)) (switchStates a)"
  shows "configs_left a' = configs_left a"
proof -
  have "map (\<lambda>x. fst (snd x)) (switchStates a') = map (\<lambda>x. fst (snd x)) (switchStates a)"
    unfolding assms(2) by (auto simp: smap_modify_def split_def)
  then have "map (\<lambda>ci. cfg_left (cfgs a ci)) (map (\<lambda>x. fst (snd x)) (switchStates a'))
      = map (\<lambda>ci. cfg_left (cfgs a ci)) (map (\<lambda>x. fst (snd x)) (switchStates a))" by presburger
  moreover have "cfgs a' = cfgs a" using assms(1) by (simp add: cfgs_def fun_eq_iff)
  ultimately show ?thesis by (simp add: configs_left_def comp_def)
qed

subsection \<open>Rounds of one call per switch\<close>

lemma simple_expected:
  "simple_phase (transactionState a) \<Longrightarrow>
    expected a = map (\<lambda>ci. (call_id (transactionState a), sid a ci)) (unanswered a)
    \<and> answers_left a = length (unanswered a) + rounds (transactionState a) * total a + configs_left a"
  by (auto simp: simple_phase_def expected_def answers_left_def)

definition round_phase :: "tx_state \<Rightarrow> bool" where
  "round_phase st \<longleftrightarrow> simple_phase st \<or> st = WaitOnLockResponse"

lemma round_expected:
  assumes "round_phase (transactionState a)"
  shows "answers_left a = length (unanswered a) + rounds (transactionState a) * total a + configs_left a"
    and "mset (unanswered a) = {#ci#} \<Longrightarrow> expected a = [(call_id (transactionState a), sid a ci)]"
  using assms by (auto simp: round_phase_def simple_phase_def expected_def answers_left_def call_id_def)

lemma cfg_ok_modify:
  assumes "\<forall>x \<in> set (switchStates a). cfg_ok st (hasConfiguration (snd (snd x))) (cfgs a (fst (snd x)))"
    and "a_connections a' = a_connections a"
    and "switchStates a' = smap_modify addr (\<lambda>(c, s). (c, f s)) (switchStates a)"
    and "\<And>b c cs. cfg_ok st b cs \<Longrightarrow> cfg_ok st' c cs"
  shows "\<forall>x \<in> set (switchStates a'). cfg_ok st' (hasConfiguration (snd (snd x))) (cfgs a' (fst (snd x)))"
proof
  fix x assume x: "x \<in> set (switchStates a')"
  obtain k c s where "x = (k, c, s)" by (cases x)
  with x assms(3) obtain s0 where "(k, c, s0) \<in> set (switchStates a)"
    by (cases "k = addr") (auto simp: smap_modify_mem)
  with assms(1) have "cfg_ok st (hasConfiguration s0) (cfgs a c)" by force
  moreover have "cfgs a' = cfgs a" using assms(2) by (simp add: cfgs_def fun_eq_iff)
  ultimately show "cfg_ok st' (hasConfiguration (snd (snd x))) (cfgs a' (fst (snd x)))"
    using assms(4) \<open>x = (k, c, s)\<close> by simp
qed

lemma unanswered_modify:
  assumes "linked a" and "(addr, ci, s) \<in> set (switchStates a)" and "\<not> answered (transactionState a) s"
    and "answered (transactionState a) (f s)"
    and "switchStates a' = smap_modify addr (\<lambda>(c, s). (c, f s)) (switchStates a)"
  shows "mset (unanswered a) = add_mset ci (mset (conns_with (\<lambda>s. \<not> answered (transactionState a) s) a'))"
proof -
  have "conns_with P a' = conns_with P (a\<lparr>switchStates := smap_modify addr (\<lambda>(c, s). (c, f s)) (switchStates a)\<rparr>)" for P
    by (simp add: conns_with_def assms(5))
  with conns_with_modify [OF assms(1,2), of "\<lambda>s. \<not> answered (transactionState a) s" f] assms(3,4)
  show ?thesis by (simp add: unanswered_def)
qed

lemma modified_facts:
  assumes "linked a" and "sw_all P a" and "\<And>s. P s \<Longrightarrow> P (f s)"
    and "a_connections a' = a_connections a"
    and "switchStates a' = smap_modify addr (\<lambda>(c, s). (c, f s)) (switchStates a)"
  shows "linked a'" and "sw_all P a'" and "sid a' = sid a" and "total a' = total a" and "configs_left a' = configs_left a"
proof -
  let ?a = "a\<lparr>switchStates := smap_modify addr (\<lambda>(c, s). (c, f s)) (switchStates a)\<rparr>"
  show "linked a'" using linked_cong(1) [of a' ?a] assms(1,4,5) by simp
  show "sw_all P a'" using sw_all_modify [where f = f and addr = addr, OF assms(2,3)] by (simp add: sw_all_def assms(5))
  show "sid a' = sid a" by (rule linked_cong(2) [OF assms(4)])
  show "total a' = total a" by (simp add: assms(5))
  show "configs_left a' = configs_left a" by (rule configs_left_cong [OF assms(4,5)])
qed

text \<open>An answer that is not the last of its round.\<close>

lemma stay_live:
  assumes live: "live a pend w" and simple: "simple_phase (transactionState a)"
    and e: "(addr, ci, s) \<in> set (switchStates a)" "\<not> answered (transactionState a) s"
    and f: "answered (transactionState a) (f s)"
      "\<And>s :: 'z switch_state_scheme. live_switch (transactionState a) s \<Longrightarrow> live_switch (transactionState a) (f s)"
    and a': "a_connections a' = a_connections a" "transactionState a' = transactionState a"
      "switchStates (a' :: ('z, 'a) tapp_scheme) = smap_modify addr (\<lambda>(c, s). (c, f s)) (switchStates a)"
    and more: "unanswered a' \<noteq> []"
  shows "live a' (remove1 (call_id (transactionState a), sid a ci) pend) (w - 1)"
proof -
  from live have l: "linked a" and ne: "switchStates a \<noteq> []" and sw: "sw_all (live_switch (transactionState a)) a"
    and cf: "\<forall>x \<in> set (switchStates a). cfg_ok (transactionState a) (hasConfiguration (snd (snd x))) (cfgs a (fst (snd x)))"
    and pend: "mset pend = mset (expected a)" and w: "w = answers_left a"
    by (simp_all add: live_def)
  note m = modified_facts [OF l sw f(2) a'(1,3)]
  have nch: "transactionState a \<noteq> WaitOnChangeConfirmation" using simple by (auto simp: simple_phase_def)
  have cf': "\<forall>x \<in> set (switchStates a'). cfg_ok (transactionState a) (hasConfiguration (snd (snd x))) (cfgs a' (fst (snd x)))"
    by (rule cfg_ok_modify [OF cf a'(1,3)]) (simp add: cfg_ok_def nch)
  have u: "mset (unanswered a) = add_mset ci (mset (unanswered a'))"
    using unanswered_modify [where f = f, OF l e f(1) a'(3)] by (simp add: unanswered_def a'(2))
  note se = simple_expected [OF simple] simple_expected [of a', unfolded a'(2), OF simple]
  have "mset (expected a) = add_mset (call_id (transactionState a), sid a ci) (mset (expected a'))"
    using u se m(3) by (simp add: mset_map)
  moreover have "length (unanswered a) = Suc (length (unanswered a'))"
    using arg_cong [OF u, of size] by simp
  moreover have "switchStates a' \<noteq> []" using m(4) ne by auto
  ultimately show ?thesis
    using m cf' pend w se more by (simp add: live_def a'(2))
qed

text \<open>
  The last answer of a round that starts the next one: all switches get the next call. The
  successor may be any state in which nobody has answered yet.
\<close>

lemma next_live:
  assumes live: "live a pend w" and round: "round_phase (transactionState a)"
    and e: "(addr, ci, s) \<in> set (switchStates a)" "\<not> answered (transactionState a) s"
    and f: "answered (transactionState a) (f s)"
      "\<And>s :: 'z switch_state_scheme. live_switch (transactionState a) s \<Longrightarrow> live_switch (transactionState a) (f s)"
    and a1: "a_connections a1 = a_connections a"
      "switchStates a1 = smap_modify addr (\<lambda>(c, s). (c, f s)) (switchStates a)"
    and no: "conns_with (\<lambda>s. \<not> answered (transactionState a) s) a1 = []"
    and st: "simple_phase st" "rounds (transactionState a) = Suc (rounds st)"
      "\<And>s :: 'z switch_state_scheme. live_switch (transactionState a) s \<Longrightarrow> answered (transactionState a) s
         \<Longrightarrow> live_switch st s \<and> \<not> answered st s"
      "\<And>b c cs. cfg_ok (transactionState a) b cs \<Longrightarrow> cfg_ok st c cs"
    and a': "a_connections a' = a_connections a1" "transactionState a' = st"
      "switchStates (a' :: ('z, 'a) tapp_scheme) = switchStates a1"
  shows "live a' (remove1 (call_id (transactionState a), sid a ci) pend
      @ map (\<lambda>i. (call_id st, sid a1 i)) (map (\<lambda>x. fst (snd x)) (switchStates a1))) (w - 1)"
proof -
  from live have l: "linked a" and ne: "switchStates a \<noteq> []" and sw: "sw_all (live_switch (transactionState a)) a"
    and cf: "\<forall>x \<in> set (switchStates a). cfg_ok (transactionState a) (hasConfiguration (snd (snd x))) (cfgs a (fst (snd x)))"
    and pend: "mset pend = mset (expected a)" and w: "w = answers_left a"
    by (simp_all add: live_def)
  have c': "a_connections a' = a_connections a"
    and s': "switchStates a' = smap_modify addr (\<lambda>(c, s). (c, f s)) (switchStates a)"
    using a1 a' by simp_all
  note m = modified_facts [OF l sw f(2) c' s']
  have cf': "\<forall>x \<in> set (switchStates a'). cfg_ok st (hasConfiguration (snd (snd x))) (cfgs a' (fst (snd x)))"
    by (rule cfg_ok_modify [OF cf c' s' st(4)])
  have no': "conns_with (\<lambda>s. \<not> answered (transactionState a) s) a' = []"
    using no by (simp add: conns_with_def a'(3))
  have u: "mset (unanswered a) = {#ci#}"
    using unanswered_modify [where f = f, OF l e f(1) s'] no' by simp
  have sw': "sw_all (live_switch st) a'" and un: "sw_all (\<lambda>s. \<not> answered st s) a'"
    using m(2) no' st(3) by (auto simp: conns_with_none sw_all_def)
  note se = round_expected(1) [OF round] round_expected(2) [OF round u] simple_expected [of a', unfolded a'(2), OF st(1)]
  have ua: "unanswered a' = map (\<lambda>x. fst (snd x)) (switchStates a')"
    using conns_with_all [OF un] by (simp add: unanswered_def a'(2))
  have "mset pend = {#(call_id (transactionState a), sid a ci)#}"
    using pend se by simp
  then have "remove1 (call_id (transactionState a), sid a ci) pend = []" by simp
  moreover have "sid a1 = sid a" by (rule linked_cong(2) [OF a1(1)])
  moreover have "length (unanswered a) = 1" using arg_cong [OF u, of size] by simp
  moreover have "switchStates a' \<noteq> []" using m(4) ne by auto
  ultimately show ?thesis
    using m cf' sw' w se st(2) ua a'(3) by (simp add: live_def a'(2) comp_def)
qed

lemma pend_entry:
  assumes "live a pend w" and "simple_phase (transactionState a)" and "c \<in> set pend"
  obtains addr ci s where "(addr, ci, s) \<in> set (switchStates a)" and "\<not> answered (transactionState a) s"
    and "c = (call_id (transactionState a), sid a ci)"
proof -
  from assms(1) have "mset pend = mset (expected a)" by (simp add: live_def)
  then have "set pend = set (expected a)" by (rule mset_eq_setD)
  with assms(2,3) obtain ci where "ci \<in> set (unanswered a)" and "c = (call_id (transactionState a), sid a ci)"
    by (auto simp: simple_expected)
  then show ?thesis using that by (auto simp: unanswered_def conns_with_mem)
qed

abbreviation modified :: "string \<Rightarrow> ('z switch_state_scheme \<Rightarrow> 'z switch_state_scheme) \<Rightarrow> ('z, 'a) tapp_scheme \<Rightarrow> ('z, 'a) tapp_scheme" where
  "modified addr f a \<equiv> a\<lparr>switchStates := smap_modify addr (\<lambda>(c, s). (c, f s)) (switchStates a)\<rparr>"

definition steps :: "(('z, 'a) tapp_scheme) res \<Rightarrow> ('z, 'a) tapp_scheme \<Rightarrow> string \<times> int \<Rightarrow> (string \<times> int) list \<Rightarrow> nat \<Rightarrow> bool" where
  "steps h a c pend w \<longleftrightarrow> (\<exists>a' cs. h = Inr a' \<and> calls a' = calls a @ cs
     \<and> map fst (switchStates a') = map fst (switchStates a) \<and> live a' (remove1 c pend @ cs) (w - 1))"

lemma stepsI:
  assumes "h = Inr a'" and "calls a' = calls a @ cs" and "live a' (remove1 c pend @ cs) (w - 1)"
    and "map fst (switchStates a') = map fst (switchStates a)"
  shows "steps h a c pend w"
  using assms unfolding steps_def by blast

lemma phase_step:
  assumes live: "live a pend w" and simple: "simple_phase (transactionState a)"
    and e: "(addr, ci, s) \<in> set (switchStates a)" "\<not> answered (transactionState a) s"
    and f: "answered (transactionState a) (f s)"
      "\<And>s :: 'z switch_state_scheme. live_switch (transactionState a) s \<Longrightarrow> live_switch (transactionState a) (f s)"
    and st: "simple_phase st" "rounds (transactionState a) = Suc (rounds st)"
      "\<And>s :: 'z switch_state_scheme. live_switch (transactionState a) s \<Longrightarrow> answered (transactionState a) s
         \<Longrightarrow> live_switch st s \<and> \<not> answered st s"
      "\<And>b c cs. cfg_ok (transactionState a) b cs \<Longrightarrow> cfg_ok st c cs"
    and config: "createOperation config = Inr ol" "\<forall>e \<in> set es. call_of e = []"
    and pre: "sent [] (modified addr f a) pre"
    and h: "h = (if length (getSwitchesInState (kind_of (transactionState a)) (modified addr f a)) < total (modified addr f a)
       then Inr ((modified addr f a)\<lparr>transactionState := transactionState a\<rparr>)
       else rbind (send_to_all config (call_id st) es pre) (\<lambda>a2. Inr (a2\<lparr>transactionState := st\<rparr>)))"
  shows "steps h a (call_id (transactionState a), sid a ci) pend w"
proof -
  let ?st = "transactionState a" and ?a1 = "modified addr f a"
  from live have l: "linked a" and sw: "sw_all (live_switch ?st) a" by (simp_all add: live_def)
  note m = modified_facts [where a' = ?a1 and addr = addr and f = f, OF l sw f(2)]
  have sw1: "sw_all (live_switch ?st) ?a1" by (rule m(2)) simp_all
  have nend: "?st \<noteq> EndOfTransaction" using simple by (auto simp: simple_phase_def)
  show ?thesis
  proof (cases "conns_with (\<lambda>s. \<not> answered ?st s) ?a1 = []")
    case False
    then have "h = Inr (?a1\<lparr>transactionState := ?st\<rparr>)"
      using h count_answered_less [OF sw1 nend] by simp
    moreover have "live (?a1\<lparr>transactionState := ?st\<rparr>) (remove1 (call_id ?st, sid a ci) pend) (w - 1)"
      by (rule stay_live [where f = f, OF live simple e f])
        (use False in \<open>simp_all add: unanswered_def conns_with_def\<close>)
    ultimately show ?thesis unfolding steps_def by (intro exI [of _ "?a1\<lparr>transactionState := ?st\<rparr>"] exI [of _ "[]"]) simp
  next
    case True
    have prec: "a_connections pre = a_connections ?a1" "switchStates pre = switchStates ?a1" "calls pre = calls ?a1"
      using pre by (simp_all add: sent_def)
    have "linked pre" using linked_cong(1) [OF prec(1,2)] l by simp
    from send_to_all_ok [OF this config] obtain a2 where
      a2: "send_to_all config (call_id st) es pre = Inr a2"
      and s2: "sent (map (\<lambda>i. (call_id st, sid pre i)) (map (\<lambda>x. fst (snd x)) (switchStates pre))) pre a2" by blast
    have hh: "h = Inr (a2\<lparr>transactionState := st\<rparr>)"
      using h count_answered_less [OF sw1 nend] True a2 by simp
    have sp: "sid pre = sid ?a1" by (rule linked_cong(2) [OF prec(1)])
    have "live (a2\<lparr>transactionState := st\<rparr>) (remove1 (call_id ?st, sid a ci) pend
        @ map (\<lambda>i. (call_id st, sid ?a1 i)) (map (\<lambda>x. fst (snd x)) (switchStates ?a1))) (w - 1)"
      by (rule next_live [where f = f, OF live _ e f _ _ True st])
        (use s2 prec simple in \<open>simp_all add: sent_def round_phase_def\<close>)
    then show ?thesis
      unfolding steps_def using hh s2 prec sp
      by (intro exI [of _ "a2\<lparr>transactionState := st\<rparr>"]
          exI [of _ "map (\<lambda>i. (call_id st, sid ?a1 i)) (map (\<lambda>x. fst (snd x)) (switchStates ?a1))"]) (simp add: sent_def)
  qed
qed

text \<open>The handlers on ok replies of known switches.\<close>

lemma rbind_assoc: "rbind (rbind r f) g = rbind r (\<lambda>x. rbind (f x) g)"
  by (cases r) simp_all

lemmas fsm_simps = rbind_assoc fsm_def finiteStateMachine_def checkEventHandled_def handled_def ok_reply_def

lemma known_reply:
  assumes "linked a" and "(addr, ci, s) \<in> set (switchStates a)"
  shows "findConnectionForReply \<lparr>rp_message_id = mid, rp_element = ReplyOk,
     rp_ctrl = Some \<lparr>ci_messageType = 1, ci_message_id = mid, ci_session_id = sid a ci\<rparr>\<rparr> a = Inr ci"
  using reply_known [OF assms, of mid] by (simp add: ok_reply_def)

lemma simple_transition:
  "simple_phase st \<or> st = WaitOnChangeConfirmation \<Longrightarrow> transitionToState now st a = Inr (a\<lparr>transactionState := st\<rparr>)"
  by (auto simp: simple_phase_def transitionToState_def Let_def)

lemma create_simple [simp]:
  "createOperation (lock_config t) = Inr (Lock t, operation_base_length (Lock t) + 8)"
  "createOperation (unlock_config t) = Inr (Unlock t, operation_base_length (Unlock t) + 8)"
  "createOperation (copy_config s t) = Inr (CopyConfig s t, operation_base_length (CopyConfig s t) + (8 + 8))"
  "createOperation (delete_config t) = Inr (DeleteConfig t, operation_base_length (DeleteConfig t) + 8)"
  "createOperation commit_config = Inr (Commit, operation_base_length Commit)"
  by (simp_all add: createOperation_def lock_config_def unlock_config_def copy_config_def delete_config_def
      commit_config_def new_configuration_def Let_def)

text \<open>One answer in a round: what is left to show is how the handler of the state reads.\<close>

lemma round_step:
  fixes a :: "('z, 'a) tapp_scheme" and f :: "'z switch_state_scheme \<Rightarrow> 'z switch_state_scheme"
  assumes live: "live a pend w" and simple: "simple_phase (transactionState a)" and c: "c \<in> set pend"
    and f: "\<And>s. answered (transactionState a) (f s)"
      "\<And>s. live_switch (transactionState a) s \<Longrightarrow> live_switch (transactionState a) (f s)"
    and st: "simple_phase st" "rounds (transactionState a) = Suc (rounds st)"
      "\<And>s :: 'z switch_state_scheme. live_switch (transactionState a) s \<Longrightarrow> answered (transactionState a) s
         \<Longrightarrow> live_switch st s \<and> \<not> answered st s"
      "\<And>b c cs. cfg_ok (transactionState a) b cs \<Longrightarrow> cfg_ok st c cs"
    and config: "createOperation config = Inr ol" "\<forall>e \<in> set es. call_of e = []"
    and pre: "\<And>a :: ('z, 'a) tapp_scheme. sent [] a (pre a)"
    and h: "\<And>addr ci s. linked a \<Longrightarrow> (addr, ci, s) \<in> set (switchStates a)
      \<Longrightarrow> getSwitchesInState SwitchError (modified addr f a) = []
      \<Longrightarrow> machine (ok_reply (call_id (transactionState a)) (sid a ci)) =
        (if length (getSwitchesInState (kind_of (transactionState a)) (modified addr f a)) < total (modified addr f a)
         then Inr ((modified addr f a)\<lparr>transactionState := transactionState a\<rparr>)
         else rbind (send_to_all config (call_id st) es (pre (modified addr f a))) (\<lambda>a2. Inr (a2\<lparr>transactionState := st\<rparr>)))"
  shows "steps (machine (ok_reply (fst c) (snd c))) a c pend w"
proof -
  from pend_entry [OF live simple c] obtain addr ci s where e: "(addr, ci, s) \<in> set (switchStates a)"
    "\<not> answered (transactionState a) s" and cc: "c = (call_id (transactionState a), sid a ci)" by blast
  from live have l: "linked a" and sw: "sw_all (live_switch (transactionState a)) a" by (simp_all add: live_def)
  have "sw_all (live_switch (transactionState a)) (modified addr f a)" by (rule sw_all_modify [OF sw f(2)])
  note ne = no_errors [OF this]
  have "steps (machine (ok_reply (call_id (transactionState a)) (sid a ci))) a (call_id (transactionState a), sid a ci) pend w"
    by (rule phase_step [OF live simple e f st config pre h [OF l e(1) ne]])
  then show ?thesis by (simp add: cc)
qed

lemma candidate_step:
  assumes live: "live a pend w" and st: "transactionState a = WaitOnCandidateConfirmation" and c: "c \<in> set pend"
  shows "steps (fsm now (ok_reply (fst c) (snd c)) a) a c pend w"
proof (rule round_step [where machine = "\<lambda>m. fsm now m a" and f = "\<lambda>s. s\<lparr>hasCandidate := True\<rparr>"
      and st = WaitOnCandidateLockResponse and pre = "\<lambda>a. a" and es = "[EmitNumSent]",
      OF live _ c _ _ _ _ _ _ create_simple(1) [where t = "''candidate''"]], goal_cases)
  case (10 addr ci s)
  then show ?case
    using known_reply [OF 10(1,2)] set_switch_known [OF 10(1,2), of "\<lambda>s. s\<lparr>hasCandidate := True\<rparr>"]
      count_le_total [of SwitchWithCandidate "modified addr (\<lambda>s. s\<lparr>hasCandidate := True\<rparr>) a"]
    by (simp add: st fsm_simps handleMessageInWaitOnCandidateConfirmation_def call_id_def kind_of_def
        simple_transition simple_phase_def)
qed (simp_all add: st phase_defs cfg_ok_def)

lemma commit_step:
  assumes live: "live a pend w" and st: "transactionState a = WaitOnCommitExecution" and c: "c \<in> set pend"
  shows "steps (fsm now (ok_reply (fst c) (snd c)) a) a c pend w"
proof (rule round_step [where machine = "\<lambda>m. fsm now m a" and f = "\<lambda>s. s\<lparr>hasCommited := True\<rparr>"
      and st = WaitOnDeleteOldConfiguration and pre = "out (EmitPhase PHASE_UNLOCK)" and es = "[EmitNumSent]",
      OF live _ c _ _ _ _ _ _ create_simple(4) [where t = "''candidate''"]], goal_cases)
  case (10 addr ci s)
  then show ?case
    using known_reply [OF 10(1,2)] set_switch_known [OF 10(1,2), of "\<lambda>s. s\<lparr>hasCommited := True\<rparr>"]
      count_le_total [of SwitchCommited "modified addr (\<lambda>s. s\<lparr>hasCommited := True\<rparr>) a"]
    by (simp add: st fsm_simps handleMessageInWaitOnCommitExecution_def call_id_def kind_of_def
        simple_transition simple_phase_def)
qed (simp_all add: st phase_defs cfg_ok_def sent_def)

lemma delete_old_step:
  assumes live: "live a pend w" and st: "transactionState a = WaitOnDeleteOldConfiguration" and c: "c \<in> set pend"
  shows "steps (fsm now (ok_reply (fst c) (snd c)) a) a c pend w"
proof (rule round_step [where machine = "\<lambda>m. fsm now m a"
      and f = "\<lambda>s. s\<lparr>hasCandidate := False, hasLockedCandidate := False\<rparr>"
      and st = WaitOnUnlock and pre = "\<lambda>a. a" and es = "[EmitNumSent]",
      OF live _ c _ _ _ _ _ _ create_simple(2) [where t = "''running''"]], goal_cases)
  case (10 addr ci s)
  then show ?case
    using known_reply [OF 10(1,2)]
      set_switch_known [OF 10(1,2), of "\<lambda>s. s\<lparr>hasCandidate := False, hasLockedCandidate := False\<rparr>"]
      count_le_total [of SwitchWithoutOldConfig
        "modified addr (\<lambda>s. s\<lparr>hasCandidate := False, hasLockedCandidate := False\<rparr>) a"]
    by (simp add: st fsm_simps handleMessageInWaitOnDeleteOldConfiguration_def call_id_def kind_of_def
        simple_transition simple_phase_def)
qed (simp_all add: st phase_defs cfg_ok_def)


text \<open>The last round ends the transaction.\<close>

lemma unlock_step:
  assumes live: "live a pend w" and st: "transactionState a = WaitOnUnlock" and c: "c \<in> set pend"
  shows "steps (fsm now (ok_reply (fst c) (snd c)) a) a c pend w"
proof -
  have simple: "simple_phase (transactionState a)" by (simp add: simple_phase_def st)
  from pend_entry [OF live simple c] obtain addr ci s where e: "(addr, ci, s) \<in> set (switchStates a)"
    "\<not> answered (transactionState a) s" and cc: "c = (UNLOCK_MSG_ID, sid a ci)" by (auto simp: st call_id_def)
  from live have l: "linked a" and ne: "switchStates a \<noteq> []" and sw: "sw_all (live_switch (transactionState a)) a"
    and cf: "\<forall>x \<in> set (switchStates a). cfg_ok (transactionState a) (hasConfiguration (snd (snd x))) (cfgs a (fst (snd x)))"
    and pend: "mset pend = mset (expected a)" and w: "w = answers_left a" by (simp_all add: live_def)
  define f where "f = (\<lambda>s :: switch_state. s\<lparr>hasLockedRunning := False\<rparr>)"
  have f: "answered (transactionState a) (f s)" "live_switch (transactionState a) s \<Longrightarrow> live_switch (transactionState a) (f s)" for s
    by (simp_all add: f_def st phase_defs)
  have sw1: "sw_all (live_switch WaitOnUnlock) (modified addr f a)"
    using sw_all_modify [where f = f and addr = addr, OF sw] f(2) by (simp add: st)
  note known = known_reply [OF l e(1), of UNLOCK_MSG_ID] set_switch_known [OF l e(1), of f]
  show ?thesis
  proof (cases "conns_with (\<lambda>s. \<not> answered WaitOnUnlock s) (modified addr f a) = []")
    case False
    have h: "fsm now (ok_reply (fst c) (snd c)) a = Inr ((modified addr f a)\<lparr>transactionState := WaitOnUnlock\<rparr>)"
      using known count_answered_less [OF sw1] False
      by (simp add: cc st f_def [symmetric] fsm_simps handleMessageInWaitOnUnlock_def kind_of_def simple_transition simple_phase_def)
    have "live ((modified addr f a)\<lparr>transactionState := WaitOnUnlock\<rparr>) (remove1 (call_id (transactionState a), sid a ci) pend) (w - 1)"
      by (rule stay_live [where f = f, OF live simple e f(1,2)])
        (use False in \<open>simp_all add: st unanswered_def conns_with_def\<close>)
    then show ?thesis
      unfolding steps_def h by (intro exI [of _ "(modified addr f a)\<lparr>transactionState := WaitOnUnlock\<rparr>"] exI [of _ "[]"])
        (simp add: cc st call_id_def)
  next
    case True
    let ?a1 = "out (EmitPhase PHASE_UNLOCK) (modified addr f a)"
    let ?a' = "out EmitDuration (out (EmitResult True) ((out (EmitPhase PHASE_DEFAULT) (?a1\<lparr>transactionState := EndOfTransaction\<rparr>))\<lparr>tx_result := True\<rparr>))"
    have h: "fsm now (ok_reply (fst c) (snd c)) a = Inr ?a'"
      using known count_answered [OF sw1] True
      by (simp add: cc st f_def [symmetric] fsm_simps handleMessageInWaitOnUnlock_def kind_of_def transitionToState_def)
    have a': "a_connections ?a' = a_connections a"
      "switchStates ?a' = smap_modify addr (\<lambda>(c, s). (c, f s)) (switchStates a)" by simp_all
    note m = modified_facts [where f = f, OF l sw f(2) a']
    have u: "mset (unanswered a) = {#ci#}"
      using unanswered_modify [where f = f and a' = "modified addr f a", OF l e f(1)] True by (simp add: st)
    have round: "round_phase (transactionState a)" using simple by (simp add: round_phase_def)
    have "mset pend = {#c#}" using pend round_expected(2) [OF round u] by (simp add: cc st call_id_def)
    then have "remove1 c pend = []" by simp
    moreover have "sw_all (live_switch EndOfTransaction) ?a'"
      using sw1 True by (auto simp: conns_with_none sw_all_def st phase_defs)
    moreover have "\<forall>x \<in> set (switchStates ?a'). cfg_ok EndOfTransaction (hasConfiguration (snd (snd x))) (cfgs ?a' (fst (snd x)))"
      by (rule cfg_ok_modify [OF cf a']) (simp add: cfg_ok_def st phase_defs)
    moreover have "unanswered ?a' = []" by (simp add: unanswered_def conns_with_def answered_def)
    moreover have "w = Suc (configs_left a)"
      using w round_expected(1) [OF round] arg_cong [OF u, of size] by (simp add: st rounds_def)
    moreover have "switchStates ?a' \<noteq> []"
      using m(4) ne by (metis length_0_conv)
    ultimately have "live ?a' (remove1 c pend) (w - 1)"
      using m by (simp add: live_def expected_def answers_left_def rounds_def)
    then show ?thesis unfolding steps_def h by (intro exI [of _ ?a'] exI [of _ "[]"]) simp
  qed
qed

text \<open>The running data stores are locked one after the other.\<close>

lemma find_unanswered:
  fixes a :: "('z, 'a) tapp_scheme"
  assumes "sw_all (live_switch WaitOnLockResponse) a"
    and "conns_with (\<lambda>s. \<not> answered WaitOnLockResponse s) a = ci # rest"
  obtains addr s where "find (\<lambda>(addr, ci, s). isInState SwitchAvailable s) (switchStates a) = Some (addr, ci, s)"
    and "(addr, ci, s) \<in> set (switchStates a)"
proof -
  have "find (\<lambda>(addr, ci, s). isInState SwitchAvailable s) m
      = find (\<lambda>x. \<not> answered WaitOnLockResponse (snd (snd x))) m" if "\<forall>x \<in> set m. live_switch WaitOnLockResponse (snd (snd x))"
    for m :: "(string, nat \<times> 'z switch_state_scheme) smap"
    using that by (intro find_cong) (auto simp: isInState_def phase_defs)
  with assms(1) have "find (\<lambda>(addr, ci, s). isInState SwitchAvailable s) (switchStates a)
      = find (\<lambda>x. \<not> answered WaitOnLockResponse (snd (snd x))) (switchStates a)" by (simp add: sw_all_def)
  moreover have "find P m = Some (hd (filter P m)) \<and> hd (filter P m) \<in> set m" if "filter P m \<noteq> []"
    for P and m :: "(string, nat \<times> 'z switch_state_scheme) smap"
    using that by (induction m) auto
  moreover have "filter (\<lambda>x. \<not> answered WaitOnLockResponse (snd (snd x))) (switchStates a) \<noteq> []"
    and "fst (snd (hd (filter (\<lambda>x. \<not> answered WaitOnLockResponse (snd (snd x))) (switchStates a)))) = ci"
    using assms(2) by (auto simp: conns_with_def hd_map [symmetric] simp del: hd_map)
  ultimately show ?thesis using that by (metis prod.collapse)
qed


lemma lock_pend:
  assumes "live a pend w" and "transactionState a = WaitOnLockResponse" and "c \<in> set pend"
  obtains addr ci s rest where "(addr, ci, s) \<in> set (switchStates a)" and "\<not> answered (transactionState a) s"
    and "unanswered a = ci # rest" and "pend = [c]" and "c = (LOCK_MSG_ID, sid a ci)"
proof -
  from assms(1) have p: "mset pend = mset (expected a)" and "unanswered a \<noteq> []" using assms(2) by (simp_all add: live_def)
  then obtain ci rest where u: "unanswered a = ci # rest" by (cases "unanswered a") auto
  then have "mset pend = {#(LOCK_MSG_ID, sid a ci)#}" using p by (simp add: expected_def assms(2))
  then have "pend = [(LOCK_MSG_ID, sid a ci)]" by simp
  moreover have "ci \<in> set (unanswered a)" using u by simp
  then obtain addr s where "(addr, ci, s) \<in> set (switchStates a)" "\<not> answered (transactionState a) s"
    by (auto simp: unanswered_def conns_with_mem)
  ultimately show ?thesis using that u assms(3) by simp
qed

lemma lock_step:
  assumes live: "live a pend w" and st: "transactionState a = WaitOnLockResponse" and c: "c \<in> set pend"
  shows "steps (fsm now (ok_reply (fst c) (snd c)) a) a c pend w"
proof -
  from lock_pend [OF live st c] obtain addr ci s rest where
    e: "(addr, ci, s) \<in> set (switchStates a)" "\<not> answered (transactionState a) s"
    and ua: "unanswered a = ci # rest" and pend: "pend = [c]" and cc: "c = (LOCK_MSG_ID, sid a ci)" by blast
  from live have l: "linked a" and ne: "switchStates a \<noteq> []" and sw: "sw_all (live_switch (transactionState a)) a"
    and cf: "\<forall>x \<in> set (switchStates a). cfg_ok (transactionState a) (hasConfiguration (snd (snd x))) (cfgs a (fst (snd x)))"
    and w: "w = answers_left a" by (simp_all add: live_def)
  have round: "round_phase (transactionState a)" by (simp add: round_phase_def st)
  define f where "f = (\<lambda>s :: switch_state. s\<lparr>hasLockedRunning := True\<rparr>)"
  have f: "answered (transactionState a) (f s)" "live_switch (transactionState a) s \<Longrightarrow> live_switch (transactionState a) (f s)" for s
    by (simp_all add: f_def st phase_defs)
  let ?a1 = "modified addr f a"
  have sw1: "sw_all (live_switch WaitOnLockResponse) ?a1"
    using sw_all_modify [where f = f and addr = addr, OF sw] f(2) by (simp add: st)
  have l1: "linked ?a1" using l by simp
  have "live_switch WaitOnLockResponse s" using sw e(1) by (auto simp: sw_all_def st)
  then have avail: "isInState SwitchAvailable s" using e(2) by (simp add: isInState_def st phase_defs)
  have "switch_of ci a = Inr (ci, s)" using linked_entry [OF l e(1)] by (simp add: switch_of_def)
  note known = known_reply [OF l e(1), of LOCK_MSG_ID] set_switch_known [OF l e(1), of f] avail this
  have u: "mset (unanswered a) = add_mset ci (mset (conns_with (\<lambda>s. \<not> answered WaitOnLockResponse s) ?a1))"
    using unanswered_modify [where f = f and a' = ?a1, OF l e f(1)] by (simp add: st)
  show ?thesis
  proof (cases "conns_with (\<lambda>s. \<not> answered WaitOnLockResponse s) ?a1")
    case (Cons ci' rest')
    let ?a2 = "?a1\<lparr>transactionState := WaitOnLockResponse\<rparr>"
    from Cons have cons2: "conns_with (\<lambda>s. \<not> answered WaitOnLockResponse s) ?a2 = ci' # rest'" by (simp add: conns_with_def)
    have sw2: "sw_all (live_switch WaitOnLockResponse) ?a2" using sw1 by (simp add: sw_all_def)
    have l2: "linked ?a2" using linked_cong(1) [of ?a2 ?a1] l1 by simp
    from find_unanswered [OF sw2 cons2] obtain addr' s' where
      find: "find (\<lambda>(addr, ci, s). isInState SwitchAvailable s) (switchStates ?a2) = Some (addr', ci', s')"
      and e': "(addr', ci', s') \<in> set (switchStates ?a2)" by blast
    from send_config_ok [OF linked_entry(1) [OF l2 e'] create_simple(1), of "''running''" LOCK_MSG_ID]
    obtain a3 where a3: "send_config ci' (lock_config ''running'') LOCK_MSG_ID ?a2 = Inr a3"
      and s3: "sent [(LOCK_MSG_ID, sid ?a2 ci')] ?a2 a3" by auto
    have st3: "transactionState a3 = WaitOnLockResponse"
      using send_config_tx [OF a3] by (auto simp: same_tx_def)
    let ?a' = "out EmitNumSent a3"
    have h: "fsm now (ok_reply (fst c) (snd c)) a = Inr ?a'"
      using known count_answered_less [OF sw1] Cons a3 find
      by (simp add: cc st f_def [symmetric] fsm_simps handleMessageInWaitOnLockResponse_def kind_of_def transitionToState_def)
    have a': "a_connections ?a' = a_connections a"
      "switchStates ?a' = smap_modify addr (\<lambda>(c, s). (c, f s)) (switchStates a)" using s3 by (simp_all add: sent_def)
    note m = modified_facts [where f = f, OF l sw f(2) a']
    have cf': "\<forall>x \<in> set (switchStates ?a'). cfg_ok (transactionState a) (hasConfiguration (snd (snd x))) (cfgs ?a' (fst (snd x)))"
      by (rule cfg_ok_modify [OF cf a']) (simp add: cfg_ok_def st phase_defs)
    have u': "unanswered ?a' = ci' # rest'"
      using Cons s3 by (simp add: unanswered_def st3 conns_with_def sent_def)
    have ne': "switchStates ?a' \<noteq> []" using m(4) ne by (metis length_0_conv)
    have w': "w - 1 = answers_left ?a'"
      using w round_expected(1) [OF round] round_expected(1) [of ?a'] m arg_cong [OF u, of size] Cons u'
      by (simp add: st st3 round_phase_def)
    have "sid ?a2 = sid a" by (rule linked_cong(2)) simp
    then have calls: "calls ?a' = calls a @ [(LOCK_MSG_ID, sid a ci')]" using s3 by (simp add: sent_def)
    have "live ?a' (remove1 c pend @ [(LOCK_MSG_ID, sid a ci')]) (w - 1)"
      using m cf' ne' w' by (simp add: live_def st st3 pend expected_def u')
    then show ?thesis by (rule stepsI [OF h calls]) (simp only: a'(2) map_fst_modify)
  next
    case Nil
    let ?pre = "out (EmitPhase PHASE_CHANGE) ?a1"
    have sp: "linked ?pre" using linked_cong(1) [of ?pre ?a1] l1 by simp
    obtain a2 where a2: "send_to_all (copy_config ''running'' ''candidate'') COPY_CONFIG_MSG_ID [] ?pre = Inr a2"
      and s2: "sent (map (\<lambda>i. (COPY_CONFIG_MSG_ID, sid ?pre i)) (map (\<lambda>x. fst (snd x)) (switchStates ?pre))) ?pre a2"
      using send_to_all_ok [OF sp create_simple(3), of "[]"] by fastforce
    let ?a' = "a2\<lparr>transactionState := WaitOnCandidateConfirmation\<rparr>"
    let ?cs = "map (\<lambda>i. (call_id WaitOnCandidateConfirmation, sid ?a1 i)) (map (\<lambda>x. fst (snd x)) (switchStates ?a1))"
    have h: "fsm now (ok_reply (fst c) (snd c)) a = Inr ?a'"
      using known count_answered [OF sw1] Nil a2
      by (simp add: cc st f_def [symmetric] fsm_simps handleMessageInWaitOnLockResponse_def kind_of_def
          simple_transition simple_phase_def)
    have sp: "sid ?pre = sid ?a1" by (rule linked_cong(2)) simp
    have "live ?a' (remove1 (call_id (transactionState a), sid a ci) pend @ ?cs) (w - 1)"
      by (rule next_live [where f = f, OF live round e f])
        (use Nil s2 in \<open>simp_all add: st sent_def phase_defs cfg_ok_def\<close>)
    moreover have "calls ?a' = calls a @ ?cs" using s2 sp by (simp add: sent_def call_id_def)
    moreover have "map fst (switchStates ?a') = map fst (switchStates a)" using s2 by (simp add: sent_def)
    ultimately show ?thesis unfolding steps_def h by (intro exI [of _ ?a'] exI [of _ ?cs]) (simp add: cc st call_id_def)
  qed
qed

end
