(* ===== verification/TransactionChanges.thy ===== *)
theory TransactionChanges
  imports TransactionLiveness
begin

text \<open>
  The changes of a transaction: every connection sends its configurations one after the other,
  the connections side by side. Then the last steps to the end of a transaction, and the theorem
  that it ends.
\<close>

subsection \<open>Changing configurations\<close>

definition same_conns :: "'a app_scheme \<Rightarrow> 'a app_scheme \<Rightarrow> bool" where
  "same_conns a a' \<longleftrightarrow> map (\<lambda>c. (cn_state c, cn_session_id c, cn_remoteAddress c)) (a_connections a')
     = map (\<lambda>c. (cn_state c, cn_session_id c, cn_remoteAddress c)) (a_connections a)"

lemma same_conns_trans: "same_conns a b \<Longrightarrow> same_conns b c \<Longrightarrow> same_conns a c"
  by (simp add: same_conns_def)

lemma same_conns_refl: "a_connections a' = a_connections a \<Longrightarrow> same_conns a a'"
  by (simp add: same_conns_def)

lemma same_conns_nth:
  assumes "same_conns a a'"
  shows "length (a_connections a') = length (a_connections a)"
    and "i < length (a_connections a) \<Longrightarrow> cn_state (a_connections a' ! i) = cn_state (a_connections a ! i)
      \<and> sid a' i = sid a i \<and> cn_remoteAddress (a_connections a' ! i) = cn_remoteAddress (a_connections a ! i)"
proof -
  show len: "length (a_connections a') = length (a_connections a)"
    using assms unfolding same_conns_def by (rule map_eq_imp_length_eq)
  show "i < length (a_connections a) \<Longrightarrow> cn_state (a_connections a' ! i) = cn_state (a_connections a ! i)
      \<and> sid a' i = sid a i \<and> cn_remoteAddress (a_connections a' ! i) = cn_remoteAddress (a_connections a ! i)"
    using arg_cong [OF assms [unfolded same_conns_def], of "\<lambda>xs. xs ! i"] len by (simp add: sid_def)
qed

lemma same_conns_linked:
  assumes "same_conns a a'" and "linked a" and "switchStates a' = switchStates a"
  shows "linked a'"
proof -
  have "map cn_session_id (a_connections a') = map cn_session_id (a_connections a)"
    using arg_cong [OF assms(1) [unfolded same_conns_def], of "map (\<lambda>x. fst (snd x))"] by (simp add: comp_def)
  moreover have "\<forall>c \<in> set (a_connections a'). cn_state c = ConnectionStateEstablished"
    using assms(2) same_conns_nth [OF assms(1)] by (auto simp: linked_def all_set_conv_all_nth)
  ultimately show ?thesis using assms same_conns_nth [OF assms(1)] by (auto simp: linked_def)
qed

lemma set_configuration_conns: "same_conns a (set_configuration i k f a)"
  unfolding same_conns_def set_configuration_def set_connection_def
proof (rule nth_equalityI, goal_cases)
  case (2 j)
  then show ?case by (cases "j = i") simp_all
qed simp

lemma cfgs_set_configuration:
  assumes "i < length (a_connections a)"
  shows "cfgs (set_configuration i k f a) j
    = (if j = i then (cfgs a i)[k := f (cfgs a i ! k)] else cfgs a j)"
  using assms by (simp add: cfgs_def set_configuration_def set_connection_def)

lemma linked_distinct:
  assumes "linked a"
  shows "distinct (map (\<lambda>x. fst (snd x)) (switchStates a))"
proof -
  have "map fst (switchStates a) = map (\<lambda>i. cn_remoteAddress (a_connections a ! i)) (map (\<lambda>x. fst (snd x)) (switchStates a))"
    using assms by (auto simp: linked_def)
  moreover have "distinct (map fst (switchStates a))"
    using assms by (auto simp: linked_def smap_wf_def strict_sorted_iff)
  ultimately show ?thesis using distinct_map by metis
qed

text \<open>The first configuration of every connection is requested.\<close>

definition untouched :: "configuration list \<Rightarrow> bool" where
  "untouched cs \<longleftrightarrow> cs \<noteq> [] \<and> (\<forall>cf \<in> set cs. changeable cf \<and> cf_state cf = ConfigurationStateWaiting)"

definition requested :: "nat \<Rightarrow> configuration list \<Rightarrow> configuration list" where
  "requested k cs = cs[k := (cs ! k)\<lparr>cf_type := MT_EditConfig, cf_target := ''candidate'', cf_state := ConfigurationStateRequested\<rparr>]"

lemma changeable_create:
  assumes "changeable cf"
  shows "\<exists>ol. createOperation (cf\<lparr>cf_target := t\<rparr>) = Inr ol"
  using assms by (auto simp: changeable_def createOperation_def)

lemma changeable_update [simp]:
  "changeable (cf\<lparr>cf_type := MT_EditConfig, cf_target := t, cf_state := st\<rparr>) = (cf_data cf \<noteq> None)"
  "changeable (cf\<lparr>cf_state := st\<rparr>) = changeable cf"
  by (simp_all add: changeable_def)

lemma first_changes_ok:
  assumes "distinct is" and "\<forall>i \<in> set is. i < length (a_connections a) \<and> untouched (cfgs a i)"
  shows "\<exists>a'. first_changes is a = Inr a' \<and> same_conns a a' \<and> switchStates a' = switchStates a
    \<and> calls a' = calls a @ map (\<lambda>i. (to_string 0, sid a i)) is
    \<and> (\<forall>i. cfgs a' i = (if i \<in> set is then requested 0 (cfgs a i) else cfgs a i))"
  using assms
proof (induction "is" arbitrary: a)
  case (Cons i "is")
  then have i: "i < length (a_connections a)" and cs: "untouched (cfgs a i)" by simp_all
  let ?cf = "cfgs a i ! 0"
  have 0: "0 < length (cfgs a i)" using cs by (simp add: untouched_def)
  then have "?cf \<in> set (cfgs a i)" by simp
  with cs have cf: "changeable ?cf" "cf_state ?cf = ConfigurationStateWaiting" by (auto simp: untouched_def)
  have get: "get_configuration i 0 a = Inr ?cf"
    using i 0 by (simp add: get_configuration_def get_connection_def vec_at_def cfgs_def)
  let ?a1 = "set_configuration i 0 (\<lambda>c. c\<lparr>cf_target := ''candidate''\<rparr>) a"
  have i1: "i < length (a_connections ?a1)" using i same_conns_nth(1) [OF set_configuration_conns] by metis
  from changeable_create [OF cf(1), of "''candidate''"]
  obtain ol where "createOperation (?cf\<lparr>cf_target := ''candidate''\<rparr>) = Inr ol" by blast
  from send_config_ok [OF i1 this, of "to_string 0"] obtain a2
    where a2: "send_config i (?cf\<lparr>cf_target := ''candidate''\<rparr>) (to_string 0) ?a1 = Inr a2"
      and s2: "sent [(to_string 0, sid ?a1 i)] ?a1 a2" by blast
  let ?a3 = "set_configuration i 0 (\<lambda>c. c\<lparr>cf_state := ConfigurationStateRequested\<rparr>) a2"
  have c3: "same_conns a ?a3"
    by (rule same_conns_trans [OF set_configuration_conns same_conns_trans [OF same_conns_refl set_configuration_conns]])
      (use s2 in \<open>simp add: sent_def\<close>)
  have i2: "i < length (a_connections a2)" using i1 s2 by (simp add: sent_def)
  have f2: "cfgs a2 = cfgs ?a1" using s2 by (simp add: sent_def cfgs_def fun_eq_iff)
  have "cf_type ?cf = MT_EditConfig" using cf(1) by (simp add: changeable_def)
  then have "?cf\<lparr>cf_type := MT_EditConfig, cf_target := t, cf_state := st\<rparr> = ?cf\<lparr>cf_target := t, cf_state := st\<rparr>" for t st
    by (intro configuration.equality) simp_all
  then have f3: "cfgs ?a3 j = (if j = i then requested 0 (cfgs a i) else cfgs a j)" for j
    using cfgs_set_configuration [OF i2] cfgs_set_configuration [OF i] f2 0
    by (simp add: requested_def)
  have s3: "sid ?a3 j = sid a j" if "j < length (a_connections a)" for j
    using same_conns_nth(2) [OF c3 that] by simp
  have "\<forall>j \<in> set is. j < length (a_connections ?a3) \<and> untouched (cfgs ?a3 j)"
    using Cons.prems f3 same_conns_nth(1) [OF c3] by auto
  from Cons.IH [OF _ this] Cons.prems(1) obtain a' where a': "first_changes is ?a3 = Inr a'" "same_conns ?a3 a'"
    "switchStates a' = switchStates ?a3" "calls a' = calls ?a3 @ map (\<lambda>i. (to_string 0, sid ?a3 i)) is"
    "\<forall>i. cfgs a' i = (if i \<in> set is then requested 0 (cfgs ?a3 i) else cfgs ?a3 i)" by auto
  have "map (\<lambda>i. (to_string 0, sid ?a3 i)) is = map (\<lambda>i. (to_string 0, sid a i)) is"
    using Cons.prems(2) s3 by simp
  moreover have "sid ?a1 i = sid a i" using same_conns_nth(2) [OF set_configuration_conns i] by simp
  ultimately have "calls a' = calls a @ map (\<lambda>i. (to_string 0, sid a i)) (i # is)"
    using a'(4) s2 by (simp add: sent_def)
  moreover have "switchStates a' = switchStates a" using a'(3) s2 by (simp add: sent_def)
  ultimately show ?case
    using get cf a2 a' f3 same_conns_trans [OF c3 a'(2)] Cons.prems(1)
    by (intro exI [of _ a']) (auto simp: CHANGE_MSG_ID_def Let_def)
qed (simp add: same_conns_refl)


lemma progress_requested: "untouched cs \<Longrightarrow> progress (requested 0 cs) 0"
  by (auto simp: untouched_def progress_def requested_def)

lemma current_progress:
  assumes "progress cs m"
  shows "current cs = m"
proof -
  from assms have m: "m < length cs" "cf_state (cs ! m) = ConfigurationStateRequested"
    by (simp_all add: progress_def)
  have other: "cf_state (cs ! j) \<noteq> ConfigurationStateRequested" if "j < length cs" "j \<noteq> m" for j
    using assms that by (cases "j < m") (simp_all add: progress_def)
  show ?thesis
  proof (cases "find_idx (\<lambda>cf. cf_state cf = ConfigurationStateRequested) cs")
    case None
    then show ?thesis using m by (auto simp: find_idx_None)
  next
    case (Some k)
    then show ?thesis using other [of k] find_idx_Some [OF Some] by (auto simp: current_def)
  qed
qed

lemma untouched_requested:
  assumes "untouched cs"
  shows "\<forall>cf \<in> set (requested 0 cs). changeable cf" and "cfg_left (requested 0 cs) = cfg_left cs"
    and "current (requested 0 cs) = 0"
proof -
  from assms obtain cf rest where cs: "cs = cf # rest" by (auto simp: untouched_def neq_Nil_conv)
  show "\<forall>cf \<in> set (requested 0 cs). changeable cf" "cfg_left (requested 0 cs) = cfg_left cs"
    using assms by (auto simp: untouched_def requested_def cs cfg_left_def changeable_def)
  show "current (requested 0 cs) = 0" by (rule current_progress [OF progress_requested [OF assms]])
qed

lemma candidate_lock_step:
  assumes live: "live a pend w" and st: "transactionState a = WaitOnCandidateLockResponse" and c: "c \<in> set pend"
  shows "steps (fsm now (ok_reply (fst c) (snd c)) a) a c pend w"
proof -
  have simple: "simple_phase (transactionState a)" and round: "round_phase (transactionState a)"
    by (simp_all add: simple_phase_def round_phase_def st)
  from pend_entry [OF live simple c] obtain addr ci s where e: "(addr, ci, s) \<in> set (switchStates a)"
    "\<not> answered (transactionState a) s" and cc: "c = (LOCK_CANDIDATE_MSG_ID, sid a ci)" by (auto simp: st call_id_def)
  from live have l: "linked a" and ne: "switchStates a \<noteq> []" and sw: "sw_all (live_switch (transactionState a)) a"
    and cf: "\<forall>x \<in> set (switchStates a). cfg_ok (transactionState a) (hasConfiguration (snd (snd x))) (cfgs a (fst (snd x)))"
    and pend: "mset pend = mset (expected a)" and w: "w = answers_left a" by (simp_all add: live_def)
  define f where "f = (\<lambda>s :: switch_state. s\<lparr>hasLockedCandidate := True\<rparr>)"
  have f: "answered (transactionState a) (f s)" "live_switch (transactionState a) s \<Longrightarrow> live_switch (transactionState a) (f s)" for s
    by (simp_all add: f_def st phase_defs)
  let ?a1 = "modified addr f a"
  have sw1: "sw_all (live_switch WaitOnCandidateLockResponse) ?a1"
    using sw_all_modify [where f = f and addr = addr, OF sw] f(2) by (simp add: st)
  note known = known_reply [OF l e(1), of LOCK_CANDIDATE_MSG_ID] set_switch_known [OF l e(1), of f]
  show ?thesis
  proof (cases "conns_with (\<lambda>s. \<not> answered WaitOnCandidateLockResponse s) ?a1 = []")
    case False
    have h: "fsm now (ok_reply (fst c) (snd c)) a = Inr (?a1\<lparr>transactionState := WaitOnCandidateLockResponse\<rparr>)"
      using known count_answered_less [OF sw1] False
      by (simp add: cc st f_def [symmetric] fsm_simps handleMessageInWaitOnCandidateLockResponse_def kind_of_def
          simple_transition simple_phase_def)
    have "live (?a1\<lparr>transactionState := WaitOnCandidateLockResponse\<rparr>) (remove1 (call_id (transactionState a), sid a ci) pend) (w - 1)"
      by (rule stay_live [where f = f, OF live simple e f(1,2)])
        (use False in \<open>simp_all add: st unanswered_def conns_with_def\<close>)
    then show ?thesis
      unfolding steps_def h by (intro exI [of _ "?a1\<lparr>transactionState := WaitOnCandidateLockResponse\<rparr>"] exI [of _ "[]"])
        (simp add: cc st call_id_def)
  next
    case True
    let ?is = "map (\<lambda>x. fst (snd x)) (switchStates ?a1)"
    have l1: "linked ?a1" using l by simp
    have "a_connections ?a1 = a_connections a" "switchStates ?a1 = smap_modify addr (\<lambda>(c, s). (c, f s)) (switchStates a)"
      by simp_all
    note m1 = modified_facts [where f = f, OF l sw f(2) this]
    have cf1: "\<forall>x \<in> set (switchStates ?a1). cfg_ok (transactionState a) (hasConfiguration (snd (snd x))) (cfgs ?a1 (fst (snd x)))"
      by (rule cfg_ok_modify [OF cf]) (simp_all add: cfg_ok_def st phase_defs)
    then have unt: "i \<in> set ?is \<Longrightarrow> i < length (a_connections ?a1) \<and> untouched (cfgs ?a1 i)" for i
      using l1 by (fastforce simp: linked_def cfg_ok_def st rounds_def untouched_def)
    from first_changes_ok [OF linked_distinct [OF l1], of ?a1] unt obtain a2 where
      a2: "first_changes ?is ?a1 = Inr a2" "same_conns ?a1 a2" "switchStates a2 = switchStates ?a1"
      "calls a2 = calls ?a1 @ map (\<lambda>i. (to_string 0, sid ?a1 i)) ?is"
      and cfgs2: "\<And>i. cfgs a2 i = (if i \<in> set ?is then requested 0 (cfgs ?a1 i) else cfgs ?a1 i)" by blast
    let ?a' = "a2\<lparr>transactionState := WaitOnChangeConfirmation\<rparr>"
    have h: "fsm now (ok_reply (fst c) (snd c)) a = Inr ?a'"
      using known count_answered [OF sw1] True a2(1)
      by (simp add: cc st f_def [symmetric] fsm_simps handleMessageInWaitOnCandidateLockResponse_def kind_of_def
          simple_transition split_def)
    have c': "same_conns ?a1 ?a'" using a2(2) by (simp add: same_conns_def)
    have l': "linked ?a'" by (rule same_conns_linked [OF c' l1]) (simp add: a2(3))
    have is': "map (\<lambda>x. fst (snd x)) (switchStates ?a') = ?is" by (simp add: a2(3))
    have sid': "sid ?a' i = sid a i" if "i \<in> set ?is" for i
      using same_conns_nth(2) [OF c'] unt [OF that] by (simp add: sid_def)
    have fresh: "sw_all (\<lambda>s. live_switch WaitOnChangeConfirmation s \<and> \<not> answered WaitOnChangeConfirmation s) ?a'"
      using sw1 True by (auto simp: sw_all_def conns_with_none a2(3) phase_defs)
    have "cfgs ?a' = cfgs a2" by (simp add: cfgs_def fun_eq_iff)
    then have cfgs': "cfgs ?a' i = requested 0 (cfgs a i)" "untouched (cfgs a i)" if "i \<in> set ?is" for i
      using that cfgs2 [of i] unt [OF that] by (simp_all add: cfgs_def)
    have u': "unanswered ?a' = ?is"
      using conns_with_all [of "\<lambda>s. \<not> answered WaitOnChangeConfirmation s" ?a'] fresh is'
      by (simp add: unanswered_def sw_all_def)
    have u: "mset (unanswered a) = {#ci#}"
      using unanswered_modify [where f = f and a' = ?a1, OF l e f(1)] True by (simp add: st)
    have "mset pend = {#c#}" using pend round_expected(2) [OF round u] by (simp add: cc st call_id_def)
    then have pend': "remove1 c pend = []" by simp
    have ex: "expected ?a' = map (\<lambda>i. (to_string 0, sid a i)) ?is"
      using sid' cfgs' untouched_requested(3) by (simp add: expected_def u')
    have "configs_left ?a' = sum_list (map (\<lambda>i. cfg_left (cfgs ?a' i)) ?is)"
      by (simp add: configs_left_def a2(3) comp_def)
    also have "map (\<lambda>i. cfg_left (cfgs ?a' i)) ?is = map (\<lambda>i. cfg_left (cfgs ?a1 i)) ?is"
      using cfgs' untouched_requested(2) by (intro map_cong) (auto simp: cfgs_def)
    finally have left: "configs_left ?a' = configs_left a"
      using m1(5) by (simp add: configs_left_def comp_def)
    have "total ?a' = total a" using m1(4) a2(3) by simp
    then have w': "w - 1 = answers_left ?a'"
      using w round_expected(1) [OF round] arg_cong [OF u, of size] left by (simp add: st rounds_def answers_left_def)
    have ne': "switchStates ?a' \<noteq> []" using \<open>total ?a' = total a\<close> ne by (metis length_0_conv)
    have ne1: "switchStates ?a1 \<noteq> []" using m1(4) ne by (metis length_0_conv)
    have cf': "\<forall>x \<in> set (switchStates ?a'). cfg_ok WaitOnChangeConfirmation (hasConfiguration (snd (snd x))) (cfgs ?a' (fst (snd x)))"
    proof
      fix x assume x: "x \<in> set (switchStates ?a')"
      then have "fst (snd x) \<in> set (map (\<lambda>x. fst (snd x)) (switchStates ?a'))" by simp
      then have i: "fst (snd x) \<in> set ?is" unfolding is' .
      have "\<not> hasConfiguration (snd (snd x))" using fresh x by (simp add: sw_all_def answered_def)
      with cfgs' [OF i] untouched_requested [OF cfgs'(2) [OF i]] progress_requested [OF cfgs'(2) [OF i]]
      show "cfg_ok WaitOnChangeConfirmation (hasConfiguration (snd (snd x))) (cfgs ?a' (fst (snd x)))"
        by (simp add: cfg_ok_def rounds_def)
    qed
    have "live ?a' (remove1 c pend @ map (\<lambda>i. (to_string 0, sid a i)) ?is) (w - 1)"
      using l' ne' ne1 fresh cf' ex w' by (simp add: live_def pend' u' sw_all_conj)
    moreover have "sid ?a1 = sid a" by (rule linked_cong(2)) simp
    then have "calls ?a' = calls a @ map (\<lambda>i. (to_string 0, sid a i)) ?is" using a2(4) by simp
    ultimately show ?thesis by (intro stepsI [OF h]) (simp_all add: a2(3))
  qed
qed


text \<open>One configuration after the other.\<close>

definition succeeded :: "nat \<Rightarrow> configuration list \<Rightarrow> configuration list" where
  "succeeded k cs = cs[k := (cs ! k)\<lparr>cf_state := ConfigurationStateSuccess\<rparr>]"

lemma progress_left:
  assumes "progress cs m"
  shows "cfg_left cs = length cs - m"
proof -
  have "filter (\<lambda>cf. cf_state cf \<noteq> ConfigurationStateSuccess) (take m cs) = []"
    using assms by (auto simp: progress_def filter_empty_conv in_set_conv_nth)
  moreover have "filter (\<lambda>cf. cf_state cf \<noteq> ConfigurationStateSuccess) (drop m cs) = drop m cs"
  proof (rule filter_True, intro ballI)
    fix cf assume "cf \<in> set (drop m cs)"
    then obtain j where "j < length (drop m cs)" and "cf = drop m cs ! j" by (metis in_set_conv_nth)
    then have "m + j < length cs" and "cf = cs ! (m + j)" by simp_all
    then show "cf_state cf \<noteq> ConfigurationStateSuccess" using assms by (cases "j = 0") (auto simp: progress_def)
  qed
  ultimately show ?thesis
    unfolding cfg_left_def by (subst append_take_drop_id [of m cs, symmetric], subst filter_append) simp
qed

lemma progress_next:
  assumes "progress cs m" and "Suc m < length cs"
  shows "find_idx (\<lambda>cf. cf_state cf = ConfigurationStateWaiting) (succeeded m cs) = Some (Suc m)"
    and "progress (requested (Suc m) (succeeded m cs)) (Suc m)"
proof -
  let ?cs = "succeeded m cs"
  have len: "length ?cs = length cs" by (simp add: succeeded_def)
  have at: "cf_state (?cs ! j) = (if j \<le> m then ConfigurationStateSuccess else ConfigurationStateWaiting)" if "j < length cs" for j
    using assms that by (cases "j = m") (auto simp: succeeded_def progress_def)
  show "find_idx (\<lambda>cf. cf_state cf = ConfigurationStateWaiting) ?cs = Some (Suc m)"
  proof (cases "find_idx (\<lambda>cf. cf_state cf = ConfigurationStateWaiting) ?cs")
    case None
    then show ?thesis using at [OF assms(2)] assms(2) nth_mem [of "Suc m" ?cs] by (simp add: find_idx_None len)
  next
    case (Some k)
    from find_idx_Some [OF Some] have "k < length cs" "cf_state (?cs ! k) = ConfigurationStateWaiting"
      and first: "\<forall>j < k. cf_state (?cs ! j) \<noteq> ConfigurationStateWaiting" by (simp_all add: len)
    then have "m < k" using at [of k] by (simp split: if_splits)
    moreover have "\<not> Suc m < k" using first at [OF assms(2)] by auto
    ultimately show ?thesis using Some by simp
  qed
  show "progress (requested (Suc m) ?cs) (Suc m)"
    using assms(2) at by (auto simp: progress_def requested_def len nth_list_update)
qed

lemma progress_last:
  assumes "progress cs m" and "\<not> Suc m < length cs"
  shows "find_idx (\<lambda>cf. cf_state cf = ConfigurationStateWaiting) (succeeded m cs) = None"
    and "\<forall>cf \<in> set (succeeded m cs). cf_state cf = ConfigurationStateSuccess" and "cfg_left (succeeded m cs) = 0"
proof -
  have "cf_state (succeeded m cs ! j) = ConfigurationStateSuccess" if "j < length cs" for j
    using assms that by (cases "j = m") (auto simp: succeeded_def progress_def)
  then show all: "\<forall>cf \<in> set (succeeded m cs). cf_state cf = ConfigurationStateSuccess"
    by (auto simp: in_set_conv_nth succeeded_def)
  then show "find_idx (\<lambda>cf. cf_state cf = ConfigurationStateWaiting) (succeeded m cs) = None"
    and "cfg_left (succeeded m cs) = 0" by (auto simp: find_idx_None cfg_left_def)
qed

text \<open>A list whose entry for one element changes.\<close>

lemma mset_map_remove1:
  assumes "ci \<in> set is"
  shows "mset (map g is) = add_mset (g ci) (mset (map g (remove1 ci is)))"
proof -
  have "mset is = add_mset ci (mset (remove1 ci is))" using assms by simp
  from arg_cong [OF this, of "image_mset g"] show ?thesis by (simp only: mset_map image_mset_add_mset)
qed

lemma mset_map_change:
  assumes "distinct is" and "ci \<in> set is" and "\<And>i. i \<in> set is \<Longrightarrow> i \<noteq> ci \<Longrightarrow> g' i = g i"
  shows "mset (map g' is) = add_mset (g' ci) (mset (map g (remove1 ci is)))"
proof -
  have "mset (map g' is) = add_mset (g' ci) (mset (map g' (remove1 ci is)))"
    by (rule mset_map_remove1 [OF assms(2)])
  moreover have "map g' (remove1 ci is) = map g (remove1 ci is)" using assms(1,3) by simp
  ultimately show ?thesis by simp
qed

lemma sum_list_change:
  assumes "distinct is" and "ci \<in> set is" and "\<And>i. i \<in> set is \<Longrightarrow> i \<noteq> ci \<Longrightarrow> g' i = g i"
  shows "sum_list (map g' is) + g ci = sum_list (map g is) + (g' ci :: nat)"
proof -
  have "sum_list (map h is) = h ci + sum_list (map h (remove1 ci is))" for h :: "'a \<Rightarrow> nat"
    using assms(2) by (rule sum_list_map_remove1)
  moreover have "sum_list (map g' (remove1 ci is)) = sum_list (map g (remove1 ci is))"
    using assms(1,3) by (intro arg_cong [where f = sum_list] map_cong) auto
  ultimately show ?thesis by simp
qed


text \<open>What a step of one connection does to the promises of the others.\<close>

lemma changed_facts:
  assumes l: "linked a" and e: "(addr, ci, s) \<in> set (switchStates a)"
    and conns: "same_conns a a'" and cfgs: "\<And>i. cfgs a' i = (if i = ci then cs' else cfgs a i)"
    and sws: "switchStates a' = smap_modify addr (\<lambda>(c, s). (c, f s)) (switchStates a)"
    and ok: "\<forall>x \<in> set (switchStates a). fst x \<noteq> addr \<longrightarrow> cfg_ok st (hasConfiguration (snd (snd x))) (cfgs a (fst (snd x)))"
      "cfg_ok st (hasConfiguration (f s)) cs'"
  shows "linked a'" and "total a' = total a"
    and "\<forall>x \<in> set (switchStates a'). cfg_ok st (hasConfiguration (snd (snd x))) (cfgs a' (fst (snd x)))"
    and "configs_left a' + cfg_left (cfgs a ci) = configs_left a + cfg_left cs'"
proof -
  have l1: "linked (modified addr f a)" using l by simp
  have c1: "same_conns (modified addr f a) a'" using conns by (simp add: same_conns_def)
  show "linked a'" by (rule same_conns_linked [OF c1 l1]) (simp add: sws)
  show "total a' = total a" by (simp add: sws)
  have idx: "map (\<lambda>x. fst (snd x)) (switchStates a') = map (\<lambda>x. fst (snd x)) (switchStates a)"
    unfolding sws by (auto simp: smap_modify_def split_def)
  have addr: "k = addr \<longleftrightarrow> c = ci" if "(k, c, t) \<in> set (switchStates a)" for k c t
  proof
    show "k = addr \<Longrightarrow> c = ci" using linked_entry(3) [OF l that] linked_entry(3) [OF l e] by simp
    show "c = ci \<Longrightarrow> k = addr" using linked_entry(2) [OF l that] linked_entry(2) [OF l e] by simp
  qed
  show "\<forall>x \<in> set (switchStates a'). cfg_ok st (hasConfiguration (snd (snd x))) (cfgs a' (fst (snd x)))"
  proof
    fix x assume x: "x \<in> set (switchStates a')"
    obtain k c t where xx: "x = (k, c, t)" by (cases x)
    with x obtain t0 where t0: "(k, c, t0) \<in> set (switchStates a)" and t: "t = (if k = addr then f t0 else t0)"
      by (auto simp: sws smap_modify_mem split: if_splits)
    show "cfg_ok st (hasConfiguration (snd (snd x))) (cfgs a' (fst (snd x)))"
    proof (cases "k = addr")
      case True
      then have "t0 = s" "c = ci" using linked_entry(3) [OF l e] linked_entry(3) [OF l t0] by simp_all
      then show ?thesis using ok(2) cfgs xx t True by simp
    next
      case False
      then show ?thesis using bspec [OF ok(1) t0] addr [OF t0] cfgs xx t by simp
    qed
  qed
  have "ci \<in> set (map (\<lambda>x. fst (snd x)) (switchStates a))" using e by force
  from sum_list_change [OF linked_distinct [OF l] this, of "\<lambda>i. cfg_left (cfgs a' i)" "\<lambda>i. cfg_left (cfgs a i)"]
  show "configs_left a' + cfg_left (cfgs a ci) = configs_left a + cfg_left cs'"
    using cfgs arg_cong [OF idx, of "map (\<lambda>i. cfg_left (cfgs a' i))"] by (simp add: configs_left_def comp_def)
qed

lemma change_pend:
  assumes live: "live a pend w" and st: "transactionState a = WaitOnChangeConfirmation" and c: "c \<in> set pend"
  obtains addr ci s m where "(addr, ci, s) \<in> set (switchStates a)" and "\<not> hasConfiguration s"
    and "progress (cfgs a ci) m" and "\<forall>cf \<in> set (cfgs a ci). changeable cf" and "c = (to_string m, sid a ci)"
    and "mset (remove1 c pend) = mset (map (\<lambda>i. (to_string (current (cfgs a i)), sid a i)) (remove1 ci (unanswered a)))"
proof -
  let ?g = "\<lambda>i. (to_string (current (cfgs a i)), sid a i)"
  from live have p: "mset pend = mset (map ?g (unanswered a))" by (simp add: live_def expected_def st)
  then have "set pend = set (map ?g (unanswered a))" by (rule mset_eq_setD)
  with c have "c \<in> ?g ` set (unanswered a)" by simp
  then obtain ci where cc: "c = ?g ci" and ci: "ci \<in> set (unanswered a)" by (rule imageE)
  then obtain addr s where e: "(addr, ci, s) \<in> set (switchStates a)" "\<not> hasConfiguration s"
    by (auto simp: unanswered_def conns_with_mem st answered_def)
  from live have "\<forall>x \<in> set (switchStates a). cfg_ok (transactionState a) (hasConfiguration (snd (snd x))) (cfgs a (fst (snd x)))"
    by (simp add: live_def)
  from bspec [OF this e(1)] e(2) have "cfg_ok WaitOnChangeConfirmation False (cfgs a ci)" by (simp add: st)
  then have ok: "progress (cfgs a ci) (current (cfgs a ci))" "\<forall>cf \<in> set (cfgs a ci). changeable cf"
    by (simp_all add: cfg_ok_def rounds_def)
  have "mset pend = add_mset c (mset (map ?g (remove1 ci (unanswered a))))"
    unfolding p cc by (rule mset_map_remove1 [OF ci])
  then have "mset (remove1 c pend) = mset (map ?g (remove1 ci (unanswered a)))" by simp
  with that [OF e ok(1,2) cc] show ?thesis .
qed


abbreviation confirmed :: "nat \<Rightarrow> nat \<Rightarrow> 'a app_scheme \<Rightarrow> 'a app_scheme" where
  "confirmed ci m a \<equiv> set_configuration ci m (\<lambda>c. c\<lparr>cf_state := ConfigurationStateSuccess\<rparr>) a"

lemma change_handler:
  fixes a :: "(unit, 'a) tapp_scheme"
  assumes l: "linked a" and e: "(addr, ci, s) \<in> set (switchStates a)" and st: "transactionState a = WaitOnChangeConfirmation"
    and sw: "sw_all (live_switch WaitOnChangeConfirmation) a" and p: "progress (cfgs a ci) m"
  shows "fsm now (ok_reply (to_string m) (sid a ci)) a =
    rbind (next_change ci (confirmed ci m a)) (\<lambda>a2.
      if length (getSwitchesInState SwitchWithChangedCandidateConfiguration a2) = total a2
         \<and> length (getSwitchesInState SwitchError a2) = 0
      then rbind (send_to_all commit_config COMMIT_APPROVED_MSG_ID [EmitPhase PHASE_CONFIRMATION] a2)
             (\<lambda>a3. Inr (a3\<lparr>transactionState := WaitOnCommitExecution\<rparr>))
      else Inr (a2\<lparr>transactionState := WaitOnChangeConfirmation\<rparr>))"
proof -
  have "get_configuration ci (int m) a = Inr (cfgs a ci ! m)"
    using linked_entry(1) [OF l e] p by (simp add: get_configuration_def get_connection_def vec_at_def cfgs_def progress_def)
  moreover have "cf_state (cfgs a ci ! m) = ConfigurationStateRequested" using p by (simp add: progress_def)
  moreover have "getSwitchesInState SwitchError (confirmed ci m a) = []"
    using no_errors [OF sw] by (simp add: getSwitchesInState_def)
  ultimately show ?thesis
    using known_reply [OF l e, of "to_string m"]
    by (simp add: st fsm_simps handleMessageInWaitOnChangeConfirmation_def handle_change_def CHANGE_MSG_ID_def
        Let_def commit_all_def simple_transition simple_phase_def if_distrib [of "\<lambda>r. rbind r _"]
        cong: if_cong)
qed

lemma confirmed_facts:
  assumes l: "linked a" and e: "(addr, ci, s) \<in> set (switchStates a)"
  shows "same_conns a (confirmed ci m a)"
    and "cfgs (confirmed ci m a) i = (if i = ci then succeeded m (cfgs a ci) else cfgs a i)"
    and "get_connection ci (confirmed ci m a) = Inr (a_connections (confirmed ci m a) ! ci)"
    and "cn_configurations (a_connections (confirmed ci m a) ! ci) = succeeded m (cfgs a ci)"
    and "linked (confirmed ci m a)" and "sid (confirmed ci m a) ci = sid a ci"
proof -
  note ci = linked_entry(1) [OF l e]
  show c: "same_conns a (confirmed ci m a)" by (rule set_configuration_conns)
  show f: "cfgs (confirmed ci m a) i = (if i = ci then succeeded m (cfgs a ci) else cfgs a i)" for i
    using cfgs_set_configuration [OF ci] by (simp add: succeeded_def)
  show "cn_configurations (a_connections (confirmed ci m a) ! ci) = succeeded m (cfgs a ci)"
    using f [of ci] by (simp add: cfgs_def)
  show "linked (confirmed ci m a)" by (rule same_conns_linked [OF c l]) simp
  show "get_connection ci (confirmed ci m a) = Inr (a_connections (confirmed ci m a) ! ci)"
    using ci same_conns_nth(1) [OF c] by (simp add: get_connection_def vec_at_def)
  show "sid (confirmed ci m a) ci = sid a ci" using same_conns_nth(2) [OF c ci] by simp
qed

text \<open>A connection with another waiting configuration sends it.\<close>

lemma next_change_more:
  fixes a :: "('z, 'a) tapp_scheme"
  assumes l: "linked a" and e: "(addr, ci, s) \<in> set (switchStates a)" and p: "progress (cfgs a ci) m"
    and ch: "\<forall>cf \<in> set (cfgs a ci). changeable cf" and more: "Suc m < length (cfgs a ci)"
  shows "\<exists>a2 :: ('z, 'a) tapp_scheme. next_change ci (confirmed ci m a) = Inr a2 \<and> same_conns a a2 \<and> switchStates a2 = switchStates a
    \<and> calls a2 = calls a @ [(to_string (Suc m), sid a ci)]
    \<and> (\<forall>i. cfgs a2 i = (if i = ci then requested (Suc m) (succeeded m (cfgs a ci)) else cfgs a i))"
proof -
  note c = confirmed_facts [OF l e, of m]
  let ?cs = "succeeded m (cfgs a ci)"
  let ?f = "\<lambda>cf. cf\<lparr>cf_type := MT_EditConfig, cf_target := ''candidate''\<rparr>"
  let ?a1 = "set_configuration ci (Suc m) ?f (confirmed ci m a)"
  have ci: "ci < length (a_connections (confirmed ci m a))" using linked_entry(1) [OF l e] same_conns_nth(1) [OF c(1)] by simp
  have ci1: "ci < length (a_connections ?a1)" using ci same_conns_nth(1) [OF set_configuration_conns] by metis
  have "?cs ! Suc m = cfgs a ci ! Suc m" by (simp add: succeeded_def)
  then have "changeable (?cs ! Suc m)" using ch more by simp
  then have "\<exists>ol. createOperation (?f (?cs ! Suc m)) = Inr ol" by (auto simp: changeable_def createOperation_def)
  then obtain ol where "createOperation (?f (?cs ! Suc m)) = Inr ol" by blast
  from send_config_ok [OF ci1 this, of "to_string (Suc m)"] obtain a2
    where a2: "send_config ci (?f (?cs ! Suc m)) (to_string (Suc m)) ?a1 = Inr a2"
      and s2: "sent [(to_string (Suc m), sid ?a1 ci)] ?a1 a2" by blast
  let ?a3 = "set_configuration ci (Suc m) (\<lambda>cf. cf\<lparr>cf_state := ConfigurationStateRequested\<rparr>) (out EmitNumSent a2)"
  have r: "next_change ci (confirmed ci m a) = Inr ?a3"
    using c progress_next(1) [OF p more] a2 by (simp add: next_change_def CHANGE_MSG_ID_def Let_def)
  have "same_conns (confirmed ci m a) ?a3"
    by (rule same_conns_trans [OF set_configuration_conns same_conns_trans [OF same_conns_refl set_configuration_conns]])
      (use s2 in \<open>simp add: sent_def\<close>)
  then have c3: "same_conns a ?a3" by (rule same_conns_trans [OF c(1)])
  have ci2: "ci < length (a_connections (out EmitNumSent a2))" using ci1 s2 by (simp add: sent_def)
  have "cfgs (out EmitNumSent a2) = cfgs ?a1" using s2 by (simp add: sent_def cfgs_def fun_eq_iff)
  then have "cfgs ?a3 i = (if i = ci then requested (Suc m) ?cs else cfgs a i)" for i
    using cfgs_set_configuration [OF ci2] cfgs_set_configuration [OF ci] c(2) more
    by (simp add: requested_def succeeded_def)
  moreover have "sid ?a1 ci = sid a ci" using same_conns_nth(2) [OF set_configuration_conns ci] c(6) by simp
  ultimately show ?thesis using r c3 s2 by (intro exI [of _ ?a3]) (simp add: sent_def)
qed

text \<open>After the last configuration the switch is marked.\<close>

lemma next_change_done:
  assumes l: "linked a" and e: "(addr, ci, s) \<in> set (switchStates a)" and p: "progress (cfgs a ci) m"
    and last: "\<not> Suc m < length (cfgs a ci)"
  shows "next_change ci (confirmed ci m a) = Inr (modified addr (\<lambda>s. s\<lparr>hasConfiguration := True\<rparr>) (confirmed ci m a))"
  using confirmed_facts [OF l e, of m] progress_last(1) [OF p last] e
    set_switch_known [of "confirmed ci m a" addr ci s "\<lambda>s. s\<lparr>hasConfiguration := True\<rparr>"]
  by (simp add: next_change_def)


lemma all_update: "\<forall>x \<in> set xs. P x \<Longrightarrow> (k < length xs \<Longrightarrow> P y) \<Longrightarrow> \<forall>x \<in> set (xs[k := y]). P x"
  by (cases "k < length xs") (auto dest!: set_update_subset_insert [THEN subsetD] simp: list_update_beyond)

lemma changeable_succeeded: "\<forall>cf \<in> set cs. changeable cf \<Longrightarrow> \<forall>cf \<in> set (succeeded k cs). changeable cf"
  unfolding succeeded_def by (rule all_update) auto

lemma changeable_requested: "\<forall>cf \<in> set cs. changeable cf \<Longrightarrow> \<forall>cf \<in> set (requested k cs). changeable cf"
  unfolding requested_def by (rule all_update) (auto simp: changeable_def)

lemma unanswered_distinct: "linked a \<Longrightarrow> distinct (unanswered a)"
proof -
  assume "linked a"
  from linked_distinct [OF this]
  have "distinct (map (\<lambda>x. fst (snd x)) (filter (\<lambda>x. \<not> answered (transactionState a) (snd (snd x))) (switchStates a)))"
    by (rule distinct_map_filter)
  then show "distinct (unanswered a)" by (simp add: unanswered_def conns_with_def)
qed

lemma change_step_more:
  fixes a :: "(unit, 'a) tapp_scheme"
  assumes live: "live a pend w" and st: "transactionState a = WaitOnChangeConfirmation"
    and e: "(addr, ci, s) \<in> set (switchStates a)" and s: "\<not> hasConfiguration s"
    and p: "progress (cfgs a ci) m" and ch: "\<forall>cf \<in> set (cfgs a ci). changeable cf" and c: "c = (to_string m, sid a ci)"
    and pend: "mset (remove1 c pend) = mset (map (\<lambda>i. (to_string (current (cfgs a i)), sid a i)) (remove1 ci (unanswered a)))"
    and more: "Suc m < length (cfgs a ci)"
  shows "steps (fsm now (ok_reply (fst c) (snd c)) a) a c pend w"
proof -
  from live have l: "linked a" and ne: "switchStates a \<noteq> []" and sw: "sw_all (live_switch WaitOnChangeConfirmation) a"
    and cf: "\<forall>x \<in> set (switchStates a). cfg_ok WaitOnChangeConfirmation (hasConfiguration (snd (snd x))) (cfgs a (fst (snd x)))"
    and un: "unanswered a \<noteq> []" and w: "w = answers_left a" by (simp_all add: live_def st)
  let ?cs = "requested (Suc m) (succeeded m (cfgs a ci))"
  from next_change_more [OF l e p ch more] obtain a2 :: "(unit, 'a) tapp_scheme" where
    a2: "next_change ci (confirmed ci m a) = Inr a2" "same_conns a a2" "switchStates a2 = switchStates a"
    "calls a2 = calls a @ [(to_string (Suc m), sid a ci)]" and f2: "\<And>i. cfgs a2 i = (if i = ci then ?cs else cfgs a i)" by blast
  let ?a' = "a2\<lparr>transactionState := WaitOnChangeConfirmation\<rparr>"
  have "\<not> sw_all (isInState SwitchWithChangedCandidateConfiguration) a2"
    using e s a2(3) by (force simp: sw_all_def isInState_def)
  then have h: "fsm now (ok_reply (fst c) (snd c)) a = Inr ?a'"
    using change_handler [OF l e st sw p, of now] a2(1) by (simp add: c count_total)
  have p': "progress ?cs (Suc m)" by (rule progress_next(2) [OF p more])
  have ch': "\<forall>cf \<in> set ?cs. changeable cf"
    by (rule changeable_requested [OF changeable_succeeded [OF ch]])
  have c': "same_conns a ?a'" using a2(2) by (simp add: same_conns_def)
  have f': "cfgs ?a' i = (if i = ci then ?cs else cfgs a i)" for i using f2 by (simp add: cfgs_def)
  have s': "switchStates ?a' = smap_modify addr (\<lambda>(c, s). (c, s)) (switchStates a)"
    by (simp add: a2(3) smap_modify_def split_def)
  have ok: "\<forall>x \<in> set (switchStates a). fst x \<noteq> addr
      \<longrightarrow> cfg_ok WaitOnChangeConfirmation (hasConfiguration (snd (snd x))) (cfgs a (fst (snd x)))" using cf by blast
  have ok': "cfg_ok WaitOnChangeConfirmation (hasConfiguration s) ?cs"
    using s ch' p' current_progress [OF p'] by (simp add: cfg_ok_def rounds_def)
  note m = changed_facts [where f = "\<lambda>s. s", OF l e c' f' s' ok ok']
  have u': "unanswered ?a' = unanswered a" by (simp add: unanswered_def st conns_with_def a2(3))
  have mem: "i < length (a_connections a)" if "i \<in> set (unanswered a)" for i
    using that linked_entry(1) [OF l] by (auto simp: unanswered_def conns_with_mem)
  have "ci \<in> set (unanswered a)" using e s by (auto simp: unanswered_def conns_with_mem st answered_def)
  from mset_map_change [OF unanswered_distinct [OF l] this,
      of "\<lambda>i. (to_string (current (cfgs ?a' i)), sid ?a' i)" "\<lambda>i. (to_string (current (cfgs a i)), sid a i)"]
  have "mset (expected ?a') = add_mset (to_string (current (cfgs ?a' ci)), sid ?a' ci) (mset (remove1 c pend))"
    unfolding pend using f' same_conns_nth(2) [OF c' mem] by (simp add: expected_def u')
  moreover have "sid ?a' ci = sid a ci" using same_conns_nth(2) [OF c' linked_entry(1) [OF l e]] by simp
  moreover have "current (cfgs ?a' ci) = Suc m" using f' current_progress [OF p'] by simp
  moreover have "cfg_left (cfgs a ci) = Suc (cfg_left ?cs)"
    using progress_left [OF p] progress_left [OF p'] more by (simp add: requested_def succeeded_def)
  ultimately have "live ?a' (remove1 c pend @ [(to_string (Suc m), sid a ci)]) (w - 1)"
    using m sw un w ne by (simp add: live_def st answers_left_def u' a2(3) sw_all_def)
  moreover have "calls ?a' = calls a @ [(to_string (Suc m), sid a ci)]" using a2(4) by simp
  ultimately show ?thesis by (intro stepsI [OF h]) (simp_all add: a2(3))
qed


lemma change_step_done:
  fixes a :: "(unit, 'a) tapp_scheme"
  assumes live: "live a pend w" and st: "transactionState a = WaitOnChangeConfirmation"
    and e: "(addr, ci, s) \<in> set (switchStates a)" and s: "\<not> hasConfiguration s"
    and p: "progress (cfgs a ci) m" and ch: "\<forall>cf \<in> set (cfgs a ci). changeable cf" and c: "c = (to_string m, sid a ci)"
    and pend: "mset (remove1 c pend) = mset (map (\<lambda>i. (to_string (current (cfgs a i)), sid a i)) (remove1 ci (unanswered a)))"
    and last: "\<not> Suc m < length (cfgs a ci)"
  shows "steps (fsm now (ok_reply (fst c) (snd c)) a) a c pend w"
proof -
  from live have l: "linked a" and ne: "switchStates a \<noteq> []" and sw: "sw_all (live_switch WaitOnChangeConfirmation) a"
    and cf: "\<forall>x \<in> set (switchStates a). cfg_ok WaitOnChangeConfirmation (hasConfiguration (snd (snd x))) (cfgs a (fst (snd x)))"
    and w: "w = answers_left a" by (simp_all add: live_def st)
  define f where "f = (\<lambda>s :: switch_state. s\<lparr>hasConfiguration := True\<rparr>)"
  let ?cs = "succeeded m (cfgs a ci)"
  let ?a2 = "modified addr f (confirmed ci m a)"
  note r = next_change_done [OF l e p last, folded f_def]
  have sw2: "sw_all (live_switch WaitOnChangeConfirmation) ?a2"
    using sw_all_modify [where f = f and addr = addr, OF sw] by (simp add: sw_all_def f_def live_switch_def)
  have noerr: "getSwitchesInState SwitchError ?a2 = []" by (rule no_errors [OF sw2])
  have kind: "kind_of WaitOnChangeConfirmation = SwitchWithChangedCandidateConfiguration" by (simp add: kind_of_def)
  note cnt = count_answered [OF sw2, unfolded kind, simplified]
  have c2: "same_conns a ?a2" using confirmed_facts(1) [OF l e, of m] by (simp add: same_conns_def)
  have f2: "cfgs ?a2 i = (if i = ci then ?cs else cfgs a i)" for i
    using confirmed_facts(2) [OF l e, of m i] by (simp add: cfgs_def)
  have s2: "switchStates ?a2 = smap_modify addr (\<lambda>(c, s). (c, f s)) (switchStates a)" by simp
  have suc: "cfg_ok st True ?cs" if "st = WaitOnChangeConfirmation \<or> st = WaitOnCommitExecution" for st
    using progress_last(2) [OF p last] changeable_succeeded [OF ch] that by (auto simp: cfg_ok_def rounds_def)
  have len: "Suc m = length (cfgs a ci)" using last p by (auto simp: progress_def)
  have left: "cfg_left (cfgs a ci) = 1" using progress_left [OF p] len by simp
  have u: "mset (unanswered a) = add_mset ci (mset (conns_with (\<lambda>s. \<not> answered WaitOnChangeConfirmation s) ?a2))"
    using unanswered_modify [where f = f and a' = ?a2, OF l e] s by (simp add: st f_def answered_def)
  then have rem: "mset (remove1 ci (unanswered a)) = mset (conns_with (\<lambda>s. \<not> answered WaitOnChangeConfirmation s) ?a2)"
    by simp
  show ?thesis
  proof (cases "conns_with (\<lambda>s. \<not> answered WaitOnChangeConfirmation s) ?a2 = []")
    case False
    let ?a' = "?a2\<lparr>transactionState := WaitOnChangeConfirmation\<rparr>"
    have h: "fsm now (ok_reply (fst c) (snd c)) a = Inr ?a'"
      using change_handler [OF l e st sw p, of now] r cnt False by (simp add: c)
    have c': "same_conns a ?a'" using c2 by (simp add: same_conns_def)
    have f': "cfgs ?a' i = (if i = ci then ?cs else cfgs a i)" for i using f2 by (simp add: cfgs_def)
    have ok: "\<forall>x \<in> set (switchStates a). fst x \<noteq> addr
        \<longrightarrow> cfg_ok WaitOnChangeConfirmation (hasConfiguration (snd (snd x))) (cfgs a (fst (snd x)))" using cf by blast
    have ok': "cfg_ok WaitOnChangeConfirmation (hasConfiguration (f s)) ?cs" using suc by (simp add: f_def)
    have s': "switchStates ?a' = smap_modify addr (\<lambda>(c, s). (c, f s)) (switchStates a)" by simp
    note m = changed_facts [where f = f, OF l e c' f' s' ok ok']
    have u': "unanswered ?a' = conns_with (\<lambda>s. \<not> answered WaitOnChangeConfirmation s) ?a2"
      by (simp add: unanswered_def conns_with_def)
    let ?g = "\<lambda>i. (to_string (current (cfgs a i)), sid a i)"
    have "map (\<lambda>i. (to_string (current (cfgs ?a' i)), sid ?a' i)) (unanswered ?a') = map ?g (unanswered ?a')"
    proof (rule map_cong [OF refl])
      fix i assume i: "i \<in> set (unanswered ?a')"
      have "set (unanswered ?a') = set (remove1 ci (unanswered a))" unfolding u' using mset_eq_setD [OF rem] by simp
      with i have i': "i \<in> set (unanswered a)" "i \<noteq> ci" using unanswered_distinct [OF l] by simp_all
      then have "i < length (a_connections a)"
        using linked_entry(1) [OF l] by (auto simp: unanswered_def conns_with_mem)
      then show "(to_string (current (cfgs ?a' i)), sid ?a' i) = ?g i"
        using f' i'(2) same_conns_nth(2) [OF c'] by simp
    qed
    moreover have "expected ?a' = map (\<lambda>i. (to_string (current (cfgs ?a' i)), sid ?a' i)) (unanswered ?a')"
      by (simp add: expected_def)
    ultimately have "mset (expected ?a') = image_mset ?g (mset (unanswered ?a'))" by (simp only: mset_map)
    also have "\<dots> = image_mset ?g (mset (remove1 ci (unanswered a)))" unfolding u' rem ..
    finally have ex: "mset (remove1 c pend) = mset (expected ?a')" unfolding pend by (simp only: mset_map)
    have "switchStates ?a' \<noteq> []" using m(2) ne by (metis length_0_conv)
    moreover have "sw_all (live_switch WaitOnChangeConfirmation) ?a'" using sw2 by (simp add: sw_all_def)
    moreover have "w - 1 = answers_left ?a'"
      using w m(2,4) left progress_last(3) [OF p last] by (simp add: answers_left_def st)
    moreover have "unanswered ?a' \<noteq> []" unfolding u' by (rule False)
    ultimately have "live ?a' (remove1 c pend) (w - 1)"
      using m(1,3) ex by (simp add: live_def)
    then show ?thesis unfolding steps_def h by (intro exI [of _ ?a'] exI [of _ "[]"]) simp
  next
    case True
    have l2: "linked ?a2"
      unfolding linked_modify by (rule confirmed_facts(5) [OF l e])
    obtain a3 where a3: "send_to_all commit_config COMMIT_APPROVED_MSG_ID [EmitPhase PHASE_CONFIRMATION] ?a2 = Inr a3"
      and s3: "sent (map (\<lambda>i. (COMMIT_APPROVED_MSG_ID, sid ?a2 i)) (map (\<lambda>x. fst (snd x)) (switchStates ?a2))) ?a2 a3"
      using send_to_all_ok [OF l2 create_simple(5), of "[EmitPhase PHASE_CONFIRMATION]"] by fastforce
    let ?a' = "a3\<lparr>transactionState := WaitOnCommitExecution\<rparr>"
    have h: "fsm now (ok_reply (fst c) (snd c)) a = Inr ?a'"
      using change_handler [OF l e st sw p, of now] r cnt True noerr a3 by (simp add: c)
    have con: "a_connections ?a' = a_connections ?a2" and s': "switchStates ?a' = smap_modify addr (\<lambda>(c, s). (c, f s)) (switchStates a)"
      using s3 by (simp_all add: sent_def)
    have c': "same_conns a ?a'" using c2 con by (simp add: same_conns_def)
    have f': "cfgs ?a' i = (if i = ci then ?cs else cfgs a i)" for i
      using f2 con by (simp add: cfgs_def)
    have all: "sw_all (\<lambda>s. live_switch WaitOnCommitExecution s \<and> \<not> answered WaitOnCommitExecution s) ?a'"
      using sw2 True s' s2 by (auto simp: conns_with_none sw_all_def phase_defs)
    have ok: "\<forall>x \<in> set (switchStates a). fst x \<noteq> addr
        \<longrightarrow> cfg_ok WaitOnCommitExecution (hasConfiguration (snd (snd x))) (cfgs a (fst (snd x)))"
    proof (intro ballI impI)
      fix x assume x: "x \<in> set (switchStates a)" "fst x \<noteq> addr"
      then have "(fst x, snd x) \<in> set (switchStates ?a2)" unfolding s2 smap_modify_mem
        by (intro exI [of _ "snd x"]) simp
      then have "hasConfiguration (snd (snd x))" using True by (auto simp: conns_with_none sw_all_def answered_def)
      with bspec [OF cf x(1)] show "cfg_ok WaitOnCommitExecution (hasConfiguration (snd (snd x))) (cfgs a (fst (snd x)))"
        by (simp add: cfg_ok_def rounds_def)
    qed
    have ok': "cfg_ok WaitOnCommitExecution (hasConfiguration (f s)) ?cs" using suc by (simp add: f_def)
    note m = changed_facts [where f = f, OF l e c' f' s' ok ok']
    let ?is = "map (\<lambda>x. fst (snd x)) (switchStates ?a')"
    have u': "unanswered ?a' = ?is"
      using conns_with_all [of "\<lambda>s. \<not> answered WaitOnCommitExecution s" ?a'] all by (simp add: unanswered_def sw_all_def)
    have "mset (remove1 ci (unanswered a)) = {#}" unfolding rem True by simp
    then have "remove1 ci (unanswered a) = []" unfolding mset_zero_iff .
    then have "mset (remove1 c pend) = {#}" unfolding pend by simp
    then have "remove1 c pend = []" unfolding mset_zero_iff .
    moreover have "switchStates ?a' \<noteq> []" using m(2) ne by (metis length_0_conv)
    moreover have "w - 1 = answers_left ?a'"
      using w m(2,4) left progress_last(3) [OF p last] by (simp add: answers_left_def st rounds_def u')
    moreover have "sid ?a2 = sid ?a'" by (rule linked_cong(2)) (simp add: con)
    then have cs: "map (\<lambda>i. (COMMIT_APPROVED_MSG_ID, sid ?a2 i)) (map (\<lambda>x. fst (snd x)) (switchStates ?a2)) = expected ?a'"
      using s' s2 by (simp add: expected_def u' call_id_def)
    ultimately have "live ?a' (remove1 c pend @ expected ?a') (w - 1)"
      using m(1,3) all u' by (simp add: live_def sw_all_conj)
    moreover have "calls ?a' = calls a @ expected ?a'" using s3 cs by (simp add: sent_def)
    moreover have "map fst (switchStates ?a') = map fst (switchStates a)" unfolding s' by simp
    ultimately show ?thesis by (intro stepsI [OF h])
  qed
qed

lemma change_step:
  fixes a :: "(unit, 'a) tapp_scheme"
  assumes live: "live a pend w" and st: "transactionState a = WaitOnChangeConfirmation" and c: "c \<in> set pend"
  shows "steps (fsm now (ok_reply (fst c) (snd c)) a) a c pend w"
proof -
  from change_pend [OF assms] obtain addr ci s m where
    e: "(addr, ci, s) \<in> set (switchStates a)" "\<not> hasConfiguration s"
      "progress (cfgs a ci) m" "\<forall>cf \<in> set (cfgs a ci). changeable cf" "c = (to_string m, sid a ci)"
      "mset (remove1 c pend) = mset (map (\<lambda>i. (to_string (current (cfgs a i)), sid a i)) (remove1 ci (unanswered a)))" .
  show ?thesis
    by (cases "Suc m < length (cfgs a ci)") (rule change_step_more [OF live st e], assumption, rule change_step_done [OF live st e], assumption)
qed


subsection \<open>To the end of the transaction\<close>

lemma live_step:
  fixes a :: "(unit, 'a) tapp_scheme"
  assumes live: "live a pend w" and c: "c \<in> set pend" and st: "transactionState a \<noteq> EndOfTransaction"
  shows "steps (fsm now (ok_reply (fst c) (snd c)) a) a c pend w"
proof -
  from live have "sw_all (live_switch (transactionState a)) a" "switchStates a \<noteq> []" by (simp_all add: live_def)
  then have "live_switch (transactionState a) (snd (snd (hd (switchStates a))))" by (simp add: sw_all_def)
  then show ?thesis
    using lock_step [OF live _ c] candidate_step [OF live _ c] candidate_lock_step [OF live _ c] change_step [OF live _ c]
      commit_step [OF live _ c] delete_old_step [OF live _ c] unlock_step [OF live _ c] st
    by (cases "transactionState a") (simp_all add: live_switch_def)
qed

lemma live_pend: "live a pend w \<Longrightarrow> transactionState a \<noteq> EndOfTransaction \<Longrightarrow> pend \<noteq> [] \<and> 0 < w"
  by (cases "transactionState a") (auto simp: live_def expected_def answers_left_def)

lemma live_end: "live a pend w \<Longrightarrow> transactionState a = EndOfTransaction \<Longrightarrow> pend = []"
  by (simp add: live_def expected_def unanswered_def conns_with_def answered_def)

lemma live_run:
  fixes a :: "(unit, 'a) tapp_scheme"
  assumes "live a pend w" and "w \<le> length xs"
  shows "\<exists>a2 w2. ok_run fsm resolve xs (a, pend) = Inr (a2, []) \<and> live a2 [] w2
    \<and> transactionState a2 = EndOfTransaction \<and> map fst (switchStates a2) = map fst (switchStates a)"
  using assms
proof (induction xs arbitrary: a pend w)
  case Nil
  then have "transactionState a = EndOfTransaction" using live_pend by fastforce
  with Nil live_end show ?case by fastforce
next
  case (Cons x xs)
  obtain now k where x: "x = (now, k)" by (cases x)
  show ?case
  proof (cases "transactionState a = EndOfTransaction")
    case True
    with Cons.prems(1) live_end [OF Cons.prems(1)] show ?thesis by (auto simp: x)
  next
    case False
    with live_pend [OF Cons.prems(1)] have ne: "pend \<noteq> []" and w: "0 < w" by auto
    let ?c = "pend ! (k mod length pend)"
    have c: "?c \<in> set pend" using ne by simp
    let ?b = "out EmitNumReceived a"
    have b: "live ?b pend w" using Cons.prems(1) live_cong [of ?b a] by simp
    have "steps (fsm now (ok_reply (fst ?c) (snd ?c)) ?b) ?b ?c pend w"
      by (rule live_step [OF b c]) (simp add: False)
    then obtain a' cs where a': "fsm now (ok_reply (fst ?c) (snd ?c)) ?b = Inr a'" "calls a' = calls a @ cs"
      "map fst (switchStates a') = map fst (switchStates a)" "live a' (remove1 ?c pend @ cs) (w - 1)"
      by (auto simp: steps_def)
    have "new_calls a a' = cs" by (simp add: new_calls_def a'(2))
    moreover have "handleMessage_tx resolve fsm now (ok_reply (fst ?c) (snd ?c)) a = Inr a'"
      using a'(1) by (simp add: handleMessage_tx_def isFSMAlphabet_def ok_reply_def)
    ultimately have "ok_run fsm resolve (x # xs) (a, pend)
        = ok_run fsm resolve xs (a', remove1 ?c pend @ cs)"
      using ne by (simp add: x Let_def)
    with Cons.IH [OF a'(4)] Cons.prems(2) w a'(3) show ?thesis by auto
  qed
qed

text \<open>The start: every connection becomes a switch that has answered nothing.\<close>

lemma determine_loop_fresh:
  assumes "distinct (map cn_remoteAddress cs)" and "\<forall>c \<in> set cs. smap_get (cn_remoteAddress c) m = None" and "smap_wf m"
  shows "smap_wf (determine_loop new i cs m) \<and> set (determine_loop new i cs m)
    = set m \<union> {(cn_remoteAddress (cs ! j), i + j, new) | j. j < length cs}"
  using assms
proof (induction cs arbitrary: i m)
  case (Cons c cs)
  let ?m = "smap_put (cn_remoteAddress c) (i, new) m"
  have none: "smap_get (cn_remoteAddress c) m = None" using Cons.prems(2) by simp
  have "\<forall>d \<in> set cs. smap_get (cn_remoteAddress d) ?m = None"
  proof
    fix d assume d: "d \<in> set cs"
    then have "cn_remoteAddress d \<in> cn_remoteAddress ` set cs" by (rule imageI)
    moreover have "cn_remoteAddress c \<notin> cn_remoteAddress ` set cs" using Cons.prems(1) by simp
    ultimately have "cn_remoteAddress d \<noteq> cn_remoteAddress c" by metis
    then show "smap_get (cn_remoteAddress d) ?m = None" using Cons.prems(2,3) d by (simp add: smap_get_put)
  qed
  moreover have wf: "smap_wf ?m" using Cons.prems(3) by (rule smap_put_wf)
  ultimately have "smap_wf (determine_loop new (Suc i) cs ?m)
      \<and> set (determine_loop new (Suc i) cs ?m) = set ?m \<union> {(cn_remoteAddress (cs ! j), Suc i + j, new) | j. j < length cs}"
    using Cons.IH [of ?m "Suc i"] Cons.prems(1) by simp
  moreover have "set ?m = insert (cn_remoteAddress c, i, new) (set m)"
    using none smap_entries_get [OF wf] smap_entries_get [OF Cons.prems(3)] by (auto simp: smap_get_put [OF Cons.prems(3)] split: if_splits)
  moreover have "{(cn_remoteAddress ((c # cs) ! j), i + j, new) | j. j < length (c # cs)}
      = insert (cn_remoteAddress c, i, new) {(cn_remoteAddress (cs ! j), Suc i + j, new) | j. j < length cs}"
    by (auto simp: less_Suc_eq_0_disj)
  ultimately show ?case using none by auto
qed simp


definition ready :: "('z, 'a) tapp_scheme \<Rightarrow> bool" where
  "ready a \<longleftrightarrow> transactionState a = BeginOfTransaction \<and> switchStates a = [] \<and> a_connections a \<noteq> []
     \<and> (\<forall>c \<in> set (a_connections a). cn_state c = ConnectionStateEstablished \<and> untouched (cn_configurations c))
     \<and> distinct (map cn_session_id (a_connections a)) \<and> distinct (map cn_remoteAddress (a_connections a))"

definition answers_needed :: "'a app_scheme \<Rightarrow> nat" where
  "answers_needed a = 6 * length (a_connections a) + sum_list (map (\<lambda>c. length (cn_configurations c)) (a_connections a))"

lemma ready_switches:
  assumes "ready a" and "a_connections b = a_connections a" and "switchStates b = determine_loop new 0 (a_connections a) []"
  shows "linked b" and "mset (map (\<lambda>x. fst (snd x)) (switchStates b)) = mset [0 ..< length (a_connections a)]"
    and "set (map fst (switchStates b)) = set (map cn_remoteAddress (a_connections a))"
    and "\<forall>x \<in> set (switchStates b). snd (snd x) = new"
proof -
  let ?cs = "a_connections a"
  from assms have loop: "smap_wf (switchStates b)"
      "set (switchStates b) = {(cn_remoteAddress (?cs ! j), j, new) | j. j < length ?cs}"
    using determine_loop_fresh [of ?cs "[]" new 0] by (simp_all add: ready_def smap_get_def)
  then show l: "linked b"
    using assms(1,2) by (auto simp: linked_def ready_def)
  have "set (map (\<lambda>x. fst (snd x)) (switchStates b)) = set [0 ..< length ?cs]"
    unfolding set_map loop(2) by force
  then show "mset (map (\<lambda>x. fst (snd x)) (switchStates b)) = mset [0 ..< length ?cs]"
    by (rule iffD1 [OF set_eq_iff_mset_eq_distinct [OF linked_distinct [OF l] distinct_upt]])
  have "fst ` set (switchStates b) = {cn_remoteAddress (?cs ! j) | j. j < length ?cs}"
    unfolding loop(2) by force
  moreover have "set (map cn_remoteAddress ?cs) = {cn_remoteAddress (?cs ! j) | j. j < length ?cs}"
    unfolding set_conv_nth by force
  ultimately show "set (map fst (switchStates b)) = set (map cn_remoteAddress ?cs)"
    by (simp only: set_map)
  show "\<forall>x \<in> set (switchStates b). snd (snd x) = new" unfolding loop(2) by auto
qed


lemma start_live:
  fixes a :: "(unit, 'a) tapp_scheme"
  assumes r: "ready a"
  shows "\<exists>a1. handleMessage_tx resolve fsm now MsgStartTransaction a = Inr a1 \<and> live a1 (new_calls a a1) (answers_needed a)
    \<and> set (map fst (switchStates a1)) = set (map cn_remoteAddress (a_connections a))"
proof -
  let ?b = "determineLockOrder new_switch_state (out (EmitPhase PHASE_LOCK) (out EmitDuration (out EmitNumReceived a)))"
  let ?c = "?b\<lparr>transactionState := WaitOnLockResponse\<rparr>"
  let ?n = "length (a_connections a)"
  have cb: "a_connections ?c = a_connections a" by (simp add: determineLockOrder_def)
  have sb: "switchStates ?c = determine_loop new_switch_state 0 (a_connections a) []"
    using r by (simp add: determineLockOrder_def ready_def)
  note b = ready_switches [OF r cb sb]
  have n: "total ?c = ?n" using arg_cong [OF b(2), of size] by simp
  have "0 < ?n" using r by (simp add: ready_def)
  then have ne: "switchStates ?c \<noteq> []" using n by (metis length_0_conv less_numeral_extra(3))
  have sw: "sw_all (\<lambda>s. live_switch WaitOnLockResponse s \<and> \<not> answered WaitOnLockResponse s) ?c"
    using b(4) by (simp add: sw_all_def new_switch_state_def phase_defs)
  then have cons: "conns_with (\<lambda>s. \<not> answered WaitOnLockResponse s) ?c = map (\<lambda>x. fst (snd x)) (switchStates ?c)"
    by (intro conns_with_all) (simp add: sw_all_def)
  then obtain ci rest where ci: "conns_with (\<lambda>s. \<not> answered WaitOnLockResponse s) ?c = ci # rest" using ne by (cases "switchStates ?c") auto
  have "sw_all (live_switch WaitOnLockResponse) ?c" using sw by (simp add: sw_all_def)
  from find_unanswered [OF this ci] obtain addr s where
    find: "find (\<lambda>(addr, ci, s). isInState SwitchAvailable s) (switchStates ?c) = Some (addr, ci, s)"
    and e: "(addr, ci, s) \<in> set (switchStates ?c)" by blast
  from send_config_ok [OF linked_entry(1) [OF b(1) e] create_simple(1), of "''running''" LOCK_MSG_ID]
  obtain a3 where a3: "send_config ci (lock_config ''running'') LOCK_MSG_ID ?c = Inr a3"
    and s3: "sent [(LOCK_MSG_ID, sid ?c ci)] ?c a3" by blast
  have st3: "transactionState a3 = WaitOnLockResponse" using send_config_tx [OF a3] by (auto simp: same_tx_def)
  let ?a1 = "out EmitNumSent a3"
  have con: "a_connections ?a1 = a_connections a" "switchStates ?a1 = switchStates ?c"
    using s3 cb by (simp_all add: sent_def)
  have h: "handleMessage_tx resolve fsm now MsgStartTransaction a = Inr ?a1"
    using r find a3 by (simp add: handleMessage_tx_def isFSMAlphabet_def fsm_simps ready_def
        handleMessageInBeginOfTransaction_def transitionToState_def)
  have l1: "linked ?a1" using linked_cong(1) [of ?a1 ?c] con cb b(1) by simp
  have calls1: "calls ?a1 = calls a @ [(LOCK_MSG_ID, sid ?a1 ci)]"
    using s3 linked_cong(2) [of ?a1 ?c] con cb by (simp add: sent_def determineLockOrder_def)
  have u1: "unanswered ?a1 = ci # rest" using ci con(2) by (simp add: unanswered_def st3 conns_with_def)
  have unt: "untouched (cfgs ?a1 (fst (snd x)))" if "x \<in> set (switchStates ?a1)" for x
  proof -
    have "fst (snd x) < ?n" using l1 that con by (auto simp: linked_def)
    then show ?thesis using r con by (simp add: ready_def cfgs_def)
  qed
  have left: "cfg_left cs = length cs" if "untouched cs" for cs
    using that by (simp add: cfg_left_def untouched_def)
  have "configs_left ?a1 = sum_list (map (\<lambda>i. cfg_left (cfgs ?a1 i)) (map (\<lambda>x. fst (snd x)) (switchStates ?a1)))"
    by (simp add: configs_left_def comp_def)
  also have "\<dots> = sum_mset (image_mset (\<lambda>i. cfg_left (cfgs ?a1 i)) (mset [0 ..< ?n]))"
    unfolding b(2) [symmetric] con(2) by (simp only: mset_map sum_mset_sum_list [symmetric])
  also have "\<dots> = sum_list (map (\<lambda>i. cfg_left (cfgs ?a1 i)) [0 ..< ?n])"
    by (simp only: mset_map [symmetric] sum_mset_sum_list)
  also have "map (\<lambda>i. cfg_left (cfgs ?a1 i)) [0 ..< ?n] = map (\<lambda>c. length (cn_configurations c)) (a_connections a)"
    using r con(1) left by (intro nth_equalityI) (simp_all add: cfgs_def ready_def)
  finally have cl: "configs_left ?a1 = sum_list (map (\<lambda>c. length (cn_configurations c)) (a_connections a))" .
  have "unanswered ?a1 = map (\<lambda>x. fst (snd x)) (switchStates ?c)" using u1 ci cons by simp
  then have "length (unanswered ?a1) = ?n" unfolding n [symmetric] by simp
  then have w: "answers_needed a = answers_left ?a1"
    using cl n con(2) by (simp add: answers_needed_def answers_left_def st3 rounds_def)
  have nc: "new_calls a ?a1 = [(LOCK_MSG_ID, sid ?a1 ci)]" unfolding new_calls_def calls1 by simp
  have "live ?a1 (new_calls a ?a1) (answers_needed a)"
    using l1 ne con(2) sw unt u1 w
    by (simp add: live_def nc st3 expected_def sw_all_def cfg_ok_def rounds_def untouched_def)
  then show ?thesis using h b(3) con(2) by (intro exI [of _ ?a1]) simp
qed


text \<open>
  C2: A transaction comes to its end. Let all connections of the application be established, with
  distinct addresses and sessions, each with at least one waiting configuration that carries data.
  After the start message, if every call is answered with ok, in any order and at any times, the
  application never fails and never stops waiting early: after six answers per switch and one per
  configuration no call is open, and it is in its end state, every switch is configured, committed,
  unlocked and without error, and every configuration of every switch has been applied with success.
\<close>

theorem transaction_completes:
  fixes a :: "(unit, 'a) tapp_scheme"
  assumes "ready a" and "answers_needed a \<le> length choices"
  shows "\<exists>a1 a2. handleMessage_tx resolve fsm now MsgStartTransaction a = Inr a1
    \<and> ok_run fsm resolve choices (a1, new_calls a a1) = Inr (a2, [])
    \<and> transactionState a2 = EndOfTransaction
    \<and> set (map fst (switchStates a2)) = set (map cn_remoteAddress (a_connections a))
    \<and> sw_all (\<lambda>s. done_ok s \<and> \<not> hasLockedRunning s) a2
    \<and> (\<forall>x \<in> set (switchStates a2). \<forall>cf \<in> set (cfgs a2 (fst (snd x))). cf_state cf = ConfigurationStateSuccess)"
proof -
  from start_live [OF assms(1)] obtain a1 where
    a1: "handleMessage_tx resolve fsm now MsgStartTransaction a = Inr a1" "live a1 (new_calls a a1) (answers_needed a)"
    "set (map fst (switchStates a1)) = set (map cn_remoteAddress (a_connections a))" by blast
  from live_run [OF a1(2) assms(2)] obtain a2 w2 where
    a2: "ok_run fsm resolve choices (a1, new_calls a a1) = Inr (a2, [])" "live a2 [] w2"
    "transactionState a2 = EndOfTransaction" "map fst (switchStates a2) = map fst (switchStates a1)" by blast
  from a2(2,3) have "sw_all (live_switch EndOfTransaction) a2"
    and "\<forall>x \<in> set (switchStates a2). cfg_ok EndOfTransaction (hasConfiguration (snd (snd x))) (cfgs a2 (fst (snd x)))"
    by (simp_all add: live_def)
  then have "sw_all (\<lambda>s. done_ok s \<and> \<not> hasLockedRunning s) a2"
    "\<forall>x \<in> set (switchStates a2). \<forall>cf \<in> set (cfgs a2 (fst (snd x))). cf_state cf = ConfigurationStateSuccess"
    by (simp_all add: live_switch_def cfg_ok_def rounds_def sw_all_def)
  moreover have "set (map fst (switchStates a2)) = set (map cn_remoteAddress (a_connections a))"
    unfolding a2(4) by (rule a1(3))
  ultimately show ?thesis using a1(1) a2(1,3) by (intro exI [of _ a1] exI [of _ a2] conjI)
qed

lemma transaction_completes_witness:
  "ready example_tapp \<and> answers_needed example_tapp = 14
   \<and> (\<exists>a1 a2. handleMessage_tx id fsm 1 MsgStartTransaction example_tapp = Inr a1
      \<and> ok_run fsm id (replicate 14 (2, 1)) (a1, new_calls example_tapp a1) = Inr (a2, [])
      \<and> transactionState a2 = EndOfTransaction
      \<and> set (map fst (switchStates a2)) = {''a'', ''b''}
      \<and> sw_all (\<lambda>s. done_ok s \<and> \<not> hasLockedRunning s) a2)"
proof -
  have r: "ready example_tapp"
    by (simp add: ready_def example_tapp_def example_connection_def untouched_def changeable_def new_configuration_def)
  have n: "answers_needed example_tapp = 14"
    by (simp add: answers_needed_def example_tapp_def example_connection_def)
  have "set (map cn_remoteAddress (a_connections example_tapp)) = {''a'', ''b''}"
    by (simp add: example_tapp_def example_connection_def)
  then show ?thesis
    using transaction_completes [OF r, of "replicate 14 (2, 1)" id 1] r n by auto
qed

end
