(* ===== verification/OpenFlowMatch.thy ===== *)
theory OpenFlowMatch
  imports FlowTable
begin

text \<open>
  Building OpenFlow 1.0 matches: \<open>OF100MatchBuilder\<close> (OpenFlow/protocol) and the flow modification
  messages of \<open>AbstractControllerApp\<close> (OpenFlow/controllerApps).
\<close>

unbundle bit_operations_syntax

definition "OFPFW_NW_TOS = (2097152 :: 32 word)"
definition "OFPFW_TAG = (4194304 :: 32 word)"
definition "OFPXMT_OFB_TAG = (36 :: 32 word)"
definition "OFPP_FLOOD = (0xfffffffb :: 32 word)"
definition "OFPP_CONTROLLER = (0xfffffffd :: 32 word)"
definition "OFPP_ANY = (0xffffffff :: 32 word)"
definition "OFP_NO_BUFFER = (0xffffffff :: 32 word)"

text \<open>\<open>oxm\_basic\_match()\<close>: all fields zero.\<close>

definition oxm_zero :: oxm_basic_match where
  "oxm_zero = \<lparr>OFB_IN_PORT = 0, OFB_ETH_SRC = 0, OFB_ETH_DST = 0, OFB_VLAN_VID = 0, OFB_VLAN_PCP = 0, OFB_ETH_TYPE = 0,
     OFB_IP_DSCP = 0, OFB_IP_PROTO = 0, OFB_IPV4_SRC = 0, OFB_IPV4_DST = 0, OFB_TP_SRC = 0, OFB_TP_DST = 0,
     OFB_ARP_OP = 0, OFB_ARP_SPA = 0, OFB_ARP_TPA = 0, OFB_ARP_SHA = 0, OFB_ARP_THA = 0, OFB_TAG = 0, wildcards = 0\<rparr>"

datatype match_field =
    F_IN_PORT "16 word" | F_ETH_SRC mac | F_ETH_DST mac | F_VLAN_VID "16 word" | F_VLAN_PCP "8 word"
  | F_ETH_TYPE "16 word" | F_IP_DSCP "8 word" | F_IP_PROTO "8 word" | F_IPV4_SRC ipv4 | F_IPV4_DST ipv4
  | F_TCP_SRC "16 word" | F_TCP_DST "16 word" | F_UDP_SRC "16 word" | F_UDP_DST "16 word"
  | F_ARP_OP int | F_ARP_SPA ipv4 | F_ARP_TPA ipv4 | F_ARP_SHA mac | F_ARP_THA mac | F_TAG "16 word"
  | F_OTHER

text \<open>Setting a field clears its wildcard bit. For the tag the code clears the bits of another constant.\<close>

definition unwild :: "32 word \<Rightarrow> oxm_basic_match \<Rightarrow> oxm_basic_match" where
  "unwild w m = m\<lparr>wildcards := wildcards m AND NOT w\<rparr>"

definition setField :: "match_field \<Rightarrow> oxm_basic_match \<Rightarrow> oxm_basic_match res" where
  "setField f m =
     (case f of
        F_IN_PORT v \<Rightarrow> Inr (unwild OFPFW_IN_PORT (m\<lparr>OFB_IN_PORT := v\<rparr>))
      | F_ETH_SRC v \<Rightarrow> Inr (unwild OFPFW_DL_SRC (m\<lparr>OFB_ETH_SRC := v\<rparr>))
      | F_ETH_DST v \<Rightarrow> Inr (unwild OFPFW_DL_DST (m\<lparr>OFB_ETH_DST := v\<rparr>))
      | F_VLAN_VID v \<Rightarrow> Inr (unwild OFPFW_DL_VLAN (m\<lparr>OFB_VLAN_VID := v\<rparr>))
      | F_VLAN_PCP v \<Rightarrow> Inr (unwild OFPFW_DL_VLAN_PCP (m\<lparr>OFB_VLAN_PCP := v\<rparr>))
      | F_ETH_TYPE v \<Rightarrow> Inr (unwild OFPFW_DL_TYPE (m\<lparr>OFB_ETH_TYPE := v\<rparr>))
      | F_IP_DSCP v \<Rightarrow> Inr (unwild OFPFW_NW_TOS (m\<lparr>OFB_IP_DSCP := v\<rparr>))
      | F_IP_PROTO v \<Rightarrow> Inr (unwild OFPFW_NW_PROTO (m\<lparr>OFB_IP_PROTO := v\<rparr>))
      | F_IPV4_SRC v \<Rightarrow> Inr (unwild OFPFW_NW_SRC_ALL (m\<lparr>OFB_IPV4_SRC := v\<rparr>))
      | F_IPV4_DST v \<Rightarrow> Inr (unwild OFPFW_NW_DST_ALL (m\<lparr>OFB_IPV4_DST := v\<rparr>))
      | F_TCP_SRC v \<Rightarrow> Inr (unwild OFPFW_TP_SRC (m\<lparr>OFB_TP_SRC := v\<rparr>))
      | F_TCP_DST v \<Rightarrow> Inr (unwild OFPFW_TP_DST (m\<lparr>OFB_TP_DST := v\<rparr>))
      | F_UDP_SRC v \<Rightarrow> Inr (unwild OFPFW_TP_SRC (m\<lparr>OFB_TP_SRC := v\<rparr>))
      | F_UDP_DST v \<Rightarrow> Inr (unwild OFPFW_TP_DST (m\<lparr>OFB_TP_DST := v\<rparr>))
      | F_ARP_OP v \<Rightarrow> Inr (m\<lparr>OFB_ARP_OP := v\<rparr>)
      | F_ARP_SPA v \<Rightarrow> Inr (m\<lparr>OFB_ARP_SPA := v\<rparr>)
      | F_ARP_TPA v \<Rightarrow> Inr (m\<lparr>OFB_ARP_TPA := v\<rparr>)
      | F_ARP_SHA v \<Rightarrow> Inr (m\<lparr>OFB_ARP_SHA := v\<rparr>)
      | F_ARP_THA v \<Rightarrow> Inr (m\<lparr>OFB_ARP_THA := v\<rparr>)
      | F_TAG v \<Rightarrow> Inr (unwild OFPXMT_OFB_TAG (m\<lparr>OFB_TAG := v\<rparr>))
      | F_OTHER \<Rightarrow> Inl (RuntimeError ''This field is not supported by the current match implementation!''))"

text \<open>
  The match of the configuration engine: in port, addresses, VLAN and tag matter, everything else is
  a wildcard. The builder starts from \<open>m0\<close>.
\<close>

definition desired_wildcards :: "32 word" where
  "desired_wildcards = OFPFW_DL_TYPE OR OFPFW_DL_VLAN_PCP OR OFPFW_NW_PROTO OR OFPFW_NW_SRC_ALL OR OFPFW_NW_DST_ALL
     OR OFPFW_TP_SRC OR OFPFW_TP_DST"

definition createDesiredMatch :: "oxm_basic_match \<Rightarrow> 16 word \<Rightarrow> mac \<Rightarrow> mac \<Rightarrow> 16 word \<Rightarrow> 16 word \<Rightarrow> oxm_basic_match res" where
  "createDesiredMatch m0 inport dst src vlan matchTag =
     rbind (setField (F_ETH_DST dst) m0) (\<lambda>m1. rbind (setField (F_ETH_SRC src) m1) (\<lambda>m2.
     rbind (setField (F_IN_PORT inport) m2) (\<lambda>m3. rbind (setField (F_VLAN_VID vlan) m3) (\<lambda>m4.
     rbind (setField (F_TAG matchTag) m4) (\<lambda>m. Inr (m\<lparr>wildcards := desired_wildcards\<rparr>))))))"

text \<open>\<open>createFlowMod\<close>: the table id, cookie and flags keep the zero of a new message.\<close>

definition createFlowMod :: "flow_mod_command \<Rightarrow> oxm_basic_match \<Rightarrow> 32 word \<Rightarrow> int \<Rightarrow> int \<Rightarrow> int \<Rightarrow> flow_mod" where
  "createFlowMod com m outport prio idleTimeOut hardTimeOut =
     \<lparr>fm_table_id = 0, fm_command = com, fm_cookie = 0, fm_priority = of_int prio, fm_flags = 0,
      fm_idle_timeout = of_int idleTimeOut, fm_hard_timeout = of_int hardTimeOut, fm_match = m, fm_actions = [outport]\<rparr>"

subsection \<open>What a built match selects\<close>

lemma createDesiredMatch_eq:
  "createDesiredMatch m0 inport dst src vlan tag = Inr (m0\<lparr>OFB_ETH_DST := dst, OFB_ETH_SRC := src, OFB_IN_PORT := inport,
     OFB_VLAN_VID := vlan, OFB_TAG := tag, wildcards := desired_wildcards\<rparr>)"
  by (simp add: createDesiredMatch_def setField_def unwild_def)

lemma desired_bits:
  "desired_wildcards AND OFPFW_IN_PORT = 0" "desired_wildcards AND OFPFW_DL_SRC = 0"
  "desired_wildcards AND OFPFW_DL_DST = 0" "desired_wildcards AND OFPFW_DL_VLAN = 0"
  "desired_wildcards AND OFPFW_DL_TYPE \<noteq> 0" "desired_wildcards AND OFPFW_DL_VLAN_PCP \<noteq> 0"
  "desired_wildcards AND OFPFW_NW_PROTO \<noteq> 0" "desired_wildcards AND OFPFW_NW_SRC_ALL \<noteq> 0"
  "desired_wildcards AND OFPFW_NW_DST_ALL \<noteq> 0" "desired_wildcards AND OFPFW_TP_SRC \<noteq> 0"
  "desired_wildcards AND OFPFW_TP_DST \<noteq> 0"
  by (simp_all add: desired_wildcards_def ofpfw_defs)

text \<open>
  An entry that the configuration engine asks for selects exactly the frames with its in port,
  addresses and VLAN: all other fields are wildcards, and the version tag that it carries takes no
  part in matching, whatever its value and whatever the tag of the frame.
\<close>

theorem desired_match_ignores_tag:
  "\<exists>m. createDesiredMatch m0 inport dst src vlan tag = Inr m \<and> OFB_TAG m = tag
     \<and> (tryMatch (createEntry now (createFlowMod OFPFC_ADD m outport prio idle hard)) frame
        \<longleftrightarrow> OFB_IN_PORT frame = inport \<and> OFB_ETH_SRC frame = src \<and> OFB_ETH_DST frame = dst \<and> OFB_VLAN_VID frame = vlan)"
  by (auto simp: createDesiredMatch_eq tryMatch_def tryMatch_wild_def createEntry_def createFlowMod_def desired_bits)

end
