(* ===== verification/SwitchRelay.thy ===== *)
theory SwitchRelay
  imports OpenFlowMatch StdMap
begin

text \<open>
  The data plane of a switch (SDN4CoRE/switch): \<open>OF\_RelayUnit\<close>, its AVB variant's match extraction, and
  \<open>Edge\_OF\_RelayUnit\<close>, which tags the frames of a stream with the rule version that is active for it.
  The flow tables are those of \<open>FlowTable\<close>; the switch agent holds pointers to the same modules, so
  they are fields of one record. The accessors for stream id and rule version of a tagged frame come
  with the frame class of the simulation; they read what was last set.
\<close>

unbundle bit_operations_syntax

subsection \<open>Frames\<close>

record talker_advertise =
  ta_streamID :: "64 word"
  ta_source :: mac
  ta_destination :: mac
  ta_vlan :: "16 word"
  ta_maxFrameSize :: "16 word"
  ta_maxIntervalFrames :: "16 word"
  ta_priorityAndRank :: "8 word"

text \<open>
  Messages of the stream reservation protocol. The code tells the classes apart by dynamic casts, which
  also accept a derived class: a failed talker is a talker, a failed listener ready is a listener ready.
\<close>

datatype srp_frame =
    TalkerAdvertise talker_advertise
  | TalkerFailed talker_advertise
  | ListenerReady "64 word" "16 word"
  | ListenerReadyFailed "64 word" "16 word"
  | ListenerAskingFailed "64 word" "16 word"

fun as_talker :: "srp_frame \<Rightarrow> talker_advertise option" where
  "as_talker (TalkerAdvertise ta) = Some ta"
| "as_talker (TalkerFailed ta) = Some ta"
| "as_talker _ = None"

fun as_listener_ready :: "srp_frame \<Rightarrow> (64 word \<times> 16 word) option" where
  "as_listener_ready (ListenerReady sid vid) = Some (sid, vid)"
| "as_listener_ready (ListenerReadyFailed sid vid) = Some (sid, vid)"
| "as_listener_ready _ = None"

fun as_asking_failed :: "srp_frame \<Rightarrow> (64 word \<times> 16 word) option" where
  "as_asking_failed (ListenerAskingFailed sid vid) = Some (sid, vid)"
| "as_asking_failed _ = None"

datatype payload =
    ArpPacket int ipv4 ipv4
  | Ipv4Datagram "8 word" ipv4 ipv4 "(16 word \<times> 16 word) option"
  | SrpPayload srp_frame
  | LldpPayload int "mac option"   \<comment> \<open>port and chassis\<close>
  | NoPayload

record qtag =
  q_vid :: "16 word"
  q_pcp :: "8 word"
  q_matchVersion :: "16 word"
  q_streamID :: "64 word"
  q_displayString :: string

record frame =
  fr_src :: mac
  fr_dst :: mac
  fr_etherType :: "16 word"
  fr_arrivalGate :: nat
  fr_qtag :: "qtag option"
  fr_payload :: payload

definition "ETHERTYPE_ARP = (0x0806 :: 16 word)"
definition "ETHERTYPE_Q = (0x8100 :: 16 word)"
definition "MSRP_ETHERTYPE = (0x22EA :: 16 word)"
definition "OFPPS_BLOCKED = (2 :: 32 word)"

subsection \<open>The relay unit\<close>

record of_switch =
  sw_heap :: fheap
  sw_flowTables :: "flow_table list"
  sw_portState :: "32 word list"
  sw_dataPlanePacket :: int
  sw_flowTableHit :: int
  sw_flowTableMiss :: int

datatype relay_effect =
    SendPort nat frame
  | ForwardToController frame
  | TableMiss frame
  | ForwardSRP srp_frame nat mac

definition extractMatch :: "frame \<Rightarrow> oxm_basic_match res" where
  "extractMatch f =
     (let m0 = oxm_zero\<lparr>OFB_IN_PORT := of_nat (fr_arrivalGate f), OFB_ETH_SRC := fr_src f, OFB_ETH_DST := fr_dst f,
            OFB_ETH_TYPE := fr_etherType f\<rparr>;
          m1 = (case fr_qtag f of
                  Some q \<Rightarrow> m0\<lparr>OFB_VLAN_VID := q_vid q, OFB_TAG := q_matchVersion q\<rparr>
                | None \<Rightarrow> m0\<lparr>OFB_TAG := 0\<rparr>)
      in rbind
           (if fr_etherType f = ETHERTYPE_ARP then
              (case fr_payload f of
                 ArpPacket oper sip dip \<Rightarrow>
                   Inr (m1\<lparr>OFB_IP_PROTO := of_int oper, OFB_IPV4_SRC := sip, OFB_IPV4_DST := dip\<rparr>)
               | _ \<Rightarrow> Inl (RuntimeError ''check_and_cast(): cannot cast to ARPPacket''))
            else Inr m1) (\<lambda>m2.
         case fr_payload f of
           Ipv4Datagram proto src dst transport \<Rightarrow>
             (let m3 = m2\<lparr>OFB_IP_PROTO := proto, OFB_IPV4_SRC := src, OFB_IPV4_DST := dst\<rparr>
              in Inr (case transport of
                        Some (sp, dp) \<Rightarrow> m3\<lparr>OFB_TP_SRC := sp, OFB_TP_DST := dp\<rparr>
                      | None \<Rightarrow> m3))
         | _ \<Rightarrow> Inr m2))"

text \<open>\<open>AVB\_OF\_RelayUnit::extractMatch\<close>\<close>

definition extractMatch_avb :: "frame \<Rightarrow> oxm_basic_match res" where
  "extractMatch_avb f =
     rbind (extractMatch f) (\<lambda>m.
       if OFB_ETH_TYPE m = ETHERTYPE_Q then
         (case fr_qtag f of
            None \<Rightarrow> Inl (NullDeref ''q frame'')
          | Some q \<Rightarrow> Inr (m\<lparr>OFB_VLAN_VID := q_vid q, OFB_VLAN_PCP := q_pcp q\<rparr>))
       else Inr m)"

text \<open>Sending over a gate that does not exist ends the simulation.\<close>

definition send_port :: "32 word \<Rightarrow> frame \<Rightarrow> 'a of_switch_scheme \<Rightarrow> relay_effect res" where
  "send_port outport f s =
     (if unat outport < length (sw_portState s) then Inr (SendPort (unat outport) f)
      else Inl (RuntimeError ''gate index out of range''))"

fun execute_instructions :: "32 word list \<Rightarrow> frame \<Rightarrow> 'a of_switch_scheme \<Rightarrow> relay_effect list res" where
  "execute_instructions [] f s = Inr []"
| "execute_instructions (outport # ps) f s =
     rbind (if outport = OFPP_CONTROLLER then Inr (ForwardToController f) else send_port outport f s) (\<lambda>e.
       rbind (execute_instructions ps f s) (\<lambda>es. Inr (e # es)))"

text \<open>\<open>processFrame\<close> of a relay unit with the given match extraction.\<close>

definition processFrame :: "(frame \<Rightarrow> oxm_basic_match res) \<Rightarrow> simtime \<Rightarrow> frame \<Rightarrow> 'a of_switch_scheme
    \<Rightarrow> ('a of_switch_scheme \<times> relay_effect list) res" where
  "processFrame extract now f s =
     rbind (extract f) (\<lambda>m.
       case sw_flowTables s of
         [] \<Rightarrow> Inl OutOfRange
       | t # ts \<Rightarrow>
           rbind (lookup now m (sw_heap s, t)) (\<lambda>(entry, h, t').
             let s1 = s\<lparr>sw_heap := h, sw_flowTables := t' # ts\<rparr> in
             case entry of
               Some p \<Rightarrow>
                 rbind (deref h p) (\<lambda>e.
                 rbind (execute_instructions (instructions e) f s1) (\<lambda>es.
                   Inr (s1\<lparr>sw_flowTableHit := sw_flowTableHit s1 + 1\<rparr>, es)))
             | None \<Rightarrow> Inr (s1\<lparr>sw_flowTableMiss := sw_flowTableMiss s1 + 1\<rparr>, [TableMiss f])))"

definition processDataPlanePacket :: "(frame \<Rightarrow> oxm_basic_match res) \<Rightarrow> simtime \<Rightarrow> frame \<Rightarrow> 'a of_switch_scheme
    \<Rightarrow> ('a of_switch_scheme \<times> relay_effect list) res" where
  "processDataPlanePacket extract now f s =
     processFrame extract now f (s\<lparr>sw_dataPlanePacket := sw_dataPlanePacket s + 1\<rparr>)"

definition executePacketOutAction :: "32 word \<Rightarrow> frame \<Rightarrow> 32 word \<Rightarrow> 'a of_switch_scheme \<Rightarrow> relay_effect list res" where
  "executePacketOutAction outport f inport s =
     (if outport = OFPP_ANY then Inr []
      else if outport = OFPP_FLOOD then
        Inr (map (\<lambda>i. SendPort i f)
          (filter (\<lambda>i. i \<noteq> unat inport \<and> sw_portState s ! i AND OFPPS_BLOCKED = 0) [0 ..< length (sw_portState s)]))
      else rbind (send_port outport f s) (\<lambda>e. Inr [e]))"

fun disablePorts :: "int list \<Rightarrow> 'a of_switch_scheme \<Rightarrow> 'a of_switch_scheme res" where
  "disablePorts [] s = Inr s"
| "disablePorts (i # is) s =
     (if 0 \<le> i \<and> i < int (length (sw_portState s))
      then disablePorts is (s\<lparr>sw_portState := (sw_portState s)[nat i := sw_portState s ! nat i OR OFPPS_BLOCKED]\<rparr>)
      else Inl OutOfRange)"

subsection \<open>The edge relay unit\<close>

record edge_switch = of_switch +
  ed_isTaggingEnabled :: bool
  ed_StreamPortMap :: "(64 word, nat) smap"
  ed_SeenStreams :: "64 word list"
  ed_StreamActiveMatchVersionMap :: "(64 word, 16 word) smap"

text \<open>
  The version a frame leaves with: a frame of a stream whose talker advertised itself at this switch
  gets the version that is active for the stream; reading an absent key of the map inserts zero.
\<close>

definition tag_frame :: "frame \<Rightarrow> 'a edge_switch_scheme \<Rightarrow> frame \<times> 'a edge_switch_scheme" where
  "tag_frame f s =
     (if \<not> ed_isTaggingEnabled s then (f, s)
      else
        (case fr_qtag f of
           None \<Rightarrow> (f, s)
         | Some q \<Rightarrow>
             if q_streamID q \<in> set (ed_SeenStreams s) then
               (let m = ed_StreamActiveMatchVersionMap s;
                    v = (case smap_get (q_streamID q) m of Some v \<Rightarrow> v | None \<Rightarrow> 0)
                in (f\<lparr>fr_qtag := Some (q\<lparr>q_matchVersion := v\<rparr>)\<rparr>,
                    s\<lparr>ed_StreamActiveMatchVersionMap := smap_put (q_streamID q) v m\<rparr>))
             else (f, s)))"

definition processDataPlanePacket_edge :: "simtime \<Rightarrow> frame \<Rightarrow> 'a edge_switch_scheme
    \<Rightarrow> ('a edge_switch_scheme \<times> relay_effect list) res" where
  "processDataPlanePacket_edge now f s =
     (case fr_payload f of
        SrpPayload srp \<Rightarrow>
          (case as_talker srp of
             Some ta \<Rightarrow>
               Inr (s\<lparr>ed_StreamPortMap := smap_put (ta_streamID ta) (fr_arrivalGate f) (ed_StreamPortMap s),
                      ed_SeenStreams := ed_SeenStreams s @ [ta_streamID ta]\<rparr>,
                    [ForwardSRP srp (fr_arrivalGate f) (fr_src f)])
           | None \<Rightarrow> processDataPlanePacket extractMatch now (f\<lparr>fr_payload := NoPayload\<rparr>) s)
      | _ \<Rightarrow> (case tag_frame f s of (f', s') \<Rightarrow> processDataPlanePacket extractMatch now f' s'))"

definition listener_ready_frame :: "mac \<Rightarrow> srp_frame \<Rightarrow> frame" where
  "listener_ready_frame srp_address srp =
     \<lparr>fr_src = 0, fr_dst = srp_address, fr_etherType = MSRP_ETHERTYPE, fr_arrivalGate = 0, fr_qtag = None,
      fr_payload = SrpPayload srp\<rparr>"

definition handleSRPMsgFromController :: "mac \<Rightarrow> srp_frame \<Rightarrow> 'a edge_switch_scheme
    \<Rightarrow> ('a edge_switch_scheme \<times> relay_effect list) res" where
  "handleSRPMsgFromController srp_address srp s =
     (case as_listener_ready srp of
        Some (sid, vlan) \<Rightarrow>
          (let port = (case smap_get sid (ed_StreamPortMap s) of Some p \<Rightarrow> p | None \<Rightarrow> 0)
           in if port < length (sw_portState s)
              then Inr (s\<lparr>ed_StreamPortMap := smap_put sid port (ed_StreamPortMap s)\<rparr>,
                        [SendPort port (listener_ready_frame srp_address srp)])
              else Inl (RuntimeError ''gate index out of range''))
      | None \<Rightarrow> Inr (s, []))"

definition handleMatchVersionMessage :: "qtag \<Rightarrow> 'a edge_switch_scheme \<Rightarrow> 'a edge_switch_scheme" where
  "handleMatchVersionMessage q s =
     s\<lparr>ed_StreamActiveMatchVersionMap := smap_put (q_streamID q) (q_matchVersion q) (ed_StreamActiveMatchVersionMap s)\<rparr>"

subsection \<open>What the version tag changes\<close>

definition retag :: "16 word \<Rightarrow> frame \<Rightarrow> frame" where
  "retag v f = f\<lparr>fr_qtag := map_option (\<lambda>q. q\<lparr>q_matchVersion := v\<rparr>) (fr_qtag f)\<rparr>"

fun retag_effect :: "16 word \<Rightarrow> relay_effect \<Rightarrow> relay_effect" where
  "retag_effect v (SendPort i f) = SendPort i (retag v f)"
| "retag_effect v (ForwardToController f) = ForwardToController (retag v f)"
| "retag_effect v (TableMiss f) = TableMiss (retag v f)"
| "retag_effect v (ForwardSRP p i m) = ForwardSRP p i m"

lemma retag_simps [simp]:
  "fr_src (retag v f) = fr_src f" "fr_dst (retag v f) = fr_dst f" "fr_etherType (retag v f) = fr_etherType f"
  "fr_arrivalGate (retag v f) = fr_arrivalGate f" "fr_payload (retag v f) = fr_payload f"
  "fr_qtag (retag v f) = map_option (\<lambda>q. q\<lparr>q_matchVersion := v\<rparr>) (fr_qtag f)"
  by (simp_all add: retag_def)

lemma tryMatch_tag [simp]: "tryMatch e (m\<lparr>OFB_TAG := x\<rparr>) = tryMatch e m"
  by (simp add: tryMatch_def tryMatch_wild_def)

lemma lookup_loop_tag [simp]: "lookup_loop (m\<lparr>OFB_TAG := x\<rparr>) ps h = lookup_loop m ps h"
  by (induction ps) (simp_all cong: if_cong)

lemma lookup_tag [simp]: "lookup now (m\<lparr>OFB_TAG := x\<rparr>) ht = lookup now m ht"
  by (simp add: lookup_def)

definition same_up_to_tag :: "oxm_basic_match res \<Rightarrow> oxm_basic_match res \<Rightarrow> bool" where
  "same_up_to_tag r r' \<longleftrightarrow>
     (case r of Inl e \<Rightarrow> r' = Inl e | Inr m \<Rightarrow> (\<exists>x. r' = Inr (m\<lparr>OFB_TAG := x\<rparr>)))"

lemma same_up_to_tag_refl: "same_up_to_tag r r"
proof (cases r)
  case (Inr m)
  have "Inr m = Inr (m\<lparr>OFB_TAG := OFB_TAG m\<rparr>)" by simp
  then have "\<exists>x. Inr m = Inr (m\<lparr>OFB_TAG := x\<rparr>)" by (rule exI)
  then show ?thesis by (simp only: same_up_to_tag_def Inr sum.case)
qed (simp add: same_up_to_tag_def)

lemma extractMatch_retag: "same_up_to_tag (extractMatch f) (extractMatch (retag v f))"
proof (cases "fr_qtag f")
  case None
  then have "retag v f = f" by (simp add: retag_def)
  then show ?thesis by (simp add: same_up_to_tag_refl)
next
  case (Some q)
  then show ?thesis
    by (cases "fr_payload f") 
      (auto simp: same_up_to_tag_def extractMatch_def Let_def split: option.splits intro!: exI [of _ v])
qed

lemma execute_instructions_retag:
  "execute_instructions ps (retag v f) s
     = rbind (execute_instructions ps f s) (\<lambda>es. Inr (map (retag_effect v) es))"
proof (induction ps)
  case Nil
  then show ?case by simp
next
  case (Cons p ps)
  have "(if p = OFPP_CONTROLLER then Inr (ForwardToController (retag v f)) else send_port p (retag v f) s)
      = rbind (if p = OFPP_CONTROLLER then Inr (ForwardToController f) else send_port p f s) (\<lambda>e. Inr (retag_effect v e))"
    by (simp add: send_port_def)
  with Cons.IH show ?case
    by (cases "if p = OFPP_CONTROLLER then Inr (ForwardToController f) else send_port p f s";
        cases "execute_instructions ps f s") simp_all
qed

text \<open>
  C39: The version tag of a frame has no influence on what a switch does with it: the same frame with
  another version meets the same flow entry, goes out on the same ports, leaves the tables and
  counters in the same state and fails in the same way. Rules that differ only in their version are
  therefore not told apart by the data plane.
\<close>

theorem version_tag_not_matched:
  "processDataPlanePacket extractMatch now (retag v f) s
     = rbind (processDataPlanePacket extractMatch now f s) (\<lambda>(s', es). Inr (s', map (retag_effect v) es))"
proof -
  have "processFrame extractMatch now (retag v f) t
      = rbind (processFrame extractMatch now f t) (\<lambda>(s', es). Inr (s', map (retag_effect v) es))" for t
  proof (cases "extractMatch f")
    case (Inl e)
    then show ?thesis
      using extractMatch_retag [of f v] by (simp add: same_up_to_tag_def processFrame_def)
  next
    case (Inr m)
    then obtain x where x: "extractMatch (retag v f) = Inr (m\<lparr>OFB_TAG := x\<rparr>)"
      using extractMatch_retag [of f v] by (auto simp: same_up_to_tag_def)
    show ?thesis
      by (simp add: processFrame_def Inr x)
        (auto simp: rbind_def Let_def execute_instructions_retag split: list.splits sum.splits prod.splits option.splits)
  qed
  then show ?thesis by (simp add: processDataPlanePacket_def)
qed

subsection \<open>Flooding\<close>

lemma disablePorts_spec:
  "disablePorts bs s = Inr s' \<Longrightarrow>
     length (sw_portState s') = length (sw_portState s)
     \<and> (\<forall>i < length (sw_portState s).
          sw_portState s' ! i AND OFPPS_BLOCKED = 0 \<longleftrightarrow>
          sw_portState s ! i AND OFPPS_BLOCKED = 0 \<and> int i \<notin> set bs)"
proof (induction bs arbitrary: s)
  case Nil
  then show ?case by simp
next
  case (Cons b bs)
  have blocked: "(x OR OFPPS_BLOCKED) AND OFPPS_BLOCKED \<noteq> 0" for x
  proof -
    have "(x OR OFPPS_BLOCKED) AND OFPPS_BLOCKED = OFPPS_BLOCKED"
      by (simp add: bit_eq_iff bit_simps)
    then show ?thesis by (rule ssubst) (simp add: OFPPS_BLOCKED_def)
  qed
  from Cons.prems have b: "0 \<le> b" "b < int (length (sw_portState s))"
    by (auto split: if_splits)
  with Cons.prems have "disablePorts bs (s\<lparr>sw_portState := (sw_portState s)[nat b := sw_portState s ! nat b OR OFPPS_BLOCKED]\<rparr>) = Inr s'"
    by simp
  from Cons.IH [OF this] b show ?case
    using blocked [of "sw_portState s ! nat b"] by (auto simp: nth_list_update split: if_splits)
qed

text \<open>
  After ports have been disabled, flooding a frame sends it exactly once on every port that is
  neither the port it came in on nor disabled (now or before), in the order of the ports.
\<close>

theorem flood_respects_disabled_ports:
  assumes "disablePorts bs s = Inr s'"
  shows "executePacketOutAction OFPP_FLOOD f inport s'
     = Inr (map (\<lambda>i. SendPort i f)
         (filter (\<lambda>i. i \<noteq> unat inport \<and> int i \<notin> set bs \<and> sw_portState s ! i AND OFPPS_BLOCKED = 0)
           [0 ..< length (sw_portState s)]))"
proof -
  note spec = disablePorts_spec [OF assms]
  have "filter (\<lambda>i. i \<noteq> unat inport \<and> sw_portState s' ! i AND OFPPS_BLOCKED = 0) [0 ..< length (sw_portState s)]
      = filter (\<lambda>i. i \<noteq> unat inport \<and> int i \<notin> set bs \<and> sw_portState s ! i AND OFPPS_BLOCKED = 0) [0 ..< length (sw_portState s)]"
    using spec by (intro filter_cong) auto
  with spec show ?thesis
    by (simp add: executePacketOutAction_def OFPP_FLOOD_def OFPP_ANY_def)
qed

definition example_switch :: of_switch where
  "example_switch = \<lparr>sw_heap = (\<lambda>p. None), sw_flowTables = [], sw_portState = [0, 0, 0, 2], sw_dataPlanePacket = 0,
     sw_flowTableHit = 0, sw_flowTableMiss = 0\<rparr>"

definition example_frame :: frame where
  "example_frame = \<lparr>fr_src = 1, fr_dst = 2, fr_etherType = 0x8100, fr_arrivalGate = 0,
     fr_qtag = Some \<lparr>q_vid = 3, q_pcp = 5, q_matchVersion = 0, q_streamID = 7, q_displayString = ''''\<rparr>,
     fr_payload = NoPayload\<rparr>"

theorem flood_respects_disabled_ports_witness:
  "executePacketOutAction OFPP_FLOOD example_frame 0 (example_switch\<lparr>sw_portState := [0, 2, 0, 2]\<rparr>)
     = Inr [SendPort 2 example_frame]"
proof -
  have "disablePorts [1] example_switch = Inr (example_switch\<lparr>sw_portState := [0, 2, 0, 2]\<rparr>)"
    by (simp add: example_switch_def OFPPS_BLOCKED_def)
  from flood_respects_disabled_ports [OF this, of example_frame 0]
  show ?thesis
    by (simp add: example_switch_def OFPPS_BLOCKED_def upt_rec)
qed

subsection \<open>Tagging the frames of a stream\<close>

fun effect_frame :: "relay_effect \<Rightarrow> frame option" where
  "effect_frame (SendPort i f) = Some f"
| "effect_frame (ForwardToController f) = Some f"
| "effect_frame (TableMiss f) = Some f"
| "effect_frame (ForwardSRP p i m) = None"

lemma execute_instructions_frames:
  "execute_instructions ps f s = Inr es \<Longrightarrow> \<forall>e \<in> set es. effect_frame e = Some f"
  by (induction ps arbitrary: es) (auto simp: rbind_Inr_iff send_port_def split: if_splits)

lemma processDataPlanePacket_frames:
  "processDataPlanePacket extract now f s = Inr (s', es) \<Longrightarrow> \<forall>e \<in> set es. effect_frame e = Some f"
proof -
  assume run: "processDataPlanePacket extract now f s = Inr (s', es)"
  then obtain m t ts where "extract f = Inr m" and "sw_flowTables s = t # ts"
    by (cases "sw_flowTables s") (auto simp: processDataPlanePacket_def processFrame_def)
  with run show ?thesis
    by (auto simp: processDataPlanePacket_def processFrame_def rbind_Inr_iff Let_def
        dest!: execute_instructions_frames split: option.splits)
qed


definition example_edge :: edge_switch where
  "example_edge = of_switch.extend
     (example_switch\<lparr>sw_flowTables := [\<lparr>ft_index = 0, ft_entries = [], ft_maxEntries = 0, ft_nextAging = 0,
        ft_agingInterval = 0, ft_agingMsgs = []\<rparr>]\<rparr>)
     (edge_switch.fields True [(7, 0)] [7] [])"

definition example_activation :: qtag where
  "example_activation = \<lparr>q_vid = 0, q_pcp = 0, q_matchVersion = 4, q_streamID = 7, q_displayString = ''ActivationMessage''\<rparr>"


end
