(* ===== verification/SwitchAgent.thy ===== *)
theory SwitchAgent
  imports SwitchRelay
begin

text \<open>
  The control plane of a switch: the packet buffer (OpenFlow/switch/Buffer), \<open>OF\_SwitchAgent\<close> and
  \<open>Edge\_OF\_SwitchAgent\<close> (SDN4CoRE/switch), which acknowledges every flow modification to the
  controller and hands activation messages to the relay unit. The agent and the relay unit of a
  switch are one record; \<open>receiveSignal\<close> is run on the signals of the relay unit.
\<close>

subsection \<open>The packet buffer\<close>

record pbuffer =
  pb_pending :: "(32 word, frame) smap"
  pb_capacity :: "32 word"
  pb_next_buffer_id :: "32 word"

definition new_buffer :: "32 word \<Rightarrow> pbuffer" where
  "new_buffer cap = \<lparr>pb_pending = [], pb_capacity = cap, pb_next_buffer_id = 1\<rparr>"

definition isfull :: "pbuffer \<Rightarrow> bool" where
  "isfull b \<longleftrightarrow> length (pb_pending b) \<ge> unat (pb_capacity b)"

text \<open>\<open>std::map::insert\<close> keeps an existing entry. After the last id the counter restarts at zero.\<close>

definition storeMessage :: "frame \<Rightarrow> pbuffer \<Rightarrow> 32 word \<times> pbuffer" where
  "storeMessage f b =
     (let k = pb_next_buffer_id b;
          b1 = (if smap_get k (pb_pending b) = None then b\<lparr>pb_pending := smap_put k f (pb_pending b)\<rparr> else b)
      in if k \<noteq> OFP_NO_BUFFER then (k, b1\<lparr>pb_next_buffer_id := k + 1\<rparr>)
         else (0, b1\<lparr>pb_next_buffer_id := 0\<rparr>))"

definition returnMessage :: "32 word \<Rightarrow> pbuffer \<Rightarrow> frame option \<times> pbuffer" where
  "returnMessage k b = (smap_get k (pb_pending b), b\<lparr>pb_pending := smap_erase k (pb_pending b)\<rparr>)"

subsection \<open>Messages and state\<close>

datatype encapsulated = EncFrame frame | EncSrp srp_frame

datatype of_msg =
    OfHello
  | OfFeaturesRequest
  | OfFeaturesReply mac "32 word" nat
  | OfFlowMod flow_mod
  | OfPacketOut "32 word" "32 word" "32 word list" "encapsulated option"   \<comment> \<open>buffer id, in port, actions\<close>
  | OfPacketIn "32 word" oxm_basic_match "encapsulated option"
  | OfVendor "32 word" "encapsulated option"   \<comment> \<open>in port\<close>
  | OfOther

record agent = edge_switch +
  ag_mac :: mac
  ag_isTaggingEnabled :: bool
  ag_hasController :: bool
  ag_connected :: bool
  ag_ofBusy :: bool
  ag_msgList :: "of_msg list"
  ag_events :: "(simtime \<times> of_msg) list"
  ag_serviceTime :: rat
  ag_parallelProcessing :: bool
  ag_sendCompletePacket :: bool
  ag_buffer :: pbuffer
  ag_controlPlanePacket :: int

datatype agent_effect =
    SocketSend of_msg
  | DataOut nat frame

definition isConnectedToController :: "'a agent_scheme \<Rightarrow> bool" where
  "isConnectedToController s \<longleftrightarrow> ag_connected s \<and> ag_hasController s"

subsection \<open>Messages to the controller\<close>

definition createPacketIn :: "frame \<Rightarrow> 32 word \<Rightarrow> bool \<Rightarrow> of_msg res" where
  "createPacketIn f buffer_id sendFullFrame =
     (if sendFullFrame then Inr (OfPacketIn buffer_id oxm_zero (Some (EncFrame f)))
      else
        (let m = oxm_zero\<lparr>OFB_IN_PORT := of_nat (fr_arrivalGate f), OFB_ETH_SRC := fr_src f, OFB_ETH_DST := fr_dst f,
                   OFB_ETH_TYPE := fr_etherType f\<rparr>
         in if fr_etherType f = ETHERTYPE_ARP then
              (case fr_payload f of
                 ArpPacket oper sip dip \<Rightarrow>
                   Inr (OfPacketIn buffer_id (m\<lparr>OFB_IP_PROTO := of_int oper, OFB_IPV4_SRC := sip, OFB_IPV4_DST := dip\<rparr>) None)
               | _ \<Rightarrow> Inl (RuntimeError ''check_and_cast(): cannot cast to ARPPacket''))
            else Inr (OfPacketIn buffer_id m None)))"

definition handleMissMatchedPacket :: "frame \<Rightarrow> 'a agent_scheme \<Rightarrow> ('a agent_scheme \<times> agent_effect list) res" where
  "handleMissMatchedPacket f s =
     (if ag_sendCompletePacket s \<or> isfull (ag_buffer s)
      then rbind (createPacketIn f OFP_NO_BUFFER True) (\<lambda>p. Inr (s, [SocketSend p]))
      else
        (case storeMessage f (ag_buffer s) of (k, b) \<Rightarrow>
           rbind (createPacketIn f k False) (\<lambda>p. Inr (s\<lparr>ag_buffer := b\<rparr>, [SocketSend p]))))"

definition forwardFrameToController :: "frame \<Rightarrow> agent_effect list res" where
  "forwardFrameToController f = rbind (createPacketIn f OFP_NO_BUFFER True) (\<lambda>p. Inr [SocketSend p])"

definition forwardSRPtoController :: "srp_frame \<Rightarrow> nat \<Rightarrow> agent_effect" where
  "forwardSRPtoController srp port =
     SocketSend (OfPacketIn OFP_NO_BUFFER (oxm_zero\<lparr>OFB_IN_PORT := of_nat port\<rparr>) (Some (EncSrp srp)))"

text \<open>
  The agent listens to the signals \<open>forwardToConSign\<close>, \<open>tableMissSign\<close> and \<open>forwardSRPtoConSig\<close>. The relay unit
  emits the first under the name \<open>forwardToController\<close>, so a frame it forwards to the controller
  reaches nobody.
\<close>

fun receiveSignals :: "relay_effect list \<Rightarrow> 'a agent_scheme \<Rightarrow> ('a agent_scheme \<times> agent_effect list) res" where
  "receiveSignals [] s = Inr (s, [])"
| "receiveSignals (SendPort i f # es) s =
     rbind (receiveSignals es s) (\<lambda>(s', out). Inr (s', DataOut i f # out))"
| "receiveSignals (ForwardToController f # es) s = receiveSignals es s"
| "receiveSignals (TableMiss f # es) s =
     rbind (if isConnectedToController s then handleMissMatchedPacket f s else Inr (s, [])) (\<lambda>(s1, out1).
       rbind (receiveSignals es s1) (\<lambda>(s2, out2). Inr (s2, out1 @ out2)))"
| "receiveSignals (ForwardSRP srp port src # es) s =
     rbind (receiveSignals es s) (\<lambda>(s', out).
       Inr (s', (if isConnectedToController s then [forwardSRPtoController srp port] else []) @ out))"

text \<open>A frame from the data plane.\<close>

definition dataPlaneIn :: "simtime \<Rightarrow> frame \<Rightarrow> 'a agent_scheme \<Rightarrow> ('a agent_scheme \<times> agent_effect list) res" where
  "dataPlaneIn now f s = rbind (processDataPlanePacket_edge now f s) (\<lambda>(s', es). receiveSignals es s')"

subsection \<open>Messages from the controller\<close>

definition handleFeaturesRequestMessage :: "'a agent_scheme \<Rightarrow> agent_effect list" where
  "handleFeaturesRequestMessage s =
     [SocketSend (OfFeaturesReply (ag_mac s) (pb_capacity (ag_buffer s)) (length (sw_portState s)))]"

text \<open>\<open>new\<close> is the address of the entry that the table allocates.\<close>

definition handleFlowModMessage :: "simtime \<Rightarrow> ptr \<Rightarrow> flow_mod \<Rightarrow> 'a agent_scheme \<Rightarrow> 'a agent_scheme res" where
  "handleFlowModMessage now new fm s =
     (let i = unat (fm_table_id fm) in
      rbind (vec_at (sw_flowTables s) (int i)) (\<lambda>t.
      rbind (handleFlowMod now new fm (sw_heap s, t)) (\<lambda>(h, t').
        Inr (s\<lparr>sw_heap := h, sw_flowTables := (sw_flowTables s)[i := t']\<rparr>))))"

definition ack_frame :: "16 word \<Rightarrow> frame" where
  "ack_frame version =
     \<lparr>fr_src = 0, fr_dst = 0, fr_etherType = ETHERTYPE_Q, fr_arrivalGate = 0,
      fr_qtag = Some \<lparr>q_vid = 0, q_pcp = 0, q_matchVersion = version, q_streamID = 0, q_displayString = ''ACKforFlowMod''\<rparr>,
      fr_payload = NoPayload\<rparr>"

definition handleFlowModMessagewithACK :: "simtime \<Rightarrow> ptr \<Rightarrow> flow_mod \<Rightarrow> 'a agent_scheme
    \<Rightarrow> ('a agent_scheme \<times> agent_effect list) res" where
  "handleFlowModMessagewithACK now new fm s =
     rbind (handleFlowModMessage now new fm s) (\<lambda>s'.
       Inr (s', [SocketSend (OfPacketIn OFP_NO_BUFFER oxm_zero (Some (EncFrame (ack_frame (OFB_TAG (fm_match fm))))))]))"

fun executePacketOutActions :: "32 word list \<Rightarrow> frame option \<Rightarrow> 32 word \<Rightarrow> 'a agent_scheme \<Rightarrow> relay_effect list res" where
  "executePacketOutActions [] f inport s = Inr []"
| "executePacketOutActions (a # as) None inport s = Inl (NullDeref ''frame'')"
| "executePacketOutActions (a # as) (Some f) inport s =
     rbind (executePacketOutAction a f inport s) (\<lambda>es.
       rbind (executePacketOutActions as (Some f) inport s) (\<lambda>es'. Inr (es @ es')))"

definition handlePacketOutMessage :: "32 word \<Rightarrow> 32 word \<Rightarrow> 32 word list \<Rightarrow> encapsulated option \<Rightarrow> 'a agent_scheme
    \<Rightarrow> ('a agent_scheme \<times> agent_effect list) res" where
  "handlePacketOutMessage bufferId inPort actions enc s =
     (let (f, s1) =
        (if bufferId \<noteq> OFP_NO_BUFFER
         then (case returnMessage bufferId (ag_buffer s) of (f, b) \<Rightarrow> (f, s\<lparr>ag_buffer := b\<rparr>))
         else (case enc of Some (EncFrame f) \<Rightarrow> (Some f, s) | _ \<Rightarrow> (None, s)))
      in rbind (executePacketOutActions actions f inPort s1) (\<lambda>es. receiveSignals es s1))"

definition processControlPlanePacket :: "simtime \<Rightarrow> ptr \<Rightarrow> of_msg \<Rightarrow> 'a agent_scheme
    \<Rightarrow> ('a agent_scheme \<times> agent_effect list) res" where
  "processControlPlanePacket now new msg s0 =
     (let s = s0\<lparr>ag_controlPlanePacket := ag_controlPlanePacket s0 + 1\<rparr> in
      case msg of
        OfHello \<Rightarrow> Inr (s\<lparr>ag_hasController := True\<rparr>, [])
      | OfFeaturesRequest \<Rightarrow> Inr (s, handleFeaturesRequestMessage s)
      | OfFlowMod fm \<Rightarrow> rbind (handleFlowModMessage now new fm s) (\<lambda>s'. Inr (s', []))
      | OfPacketOut b p as enc \<Rightarrow> handlePacketOutMessage b p as enc s
      | _ \<Rightarrow> Inr (s, []))"

subsection \<open>The edge agent\<close>

definition handleSRPFromController :: "mac \<Rightarrow> encapsulated option \<Rightarrow> 'a agent_scheme
    \<Rightarrow> ('a agent_scheme \<times> agent_effect list) res" where
  "handleSRPFromController srp_address enc s =
     (case enc of
        Some (EncSrp srp) \<Rightarrow> rbind (handleSRPMsgFromController srp_address srp s) (\<lambda>(s', es). receiveSignals es s')
      | _ \<Rightarrow> Inr (s, []))"

definition handlePacketOutMessage_edge :: "encapsulated option \<Rightarrow> 'a agent_scheme \<Rightarrow> 'a agent_scheme" where
  "handlePacketOutMessage_edge enc s =
     (case enc of
        Some (EncFrame f) \<Rightarrow>
          (case fr_qtag f of
             Some q \<Rightarrow> if q_displayString q = ''ActivationMessage'' then handleMatchVersionMessage q s else s
           | None \<Rightarrow> s)
      | _ \<Rightarrow> s)"

definition processControlPlanePacket_edge :: "mac \<Rightarrow> simtime \<Rightarrow> ptr \<Rightarrow> of_msg \<Rightarrow> 'a agent_scheme
    \<Rightarrow> ('a agent_scheme \<times> agent_effect list) res" where
  "processControlPlanePacket_edge srp_address now new msg s =
     (case msg of
        OfVendor p enc \<Rightarrow>
          handleSRPFromController srp_address enc (s\<lparr>ag_controlPlanePacket := ag_controlPlanePacket s + 1\<rparr>)
      | OfFlowMod fm \<Rightarrow> if ag_isTaggingEnabled s then handleFlowModMessagewithACK now new fm s else Inr (s, [])
      | OfPacketOut b p as enc \<Rightarrow> Inr (handlePacketOutMessage_edge enc s, [])
      | _ \<Rightarrow> processControlPlanePacket now new msg s)"

subsection \<open>Service time\<close>

definition scheduleForServiceTime :: "simtime \<Rightarrow> of_msg \<Rightarrow> 'a agent_scheme \<Rightarrow> 'a agent_scheme" where
  "scheduleForServiceTime now msg s = s\<lparr>ag_events := ag_events s @ [(now + ag_serviceTime s, msg)]\<rparr>"

definition scheduleNextServiceTime :: "simtime \<Rightarrow> 'a agent_scheme \<Rightarrow> 'a agent_scheme" where
  "scheduleNextServiceTime now s =
     (case ag_msgList s of
        [] \<Rightarrow> s\<lparr>ag_ofBusy := False\<rparr>
      | m # ms \<Rightarrow> scheduleForServiceTime now m (s\<lparr>ag_msgList := ms\<rparr>))"

definition simulateServiceTime :: "simtime \<Rightarrow> of_msg \<Rightarrow> 'a agent_scheme \<Rightarrow> 'a agent_scheme" where
  "simulateServiceTime now msg s =
     (if ag_parallelProcessing s \<or> \<not> ag_ofBusy s
      then (scheduleForServiceTime now msg s)\<lparr>ag_ofBusy := True\<rparr>
      else s\<lparr>ag_msgList := ag_msgList s @ [msg]\<rparr>)"

text \<open>A service time event: the message it carries is processed and the next one is scheduled.\<close>

definition serviceEvent :: "mac \<Rightarrow> simtime \<Rightarrow> ptr \<Rightarrow> 'a agent_scheme \<Rightarrow> ('a agent_scheme \<times> agent_effect list) res" where
  "serviceEvent srp_address now new s =
     (case ag_events s of
        [] \<Rightarrow> Inr (s, [])
      | (t, m) # es \<Rightarrow>
          rbind (processControlPlanePacket_edge srp_address now new m (s\<lparr>ag_events := es\<rparr>)) (\<lambda>(s', out).
            Inr (scheduleNextServiceTime now s', out)))"

definition established :: "'a agent_scheme \<Rightarrow> 'a agent_scheme" where
  "established s = s\<lparr>ag_connected := True\<rparr>"

definition connect_agent :: "agent_effect list" where
  "connect_agent = [SocketSend OfHello]"

subsection \<open>The buffer keeps what it is given\<close>

definition buffer_inv :: "pbuffer \<Rightarrow> bool" where
  "buffer_inv b \<longleftrightarrow> smap_wf (pb_pending b) \<and> pb_next_buffer_id b \<noteq> 0
     \<and> (\<forall>k. smap_get k (pb_pending b) \<noteq> None \<longrightarrow> k \<noteq> 0 \<and> k < pb_next_buffer_id b)"

lemma new_buffer_inv: "buffer_inv (new_buffer cap)"
  by (simp add: buffer_inv_def new_buffer_def)

lemma next_id_not_max:
  fixes k :: "32 word"
  assumes "k \<noteq> OFP_NO_BUFFER"
  shows "k < k + 1" and "k + 1 \<noteq> 0"
proof -
  have "(4294967295 :: 32 word) = - 1" by simp
  with assms have "k \<noteq> - 1" by (auto simp only: OFP_NO_BUFFER_def)
  then show "k + 1 \<noteq> 0" by (simp add: eq_neg_iff_add_eq_0)
  then show "k < k + 1" using unatSuc [of k] by (simp add: word_less_nat_alt add.commute)
qed

text \<open>
  As long as the buffer ids have not reached the reserved id, a stored frame gets an id that no
  stored frame has and that is not the reserved one, the frame comes back when that id is returned,
  every other stored frame stays where it is, and returning the frame leaves the buffer contents as
  they were before it was stored.
\<close>

theorem buffer_roundtrip:
  assumes inv: "buffer_inv b" and "pb_next_buffer_id b \<noteq> OFP_NO_BUFFER"
    and store: "storeMessage f b = (k, b1)" and ret: "returnMessage k b1 = (r, b2)"
  shows "k \<noteq> OFP_NO_BUFFER \<and> smap_get k (pb_pending b) = None \<and> r = Some f \<and> buffer_inv b1 \<and> buffer_inv b2
    \<and> (\<forall>j. j \<noteq> k \<longrightarrow> smap_get j (pb_pending b1) = smap_get j (pb_pending b))
    \<and> (\<forall>j. smap_get j (pb_pending b2) = smap_get j (pb_pending b))"
proof -
  let ?n = "pb_next_buffer_id b"
  have wf: "smap_wf (pb_pending b)" and free: "smap_get ?n (pb_pending b) = None"
    using inv by (auto simp: buffer_inv_def)
  have k: "k = ?n" and b1: "b1 = b\<lparr>pb_pending := smap_put ?n f (pb_pending b), pb_next_buffer_id := ?n + 1\<rparr>"
    using store assms(2) free by (auto simp: storeMessage_def Let_def)
  have b2: "r = smap_get ?n (pb_pending b1)" "b2 = b1\<lparr>pb_pending := smap_erase ?n (pb_pending b1)\<rparr>"
    using ret by (auto simp: returnMessage_def k)
  note less = next_id_not_max [OF assms(2)]
  have inv1: "buffer_inv b1"
    using inv less wf by (auto simp: buffer_inv_def b1 smap_put_wf smap_get_put split: if_splits)
  have "buffer_inv b2"
    using inv1 by (auto simp: buffer_inv_def b2 smap_erase_wf smap_get_erase split: if_splits)
  with inv1 show ?thesis
    using assms(2) wf free by (auto simp: k b1 b2 smap_get_put smap_get_erase)
qed

theorem buffer_roundtrip_witness:
  "returnMessage 1 (snd (storeMessage example_frame (new_buffer 8))) = (Some example_frame, (new_buffer 8)\<lparr>pb_next_buffer_id := 2\<rparr>)"
proof -
  have store: "storeMessage example_frame (new_buffer 8) = (1, (new_buffer 8)\<lparr>pb_pending := [(1, example_frame)], pb_next_buffer_id := 2\<rparr>)"
    by (simp add: storeMessage_def new_buffer_def OFP_NO_BUFFER_def)
  obtain r b2 where ret: "returnMessage 1 ((new_buffer 8)\<lparr>pb_pending := [(1, example_frame)], pb_next_buffer_id := 2\<rparr>) = (r, b2)"
    by fastforce
  have "r = Some example_frame"
    using buffer_roundtrip [OF new_buffer_inv _ store ret] by (simp add: new_buffer_def OFP_NO_BUFFER_def)
  with ret show ?thesis
    by (simp only: store snd_conv) (simp add: returnMessage_def smap_erase_def new_buffer_def)
qed

subsection \<open>The buffer of an edge switch\<close>

text \<open>Everything that can happen to an edge switch.\<close>

inductive edge_run :: "mac \<Rightarrow> 'a agent_scheme \<Rightarrow> 'a agent_scheme \<Rightarrow> bool" for srp_address where
  edge_refl: "edge_run srp_address s s"
| edge_frame: "edge_run srp_address s s1 \<Longrightarrow> dataPlaneIn now f s1 = Inr (s2, effects) \<Longrightarrow> edge_run srp_address s s2"
| edge_message: "edge_run srp_address s s1 \<Longrightarrow> edge_run srp_address s (simulateServiceTime now msg s1)"
| edge_service: "edge_run srp_address s s1 \<Longrightarrow> serviceEvent srp_address now new s1 = Inr (s2, effects) \<Longrightarrow> edge_run srp_address s s2"
| edge_connect: "edge_run srp_address s s1 \<Longrightarrow> edge_run srp_address s (established s1)"

definition kept :: "'a agent_scheme \<Rightarrow> 'a agent_scheme \<Rightarrow> bool" where
  "kept s s' \<longleftrightarrow> (smap_wf (pb_pending (ag_buffer s)) \<longrightarrow> smap_wf (pb_pending (ag_buffer s')) \<and>
     (\<forall>k f. smap_get k (pb_pending (ag_buffer s)) = Some f \<longrightarrow> smap_get k (pb_pending (ag_buffer s')) = Some f))"

lemma kept_same: "ag_buffer s' = ag_buffer s \<Longrightarrow> kept s s'"
  by (simp add: kept_def)

lemma kept_trans: "kept s s1 \<Longrightarrow> kept s1 s2 \<Longrightarrow> kept s s2"
  by (simp add: kept_def)

lemma handleMissMatchedPacket_kept:
  "handleMissMatchedPacket f s = Inr (s', effs) \<Longrightarrow> kept s s'"
  by (auto simp: handleMissMatchedPacket_def rbind_Inr_iff storeMessage_def Let_def kept_def smap_put_wf smap_get_put
      split: if_splits prod.splits)

lemma receiveSignals_kept: "receiveSignals es s = Inr (s', effs) \<Longrightarrow> kept s s'"
proof (induction es s arbitrary: s' effs rule: receiveSignals.induct)
  case (4 f es s)
  then obtain s1 o1 o2 where one: "(if isConnectedToController s then handleMissMatchedPacket f s else Inr (s, [])) = Inr (s1, o1)"
    and rest: "receiveSignals es s1 = Inr (s', o2)"
    by (auto simp: rbind_Inr_iff)
  from one have "kept s s1"
    by (auto intro: handleMissMatchedPacket_kept kept_same split: if_splits)
  moreover have "kept s1 s'"
    using "4.IH" [OF rest] .
  ultimately show ?case by (rule kept_trans)
qed (auto simp: rbind_Inr_iff kept_same)

lemma processDataPlanePacket_kept:
  "processDataPlanePacket extract now f s = Inr (s', es) \<Longrightarrow> kept s s'"
proof (rule kept_same)
  assume run: "processDataPlanePacket extract now f s = Inr (s', es)"
  then obtain m t ts where "extract f = Inr m" and "sw_flowTables s = t # ts"
    by (cases "sw_flowTables s") (auto simp: processDataPlanePacket_def processFrame_def)
  with run show "ag_buffer s' = ag_buffer s"
    by (auto simp: processDataPlanePacket_def processFrame_def rbind_Inr_iff Let_def split: option.splits)
qed

lemma tag_frame_buffer: "ag_buffer (snd (tag_frame f s)) = ag_buffer s"
  by (simp add: tag_frame_def Let_def split: option.split)

lemma dataPlaneIn_kept: "dataPlaneIn now f s = Inr (s', effs) \<Longrightarrow> kept s s'"
proof -
  assume "dataPlaneIn now f s = Inr (s', effs)"
  then obtain s1 es where edge: "processDataPlanePacket_edge now f s = Inr (s1, es)" and sig: "receiveSignals es s1 = Inr (s', effs)"
    by (auto simp: dataPlaneIn_def rbind_Inr_iff)
  have "kept s s1"
  proof (cases "\<exists>srp ta. fr_payload f = SrpPayload srp \<and> as_talker srp = Some ta")
    case True
    with edge show ?thesis by (auto simp: processDataPlanePacket_edge_def kept_same)
  next
    case False
    have "kept s (snd (tag_frame f s))" by (rule kept_same) (rule tag_frame_buffer)
    with False edge show ?thesis
      by (auto simp: processDataPlanePacket_edge_def split_beta
          intro: processDataPlanePacket_kept kept_trans split: payload.splits option.splits)
  qed
  with receiveSignals_kept [OF sig] show ?thesis by (rule kept_trans [rotated])
qed

lemma handleSRPFromController_kept:
  "handleSRPFromController srp_address enc s = Inr (s', effs) \<Longrightarrow> kept s s'"
proof -
  assume run: "handleSRPFromController srp_address enc s = Inr (s', effs)"
  have same: "handleSRPMsgFromController srp_address srp s = Inr (s1, es) \<Longrightarrow> kept s s1" for srp s1 es
    by (rule kept_same) (auto simp: handleSRPMsgFromController_def Let_def split: option.splits if_splits)
  show ?thesis
    using run
    by (auto simp: handleSRPFromController_def rbind_Inr_iff kept_same dest!: same receiveSignals_kept
        intro: kept_trans split: option.splits encapsulated.splits)
qed

lemma handleFlowModMessage_kept: "handleFlowModMessage now new fm s = Inr s' \<Longrightarrow> kept s s'"
  by (rule kept_same) (auto simp: handleFlowModMessage_def Let_def rbind_Inr_iff)

lemma processControlPlanePacket_edge_kept:
  "processControlPlanePacket_edge srp_address now new msg s = Inr (s', effs) \<Longrightarrow> kept s s'"
proof (cases msg)
  case (OfFlowMod fm)
  assume "processControlPlanePacket_edge srp_address now new msg s = Inr (s', effs)"
  with OfFlowMod show ?thesis
    by (auto simp: processControlPlanePacket_edge_def handleFlowModMessagewithACK_def rbind_Inr_iff kept_same
        dest!: handleFlowModMessage_kept split: if_splits)
next
  case (OfVendor p enc)
  assume "processControlPlanePacket_edge srp_address now new msg s = Inr (s', effs)"
  with OfVendor have "kept (s\<lparr>ag_controlPlanePacket := ag_controlPlanePacket s + 1\<rparr>) s'"
    by (auto simp: processControlPlanePacket_edge_def dest!: handleSRPFromController_kept)
  then show ?thesis by (simp add: kept_def)
next
  case (OfPacketOut b p as enc)
  assume "processControlPlanePacket_edge srp_address now new msg s = Inr (s', effs)"
  with OfPacketOut show ?thesis
    by (intro kept_same) (auto simp: processControlPlanePacket_edge_def handlePacketOutMessage_edge_def
        handleMatchVersionMessage_def split: option.splits encapsulated.splits)
qed (auto simp: processControlPlanePacket_edge_def processControlPlanePacket_def Let_def intro!: kept_same)

lemma serviceEvent_kept: "serviceEvent srp_address now new s = Inr (s', effs) \<Longrightarrow> kept s s'"
proof (cases "ag_events s")
  case (Cons e es)
  assume "serviceEvent srp_address now new s = Inr (s', effs)"
  with Cons obtain s1 o1 where p: "processControlPlanePacket_edge srp_address now new (snd e) (s\<lparr>ag_events := es\<rparr>) = Inr (s1, o1)"
    and s': "s' = scheduleNextServiceTime now s1"
    by (cases e) (auto simp: serviceEvent_def rbind_Inr_iff)
  have "kept s1 s'"
    by (rule kept_same) (simp add: s' scheduleNextServiceTime_def scheduleForServiceTime_def split: list.split)
  with processControlPlanePacket_edge_kept [OF p] show ?thesis by (simp add: kept_def)
qed (simp add: serviceEvent_def kept_same)

text \<open>
  An edge switch never gives up a buffered frame. It takes packet-out messages only as activation
  messages, so whatever happens to the switch, a frame that is in its buffer stays there under its id:
  the frames that missed the table while the buffer had room are never forwarded, and a full buffer
  stays full.
\<close>

theorem edge_buffer_never_released:
  assumes "edge_run srp_address s s'" and "smap_wf (pb_pending (ag_buffer s))"
    and "smap_get k (pb_pending (ag_buffer s)) = Some f"
  shows "smap_get k (pb_pending (ag_buffer s')) = Some f"
proof -
  from assms(1) have "kept s s'"
  proof (induction rule: edge_run.induct)
    case (edge_frame s s1 now f s2 effects)
    then show ?case using dataPlaneIn_kept kept_trans by blast
  next
    case (edge_message s s1 now msg)
    have "kept s1 (simulateServiceTime now msg s1)"
      by (rule kept_same) (simp add: simulateServiceTime_def scheduleForServiceTime_def)
    with edge_message.IH show ?case by (rule kept_trans)
  next
    case (edge_service s s1 now new s2 effects)
    then show ?case using serviceEvent_kept kept_trans by blast
  next
    case (edge_connect s s1)
    have "kept s1 (established s1)" by (rule kept_same) (simp add: established_def)
    with edge_connect.IH show ?case by (rule kept_trans)
  qed (simp add: kept_same)
  with assms(2,3) show ?thesis by (simp add: kept_def)
qed

definition example_agent :: agent where
  "example_agent = edge_switch.extend example_edge
     (agent.fields 9 True True True False [] [] 1 False False
        ((new_buffer 8)\<lparr>pb_pending := [(1, example_frame)], pb_next_buffer_id := 2\<rparr>) 0)"

theorem edge_buffer_never_released_witness:
  "\<exists>s'. serviceEvent 5 3 0 (simulateServiceTime 2 (OfPacketOut 1 0 [2] None) example_agent) = Inr (s', [])
     \<and> smap_get 1 (pb_pending (ag_buffer s')) = Some example_frame"
proof -
  let ?s1 = "simulateServiceTime 2 (OfPacketOut 1 0 [2] None) example_agent"
  obtain s' where run: "serviceEvent 5 3 0 ?s1 = Inr (s', [])"
    by (simp add: serviceEvent_def simulateServiceTime_def scheduleForServiceTime_def example_agent_def agent.defs
        edge_switch.defs processControlPlanePacket_edge_def)
  have "edge_run 5 example_agent s'"
    by (rule edge_service [OF edge_message [OF edge_refl] run])
  then have "smap_get 1 (pb_pending (ag_buffer s')) = Some example_frame"
    by (rule edge_buffer_never_released) (simp_all add: example_agent_def agent.defs edge_switch.defs smap_wf_def)
  with run show ?thesis by blast
qed

end
