(* ===== verification/ControllerCore.thy ===== *)
theory ControllerCore
  imports SwitchAgent
begin

text \<open>
  The OpenFlow controller (OpenFlow/controller/OF\_Controller): connections of switches, the queue of
  messages with its service time, the extraction of the topology, and the tables that the controller
  applications work on. A socket is the id of its connection. The discovered topology is an argument;
  a link names the index of its remote node. \<open>getMacAddress\<close> strings are addresses, the empty string
  is \<open>None\<close>; a topology index or socket that no code has set is \<open>None\<close>. The tables are
  \<open>std::unordered_map\<close>s; a loop over one runs in ascending key order here, which makes a difference only
  when two hosts have the same address. Statistics and the contents of
  the file that \<open>extractHostSwMacTable\<close> writes are left out.
\<close>

subsection \<open>Switches, hosts, topology\<close>

record switch_info =
  si_connID :: int
  si_socket :: "int option"
  si_version :: int
  si_macAddress :: "mac option"
  si_numOfPorts :: int
  si_topoindex :: "nat option"
  si_IsEdge :: bool
  si_connectedHostIndexes :: "nat list"

definition getVersion :: "switch_info \<Rightarrow> int" where
  "getVersion s = si_connID s"

record host_profile =
  hp_macAddress :: mac
  hp_connectedSw_topo_index :: "int option"
  hp_topoindex :: nat

record link =
  l_cplane :: bool   \<comment> \<open>the name of the local gate contains gateCPlane\<close>
  l_remote :: nat

record node =
  n_moduleId :: int
  n_fullName :: string
  n_moduleType :: string
  n_mac :: mac
  n_in :: "link list"
  n_out :: "link list"

text \<open>\<open>std::string::find\<close>, compared with \<open>npos\<close>\<close>

fun contains :: "string \<Rightarrow> string \<Rightarrow> bool" where
  "contains p [] \<longleftrightarrow> p = []"
| "contains p (c # s) \<longleftrightarrow> take (length p) (c # s) = p \<or> contains p s"

definition is_switch :: "node \<Rightarrow> bool" where
  "is_switch n \<longleftrightarrow> contains ''switch'' (n_fullName n)"

record of_controller =
  oc_booted :: bool
  oc_busy :: bool
  oc_serviceTime :: rat
  oc_msgList :: "(int \<times> int \<times> of_msg) list"   \<comment> \<open>connection, version, message\<close>
  oc_events :: "(simtime \<times> int \<times> int \<times> of_msg) list"
  oc_numPacketIn :: int
  oc_switchesList :: "switch_info list"
  oc_topology :: "node list"
  oc_switchIndexes :: "int list"
  oc_hostIndexes :: "int list"
  oc_hostsList :: "host_profile list"
  oc_EdgeSwitches :: "nat list"
  oc_SwitchInfoTable :: "(int, switch_info) smap"
  oc_HostProfileTable :: "(int, host_profile) smap"

datatype controller_effect =
    Send int of_msg
  | EmitPacketIn int of_msg
  | EmitExperimenter of_msg

subsection \<open>Connections\<close>

fun find_conn :: "int \<Rightarrow> switch_info list \<Rightarrow> nat \<Rightarrow> nat option" where
  "find_conn c [] k = None"
| "find_conn c (s # ss) k = (if si_connID s = c then Some k else find_conn c ss (Suc k))"

text \<open>\<open>findSwitchInfoFor\<close> returns a pointer into the vector: the index of the element.\<close>

definition findSwitchInfoFor :: "int \<Rightarrow> 'a of_controller_scheme \<Rightarrow> nat option" where
  "findSwitchInfoFor c s = find_conn c (oc_switchesList s) 0"

definition findSocketFor :: "int \<Rightarrow> 'a of_controller_scheme \<Rightarrow> int option" where
  "findSocketFor c s = Option.bind (find_conn c (oc_switchesList s) 0) (\<lambda>i. si_socket (oc_switchesList s ! i))"

fun findSocketForChassisId_loop :: "mac option \<Rightarrow> switch_info list \<Rightarrow> int option" where
  "findSocketForChassisId_loop m [] = None"
| "findSocketForChassisId_loop m (s # ss) =
     (if si_macAddress s = m then si_socket s else findSocketForChassisId_loop m ss)"

definition findSocketForChassisId :: "mac option \<Rightarrow> 'a of_controller_scheme \<Rightarrow> int option" where
  "findSocketForChassisId m s = findSocketForChassisId_loop m (oc_switchesList s)"

definition registerConnection :: "int \<Rightarrow> int \<Rightarrow> 'a of_controller_scheme \<Rightarrow> 'a of_controller_scheme" where
  "registerConnection c version s =
     (if findSocketFor c s = None then
        s\<lparr>oc_switchesList := oc_switchesList s @
            [\<lparr>si_connID = c, si_socket = Some c, si_version = version, si_macAddress = None, si_numOfPorts = -1,
              si_topoindex = None, si_IsEdge = False, si_connectedHostIndexes = []\<rparr>]\<rparr>
      else s)"

definition send_to :: "int \<Rightarrow> of_msg \<Rightarrow> 'a of_controller_scheme \<Rightarrow> controller_effect list res" where
  "send_to c m s =
     (case findSocketFor c s of
        None \<Rightarrow> Inl (NullDeref ''socket'')
      | Some k \<Rightarrow> Inr [Send k m])"

definition handleFeaturesReply :: "int \<Rightarrow> mac \<Rightarrow> nat \<Rightarrow> 'a of_controller_scheme \<Rightarrow> 'a of_controller_scheme res" where
  "handleFeaturesReply c datapath_id ports s =
     (case findSwitchInfoFor c s of
        None \<Rightarrow> Inl (NullDeref ''swInfo'')
      | Some i \<Rightarrow> Inr (s\<lparr>oc_switchesList := (oc_switchesList s)[i := (oc_switchesList s ! i)
          \<lparr>si_macAddress := Some datapath_id, si_numOfPorts := int ports\<rparr>]\<rparr>))"

definition handlePacketIn :: "int \<Rightarrow> of_msg \<Rightarrow> 'a of_controller_scheme \<Rightarrow> 'a of_controller_scheme \<times> controller_effect list" where
  "handlePacketIn c m s = (s\<lparr>oc_numPacketIn := oc_numPacketIn s + 1\<rparr>, [EmitPacketIn c m])"

definition processQueuedMsg :: "int \<Rightarrow> int \<Rightarrow> of_msg \<Rightarrow> 'a of_controller_scheme
    \<Rightarrow> ('a of_controller_scheme \<times> controller_effect list) res" where
  "processQueuedMsg c version m s =
     (case m of
        OfFeaturesReply dp buffers ports \<Rightarrow> rbind (handleFeaturesReply c dp ports s) (\<lambda>s'. Inr (s', []))
      | OfHello \<Rightarrow>
          (let s1 = registerConnection c version s in
           rbind (send_to c OfHello s1) (\<lambda>e1. rbind (send_to c OfFeaturesRequest s1) (\<lambda>e2. Inr (s1, e1 @ e2))))
      | OfPacketIn b mt enc \<Rightarrow> Inr (handlePacketIn c m s)
      | OfVendor p enc \<Rightarrow> Inr (s, [EmitExperimenter m])
      | _ \<Rightarrow> Inr (s, []))"

text \<open>Messages are queued behind the one in service; a message before the boot time is dropped.\<close>

definition controllerMessage :: "simtime \<Rightarrow> int \<times> int \<times> of_msg \<Rightarrow> 'a of_controller_scheme \<Rightarrow> 'a of_controller_scheme" where
  "controllerMessage now msg s =
     (if oc_booted s then
        (if oc_busy s then s\<lparr>oc_msgList := oc_msgList s @ [msg]\<rparr>
         else s\<lparr>oc_busy := True, oc_events := oc_events s @ [(now + oc_serviceTime s, msg)]\<rparr>)
      else s)"

definition controllerService :: "simtime \<Rightarrow> 'a of_controller_scheme \<Rightarrow> ('a of_controller_scheme \<times> controller_effect list) res" where
  "controllerService now s =
     (case oc_events s of
        [] \<Rightarrow> Inr (s, [])
      | (t, c, version, m) # es \<Rightarrow>
          rbind (processQueuedMsg c version m (s\<lparr>oc_events := es\<rparr>)) (\<lambda>(s1, effs).
            Inr (case oc_msgList s1 of
                   [] \<Rightarrow> (s1\<lparr>oc_busy := False\<rparr>, effs)
                 | m' # ms \<Rightarrow> (s1\<lparr>oc_msgList := ms, oc_events := oc_events s1 @ [(now + oc_serviceTime s1, m')]\<rparr>, effs))))"

subsection \<open>Topology extraction\<close>

definition getTopoIndex :: "int \<Rightarrow> 'a of_controller_scheme \<Rightarrow> int" where
  "getTopoIndex moduleid s =
     (case find_idx (\<lambda>n. n_moduleId n = moduleid) (oc_topology s) of Some i \<Rightarrow> int i | None \<Rightarrow> -1)"

text \<open>
  The first switch with an address; the conversion of an empty address string ends the simulation, so
  a switch that has not answered the features request and stands before the one looked for is an error.
\<close>

fun find_mac :: "mac \<Rightarrow> switch_info list \<Rightarrow> nat \<Rightarrow> nat option res" where
  "find_mac m [] k = Inr None"
| "find_mac m (s # ss) k =
     (case si_macAddress s of
        None \<Rightarrow> Inl (RuntimeError ''MACAddress: wrong address syntax'')
      | Some a \<Rightarrow> if a = m then Inr (Some k) else find_mac m ss (Suc k))"

definition extract_switch :: "nat \<Rightarrow> node \<Rightarrow> 'a of_controller_scheme \<Rightarrow> 'a of_controller_scheme res" where
  "extract_switch i n s0 =
     (let s = s0\<lparr>oc_switchIndexes := oc_switchIndexes s0 @ [n_moduleId n]\<rparr>; sl = oc_switchesList s in
      rbind (find_mac (n_mac n) sl 0) (\<lambda>r. Inr
        (case r of
           None \<Rightarrow> s
         | Some j \<Rightarrow>
             if contains ''EdgeSwitch'' (n_moduleType n)
             then s\<lparr>oc_switchesList := sl[j := (sl ! j)\<lparr>si_topoindex := Some i, si_IsEdge := True\<rparr>],
                    oc_EdgeSwitches := oc_EdgeSwitches s @ [i]\<rparr>
             else s\<lparr>oc_switchesList := sl[j := (sl ! j)\<lparr>si_topoindex := Some i\<rparr>]\<rparr>)))"

definition extract_host :: "nat \<Rightarrow> node \<Rightarrow> 'a of_controller_scheme \<Rightarrow> 'a of_controller_scheme res" where
  "extract_host i n s =
     (let h = \<lparr>hp_macAddress = n_mac n, hp_connectedSw_topo_index = None, hp_topoindex = i\<rparr>;
          remotes = map (\<lambda>l. oc_topology s ! l_remote l) (n_in n);
          s1 = s\<lparr>oc_hostIndexes := oc_hostIndexes s @ [n_moduleId n]\<rparr>
      in case find is_switch remotes of
           None \<Rightarrow> Inr (s1\<lparr>oc_hostsList := oc_hostsList s1 @ [h]\<rparr>)
         | Some r \<Rightarrow>
             rbind (find_mac (n_mac r) (oc_switchesList s1) 0) (\<lambda>f.
               let s2 = (case f of
                           None \<Rightarrow> s1
                         | Some j \<Rightarrow> s1\<lparr>oc_switchesList := (oc_switchesList s1)[j := (oc_switchesList s1 ! j)
                             \<lparr>si_connectedHostIndexes := si_connectedHostIndexes (oc_switchesList s1 ! j) @ [i]\<rparr>]\<rparr>)
               in Inr (s2\<lparr>oc_hostsList := oc_hostsList s2 @
                         [h\<lparr>hp_connectedSw_topo_index := Some (getTopoIndex (n_moduleId r) s)\<rparr>]\<rparr>)))"

fun extract_loop :: "nat \<Rightarrow> node list \<Rightarrow> 'a of_controller_scheme \<Rightarrow> 'a of_controller_scheme res" where
  "extract_loop i [] s = Inr s"
| "extract_loop i (n # ns) s =
     rbind (if is_switch n then extract_switch i n s else extract_host i n s) (\<lambda>s'. extract_loop (Suc i) ns s')"

definition extractTopology :: "node list \<Rightarrow> 'a of_controller_scheme \<Rightarrow> 'a of_controller_scheme res" where
  "extractTopology topo s = extract_loop 0 topo (s\<lparr>oc_topology := topo\<rparr>)"

text \<open>The j-th connected switch is filed under the module id of the j-th switch of the topology.\<close>

fun file_loop :: "int list \<Rightarrow> 'b list \<Rightarrow> (int, 'b) smap \<Rightarrow> (int, 'b) smap res" where
  "file_loop ids [] t = Inr t"
| "file_loop [] (x # xs) t = Inl OutOfRange"
| "file_loop (i # ids) (x # xs) t = file_loop ids xs (smap_put i x t)"

definition extractSwitchInfoTable :: "'a of_controller_scheme \<Rightarrow> 'a of_controller_scheme res" where
  "extractSwitchInfoTable s =
     rbind (file_loop (oc_switchIndexes s) (oc_switchesList s) (oc_SwitchInfoTable s)) (\<lambda>t.
       Inr (s\<lparr>oc_SwitchInfoTable := t\<rparr>))"

definition extractHostProfileTable :: "'a of_controller_scheme \<Rightarrow> 'a of_controller_scheme res" where
  "extractHostProfileTable s =
     rbind (file_loop (oc_hostIndexes s) (oc_hostsList s) (oc_HostProfileTable s)) (\<lambda>t.
       Inr (s\<lparr>oc_HostProfileTable := t\<rparr>))"

text \<open>
  While it writes the host table, the controller reads \<open>\_SwitchInfoTable\<close> with \<open>operator[]\<close>, which
  creates the entry of a switch that has not connected.
\<close>

definition default_switch_info :: switch_info where
  "default_switch_info = \<lparr>si_connID = 0, si_socket = None, si_version = 0, si_macAddress = None, si_numOfPorts = 0,
     si_topoindex = None, si_IsEdge = False, si_connectedHostIndexes = []\<rparr>"

fun host_table_loop :: "node list \<Rightarrow> (int \<times> host_profile) list \<Rightarrow> (int, switch_info) smap \<Rightarrow> (int, switch_info) smap res" where
  "host_table_loop topo [] t = Inr t"
| "host_table_loop topo ((k, h) # hs) t =
     (case hp_connectedSw_topo_index h of
        None \<Rightarrow> Inl (Uninitialised ''connectedSw_topo_index'')
      | Some ix \<Rightarrow>
          rbind (vec_at topo ix) (\<lambda>sw.
            host_table_loop topo hs
              (if smap_get (n_moduleId sw) t = None then smap_put (n_moduleId sw) default_switch_info t else t)))"

definition extractHostSwMacTable :: "'a of_controller_scheme \<Rightarrow> 'a of_controller_scheme res" where
  "extractHostSwMacTable s =
     rbind (host_table_loop (oc_topology s) (oc_HostProfileTable s) (oc_SwitchInfoTable s)) (\<lambda>t.
       Inr (s\<lparr>oc_SwitchInfoTable := t\<rparr>))"

definition extractTopo :: "node list \<Rightarrow> 'a of_controller_scheme \<Rightarrow> 'a of_controller_scheme res" where
  "extractTopo topo s =
     rbind (extractTopology topo s) (\<lambda>s1. rbind (extractSwitchInfoTable s1) (\<lambda>s2.
       rbind (extractHostProfileTable s2) extractHostSwMacTable))"

subsection \<open>What the tables hold\<close>

lemma map_list_update_same: "f y = f (xs ! j) \<Longrightarrow> map f (xs[j := y]) = map f xs"
  by (metis list_update_beyond list_update_id map_update not_le)

lemma extract_switch_macs:
  "extract_switch i n s = Inr s' \<Longrightarrow>
     map si_macAddress (oc_switchesList s') = map si_macAddress (oc_switchesList s)
     \<and> oc_switchIndexes s' = oc_switchIndexes s @ [n_moduleId n] \<and> oc_SwitchInfoTable s' = oc_SwitchInfoTable s"
  by (auto simp: extract_switch_def Let_def rbind_Inr_iff map_list_update_same split: option.splits if_splits)

lemma extract_host_macs:
  "extract_host i n s = Inr s' \<Longrightarrow>
     map si_macAddress (oc_switchesList s') = map si_macAddress (oc_switchesList s)
     \<and> oc_switchIndexes s' = oc_switchIndexes s \<and> oc_SwitchInfoTable s' = oc_SwitchInfoTable s"
  by (auto simp: extract_host_def Let_def rbind_Inr_iff map_list_update_same split: option.splits)

lemma extract_loop_macs:
  "extract_loop i ns s = Inr s' \<Longrightarrow>
     map si_macAddress (oc_switchesList s') = map si_macAddress (oc_switchesList s)
     \<and> oc_switchIndexes s' = oc_switchIndexes s @ map n_moduleId (filter is_switch ns)
     \<and> oc_SwitchInfoTable s' = oc_SwitchInfoTable s"
proof (induction i ns s rule: extract_loop.induct)
  case (2 i n ns s)
  then obtain s1 where "(if is_switch n then extract_switch i n s else extract_host i n s) = Inr s1"
    and "extract_loop (Suc i) ns s1 = Inr s'"
    by (auto simp: rbind_Inr_iff)
  with "2.IH" show ?case
    by (auto dest!: extract_switch_macs extract_host_macs split: if_splits)
qed simp

lemma file_loop_spec:
  assumes "file_loop ids xs t = Inr t'" and "distinct ids" and "smap_wf t"
  shows "length xs \<le> length ids \<and> smap_wf t' \<and> (\<forall>j < length xs. smap_get (ids ! j) t' = Some (xs ! j))
    \<and> (\<forall>k. k \<notin> set (take (length xs) ids) \<longrightarrow> smap_get k t' = smap_get k t)"
  using assms
proof (induction ids xs t rule: file_loop.induct)
  case (3 i ids x xs t)
  then have IH: "length xs \<le> length ids \<and> smap_wf t' \<and> (\<forall>j < length xs. smap_get (ids ! j) t' = Some (xs ! j))
      \<and> (\<forall>k. k \<notin> set (take (length xs) ids) \<longrightarrow> smap_get k t' = smap_get k (smap_put i x t))"
    by (simp add: smap_put_wf)
  moreover have "i \<notin> set (take (length xs) ids)"
    using "3.prems" by (auto dest: in_set_takeD)
  ultimately have "smap_get i t' = Some x"
    using "3.prems" by (simp add: smap_get_put)
  with IH "3.prems" show ?case
    by (auto simp: nth_Cons smap_get_put split: nat.split)
qed simp_all

text \<open>
  Whether the switch table leads to the right switches. Once every switch has connected and the
  topology has been extracted, the entry filed under a module id is the connection of that very switch
  for all switches exactly if the switches connected in the order in which the topology lists them:
  the table pairs the two lists by position.
\<close>

theorem switch_table_correct_iff:
  assumes "extractTopology topo s = Inr s1" and "extractSwitchInfoTable s1 = Inr s2"
    and "oc_switchIndexes s = []" and "oc_SwitchInfoTable s = []"
    and "distinct (map n_moduleId topo)"
    and "length (oc_switchesList s) = length (filter is_switch topo)"
  shows "(\<forall>n \<in> set topo. is_switch n \<longrightarrow>
            (\<exists>e. smap_get (n_moduleId n) (oc_SwitchInfoTable s2) = Some e \<and> si_macAddress e = Some (n_mac n)))
    \<longleftrightarrow> map si_macAddress (oc_switchesList s) = map (\<lambda>n. Some (n_mac n)) (filter is_switch topo)"
proof -
  let ?sw = "filter is_switch topo" and ?l = "oc_switchesList s1"
  have macs: "map si_macAddress ?l = map si_macAddress (oc_switchesList s)"
    and ids: "oc_switchIndexes s1 = map n_moduleId ?sw" and tab: "oc_SwitchInfoTable s1 = []"
    using extract_loop_macs [of 0 topo "s\<lparr>oc_topology := topo\<rparr>" s1] assms(1,3,4) by (auto simp: extractTopology_def)
  then have len: "length ?l = length ?sw"
    using assms(6) by (metis length_map)
  have "distinct (map n_moduleId ?sw)"
    using assms(5) by (simp add: distinct_map_filter)
  moreover have "file_loop (map n_moduleId ?sw) ?l [] = Inr (oc_SwitchInfoTable s2)"
    using assms(2) ids tab by (auto simp: extractSwitchInfoTable_def rbind_Inr_iff)
  ultimately have get: "smap_get (n_moduleId (?sw ! j)) (oc_SwitchInfoTable s2) = Some (?l ! j)" if "j < length ?sw" for j
    using file_loop_spec [of "map n_moduleId ?sw" ?l "[]"] that len by simp
  have "(\<forall>n \<in> set topo. is_switch n \<longrightarrow>
            (\<exists>e. smap_get (n_moduleId n) (oc_SwitchInfoTable s2) = Some e \<and> si_macAddress e = Some (n_mac n)))
      \<longleftrightarrow> (\<forall>n \<in> set ?sw. \<exists>e. smap_get (n_moduleId n) (oc_SwitchInfoTable s2) = Some e \<and> si_macAddress e = Some (n_mac n))"
    by auto
  also have "\<dots> \<longleftrightarrow> (\<forall>j < length ?sw. si_macAddress (?l ! j) = Some (n_mac (?sw ! j)))"
    using get by (simp add: all_set_conv_all_nth del: set_filter)
  also have "\<dots> \<longleftrightarrow> map si_macAddress ?l = map (\<lambda>n. Some (n_mac n)) ?sw"
    using len by (auto simp: list_eq_iff_nth_eq)
  finally show ?thesis using macs by simp
qed

text \<open>Two switches and two hosts in a row; the module ids are 10 to 13.\<close>

definition example_topology :: "node list" where
  "example_topology =
     [\<lparr>n_moduleId = 10, n_fullName = ''host[0]'', n_moduleType = ''Host'', n_mac = 0xA0, n_in = [\<lparr>l_cplane = False, l_remote = 1\<rparr>], n_out = [\<lparr>l_cplane = False, l_remote = 1\<rparr>]\<rparr>,
      \<lparr>n_moduleId = 11, n_fullName = ''switch[0]'', n_moduleType = ''EdgeSwitch'', n_mac = 0xB0,
         n_in = [\<lparr>l_cplane = False, l_remote = 0\<rparr>, \<lparr>l_cplane = False, l_remote = 2\<rparr>], n_out = [\<lparr>l_cplane = False, l_remote = 0\<rparr>, \<lparr>l_cplane = False, l_remote = 2\<rparr>]\<rparr>,
      \<lparr>n_moduleId = 12, n_fullName = ''switch[1]'', n_moduleType = ''EdgeSwitch'', n_mac = 0xB1,
         n_in = [\<lparr>l_cplane = False, l_remote = 1\<rparr>, \<lparr>l_cplane = False, l_remote = 3\<rparr>], n_out = [\<lparr>l_cplane = False, l_remote = 1\<rparr>, \<lparr>l_cplane = False, l_remote = 3\<rparr>]\<rparr>,
      \<lparr>n_moduleId = 13, n_fullName = ''host[1]'', n_moduleType = ''Host'', n_mac = 0xA1, n_in = [\<lparr>l_cplane = False, l_remote = 2\<rparr>], n_out = [\<lparr>l_cplane = False, l_remote = 2\<rparr>]\<rparr>]"

definition new_controller :: of_controller where
  "new_controller = \<lparr>oc_booted = True, oc_busy = False, oc_serviceTime = 0, oc_msgList = [], oc_events = [], oc_numPacketIn = 0,
     oc_switchesList = [], oc_topology = [], oc_switchIndexes = [], oc_hostIndexes = [], oc_hostsList = [], oc_EdgeSwitches = [],
     oc_SwitchInfoTable = [], oc_HostProfileTable = []\<rparr>"

definition connected_switch :: "int \<Rightarrow> mac \<Rightarrow> switch_info" where
  "connected_switch c m = \<lparr>si_connID = c, si_socket = Some c, si_version = 1, si_macAddress = Some m, si_numOfPorts = 2,
     si_topoindex = None, si_IsEdge = False, si_connectedHostIndexes = []\<rparr>"

text \<open>When the second switch connects first, flow modifications for one switch go to the other.\<close>

theorem switch_table_correct_iff_witness:
  "\<exists>s1 s2. extractTopology example_topology (new_controller\<lparr>oc_switchesList := [connected_switch 0 0xB1, connected_switch 1 0xB0]\<rparr>) = Inr s1
     \<and> extractSwitchInfoTable s1 = Inr s2
     \<and> \<not> (map_option si_macAddress (smap_get 11 (oc_SwitchInfoTable s2)) = Some (Some 0xB0)
          \<and> map_option si_macAddress (smap_get 12 (oc_SwitchInfoTable s2)) = Some (Some 0xB1))"
proof -
  let ?s = "new_controller\<lparr>oc_switchesList := [connected_switch 0 0xB1, connected_switch 1 0xB0]\<rparr>"
  have ok: "is_switch (example_topology ! 1)" "is_switch (example_topology ! 2)" "\<not> is_switch (example_topology ! 0)" "\<not> is_switch (example_topology ! 3)"
    by (simp_all add: is_switch_def example_topology_def)
  obtain s1 s2 where run: "extractTopology example_topology ?s = Inr s1" "extractSwitchInfoTable s1 = Inr s2"
    by (simp add: extractTopology_def example_topology_def is_switch_def extract_switch_def extract_host_def
        new_controller_def connected_switch_def extractSwitchInfoTable_def getTopoIndex_def find_idx_def)
  have "filter is_switch example_topology = [example_topology ! 1, example_topology ! 2]"
    using ok by (simp add: example_topology_def)
  moreover have "distinct (map n_moduleId example_topology)"
    by (simp add: example_topology_def)
  ultimately have "\<not> (\<forall>n \<in> set example_topology. is_switch n \<longrightarrow>
            (\<exists>e. smap_get (n_moduleId n) (oc_SwitchInfoTable s2) = Some e \<and> si_macAddress e = Some (n_mac n)))"
    by (subst switch_table_correct_iff [OF run])
      (simp_all add: new_controller_def connected_switch_def example_topology_def)
  then have "\<not> (map_option si_macAddress (smap_get 11 (oc_SwitchInfoTable s2)) = Some (Some 0xB0)
          \<and> map_option si_macAddress (smap_get 12 (oc_SwitchInfoTable s2)) = Some (Some 0xB1))"
    using ok by (auto simp: example_topology_def)
  with run show ?thesis by blast
qed

end
