(* ===== verification/StreamStore.thy ===== *)
theory StreamStore
  imports ControllerCore
begin

text \<open>
  The streams the controller knows (OpenFlow/controller/Stream, StreamStore). \<open>RegisteredStreams\<close> is a
  global map; here it is a field of the controller, as every store reads the same one. A pointer to a
  \<open>Switch\_Info\<close> is an index into the list of connected switches, \<open>None\<close> if it has not been set.
  Rates are rationals in place of \<open>float\<close>.
\<close>

record stream =
  st_sid :: "64 word"
  st_vlanid :: "16 word"
  st_talkerInPort :: int
  st_sendingPeriod :: rat
  st_rate :: rat
  st_talkerSwInfo :: "nat option"
  st_talker :: mac
  st_listener :: mac
  st_assignedPath :: "int list"
  st_pathIndex :: int

text \<open>The default constructor.\<close>

definition new_stream :: stream where
  "new_stream = \<lparr>st_sid = -1, st_vlanid = -1, st_talkerInPort = -1, st_sendingPeriod = -1, st_rate = 0,
     st_talkerSwInfo = None, st_talker = 0, st_listener = 0, st_assignedPath = [], st_pathIndex = -1\<rparr>"

record stream_store = of_controller +
  RegisteredStreams :: "(64 word, stream) smap"

text \<open>For an unknown stream the function ends without a return statement.\<close>

definition getStreambyId :: "64 word \<Rightarrow> 'a stream_store_scheme \<Rightarrow> stream res" where
  "getStreambyId sid s =
     (case smap_get sid (RegisteredStreams s) of
        Some st \<Rightarrow> Inr st
      | None \<Rightarrow> Inl (Uninitialised ''return value of getStreambyId''))"

fun find_stream :: "mac \<Rightarrow> mac \<Rightarrow> 16 word \<Rightarrow> (64 word \<times> stream) list \<Rightarrow> 64 word" where
  "find_stream src dst vlanid [] = -1"
| "find_stream src dst vlanid ((k, s) # m) =
     (if st_talker s = src \<and> st_listener s = dst \<and> st_vlanid s = vlanid then st_sid s
      else find_stream src dst vlanid m)"

definition getStreamIdTalkerandListener :: "mac \<Rightarrow> mac \<Rightarrow> 16 word \<Rightarrow> 'a stream_store_scheme \<Rightarrow> 64 word" where
  "getStreamIdTalkerandListener src dst vlanid s = find_stream src dst vlanid (RegisteredStreams s)"

definition addStreamToStore :: "64 word \<Rightarrow> stream \<Rightarrow> 'a stream_store_scheme \<Rightarrow> 'a stream_store_scheme" where
  "addStreamToStore sid st s = s\<lparr>RegisteredStreams := smap_put sid st (RegisteredStreams s)\<rparr>"

definition updateStreamPathinStore :: "64 word \<Rightarrow> int list \<Rightarrow> int \<Rightarrow> rat \<Rightarrow> 'a stream_store_scheme \<Rightarrow> 'a stream_store_scheme" where
  "updateStreamPathinStore sid path index rate s =
     (case smap_get sid (RegisteredStreams s) of
        None \<Rightarrow> s
      | Some st \<Rightarrow> s\<lparr>RegisteredStreams := smap_put sid
          (st\<lparr>st_assignedPath := path, st_pathIndex := index, st_rate := rate\<rparr>) (RegisteredStreams s)\<rparr>)"

subsection \<open>Streams are found by what identifies them\<close>

definition store_inv :: "'a stream_store_scheme \<Rightarrow> bool" where
  "store_inv s \<longleftrightarrow> smap_wf (RegisteredStreams s) \<and> smap_all (\<lambda>k st. st_sid st = k) (RegisteredStreams s)"

lemma addStreamToStore_inv: "store_inv s \<Longrightarrow> store_inv (addStreamToStore (st_sid st) st s)"
  by (simp add: store_inv_def addStreamToStore_def smap_put_wf smap_all_put)

lemma getStreambyId_sid: "store_inv s \<Longrightarrow> getStreambyId sid s = Inr st \<Longrightarrow> st_sid st = sid"
  by (auto simp: store_inv_def getStreambyId_def dest: smap_all_get split: option.splits)

lemma find_stream_spec:
  "\<forall>(k, s) \<in> set m. st_sid s = k \<Longrightarrow> find_stream src dst v m = sid \<Longrightarrow> sid \<noteq> -1 \<Longrightarrow>
     \<exists>s. (sid, s) \<in> set m \<and> st_talker s = src \<and> st_listener s = dst \<and> st_vlanid s = v"
  by (induction m) (auto split: if_splits)

lemma find_stream_complete:
  "(k, s) \<in> set m \<Longrightarrow> st_talker s = src \<Longrightarrow> st_listener s = dst \<Longrightarrow> st_vlanid s = v \<Longrightarrow>
     \<forall>(k, s) \<in> set m. st_sid s = k \<and> k \<noteq> -1 \<Longrightarrow> find_stream src dst v m \<noteq> -1"
  by (induction m) (auto split: if_splits)

text \<open>
  The search by talker, listener and VLAN and the look-up by id agree: the id found is that of a
  registered stream with these addresses and this VLAN, and -1 is returned only if there is none (as
  long as no stream has the id -1). An update of the path of a stream changes neither.
\<close>

theorem stream_search_correct:
  assumes "store_inv s" and "smap_get (-1) (RegisteredStreams s) = None"
  shows "(let sid = getStreamIdTalkerandListener src dst v s in
      if sid = -1 then \<not> (\<exists>k st. getStreambyId k s = Inr st \<and> st_talker st = src \<and> st_listener st = dst \<and> st_vlanid st = v)
      else (\<exists>st. getStreambyId sid s = Inr st \<and> st_sid st = sid \<and> st_talker st = src \<and> st_listener st = dst \<and> st_vlanid st = v))
    \<and> getStreamIdTalkerandListener src dst v (updateStreamPathinStore k p i r s) = getStreamIdTalkerandListener src dst v s"
proof -
  let ?m = "RegisteredStreams s"
  have wf: "smap_wf ?m" and ids: "\<forall>(k, st) \<in> set ?m. st_sid st = k"
    using assms(1) by (auto simp: store_inv_def smap_all_def)
  have by_id: "getStreambyId k s = Inr st \<longleftrightarrow> (k, st) \<in> set ?m" for k st
    using wf by (auto simp: getStreambyId_def smap_entries_get split: option.splits)
  have no: "\<forall>(k, st) \<in> set ?m. st_sid st = k \<and> k \<noteq> -1"
    using ids assms(2) wf by (auto simp: smap_entries_get)
  have upd: "find_stream src dst v (smap_put k (st\<lparr>st_assignedPath := p, st_pathIndex := i, st_rate := r\<rparr>) m) = find_stream src dst v m"
    if "smap_get k m = Some st" "smap_wf m" for st m
    using that
  proof (induction m)
    case (Cons a m)
    obtain j w where a: "a = (j, w)" by (cases a)
    with Cons.prems have "smap_get k m = Some st \<Longrightarrow> j < k"
      by (auto simp: smap_wf_Cons smap_get_def dest!: map_of_SomeD)
    with a Cons show ?case
      by (auto simp: smap_wf_Cons split: if_splits)
  qed simp
  have "getStreamIdTalkerandListener src dst v (updateStreamPathinStore k p i r s) = getStreamIdTalkerandListener src dst v s"
    using upd wf by (auto simp: getStreamIdTalkerandListener_def updateStreamPathinStore_def split: option.split)
  moreover have "\<not> (\<exists>k st. (k, st) \<in> set ?m \<and> st_talker st = src \<and> st_listener st = dst \<and> st_vlanid st = v)"
    if "find_stream src dst v ?m = -1"
    using find_stream_complete [OF _ _ _ _ no] that by blast
  moreover have "\<exists>st. (sid, st) \<in> set ?m \<and> st_sid st = sid \<and> st_talker st = src \<and> st_listener st = dst \<and> st_vlanid st = v"
    if "find_stream src dst v ?m = sid" "sid \<noteq> -1" for sid
    using find_stream_spec [OF ids that] ids by blast
  ultimately show ?thesis
    by (simp add: Let_def by_id getStreamIdTalkerandListener_def)
qed

definition example_stream :: stream where
  "example_stream = new_stream\<lparr>st_sid := 7, st_vlanid := 3, st_talker := 0xA0, st_listener := 0xA1, st_talkerSwInfo := Some 0\<rparr>"

definition example_store :: stream_store where
  "example_store = of_controller.extend new_controller (stream_store.fields [(7, example_stream)])"

theorem stream_search_correct_witness:
  "getStreamIdTalkerandListener 0xA0 0xA1 3 (updateStreamPathinStore 7 [1, 2] 0 8 example_store) = 7"
proof -
  have "getStreamIdTalkerandListener 0xA0 0xA1 3 (updateStreamPathinStore 7 [1, 2] 0 8 example_store)
      = getStreamIdTalkerandListener 0xA0 0xA1 3 example_store"
    by (rule conjunct2 [OF stream_search_correct])
      (simp_all add: store_inv_def example_store_def of_controller.defs stream_store.defs smap_wf_def example_stream_def)
  then show ?thesis
    by (simp add: getStreamIdTalkerandListener_def example_store_def of_controller.defs stream_store.defs example_stream_def)
qed

end
