(* ===== verification/ConfigurationEngine.thy ===== *)
theory ConfigurationEngine
  imports StreamStore
begin

text \<open>
  The configuration engine (SDN4CoRE/controllerApps/commonApps/ConfigurationEngine): it turns the paths
  the optimiser assigned into flow modifications that carry a fresh rule version, collects the
  acknowledgements of the switches on the path, and then tells the ingress switch to tag the frames of
  the stream with the new version. The engine points to the tables of the controller, so its state
  extends the controller's. The two timeouts of its flow modifications are members that no code sets.
\<close>

subsection \<open>Demands and assignments\<close>

record demand =
  d_index :: int
  d_talker :: int
  d_listener :: int
  d_service_type :: int
  d_max_data :: "rat option"   \<comment> \<open>None: not a finite number\<close>
  d_max_latency :: rat

definition demand_eq :: "demand \<Rightarrow> demand \<Rightarrow> bool" where
  "demand_eq a b \<longleftrightarrow> d_talker a = d_talker b \<and> d_listener a = d_listener b \<and> d_service_type a = d_service_type b
     \<and> d_max_data a \<noteq> None \<and> d_max_data a = d_max_data b"

record assignment =
  a_demand_index :: int
  a_data :: rat
  a_path :: "int list"
  a_path_index :: int

definition assignment_eq :: "assignment \<Rightarrow> assignment \<Rightarrow> bool" where
  "assignment_eq a b \<longleftrightarrow> a_demand_index a = a_demand_index b \<and> a_data a = a_data b \<and> a_path a = a_path b"

subsection \<open>State\<close>

record versionInfo =
  vi_next :: "16 word"
  vi_current :: "16 word"

record config_engine = stream_store +
  ce_topo :: bool   \<comment> \<open>the topology signal has set the pointers to the controller's tables\<close>
  ce_isTaggingEnabled :: bool
  ce_match_version :: "16 word"
  ce_StreamFlowVersionTable :: "(64 word, versionInfo) smap"
  ce_AckWaitingPaths :: "(16 word, int list) smap"
  ce_IngressSwTable :: "(16 word, int) smap"
  ce_prevAssignments :: "assignment list"
  ce_numOfPathReconfigurations :: int
  ce_DemandtoStreamIdMap :: "(int, 64 word) smap"
  ce_idleTimeout :: int
  ce_hardTimeout :: int
  ce_priority :: int
  ce_numFlowMod :: int

text \<open>A message the engine sends on the socket of a switch.\<close>

type_synonym sending = "int \<times> of_msg"

definition smap_dflt :: "'v \<Rightarrow> 'k :: linorder \<Rightarrow> ('k, 'v) smap \<Rightarrow> 'v" where
  "smap_dflt d k m = (case smap_get k m of Some v \<Rightarrow> v | None \<Rightarrow> d)"

subsection \<open>Versions of a stream\<close>

definition getMatchVersionbyStreamId :: "64 word \<Rightarrow> 'a config_engine_scheme \<Rightarrow> 16 word" where
  "getMatchVersionbyStreamId sid s =
     (if \<not> ce_isTaggingEnabled s then 0
      else (case smap_get sid (ce_StreamFlowVersionTable s) of Some info \<Rightarrow> vi_current info | None \<Rightarrow> 0))"

text \<open>\<open>addMatchVersiontoStream\<close>: a stream that already waits for a version keeps that one.\<close>

definition addMatchVersiontoStream :: "64 word \<Rightarrow> 'a config_engine_scheme \<Rightarrow> 'a config_engine_scheme" where
  "addMatchVersiontoStream sid s =
     (if \<not> ce_isTaggingEnabled s then s
      else
        (let v = ce_match_version s;
             fresh = (\<lambda>c. s\<lparr>ce_match_version := v + 1, ce_StreamFlowVersionTable :=
                        smap_put sid \<lparr>vi_next = v, vi_current = c\<rparr> (ce_StreamFlowVersionTable s)\<rparr>)
         in case smap_get sid (ce_StreamFlowVersionTable s) of
              None \<Rightarrow> fresh 0
            | Some info \<Rightarrow> if vi_next info = 0 then fresh (vi_current info) else s))"

definition activateMatchVersionofStream :: "64 word \<Rightarrow> 16 word \<Rightarrow> 'a config_engine_scheme \<Rightarrow> 'a config_engine_scheme" where
  "activateMatchVersionofStream sid v s =
     (case smap_get sid (ce_StreamFlowVersionTable s) of
        Some info \<Rightarrow>
          if vi_next info = v
          then s\<lparr>ce_StreamFlowVersionTable := smap_put sid \<lparr>vi_next = 0, vi_current = v\<rparr> (ce_StreamFlowVersionTable s)\<rparr>
          else s
      | None \<Rightarrow> s)"

text \<open>\<open>findRelatedSwitchSocket\<close>: \<open>at\<close> throws for a module id that is not in the table.\<close>

definition findRelatedSwitchSocket :: "int \<Rightarrow> 'a config_engine_scheme \<Rightarrow> int res" where
  "findRelatedSwitchSocket moduleid s =
     (case smap_get moduleid (oc_SwitchInfoTable s) of
        None \<Rightarrow> Inl (RuntimeError ''map::at'')
      | Some info \<Rightarrow> (case si_socket info of None \<Rightarrow> Inl (Uninitialised ''socket'') | Some c \<Rightarrow> Inr c))"

definition activation_frame :: "16 word \<Rightarrow> 64 word \<Rightarrow> frame" where
  "activation_frame v sid =
     \<lparr>fr_src = 0, fr_dst = 0, fr_etherType = ETHERTYPE_Q, fr_arrivalGate = 0,
      fr_qtag = Some \<lparr>q_vid = 0, q_pcp = 0, q_matchVersion = v, q_streamID = sid, q_displayString = ''ActivationMessage''\<rparr>,
      fr_payload = NoPayload\<rparr>"

text \<open>
  \<open>activateMatchVersion\<close>: the first stream, by id, that waits for the version. If there is none, the
  stream id of the message is an uninitialised variable.
\<close>

definition activateMatchVersion :: "16 word \<Rightarrow> 'a config_engine_scheme \<Rightarrow> ('a config_engine_scheme \<times> sending list) res" where
  "activateMatchVersion v s =
     (case find (\<lambda>(sid, info). vi_next info = v) (ce_StreamFlowVersionTable s) of
        None \<Rightarrow> Inl (Uninitialised ''streamID'')
      | Some (sid, info) \<Rightarrow>
          (let sw = smap_dflt 0 v (ce_IngressSwTable s);
               s1 = s\<lparr>ce_StreamFlowVersionTable := smap_put sid \<lparr>vi_next = 0, vi_current = v\<rparr> (ce_StreamFlowVersionTable s),
                      ce_IngressSwTable := smap_put v sw (ce_IngressSwTable s)\<rparr>
           in rbind (findRelatedSwitchSocket sw s1) (\<lambda>c.
                Inr (s1, [(c, OfPacketOut OFP_NO_BUFFER 0 [] (Some (EncFrame (activation_frame v sid))))]))))"

subsection \<open>Acknowledgements\<close>

definition handleAck :: "nat option \<Rightarrow> 16 word \<Rightarrow> 'a config_engine_scheme \<Rightarrow> ('a config_engine_scheme \<times> sending list) res" where
  "handleAck sw v s =
     (case sw of
        None \<Rightarrow> Inl (NullDeref ''swInfo'')
      | Some i \<Rightarrow>
          (case si_topoindex (oc_switchesList s ! i) of
             None \<Rightarrow> Inl (Uninitialised ''topoindex'')
           | Some t \<Rightarrow>
               (let path = filter (\<lambda>x. x \<noteq> int t) (smap_dflt [] v (ce_AckWaitingPaths s)) in
                if path = [] then
                  rbind (activateMatchVersion v s) (\<lambda>(s1, out).
                    Inr (s1\<lparr>ce_AckWaitingPaths := smap_erase v (ce_AckWaitingPaths s1)\<rparr>, out))
                else Inr (s\<lparr>ce_AckWaitingPaths := smap_put v path (ce_AckWaitingPaths s)\<rparr>, []))))"

definition ack_version :: "of_msg \<Rightarrow> 16 word option" where
  "ack_version m =
     (case m of
        OfPacketIn b mt (Some (EncFrame f)) \<Rightarrow>
          (case fr_qtag f of
             Some q \<Rightarrow> if q_displayString q = ''ACKforFlowMod'' then Some (q_matchVersion q) else None
           | None \<Rightarrow> None)
      | _ \<Rightarrow> None)"

definition receiveTopology :: "'a config_engine_scheme \<Rightarrow> 'a config_engine_scheme" where
  "receiveTopology s = s\<lparr>ce_topo := True\<rparr>"

definition receivePacketIn :: "int \<Rightarrow> of_msg \<Rightarrow> 'a config_engine_scheme \<Rightarrow> ('a config_engine_scheme \<times> sending list) res" where
  "receivePacketIn c m s =
     (case ack_version m of
        Some v \<Rightarrow> handleAck (findSwitchInfoFor c s) v s
      | None \<Rightarrow> Inr (s, []))"

subsection \<open>Paths\<close>

text \<open>The first link of a node that does not start at a control plane gate and leads to a module.\<close>

definition link_to :: "int \<Rightarrow> node list \<Rightarrow> link list \<Rightarrow> nat" where
  "link_to moduleid topo ls =
     (case find_idx (\<lambda>l. \<not> l_cplane l \<and> n_moduleId (topo ! l_remote l) = moduleid) ls of
        Some i \<Rightarrow> i | None \<Rightarrow> 0)"

definition getOutPort :: "node list \<Rightarrow> node \<Rightarrow> node \<Rightarrow> nat" where
  "getOutPort topo current nxt = link_to (n_moduleId nxt) topo (n_out current)"

definition getInPort :: "node list \<Rightarrow> node \<Rightarrow> node \<Rightarrow> nat" where
  "getInPort topo current prev = link_to (n_moduleId prev) topo (n_in current)"

text \<open>\<open>sendFlowModMessage\<close>\<close>

definition sendFlowModMessage :: "oxm_basic_match \<Rightarrow> 32 word \<Rightarrow> int \<Rightarrow> 'a config_engine_scheme
    \<Rightarrow> 'a config_engine_scheme \<times> sending" where
  "sendFlowModMessage m outport c s =
     (s\<lparr>ce_numFlowMod := ce_numFlowMod s + 1\<rparr>,
      (c, OfFlowMod (createFlowMod OFPFC_ADD m outport (ce_priority s) (ce_idleTimeout s) (ce_hardTimeout s))))"

text \<open>
  The loop over the switches of a path: \<open>prev\<close> is the node before the current one, \<open>dst\<close> the host at
  the end. A path of a single switch takes the first branch and dereferences the end of the list.
\<close>

fun install_loop :: "node list \<Rightarrow> node \<Rightarrow> node list \<Rightarrow> bool \<Rightarrow> node \<Rightarrow> (nat \<Rightarrow> oxm_basic_match res)
    \<Rightarrow> 'a config_engine_scheme \<Rightarrow> ('a config_engine_scheme \<times> sending list) res" where
  "install_loop topo prev [] first dst mk s = Inr (s, [])"
| "install_loop topo prev (current # rest) first dst mk s =
     rbind (findRelatedSwitchSocket (n_moduleId current) s) (\<lambda>c.
     rbind (case rest of
              nxt # _ \<Rightarrow> Inr nxt
            | [] \<Rightarrow> if first then Inl (NullDeref ''std::next(itr,1)'') else Inr dst) (\<lambda>nxt.
     rbind (mk (getInPort topo current prev)) (\<lambda>m.
       (case sendFlowModMessage m (of_nat (getOutPort topo current nxt)) c s of (s1, e) \<Rightarrow>
          rbind (install_loop topo current rest False dst mk s1) (\<lambda>(s2, es). Inr (s2, e # es))))))"

text \<open>
  The topology index of a host by its address. Both searches run over the same table; a host that is
  not in it leaves its variable unset. If talker and listener have the same address only the listener is set.
\<close>

fun host_index :: "mac \<Rightarrow> (int \<times> host_profile) list \<Rightarrow> nat option \<Rightarrow> nat option" where
  "host_index m [] r = r"
| "host_index m ((k, h) # hs) r = host_index m hs (if hp_macAddress h = m then Some (hp_topoindex h) else r)"

fun path_nodes :: "node list \<Rightarrow> int list \<Rightarrow> node list res" where
  "path_nodes topo [] = Inr []"
| "path_nodes topo (i # is) = rbind (vec_at topo i) (\<lambda>n. rbind (path_nodes topo is) (\<lambda>ns. Inr (n # ns)))"

definition insertAssignedPath :: "int list \<Rightarrow> 16 word \<Rightarrow> mac \<Rightarrow> mac \<Rightarrow> 16 word \<Rightarrow> 'a config_engine_scheme
    \<Rightarrow> ('a config_engine_scheme \<times> sending list) res" where
  "insertAssignedPath path vlan dstHost srcHost v s =
     (if \<not> ce_topo s then Inl (Uninitialised ''topo'') else
      rbind (path_nodes (oc_topology s) path) (\<lambda>sws.
      case sws of
        [] \<Rightarrow> Inl OutOfRange
      | srcSw # _ \<Rightarrow>
          (let s1 = s\<lparr>ce_IngressSwTable := smap_put v (n_moduleId srcSw) (ce_IngressSwTable s)\<rparr>;
               dst_ix = host_index dstHost (oc_HostProfileTable s) None;
               src_ix = (if srcHost = dstHost then None else host_index srcHost (oc_HostProfileTable s) None)
           in case (dst_ix, src_ix) of
                (Some d, Some h) \<Rightarrow>
                  rbind (vec_at (oc_topology s) (int d)) (\<lambda>dn.
                  rbind (vec_at (oc_topology s) (int h)) (\<lambda>hn.
                    install_loop (oc_topology s) hn sws True dn
                      (\<lambda>inport. createDesiredMatch oxm_zero (of_nat inport) dstHost srcHost vlan v) s1))
              | _ \<Rightarrow> Inl (Uninitialised ''topology index of a host''))))"

subsection \<open>Configuring the data plane\<close>

text \<open>
  One path change: the waiting list of the version that is next in line is overwritten, the stream gets
  the version if it waits for none, and the flow modifications are sent with it. The reconfiguration
  branch and the new demand branch of \<open>configureDataPlane\<close> both do this.
\<close>

definition deployPath :: "64 word \<Rightarrow> stream \<Rightarrow> int list \<Rightarrow> 'a config_engine_scheme
    \<Rightarrow> ('a config_engine_scheme \<times> sending list) res" where
  "deployPath sid st path s =
     (let v = (if ce_isTaggingEnabled s then ce_match_version s else 0);
          s1 = s\<lparr>ce_AckWaitingPaths := smap_put v path (ce_AckWaitingPaths s)\<rparr>
      in insertAssignedPath path (st_vlanid st) (st_listener st) (st_talker st) v (addMatchVersiontoStream sid s1))"

text \<open>The reconfiguration of an assignment that existed before, with its new path.\<close>

definition reconfigure :: "assignment \<Rightarrow> assignment \<Rightarrow> 'a config_engine_scheme \<Rightarrow> ('a config_engine_scheme \<times> sending list) res" where
  "reconfigure old a s =
     (let s1 = s\<lparr>ce_numOfPathReconfigurations := ce_numOfPathReconfigurations s + 1\<rparr>;
          sid = smap_dflt 0 (a_demand_index old) (ce_DemandtoStreamIdMap s1);
          s2 = s1\<lparr>ce_DemandtoStreamIdMap := smap_put (a_demand_index old) sid (ce_DemandtoStreamIdMap s1)\<rparr>
      in rbind (getStreambyId sid s2) (\<lambda>st. deployPath (st_sid st) st (a_path a) s2))"

text \<open>
  The inner loop over \<open>prevAssignments\<close>: the entries of the demand get the new path. The called
  functions do not read the vector; it is written back when the loop has ended.
\<close>

fun prev_loop :: "assignment \<Rightarrow> assignment list \<Rightarrow> 'a config_engine_scheme
    \<Rightarrow> (bool \<times> assignment list \<times> 'a config_engine_scheme \<times> sending list) res" where
  "prev_loop a [] s = Inr (False, [], s, [])"
| "prev_loop a (p # ps) s =
     (if a_demand_index p = a_demand_index a then
        (if a_path p \<noteq> a_path a then
           rbind (reconfigure p a s) (\<lambda>(s1, out1).
             rbind (prev_loop a ps s1) (\<lambda>(seen, qs, s2, out2).
               Inr (True, p\<lparr>a_path := a_path a\<rparr> # qs, s2, out1 @ out2)))
         else rbind (prev_loop a ps s) (\<lambda>(seen, qs, s2, out). Inr (True, p # qs, s2, out)))
      else rbind (prev_loop a ps s) (\<lambda>(seen, qs, s2, out). Inr (seen, p # qs, s2, out)))"

fun configure_loop :: "int \<Rightarrow> 64 word \<Rightarrow> stream \<Rightarrow> assignment list \<Rightarrow> 'a config_engine_scheme
    \<Rightarrow> ('a config_engine_scheme \<times> sending list) res" where
  "configure_loop demandid sid st [] s = Inr (s, [])"
| "configure_loop demandid sid st (a # as) s =
     rbind (prev_loop a (ce_prevAssignments s) s) (\<lambda>(seen, prevs, s0, out1).
     let s1 = s0\<lparr>ce_prevAssignments := prevs\<rparr> in
     rbind (if \<not> seen \<and> demandid \<noteq> -1 then
              rbind (deployPath sid st (a_path a) s1) (\<lambda>(s2, out2).
                Inr (s2\<lparr>ce_prevAssignments := ce_prevAssignments s2 @ [a]\<rparr>, out2))
            else Inr (s1, [])) (\<lambda>(s2, out2).
     rbind (configure_loop demandid sid st as s2) (\<lambda>(s3, out3). Inr (s3, out1 @ out2 @ out3))))"

text \<open>
  \<open>sendListenerReady\<close> and \<open>RequestHandlerControllerApp::sendListenerReadyToTalker\<close>: the message goes to
  the switch that sent the talker advertise.
\<close>

definition sendListenerReadyToTalker :: "64 word \<Rightarrow> 16 word \<Rightarrow> 'a stream_store_scheme \<Rightarrow> sending list res" where
  "sendListenerReadyToTalker sid vlan s =
     rbind (getStreambyId sid s) (\<lambda>st.
       case st_talkerSwInfo st of
         None \<Rightarrow> Inl (Uninitialised ''talkerSwInfo'')
       | Some i \<Rightarrow> (case si_socket (oc_switchesList s ! i) of
           None \<Rightarrow> Inl (Uninitialised ''socket'')
         | Some c \<Rightarrow> Inr [(c, OfVendor 0 (Some (EncSrp (ListenerReady sid vlan))))]))"

text \<open>The demand id -1 stands for a redistribution.\<close>

definition configureDataPlane :: "int \<Rightarrow> 64 word \<Rightarrow> assignment list \<Rightarrow> 'a config_engine_scheme
    \<Rightarrow> ('a config_engine_scheme \<times> sending list) res" where
  "configureDataPlane demandid sid newAssignments s =
     rbind (if demandid \<noteq> -1 then
              (let s1 = s\<lparr>ce_DemandtoStreamIdMap := smap_put demandid sid (ce_DemandtoStreamIdMap s)\<rparr> in
               rbind (getStreambyId sid s1) (\<lambda>st. Inr (s1, st)))
            else Inr (s, new_stream)) (\<lambda>(s1, st).
     rbind (configure_loop demandid sid st newAssignments s1) (\<lambda>(s2, out1).
     rbind (if demandid \<noteq> -1 then sendListenerReadyToTalker sid (st_vlanid st) s2 else Inr []) (\<lambda>out2.
       Inr (s2, out1 @ out2))))"

end
