(* ===== verification/PathRequests.thy ===== *)
theory PathRequests
  imports ConfigurationEngine
begin

text \<open>
  A stream request on its way through the controller (SDN4CoRE/controllerApps): the request handler
  registers the stream of a talker advertise, \<open>OPCE2\<close> asks the optimiser for paths for all demands so
  far, and the configuration engine installs what has changed. The optimiser is a Python program
  (main.py beside OPCE2.cc) that runs in an embedded interpreter; it is the argument \<open>optimize\<close>, \<open>None\<close>
  if the call fails.
\<close>

type_synonym optimizer = "demand list \<Rightarrow> (int \<times> int) list \<Rightarrow> assignment list option"

record opce = config_engine +
  op_demandIndex :: int
  op_receivedTTDemandCounter :: int
  op_allDemands :: "demand list"
  op_allAssignments :: "assignment list"

definition get_optimal_assignment :: "optimizer \<Rightarrow> demand list \<Rightarrow> assignment list \<Rightarrow> assignment list" where
  "get_optimal_assignment optimize ds as =
     (case optimize ds (map (\<lambda>a. (a_demand_index a, a_path_index a)) as) of None \<Rightarrow> [] | Some r \<Rightarrow> r)"

text \<open>The data rate in Mbit/s; there is no value for an interval of zero frames.\<close>

definition demand_rate :: "talker_advertise \<Rightarrow> rat option" where
  "demand_rate ta =
     (if ta_maxIntervalFrames ta = 0 then None
      else Some (8 * of_int (uint (ta_maxFrameSize ta)) / (of_int (uint (ta_maxIntervalFrames ta)) * 1000)))"

text \<open>The first host, in the order of the table, with the address of the listener.\<close>

definition find_host :: "mac \<Rightarrow> (int \<times> host_profile) list \<Rightarrow> host_profile option" where
  "find_host m hs = map_option snd (find (\<lambda>(k, h). hp_macAddress h = m) hs)"

definition requestPathforTalker :: "optimizer \<Rightarrow> talker_advertise \<Rightarrow> 'a opce_scheme \<Rightarrow> ('a opce_scheme \<times> sending list) res" where
  "requestPathforTalker optimize ta s0 =
     (let id = op_demandIndex s0;
          s = s0\<lparr>op_demandIndex := id + 1, op_receivedTTDemandCounter := op_receivedTTDemandCounter s0 + 1\<rparr>
      in rbind (getStreambyId (ta_streamID ta) s) (\<lambda>st.
         case st_talkerSwInfo st of
           None \<Rightarrow> Inl (Uninitialised ''talkerSwInfo'')
         | Some i \<Rightarrow>
             (let sw = oc_switchesList s ! i in
              if si_macAddress sw = None then Inl (RuntimeError ''MACAddress: wrong address syntax'')
              else if \<not> ce_topo s then Inl (Uninitialised ''HostProfileTable'')
              else
                (case (si_topoindex sw, Option.bind (find_host (ta_destination ta) (oc_HostProfileTable s)) hp_connectedSw_topo_index) of
                   (Some src, Some dst) \<Rightarrow>
                     if int src \<noteq> dst then
                       (let d = \<lparr>d_index = id, d_talker = int src, d_listener = dst, d_service_type = uint (ta_vlan ta),
                                 d_max_data = demand_rate ta, d_max_latency = 7\<rparr>;
                            r = get_optimal_assignment optimize (op_allDemands s @ [d]) (op_allAssignments s)
                        in if r \<noteq> []
                           then configureDataPlane id (ta_streamID ta) r
                                  (s\<lparr>op_allDemands := op_allDemands s @ [d], op_allAssignments := r\<rparr>)
                           else Inr (s\<lparr>op_demandIndex := op_demandIndex s - 1\<rparr>, []))
                     else Inr (s, [])
                 | _ \<Rightarrow> Inl (Uninitialised ''topology index'')))))"

text \<open>
  \<open>saveTalker\<close>. A packet-in that reports a talker advertise carries the port it came in on in its match.
\<close>

definition saveTalker :: "int \<Rightarrow> oxm_basic_match \<Rightarrow> talker_advertise \<Rightarrow> 'a stream_store_scheme \<Rightarrow> 'a stream_store_scheme" where
  "saveTalker c m ta s =
     addStreamToStore (ta_streamID ta)
       (new_stream\<lparr>st_talker := ta_source ta, st_talkerInPort := uint (OFB_IN_PORT m), st_talkerSwInfo := findSwitchInfoFor c s,
          st_vlanid := ta_vlan ta, st_sid := ta_streamID ta, st_listener := ta_destination ta\<rparr>) s"

definition handleRequest :: "optimizer \<Rightarrow> int \<Rightarrow> of_msg \<Rightarrow> 'a opce_scheme \<Rightarrow> ('a opce_scheme \<times> sending list) res" where
  "handleRequest optimize c msg s =
     (case msg of
        OfPacketIn b m (Some (EncSrp srp)) \<Rightarrow>
          (case as_talker srp of
             Some ta \<Rightarrow> requestPathforTalker optimize ta (saveTalker c m ta s)
           | None \<Rightarrow> Inr (s, []))
      | _ \<Rightarrow> Inr (s, []))"

text \<open>
  The packet-in signal reaches the applications in the order they were created: request handler,
  configuration engine, \<open>OPCE2\<close>, of which the last ignores it.
\<close>

definition packetInSignal :: "optimizer \<Rightarrow> int \<Rightarrow> of_msg \<Rightarrow> 'a opce_scheme \<Rightarrow> ('a opce_scheme \<times> sending list) res" where
  "packetInSignal optimize c msg s =
     rbind (handleRequest optimize c msg s) (\<lambda>(s1, out1).
     rbind (receivePacketIn c msg s1) (\<lambda>(s2, out2). Inr (s2, out1 @ out2)))"

text \<open>A message from a switch, served by the controller with its applications.\<close>

fun signalEffects :: "optimizer \<Rightarrow> controller_effect list \<Rightarrow> 'a opce_scheme \<Rightarrow> ('a opce_scheme \<times> sending list) res" where
  "signalEffects optimize [] s = Inr (s, [])"
| "signalEffects optimize (Send c m # es) s =
     rbind (signalEffects optimize es s) (\<lambda>(s', out). Inr (s', (c, m) # out))"
| "signalEffects optimize (EmitPacketIn c m # es) s =
     rbind (packetInSignal optimize c m s) (\<lambda>(s1, out1).
     rbind (signalEffects optimize es s1) (\<lambda>(s2, out2). Inr (s2, out1 @ out2)))"
| "signalEffects optimize (EmitExperimenter m # es) s = signalEffects optimize es s"

definition serveMessage :: "optimizer \<Rightarrow> int \<Rightarrow> int \<Rightarrow> of_msg \<Rightarrow> 'a opce_scheme \<Rightarrow> ('a opce_scheme \<times> sending list) res" where
  "serveMessage optimize c version m s =
     rbind (processQueuedMsg c version m s) (\<lambda>(s1, es). signalEffects optimize es s1)"

end
