(* ===== verification/EngineVersions.thy ===== *)
theory EngineVersions
  imports PathRequests
begin

text \<open>
  What the operations of the configuration engine do to rule versions: \<open>deploys s s' out ds\<close> says that
  the step from \<open>s\<close> to \<open>s'\<close> gave out the versions in \<open>ds\<close>, each to one stream and one path, and that the
  messages in \<open>out\<close> carry one flow modification with that version to every switch of the path. It
  composes, and holds of \<open>configureDataPlane\<close> whenever every path change got a version of its own.
\<close>

subsection \<open>Connections and topology indices\<close>

definition conn_index :: "'a of_controller_scheme \<Rightarrow> int \<Rightarrow> nat option" where
  "conn_index s c = Option.bind (findSwitchInfoFor c s) (\<lambda>k. si_topoindex (oc_switchesList s ! k))"

text \<open>The switch table leads to the right connections.\<close>

definition tables_ok :: "'a of_controller_scheme \<Rightarrow> bool" where
  "tables_ok s \<longleftrightarrow> (\<forall>i < length (oc_topology s). \<forall>e c.
     smap_get (n_moduleId (oc_topology s ! i)) (oc_SwitchInfoTable s) = Some e \<longrightarrow> si_socket e = Some c \<longrightarrow>
     conn_index s c = Some i)"

definition same_tables :: "'a of_controller_scheme \<Rightarrow> 'a of_controller_scheme \<Rightarrow> bool" where
  "same_tables s s' \<longleftrightarrow> oc_switchesList s' = oc_switchesList s \<and> oc_topology s' = oc_topology s
     \<and> oc_SwitchInfoTable s' = oc_SwitchInfoTable s \<and> oc_HostProfileTable s' = oc_HostProfileTable s"

lemma same_tables_refl [simp]: "same_tables s s"
  by (simp add: same_tables_def)

lemma same_tables_trans: "same_tables s s1 \<Longrightarrow> same_tables s1 s2 \<Longrightarrow> same_tables s s2"
  by (simp add: same_tables_def)

lemma same_tables_index: "same_tables s s' \<Longrightarrow> conn_index s' = conn_index s"
  by (rule ext) (simp add: same_tables_def conn_index_def findSwitchInfoFor_def)

lemma same_tables_ok: "same_tables s s' \<Longrightarrow> tables_ok s' = tables_ok s"
  using same_tables_index [of s s'] by (simp add: tables_ok_def same_tables_def)

subsection \<open>Flow modifications among the messages\<close>

fun flow_mods :: "sending list \<Rightarrow> (int \<times> flow_mod) list" where
  "flow_mods [] = []"
| "flow_mods ((c, m) # out) = (case m of OfFlowMod fm \<Rightarrow> [(c, fm)] | _ \<Rightarrow> []) @ flow_mods out"

lemma flow_mods_append [simp]: "flow_mods (out1 @ out2) = flow_mods out1 @ flow_mods out2"
  by (induction out1 rule: flow_mods.induct) simp_all

lemma flow_mods_mem: "(c, fm) \<in> set (flow_mods out) \<longleftrightarrow> (c, OfFlowMod fm) \<in> set out"
  by (induction out rule: flow_mods.induct) (auto split: of_msg.splits)

lemma flow_mods_map [simp]: "flow_mods (map (\<lambda>(c, fm). (c, OfFlowMod fm)) l) = l"
  by (induction l) auto

definition fm_tag :: "flow_mod \<Rightarrow> 16 word" where
  "fm_tag fm = OFB_TAG (fm_match fm)"

definition tag_key :: "int \<times> flow_mod \<Rightarrow> int \<times> 16 word" where
  "tag_key x = (fst x, fm_tag (snd x))"

text \<open>Messages that activate no version.\<close>

definition no_activation :: "sending list \<Rightarrow> bool" where
  "no_activation out \<longleftrightarrow> (\<forall>(c, m) \<in> set out. (\<exists>fm. m = OfFlowMod fm) \<or> (\<exists>p e. m = OfVendor p e))"

subsection \<open>Deployments\<close>

definition next_version :: "'a config_engine_scheme \<Rightarrow> 64 word \<Rightarrow> 16 word" where
  "next_version s sid = (case smap_get sid (ce_StreamFlowVersionTable s) of Some i \<Rightarrow> vi_next i | None \<Rightarrow> 0)"

type_synonym deployment = "16 word \<times> 64 word \<times> int list"

definition engine_wf :: "'a config_engine_scheme \<Rightarrow> bool" where
  "engine_wf s \<longleftrightarrow> smap_wf (ce_StreamFlowVersionTable s) \<and> smap_wf (ce_AckWaitingPaths s)"

definition deploys :: "'a config_engine_scheme \<Rightarrow> 'a config_engine_scheme \<Rightarrow> sending list \<Rightarrow> deployment list \<Rightarrow> bool" where
  "deploys s s' out ds \<longleftrightarrow>
     same_tables s s' \<and> engine_wf s' \<and> no_activation out
     \<and> ce_isTaggingEnabled s' = ce_isTaggingEnabled s
     \<and> unat (ce_match_version s') = unat (ce_match_version s) + length ds
     \<and> (\<forall>k < length ds. unat (fst (ds ! k)) = unat (ce_match_version s) + k)
     \<and> (\<forall>(v, sid, p) \<in> set ds. p \<noteq> [] \<and> smap_get v (ce_AckWaitingPaths s') = Some p
          \<and> next_version s sid = 0 \<and> next_version s' sid = v)
     \<and> (\<forall>v. v \<notin> fst ` set ds \<longrightarrow> smap_get v (ce_AckWaitingPaths s') = smap_get v (ce_AckWaitingPaths s))
     \<and> (\<forall>sid. sid \<notin> (fst \<circ> snd) ` set ds \<longrightarrow> next_version s' sid = next_version s sid)
     \<and> (\<forall>(c, fm) \<in> set (flow_mods out). \<exists>sid p i. (fm_tag fm, sid, p) \<in> set ds \<and> conn_index s c = Some i \<and> int i \<in> set p)
     \<and> (\<forall>(v, sid, p) \<in> set ds. \<forall>x \<in> set p. \<exists>c fm i. (c, fm) \<in> set (flow_mods out) \<and> fm_tag fm = v
          \<and> conn_index s c = Some i \<and> x = int i)
     \<and> distinct (map tag_key (flow_mods out))"

lemma deploys_none:
  assumes "same_tables s s'" and "engine_wf s'" and "no_activation out" and "flow_mods out = []"
    and "ce_isTaggingEnabled s' = ce_isTaggingEnabled s" and "ce_match_version s' = ce_match_version s"
    and "ce_AckWaitingPaths s' = ce_AckWaitingPaths s" and "ce_StreamFlowVersionTable s' = ce_StreamFlowVersionTable s"
  shows "deploys s s' out []"
  using assms by (simp add: deploys_def next_version_def)

lemma deploys_version:
  assumes "deploys s s' out ds" and "(v, sid, p) \<in> set ds"
  shows "ce_match_version s \<le> v" and "v < ce_match_version s'"
proof -
  obtain k where "k < length ds" "ds ! k = (v, sid, p)"
    using assms(2) by (auto simp: in_set_conv_nth)
  with assms(1) have "unat v = unat (ce_match_version s) + k" and "k < length ds"
    by (auto simp: deploys_def)
  with assms(1) show "ce_match_version s \<le> v" and "v < ce_match_version s'"
    by (auto simp: deploys_def word_le_nat_alt word_less_nat_alt)
qed

lemma deploysI:
  assumes "same_tables s s'" and "engine_wf s'" and "no_activation out"
    and "ce_isTaggingEnabled s' = ce_isTaggingEnabled s"
    and "unat (ce_match_version s') = unat (ce_match_version s) + length ds"
    and "\<And>k. k < length ds \<Longrightarrow> unat (fst (ds ! k)) = unat (ce_match_version s) + k"
    and "\<And>v sid p. (v, sid, p) \<in> set ds \<Longrightarrow> p \<noteq> [] \<and> smap_get v (ce_AckWaitingPaths s') = Some p
          \<and> next_version s sid = 0 \<and> next_version s' sid = v"
    and "\<And>v. v \<notin> fst ` set ds \<Longrightarrow> smap_get v (ce_AckWaitingPaths s') = smap_get v (ce_AckWaitingPaths s)"
    and "\<And>sid. sid \<notin> (fst \<circ> snd) ` set ds \<Longrightarrow> next_version s' sid = next_version s sid"
    and "\<And>c fm. (c, fm) \<in> set (flow_mods out) \<Longrightarrow>
          \<exists>sid p i. (fm_tag fm, sid, p) \<in> set ds \<and> conn_index s c = Some i \<and> int i \<in> set p"
    and "\<And>v sid p x. (v, sid, p) \<in> set ds \<Longrightarrow> x \<in> set p \<Longrightarrow>
          \<exists>c fm i. (c, fm) \<in> set (flow_mods out) \<and> fm_tag fm = v \<and> conn_index s c = Some i \<and> x = int i"
    and "distinct (map tag_key (flow_mods out))"
  shows "deploys s s' out ds"
  unfolding deploys_def Ball_def split_paired_All using assms by simp

lemma deploys_other:
  assumes "deploys s s' out ds"
  shows "v \<notin> fst ` set ds \<Longrightarrow> smap_get v (ce_AckWaitingPaths s') = smap_get v (ce_AckWaitingPaths s)"
    and "sid \<notin> (fst \<circ> snd) ` set ds \<Longrightarrow> next_version s' sid = next_version s sid"
  using assms by (simp_all add: deploys_def)

lemma deploys_mods:
  assumes "deploys s s' out ds" and "(c, fm) \<in> set (flow_mods out)"
  shows "\<exists>sid p i. (fm_tag fm, sid, p) \<in> set ds \<and> conn_index s c = Some i \<and> int i \<in> set p"
  using assms unfolding deploys_def by blast

lemma deploys_trans:
  assumes d1: "deploys s s1 out1 ds1" and d2: "deploys s1 s2 out2 ds2" and pos: "ce_match_version s \<noteq> 0"
  shows "deploys s s2 (out1 @ out2) (ds1 @ ds2)"
proof -
  note v1 = deploys_version [OF d1] and v2 = deploys_version [OF d2]
  have index: "conn_index s1 = conn_index s"
    using d1 by (intro same_tables_index) (simp add: deploys_def)
  have apart: "v \<notin> fst ` set ds2" if "(v, sid, p) \<in> set ds1" for v sid p
    using v1 [OF that] v2 by (force simp: word_le_nat_alt word_less_nat_alt)
  have fresh: "sid \<notin> (fst \<circ> snd) ` set ds2" if "(v, sid, p) \<in> set ds1" for v sid p
  proof
    assume "sid \<in> (fst \<circ> snd) ` set ds2"
    then obtain w q where "(w, sid, q) \<in> set ds2" by auto
    with d2 have "next_version s1 sid = 0" by (fastforce simp: deploys_def)
    moreover have "next_version s1 sid = v" using d1 that by (fastforce simp: deploys_def)
    ultimately have "v = 0" by simp
    with v1 [OF that] pos show False by (simp add: word_le_nat_alt unat_eq_0)
  qed
  have fresh2: "sid \<notin> (fst \<circ> snd) ` set ds1" if "(v, sid, p) \<in> set ds2" for v sid p
    using fresh that by force
  have "unat (fst ((ds1 @ ds2) ! k)) = unat (ce_match_version s) + k" if "k < length (ds1 @ ds2)" for k
    using d1 d2 that by (auto simp: deploys_def nth_append)
  moreover have "p \<noteq> [] \<and> smap_get v (ce_AckWaitingPaths s2) = Some p \<and> next_version s sid = 0 \<and> next_version s2 sid = v"
    if "(v, sid, p) \<in> set (ds1 @ ds2)" for v sid p
  proof (cases "(v, sid, p) \<in> set ds1")
    case True
    with d1 d2 apart [OF True] fresh [OF True] show ?thesis by (fastforce simp: deploys_def)
  next
    case False
    with that have "(v, sid, p) \<in> set ds2" by simp
    with d1 d2 fresh2 [OF this] show ?thesis by (fastforce simp: deploys_def)
  qed
  moreover have "distinct (map tag_key (flow_mods (out1 @ out2)))"
  proof -
    have "tag_key x \<noteq> tag_key y" if x: "x \<in> set (flow_mods out1)" and y: "y \<in> set (flow_mods out2)" for x y
    proof -
      obtain sid p where "(fm_tag (snd x), sid, p) \<in> set ds1"
        using d1 x by (cases x) (fastforce simp: deploys_def)
      moreover obtain sid' p' where "(fm_tag (snd y), sid', p') \<in> set ds2"
        using d2 y by (cases y) (fastforce simp: deploys_def)
      ultimately show ?thesis using apart by (force simp: tag_key_def)
    qed
    then have "tag_key ` set (flow_mods out1) \<inter> tag_key ` set (flow_mods out2) = {}" by blast
    moreover have "distinct (map tag_key (flow_mods out1))" "distinct (map tag_key (flow_mods out2))"
      using d1 d2 by (simp_all add: deploys_def)
    ultimately show ?thesis by simp
  qed
  moreover have "\<exists>sid p i. (fm_tag fm, sid, p) \<in> set (ds1 @ ds2) \<and> conn_index s c = Some i \<and> int i \<in> set p"
    if mod: "(c, fm) \<in> set (flow_mods (out1 @ out2))" for c fm
  proof (cases "(c, fm) \<in> set (flow_mods out1)")
    case True
    from deploys_mods [OF d1 this] show ?thesis by auto
  next
    case False
    with mod have "(c, fm) \<in> set (flow_mods out2)" by simp
    from deploys_mods [OF d2 this] show ?thesis by (auto simp: index)
  qed
  moreover have "\<exists>c fm i. (c, fm) \<in> set (flow_mods (out1 @ out2)) \<and> fm_tag fm = v \<and> conn_index s c = Some i \<and> x = int i"
    if "(v, sid, p) \<in> set (ds1 @ ds2)" "x \<in> set p" for v sid p x
    using d1 d2 that index by (fastforce simp: deploys_def)
  moreover have "same_tables s s2" "engine_wf s2" "no_activation (out1 @ out2)" "ce_isTaggingEnabled s2 = ce_isTaggingEnabled s"
    "unat (ce_match_version s2) = unat (ce_match_version s) + length (ds1 @ ds2)"
    using d1 d2 by (auto simp: deploys_def no_activation_def intro: same_tables_trans)
  moreover have "\<forall>v. v \<notin> fst ` set (ds1 @ ds2) \<longrightarrow> smap_get v (ce_AckWaitingPaths s2) = smap_get v (ce_AckWaitingPaths s)"
    "\<forall>sid. sid \<notin> (fst \<circ> snd) ` set (ds1 @ ds2) \<longrightarrow> next_version s2 sid = next_version s sid"
    using deploys_other [OF d1] deploys_other [OF d2] by (simp_all add: image_Un)
  ultimately show ?thesis by (intro deploysI) blast+
qed

subsection \<open>Installing one path\<close>

lemma path_nodes_spec:
  "path_nodes topo is = Inr ns \<Longrightarrow> list_all2 (\<lambda>i n. 0 \<le> i \<and> nat i < length topo \<and> n = topo ! nat i) is ns"
  by (induction "is" arbitrary: ns) (auto simp: rbind_Inr_iff vec_at_Inr_iff)

lemma findRelatedSwitchSocket_update [simp]:
  "findRelatedSwitchSocket m (s\<lparr>ce_numFlowMod := x\<rparr>) = findRelatedSwitchSocket m s"
  "findRelatedSwitchSocket m (s\<lparr>ce_IngressSwTable := y\<rparr>) = findRelatedSwitchSocket m s"
  by (simp_all add: findRelatedSwitchSocket_def)

lemma install_loop_spec:
  assumes "install_loop topo prev ns first dst mk s = Inr (s', out)" and "\<forall>p m. mk p = Inr m \<longrightarrow> OFB_TAG m = v"
  shows "\<exists>l x. s' = s\<lparr>ce_numFlowMod := x\<rparr> \<and> out = map (\<lambda>(c, fm). (c, OfFlowMod fm)) l
    \<and> list_all2 (\<lambda>n (c, fm). findRelatedSwitchSocket (n_moduleId n) s = Inr c \<and> fm_tag fm = v) ns l"
  using assms
proof (induction topo prev ns first dst mk s arbitrary: s' out rule: install_loop.induct)
  case (1 topo prev first dst mk s)
  then show ?case by (auto intro!: exI [of _ "[]"] exI [of _ "ce_numFlowMod s"])
next
  case (2 topo prev current rest first dst mk s)
  then obtain c nxt m s2 es where c: "findRelatedSwitchSocket (n_moduleId current) s = Inr c"
    and m: "mk (getInPort topo current prev) = Inr m"
    and nxt: "(case rest of nxt # _ \<Rightarrow> Inr nxt | [] \<Rightarrow> if first then Inl (NullDeref ''std::next(itr,1)'') else Inr dst) = Inr nxt"
    and rest: "install_loop topo current rest False dst mk (s\<lparr>ce_numFlowMod := ce_numFlowMod s + 1\<rparr>) = Inr (s2, es)"
    and res: "s' = s2" "out = (c, OfFlowMod (createFlowMod OFPFC_ADD m (of_nat (getOutPort topo current nxt)) (ce_priority s) (ce_idleTimeout s) (ce_hardTimeout s))) # es"
    by (auto simp: rbind_Inr_iff sendFlowModMessage_def)
  let ?fm = "createFlowMod OFPFC_ADD m (of_nat (getOutPort topo current nxt)) (ce_priority s) (ce_idleTimeout s) (ce_hardTimeout s)"
  have send: "(s\<lparr>ce_numFlowMod := ce_numFlowMod s + 1\<rparr>, c, OfFlowMod ?fm)
      = sendFlowModMessage m (of_nat (getOutPort topo current nxt)) c s"
    by (simp add: sendFlowModMessage_def)
  from "2.IH" [OF send rest "2.prems"(2)] obtain l x where IH: "s2 = s\<lparr>ce_numFlowMod := x\<rparr>"
    "es = map (\<lambda>(c, fm). (c, OfFlowMod fm)) l"
    "list_all2 (\<lambda>n (c, fm). findRelatedSwitchSocket (n_moduleId n) s = Inr c \<and> fm_tag fm = v) rest l"
    by auto
  have "fm_tag ?fm = v"
    using "2.prems"(2) m by (simp add: fm_tag_def createFlowMod_def)
  with IH c res show ?case
    by (intro exI [of _ "(c, ?fm) # l"] exI [of _ x]) simp
qed

lemma insertAssignedPath_spec:
  assumes "insertAssignedPath path vlan dstHost srcHost v s = Inr (s', out)"
  shows "path \<noteq> [] \<and> (\<exists>ns l x y. path_nodes (oc_topology s) path = Inr ns
    \<and> s' = s\<lparr>ce_IngressSwTable := y, ce_numFlowMod := x\<rparr> \<and> out = map (\<lambda>(c, fm). (c, OfFlowMod fm)) l
    \<and> list_all2 (\<lambda>n (c, fm). findRelatedSwitchSocket (n_moduleId n) s = Inr c \<and> fm_tag fm = v) ns l)"
proof -
  from assms have "\<exists>n ns. path_nodes (oc_topology s) path = Inr (n # ns)"
    by (cases "path_nodes (oc_topology s) path"; cases "projr (path_nodes (oc_topology s) path)")
      (auto simp: insertAssignedPath_def split: if_splits)
  with assms obtain n ns y dn hn where ns: "path_nodes (oc_topology s) path = Inr (n # ns)"
    and loop: "install_loop (oc_topology s) hn (n # ns) True dn
      (\<lambda>inport. createDesiredMatch oxm_zero (of_nat inport) dstHost srcHost vlan v) (s\<lparr>ce_IngressSwTable := y\<rparr>) = Inr (s', out)"
    by (auto simp: insertAssignedPath_def rbind_Inr_iff Let_def simp del: install_loop.simps split: if_splits option.splits)
  from install_loop_spec [OF loop, of v] ns show ?thesis
    by (cases path) (auto simp: createDesiredMatch_eq)
qed

subsection \<open>Giving out one version\<close>

text \<open>Path changes so far: reconfigurations and new assignments.\<close>

definition path_changes :: "'a config_engine_scheme \<Rightarrow> int" where
  "path_changes s = ce_numOfPathReconfigurations s + int (length (ce_prevAssignments s))"

text \<open>A step gives out at most one version per path change; an orderly one gives out exactly one each.\<close>

definition bounded_step :: "'a config_engine_scheme \<Rightarrow> 'a config_engine_scheme \<Rightarrow> bool" where
  "bounded_step s s' \<longleftrightarrow> int (unat (ce_match_version s')) \<le> int (unat (ce_match_version s)) + (path_changes s' - path_changes s)"

definition orderly_step :: "'a config_engine_scheme \<Rightarrow> 'a config_engine_scheme \<Rightarrow> bool" where
  "orderly_step s s' \<longleftrightarrow> int (unat (ce_match_version s')) = int (unat (ce_match_version s)) + (path_changes s' - path_changes s)"

lemma bounded_step_refl [simp]: "bounded_step s s"
  by (simp add: bounded_step_def)

lemma bounded_step_trans: "bounded_step s s1 \<Longrightarrow> bounded_step s1 s2 \<Longrightarrow> bounded_step s s2"
  by (simp add: bounded_step_def)

lemma orderly_step_split:
  "orderly_step s s2 \<Longrightarrow> bounded_step s s1 \<Longrightarrow> bounded_step s1 s2 \<Longrightarrow> orderly_step s s1 \<and> orderly_step s1 s2"
  by (simp add: bounded_step_def orderly_step_def)

lemma deploys_update [simp]:
  "deploys (s\<lparr>ce_prevAssignments := x1\<rparr>) s' out ds = deploys s s' out ds"
  "deploys s (s'\<lparr>ce_prevAssignments := x1\<rparr>) out ds = deploys s s' out ds"
  "deploys (s\<lparr>ce_numOfPathReconfigurations := x2\<rparr>) s' out ds = deploys s s' out ds"
  "deploys (s\<lparr>ce_DemandtoStreamIdMap := x3\<rparr>) s' out ds = deploys s s' out ds"
  "deploys (s\<lparr>RegisteredStreams := x4\<rparr>) s' out ds = deploys s s' out ds"
  by (simp_all add: deploys_def same_tables_def next_version_def engine_wf_def conn_index_def findSwitchInfoFor_def)

definition engine_ok :: "'a config_engine_scheme \<Rightarrow> bool" where
  "engine_ok s \<longleftrightarrow> engine_wf s \<and> tables_ok s \<and> ce_isTaggingEnabled s \<and> ce_match_version s \<noteq> 0"

lemma engine_ok_update [simp]:
  "engine_ok (s\<lparr>ce_prevAssignments := x1\<rparr>) = engine_ok s"
  "engine_ok (s\<lparr>ce_numOfPathReconfigurations := x2\<rparr>) = engine_ok s"
  "engine_ok (s\<lparr>ce_DemandtoStreamIdMap := x3\<rparr>) = engine_ok s"
  "engine_ok (s\<lparr>RegisteredStreams := x4\<rparr>) = engine_ok s"
  by (simp_all add: engine_ok_def engine_wf_def tables_ok_def conn_index_def findSwitchInfoFor_def)

lemma deploys_ok: "deploys s s' out ds \<Longrightarrow> engine_ok s \<Longrightarrow> engine_ok s'"
proof -
  assume d: "deploys s s' out ds" and ok: "engine_ok s"
  then have "tables_ok s'" using same_tables_ok by (auto simp: deploys_def engine_ok_def)
  moreover have "unat (ce_match_version s) \<noteq> 0" using ok by (simp add: engine_ok_def unat_eq_0)
  ultimately show ?thesis using d ok by (auto simp: deploys_def engine_ok_def)
qed

definition unchanged_counts :: "'a config_engine_scheme \<Rightarrow> 'a config_engine_scheme \<Rightarrow> bool" where
  "unchanged_counts s s' \<longleftrightarrow> ce_prevAssignments s' = ce_prevAssignments s
     \<and> ce_numOfPathReconfigurations s' = ce_numOfPathReconfigurations s"

lemma deployPath_frame:
  assumes "deployPath sid st path s = Inr (s', out)"
  shows "unchanged_counts s s' \<and> unat (ce_match_version s') \<le> unat (ce_match_version s) + 1"
proof -
  have "unat (v + 1) \<le> unat v + 1" for v :: "16 word"
    by (simp add: unat_word_ariths)
  moreover have "\<exists>x y. s' = (addMatchVersiontoStream sid
      (s\<lparr>ce_AckWaitingPaths := smap_put (if ce_isTaggingEnabled s then ce_match_version s else 0) path (ce_AckWaitingPaths s)\<rparr>))
      \<lparr>ce_IngressSwTable := y, ce_numFlowMod := x\<rparr>"
    using insertAssignedPath_spec [OF assms [unfolded deployPath_def Let_def]] by blast
  ultimately show ?thesis
    by (auto simp: unchanged_counts_def addMatchVersiontoStream_def Let_def split: option.split)
qed

lemma deployPath_deploys:
  assumes run: "deployPath sid st path s = Inr (s', out)" and ok: "engine_ok s" and path: "distinct path"
    and bump: "unat (ce_match_version s') = unat (ce_match_version s) + 1"
  shows "deploys s s' out [(ce_match_version s, sid, path)]"
proof -
  let ?v = "ce_match_version s"
  let ?s1 = "s\<lparr>ce_AckWaitingPaths := smap_put ?v path (ce_AckWaitingPaths s)\<rparr>"
  let ?s2 = "addMatchVersiontoStream sid ?s1"
  have tag: "ce_isTaggingEnabled s" and wf: "smap_wf (ce_StreamFlowVersionTable s)" "smap_wf (ce_AckWaitingPaths s)"
    and tables: "tables_ok s"
    using ok by (auto simp: engine_ok_def engine_wf_def)
  have fields: "oc_switchesList ?s2 = oc_switchesList s" "oc_topology ?s2 = oc_topology s"
    "oc_SwitchInfoTable ?s2 = oc_SwitchInfoTable s" "oc_HostProfileTable ?s2 = oc_HostProfileTable s"
    "ce_AckWaitingPaths ?s2 = smap_put ?v path (ce_AckWaitingPaths s)" "ce_isTaggingEnabled ?s2 = ce_isTaggingEnabled s"
    by (auto simp: addMatchVersiontoStream_def Let_def split: option.split)
  have "insertAssignedPath path (st_vlanid st) (st_listener st) (st_talker st) ?v ?s2 = Inr (s', out)"
    using run tag by (simp add: deployPath_def Let_def)
  from insertAssignedPath_spec [OF this]
  obtain ns l x y where ne: "path \<noteq> []" and ns: "path_nodes (oc_topology s) path = Inr ns"
    and s': "s' = ?s2\<lparr>ce_IngressSwTable := y, ce_numFlowMod := x\<rparr>" and out: "out = map (\<lambda>(c, fm). (c, OfFlowMod fm)) l"
    and l: "list_all2 (\<lambda>n (c, fm). findRelatedSwitchSocket (n_moduleId n) ?s2 = Inr c \<and> fm_tag fm = ?v) ns l"
    by (simp only: fields) blast
  have pending: "next_version s sid = 0"
    using bump s' tag by (auto simp: next_version_def addMatchVersiontoStream_def Let_def split: option.splits if_splits)
  then have table: "\<exists>c. ce_StreamFlowVersionTable ?s2 = smap_put sid \<lparr>vi_next = ?v, vi_current = c\<rparr> (ce_StreamFlowVersionTable s)"
    using tag by (auto simp: next_version_def addMatchVersiontoStream_def Let_def split: option.splits)
  have each: "list_all2 (\<lambda>i (c, fm). fm_tag fm = ?v \<and> 0 \<le> i \<and> conn_index s c = Some (nat i)) path l"
  proof (rule list_all2_trans [OF _ path_nodes_spec [OF ns] l])
    fix i n and z :: "int \<times> flow_mod"
    assume i: "0 \<le> i \<and> nat i < length (oc_topology s) \<and> n = oc_topology s ! nat i"
      and z: "case z of (c, fm) \<Rightarrow> findRelatedSwitchSocket (n_moduleId n) ?s2 = Inr c \<and> fm_tag fm = ?v"
    then show "case z of (c, fm) \<Rightarrow> fm_tag fm = ?v \<and> 0 \<le> i \<and> conn_index s c = Some (nat i)"
      using tables by (auto simp: findRelatedSwitchSocket_def fields tables_ok_def split: option.splits)
  qed
  then have len: "length l = length path"
    and nth: "\<And>k. k < length path \<Longrightarrow> fm_tag (snd (l ! k)) = ?v \<and> 0 \<le> path ! k \<and> conn_index s (fst (l ! k)) = Some (nat (path ! k))"
    by (auto simp: list_all2_conv_all_nth split_beta)
  have "distinct (map tag_key l)"
    unfolding distinct_conv_nth using nth path len
    by (auto simp: tag_key_def distinct_conv_nth) (metis int_nat_eq option.inject nth_eq_iff_index_eq path)
  moreover have "\<exists>i. (fm_tag fm, sid, path) \<in> {(?v, sid, path)} \<and> conn_index s c = Some i \<and> int i \<in> set path"
    if mem: "(c, fm) \<in> set l" for c fm
  proof -
    obtain k where "k < length path" "l ! k = (c, fm)" using mem len by (auto simp: in_set_conv_nth)
    with nth [of k] show ?thesis by auto
  qed
  moreover have "\<exists>c fm i. (c, fm) \<in> set l \<and> fm_tag fm = ?v \<and> conn_index s c = Some i \<and> y = int i"
    if mem: "y \<in> set path" for y
  proof -
    obtain k where k: "k < length path" "path ! k = y" using mem by (auto simp: in_set_conv_nth)
    with nth [of k] len have "(fst (l ! k), snd (l ! k)) \<in> set l \<and> fm_tag (snd (l ! k)) = ?v
        \<and> conn_index s (fst (l ! k)) = Some (nat y) \<and> y = int (nat y)" by simp
    then show ?thesis by blast
  qed
  ultimately show ?thesis
    using bump ne pending table wf
    by (intro deploysI) (auto simp: s' out fields same_tables_def engine_wf_def no_activation_def next_version_def
        smap_put_wf smap_get_put)
qed

subsection \<open>Configuring the data plane\<close>

lemma reconfigure_step:
  assumes "reconfigure p a s = Inr (s', out)"
  shows "ce_prevAssignments s' = ce_prevAssignments s \<and> bounded_step s s'"
    and "engine_ok s \<Longrightarrow> distinct (a_path a) \<Longrightarrow> orderly_step s s' \<Longrightarrow> \<exists>ds. deploys s s' out ds"
proof -
  let ?s1 = "s\<lparr>ce_numOfPathReconfigurations := ce_numOfPathReconfigurations s + 1\<rparr>"
  from assms obtain m st where run: "deployPath (st_sid st) st (a_path a) (?s1\<lparr>ce_DemandtoStreamIdMap := m\<rparr>) = Inr (s', out)"
    by (auto simp: reconfigure_def Let_def rbind_Inr_iff)
  note frame = deployPath_frame [OF run]
  then have counts: "path_changes s' = path_changes s + 1" "ce_prevAssignments s' = ce_prevAssignments s"
    by (simp_all add: unchanged_counts_def path_changes_def)
  have "unat (ce_match_version s') \<le> unat (ce_match_version s) + 1" using frame by simp
  with counts show "ce_prevAssignments s' = ce_prevAssignments s \<and> bounded_step s s'"
    unfolding bounded_step_def by linarith
  show "\<exists>ds. deploys s s' out ds" if "engine_ok s" "distinct (a_path a)" "orderly_step s s'"
  proof -
    have "int (unat (ce_match_version s')) = int (unat (ce_match_version s)) + 1"
      using that(3) counts unfolding orderly_step_def by linarith
    then have "unat (ce_match_version s') = unat (ce_match_version s) + 1" by linarith
    then show ?thesis using deployPath_deploys [OF run] that(1,2) by auto
  qed
qed

lemma prev_loop_bounded:
  "prev_loop a ps s = Inr (seen, qs, s', out) \<Longrightarrow>
     length qs = length ps \<and> ce_prevAssignments s' = ce_prevAssignments s \<and> bounded_step s s'"
proof (induction ps arbitrary: s seen qs s' out)
  case (Cons p ps)
  show ?case
  proof (cases "a_demand_index p = a_demand_index a \<and> a_path p \<noteq> a_path a")
    case True
    with Cons.prems obtain s1 out1 b rs out2 where one: "reconfigure p a s = Inr (s1, out1)"
      and rest: "prev_loop a ps s1 = Inr (b, rs, s', out2)" and qs: "length qs = Suc (length rs)"
      by (auto simp: rbind_Inr_iff)
    from reconfigure_step(1) [OF one] Cons.IH [OF rest] qs show ?thesis
      using bounded_step_trans by auto
  next
    case False
    with Cons.prems obtain b rs out2 where "prev_loop a ps s = Inr (b, rs, s', out2)" "length qs = Suc (length rs)"
      by (auto simp: rbind_Inr_iff split: if_splits)
    with Cons.IH [OF this(1)] show ?thesis by simp
  qed
qed simp

lemma prev_loop_deploys:
  "prev_loop a ps s = Inr (seen, qs, s', out) \<Longrightarrow> engine_ok s \<Longrightarrow> distinct (a_path a) \<Longrightarrow> orderly_step s s' \<Longrightarrow>
     \<exists>ds. deploys s s' out ds"
proof (induction ps arbitrary: s seen qs s' out)
  case Nil
  then show ?case
    by (auto simp: engine_ok_def no_activation_def intro!: exI [of _ "[]"] deploys_none)
next
  case (Cons p ps)
  show ?case
  proof (cases "a_demand_index p = a_demand_index a \<and> a_path p \<noteq> a_path a")
    case True
    with Cons.prems(1) obtain s1 out1 b rs out2 where one: "reconfigure p a s = Inr (s1, out1)"
      and rest: "prev_loop a ps s1 = Inr (b, rs, s', out2)" and out: "out = out1 @ out2"
      by (auto simp: rbind_Inr_iff)
    from orderly_step_split [OF Cons.prems(4)] reconfigure_step(1) [OF one] prev_loop_bounded [OF rest]
    have orderly: "orderly_step s s1" "orderly_step s1 s'" by auto
    from reconfigure_step(2) [OF one Cons.prems(2,3) orderly(1)] obtain ds1 where d1: "deploys s s1 out1 ds1" ..
    from Cons.IH [OF rest deploys_ok [OF d1 Cons.prems(2)] Cons.prems(3) orderly(2)] obtain ds2 where "deploys s1 s' out2 ds2" ..
    with d1 Cons.prems(2) show ?thesis
      unfolding out by (auto simp: engine_ok_def intro: deploys_trans)
  next
    case False
    with Cons.prems(1) obtain b rs where "prev_loop a ps s = Inr (b, rs, s', out)"
      by (auto simp: rbind_Inr_iff split: if_splits)
    with Cons.IH [OF this Cons.prems(2-4)] show ?thesis by simp
  qed
qed

text \<open>One round of the outer loop.\<close>

definition configure_one :: "int \<Rightarrow> 64 word \<Rightarrow> stream \<Rightarrow> assignment \<Rightarrow> 'a config_engine_scheme
    \<Rightarrow> ('a config_engine_scheme \<times> sending list) res" where
  "configure_one demandid sid st a s =
     rbind (prev_loop a (ce_prevAssignments s) s) (\<lambda>(seen, prevs, s0, out1).
     let s1 = s0\<lparr>ce_prevAssignments := prevs\<rparr> in
     rbind (if \<not> seen \<and> demandid \<noteq> -1 then
              rbind (deployPath sid st (a_path a) s1) (\<lambda>(s2, out2).
                Inr (s2\<lparr>ce_prevAssignments := ce_prevAssignments s2 @ [a]\<rparr>, out2))
            else Inr (s1, [])) (\<lambda>(s2, out2). Inr (s2, out1 @ out2)))"

lemma configure_loop_Cons:
  "configure_loop demandid sid st (a # as) s =
     rbind (configure_one demandid sid st a s) (\<lambda>(s2, out1).
     rbind (configure_loop demandid sid st as s2) (\<lambda>(s3, out2). Inr (s3, out1 @ out2)))"
  by (auto simp: configure_one_def rbind_def Let_def split: sum.splits prod.splits if_splits)

lemma configure_one_step:
  assumes "configure_one demandid sid st a s = Inr (s', out)"
  shows "bounded_step s s'"
    and "engine_ok s \<Longrightarrow> distinct (a_path a) \<Longrightarrow> orderly_step s s' \<Longrightarrow> \<exists>ds. deploys s s' out ds"
proof -
  from assms obtain seen prevs s0 out1 s2 out2 where
    prev: "prev_loop a (ce_prevAssignments s) s = Inr (seen, prevs, s0, out1)"
    and new: "(if \<not> seen \<and> demandid \<noteq> -1 then
          rbind (deployPath sid st (a_path a) (s0\<lparr>ce_prevAssignments := prevs\<rparr>)) (\<lambda>(s2, out2).
            Inr (s2\<lparr>ce_prevAssignments := ce_prevAssignments s2 @ [a]\<rparr>, out2))
        else Inr (s0\<lparr>ce_prevAssignments := prevs\<rparr>, [])) = Inr (s2, out2)"
    and res: "s' = s2" "out = out1 @ out2"
    by (fastforce simp: configure_one_def rbind_Inr_iff Let_def)
  note b1 = prev_loop_bounded [OF prev]
  let ?s1 = "s0\<lparr>ce_prevAssignments := prevs\<rparr>"
  have step1: "path_changes ?s1 = path_changes s0"
    using b1 by (simp add: path_changes_def)
  have b2: "bounded_step ?s1 s'" and d2: "\<exists>ds. deploys ?s1 s' out2 ds" if "engine_ok s0" "distinct (a_path a)" "orderly_step ?s1 s'"
  proof -
    show "bounded_step ?s1 s'" using that(3) by (simp add: bounded_step_def orderly_step_def)
    show "\<exists>ds. deploys ?s1 s' out2 ds"
    proof (cases "\<not> seen \<and> demandid \<noteq> -1")
      case True
      with new res obtain s3 where run: "deployPath sid st (a_path a) ?s1 = Inr (s3, out2)"
        and s': "s' = s3\<lparr>ce_prevAssignments := ce_prevAssignments s3 @ [a]\<rparr>"
        by (auto simp: rbind_Inr_iff)
      from deployPath_frame [OF run] have "path_changes s' = path_changes ?s1 + 1"
        by (simp add: s' unchanged_counts_def path_changes_def)
      with that(3) have "int (unat (ce_match_version s')) = int (unat (ce_match_version ?s1)) + 1"
        unfolding orderly_step_def by linarith
      then have "unat (ce_match_version s') = unat (ce_match_version ?s1) + 1" by linarith
      then have "unat (ce_match_version s3) = unat (ce_match_version ?s1) + 1" by (simp add: s')
      from deployPath_deploys [OF run _ that(2) this] that(1) show ?thesis by (auto simp: s')
    next
      case False
      with new res that(1) show ?thesis
        by (auto simp: engine_ok_def engine_wf_def no_activation_def intro!: exI [of _ "[]"] deploys_none)
    qed
  qed
  have b: "bounded_step s0 s'"
  proof (cases "\<not> seen \<and> demandid \<noteq> -1")
    case True
    with new res obtain s3 where run: "deployPath sid st (a_path a) ?s1 = Inr (s3, out2)"
      and s': "s' = s3\<lparr>ce_prevAssignments := ce_prevAssignments s3 @ [a]\<rparr>"
      by (auto simp: rbind_Inr_iff)
    have "path_changes s' = path_changes s0 + 1"
      using deployPath_frame [OF run] b1 by (simp add: s' unchanged_counts_def path_changes_def)
    moreover have "unat (ce_match_version s') \<le> unat (ce_match_version s0) + 1"
      using deployPath_frame [OF run] by (simp add: s')
    ultimately show ?thesis unfolding bounded_step_def by linarith
  next
    case False
    with new res b1 show ?thesis by (auto simp: bounded_step_def path_changes_def)
  qed
  with b1 show bound: "bounded_step s s'" using bounded_step_trans by blast
  assume ok: "engine_ok s" and path: "distinct (a_path a)" and orderly: "orderly_step s s'"
  from orderly_step_split [OF orderly _ b] b1 have o1: "orderly_step s s0" and o2: "orderly_step s0 s'" by auto
  from prev_loop_deploys [OF prev ok path o1] obtain ds1 where ds1: "deploys s s0 out1 ds1" ..
  have "orderly_step ?s1 s'" using o2 step1 by (simp add: orderly_step_def)
  from d2 [OF deploys_ok [OF ds1 ok] path this] obtain ds2 where "deploys ?s1 s' out2 ds2" ..
  with ds1 ok show "\<exists>ds. deploys s s' out ds"
    unfolding res by (auto simp: engine_ok_def intro: deploys_trans)
qed

lemma configure_loop_bounded: "configure_loop demandid sid st as s = Inr (s', out) \<Longrightarrow> bounded_step s s'"
proof (induction "as" arbitrary: s s' out)
  case (Cons a as)
  then obtain s1 out1 out2 where one: "configure_one demandid sid st a s = Inr (s1, out1)"
    and "configure_loop demandid sid st as s1 = Inr (s', out2)"
    by (auto simp: configure_loop_Cons rbind_Inr_iff simp del: configure_loop.simps)
  with Cons.IH configure_one_step(1) [OF one] show ?case using bounded_step_trans by blast
qed simp

lemma configure_loop_deploys:
  "configure_loop demandid sid st as s = Inr (s', out) \<Longrightarrow> engine_ok s \<Longrightarrow> \<forall>a \<in> set as. distinct (a_path a) \<Longrightarrow>
     orderly_step s s' \<Longrightarrow> \<exists>ds. deploys s s' out ds"
proof (induction "as" arbitrary: s s' out)
  case Nil
  then show ?case
    by (auto simp: engine_ok_def no_activation_def intro!: exI [of _ "[]"] deploys_none)
next
  case (Cons a as)
  from Cons.prems(1) obtain s1 out1 out2 where one: "configure_one demandid sid st a s = Inr (s1, out1)"
    and rest: "configure_loop demandid sid st as s1 = Inr (s', out2)" and out: "out = out1 @ out2"
    by (auto simp: configure_loop_Cons rbind_Inr_iff simp del: configure_loop.simps)
  from orderly_step_split [OF Cons.prems(4) configure_one_step(1) [OF one] configure_loop_bounded [OF rest]]
  have orderly: "orderly_step s s1" "orderly_step s1 s'" by auto
  from configure_one_step(2) [OF one Cons.prems(2) _ orderly(1)] Cons.prems(3)
  obtain ds1 where d1: "deploys s s1 out1 ds1" by auto
  from Cons.IH [OF rest deploys_ok [OF d1 Cons.prems(2)] _ orderly(2)] Cons.prems(3)
  obtain ds2 where "deploys s1 s' out2 ds2" by auto
  with d1 Cons.prems(2) show ?case
    unfolding out by (auto simp: engine_ok_def intro: deploys_trans)
qed

lemma sendListenerReady_out:
  "sendListenerReadyToTalker sid vlan s = Inr out \<Longrightarrow> no_activation out \<and> flow_mods out = []"
proof -
  assume run: "sendListenerReadyToTalker sid vlan s = Inr out"
  then obtain st where "getStreambyId sid s = Inr st"
    by (auto simp: sendListenerReadyToTalker_def rbind_Inr_iff)
  with run show ?thesis
    by (cases "st_talkerSwInfo st"; cases "si_socket (oc_switchesList s ! the (st_talkerSwInfo st))")
      (auto simp: sendListenerReadyToTalker_def no_activation_def)
qed

lemma deploys_more_out:
  "deploys s s' out ds \<Longrightarrow> no_activation out' \<Longrightarrow> flow_mods out' = [] \<Longrightarrow> deploys s s' (out @ out') ds"
  by (auto simp: deploys_def no_activation_def)

lemma configureDataPlane_deploys:
  assumes run: "configureDataPlane demandid sid as s = Inr (s', out)" and ok: "engine_ok s"
    and paths: "\<forall>a \<in> set as. distinct (a_path a)" and orderly: "orderly_step s s'"
  shows "\<exists>ds. deploys s s' out ds"
proof -
  from run obtain m st out1 out2 where
    loop: "configure_loop demandid sid st as (s\<lparr>ce_DemandtoStreamIdMap := m\<rparr>) = Inr (s', out1)"
    and out: "out = out1 @ out2" and ready: "no_activation out2 \<and> flow_mods out2 = []"
  proof (cases "demandid = -1")
    case True
    with run have "configure_loop demandid sid new_stream as (s\<lparr>ce_DemandtoStreamIdMap := ce_DemandtoStreamIdMap s\<rparr>) = Inr (s', out)"
      by (auto simp: configureDataPlane_def rbind_Inr_iff)
    then show ?thesis by (rule that [of _ _ _ "[]"]) (simp_all add: no_activation_def)
  next
    case False
    with run that show ?thesis
      by (auto simp: configureDataPlane_def rbind_Inr_iff Let_def dest: sendListenerReady_out)
  qed
  have "orderly_step (s\<lparr>ce_DemandtoStreamIdMap := m\<rparr>) s'"
    using orderly by (simp add: orderly_step_def path_changes_def)
  with configure_loop_deploys [OF loop _ paths] ok
  obtain ds where "deploys (s\<lparr>ce_DemandtoStreamIdMap := m\<rparr>) s' out1 ds" by auto
  with ready show ?thesis unfolding out by (auto intro: deploys_more_out)
qed

end
