(* ===== verification/VersionedUpdate.thy ===== *)
theory VersionedUpdate
  imports EngineVersions
begin

text \<open>
  The versioned update as a protocol: the controller with its applications, the edge switches, and a
  FIFO channel in each direction per connection (TCP). A step is a data frame that arrives at a switch,
  a switch that serves the next message of the controller, or the controller that serves the next
  message of a switch; the service time queues of both sides are first in first out and are part of the
  channels. Three history variables record what the protocol is about: the flow modifications the
  controller sent, those a switch has put into its tables, and the stream and path of each version.
\<close>

subsection \<open>The system\<close>

record network =
  nw_ctl :: opce
  nw_switch :: "int \<Rightarrow> agent"
  nw_down :: "int \<Rightarrow> of_msg list"
  nw_up :: "int \<Rightarrow> of_msg list"
  nw_sent :: "(int \<times> flow_mod) list"
  nw_handled :: "(int \<times> flow_mod) list"
  nw_plan :: "16 word \<Rightarrow> (64 word \<times> int list) option"

fun socket_msgs :: "agent_effect list \<Rightarrow> of_msg list" where
  "socket_msgs [] = []"
| "socket_msgs (SocketSend m # es) = m # socket_msgs es"
| "socket_msgs (DataOut i f # es) = socket_msgs es"

definition to_conn :: "int \<Rightarrow> sending list \<Rightarrow> of_msg list" where
  "to_conn c out = map snd (filter (\<lambda>x. fst x = c) out)"

text \<open>Frames of end systems; the acknowledgement of a switch is recognised by its display string.\<close>

definition ordinary :: "frame \<Rightarrow> bool" where
  "ordinary f \<longleftrightarrow> (case fr_qtag f of Some q \<Rightarrow> q_displayString q \<noteq> ''ACKforFlowMod'' | None \<Rightarrow> True)"

text \<open>The versions given out between two states of the controller, with their streams and paths.\<close>

definition new_plan :: "opce \<Rightarrow> opce \<Rightarrow> (16 word \<Rightarrow> (64 word \<times> int list) option) \<Rightarrow> 16 word \<Rightarrow> (64 word \<times> int list) option" where
  "new_plan s s' plan v =
     (if ce_match_version s \<le> v \<and> v < ce_match_version s' then
        (case find (\<lambda>(sid, i). vi_next i = v) (ce_StreamFlowVersionTable s') of
           Some (sid, i) \<Rightarrow> map_option (Pair sid) (smap_get v (ce_AckWaitingPaths s'))
         | None \<Rightarrow> None)
      else plan v)"

inductive net_step :: "optimizer \<Rightarrow> mac \<Rightarrow> network \<Rightarrow> network \<Rightarrow> bool" for optimize srp_address where
  data_frame:
    "dataPlaneIn now f (nw_switch n c) = Inr (a, effs) \<Longrightarrow> ordinary f \<Longrightarrow>
     net_step optimize srp_address n
       (n\<lparr>nw_switch := (nw_switch n)(c := a), nw_up := (nw_up n)(c := nw_up n c @ socket_msgs effs)\<rparr>)"
| switch_serves:
    "nw_down n c = m # ms \<Longrightarrow> processControlPlanePacket_edge srp_address now new m (nw_switch n c) = Inr (a, effs) \<Longrightarrow>
     net_step optimize srp_address n
       (n\<lparr>nw_switch := (nw_switch n)(c := a), nw_down := (nw_down n)(c := ms),
          nw_up := (nw_up n)(c := nw_up n c @ socket_msgs effs),
          nw_handled := nw_handled n @
            (case m of OfFlowMod fm \<Rightarrow> if ag_isTaggingEnabled (nw_switch n c) then [(c, fm)] else [] | _ \<Rightarrow> [])\<rparr>)"
| controller_serves:
    "nw_up n c = m # ms \<Longrightarrow> serveMessage optimize c version m (nw_ctl n) = Inr (s', out) \<Longrightarrow>
     net_step optimize srp_address n
       (n\<lparr>nw_ctl := s', nw_up := (nw_up n)(c := ms), nw_down := (\<lambda>d. nw_down n d @ to_conn d out),
          nw_sent := nw_sent n @ flow_mods out, nw_plan := new_plan (nw_ctl n) s' (nw_plan n)\<rparr>)"

text \<open>Runs in which every path change got a version of its own.\<close>

inductive orderly_run :: "optimizer \<Rightarrow> mac \<Rightarrow> network \<Rightarrow> network \<Rightarrow> bool" for optimize srp_address where
  run_start: "orderly_run optimize srp_address n n"
| run_step: "orderly_run optimize srp_address n n1 \<Longrightarrow> net_step optimize srp_address n1 n2 \<Longrightarrow>
     orderly_step (nw_ctl n1) (nw_ctl n2) \<Longrightarrow> orderly_run optimize srp_address n n2"

subsection \<open>What a switch does\<close>

abbreviation active_map :: "agent \<Rightarrow> (64 word, 16 word) smap" where
  "active_map a \<equiv> ed_StreamActiveMatchVersionMap a"

definition activation :: "16 word \<Rightarrow> 64 word \<Rightarrow> of_msg" where
  "activation v sid = OfPacketOut OFP_NO_BUFFER 0 [] (Some (EncFrame (activation_frame v sid)))"

definition harmless :: "of_msg list \<Rightarrow> bool" where
  "harmless ms \<longleftrightarrow> (\<forall>m \<in> set ms. (\<exists>b mt e. m = OfPacketIn b mt e) \<and> ack_version m = None)"

lemma harmless_simps [simp]:
  "harmless []"
  "harmless (m # ms) \<longleftrightarrow> (\<exists>b mt e. m = OfPacketIn b mt e) \<and> ack_version m = None \<and> harmless ms"
  "harmless (ms @ ms') \<longleftrightarrow> harmless ms \<and> harmless ms'"
  by (auto simp: harmless_def)

lemma socket_msgs_append [simp]: "socket_msgs (xs @ ys) = socket_msgs xs @ socket_msgs ys"
  by (induction xs rule: socket_msgs.induct) simp_all

lemma createPacketIn_harmless:
  "createPacketIn f k b = Inr m \<Longrightarrow> ordinary f \<Longrightarrow> harmless [m]"
  by (auto simp: createPacketIn_def ack_version_def ordinary_def Let_def split: if_splits payload.splits option.splits)

lemma handleMissMatchedPacket_harmless:
  "handleMissMatchedPacket f a = Inr (a', effs) \<Longrightarrow> ordinary f \<Longrightarrow> harmless (socket_msgs effs) \<and> active_map a' = active_map a"
  by (auto simp: handleMissMatchedPacket_def rbind_Inr_iff Let_def split: if_splits prod.splits
      dest!: createPacketIn_harmless)

lemma receiveSignals_harmless:
  "receiveSignals es a = Inr (a', effs) \<Longrightarrow> \<forall>f. TableMiss f \<in> set es \<longrightarrow> ordinary f \<Longrightarrow>
     harmless (socket_msgs effs) \<and> active_map a' = active_map a"
proof (induction es a arbitrary: a' effs rule: receiveSignals.induct)
  case (4 f es a)
  then obtain a1 o1 o2 where one: "(if isConnectedToController a then handleMissMatchedPacket f a else Inr (a, [])) = Inr (a1, o1)"
    and rest: "receiveSignals es a1 = Inr (a', o2)" and effs: "effs = o1 @ o2"
    by (auto simp: rbind_Inr_iff)
  from one "4.prems"(2) have "harmless (socket_msgs o1) \<and> active_map a1 = active_map a"
    by (auto dest: handleMissMatchedPacket_harmless split: if_splits)
  with "4.IH" [OF rest] "4.prems"(2) effs show ?case by auto
qed (auto simp: rbind_Inr_iff forwardSRPtoController_def ack_version_def)

lemma processDataPlanePacket_active:
  "processDataPlanePacket extract now f s = Inr (s', es) \<Longrightarrow>
     ed_StreamActiveMatchVersionMap s' = ed_StreamActiveMatchVersionMap s"
proof -
  assume run: "processDataPlanePacket extract now f s = Inr (s', es)"
  then obtain m t ts where "extract f = Inr m" and "sw_flowTables s = t # ts"
    by (cases "sw_flowTables s") (auto simp: processDataPlanePacket_def processFrame_def)
  with run show ?thesis
    by (auto simp: processDataPlanePacket_def processFrame_def rbind_Inr_iff Let_def split: option.splits)
qed

text \<open>A data frame: at most an absent entry of the active versions is created with version 0.\<close>

lemma dataPlaneIn_step:
  assumes run: "dataPlaneIn now f a = Inr (a', effs)" and ord: "ordinary f" and wf: "smap_wf (active_map a)"
  shows "harmless (socket_msgs effs) \<and> smap_wf (active_map a')
    \<and> (\<forall>sid v. smap_get sid (active_map a') = Some v \<longrightarrow> v \<noteq> 0 \<longrightarrow> smap_get sid (active_map a) = Some v)"
proof -
  from run obtain a1 es where edge: "processDataPlanePacket_edge now f a = Inr (a1, es)" and sig: "receiveSignals es a1 = Inr (a', effs)"
    by (auto simp: dataPlaneIn_def rbind_Inr_iff)
  have "(\<forall>g. TableMiss g \<in> set es \<longrightarrow> ordinary g) \<and> smap_wf (active_map a1)
      \<and> (\<forall>sid v. smap_get sid (active_map a1) = Some v \<longrightarrow> v \<noteq> 0 \<longrightarrow> smap_get sid (active_map a) = Some v)"
  proof (cases "\<exists>p. fr_payload f = SrpPayload p")
    case True
    then obtain p where p: "fr_payload f = SrpPayload p" ..
    show ?thesis
    proof (cases "\<exists>ta. as_talker p = Some ta")
      case True
      with p edge wf show ?thesis by (auto simp: processDataPlanePacket_edge_def)
    next
      case False
      with p edge have base: "processDataPlanePacket extractMatch now (f\<lparr>fr_payload := NoPayload\<rparr>) a = Inr (a1, es)"
        by (auto simp: processDataPlanePacket_edge_def split: option.splits)
      from processDataPlanePacket_frames [OF base] ord have "\<forall>g. TableMiss g \<in> set es \<longrightarrow> ordinary g"
        by (auto simp: ordinary_def)
      with processDataPlanePacket_active [OF base] wf show ?thesis by simp
    qed
  next
    case False
    let ?t = "tag_frame f a"
    from False edge have base: "processDataPlanePacket extractMatch now (fst ?t) (snd ?t) = Inr (a1, es)"
      by (auto simp: processDataPlanePacket_edge_def split_beta split: payload.splits)
    have ordt: "ordinary (fst ?t)"
      using ord by (auto simp: tag_frame_def ordinary_def Let_def split: option.splits)
    from processDataPlanePacket_frames [OF base] ordt have "\<forall>g. TableMiss g \<in> set es \<longrightarrow> ordinary g" by auto
    moreover have "smap_wf (active_map (snd ?t))
      \<and> (\<forall>sid v. smap_get sid (active_map (snd ?t)) = Some v \<longrightarrow> v \<noteq> 0 \<longrightarrow> smap_get sid (active_map a) = Some v)"
      using wf by (auto simp: tag_frame_def Let_def smap_put_wf smap_get_put split: option.splits if_splits)
    ultimately show ?thesis using processDataPlanePacket_active [OF base] by simp
  qed
  with receiveSignals_harmless [OF sig] show ?thesis by auto
qed

text \<open>The three kinds of messages that the controller sends after the handshake.\<close>

definition from_controller :: "of_msg \<Rightarrow> bool" where
  "from_controller m \<longleftrightarrow> (\<exists>fm. m = OfFlowMod fm) \<or> (\<exists>p e. m = OfVendor p e) \<or> (\<exists>v sid. m = activation v sid)"

lemma handleFlowModMessage_active: "handleFlowModMessage now new fm s = Inr s' \<Longrightarrow>
   ed_StreamActiveMatchVersionMap s' = ed_StreamActiveMatchVersionMap s"
  by (auto simp: handleFlowModMessage_def Let_def rbind_Inr_iff)

lemma switch_flow_mod:
  assumes "processControlPlanePacket_edge srp_address now new (OfFlowMod fm) a = Inr (a', effs)"
  shows "active_map a' = active_map a \<and>
    (if ag_isTaggingEnabled a then (\<exists>b mt e. socket_msgs effs = [OfPacketIn b mt e]) \<and> map ack_version (socket_msgs effs) = [Some (fm_tag fm)]
     else socket_msgs effs = [])"
  using assms handleFlowModMessage_active
  by (auto simp: processControlPlanePacket_edge_def handleFlowModMessagewithACK_def rbind_Inr_iff ack_version_def
      ack_frame_def fm_tag_def split: if_splits)

lemma switch_vendor:
  assumes "processControlPlanePacket_edge srp_address now new (OfVendor p e) a = Inr (a', effs)"
  shows "active_map a' = active_map a \<and> harmless (socket_msgs effs)"
proof -
  let ?a = "a\<lparr>ag_controlPlanePacket := ag_controlPlanePacket a + 1\<rparr>"
  have run: "handleSRPFromController srp_address e ?a = Inr (a', effs)"
    using assms by (simp add: processControlPlanePacket_edge_def)
  show ?thesis
  proof (cases "\<exists>srp. e = Some (EncSrp srp)")
    case True
    then obtain srp where e: "e = Some (EncSrp srp)" ..
    with run obtain a1 es where one: "handleSRPMsgFromController srp_address srp ?a = Inr (a1, es)" and sig: "receiveSignals es a1 = Inr (a', effs)"
      by (auto simp: handleSRPFromController_def rbind_Inr_iff)
    from one have "active_map a1 = active_map a \<and> (\<forall>f. TableMiss f \<notin> set es)"
      by (auto simp: handleSRPMsgFromController_def Let_def split: option.splits if_splits)
    with receiveSignals_harmless [OF sig] show ?thesis by auto
  next
    case False
    with run show ?thesis
      by (auto simp: handleSRPFromController_def split: option.splits encapsulated.splits)
  qed
qed

lemma switch_activation:
  assumes "processControlPlanePacket_edge srp_address now new (activation v sid) a = Inr (a', effs)"
  shows "active_map a' = smap_put sid v (active_map a) \<and> socket_msgs effs = []"
  using assms by (auto simp: processControlPlanePacket_edge_def activation_def handlePacketOutMessage_edge_def
      activation_frame_def handleMatchVersionMessage_def)

lemma ack_not_srp: "ack_version (OfPacketIn b mt (Some (EncSrp p))) = None"
  by (simp add: ack_version_def)

subsection \<open>What the controller does\<close>

definition simple_paths :: "optimizer \<Rightarrow> bool" where
  "simple_paths optimize \<longleftrightarrow> (\<forall>ds as r. optimize ds as = Some r \<longrightarrow> (\<forall>a \<in> set r. distinct (a_path a)))"

lemma serve_packet_in:
  assumes "serveMessage optimize c version (OfPacketIn b mt e) s = Inr (s', out)"
  shows "packetInSignal optimize c (OfPacketIn b mt e) (s\<lparr>oc_numPacketIn := oc_numPacketIn s + 1\<rparr>) = Inr (s', out)"
  using assms by (auto simp: serveMessage_def processQueuedMsg_def handlePacketIn_def rbind_Inr_iff)

lemma update_simps [simp]:
  fixes s :: "'a opce_scheme"
  shows "deploys (s\<lparr>oc_numPacketIn := x1\<rparr>) s' out ds = deploys s s' out ds"
    "deploys (s\<lparr>op_demandIndex := x2\<rparr>) s' out ds = deploys s s' out ds"
    "deploys (s\<lparr>op_receivedTTDemandCounter := x3\<rparr>) s' out ds = deploys s s' out ds"
    "deploys (s\<lparr>op_allDemands := x4\<rparr>) s' out ds = deploys s s' out ds"
    "deploys (s\<lparr>op_allAssignments := x5\<rparr>) s' out ds = deploys s s' out ds"
    "deploys s' (s\<lparr>oc_numPacketIn := x1\<rparr>) out ds = deploys s' s out ds"
    "deploys s' (s\<lparr>op_demandIndex := x2\<rparr>) out ds = deploys s' s out ds"
    "deploys s' (s\<lparr>op_receivedTTDemandCounter := x3\<rparr>) out ds = deploys s' s out ds"
    "engine_ok (s\<lparr>oc_numPacketIn := x1\<rparr>) = engine_ok s"
    "engine_ok (s\<lparr>op_demandIndex := x2\<rparr>) = engine_ok s"
    "engine_ok (s\<lparr>op_receivedTTDemandCounter := x3\<rparr>) = engine_ok s"
    "engine_ok (s\<lparr>op_allDemands := x4\<rparr>) = engine_ok s"
    "engine_ok (s\<lparr>op_allAssignments := x5\<rparr>) = engine_ok s"
  by (simp_all add: deploys_def same_tables_def next_version_def engine_wf_def conn_index_def findSwitchInfoFor_def
      engine_ok_def tables_ok_def)

lemma engine_ok_none:
  fixes s :: "'a opce_scheme"
  assumes "engine_ok s"
  shows "deploys s s [] []"
  using assms by (intro deploys_none) (auto simp: engine_ok_def no_activation_def)

lemma requestPath_deploys:
  assumes run: "requestPathforTalker optimize ta s = Inr (s', out)" and ok: "engine_ok s"
    and paths: "simple_paths optimize" and orderly: "orderly_step s s'"
  shows "\<exists>ds. deploys s s' out ds"
proof -
  let ?s = "s\<lparr>op_demandIndex := op_demandIndex s + 1, op_receivedTTDemandCounter := op_receivedTTDemandCounter s + 1\<rparr>"
  have quiet: "\<exists>ds. deploys s s [] ds"
    using engine_ok_none [OF ok] by auto
  from run obtain st where st: "getStreambyId (ta_streamID ta) ?s = Inr st"
    by (auto simp: requestPathforTalker_def Let_def rbind_Inr_iff)
  with run obtain i where i: "st_talkerSwInfo st = Some i"
    by (cases "st_talkerSwInfo st") (auto simp: requestPathforTalker_def Let_def)
  with run st have ok1: "si_macAddress (oc_switchesList s ! i) \<noteq> None" "ce_topo s"
    by (auto simp: requestPathforTalker_def Let_def split: if_splits)
  with run st i obtain src dst where
    sw: "si_macAddress (oc_switchesList s ! i) \<noteq> None" "ce_topo s" "si_topoindex (oc_switchesList s ! i) = Some src"
      "Option.bind (find_host (ta_destination ta) (oc_HostProfileTable s)) hp_connectedSw_topo_index = Some dst"
    by (cases "si_topoindex (oc_switchesList s ! i)";
        cases "Option.bind (find_host (ta_destination ta) (oc_HostProfileTable s)) hp_connectedSw_topo_index")
      (auto simp: requestPathforTalker_def Let_def)
  show ?thesis
  proof (cases "int src \<noteq> dst")
    case False
    with run sw st i have "s' = ?s" "out = []"
      by (auto simp: requestPathforTalker_def Let_def)
    then show ?thesis using quiet by simp
  next
    case True
    define d where "d = \<lparr>d_index = op_demandIndex s, d_talker = int src, d_listener = dst, d_service_type = uint (ta_vlan ta),
      d_max_data = demand_rate ta, d_max_latency = 7\<rparr>"
    define r where "r = get_optimal_assignment optimize (op_allDemands s @ [d]) (op_allAssignments s)"
    show ?thesis
    proof (cases "r = []")
      case none: True
      with run sw True st i have "s' = ?s\<lparr>op_demandIndex := op_demandIndex s\<rparr>" "out = []"
        by (auto simp: requestPathforTalker_def Let_def r_def d_def)
      then show ?thesis using quiet by simp
    next
      case some: False
      let ?s1 = "?s\<lparr>op_allDemands := op_allDemands s @ [d], op_allAssignments := r\<rparr>"
      have conf: "configureDataPlane (op_demandIndex s) (ta_streamID ta) r ?s1 = Inr (s', out)"
        using some run sw True st i
        by (auto simp: requestPathforTalker_def Let_def r_def d_def)
      have "\<forall>a \<in> set r. distinct (a_path a)"
        using paths by (cases "optimize (op_allDemands s @ [d]) (map (\<lambda>a. (a_demand_index a, a_path_index a)) (op_allAssignments s))")
          (auto simp: r_def get_optimal_assignment_def simple_paths_def)
      moreover have "orderly_step ?s1 s'"
        using orderly by (simp add: orderly_step_def path_changes_def)
      ultimately show ?thesis
        using configureDataPlane_deploys [OF conf] ok by simp
    qed
  qed
qed

lemma handleAck_step:
  assumes run: "handleAck (findSwitchInfoFor c s) v s = Inr (s', out)" and wf: "engine_wf s"
  obtains t q where "conn_index s c = Some t" and "q = filter (\<lambda>x. x \<noteq> int t) (smap_dflt [] v (ce_AckWaitingPaths s))"
    and "q \<noteq> []" and "s' = s\<lparr>ce_AckWaitingPaths := smap_put v q (ce_AckWaitingPaths s)\<rparr>" and "out = []"
  | t sid d where "conn_index s c = Some t" and "filter (\<lambda>x. x \<noteq> int t) (smap_dflt [] v (ce_AckWaitingPaths s)) = []"
    and "next_version s sid = v" and "out = [(d, activation v sid)]"
    and "\<And>x. next_version s' x = (if x = sid then 0 else next_version s x)"
    and "\<And>w. smap_get w (ce_AckWaitingPaths s') = (if w = v then None else smap_get w (ce_AckWaitingPaths s))"
    and "same_tables s s'" and "engine_wf s'" and "ce_match_version s' = ce_match_version s"
    and "ce_isTaggingEnabled s' = ce_isTaggingEnabled s"
proof -
  from run obtain i t where i: "findSwitchInfoFor c s = Some i" and t: "si_topoindex (oc_switchesList s ! i) = Some t"
    by (auto simp: handleAck_def split: option.splits)
  then have index: "conn_index s c = Some t" by (simp add: conn_index_def)
  let ?q = "filter (\<lambda>x. x \<noteq> int t) (smap_dflt [] v (ce_AckWaitingPaths s))"
  show thesis
  proof (cases "?q = []")
    case False
    with run i t index show thesis by (intro that(1) [of t ?q]) (auto simp: handleAck_def Let_def)
  next
    case True
    with run i t obtain s1 where act: "activateMatchVersion v s = Inr (s1, out)"
      and s': "s' = s1\<lparr>ce_AckWaitingPaths := smap_erase v (ce_AckWaitingPaths s1)\<rparr>"
      by (auto simp: handleAck_def Let_def rbind_Inr_iff)
    then obtain sid info where find: "find (\<lambda>(sid, info). vi_next info = v) (ce_StreamFlowVersionTable s) = Some (sid, info)"
      by (auto simp: activateMatchVersion_def split: option.splits)
    then have "(sid, info) \<in> set (ce_StreamFlowVersionTable s)" and info: "vi_next info = v"
      by (auto simp: find_Some_iff) (metis nth_mem)+
    then have get: "smap_get sid (ce_StreamFlowVersionTable s) = Some info"
      using wf by (simp add: smap_entries_get engine_wf_def)
    from act find obtain d y where out: "out = [(d, activation v sid)]"
      and s1: "s1 = s\<lparr>ce_StreamFlowVersionTable := smap_put sid \<lparr>vi_next = 0, vi_current = v\<rparr> (ce_StreamFlowVersionTable s),
                ce_IngressSwTable := y\<rparr>"
      by (auto simp: activateMatchVersion_def Let_def rbind_Inr_iff activation_def)
    show thesis
      using wf get info True index out
      by (intro that(2) [of t sid d]) (auto simp: s' s1 next_version_def smap_get_put smap_get_erase smap_put_wf
          smap_erase_wf engine_wf_def same_tables_def)
  qed
qed

subsection \<open>The invariant\<close>

text \<open>All flow modifications with this version have reached the tables they were sent to.\<close>

definition all_handled :: "network \<Rightarrow> 16 word \<Rightarrow> bool" where
  "all_handled n v \<longleftrightarrow> (\<forall>(c, fm) \<in> set (nw_sent n). fm_tag fm = v \<longrightarrow> (c, fm) \<in> set (nw_handled n))"

text \<open>The version is, or is about to become, the active one of a stream at some switch.\<close>

definition claimed :: "network \<Rightarrow> 16 word \<Rightarrow> 64 word \<Rightarrow> bool" where
  "claimed n v sid \<longleftrightarrow> (\<exists>c. activation v sid \<in> set (nw_down n c) \<or> smap_get sid (active_map (nw_switch n c)) = Some v)"

text \<open>Connections belong to different switches.\<close>

definition one_connection :: "'a of_controller_scheme \<Rightarrow> bool" where
  "one_connection s \<longleftrightarrow> (\<forall>c d i. conn_index s c = Some i \<longrightarrow> conn_index s d = Some i \<longrightarrow> c = d)"

definition channels_ok :: "network \<Rightarrow> bool" where
  "channels_ok n \<longleftrightarrow>
     (\<forall>c. \<forall>m \<in> set (nw_up n c). \<exists>b mt e. m = OfPacketIn b mt e)
     \<and> (\<forall>c. \<forall>m \<in> set (nw_down n c). from_controller m)
     \<and> (\<forall>c fm. OfFlowMod fm \<in> set (nw_down n c) \<longrightarrow> (c, fm) \<in> set (nw_sent n))
     \<and> (\<forall>c. smap_wf (active_map (nw_switch n c)))"

definition sent_ok :: "network \<Rightarrow> bool" where
  "sent_ok n \<longleftrightarrow>
     distinct (map tag_key (nw_sent n))
     \<and> (\<forall>(c, fm) \<in> set (nw_sent n). fm_tag fm \<noteq> 0 \<and> fm_tag fm < ce_match_version (nw_ctl n))"

definition waiting_ok :: "network \<Rightarrow> bool" where
  "waiting_ok n \<longleftrightarrow>
     (\<forall>(c, fm) \<in> set (nw_sent n). (c, fm) \<notin> set (nw_handled n) \<longrightarrow>
        (\<exists>i q. conn_index (nw_ctl n) c = Some i \<and> smap_get (fm_tag fm) (ce_AckWaitingPaths (nw_ctl n)) = Some q \<and> int i \<in> set q))"

definition acks_ok :: "network \<Rightarrow> bool" where
  "acks_ok n \<longleftrightarrow>
     (\<forall>c m v. m \<in> set (nw_up n c) \<longrightarrow> ack_version m = Some v \<longrightarrow> v \<noteq> 0 \<and> v < ce_match_version (nw_ctl n)
        \<and> (\<forall>fm. (c, fm) \<in> set (nw_sent n) \<longrightarrow> fm_tag fm = v \<longrightarrow> (c, fm) \<in> set (nw_handled n)))"

definition active_ok :: "network \<Rightarrow> bool" where
  "active_ok n \<longleftrightarrow>
     (\<forall>v sid. claimed n v sid \<longrightarrow> v \<noteq> 0 \<longrightarrow> v < ce_match_version (nw_ctl n)
        \<and> (\<exists>p. nw_plan n v = Some (sid, p)) \<and> all_handled n v)"

definition plan_ok :: "network \<Rightarrow> bool" where
  "plan_ok n \<longleftrightarrow>
     (\<forall>v. v \<noteq> 0 \<longrightarrow> v < ce_match_version (nw_ctl n) \<longrightarrow>
        (\<exists>sid p. nw_plan n v = Some (sid, p) \<and> p \<noteq> []
          \<and> (\<forall>x \<in> set p. \<exists>c fm i. (c, fm) \<in> set (nw_sent n) \<and> fm_tag fm = v \<and> conn_index (nw_ctl n) c = Some i \<and> x = int i)))
     \<and> (\<forall>sid v. next_version (nw_ctl n) sid = v \<longrightarrow> v \<noteq> 0 \<longrightarrow> v < ce_match_version (nw_ctl n) \<and> (\<exists>p. nw_plan n v = Some (sid, p)))"

definition net_inv :: "network \<Rightarrow> bool" where
  "net_inv n \<longleftrightarrow> engine_ok (nw_ctl n) \<and> one_connection (nw_ctl n) \<and> channels_ok n \<and> sent_ok n \<and> waiting_ok n
     \<and> acks_ok n \<and> active_ok n \<and> plan_ok n"

lemmas net_inv_parts = channels_ok_def sent_ok_def waiting_ok_def acks_ok_def active_ok_def plan_ok_def

lemma data_frame_inv:
  assumes inv: "net_inv n" and run: "dataPlaneIn now f (nw_switch n c) = Inr (a, effs)" and ord: "ordinary f"
  shows "net_inv (n\<lparr>nw_switch := (nw_switch n)(c := a), nw_up := (nw_up n)(c := nw_up n c @ socket_msgs effs)\<rparr>)" (is "net_inv ?n")
proof -
  have "smap_wf (active_map (nw_switch n c))"
    using inv by (simp add: net_inv_def channels_ok_def)
  note step = dataPlaneIn_step [OF run ord this]
  have claims: "claimed ?n v sid \<Longrightarrow> v \<noteq> 0 \<Longrightarrow> claimed n v sid" for v sid
    using step by (auto simp: claimed_def split: if_splits)
  have "channels_ok ?n"
    using inv step by (auto simp: net_inv_def channels_ok_def harmless_def)
  moreover have "acks_ok ?n"
    using inv step by (auto simp: net_inv_def acks_ok_def harmless_def)
  moreover have "active_ok ?n"
    using inv claims unfolding net_inv_def active_ok_def by (fastforce simp: all_handled_def)
  moreover have "sent_ok ?n" "waiting_ok ?n" "plan_ok ?n"
    using inv by (simp_all add: net_inv_def sent_ok_def waiting_ok_def plan_ok_def)
  ultimately show ?thesis using inv by (simp add: net_inv_def)
qed

lemma switch_serves_inv:
  assumes inv: "net_inv n" and head: "nw_down n c = m # ms"
    and run: "processControlPlanePacket_edge srp_address now new m (nw_switch n c) = Inr (a, effs)"
    and H: "H = (case m of OfFlowMod fm \<Rightarrow> if ag_isTaggingEnabled (nw_switch n c) then [(c, fm)] else [] | _ \<Rightarrow> [])"
  shows "net_inv (n\<lparr>nw_switch := (nw_switch n)(c := a), nw_down := (nw_down n)(c := ms),
      nw_up := (nw_up n)(c := nw_up n c @ socket_msgs effs), nw_handled := nw_handled n @ H\<rparr>)" (is "net_inv ?n")
proof -
  let ?b = "nw_switch n c"
  have sent: "OfFlowMod fm = m \<Longrightarrow> (c, fm) \<in> set (nw_sent n)" for fm
    using inv head by (auto simp: net_inv_def channels_ok_def)
  have wf: "smap_wf (active_map ?b)" using inv by (simp add: net_inv_def channels_ok_def)
  have "m \<in> set (nw_down n c)" using head by simp
  then have "from_controller m" using inv unfolding net_inv_def channels_ok_def by blast
  then consider (mod) fm where "m = OfFlowMod fm" | (vendor) p e where "m = OfVendor p e" | (act) v sid where "m = activation v sid"
    by (auto simp: from_controller_def)
  then have step: "smap_wf (active_map a)
      \<and> (\<forall>sid v. smap_get sid (active_map a) = Some v \<longrightarrow> smap_get sid (active_map ?b) = Some v \<or> m = activation v sid)
      \<and> (\<forall>m' \<in> set (socket_msgs effs). (\<exists>b mt e. m' = OfPacketIn b mt e)
          \<and> (\<forall>v. ack_version m' = Some v \<longrightarrow> (\<exists>fm. m = OfFlowMod fm \<and> v = fm_tag fm \<and> H = [(c, fm)])))"
  proof cases
    case mod
    from switch_flow_mod [OF run [unfolded mod]] wf H mod show ?thesis by (auto split: if_splits)
  next
    case vendor
    from switch_vendor [OF run [unfolded vendor]] wf show ?thesis by (auto simp: harmless_def)
  next
    case act
    from switch_activation [OF run [unfolded act]] wf act show ?thesis
      by (auto simp: smap_put_wf smap_get_put split: if_splits)
  qed
  have claims: "claimed n v sid" if cl: "claimed ?n v sid" for v sid
  proof -
    from cl obtain d where "activation v sid \<in> set (nw_down ?n d) \<or> smap_get sid (active_map (nw_switch ?n d)) = Some v"
      by (auto simp: claimed_def)
    then have "activation v sid \<in> set (nw_down n d) \<or> smap_get sid (active_map (nw_switch n d)) = Some v"
      using step head by (cases "d = c") auto
    then show ?thesis by (auto simp: claimed_def)
  qed
  have more: "all_handled n v \<Longrightarrow> all_handled ?n v" for v
    by (auto simp: all_handled_def)
  have "set ms \<subseteq> set (nw_down n c)" using head by auto
  then have "channels_ok ?n"
    using inv step by (fastforce simp: net_inv_def channels_ok_def subset_iff)
  moreover have "acks_ok ?n"
    unfolding acks_ok_def
  proof (intro allI impI)
    fix d m' v
    assume m': "m' \<in> set (nw_up ?n d)" and ack: "ack_version m' = Some v"
    show "v \<noteq> 0 \<and> v < ce_match_version (nw_ctl ?n)
        \<and> (\<forall>fm. (d, fm) \<in> set (nw_sent ?n) \<longrightarrow> fm_tag fm = v \<longrightarrow> (d, fm) \<in> set (nw_handled ?n))"
    proof (cases "m' \<in> set (nw_up n d)")
      case True
      then show ?thesis using inv ack by (auto simp: net_inv_def acks_ok_def)
    next
      case False
      with m' have d: "d = c" and "m' \<in> set (socket_msgs effs)" by (auto split: if_splits)
      with step ack obtain fm where fm: "m = OfFlowMod fm" "v = fm_tag fm" and H': "H = [(c, fm)]" by blast
      have mem: "(c, fm) \<in> set (nw_sent n)" using sent fm by simp
      have inj: "inj_on tag_key (set (nw_sent n))"
        using inv by (simp add: net_inv_def sent_ok_def distinct_map)
      have "fm' = fm" if "(c, fm') \<in> set (nw_sent n)" "fm_tag fm' = v" for fm'
        using inj_onD [OF inj _ that(1) mem] that(2) fm(2) by (simp add: tag_key_def)
      then have "\<forall>fm'. (c, fm') \<in> set (nw_sent n) \<longrightarrow> fm_tag fm' = v \<longrightarrow> (c, fm') \<in> set (nw_handled n @ H)"
        by (simp add: H')
      moreover have "v \<noteq> 0 \<and> v < ce_match_version (nw_ctl n)"
        using inv mem fm(2) by (auto simp: net_inv_def sent_ok_def)
      ultimately show ?thesis by (simp add: d)
    qed
  qed
  moreover have "active_ok ?n"
    using inv claims more unfolding net_inv_def active_ok_def by fastforce
  moreover have "waiting_ok ?n"
    using inv by (auto simp: net_inv_def waiting_ok_def)
  moreover have "sent_ok ?n" "plan_ok ?n"
    using inv by (simp_all add: net_inv_def sent_ok_def plan_ok_def)
  ultimately show ?thesis using inv by (simp add: net_inv_def)
qed

lemma to_conn_mem: "m \<in> set (to_conn c out) \<longleftrightarrow> (c, m) \<in> set out"
  by (force simp: to_conn_def)

text \<open>The controller gives out versions.\<close>

lemma deploys_plan_ok:
  assumes inv: "net_inv n" and dep: "deploys (nw_ctl n) s' out ds"
  shows "plan_ok (n\<lparr>nw_ctl := s', nw_up := up, nw_down := down,
      nw_sent := nw_sent n @ flow_mods out, nw_plan := new_plan (nw_ctl n) s' (nw_plan n)\<rparr>)"
proof -
  let ?s = "nw_ctl n" and ?num = "ce_match_version (nw_ctl n)"
  have ok: "engine_ok ?s" and plan: "plan_ok n"
    using inv by (simp_all add: net_inv_def)
  have num: "?num \<le> ce_match_version s'" and pos: "?num \<noteq> 0"
    using dep ok by (auto simp: deploys_def word_le_nat_alt engine_ok_def)
  have index: "conn_index s' = conn_index ?s"
    using dep by (intro same_tables_index) (simp add: deploys_def)
  note vers = deploys_version [OF dep]
  have old_next: "v < ?num" if "next_version ?s sid = v" "v \<noteq> 0" for sid v
    using plan that by (auto simp: plan_ok_def)
  have nth: "ds ! k = (v, sid, p) \<Longrightarrow> k < length ds \<Longrightarrow> unat v = unat ?num + k" for k v sid p
    using dep by (auto simp: deploys_def)
  have unique: "sid' = sid" if d: "(v, sid, p) \<in> set ds" and nxt: "next_version s' sid' = v" for v sid p sid'
  proof (cases "sid' \<in> (fst \<circ> snd) ` set ds")
    case True
    then obtain w q where w: "(w, sid', q) \<in> set ds" by auto
    with dep have "next_version s' sid' = w" by (fastforce simp: deploys_def)
    with nxt w have "(v, sid', q) \<in> set ds" by simp
    then obtain j where j: "j < length ds" "ds ! j = (v, sid', q)" by (auto simp: in_set_conv_nth)
    moreover obtain k where k: "k < length ds" "ds ! k = (v, sid, p)" using d by (auto simp: in_set_conv_nth)
    ultimately have "j = k" using nth [of j v sid' q] nth [of k v sid p] by simp
    with j k show ?thesis by simp
  next
    case False
    then have "next_version ?s sid' = v" using deploys_other(2) [OF dep] nxt by simp
    moreover have "?num \<le> v" using vers [OF d] by simp
    moreover have "v \<noteq> 0" using vers(1) [OF d] pos by (auto simp: word_le_nat_alt unat_eq_0)
    ultimately show ?thesis using old_next by fastforce
  qed
  have new_plan: "new_plan ?s s' (nw_plan n) v = Some (sid, p)" if d: "(v, sid, p) \<in> set ds" for v sid p
  proof -
    have facts: "smap_get v (ce_AckWaitingPaths s') = Some p" "next_version s' sid = v" and wf: "engine_wf s'"
      using dep d by (fastforce simp: deploys_def)+
    have v: "v \<noteq> 0" using vers(1) [OF d] pos by (auto simp: word_le_nat_alt unat_eq_0)
    let ?P = "\<lambda>(sid, i). vi_next i = v"
    have "find ?P (ce_StreamFlowVersionTable s') \<noteq> None"
      using facts(2) v wf by (auto simp: find_None_iff next_version_def engine_wf_def smap_entries_get split: option.splits)
    then obtain sid' i where find: "find ?P (ce_StreamFlowVersionTable s') = Some (sid', i)" by auto
    then have "(sid', i) \<in> set (ce_StreamFlowVersionTable s')" "vi_next i = v"
      by (auto simp: find_Some_iff) (metis nth_mem)+
    with wf have "next_version s' sid' = v" by (simp add: next_version_def engine_wf_def smap_entries_get)
    with unique [OF d] have "sid' = sid" by simp
    with find facts vers [OF d] show ?thesis by (simp add: new_plan_def)
  qed
  have old_plan: "new_plan ?s s' (nw_plan n) v = nw_plan n v" if "v < ?num" for v
    using that by (auto simp: new_plan_def)
  have given: "\<exists>sid p. (v, sid, p) \<in> set ds" if "?num \<le> v" "v < ce_match_version s'" for v
  proof -
    let ?k = "unat v - unat ?num"
    have "?k < length ds" and "unat ?num + ?k = unat v"
      using that dep by (auto simp: deploys_def word_le_nat_alt word_less_nat_alt)
    moreover have "unat (fst (ds ! k)) = unat ?num + k" if "k < length ds" for k
      using dep that by (simp add: deploys_def)
    ultimately have "unat (fst (ds ! ?k)) = unat v" and "ds ! ?k \<in> set ds" by simp_all
    then have "fst (ds ! ?k) = v" and "ds ! ?k \<in> set ds" by (simp_all add: word_unat_eq_iff)
    then show ?thesis by (metis prod.collapse)
  qed
  have "\<exists>sid p. new_plan ?s s' (nw_plan n) v = Some (sid, p) \<and> p \<noteq> []
        \<and> (\<forall>x \<in> set p. \<exists>c fm. ((c, fm) \<in> set (nw_sent n) \<or> (c, fm) \<in> set (flow_mods out)) \<and> fm_tag fm = v
             \<and> (\<exists>i. conn_index s' c = Some i \<and> x = int i))" if v: "v \<noteq> 0" "v < ce_match_version s'" for v
    proof (cases "v < ?num")
      case True
      with v plan old_plan index show ?thesis unfolding plan_ok_def by fastforce
    next
      case False
      with v given obtain sid p where d: "(v, sid, p) \<in> set ds" by fastforce
      have "p \<noteq> []" "\<forall>x \<in> set p. \<exists>c fm i. (c, fm) \<in> set (flow_mods out) \<and> fm_tag fm = v \<and> conn_index ?s c = Some i \<and> x = int i"
        using dep d by (fastforce simp: deploys_def)+
      with new_plan [OF d] index show ?thesis by fastforce
    qed
  moreover have "next_version s' sid < ce_match_version s' \<and> (\<exists>p. new_plan ?s s' (nw_plan n) (next_version s' sid) = Some (sid, p))"
    if n0: "next_version s' sid \<noteq> 0" for sid
    proof (cases "sid \<in> (fst \<circ> snd) ` set ds")
      case True
      then obtain v p where d: "(v, sid, p) \<in> set ds" by auto
      with dep have "next_version s' sid = v" by (fastforce simp: deploys_def)
      with new_plan [OF d] vers [OF d] show ?thesis by simp
    next
      case False
      then have "next_version s' sid = next_version ?s sid" using deploys_other(2) [OF dep] by simp
      with n0 plan num old_plan show ?thesis unfolding plan_ok_def by fastforce
    qed
  ultimately show ?thesis unfolding plan_ok_def by simp
qed

lemma deploys_inv:
  assumes inv: "net_inv n" and dep: "deploys (nw_ctl n) s' out ds" and sub: "\<forall>c. set (up c) \<subseteq> set (nw_up n c)"
  shows "net_inv (n\<lparr>nw_ctl := s', nw_up := up, nw_down := (\<lambda>d. nw_down n d @ to_conn d out),
      nw_sent := nw_sent n @ flow_mods out, nw_plan := new_plan (nw_ctl n) s' (nw_plan n)\<rparr>)" (is "net_inv ?n")
proof -
  let ?s = "nw_ctl n" and ?num = "ce_match_version (nw_ctl n)"
  have ok: "engine_ok ?s" and parts: "channels_ok n" "sent_ok n" "waiting_ok n" "acks_ok n" "active_ok n" "plan_ok n"
    using inv by (simp_all add: net_inv_def)
  have num: "?num \<le> ce_match_version s'" and pos: "?num \<noteq> 0"
    using dep ok by (auto simp: deploys_def word_le_nat_alt engine_ok_def)
  have index: "conn_index s' = conn_index ?s"
    using dep by (intro same_tables_index) (simp add: deploys_def)
  note vers = deploys_version [OF dep]
  have new: "\<exists>sid p i. (fm_tag fm, sid, p) \<in> set ds \<and> conn_index ?s c = Some i \<and> int i \<in> set p" if "(c, fm) \<in> set (flow_mods out)" for c fm
    using dep that by (fastforce simp: deploys_def)
  then have new_tag: "?num \<le> fm_tag fm \<and> fm_tag fm < ce_match_version s'" if "(c, fm) \<in> set (flow_mods out)" for c fm
    using vers that by blast
  have old_ack: "smap_get v (ce_AckWaitingPaths s') = smap_get v (ce_AckWaitingPaths ?s)" if "v < ?num" for v
    using deploys_other(1) [OF dep, of v] vers that by force
  have old_plan: "new_plan ?s s' (nw_plan n) v = nw_plan n v" if "v < ?num" for v
    using that by (auto simp: new_plan_def)
  have all: "all_handled ?n v \<longleftrightarrow> all_handled n v" if "v < ?num" for v
    using that by (fastforce simp: all_handled_def dest!: new_tag)
  have no_act: "activation v sid \<notin> set (to_conn d out)" for v sid d
    using dep by (auto simp: to_conn_mem deploys_def no_activation_def activation_def)
  have "channels_ok ?n"
  proof -
    have "from_controller m" if "m \<in> set (to_conn c out)" for c m
      using dep that by (fastforce simp: to_conn_mem deploys_def no_activation_def from_controller_def)
    with parts(1) sub show ?thesis
      unfolding channels_ok_def by (auto simp: to_conn_mem flow_mods_mem subset_iff) blast+
  qed
  moreover have "sent_ok ?n"
  proof -
    have "fm_tag fm < ?num" if "(c, fm) \<in> set (nw_sent n)" for c fm
      using parts(2) that by (auto simp: sent_ok_def)
    then have "tag_key x \<noteq> tag_key y" if "x \<in> set (nw_sent n)" "y \<in> set (flow_mods out)" for x y
      using new_tag that by (cases x; cases y) (fastforce simp: tag_key_def)
    then have "tag_key ` set (nw_sent n) \<inter> tag_key ` set (flow_mods out) = {}" by blast
    moreover have "distinct (map tag_key (flow_mods out))" using dep by (simp add: deploys_def)
    moreover have "fm_tag fm \<noteq> 0" if "(c, fm) \<in> set (flow_mods out)" for c fm
      using new_tag [OF that] pos by (auto simp: word_le_nat_alt unat_eq_0)
    ultimately show ?thesis
      using parts(2) new_tag num by (fastforce simp: sent_ok_def)
  qed
  moreover have "waiting_ok ?n"
    unfolding waiting_ok_def
  proof clarsimp
    fix c fm
    assume mem: "(c, fm) \<in> set (nw_sent n) \<or> (c, fm) \<in> set (flow_mods out)" and un: "(c, fm) \<notin> set (nw_handled n)"
    show "\<exists>i. conn_index s' c = Some i \<and> (\<exists>q. smap_get (fm_tag fm) (ce_AckWaitingPaths s') = Some q \<and> int i \<in> set q)"
    proof (cases "(c, fm) \<in> set (nw_sent n)")
      case True
      with parts(2,3) un old_ack index show ?thesis by (fastforce simp: sent_ok_def waiting_ok_def)
    next
      case False
      with mem new obtain sid p i where "(fm_tag fm, sid, p) \<in> set ds" "conn_index ?s c = Some i" "int i \<in> set p" by blast
      with dep index show ?thesis by (fastforce simp: deploys_def)
    qed
  qed
  moreover have "acks_ok ?n"
    unfolding acks_ok_def
  proof (intro allI impI)
    fix c m v
    assume m: "m \<in> set (nw_up ?n c)" and ack: "ack_version m = Some v"
    from m sub have "m \<in> set (nw_up n c)" by auto
    with ack parts(4) have "v \<noteq> 0 \<and> v < ?num \<and> (\<forall>fm. (c, fm) \<in> set (nw_sent n) \<longrightarrow> fm_tag fm = v \<longrightarrow> (c, fm) \<in> set (nw_handled n))"
      by (auto simp: acks_ok_def)
    with new_tag num show "v \<noteq> 0 \<and> v < ce_match_version (nw_ctl ?n)
        \<and> (\<forall>fm. (c, fm) \<in> set (nw_sent ?n) \<longrightarrow> fm_tag fm = v \<longrightarrow> (c, fm) \<in> set (nw_handled ?n))"
      by (fastforce dest: leD)
  qed
  moreover have "active_ok ?n"
    unfolding active_ok_def
  proof (intro allI impI)
    fix v sid
    assume "claimed ?n v sid" "v \<noteq> 0"
    then have "claimed n v sid" using no_act by (auto simp: claimed_def)
    with \<open>v \<noteq> 0\<close> parts(5) have "v < ?num" "\<exists>p. nw_plan n v = Some (sid, p)" "all_handled n v"
      by (auto simp: active_ok_def)
    with num old_plan all show "v < ce_match_version (nw_ctl ?n) \<and> (\<exists>p. nw_plan ?n v = Some (sid, p)) \<and> all_handled ?n v"
      by auto
  qed
  moreover have "plan_ok ?n"
    by (rule deploys_plan_ok [OF inv dep])
  moreover have "engine_ok s'" by (rule deploys_ok [OF dep ok])
  moreover have "one_connection s'" using inv index by (simp add: net_inv_def one_connection_def)
  ultimately show ?thesis by (simp add: net_inv_def)
qed

text \<open>The controller serves an acknowledgement.\<close>

lemma activation_inject [simp]: "activation v sid = activation w tid \<longleftrightarrow> v = w \<and> sid = tid"
  by (auto simp: activation_def activation_frame_def)

lemma handleAck_summary:
  assumes run: "handleAck (findSwitchInfoFor c s) v s = Inr (s', out)" and wf: "engine_wf s"
  shows "same_tables s s' \<and> engine_wf s' \<and> ce_match_version s' = ce_match_version s \<and> ce_isTaggingEnabled s' = ce_isTaggingEnabled s
      \<and> flow_mods out = []"
    and "next_version s' y = w \<Longrightarrow> w \<noteq> 0 \<Longrightarrow> next_version s y = w"
    and "smap_get w (ce_AckWaitingPaths s) = Some q \<Longrightarrow> int i \<in> set q \<Longrightarrow> w \<noteq> v \<or> conn_index s c \<noteq> Some i \<Longrightarrow>
           \<exists>q. smap_get w (ce_AckWaitingPaths s') = Some q \<and> int i \<in> set q"
    and "(d, m) \<in> set out \<Longrightarrow> \<exists>sid. m = activation v sid \<and> next_version s sid = v
           \<and> (\<forall>i q. smap_get v (ce_AckWaitingPaths s) = Some q \<longrightarrow> int i \<in> set q \<longrightarrow> conn_index s c = Some i)"
proof -
  show "same_tables s s' \<and> engine_wf s' \<and> ce_match_version s' = ce_match_version s \<and> ce_isTaggingEnabled s' = ce_isTaggingEnabled s
      \<and> flow_mods out = []"
    using wf by (rule_tac handleAck_step [OF run wf]) (auto simp: same_tables_def engine_wf_def smap_put_wf activation_def)
  show "next_version s y = w" if "next_version s' y = w" "w \<noteq> 0"
    using that by (rule_tac handleAck_step [OF run wf]) (auto simp: next_version_def split: if_splits)
  show "\<exists>q. smap_get w (ce_AckWaitingPaths s') = Some q \<and> int i \<in> set q"
    if "smap_get w (ce_AckWaitingPaths s) = Some q" "int i \<in> set q" "w \<noteq> v \<or> conn_index s c \<noteq> Some i"
    using that wf by (rule_tac handleAck_step [OF run wf])
      (auto simp: smap_get_put engine_wf_def smap_dflt_def filter_empty_conv split: option.splits)
  show "\<exists>sid. m = activation v sid \<and> next_version s sid = v
      \<and> (\<forall>i q. smap_get v (ce_AckWaitingPaths s) = Some q \<longrightarrow> int i \<in> set q \<longrightarrow> conn_index s c = Some i)" if "(d, m) \<in> set out"
    using that by (rule_tac handleAck_step [OF run wf])
      (cases "smap_get v (ce_AckWaitingPaths s)"; auto simp: smap_dflt_def filter_empty_conv)+
qed

lemma handleAck_inv:
  assumes inv: "net_inv n" and head: "nw_up n c = m # ms" and ack: "ack_version m = Some v"
    and run: "handleAck (findSwitchInfoFor c s) v s = Inr (s', out)"
    and s: "s = (nw_ctl n)\<lparr>oc_numPacketIn := x\<rparr>"
  shows "net_inv (n\<lparr>nw_ctl := s', nw_up := (nw_up n)(c := ms), nw_down := (\<lambda>d. nw_down n d @ to_conn d out),
      nw_sent := nw_sent n @ flow_mods out, nw_plan := new_plan (nw_ctl n) s' (nw_plan n)\<rparr>)" (is "net_inv ?n")
proof -
  have parts: "channels_ok n" "sent_ok n" "waiting_ok n" "acks_ok n" "active_ok n" "plan_ok n" "one_connection (nw_ctl n)" "engine_ok (nw_ctl n)"
    using inv by (simp_all add: net_inv_def)
  have mem: "m \<in> set (nw_up n c)" and sub: "set ms \<subseteq> set (nw_up n c)" using head by auto
  have v: "v \<noteq> 0" "v < ce_match_version (nw_ctl n)"
    and acked: "\<And>fm. (c, fm) \<in> set (nw_sent n) \<Longrightarrow> fm_tag fm = v \<Longrightarrow> (c, fm) \<in> set (nw_handled n)"
    using parts(4) mem ack unfolding acks_ok_def by blast+
  have fields: "conn_index s = conn_index (nw_ctl n)" "next_version s = next_version (nw_ctl n)"
    "ce_AckWaitingPaths s = ce_AckWaitingPaths (nw_ctl n)" "ce_match_version s = ce_match_version (nw_ctl n)" and ok: "engine_ok s"
    using parts(8) by (auto simp: s conn_index_def next_version_def findSwitchInfoFor_def fun_eq_iff)
  then have wf: "engine_wf s" by (simp add: engine_ok_def)
  note sum = handleAck_summary [OF run wf, unfolded fields]
  have index: "conn_index s' = conn_index (nw_ctl n)"
    using sum(1) same_tables_index [of s s'] fields(1) by simp
  have plan: "new_plan (nw_ctl n) s' (nw_plan n) = nw_plan n"
    using sum(1) by (auto simp: new_plan_def fun_eq_iff)
  have ok': "engine_ok s'"
    using sum(1) ok same_tables_ok [of s s'] fields by (auto simp: engine_ok_def)
  have acts: "\<exists>sid. m' = activation v sid \<and> next_version (nw_ctl n) sid = v
      \<and> (\<forall>i q. smap_get v (ce_AckWaitingPaths (nw_ctl n)) = Some q \<longrightarrow> int i \<in> set q \<longrightarrow> conn_index (nw_ctl n) c = Some i)"
    if "m' \<in> set (to_conn d out)" for d m'
    using sum(4) that by (simp add: to_conn_mem)
  have "channels_ok ?n"
  proof -
    have "from_controller m'" if "m' \<in> set (to_conn d out)" for d m'
      using acts [OF that] by (auto simp: from_controller_def)
    moreover have "OfFlowMod fm \<notin> set (to_conn d out)" for d fm
      using acts [of "OfFlowMod fm" d] by (auto simp: activation_def)
    moreover have "\<exists>b mt e. m' = OfPacketIn b mt e" if "m' \<in> set ms" for m'
      using that sub parts(1) unfolding channels_ok_def by blast
    ultimately show ?thesis
      using parts(1) sum(1) by (auto simp: channels_ok_def)
  qed
  moreover have "sent_ok ?n" using parts(2) sum(1) by (simp add: sent_ok_def)
  moreover have "waiting_ok ?n"
    unfolding waiting_ok_def
  proof clarify
    fix d fm
    assume "(d, fm) \<in> set (nw_sent ?n)" and un: "(d, fm) \<notin> set (nw_handled ?n)"
    then have sent: "(d, fm) \<in> set (nw_sent n)" using sum(1) by simp
    with un parts(3) obtain i q where iq: "conn_index (nw_ctl n) d = Some i"
      "smap_get (fm_tag fm) (ce_AckWaitingPaths (nw_ctl n)) = Some q" "int i \<in> set q"
      by (fastforce simp: waiting_ok_def)
    have "fm_tag fm \<noteq> v \<or> conn_index (nw_ctl n) c \<noteq> Some i"
      using acked sent un iq(1) parts(7) by (fastforce simp: one_connection_def)
    from sum(3) [OF iq(2,3) this] iq(1) index
    show "\<exists>i q. conn_index (nw_ctl ?n) d = Some i \<and> smap_get (fm_tag fm) (ce_AckWaitingPaths (nw_ctl ?n)) = Some q \<and> int i \<in> set q"
      by simp
  qed
  moreover have "acks_ok ?n"
    using parts(4) sub sum(1) by (auto simp: acks_ok_def subset_iff split: if_splits)
  moreover have "active_ok ?n"
    unfolding active_ok_def
  proof (intro allI impI)
    fix w sid
    assume cl: "claimed ?n w sid" and w: "w \<noteq> 0"
    show "w < ce_match_version (nw_ctl ?n) \<and> (\<exists>p. nw_plan ?n w = Some (sid, p)) \<and> all_handled ?n w"
    proof (cases "claimed n w sid")
      case True
      with w parts(5) sum(1) plan show ?thesis by (auto simp: active_ok_def all_handled_def)
    next
      case False
      with cl obtain d where "activation w sid \<in> set (to_conn d out)" by (auto simp: claimed_def)
      from acts [OF this] have wv: "w = v" and "next_version (nw_ctl n) sid = v"
        and last: "\<And>i q. smap_get v (ce_AckWaitingPaths (nw_ctl n)) = Some q \<Longrightarrow> int i \<in> set q \<Longrightarrow> conn_index (nw_ctl n) c = Some i"
        by auto
      with parts(6) v have "\<exists>p. nw_plan n v = Some (sid, p)" by (auto simp: plan_ok_def)
      moreover have "(d, fm) \<in> set (nw_handled n)" if "(d, fm) \<in> set (nw_sent n)" "fm_tag fm = v" for d fm
      proof (rule ccontr)
        assume un: "(d, fm) \<notin> set (nw_handled n)"
        with that parts(3) obtain i q where "conn_index (nw_ctl n) d = Some i"
          "smap_get v (ce_AckWaitingPaths (nw_ctl n)) = Some q" "int i \<in> set q"
          by (fastforce simp: waiting_ok_def)
        with last parts(7) have "d = c" by (auto simp: one_connection_def)
        with acked that un show False by simp
      qed
      ultimately show ?thesis
        using v sum(1) plan by (auto simp: wv all_handled_def)
    qed
  qed
  moreover have "plan_ok ?n"
    using parts(6) sum(1,2) plan index unfolding plan_ok_def by simp (metis sum(2))
  moreover have "one_connection s'" using parts(7) index by (simp add: one_connection_def)
  ultimately show ?thesis using ok' by (simp add: net_inv_def)
qed

subsection \<open>No version before its rules\<close>

lemma controller_serves_inv:
  assumes inv: "net_inv n" and head: "nw_up n c = m # ms" and paths: "simple_paths optimize"
    and run: "serveMessage optimize c version m (nw_ctl n) = Inr (s', out)" and orderly: "orderly_step (nw_ctl n) s'"
  shows "net_inv (n\<lparr>nw_ctl := s', nw_up := (nw_up n)(c := ms), nw_down := (\<lambda>d. nw_down n d @ to_conn d out),
      nw_sent := nw_sent n @ flow_mods out, nw_plan := new_plan (nw_ctl n) s' (nw_plan n)\<rparr>)"
proof -
  define s where "s = (nw_ctl n)\<lparr>oc_numPacketIn := oc_numPacketIn (nw_ctl n) + 1\<rparr>"
  have mem: "m \<in> set (nw_up n c)" and sub: "set ms \<subseteq> set (nw_up n c)" using head by auto
  then obtain b mt e where m: "m = OfPacketIn b mt e"
    using inv unfolding net_inv_def channels_ok_def by blast
  then have sig: "packetInSignal optimize c m s = Inr (s', out)"
    using serve_packet_in run s_def by simp
  show ?thesis
  proof (cases "ack_version m")
    case (Some v)
    then have "handleRequest optimize c m s = Inr (s, [])"
      by (auto simp: handleRequest_def ack_version_def m split: option.splits encapsulated.splits)
    with sig Some have "handleAck (findSwitchInfoFor c s) v s = Inr (s', out)"
      by (auto simp: packetInSignal_def receivePacketIn_def rbind_Inr_iff)
    from handleAck_inv [OF inv head Some this] s_def show ?thesis by simp
  next
    case None
    with sig have req: "handleRequest optimize c m s = Inr (s', out)"
      by (auto simp: packetInSignal_def receivePacketIn_def rbind_Inr_iff)
    have ok: "engine_ok s" using inv by (simp add: net_inv_def s_def)
    have "\<exists>ds. deploys s s' out ds"
    proof (cases "\<exists>srp ta. e = Some (EncSrp srp) \<and> as_talker srp = Some ta")
      case True
      then obtain srp ta where "e = Some (EncSrp srp)" "as_talker srp = Some ta" by blast
      with req have run': "requestPathforTalker optimize ta (saveTalker c mt ta s) = Inr (s', out)"
        by (simp add: handleRequest_def m)
      have "orderly_step (saveTalker c mt ta s) s'" "engine_ok (saveTalker c mt ta s)"
        using orderly ok by (simp_all add: saveTalker_def addStreamToStore_def orderly_step_def path_changes_def s_def)
      from requestPath_deploys [OF run' this(2) paths this(1)] show ?thesis
        by (simp add: saveTalker_def addStreamToStore_def)
    next
      case False
      with req have "s' = s" "out = []"
        by (auto simp: handleRequest_def m split: option.splits encapsulated.splits)
      then show ?thesis using engine_ok_none [OF ok] by auto
    qed
    then obtain ds where "deploys (nw_ctl n) s' out ds" by (auto simp: s_def)
    from deploys_inv [OF inv this, of "(nw_up n)(c := ms)"] sub show ?thesis by simp
  qed
qed

lemma orderly_run_inv:
  "orderly_run optimize srp_address n0 n \<Longrightarrow> simple_paths optimize \<Longrightarrow> net_inv n0 \<Longrightarrow> net_inv n"
proof (induction rule: orderly_run.induct)
  case (run_step n n1 n2)
  from run_step.hyps(2) show ?case
  proof (cases rule: net_step.cases)
    case (data_frame now f c a effs)
    then show ?thesis using run_step data_frame_inv by blast
  next
    case (switch_serves c m ms now new a effs)
    then show ?thesis using run_step switch_serves_inv by blast
  next
    case (controller_serves c m ms version s' out)
    with run_step.hyps(3) have "orderly_step (nw_ctl n1) s'" by simp
    with controller_serves run_step controller_serves_inv show ?thesis by blast
  qed
qed

text \<open>
  The network after the handshake and the extraction of the topology: nothing is in flight, no version
  has been given out, the switch table leads to the right connections.
\<close>

definition net_start :: "network \<Rightarrow> bool" where
  "net_start n \<longleftrightarrow> tables_ok (nw_ctl n) \<and> one_connection (nw_ctl n) \<and> ce_isTaggingEnabled (nw_ctl n)
     \<and> ce_match_version (nw_ctl n) = 1 \<and> ce_StreamFlowVersionTable (nw_ctl n) = [] \<and> ce_AckWaitingPaths (nw_ctl n) = []
     \<and> (\<forall>c. nw_up n c = [] \<and> nw_down n c = [] \<and> active_map (nw_switch n c) = []) \<and> nw_sent n = []"

lemma net_start_inv: "net_start n \<Longrightarrow> net_inv n"
  by (simp add: net_start_def net_inv_def engine_ok_def engine_wf_def channels_ok_def sent_ok_def waiting_ok_def
      acks_ok_def active_ok_def plan_ok_def claimed_def next_version_def word_less_1)


subsection \<open>A run\<close>

definition wit_agent :: agent where
  "wit_agent = edge_switch.extend (example_edge\<lparr>ed_StreamPortMap := [], ed_SeenStreams := [], sw_portState := [0, 0]\<rparr>)
     (agent.fields 9 True True True False [] [] 1 False False (new_buffer 8) 0)"

definition wit_switch :: "int \<Rightarrow> mac \<Rightarrow> nat \<Rightarrow> switch_info" where
  "wit_switch c m t = (connected_switch c m)\<lparr>si_topoindex := Some t, si_IsEdge := True\<rparr>"

definition wit_ctl :: opce where
  "wit_ctl = \<lparr>oc_booted = True, oc_busy = False, oc_serviceTime = 0, oc_msgList = [], oc_events = [], oc_numPacketIn = 0,
     oc_switchesList = [wit_switch 1 0xB0 1, wit_switch 2 0xB1 2], oc_topology = example_topology, oc_switchIndexes = [11, 12],
     oc_hostIndexes = [10, 13], oc_hostsList = [], oc_EdgeSwitches = [1, 2],
     oc_SwitchInfoTable = [(11, wit_switch 1 0xB0 1), (12, wit_switch 2 0xB1 2)],
     oc_HostProfileTable = [(10, \<lparr>hp_macAddress = 0xA0, hp_connectedSw_topo_index = Some 1, hp_topoindex = 0\<rparr>),
                            (13, \<lparr>hp_macAddress = 0xA1, hp_connectedSw_topo_index = Some 2, hp_topoindex = 3\<rparr>)],
     RegisteredStreams = [], ce_topo = True, ce_isTaggingEnabled = True, ce_match_version = 1, ce_StreamFlowVersionTable = [],
     ce_AckWaitingPaths = [], ce_IngressSwTable = [], ce_prevAssignments = [], ce_numOfPathReconfigurations = 0,
     ce_DemandtoStreamIdMap = [], ce_idleTimeout = 0, ce_hardTimeout = 0, ce_priority = 1, ce_numFlowMod = 0,
     op_demandIndex = 0, op_receivedTTDemandCounter = 0, op_allDemands = [], op_allAssignments = []\<rparr>"

text \<open>The optimiser of the example routes the first demand over both switches.\<close>

definition wit_optimize :: optimizer where
  "wit_optimize ds as = Some [\<lparr>a_demand_index = 0, a_data = 1, a_path = [1, 2], a_path_index = 0\<rparr>]"

definition wit_start :: network where
  "wit_start = \<lparr>nw_ctl = wit_ctl, nw_switch = (\<lambda>c. wit_agent), nw_down = (\<lambda>c. []), nw_up = (\<lambda>c. []), nw_sent = [],
     nw_handled = [], nw_plan = (\<lambda>v. None)\<rparr>"

definition wit_adv :: talker_advertise where
  "wit_adv = \<lparr>ta_streamID = 7, ta_source = 0xA0, ta_destination = 0xA1, ta_vlan = 3, ta_maxFrameSize = 100, ta_maxIntervalFrames = 1,
     ta_priorityAndRank = 0xD0\<rparr>"

definition wit_request :: frame where
  "wit_request = example_frame\<lparr>fr_qtag := None, fr_payload := SrpPayload (TalkerAdvertise wit_adv)\<rparr>"

definition wit_packet_in :: of_msg where
  "wit_packet_in = OfPacketIn OFP_NO_BUFFER (oxm_zero\<lparr>OFB_IN_PORT := 0\<rparr>) (Some (EncSrp (TalkerAdvertise wit_adv)))"

definition wit_match :: "16 word \<Rightarrow> oxm_basic_match" where
  "wit_match inport = oxm_zero\<lparr>OFB_ETH_DST := 0xA1, OFB_ETH_SRC := 0xA0, OFB_IN_PORT := inport, OFB_VLAN_VID := 3, OFB_TAG := 1,
     wildcards := desired_wildcards\<rparr>"

definition wit_mod :: flow_mod where
  "wit_mod = createFlowMod OFPFC_ADD (wit_match 0) 1 1 0 0"

definition wit_ready :: of_msg where
  "wit_ready = OfVendor 0 (Some (EncSrp (ListenerReady 7 3)))"

lemmas wit_defs = wit_agent_def example_edge_def example_switch_def agent.defs edge_switch.defs of_switch.defs

lemma wit_request_step:
  "\<exists>a. dataPlaneIn 1 wit_request wit_agent = Inr (a, [SocketSend wit_packet_in])
     \<and> a = wit_agent\<lparr>ed_StreamPortMap := [(7, 0)], ed_SeenStreams := [7]\<rparr>"
  by (simp add: dataPlaneIn_def processDataPlanePacket_edge_def wit_request_def example_frame_def wit_defs
      isConnectedToController_def forwardSRPtoController_def wit_packet_in_def wit_adv_def)

lemma wit_serve_step:
  "\<exists>s. serveMessage wit_optimize 1 1 wit_packet_in wit_ctl
       = Inr (s, [(1, OfFlowMod wit_mod), (2, OfFlowMod wit_mod), (1, wit_ready)])
     \<and> oc_switchesList s = oc_switchesList wit_ctl \<and> oc_SwitchInfoTable s = oc_SwitchInfoTable wit_ctl
     \<and> ce_AckWaitingPaths s = [(1, [1, 2])] \<and> ce_StreamFlowVersionTable s = [(7, \<lparr>vi_next = 1, vi_current = 0\<rparr>)]
     \<and> ce_IngressSwTable s = [(1, 11)] \<and> ce_match_version s = 2 \<and> orderly_step wit_ctl s"
  by (simp add: serveMessage_def processQueuedMsg_def handlePacketIn_def wit_packet_in_def packetInSignal_def handleRequest_def
      receivePacketIn_def ack_version_def requestPathforTalker_def saveTalker_def addStreamToStore_def getStreambyId_def
      findSwitchInfoFor_def Let_def wit_ctl_def wit_adv_def wit_switch_def connected_switch_def find_host_def
      get_optimal_assignment_def wit_optimize_def configureDataPlane_def deployPath_def addMatchVersiontoStream_def
      insertAssignedPath_def vec_at_def example_topology_def findRelatedSwitchSocket_def getInPort_def getOutPort_def link_to_def
      find_idx_def createDesiredMatch_eq sendFlowModMessage_def sendListenerReadyToTalker_def wit_mod_def wit_match_def wit_ready_def
      orderly_step_def path_changes_def)

definition wit_ack :: of_msg where
  "wit_ack = OfPacketIn OFP_NO_BUFFER oxm_zero (Some (EncFrame (ack_frame 1)))"

lemma wit_mod_step:
  assumes "a0 = wit_agent\<lparr>ed_StreamPortMap := m, ed_SeenStreams := l\<rparr>"
  shows "\<exists>a. processControlPlanePacket_edge 5 2 0 (OfFlowMod wit_mod) a0 = Inr (a, [SocketSend wit_ack])
     \<and> ed_SeenStreams a = l \<and> ed_StreamPortMap a = m \<and> sw_portState a = [0, 0] \<and> active_map a = [] \<and> ed_isTaggingEnabled a
     \<and> ag_isTaggingEnabled a0"
  unfolding assms
  by (simp add: processControlPlanePacket_edge_def handleFlowModMessagewithACK_def handleFlowModMessage_def wit_defs
      wit_mod_def createFlowMod_def wit_match_def vec_at_def handleFlowMod_def addEntry_def createEntry_def removeAgedEntries_def
      getTimeOut_def simtime_max_def sortEntries_def wit_ack_def Let_def)

lemma wit_ready_step:
  assumes "ed_StreamPortMap a0 = [(7, 0)]" and "sw_portState a0 = [0, 0]"
  shows "\<exists>a effs. processControlPlanePacket_edge 5 3 0 wit_ready a0 = Inr (a, effs) \<and> socket_msgs effs = []
     \<and> ed_SeenStreams a = ed_SeenStreams a0 \<and> active_map a = active_map a0 \<and> ed_isTaggingEnabled a = ed_isTaggingEnabled a0"
  using assms by (simp add: processControlPlanePacket_edge_def wit_ready_def handleSRPFromController_def handleSRPMsgFromController_def)

lemma wit_ack_step:
  assumes "oc_switchesList s = oc_switchesList wit_ctl" "oc_SwitchInfoTable s = oc_SwitchInfoTable wit_ctl"
    "ce_StreamFlowVersionTable s = [(7, \<lparr>vi_next = 1, vi_current = 0\<rparr>)]" "ce_IngressSwTable s = [(1, 11)]" "ce_match_version s = 2"
  shows "ce_AckWaitingPaths s = [(1, [1, 2])] \<Longrightarrow> \<exists>s1. serveMessage wit_optimize 1 1 wit_ack s = Inr (s1, [])
      \<and> oc_switchesList s1 = oc_switchesList wit_ctl \<and> oc_SwitchInfoTable s1 = oc_SwitchInfoTable wit_ctl
      \<and> ce_StreamFlowVersionTable s1 = [(7, \<lparr>vi_next = 1, vi_current = 0\<rparr>)] \<and> ce_IngressSwTable s1 = [(1, 11)]
      \<and> ce_match_version s1 = 2 \<and> ce_AckWaitingPaths s1 = [(1, [2])] \<and> orderly_step s s1"
    and "ce_AckWaitingPaths s = [(1, [2])] \<Longrightarrow> \<exists>s1. serveMessage wit_optimize 2 1 wit_ack s = Inr (s1, [(1, activation 1 7)])
      \<and> orderly_step s s1"
  using assms
  by (simp_all add: serveMessage_def processQueuedMsg_def handlePacketIn_def wit_ack_def packetInSignal_def handleRequest_def
      receivePacketIn_def ack_version_def ack_frame_def findSwitchInfoFor_def wit_ctl_def wit_switch_def connected_switch_def
      handleAck_def smap_dflt_def activateMatchVersion_def findRelatedSwitchSocket_def activation_def orderly_step_def path_changes_def
      Let_def)

lemma wit_activation_step:
  "\<exists>a. processControlPlanePacket_edge 5 4 0 (activation 1 7) a0 = Inr (a, [])
     \<and> ed_SeenStreams a = ed_SeenStreams a0 \<and> active_map a = smap_put 7 1 (active_map a0) \<and> ed_isTaggingEnabled a = ed_isTaggingEnabled a0"
  by (simp add: processControlPlanePacket_edge_def activation_def handlePacketOutMessage_edge_def activation_frame_def handleMatchVersionMessage_def)

text \<open>Extending a run, with the fields that matter for going on.\<close>

lemma run_frame:
  assumes "orderly_run optimize srp_address n0 n" and "dataPlaneIn now f (nw_switch n c) = Inr (a, effs)" and "ordinary f"
  shows "\<exists>n'. orderly_run optimize srp_address n0 n' \<and> nw_ctl n' = nw_ctl n \<and> nw_switch n' = (nw_switch n)(c := a)
    \<and> nw_down n' = nw_down n \<and> nw_up n' = (nw_up n)(c := nw_up n c @ socket_msgs effs)"
  using run_step [OF assms(1) data_frame [OF assms(2,3)]] by (fastforce simp: orderly_step_def)

lemma run_switch:
  assumes "orderly_run optimize srp_address n0 n" and "nw_down n c = m # ms"
    and "processControlPlanePacket_edge srp_address now new m (nw_switch n c) = Inr (a, effs)"
  shows "\<exists>n'. orderly_run optimize srp_address n0 n' \<and> nw_ctl n' = nw_ctl n \<and> nw_switch n' = (nw_switch n)(c := a)
    \<and> nw_down n' = (nw_down n)(c := ms) \<and> nw_up n' = (nw_up n)(c := nw_up n c @ socket_msgs effs)"
  using run_step [OF assms(1) switch_serves [OF assms(2,3)]] by (fastforce simp: orderly_step_def)

lemma run_controller:
  assumes "orderly_run optimize srp_address n0 n" and "nw_up n c = m # ms"
    and "serveMessage optimize c version m (nw_ctl n) = Inr (s', out)" and "orderly_step (nw_ctl n) s'"
  shows "\<exists>n'. orderly_run optimize srp_address n0 n' \<and> nw_ctl n' = s' \<and> nw_switch n' = nw_switch n
    \<and> nw_down n' = (\<lambda>d. nw_down n d @ to_conn d out) \<and> nw_up n' = (nw_up n)(c := ms)"
  using run_step [OF assms(1) controller_serves [OF assms(2,3)]] assms(4) by fastforce

lemma wit_run:
  "\<exists>n. orderly_run wit_optimize 5 wit_start n \<and> ed_SeenStreams (nw_switch n 1) = [7] \<and> active_map (nw_switch n 1) = [(7, 1)]
     \<and> ed_isTaggingEnabled (nw_switch n 1)"
proof -
  define a1 where "a1 = wit_agent\<lparr>ed_StreamPortMap := [(7, 0)], ed_SeenStreams := [7]\<rparr>"
  have start: "nw_ctl wit_start = wit_ctl" "nw_switch wit_start = (\<lambda>c. wit_agent)" "nw_down wit_start = (\<lambda>c. [])" "nw_up wit_start = (\<lambda>c. [])"
    by (simp_all add: wit_start_def)
  have "ordinary wit_request" by (simp add: ordinary_def wit_request_def)
  then obtain n1 where n1: "orderly_run wit_optimize 5 wit_start n1" "nw_ctl n1 = wit_ctl" "nw_switch n1 = (\<lambda>c. wit_agent)(1 := a1)"
    "nw_down n1 = (\<lambda>c. [])" "nw_up n1 = (\<lambda>c. [])(1 := [wit_packet_in])"
    using run_frame [OF run_start, of 1 wit_request wit_start 1 a1 "[SocketSend wit_packet_in]" wit_optimize 5] wit_request_step start a1_def
    by fastforce
  obtain s where serve: "serveMessage wit_optimize 1 1 wit_packet_in wit_ctl
       = Inr (s, [(1, OfFlowMod wit_mod), (2, OfFlowMod wit_mod), (1, wit_ready)])" "orderly_step wit_ctl s"
    and s: "oc_switchesList s = oc_switchesList wit_ctl" "oc_SwitchInfoTable s = oc_SwitchInfoTable wit_ctl"
      "ce_StreamFlowVersionTable s = [(7, \<lparr>vi_next = 1, vi_current = 0\<rparr>)]" "ce_IngressSwTable s = [(1, 11)]" "ce_match_version s = 2"
      "ce_AckWaitingPaths s = [(1, [1, 2])]"
    using wit_serve_step by auto
  obtain n2 where n2: "orderly_run wit_optimize 5 wit_start n2" "nw_ctl n2 = s" "nw_switch n2 = nw_switch n1"
    "nw_down n2 1 = [OfFlowMod wit_mod, wit_ready]" "nw_down n2 2 = [OfFlowMod wit_mod]" "nw_up n2 = (\<lambda>c. [])"
    using run_controller [OF n1(1), of 1 wit_packet_in "[]" 1] serve n1 by (fastforce simp: to_conn_def)
  obtain a2 where a2: "processControlPlanePacket_edge 5 2 0 (OfFlowMod wit_mod) a1 = Inr (a2, [SocketSend wit_ack])"
    "ed_SeenStreams a2 = [7]" "ed_StreamPortMap a2 = [(7, 0)]" "sw_portState a2 = [0, 0]" "active_map a2 = []" "ed_isTaggingEnabled a2"
    using wit_mod_step [OF a1_def] by auto
  obtain n3 where n3: "orderly_run wit_optimize 5 wit_start n3" "nw_ctl n3 = s" "nw_switch n3 1 = a2" "nw_switch n3 2 = wit_agent"
    "nw_down n3 1 = [wit_ready]" "nw_down n3 2 = [OfFlowMod wit_mod]" "nw_up n3 = (\<lambda>c. [])(1 := [wit_ack])"
    using run_switch [OF n2(1,4), of 2 0 a2] a2(1) n1 n2 by fastforce
  have "wit_agent = wit_agent\<lparr>ed_StreamPortMap := [], ed_SeenStreams := []\<rparr>" by (simp add: wit_defs)
  from wit_mod_step [OF this] obtain b2 where "processControlPlanePacket_edge 5 2 0 (OfFlowMod wit_mod) wit_agent = Inr (b2, [SocketSend wit_ack])"
    by auto
  then obtain n4 where n4: "orderly_run wit_optimize 5 wit_start n4" "nw_ctl n4 = s" "nw_switch n4 1 = a2"
    "nw_down n4 1 = [wit_ready]" "nw_up n4 1 = [wit_ack]" "nw_up n4 2 = [wit_ack]"
    using run_switch [OF n3(1,6), of 2 0 b2] n3 by fastforce
  from wit_ack_step(1) [OF s] obtain s1 where ack1: "serveMessage wit_optimize 1 1 wit_ack s = Inr (s1, [])" "orderly_step s s1"
    and s1: "oc_switchesList s1 = oc_switchesList wit_ctl" "oc_SwitchInfoTable s1 = oc_SwitchInfoTable wit_ctl"
      "ce_StreamFlowVersionTable s1 = [(7, \<lparr>vi_next = 1, vi_current = 0\<rparr>)]" "ce_IngressSwTable s1 = [(1, 11)]" "ce_match_version s1 = 2"
      "ce_AckWaitingPaths s1 = [(1, [2])]"
    by auto
  obtain n5 where n5: "orderly_run wit_optimize 5 wit_start n5" "nw_ctl n5 = s1" "nw_switch n5 1 = a2"
    "nw_down n5 1 = [wit_ready]" "nw_up n5 2 = [wit_ack]"
    using run_controller [OF n4(1,5), of 1 s1 "[]"] ack1 n4 by (fastforce simp: to_conn_def)
  from wit_ack_step(2) [OF s1] obtain s2 where "serveMessage wit_optimize 2 1 wit_ack s1 = Inr (s2, [(1, activation 1 7)])" "orderly_step s1 s2"
    by auto
  then obtain n6 where n6: "orderly_run wit_optimize 5 wit_start n6" "nw_switch n6 1 = a2" "nw_down n6 1 = [wit_ready, activation 1 7]"
    using run_controller [OF n5(1,5), of 1 s2] n5 by (fastforce simp: to_conn_def)
  obtain a3 effs where a3: "processControlPlanePacket_edge 5 3 0 wit_ready a2 = Inr (a3, effs)" "ed_SeenStreams a3 = [7]"
    "active_map a3 = []" "ed_isTaggingEnabled a3"
    using wit_ready_step [OF a2(3,4)] a2 by auto
  obtain n7 where n7: "orderly_run wit_optimize 5 wit_start n7" "nw_switch n7 1 = a3" "nw_down n7 1 = [activation 1 7]"
    using run_switch [OF n6(1,3), of 3 0 a3 effs] a3(1) n6 by fastforce
  obtain a4 where a4: "processControlPlanePacket_edge 5 4 0 (activation 1 7) a3 = Inr (a4, [])" "ed_SeenStreams a4 = [7]"
    "active_map a4 = [(7, 1)]" "ed_isTaggingEnabled a4"
    using wit_activation_step [of a3] a3 by auto
  obtain n8 where "orderly_run wit_optimize 5 wit_start n8" "nw_switch n8 1 = a4"
    using run_switch [OF n7(1,3), of 4 0 a4 "[]"] a4(1) n7 by fastforce
  with a4 show ?thesis by auto
qed


end
