(* ===== verification/EngineProperties.thy ===== *)
theory EngineProperties
  imports VersionedUpdate
begin

text \<open>
  The configuration engine operation by operation: the flow modifications of a path, the last
  acknowledgement, and what goes wrong when a stream is rerouted before its last reroute was
  acknowledged.
\<close>

subsection \<open>The rules of a path\<close>

definition leads_to :: "node list \<Rightarrow> link list \<Rightarrow> node \<Rightarrow> nat \<Rightarrow> bool" where
  "leads_to topo ls n i \<longleftrightarrow> i < length ls \<and> \<not> l_cplane (ls ! i) \<and> n_moduleId (topo ! l_remote (ls ! i)) = n_moduleId n"

text \<open>Neighbours are joined by links of the data plane in both directions.\<close>

fun joined :: "node list \<Rightarrow> node list \<Rightarrow> bool" where
  "joined topo (a # b # ns) \<longleftrightarrow> (\<exists>i. leads_to topo (n_out a) b i) \<and> (\<exists>i. leads_to topo (n_in b) a i) \<and> joined topo (b # ns)"
| "joined topo ns \<longleftrightarrow> True"

lemma link_to_leads: "leads_to topo ls n i \<Longrightarrow> leads_to topo ls n (link_to (n_moduleId n) topo ls)"
proof -
  assume l: "leads_to topo ls n i"
  let ?P = "\<lambda>l. \<not> l_cplane l \<and> n_moduleId (topo ! l_remote l) = n_moduleId n"
  have "find_idx ?P ls \<noteq> None"
    using l by (auto simp: find_idx_None leads_to_def)
  then obtain j where "find_idx ?P ls = Some j" by auto
  with find_idx_Some [OF this] show ?thesis by (simp add: link_to_def leads_to_def)
qed

text \<open>The flow modification for a switch between two nodes.\<close>

definition rule_between :: "node list \<Rightarrow> mac \<Rightarrow> mac \<Rightarrow> 16 word \<Rightarrow> 16 word \<Rightarrow> 'a config_engine_scheme \<Rightarrow> node \<Rightarrow> node \<Rightarrow> node \<Rightarrow> flow_mod" where
  "rule_between topo dst src vlan v s prev n nxt =
     createFlowMod OFPFC_ADD
       (oxm_zero\<lparr>OFB_ETH_DST := dst, OFB_ETH_SRC := src, OFB_IN_PORT := of_nat (getInPort topo n prev), OFB_VLAN_VID := vlan,
          OFB_TAG := v, wildcards := desired_wildcards\<rparr>)
       (of_nat (getOutPort topo n nxt)) (ce_priority s) (ce_idleTimeout s) (ce_hardTimeout s)"

fun rules_along :: "node list \<Rightarrow> mac \<Rightarrow> mac \<Rightarrow> 16 word \<Rightarrow> 16 word \<Rightarrow> 'a config_engine_scheme \<Rightarrow> node list \<Rightarrow> flow_mod list" where
  "rules_along topo dst src vlan v s (p # n # q # ns) =
     rule_between topo dst src vlan v s p n q # rules_along topo dst src vlan v s (n # q # ns)"
| "rules_along topo dst src vlan v s ns = []"

lemma rules_along_numFlowMod: "rules_along topo dst src vlan v (s\<lparr>ce_numFlowMod := x\<rparr>) ms = rules_along topo dst src vlan v s ms"
  by (induction topo dst src vlan v s ms rule: rules_along.induct) (simp_all add: rule_between_def)

lemma install_loop_rules:
  assumes "list_all2 (\<lambda>n c. findRelatedSwitchSocket (n_moduleId n) s = Inr c) ns cs" and "ns \<noteq> []" and "first \<longrightarrow> 2 \<le> length ns"
  shows "install_loop topo prev ns first dst (\<lambda>inport. createDesiredMatch oxm_zero (of_nat inport) dh sh vlan v) s
     = Inr (s\<lparr>ce_numFlowMod := ce_numFlowMod s + int (length ns)\<rparr>,
            map (\<lambda>(c, fm). (c, OfFlowMod fm)) (zip cs (rules_along topo dh sh vlan v s (prev # ns @ [dst]))))"
  using assms
proof (induction ns arbitrary: prev cs first s)
  case (Cons n ns)
  then obtain c cs' where cs: "cs = c # cs'" and c: "findRelatedSwitchSocket (n_moduleId n) s = Inr c"
    and rest: "list_all2 (\<lambda>n c. findRelatedSwitchSocket (n_moduleId n) s = Inr c) ns cs'"
    by (auto simp: list_all2_Cons1)
  let ?s = "s\<lparr>ce_numFlowMod := ce_numFlowMod s + 1\<rparr>"
  show ?case
  proof (cases ns)
    case Nil
    with Cons.prems cs c show ?thesis
      by (simp add: createDesiredMatch_eq sendFlowModMessage_def rule_between_def)
  next
    case (Cons m ms)
    with rest have "install_loop topo n ns False dst (\<lambda>inport. createDesiredMatch oxm_zero (of_nat inport) dh sh vlan v) ?s
        = Inr (?s\<lparr>ce_numFlowMod := ce_numFlowMod ?s + int (length ns)\<rparr>,
            map (\<lambda>(c, fm). (c, OfFlowMod fm)) (zip cs' (rules_along topo dh sh vlan v ?s (n # ns @ [dst]))))"
      by (intro "Cons.IH") simp_all
    with Cons c show ?thesis
      by (simp add: cs rules_along_numFlowMod createDesiredMatch_eq sendFlowModMessage_def rule_between_def add.commute
            add.left_commute del: install_loop.simps(2))
         (simp add: createDesiredMatch_eq sendFlowModMessage_def rule_between_def)
  qed
qed simp

lemma rules_along_ports:
  "joined topo (p # ns @ [q]) \<Longrightarrow> i < length ns \<Longrightarrow>
     rules_along topo dst src vlan v s (p # ns @ [q]) ! i = rule_between topo dst src vlan v s ((p # ns) ! i) (ns ! i) ((ns @ [q]) ! Suc i)
     \<and> leads_to topo (n_in (ns ! i)) ((p # ns) ! i) (getInPort topo (ns ! i) ((p # ns) ! i))
     \<and> leads_to topo (n_out (ns ! i)) ((ns @ [q]) ! Suc i) (getOutPort topo (ns ! i) ((ns @ [q]) ! Suc i))"
proof (induction ns arbitrary: p i)
  case (Cons n ns)
  obtain m ms where ms: "ns @ [q] = m # ms" by (cases ns) auto
  with Cons.prems have j: "joined topo (p # n # m # ms)" by simp
  show ?case
  proof (cases i)
    case 0
    with j ms show ?thesis by (auto simp: getInPort_def getOutPort_def intro: link_to_leads)
  next
    case (Suc k)
    with Cons.prems ms j have "joined topo (n # ns @ [q])" "k < length ns" by auto
    from Cons.IH [OF this] show ?thesis using Suc ms by simp
  qed
qed simp

lemma host_index_vec: "i < length topo \<Longrightarrow> vec_at topo (int i) = Inr (topo ! i)"
  by (simp add: vec_at_def)

lemma rules_along_length: "length (rules_along topo dst src vlan v s (p # ns @ [q])) = length ns"
proof (induction ns arbitrary: p)
  case (Cons n ns)
  then show ?case by (cases ns) simp_all
qed simp

lemma rule_fields: "ce_priority (s\<lparr>ce_IngressSwTable := x\<rparr>) = ce_priority s" "ce_idleTimeout (s\<lparr>ce_IngressSwTable := x\<rparr>) = ce_idleTimeout s"
  "ce_hardTimeout (s\<lparr>ce_IngressSwTable := x\<rparr>) = ce_hardTimeout s"
  by simp_all

lemma example_joined:
  "joined example_topology (example_topology ! 0 # [example_topology ! 1, example_topology ! 2] @ [example_topology ! 3])"
proof -
  have "leads_to example_topology (n_out (example_topology ! 0)) (example_topology ! 1) 0"
    "leads_to example_topology (n_out (example_topology ! 1)) (example_topology ! 2) 1"
    "leads_to example_topology (n_out (example_topology ! 2)) (example_topology ! 3) 1"
    "leads_to example_topology (n_in (example_topology ! 1)) (example_topology ! 0) 0"
    "leads_to example_topology (n_in (example_topology ! 2)) (example_topology ! 1) 0"
    "leads_to example_topology (n_in (example_topology ! 3)) (example_topology ! 2) 0"
    by (simp_all add: leads_to_def example_topology_def)
  then show ?thesis by auto
qed

subsection \<open>Properties\<close>

text \<open>
  C7: A path between two hosts is installed switch by switch: when the hosts are known, the path has at
  least two switches, each is connected, and neighbours on the way are joined by data plane links, then
  \<open>insertAssignedPath\<close> sends every switch of the path exactly one flow modification, in path order,
  that matches talker, listener, VLAN, version and an input port whose link comes from the node before,
  and forwards to a port whose link leads to the node after; and it records the first switch as the
  ingress of the version.
\<close>

theorem path_installed:
  assumes "ce_topo s" and "path_nodes (oc_topology s) path = Inr ns" and "2 \<le> length ns"
    and "list_all2 (\<lambda>n c. findRelatedSwitchSocket (n_moduleId n) s = Inr c) ns cs" and "src \<noteq> dst"
    and "host_index src (oc_HostProfileTable s) None = Some h" and "host_index dst (oc_HostProfileTable s) None = Some d"
    and "h < length (oc_topology s)" and "d < length (oc_topology s)"
    and "joined (oc_topology s) (oc_topology s ! h # ns @ [oc_topology s ! d])"
  shows "\<exists>rules. insertAssignedPath path vlan dst src v s
      = Inr (s\<lparr>ce_IngressSwTable := smap_put v (n_moduleId (hd ns)) (ce_IngressSwTable s), ce_numFlowMod := ce_numFlowMod s + int (length ns)\<rparr>,
             map (\<lambda>(c, fm). (c, OfFlowMod fm)) (zip cs rules))
    \<and> length rules = length ns
    \<and> (\<forall>i < length ns. \<exists>inp outp. rules ! i = createFlowMod OFPFC_ADD
           (oxm_zero\<lparr>OFB_ETH_DST := dst, OFB_ETH_SRC := src, OFB_IN_PORT := of_nat inp, OFB_VLAN_VID := vlan, OFB_TAG := v,
              wildcards := desired_wildcards\<rparr>) (of_nat outp) (ce_priority s) (ce_idleTimeout s) (ce_hardTimeout s)
         \<and> leads_to (oc_topology s) (n_in (ns ! i)) ((oc_topology s ! h # ns) ! i) inp
         \<and> leads_to (oc_topology s) (n_out (ns ! i)) ((ns @ [oc_topology s ! d]) ! Suc i) outp)"
proof -
  let ?t = "oc_topology s"
  let ?s = "s\<lparr>ce_IngressSwTable := smap_put v (n_moduleId (hd ns)) (ce_IngressSwTable s)\<rparr>"
  let ?rules = "rules_along ?t dst src vlan v ?s (?t ! h # ns @ [?t ! d])"
  from assms(3) have ne: "ns \<noteq> []" by auto
  have "insertAssignedPath path vlan dst src v s
      = install_loop ?t (?t ! h) ns True (?t ! d) (\<lambda>inport. createDesiredMatch oxm_zero (of_nat inport) dst src vlan v) ?s"
    using assms ne by (cases ns) (simp_all add: insertAssignedPath_def host_index_vec Let_def del: install_loop.simps)
  also have "\<dots> = Inr (?s\<lparr>ce_numFlowMod := ce_numFlowMod ?s + int (length ns)\<rparr>, map (\<lambda>(c, fm). (c, OfFlowMod fm)) (zip cs ?rules))"
    using assms ne by (intro install_loop_rules) simp_all
  finally have "insertAssignedPath path vlan dst src v s = Inr (s\<lparr>ce_IngressSwTable := smap_put v (n_moduleId (hd ns)) (ce_IngressSwTable s),
      ce_numFlowMod := ce_numFlowMod s + int (length ns)\<rparr>, map (\<lambda>(c, fm). (c, OfFlowMod fm)) (zip cs ?rules))" by simp
  moreover have "\<forall>i < length ns. \<exists>inp outp. ?rules ! i = createFlowMod OFPFC_ADD
           (oxm_zero\<lparr>OFB_ETH_DST := dst, OFB_ETH_SRC := src, OFB_IN_PORT := of_nat inp, OFB_VLAN_VID := vlan, OFB_TAG := v,
              wildcards := desired_wildcards\<rparr>) (of_nat outp) (ce_priority s) (ce_idleTimeout s) (ce_hardTimeout s)
         \<and> leads_to ?t (n_in (ns ! i)) ((?t ! h # ns) ! i) inp
         \<and> leads_to ?t (n_out (ns ! i)) ((ns @ [?t ! d]) ! Suc i) outp"
    using rules_along_ports [OF assms(10), of _ dst src vlan v ?s] unfolding rule_between_def rule_fields by blast
  ultimately show ?thesis using rules_along_length by blast
qed

text \<open>Installing the path over both switches of the example.\<close>

theorem path_installed_witness:
  "\<exists>rules s'. insertAssignedPath [1, 2] 3 0xA1 0xA0 1 wit_ctl = Inr (s', map (\<lambda>(c, fm). (c, OfFlowMod fm)) (zip [1, 2] rules)) \<and> length rules = 2"
proof -
  let ?ns = "[example_topology ! 1, example_topology ! 2]"
  have topo: "oc_topology wit_ctl = example_topology" "length example_topology = 4" and on: "ce_topo wit_ctl"
    by (simp_all add: wit_ctl_def example_topology_def)
  have ns: "path_nodes (oc_topology wit_ctl) [1, 2] = Inr ?ns"
    by (simp add: topo vec_at_def)
  have cs: "list_all2 (\<lambda>n c. findRelatedSwitchSocket (n_moduleId n) wit_ctl = Inr c) ?ns [1, 2]"
    by (simp add: findRelatedSwitchSocket_def wit_ctl_def wit_switch_def connected_switch_def example_topology_def)
  have hosts: "host_index 0xA0 (oc_HostProfileTable wit_ctl) None = Some 0" "host_index 0xA1 (oc_HostProfileTable wit_ctl) None = Some 3"
    by (simp_all add: wit_ctl_def)
  show ?thesis
    using path_installed [OF on ns _ cs _ hosts, of 3 1] example_joined by (auto simp: topo)
qed

lemma find_first_waiting:
  "(sid, info) \<in> set m \<Longrightarrow> P info \<Longrightarrow> \<forall>(k, x) \<in> set m. P x \<longrightarrow> k = sid \<and> x = info \<Longrightarrow> find (\<lambda>(k, x). P x) m = Some (sid, info)"
  by (induction m) auto

text \<open>
  C8: The last acknowledgement of a version switches the stream over: when one switch is left in the
  waiting list of version v, exactly one stream waits for v, and the ingress switch of v is connected, the
  acknowledgement of that switch sends one packet-out to the ingress switch and nothing else; the packet-out
  holds the activation message of v for the stream, v becomes the current version of the stream, the
  stream no longer waits, the waiting list of v is gone, and no other stream or waiting list changes.
\<close>

theorem last_ack_activates:
  assumes "findSwitchInfoFor c s = Some i" and "si_topoindex (oc_switchesList s ! i) = Some t"
    and "ack_version m = Some v" and "smap_get v (ce_AckWaitingPaths s) = Some path" and "set path \<subseteq> {int t}"
    and "engine_wf s" and "smap_get sid (ce_StreamFlowVersionTable s) = Some info" and "vi_next info = v"
    and "\<forall>k x. smap_get k (ce_StreamFlowVersionTable s) = Some x \<and> vi_next x = v \<longrightarrow> k = sid"
    and "smap_get v (ce_IngressSwTable s) = Some sw" and "findRelatedSwitchSocket sw s = Inr ingress" and "ce_isTaggingEnabled s"
  shows "\<exists>s'. receivePacketIn c m s = Inr (s', [(ingress, OfPacketOut OFP_NO_BUFFER 0 [] (Some (EncFrame (activation_frame v sid))))])
    \<and> getMatchVersionbyStreamId sid s' = v \<and> next_version s' sid = 0 \<and> smap_get v (ce_AckWaitingPaths s') = None
    \<and> (\<forall>k. k \<noteq> sid \<longrightarrow> smap_get k (ce_StreamFlowVersionTable s') = smap_get k (ce_StreamFlowVersionTable s))
    \<and> (\<forall>w. w \<noteq> v \<longrightarrow> smap_get w (ce_AckWaitingPaths s') = smap_get w (ce_AckWaitingPaths s))"
proof -
  have wf: "smap_wf (ce_StreamFlowVersionTable s)" "smap_wf (ce_AckWaitingPaths s)"
    using assms(6) by (auto simp: engine_wf_def)
  have left: "filter (\<lambda>x. x \<noteq> int t) path = []" using assms(5) by (auto simp: filter_empty_conv)
  have only: "k = sid \<and> x = info" if "smap_get k (ce_StreamFlowVersionTable s) = Some x" "vi_next x = v" for k x
  proof -
    have "k = sid" using assms(9) that by blast
    with that assms(7) show ?thesis by simp
  qed
  have found: "find (\<lambda>(k, x). vi_next x = v) (ce_StreamFlowVersionTable s) = Some (sid, info)"
  proof (rule find_first_waiting)
    show "\<forall>(k, x) \<in> set (ce_StreamFlowVersionTable s). vi_next x = v \<longrightarrow> k = sid \<and> x = info"
      using only by (simp add: smap_entries_get [OF wf(1)] split_beta) (metis prod.collapse smap_entries_get [OF wf(1)])
  qed (use assms(7,8) in \<open>simp_all add: smap_entries_get [OF wf(1)]\<close>)
  define s1 where "s1 = s\<lparr>ce_StreamFlowVersionTable := smap_put sid \<lparr>vi_next = 0, vi_current = v\<rparr> (ce_StreamFlowVersionTable s),
      ce_IngressSwTable := smap_put v sw (ce_IngressSwTable s)\<rparr>"
  have "findRelatedSwitchSocket sw (s\<lparr>ce_StreamFlowVersionTable := x\<rparr>) = Inr ingress" for x
    using assms(11) by (simp add: findRelatedSwitchSocket_def)
  then have "activateMatchVersion v s = Inr (s1, [(ingress, OfPacketOut OFP_NO_BUFFER 0 [] (Some (EncFrame (activation_frame v sid))))])"
    by (simp add: activateMatchVersion_def found smap_dflt_def assms(10) s1_def [symmetric])
  then have "receivePacketIn c m s = Inr (s1\<lparr>ce_AckWaitingPaths := smap_erase v (ce_AckWaitingPaths s1)\<rparr>,
      [(ingress, OfPacketOut OFP_NO_BUFFER 0 [] (Some (EncFrame (activation_frame v sid))))])"
    by (simp add: receivePacketIn_def handleAck_def assms(1-4) smap_dflt_def Let_def left)
  moreover have "ce_AckWaitingPaths s1 = ce_AckWaitingPaths s" "ce_isTaggingEnabled s1"
    "ce_StreamFlowVersionTable s1 = smap_put sid \<lparr>vi_next = 0, vi_current = v\<rparr> (ce_StreamFlowVersionTable s)"
    using assms(12) by (simp_all add: s1_def)
  ultimately show ?thesis
    using wf by (intro exI [of _ "s1\<lparr>ce_AckWaitingPaths := smap_erase v (ce_AckWaitingPaths s1)\<rparr>"])
      (simp add: smap_get_erase smap_get_put getMatchVersionbyStreamId_def next_version_def)
qed

text \<open>The second of two acknowledgements in the example; the ingress switch is the first one.\<close>

definition waiting_engine :: opce where
  "waiting_engine = wit_ctl\<lparr>ce_AckWaitingPaths := [(1, [2])], ce_StreamFlowVersionTable := [(7, \<lparr>vi_next = 1, vi_current = 0\<rparr>)],
     ce_IngressSwTable := [(1, 11)], ce_match_version := 2\<rparr>"

lemma waiting_engine_simps:
  "findSwitchInfoFor 2 waiting_engine = Some 1" "si_topoindex (oc_switchesList waiting_engine ! 1) = Some 2"
  "ack_version wit_ack = Some 1" "findRelatedSwitchSocket 11 waiting_engine = Inr 1" "engine_wf waiting_engine"
  by (simp_all add: waiting_engine_def wit_ctl_def wit_switch_def connected_switch_def findSwitchInfoFor_def ack_version_def
      wit_ack_def ack_frame_def findRelatedSwitchSocket_def engine_wf_def smap_wf_def)

theorem last_ack_activates_witness:
  "\<exists>s'. receivePacketIn 2 wit_ack waiting_engine
      = Inr (s', [(1, OfPacketOut OFP_NO_BUFFER 0 [] (Some (EncFrame (activation_frame 1 7))))])
    \<and> getMatchVersionbyStreamId 7 s' = 1"
proof -
  have state: "smap_get 1 (ce_AckWaitingPaths waiting_engine) = Some [2]" "set [2] \<subseteq> {int 2}"
    "smap_get 7 (ce_StreamFlowVersionTable waiting_engine) = Some \<lparr>vi_next = 1, vi_current = 0\<rparr>" "vi_next \<lparr>vi_next = 1, vi_current = 0\<rparr> = 1"
    "smap_get 1 (ce_IngressSwTable waiting_engine) = Some 11" "ce_isTaggingEnabled waiting_engine"
    and only: "\<forall>k x. smap_get k (ce_StreamFlowVersionTable waiting_engine) = Some x \<and> vi_next x = 1 \<longrightarrow> k = 7"
    by (simp_all add: waiting_engine_def wit_ctl_def)
  from last_ack_activates [OF waiting_engine_simps(1-3) state(1,2) waiting_engine_simps(5) state(3,4) only state(5) waiting_engine_simps(4) state(6)]
  show ?thesis by blast
qed

text \<open>
  C40: A stream that is rerouted while its previous reroute still waits for acknowledgements gets rules
  under a version it does not wait for: \<open>addMatchVersiontoStream\<close> keeps the version the stream waits for,
  but the waiting list and the rules use the next version that nobody owns, which is not consumed either.
  Every rule of the new path carries it, the versions of all streams are unchanged, and the last
  acknowledgement finds no stream to activate, so the stream id of the message is uninitialised.
\<close>

theorem pending_reconfiguration_shares_version:
  assumes "deployPath sid st path s = Inr (s', out)" and "ce_isTaggingEnabled s" and "next_version s sid \<noteq> 0" and "smap_wf (ce_AckWaitingPaths s)"
    and "\<forall>(k, x) \<in> set (ce_StreamFlowVersionTable s). vi_next x \<noteq> ce_match_version s"
    and "si_topoindex (oc_switchesList s ! i) = Some t"
  shows "ce_match_version s' = ce_match_version s \<and> ce_StreamFlowVersionTable s' = ce_StreamFlowVersionTable s
    \<and> (\<forall>(c, fm) \<in> set (flow_mods out). fm_tag fm = ce_match_version s \<and> fm_tag fm \<noteq> next_version s' sid)
    \<and> smap_get (ce_match_version s) (ce_AckWaitingPaths s') = Some path
    \<and> (\<forall>left. handleAck (Some i) (ce_match_version s) (s'\<lparr>ce_AckWaitingPaths := [(ce_match_version s, replicate left (int t))]\<rparr>)
         = Inl (Uninitialised ''streamID''))"
proof -
  let ?v = "ce_match_version s"
  let ?s1 = "s\<lparr>ce_AckWaitingPaths := smap_put ?v path (ce_AckWaitingPaths s)\<rparr>"
  obtain info where info: "smap_get sid (ce_StreamFlowVersionTable s) = Some info" "vi_next info \<noteq> 0"
    using assms(3) by (auto simp: next_version_def split: option.splits)
  then have "addMatchVersiontoStream sid ?s1 = ?s1"
    by (simp add: addMatchVersiontoStream_def Let_def)
  then have "insertAssignedPath path (st_vlanid st) (st_listener st) (st_talker st) ?v ?s1 = Inr (s', out)"
    using assms(1,2) by (simp add: deployPath_def Let_def)
  from insertAssignedPath_spec [OF this] obtain ns l x y where "path \<noteq> []" "path_nodes (oc_topology ?s1) path = Inr ns"
    and s': "s' = ?s1\<lparr>ce_IngressSwTable := y, ce_numFlowMod := x\<rparr>"
    and out: "out = map (\<lambda>(c, fm). (c, OfFlowMod fm)) l"
    and l: "list_all2 (\<lambda>n (c, fm). findRelatedSwitchSocket (n_moduleId n) ?s1 = Inr c \<and> fm_tag fm = ?v) ns l"
    by blast
  have tags: "\<forall>(c, fm) \<in> set l. fm_tag fm = ?v"
    using l by (fastforce simp: list_all2_conv_all_nth in_set_conv_nth)
  have "next_version s' sid \<noteq> ?v"
    using assms(5) info by (auto simp: next_version_def s' smap_get_def dest: map_of_SomeD)
  moreover have "find (\<lambda>(k, x). vi_next x = ?v) (ce_StreamFlowVersionTable s) = None"
    using assms(5) by (auto simp: find_None_iff)
  ultimately show ?thesis
    using tags assms(4,6)
    by (auto simp: s' out smap_get_put handleAck_def smap_dflt_def Let_def activateMatchVersion_def)
qed

text \<open>The stream of the example waits for version 1 and is routed again.\<close>

theorem pending_reconfiguration_shares_version_witness:
  "\<exists>s' out. deployPath 7 (new_stream\<lparr>st_vlanid := 3, st_talker := 0xA0, st_listener := 0xA1\<rparr>) [1, 2] waiting_engine = Inr (s', out)
    \<and> ce_match_version s' = 2 \<and> length out = 2 \<and> (\<forall>(c, fm) \<in> set (flow_mods out). fm_tag fm = 2)"
proof -
  obtain s' out where run: "deployPath 7 (new_stream\<lparr>st_vlanid := 3, st_talker := 0xA0, st_listener := 0xA1\<rparr>) [1, 2] waiting_engine = Inr (s', out)"
    and len: "length out = 2"
    by (simp add: waiting_engine_def deployPath_def addMatchVersiontoStream_def Let_def insertAssignedPath_def wit_ctl_def new_stream_def
        vec_at_def example_topology_def findRelatedSwitchSocket_def wit_switch_def connected_switch_def createDesiredMatch_eq sendFlowModMessage_def)
  have "ce_isTaggingEnabled waiting_engine" "next_version waiting_engine 7 \<noteq> 0" "smap_wf (ce_AckWaitingPaths waiting_engine)"
    "\<forall>(k, x) \<in> set (ce_StreamFlowVersionTable waiting_engine). vi_next x \<noteq> ce_match_version waiting_engine"
    "ce_match_version waiting_engine = 2"
    by (simp_all add: waiting_engine_def wit_ctl_def next_version_def smap_wf_def)
  with pending_reconfiguration_shares_version [OF run, of 1 2] waiting_engine_simps(2) run len show ?thesis by auto
qed

end
