(* ===== verification/EngineTyping.thy ===== *)
theory EngineTyping
  imports VersionedUpdate
begin

text \<open>
  The tables of the controller applications are well formed whatever messages arrive: each map keeps its
  key order, a stream is stored under its own id, and the demands are numbered without repetition.
\<close>

definition engine_typed :: "'a config_engine_scheme \<Rightarrow> bool" where
  "engine_typed s \<longleftrightarrow> store_inv s \<and> smap_wf (ce_StreamFlowVersionTable s) \<and> smap_wf (ce_AckWaitingPaths s)
     \<and> smap_wf (ce_IngressSwTable s) \<and> smap_wf (ce_DemandtoStreamIdMap s)"

definition demands_numbered :: "'a opce_scheme \<Rightarrow> bool" where
  "demands_numbered s \<longleftrightarrow> 0 \<le> op_demandIndex s \<and> sorted_wrt (<) (map d_index (op_allDemands s))
     \<and> (\<forall>d \<in> set (op_allDemands s). 0 \<le> d_index d \<and> d_index d < op_demandIndex s)"

definition opce_typed :: "'a opce_scheme \<Rightarrow> bool" where
  "opce_typed s \<longleftrightarrow> engine_typed s \<and> demands_numbered s"

text \<open>A step of the engine keeps the tables and does not touch the state of the application above it.\<close>

definition typed_step :: "'a config_engine_scheme \<Rightarrow> 'a config_engine_scheme \<Rightarrow> bool" where
  "typed_step s s' \<longleftrightarrow> (engine_typed s \<longrightarrow> engine_typed s') \<and> config_engine.more s' = config_engine.more s"

lemma typed_step_refl [simp]: "typed_step s s"
  by (simp add: typed_step_def)

lemma typed_step_trans: "typed_step s s1 \<Longrightarrow> typed_step s1 s2 \<Longrightarrow> typed_step s s2"
  by (simp add: typed_step_def)

lemmas engine_typed_defs = engine_typed_def store_inv_def smap_put_wf smap_erase_wf

lemma typed_step_update [simp]:
  "typed_step s (s\<lparr>ce_prevAssignments := p\<rparr>)"
  "typed_step s (s\<lparr>ce_prevAssignments := p, ce_numFlowMod := x\<rparr>)"
  by (simp_all add: typed_step_def engine_typed_defs)

subsection \<open>Deploying paths\<close>

lemma addMatchVersiontoStream_typed: "typed_step s (addMatchVersiontoStream sid s)"
  by (auto simp: typed_step_def engine_typed_defs addMatchVersiontoStream_def Let_def split: option.split)

lemma install_loop_typed: "install_loop topo prev ns first dst mk s = Inr (s', out) \<Longrightarrow> \<exists>x. s' = s\<lparr>ce_numFlowMod := x\<rparr>"
proof (induction topo prev ns first dst mk s arbitrary: s' out rule: install_loop.induct)
  case (1 topo prev first dst mk s)
  then show ?case by (auto intro!: exI [of _ "ce_numFlowMod s"])
next
  case (2 topo prev current rest first dst mk s)
  then show ?case by (fastforce simp: rbind_Inr_iff sendFlowModMessage_def)
qed

lemma insertAssignedPath_typed:
  assumes "insertAssignedPath path vlan d h v s = Inr (s', out)"
  shows "typed_step s s'"
proof -
  from assms have "\<exists>n ns. path_nodes (oc_topology s) path = Inr (n # ns)"
    by (cases "path_nodes (oc_topology s) path"; cases "projr (path_nodes (oc_topology s) path)")
      (auto simp: insertAssignedPath_def split: if_splits)
  with assms obtain n ns dn hn where
    "install_loop (oc_topology s) hn (n # ns) True dn (\<lambda>inport. createDesiredMatch oxm_zero (of_nat inport) d h vlan v)
       (s\<lparr>ce_IngressSwTable := smap_put v (n_moduleId n) (ce_IngressSwTable s)\<rparr>) = Inr (s', out)"
    by (auto simp: insertAssignedPath_def rbind_Inr_iff Let_def simp del: install_loop.simps split: if_splits option.splits)
  from install_loop_typed [OF this] show ?thesis
    by (auto simp: typed_step_def engine_typed_defs)
qed

lemma deployPath_typed:
  assumes "deployPath sid st path s = Inr (s', out)"
  shows "typed_step s s'"
proof -
  let ?s1 = "s\<lparr>ce_AckWaitingPaths := smap_put (if ce_isTaggingEnabled s then ce_match_version s else 0) path (ce_AckWaitingPaths s)\<rparr>"
  have "typed_step s ?s1"
    by (simp add: typed_step_def engine_typed_defs)
  moreover have "typed_step (addMatchVersiontoStream sid ?s1) s'"
    using insertAssignedPath_typed assms unfolding deployPath_def Let_def .
  ultimately show ?thesis
    using addMatchVersiontoStream_typed typed_step_trans by blast
qed

lemma reconfigure_typed: "reconfigure old a s = Inr (s', out) \<Longrightarrow> typed_step s s'"
  by (auto simp: reconfigure_def rbind_Inr_iff Let_def typed_step_def engine_typed_defs dest!: deployPath_typed)

lemma prev_loop_typed: "prev_loop a ps s = Inr (seen, qs, s', out) \<Longrightarrow> typed_step s s'"
proof (induction ps arbitrary: s seen qs s' out)
  case (Cons p ps)
  then show ?case
    by (auto simp: rbind_Inr_iff split: if_splits dest!: reconfigure_typed intro: typed_step_trans)
qed simp

lemma configure_loop_typed: "configure_loop demandid sid st as s = Inr (s', out) \<Longrightarrow> typed_step s s'"
proof (induction "as" arbitrary: s s' out)
  case (Cons a as)
  then obtain seen prevs s0 out1 s2 out2 out3 where prev: "prev_loop a (ce_prevAssignments s) s = Inr (seen, prevs, s0, out1)"
    and new: "(if \<not> seen \<and> demandid \<noteq> -1 then
          rbind (deployPath sid st (a_path a) (s0\<lparr>ce_prevAssignments := prevs\<rparr>)) (\<lambda>(s2, out2).
            Inr (s2\<lparr>ce_prevAssignments := ce_prevAssignments s2 @ [a]\<rparr>, out2))
        else Inr (s0\<lparr>ce_prevAssignments := prevs\<rparr>, [])) = Inr (s2, out2)"
    and rest: "configure_loop demandid sid st as s2 = Inr (s', out3)"
    by (fastforce simp: rbind_Inr_iff Let_def)
  have "typed_step (s0\<lparr>ce_prevAssignments := prevs\<rparr>) s2"
    using new by (auto simp: rbind_Inr_iff split: if_splits dest!: deployPath_typed intro: typed_step_trans typed_step_update)
  with prev_loop_typed [OF prev] Cons.IH [OF rest] show ?case
    using typed_step_trans typed_step_update(1) by blast
qed simp

lemma configureDataPlane_typed: "configureDataPlane demandid sid as s = Inr (s', out) \<Longrightarrow> typed_step s s'"
  by (auto simp: configureDataPlane_def rbind_Inr_iff Let_def typed_step_def engine_typed_defs
      dest!: configure_loop_typed split: if_splits)

subsection \<open>Messages from switches\<close>

lemma receivePacketIn_typed: "receivePacketIn c m s = Inr (s', out) \<Longrightarrow> typed_step s s'"
  by (auto simp: receivePacketIn_def handleAck_def activateMatchVersion_def rbind_Inr_iff Let_def typed_step_def engine_typed_defs
      split: option.splits if_splits)

lemma opce_typed_step: "typed_step s s' \<Longrightarrow> opce_typed s \<Longrightarrow> opce_typed s'" for s s' :: "'a opce_scheme"
  by (cases s; cases s') (auto simp: typed_step_def opce_typed_def demands_numbered_def)

lemma saveTalker_typed: "opce_typed s \<Longrightarrow> opce_typed (saveTalker c m ta s)"
  using addStreamToStore_inv [of s "new_stream\<lparr>st_talker := ta_source ta, st_talkerInPort := uint (OFB_IN_PORT m),
      st_talkerSwInfo := findSwitchInfoFor c s, st_vlanid := ta_vlan ta, st_sid := ta_streamID ta, st_listener := ta_destination ta\<rparr>"]
  by (auto simp: opce_typed_def engine_typed_def demands_numbered_def saveTalker_def addStreamToStore_def)

lemma requestPathforTalker_typed:
  assumes run: "requestPathforTalker optimize ta s = Inr (s', out)" and ok: "opce_typed s"
  shows "opce_typed s'"
proof -
  let ?s1 = "s\<lparr>op_demandIndex := op_demandIndex s + 1, op_receivedTTDemandCounter := op_receivedTTDemandCounter s + 1\<rparr>"
  have s1: "opce_typed ?s1" "opce_typed (?s1\<lparr>op_demandIndex := op_demandIndex s\<rparr>)"
    using ok by (auto simp: opce_typed_def engine_typed_def store_inv_def demands_numbered_def)
  have s2: "opce_typed (?s1\<lparr>op_allDemands := op_allDemands s @ [d], op_allAssignments := r\<rparr>)" if "d_index d = op_demandIndex s" for d r
    using ok that by (auto simp: opce_typed_def engine_typed_def store_inv_def demands_numbered_def sorted_wrt_append)
  from run obtain st i where st: "getStreambyId (ta_streamID ta) ?s1 = Inr st" "st_talkerSwInfo st = Some i"
    unfolding requestPathforTalker_def Let_def by (fastforce simp: rbind_Inr_iff split: option.splits)
  with run obtain src dst where "si_topoindex (oc_switchesList s ! i) = Some src"
    "Option.bind (find_host (ta_destination ta) (oc_HostProfileTable s)) hp_connectedSw_topo_index = Some dst"
    unfolding requestPathforTalker_def Let_def
    by (cases "si_topoindex (oc_switchesList s ! i)";
        cases "Option.bind (find_host (ta_destination ta) (oc_HostProfileTable s)) hp_connectedSw_topo_index") (auto split: if_splits)
  with run st consider "s' = ?s1" | "s' = ?s1\<lparr>op_demandIndex := op_demandIndex s\<rparr>"
    | d r where
        "configureDataPlane (op_demandIndex s) (ta_streamID ta) r (?s1\<lparr>op_allDemands := op_allDemands s @ [d], op_allAssignments := r\<rparr>) = Inr (s', out)"
        "d_index d = op_demandIndex s"
    unfolding requestPathforTalker_def Let_def
    by (fastforce split: if_splits)
  then show ?thesis
    using s1 s2 opce_typed_step [OF configureDataPlane_typed] by cases blast+
qed

lemma handleRequest_typed: "handleRequest optimize c msg s = Inr (s', out) \<Longrightarrow> opce_typed s \<Longrightarrow> opce_typed s'"
  by (auto simp: handleRequest_def dest: requestPathforTalker_typed [OF _ saveTalker_typed] split: of_msg.splits option.splits encapsulated.splits srp_frame.splits)

lemma packetInSignal_typed: "packetInSignal optimize c msg s = Inr (s', out) \<Longrightarrow> opce_typed s \<Longrightarrow> opce_typed s'"
  by (auto simp: packetInSignal_def rbind_Inr_iff dest!: handleRequest_typed receivePacketIn_typed dest: opce_typed_step)

lemma signalEffects_typed: "signalEffects optimize es s = Inr (s', out) \<Longrightarrow> opce_typed s \<Longrightarrow> opce_typed s'"
  by (induction optimize es s arbitrary: s' out rule: signalEffects.induct)
    (fastforce simp: rbind_Inr_iff dest: packetInSignal_typed)+

lemma processQueuedMsg_more: "processQueuedMsg c version m s = Inr (s', es) \<Longrightarrow> of_controller.more s' = of_controller.more s"
  by (auto simp: processQueuedMsg_def handleFeaturesReply_def registerConnection_def handlePacketIn_def rbind_Inr_iff Let_def
      split: of_msg.splits option.splits if_splits)

lemma opce_typed_more: "of_controller.more s' = of_controller.more s \<Longrightarrow> opce_typed s' = opce_typed s" for s s' :: "'a opce_scheme"
  by (cases s; cases s') (simp add: opce_typed_def engine_typed_def store_inv_def demands_numbered_def)

text \<open>
  C27: The state of the controller keeps its types under every message from a switch: the five maps stay
  ordered by key, which is what lookups rely on, every stream is stored under its own id, and the demands
  in the list carry distinct numbers in ascending order, all below the number the next demand gets, although
  a demand without a route gives its number back.
\<close>

theorem controller_state_typed:
  assumes "serveMessage optimize c version m s = Inr (s', out)" and "opce_typed s"
  shows "opce_typed s'"
proof -
  from assms(1) obtain s1 es where "processQueuedMsg c version m s = Inr (s1, es)" and run: "signalEffects optimize es s1 = Inr (s', out)"
    by (auto simp: serveMessage_def rbind_Inr_iff)
  with assms(2) have "opce_typed s1" using opce_typed_more processQueuedMsg_more by blast
  with run show ?thesis by (rule signalEffects_typed)
qed

text \<open>The first talker advertise of the example.\<close>

theorem controller_state_typed_witness:
  "\<exists>s' out. serveMessage wit_optimize 1 1 wit_packet_in wit_ctl = Inr (s', out) \<and> length out = 3 \<and> opce_typed s'"
proof -
  obtain s' out where "serveMessage wit_optimize 1 1 wit_packet_in wit_ctl = Inr (s', out)" "length out = 3"
    using wit_serve_step by auto
  moreover have "opce_typed wit_ctl"
    by (simp add: opce_typed_def engine_typed_def store_inv_def demands_numbered_def wit_ctl_def smap_wf_def)
  ultimately show ?thesis using controller_state_typed [of wit_optimize 1 1 wit_packet_in wit_ctl] by blast
qed

end
