(* ===== verification/SRProtocol.thy ===== *)
theory SRProtocol
  imports SRPTable SwitchRelay
begin

text \<open>
  The stream reservation protocol of a switch (CoRE4INET/services/avb/SRP/SRProtocol) on top of the
  reservation table: talkers are registered and announced on the other ports, a listener is admitted
  if the bandwidth of its port suffices, otherwise a failure goes back towards the talker. The modules
  around it (ports, shapers, channels) are the record \<open>srp_env\<close>. Its messages are the \<open>srp\_frame\<close>s.
\<close>

unbundle bit_operations_syntax

subsection \<open>Messages\<close>

text \<open>\<open>ExtendedIeee802Ctrl\<close>; the destination is always the SRP address.\<close>

record srp_ctrl =
  sc_switchPort :: int
  sc_notSwitchPort :: int

type_synonym srp_out = "srp_frame \<times> srp_ctrl"

definition SWITCH_PORT_BROADCAST :: int where
  "SWITCH_PORT_BROADCAST = -1"

definition to_port :: "nat \<Rightarrow> srp_ctrl" where
  "to_port i = \<lparr>sc_switchPort = int i, sc_notSwitchPort = -1\<rparr>"

subsection \<open>State and surroundings\<close>

record sr_protocol =
  pcpSRClassA :: "8 word"
  pcpSRClassB :: "8 word"
  priortyAndRankSRClassA :: "8 word"
  priortyAndRankSRClassB :: "8 word"

text \<open>
  \<open>env_port\<close>: the submodule of the switch for a port number, \<open>nullptr\<close> if there is none;
  \<open>env_portIndex\<close>: the index of a module that has the name of a port; \<open>env_higher\<close>: bandwidth of higher
  priority at the shaper of a port; \<open>env_datarate\<close>: the nominal rate of its channel.
\<close>

record srp_env =
  env_port :: "int \<Rightarrow> cmodule"
  env_portIndex :: "cmodule \<Rightarrow> nat option"
  env_higher :: "cmodule \<Rightarrow> 64 word"
  env_datarate :: "cmodule \<Rightarrow> 64 word"
  env_reservable :: rat
  env_window :: obs_window

definition priority_and_rank :: "8 word \<Rightarrow> 8 word" where
  "priority_and_rank pcp = 0x10 OR push_bit 5 pcp"

text \<open>\<open>handleParameterChange\<close>: the parameters that changed.\<close>

definition pcp_parameter :: "int \<Rightarrow> 8 word res" where
  "pcp_parameter v = (if v < 0 \<or> 7 < v then Inl (RuntimeError ''parameter out of range'') else Inr (word_of_int v))"

definition handleParameterChange_srp :: "int option \<Rightarrow> int option \<Rightarrow> sr_protocol \<Rightarrow> sr_protocol res" where
  "handleParameterChange_srp a b p0 =
     rbind (case a of None \<Rightarrow> Inr p0
            | Some v \<Rightarrow> rbind (pcp_parameter v) (\<lambda>c. Inr (p0\<lparr>pcpSRClassA := c, priortyAndRankSRClassA := priority_and_rank c\<rparr>))) (\<lambda>p1.
     rbind (case b of None \<Rightarrow> Inr p1
            | Some v \<Rightarrow> rbind (pcp_parameter v) (\<lambda>c. Inr (p1\<lparr>pcpSRClassB := c, priortyAndRankSRClassB := priority_and_rank c\<rparr>))) (\<lambda>p2.
     if pcpSRClassA p2 = pcpSRClassB p2 then Inl (RuntimeError ''PCP value for SRClass A and B are the same!'')
     else Inr p2))"

subsection \<open>Signals of the table\<close>

definition priority_of_class :: "sr_protocol \<Rightarrow> sr_class \<Rightarrow> 8 word" where
  "priority_of_class p c = (case c of SR_CLASS_A \<Rightarrow> priortyAndRankSRClassA p | SR_CLASS_B \<Rightarrow> priortyAndRankSRClassB p)"

definition talker_pdu :: "sr_protocol \<Rightarrow> talker_entry \<Rightarrow> srp_frame" where
  "talker_pdu p e =
     TalkerAdvertise \<lparr>ta_streamID = te_streamId e, ta_source = 0, ta_destination = te_address e, ta_vlan = te_vlan_id e,
       ta_maxFrameSize = ucast (te_framesize e), ta_maxIntervalFrames = te_intervalFrames e,
       ta_priorityAndRank = priority_of_class p (te_srClass e)\<rparr>"

text \<open>A message to the port of the talker, if the talker is a port and no application.\<close>

definition to_talker :: "simtime \<Rightarrow> srp_env \<Rightarrow> 64 word \<Rightarrow> 16 word \<Rightarrow> srp_frame \<Rightarrow> srp_table \<Rightarrow> srp_table \<times> srp_out list" where
  "to_talker now env sid vid pdu t =
     (case getTalkerForStreamId now sid vid t of (m, t') \<Rightarrow>
        (t', if m = nullptr then [] else (case env_portIndex env m of None \<Rightarrow> [] | Some i \<Rightarrow> [(pdu, to_port i)])))"

definition receiveSignal_srp :: "simtime \<Rightarrow> srp_env \<Rightarrow> sr_protocol \<Rightarrow> srp_signal \<Rightarrow> srp_table \<Rightarrow> srp_table \<times> srp_out list" where
  "receiveSignal_srp now env p sig t =
     (case sig of
        NF_AVB_TALKER_REGISTERED e \<Rightarrow>
          (t, [(talker_pdu p e, \<lparr>sc_switchPort = SWITCH_PORT_BROADCAST,
                 sc_notSwitchPort = (case env_portIndex env (te_module e) of Some i \<Rightarrow> int i | None \<Rightarrow> -1)\<rparr>)])
      | NF_AVB_LISTENER_REGISTERED l \<Rightarrow> to_talker now env (le_streamId l) (le_vlan_id l) (ListenerReady (le_streamId l) (le_vlan_id l)) t
      | NF_AVB_LISTENER_UPDATED l \<Rightarrow> to_talker now env (le_streamId l) (le_vlan_id l) (ListenerReady (le_streamId l) (le_vlan_id l)) t
      | _ \<Rightarrow> (t, []))"

fun deliver_signals :: "simtime \<Rightarrow> srp_env \<Rightarrow> sr_protocol \<Rightarrow> srp_signal list \<Rightarrow> srp_table \<Rightarrow> srp_table \<times> srp_out list" where
  "deliver_signals now env p [] t = (t, [])"
| "deliver_signals now env p (g # gs) t =
     (case receiveSignal_srp now env p g t of (t1, o1) \<Rightarrow>
      case deliver_signals now env p gs t1 of (t2, o2) \<Rightarrow> (t2, o1 @ o2))"

text \<open>
  The protocol hears the signals of a table operation while it runs. The ageing a listener signal may
  trigger has already happened at the start of the message, so they can be delivered after the operation.
\<close>

definition with_signals :: "simtime \<Rightarrow> srp_env \<Rightarrow> sr_protocol \<Rightarrow> srp_table \<Rightarrow> (bool \<times> srp_table) res
    \<Rightarrow> (srp_table \<times> srp_out list) res" where
  "with_signals now env p t r =
     rbind r (\<lambda>(b, t'). Inr (deliver_signals now env p (drop (length (srp_emitted t)) (srp_emitted t')) t'))"

subsection \<open>Messages from the ports\<close>

definition class_of_priority :: "sr_protocol \<Rightarrow> 8 word \<Rightarrow> sr_class" where
  "class_of_priority p prio =
     (if prio = priortyAndRankSRClassA p then SR_CLASS_A
      else if prio = priortyAndRankSRClassB p then SR_CLASS_B else SR_CLASS_A)"

definition handle_talker :: "simtime \<Rightarrow> srp_env \<Rightarrow> sr_protocol \<Rightarrow> cmodule \<Rightarrow> talker_advertise \<Rightarrow> srp_table
    \<Rightarrow> (srp_table \<times> srp_out list) res" where
  "handle_talker now env p port ta t =
     with_signals now env p t
       (updateTalkerWithStreamId now (ta_streamID ta) port (ta_destination ta) (class_of_priority p (ta_priorityAndRank ta))
          (ucast (ta_maxFrameSize ta)) (ta_maxIntervalFrames ta) (ta_vlan ta) (drop_bit 5 (ta_priorityAndRank ta AND 0xE0)) False t)"

text \<open>The admission test: sums of \<open>unsigned long\<close>, compared as \<open>double\<close>.\<close>

definition admits :: "srp_env \<Rightarrow> cmodule \<Rightarrow> 64 word \<Rightarrow> 64 word \<Rightarrow> bool" where
  "admits env port utilized required \<longleftrightarrow>
     (of_int (uint (utilized + env_higher env port + required)) :: rat) \<le> of_int (uint (env_datarate env port)) * env_reservable env"

definition handle_listener :: "simtime \<Rightarrow> srp_env \<Rightarrow> sr_protocol \<Rightarrow> cmodule \<Rightarrow> 64 word \<Rightarrow> 16 word \<Rightarrow> srp_table
    \<Rightarrow> (srp_table \<times> srp_out list) res" where
  "handle_listener now env p port sid vid t0 =
     (case getListenersForStreamId now sid vid t0 of (listeners, t1) \<Rightarrow>
      let update = port \<in> set listeners in
      rbind (getBandwidthForModule (env_window env) now port t1) (\<lambda>(utilized, t2).
      if port = nullptr then Inl (NullDeref ''port'') else
      rbind (getBandwidthForStream (env_window env) now sid vid t2) (\<lambda>(required, t3).
      if update \<or> admits env port utilized required
      then with_signals now env p t3 (updateListenerWithStreamId now sid port vid False t3)
      else (case getListenersForStreamId now sid vid t3 of (others, t4) \<Rightarrow>
              Inr (to_talker now env sid vid
                (if others \<noteq> [] then ListenerReadyFailed sid vid else ListenerAskingFailed sid vid) t4)))))"

definition handleMessage_srp :: "simtime \<Rightarrow> srp_env \<Rightarrow> sr_protocol \<Rightarrow> int \<Rightarrow> srp_frame \<Rightarrow> srp_table
    \<Rightarrow> (srp_table \<times> srp_out list) res" where
  "handleMessage_srp now env p arrivedOn pdu t =
     (let port = env_port env arrivedOn in
      case as_talker pdu of
        Some ta \<Rightarrow> handle_talker now env p port ta t
      | None \<Rightarrow>
          (case as_listener_ready pdu of
             Some (sid, vid) \<Rightarrow> handle_listener now env p port sid vid t
           | None \<Rightarrow>
               (case as_asking_failed pdu of
                  Some (sid, vid) \<Rightarrow> Inr (to_talker now env sid vid (ListenerAskingFailed sid vid) t)
                | None \<Rightarrow> Inr (t, []))))"

text \<open>A message arrives at the gate \<open>in\<close> with its control information; anything else is deleted.\<close>

definition arrive_srp :: "simtime \<Rightarrow> srp_env \<Rightarrow> sr_protocol \<Rightarrow> bool \<Rightarrow> int option \<Rightarrow> srp_frame \<Rightarrow> srp_table
    \<Rightarrow> (srp_table \<times> srp_out list) res" where
  "arrive_srp now env p onIn etherctrl pdu t =
     (if \<not> onIn then Inr (t, [])
      else (case etherctrl of
              None \<Rightarrow> Inl (RuntimeError ''packet from lower layer received without Ieee802Ctrl'')
            | Some arrivedOn \<Rightarrow> handleMessage_srp now env p arrivedOn pdu t))"

end
