(* ===== verification/SRPAdmission.thy ===== *)
theory SRPAdmission
  imports SRProtocol
begin

text \<open>
  Admission control of the stream reservation protocol: what the listeners of a port reserve stays within
  the share of its data rate that may be reserved, as long as no talker raises the demand of a stream that
  is already in use.
\<close>

subsection \<open>The load of a port\<close>

definition port_regs :: "cmodule \<Rightarrow> srp_table \<Rightarrow> (16 word \<times> 64 word) set" where
  "port_regs m t = {(v, s). (v, s, m) \<in> set (srp_registrations t)}"

definition stream_load :: "obs_window \<Rightarrow> srp_table \<Rightarrow> 16 word \<times> 64 word \<Rightarrow> int" where
  "stream_load win t x =
     (case smap_get (snd x) (smap_inner (fst x) (talkerTables t)) of Some e \<Rightarrow> uint (talker_bandwidth win e) | None \<Rightarrow> 0)"

definition port_load :: "obs_window \<Rightarrow> cmodule \<Rightarrow> srp_table \<Rightarrow> int" where
  "port_load win m t = (\<Sum>x \<in> port_regs m t. stream_load win t x)"

lemma finite_port_regs [simp]: "finite (port_regs m t)"
proof -
  have "port_regs m t \<subseteq> (\<lambda>(v, s, k). (v, s)) ` set (srp_registrations t)"
    by (force simp: port_regs_def)
  then show ?thesis by (rule finite_subset) simp
qed

lemma stream_load_nonneg [simp]: "0 \<le> stream_load win t x"
  by (simp add: stream_load_def split: option.split)

lemma port_load_nonneg [simp]: "0 \<le> port_load win m t"
  by (simp add: port_load_def sum_nonneg)

lemma port_load_mono:
  assumes "talkerTables t' = talkerTables t" and "port_regs m t' \<subseteq> port_regs m t"
  shows "port_load win m t' \<le> port_load win m t"
proof -
  have "stream_load win t' = stream_load win t" using assms(1) by (simp add: fun_eq_iff stream_load_def)
  then show ?thesis unfolding port_load_def using assms(2) by (simp add: sum_mono2)
qed

text \<open>Every registration is counted once.\<close>

lemma distinct_keyed_concat:
  assumes "smap_wf m" and "\<forall>(k, x) \<in> set m. distinct (f k x) \<and> (\<forall>y \<in> set (f k x). key y = k)"
  shows "distinct (concat (map (\<lambda>(k, x). f k x) m))"
  using assms
proof (induction m)
  case (Cons p m)
  obtain k x where p: "p = (k, x)" by (cases p)
  have "\<forall>(j, z) \<in> set m. k < j" using Cons.prems(1) p by (force simp: smap_wf_Cons)
  then have "set (f k x) \<inter> (\<Union>(j, z) \<in> set m. set (f j z)) = {}"
    using Cons.prems(2) p by fastforce
  then show ?case using Cons p by (auto simp: smap_wf_Cons)
qed simp

lemma distinct_registrations:
  assumes "srp_inv t"
  shows "distinct (srp_registrations t)"
proof -
  have one: "distinct (concat (map (\<lambda>(s, ls). map (\<lambda>(m, l). (v, s, m)) ls) tab))" if "ltable_ok v tab" for v tab
  proof (rule distinct_keyed_concat [where key = "\<lambda>(v, s, m). s"])
    show "smap_wf tab" using that by (simp add: ltable_ok_def)
    show "\<forall>(s, ls) \<in> set tab. distinct (map (\<lambda>(m, l). (v, s, m)) ls) \<and> (\<forall>y \<in> set (map (\<lambda>(m, l). (v, s, m)) ls). (case y of (v, s, m) \<Rightarrow> s) = s)"
    proof clarify
      fix s ls assume "(s, ls) \<in> set tab"
      then have "smap_wf ls" using that by (auto simp: ltable_ok_def smap_all_def llist_ok_def)
      then have "distinct (map fst ls)" by (simp add: smap_wf_def strict_sorted_iff)
      then show "distinct (map (\<lambda>(m, l). (v, s, m)) ls) \<and> (\<forall>y \<in> set (map (\<lambda>(m, l). (v, s, m)) ls). (case y of (v, s, m) \<Rightarrow> s) = s)"
        by (fastforce simp: distinct_map inj_on_def)
    qed
  qed
  show ?thesis
    unfolding srp_registrations_def
  proof (rule distinct_keyed_concat [where key = fst])
    show "smap_wf (listenerTables t)" using assms by (simp add: srp_inv_def)
    have "\<forall>(v, tab) \<in> set (listenerTables t). ltable_ok v tab" using assms by (auto simp: srp_inv_def smap_all_def)
    then show "\<forall>(v, tab) \<in> set (listenerTables t). distinct (concat (map (\<lambda>(s, ls). map (\<lambda>(m, l). (v, s, m)) ls) tab))
        \<and> (\<forall>y \<in> set (concat (map (\<lambda>(s, ls). map (\<lambda>(m, l). (v, s, m)) ls) tab)). fst y = v)"
      using one by auto
  qed
qed

lemma bandwidth_loop_sum:
  "distinct rs \<Longrightarrow> bandwidth_loop f m tts rs acc = Inr b \<Longrightarrow>
     b = acc + word_of_int (\<Sum>x \<in> {(v, s). (v, s, m) \<in> set rs}.
       case smap_get (snd x) (smap_inner (fst x) tts) of Some e \<Rightarrow> uint (f e) | None \<Rightarrow> 0)"
proof (induction rs arbitrary: acc)
  case (Cons r rs)
  obtain v s k where r: "r = (v, s, k)" by (cases r)
  show ?case
  proof (cases "k = m")
    case True
    with Cons.prems r obtain e where e: "smap_get s (smap_inner v tts) = Some e"
      and rest: "bandwidth_loop f m tts rs (acc + f e) = Inr b"
      by (auto split: option.splits)
    have "finite {(v, s). (v, s, m) \<in> set rs}"
      by (rule finite_subset [of _ "(\<lambda>(v, s, k). (v, s)) ` set rs"]) force+
    moreover have "{(v', s'). (v', s', m) \<in> set (r # rs)} = insert (v, s) {(v, s). (v, s, m) \<in> set rs}"
      using r True by auto
    moreover have "(v, s) \<notin> {(v, s). (v, s, m) \<in> set rs}"
      using Cons.prems(1) r True by simp
    ultimately show ?thesis
      using Cons.IH [OF _ rest] Cons.prems(1) e by (simp add: add.assoc)
  next
    case False
    then have "{(v', s'). (v', s', m) \<in> set (r # rs)} = {(v, s). (v, s, m) \<in> set rs}"
      using r by auto
    with Cons False r show ?thesis by simp
  qed
qed simp

lemma bandwidth_is_load:
  assumes "srp_inv t" and "bandwidth_loop (talker_bandwidth win) m (talkerTables t) (srp_registrations t) 0 = Inr b"
  shows "b = word_of_int (port_load win m t)"
  using bandwidth_loop_sum [OF distinct_registrations [OF assms(1)] assms(2)]
  by (simp add: port_load_def port_regs_def stream_load_def)

subsection \<open>Ageing\<close>

text \<open>What a query may do to the table.\<close>

definition shrinks :: "srp_table \<Rightarrow> srp_table \<Rightarrow> bool" where
  "shrinks t t' \<longleftrightarrow> talkerTables t' = talkerTables t \<and> (srp_inv t \<longrightarrow> srp_inv t')
     \<and> (srp_inv t \<and> srp_linked t \<longrightarrow> srp_linked t') \<and> (srp_inv t \<longrightarrow> (\<forall>m. port_regs m t' \<subseteq> port_regs m t))"

lemma shrinks_refl [simp]: "shrinks t t"
  by (simp add: shrinks_def)

lemma shrinks_trans: "shrinks t t1 \<Longrightarrow> shrinks t1 t2 \<Longrightarrow> shrinks t t2"
  unfolding shrinks_def by (metis subset_trans)

lemma port_regs_iff:
  assumes "srp_inv t"
  shows "(v, s) \<in> port_regs m t \<longleftrightarrow> (\<exists>ls. smap_get s (smap_inner v (listenerTables t)) = Some ls \<and> m \<in> fst ` set ls)"
  using registrations_mem [OF assms] by (simp add: port_regs_def)

lemma ageing_shrinks: "shrinks t (removeAgedEntriesIfNeeded_srp now t)"
proof -
  have tab: "talkerTables (removeAgedEntriesIfNeeded_srp now t) = talkerTables t"
    by (simp add: removeAgedEntriesIfNeeded_srp_def removeAgedEntries_srp_tables)
  have "port_regs m (removeAgedEntriesIfNeeded_srp now t) \<subseteq> port_regs m t" if inv: "srp_inv t" for m
  proof (cases "srp_nextAging t \<noteq> 0 \<and> now \<ge> srp_nextAging t \<and> srp_agingTime t \<noteq> 0")
    case True
    have inv': "srp_inv (removeAgedEntries_srp now t)" by (rule removeAgedEntries_srp_inv [OF inv])
    have wf: "smap_wf (smap_inner v (listenerTables t))" for v
      using srp_inv_inner(2) [OF inv] by (simp add: ltable_ok_def)
    show ?thesis
      using True by (auto simp: removeAgedEntriesIfNeeded_srp_def port_regs_iff [OF inv] port_regs_iff [OF inv']
          removeAgedEntries_srp_tables smap_inner_aged smap_get_aged_ltable [OF wf] aged_llist_def
          split: option.splits if_splits)
  next
    case False
    then have "removeAgedEntriesIfNeeded_srp now t = t"
      by (auto simp: removeAgedEntriesIfNeeded_srp_def removeAgedEntries_srp_tables)
    then show ?thesis by simp
  qed
  then show ?thesis
    by (simp add: shrinks_def tab removeAgedEntriesIfNeeded_srp_inv removeAgedEntriesIfNeeded_srp_linked)
qed

text \<open>A second ageing at the same time removes nothing.\<close>

lemma aged_twice: "aged_ltable now ag (aged_ltable now ag tab) = aged_ltable now ag tab"
proof -
  have "aged_llist now ag (aged_llist now ag ls) = aged_llist now ag ls" for ls
    by (simp add: aged_llist_def)
  then show ?thesis
    by (induction tab) (auto simp: aged_ltable_def)
qed

lemma ageing_twice:
  "listenerTables (removeAgedEntriesIfNeeded_srp now (removeAgedEntriesIfNeeded_srp now t))
     = listenerTables (removeAgedEntriesIfNeeded_srp now t)"
proof (cases "srp_nextAging t \<noteq> 0 \<and> now \<ge> srp_nextAging t \<and> srp_agingTime t \<noteq> 0")
  case True
  then have "removeAgedEntriesIfNeeded_srp now t = removeAgedEntries_srp now t"
    by (simp add: removeAgedEntriesIfNeeded_srp_def)
  with True show ?thesis
    by (auto simp: removeAgedEntriesIfNeeded_srp_def removeAgedEntries_srp_tables aged_twice o_def split_beta)
next
  case False
  then have "removeAgedEntriesIfNeeded_srp now t = t"
    by (auto simp: removeAgedEntriesIfNeeded_srp_def removeAgedEntries_srp_tables)
  then show ?thesis by simp
qed

lemma ageing_idle_regs:
  "port_regs m (removeAgedEntriesIfNeeded_srp now (removeAgedEntriesIfNeeded_srp now t)) = port_regs m (removeAgedEntriesIfNeeded_srp now t)"
  by (simp add: port_regs_def srp_registrations_def ageing_twice)

subsection \<open>Queries and signals\<close>

lemma to_talker_shrinks: "shrinks t (fst (to_talker now env sid vid pdu t))"
  by (auto simp: to_talker_def getTalkerForStreamId_def Let_def ageing_shrinks split: option.split)

lemma receiveSignal_shrinks: "shrinks t (fst (receiveSignal_srp now env p g t))"
  by (cases g) (simp_all add: receiveSignal_srp_def to_talker_shrinks)

lemma deliver_signals_shrinks: "shrinks t (fst (deliver_signals now env p gs t))"
proof (induction now env p gs t rule: deliver_signals.induct)
  case (2 now env p g gs t)
  obtain t1 o1 where one: "receiveSignal_srp now env p g t = (t1, o1)" by (cases "receiveSignal_srp now env p g t")
  with "2.IH" [OF one [symmetric]] receiveSignal_shrinks [of t now env p g] show ?case
    by (auto intro: shrinks_trans split: prod.split)
qed simp

lemma with_signals_Inr:
  "with_signals now env p t r = Inr (t', out) \<Longrightarrow> \<exists>b t1. r = Inr (b, t1) \<and> shrinks t1 t'"
proof -
  assume run: "with_signals now env p t r = Inr (t', out)"
  then obtain b t1 where "r = Inr (b, t1)" and "deliver_signals now env p (drop (length (srp_emitted t)) (srp_emitted t1)) t1 = (t', out)"
    by (auto simp: with_signals_def rbind_Inr_iff)
  with deliver_signals_shrinks [of t1 now env p "drop (length (srp_emitted t)) (srp_emitted t1)"] show ?thesis by simp
qed

subsection \<open>Talkers stay small\<close>

text \<open>The surroundings: rates below 2^62 bit/s, at most all of it reservable, observation windows of at least 125 us.\<close>

definition env_ok :: "srp_env \<Rightarrow> bool" where
  "env_ok env \<longleftrightarrow> 0 \<le> env_reservable env \<and> env_reservable env \<le> 1 \<and> (\<forall>c. 1 / 8000 \<le> env_window env c)
     \<and> (\<forall>m. uint (env_higher env m) < 2 ^ 62 \<and> uint (env_datarate env m) < 2 ^ 62)"

definition small_talkers :: "srp_table \<Rightarrow> bool" where
  "small_talkers t \<longleftrightarrow> (\<forall>v s e. smap_get s (smap_inner v (talkerTables t)) = Some e \<longrightarrow> uint (te_framesize e) < 2 ^ 16)"

lemma talker_bandwidth_bound:
  assumes "uint (te_framesize e) < 2 ^ 16" and "1 / 8000 \<le> win (te_srClass e)"
  shows "uint (talker_bandwidth win e) < 2 ^ 48"
proof -
  let ?w = "win (te_srClass e)"
  let ?size = "uint ((te_framesize e + 1 + 7 + 1) * 8 + 96)"
  let ?x = "(1 / ?w) * of_int (uint (te_intervalFrames e)) * of_int ?size"
  have "uint (te_framesize e + 1 + 7 + 1) = uint (te_framesize e) + 9"
    using assms(1) by (simp add: uint_word_ariths)
  then have size: "?size = (uint (te_framesize e) + 9) * 8 + 96"
    using assms(1) by (simp add: uint_word_ariths)
  have w: "0 < ?w" using assms(2) by linarith
  then have inv: "1 / ?w \<le> 8000" using assms(2) by (simp add: field_simps)
  have ivf: "uint (te_intervalFrames e) < 2 ^ 16" using uint_lt2p [of "te_intervalFrames e"] by simp
  have "?x \<le> 8000 * of_int (uint (te_intervalFrames e)) * of_int ?size"
    by (intro mult_right_mono inv) (simp_all only: of_int_0_le_iff uint_ge_0)
  also have "\<dots> \<le> 8000 * of_int (2 ^ 16 - 1) * of_int ((2 ^ 16 + 8) * 8 + 96)"
  proof (intro mult_mono)
    show "(of_int (uint (te_intervalFrames e)) :: rat) \<le> of_int (2 ^ 16 - 1)"
      using ivf by (simp only: of_int_le_iff)
    show "(of_int ?size :: rat) \<le> of_int ((2 ^ 16 + 8) * 8 + 96)"
      unfolding size of_int_le_iff using assms(1) by simp
  qed (simp_all only: of_int_0_le_iff uint_ge_0, simp)
  also have "\<dots> \<le> of_int (2 ^ 48 - 1)" by simp
  finally have "\<lceil>?x\<rceil> \<le> 2 ^ 48 - 1" by (simp only: ceiling_le_iff)
  moreover have "0 \<le> ?x"
    using w by (intro mult_nonneg_nonneg) (simp, simp_all only: of_int_0_le_iff uint_ge_0)
  then have "0 \<le> \<lceil>?x\<rceil>" using ceiling_mono by fastforce
  ultimately show ?thesis
    unfolding talker_bandwidth_def bandwidthFromSizeAndInterval_def
    by (simp add: uint_word_of_int)
qed

subsection \<open>The invariant\<close>

definition within_limit :: "srp_env \<Rightarrow> srp_table \<Rightarrow> bool" where
  "within_limit env t \<longleftrightarrow> (\<forall>m. port_regs m t \<noteq> {} \<longrightarrow>
     (of_int (port_load (env_window env) m t + uint (env_higher env m)) :: rat)
       \<le> of_int (uint (env_datarate env m)) * env_reservable env)"

definition admission_inv :: "srp_env \<Rightarrow> srp_table \<Rightarrow> bool" where
  "admission_inv env t \<longleftrightarrow> srp_inv t \<and> srp_linked t \<and> small_talkers t \<and> within_limit env t"

lemma admission_inv_shrinks:
  assumes "shrinks t t'" and "admission_inv env t"
  shows "admission_inv env t'"
proof -
  have tab: "talkerTables t' = talkerTables t" and regs: "\<And>m. port_regs m t' \<subseteq> port_regs m t"
    and inv: "srp_inv t'" "srp_linked t'"
    using assms by (auto simp: shrinks_def admission_inv_def)
  have "within_limit env t'"
    unfolding within_limit_def
  proof (intro allI impI)
    fix m assume "port_regs m t' \<noteq> {}"
    with regs [of m] have "port_regs m t \<noteq> {}" by auto
    with assms(2) have "(of_int (port_load (env_window env) m t + uint (env_higher env m)) :: rat) \<le> of_int (uint (env_datarate env m)) * env_reservable env"
      by (auto simp: admission_inv_def within_limit_def)
    moreover have "port_load (env_window env) m t' + uint (env_higher env m) \<le> port_load (env_window env) m t + uint (env_higher env m)"
      using port_load_mono [OF tab regs] by simp
    then have "(of_int (port_load (env_window env) m t' + uint (env_higher env m)) :: rat)
        \<le> of_int (port_load (env_window env) m t + uint (env_higher env m))"
      by (simp only: of_int_le_iff)
    ultimately show "(of_int (port_load (env_window env) m t' + uint (env_higher env m)) :: rat)
        \<le> of_int (uint (env_datarate env m)) * env_reservable env" by linarith
  qed
  then show ?thesis using assms(2) inv tab by (simp add: admission_inv_def small_talkers_def)
qed

text \<open>A port is never loaded beyond what a machine word holds, whether something is reserved on it or not.\<close>

lemma load_small:
  assumes "admission_inv env t" and "env_ok env"
  shows "port_load (env_window env) m t + uint (env_higher env m) < 2 ^ 62"
proof (cases "port_regs m t = {}")
  case True
  then show ?thesis using assms(2) by (simp add: port_load_def env_ok_def)
next
  case False
  have "(of_int (port_load (env_window env) m t + uint (env_higher env m)) :: rat) \<le> of_int (uint (env_datarate env m)) * env_reservable env"
    using assms(1) False by (auto simp: admission_inv_def within_limit_def)
  also have "\<dots> \<le> of_int (uint (env_datarate env m)) * 1"
    using assms(2) by (intro mult_left_mono) (simp_all only: env_ok_def of_int_0_le_iff uint_ge_0)
  finally have "port_load (env_window env) m t + uint (env_higher env m) \<le> uint (env_datarate env m)"
    by (simp only: mult_1_right of_int_le_iff)
  also have "\<dots> < 2 ^ 62" using assms(2) by (simp add: env_ok_def)
  finally show ?thesis .
qed

subsection \<open>Talkers\<close>

text \<open>An advertised talker that is known asks for what it asked for before.\<close>

definition same_demand :: "sr_protocol \<Rightarrow> srp_frame \<Rightarrow> srp_table \<Rightarrow> bool" where
  "same_demand p pdu t \<longleftrightarrow>
     (case as_talker pdu of
        None \<Rightarrow> True
      | Some ta \<Rightarrow>
          (case smap_get (ta_streamID ta) (smap_inner (ta_vlan ta) (talkerTables t)) of
             None \<Rightarrow> True
           | Some e \<Rightarrow> te_framesize e = ucast (ta_maxFrameSize ta) \<and> te_intervalFrames e = ta_maxIntervalFrames ta
               \<and> te_srClass e = class_of_priority p (ta_priorityAndRank ta)))"

lemma set_talker_regs [simp]: "port_regs m (set_talker v s e t) = port_regs m t"
  by (simp add: port_regs_def srp_registrations_def)

lemma port_regs_emit [simp]: "port_regs m (srp_emit g t) = port_regs m t"
  by (simp add: port_regs_def srp_registrations_def)

lemma linked_regs:
  "srp_inv t \<Longrightarrow> srp_linked t \<Longrightarrow> (v, s) \<in> port_regs m t \<Longrightarrow> smap_get s (smap_inner v (talkerTables t)) \<noteq> None"
  by (auto simp: port_regs_iff srp_linked_def)

lemma updateTalker_admission:
  fixes fs :: "16 word"
  assumes run: "updateTalkerWithStreamId now sid m addr cls (ucast fs) ivf vid pcp st t = Inr (b, t')" and inv: "admission_inv env t"
    and same: "\<forall>e. smap_get sid (smap_inner vid (talkerTables t)) = Some e \<longrightarrow> te_framesize e = ucast fs \<and> te_intervalFrames e = ivf \<and> te_srClass e = cls"
  shows "admission_inv env t'"
proof -
  have "\<exists>e. (t' = set_talker vid sid e t \<or> (\<exists>g. t' = srp_emit g (set_talker vid sid e t)))
      \<and> te_framesize e = ucast fs \<and> te_intervalFrames e = ivf \<and> te_srClass e = cls"
  proof (cases "smap_get sid (smap_inner vid (talkerTables t))")
    case None
    let ?e = "\<lparr>te_streamId = sid, te_srClass = cls, te_address = addr, te_module = m, te_framesize = ucast fs,
        te_intervalFrames = ivf, te_vlan_id = vid, te_pcp = pcp, te_insertionTime = now, te_isStatic = st\<rparr>"
    from None run show ?thesis
      by (intro exI [of _ ?e]) (auto simp: updateTalkerWithStreamId_def Let_def split: if_splits)
  next
    case (Some e0)
    let ?e = "e0\<lparr>te_streamId := sid, te_srClass := cls, te_address := addr, te_module := m,
        te_framesize := (if ucast fs > (0 :: 64 word) then ucast fs else te_framesize e0),
        te_intervalFrames := (if ivf > 0 then ivf else te_intervalFrames e0),
        te_vlan_id := vid, te_pcp := pcp, te_insertionTime := now, te_isStatic := st\<rparr>"
    have "t' = set_talker vid sid ?e t \<or> (\<exists>g. t' = srp_emit g (set_talker vid sid ?e t))"
      using Some run by (auto simp: updateTalkerWithStreamId_def Let_def simp del: srp_emit_def split: if_splits)
    with Some same show ?thesis by (intro exI [of _ ?e]) auto
  qed
  then obtain e where t': "t' = set_talker vid sid e t \<or> (\<exists>g. t' = srp_emit g (set_talker vid sid e t))"
    and e: "te_framesize e = ucast fs" "te_intervalFrames e = ivf" "te_srClass e = cls" by blast
  have inv': "srp_inv t'" using inv run updateTalker_inv by (auto simp: admission_inv_def)
  have srp: "srp_inv t" "srp_linked t" using inv by (auto simp: admission_inv_def)
  have get: "smap_get s (smap_inner v (talkerTables t')) = (if v = vid \<and> s = sid then Some e else smap_get s (smap_inner v (talkerTables t)))" for v s
    using t' by (auto simp: set_talker_get [OF srp(1)])
  have regs: "port_regs k t' = port_regs k t" for k using t' by auto
  have lists: "listenerTables t' = listenerTables t" using t' by auto
  have "stream_load win t' x = stream_load win t x" if "x \<in> port_regs k t" for win x k
  proof -
    obtain v s where x: "x = (v, s)" by (cases x)
    show ?thesis
    proof (cases "v = vid \<and> s = sid")
      case True
      with linked_regs [OF srp that [unfolded x]] obtain e0 where "smap_get sid (smap_inner vid (talkerTables t)) = Some e0" by auto
      with same True x e show ?thesis by (auto simp: stream_load_def get talker_bandwidth_def)
    qed (auto simp: stream_load_def get x)
  qed
  then have "port_load win k t' = port_load win k t" for win k
    unfolding port_load_def regs by (rule sum.cong [OF refl])
  then have "within_limit env t'" using inv by (simp add: admission_inv_def within_limit_def regs)
  moreover have "srp_linked t'" using srp(2) by (auto simp: srp_linked_def get lists)
  moreover have "uint (ucast fs :: 64 word) < 2 ^ 16"
    using uint_lt2p [of fs] by (simp add: uint_up_ucast is_up)
  then have "small_talkers t'" using inv e by (auto simp: admission_inv_def small_talkers_def get)
  ultimately show ?thesis using inv' by (simp add: admission_inv_def)
qed

subsection \<open>Listeners\<close>

lemma updateListener_regs:
  assumes inv: "srp_inv t" and run: "updateListenerWithStreamId now sid m vid st t = Inr (b, t')"
  shows "talkerTables t' = talkerTables t"
    and "port_regs k t' = (if k = m then insert (vid, sid) (port_regs m t) else port_regs k t)"
    and "smap_get sid (smap_inner vid (talkerTables t)) \<noteq> None"
proof -
  let ?ls = "smap_inner sid (smap_inner vid (listenerTables t))"
  obtain l where tabs: "listenerTables t' = listenerTables (set_listeners vid sid (smap_put m l ?ls) t)" "talkerTables t' = talkerTables t"
    and known: "smap_get sid (smap_inner vid (talkerTables t)) \<noteq> None"
    using run by (auto simp: updateListenerWithStreamId_def Let_def split: if_splits)
  show "talkerTables t' = talkerTables t" "smap_get sid (smap_inner vid (talkerTables t)) \<noteq> None" using tabs known by auto
  have ne: "smap_put m l ?ls \<noteq> []" using set_keys_put [of m l ?ls] by auto
  have inv': "srp_inv t'" using updateListener_inv [OF inv run] .
  have old: "(vid, sid) \<in> port_regs j t \<longleftrightarrow> j \<in> fst ` set ?ls" for j
    by (cases "smap_get sid (smap_inner vid (listenerTables t))") (simp_all add: port_regs_iff [OF inv] smap_inner_def [of sid])
  have new: "smap_get s (smap_inner v (listenerTables t')) = (if v = vid \<and> s = sid then Some (smap_put m l ?ls) else smap_get s (smap_inner v (listenerTables t)))" for v s
    using ne by (simp add: tabs set_listeners_get [OF inv])
  have "(v, s) \<in> port_regs k t' \<longleftrightarrow> (v, s) \<in> (if k = m then insert (vid, sid) (port_regs m t) else port_regs k t)" for v s
  proof (cases "v = vid \<and> s = sid")
    case True
    then show ?thesis using old by (auto simp: port_regs_iff [OF inv'] new set_keys_put)
  next
    case False
    then show ?thesis by (auto simp: port_regs_iff [OF inv] port_regs_iff [OF inv'] new)
  qed
  then show "port_regs k t' = (if k = m then insert (vid, sid) (port_regs m t) else port_regs k t)" by auto
qed

lemma updateListener_admission:
  assumes run: "updateListenerWithStreamId now sid m vid st t = Inr (b, t')" and inv: "admission_inv env t"
    and fits: "(vid, sid) \<in> port_regs m t \<or>
      (of_int (port_load (env_window env) m t + uint (env_higher env m) + stream_load (env_window env) t (vid, sid)) :: rat)
        \<le> of_int (uint (env_datarate env m)) * env_reservable env"
  shows "admission_inv env t'"
proof -
  have srp: "srp_inv t" "srp_linked t" using inv by (auto simp: admission_inv_def)
  note upd = updateListener_regs [OF srp(1) run]
  have inv': "srp_inv t'" using updateListener_inv [OF srp(1) run] .
  have "srp_linked t'"
    using srp_exec_linked [of now "UpdateListener sid m vid st" t t'] run srp by simp
  have load: "stream_load win t' = stream_load win t" for win by (simp add: fun_eq_iff stream_load_def upd(1))
  have "within_limit env t'"
    unfolding within_limit_def
  proof (intro allI impI)
    fix k assume regs: "port_regs k t' \<noteq> {}"
    show "(of_int (port_load (env_window env) k t' + uint (env_higher env k)) :: rat) \<le> of_int (uint (env_datarate env k)) * env_reservable env"
    proof (cases "k = m \<and> (vid, sid) \<notin> port_regs m t")
      case True
      then have "port_load (env_window env) k t' = port_load (env_window env) m t + stream_load (env_window env) t (vid, sid)"
        by (simp add: port_load_def upd(2) load)
      with True fits show ?thesis by (simp add: add.commute add.left_commute)
    next
      case False
      then have "port_regs k t' = port_regs k t" by (auto simp: upd(2))
      with regs inv show ?thesis by (simp add: port_load_def load admission_inv_def within_limit_def)
    qed
  qed
  then show ?thesis using inv inv' \<open>srp_linked t'\<close> by (simp add: admission_inv_def small_talkers_def upd(1))
qed

text \<open>The admission test of the code, in words, is the test over the integers.\<close>

lemma admits_exact:
  assumes inv: "admission_inv env t" and ok: "env_ok env"
    and e: "smap_get sid (smap_inner vid (talkerTables t)) = Some e"
  shows "admits env m (word_of_int (port_load (env_window env) m t)) (talker_bandwidth (env_window env) e) \<longleftrightarrow>
    (of_int (port_load (env_window env) m t + uint (env_higher env m) + stream_load (env_window env) t (vid, sid)) :: rat)
      \<le> of_int (uint (env_datarate env m)) * env_reservable env"
proof -
  let ?l = "port_load (env_window env) m t" and ?h = "uint (env_higher env m)" and ?r = "uint (talker_bandwidth (env_window env) e)"
  have r: "stream_load (env_window env) t (vid, sid) = ?r" using e by (simp add: stream_load_def)
  have "uint (te_framesize e) < 2 ^ 16" using inv e by (auto simp: admission_inv_def small_talkers_def)
  then have "?r < 2 ^ 48" using ok by (intro talker_bandwidth_bound) (simp_all add: env_ok_def)
  moreover have "?l + ?h < 2 ^ 62" by (rule load_small [OF inv ok])
  moreover have "0 \<le> ?l" "0 \<le> ?h" "0 \<le> ?r" "(2 :: int) ^ 62 + 2 ^ 48 \<le> 2 ^ 64" by simp_all
  ultimately have "?l + ?h + ?r < 2 ^ 64" "0 \<le> ?l + ?h + ?r" by linarith+
  then have "(?l + ?h + ?r) mod 2 ^ 64 = ?l + ?h + ?r" by simp
  moreover have "uint (word_of_int ?l + env_higher env m + talker_bandwidth (env_window env) e) = (?l + ?h + ?r) mod 2 ^ 64"
    by (simp add: uint_word_ariths uint_word_of_int mod_simps)
  ultimately show ?thesis unfolding admits_def r by simp
qed

lemma listener_keys:
  assumes "srp_inv t" and "getListenersForStreamId now sid vid t = (ls, t1)"
  shows "m \<in> set ls \<longleftrightarrow> (vid, sid) \<in> port_regs m t1" and "t1 = removeAgedEntriesIfNeeded_srp now t"
proof -
  show t1: "t1 = removeAgedEntriesIfNeeded_srp now t"
    using assms(2) by (auto simp: getListenersForStreamId_def Let_def split: option.splits)
  have "srp_inv t1" using removeAgedEntriesIfNeeded_srp_inv [OF assms(1)] t1 by simp
  then show "m \<in> set ls \<longleftrightarrow> (vid, sid) \<in> port_regs m t1"
    using assms(2) by (force simp: port_regs_iff getListenersForStreamId_def Let_def split: option.splits)
qed

lemma handle_listener_admission:
  assumes run: "handle_listener now env p port sid vid t = Inr (t', out)" and inv: "admission_inv env t" and ok: "env_ok env"
  shows "admission_inv env t'"
proof -
  obtain ls t1 where q: "getListenersForStreamId now sid vid t = (ls, t1)" by (cases "getListenersForStreamId now sid vid t")
  have srp: "srp_inv t" using inv by (simp add: admission_inv_def)
  note keys = listener_keys [OF srp q]
  define t2 where "t2 = removeAgedEntriesIfNeeded_srp now t1"
  define t3 where "t3 = removeAgedEntriesIfNeeded_srp now t2"
  have i1: "admission_inv env t1" using keys(2) admission_inv_shrinks [OF ageing_shrinks inv] by simp
  have i2: "admission_inv env t2" using i1 admission_inv_shrinks [OF ageing_shrinks] by (simp add: t2_def)
  have i3: "admission_inv env t3" using i2 admission_inv_shrinks [OF ageing_shrinks] by (simp add: t3_def)
  have regs: "port_regs m t2 = port_regs m t1" "port_regs m t3 = port_regs m t1" for m
    using ageing_idle_regs [of m now t] ageing_idle_regs [of m now t1] by (simp_all add: t2_def t3_def keys(2))
  have tabs: "talkerTables t3 = talkerTables t2"
    using ageing_shrinks [of t2 now] by (simp add: t3_def shrinks_def)
  from run q obtain u r e where u: "bandwidth_loop (talker_bandwidth (env_window env)) port (talkerTables t2) (srp_registrations t2) 0 = Inr u"
    and e: "smap_get sid (smap_inner vid (talkerTables t3)) = Some e" and r: "r = talker_bandwidth (env_window env) e"
    and rest: "(if port \<in> set ls \<or> admits env port u r
      then with_signals now env p t3 (updateListenerWithStreamId now sid port vid False t3)
      else (case getListenersForStreamId now sid vid t3 of (others, t4) \<Rightarrow>
              Inr (to_talker now env sid vid
                (if others \<noteq> [] then ListenerReadyFailed sid vid else ListenerAskingFailed sid vid) t4))) = Inr (t', out)"
    by (auto simp: handle_listener_def getBandwidthForModule_def getBandwidthForStream_def rbind_Inr_iff Let_def t2_def t3_def
        split: option.splits if_splits)
  have "u = word_of_int (port_load (env_window env) port t2)"
    using bandwidth_is_load [OF _ u] i2 by (simp add: admission_inv_def)
  also have "port_load (env_window env) port t2 = port_load (env_window env) port t3"
    by (simp add: port_load_def regs stream_load_def tabs)
  finally have u: "u = word_of_int (port_load (env_window env) port t3)" .
  show ?thesis
  proof (cases "port \<in> set ls \<or> admits env port u r")
    case True
    with rest have "with_signals now env p t3 (updateListenerWithStreamId now sid port vid False t3) = Inr (t', out)" by (simp only: if_True)
    from with_signals_Inr [OF this] obtain b t4
      where upd: "updateListenerWithStreamId now sid port vid False t3 = Inr (b, t4)" and "shrinks t4 t'" by blast
    moreover have "admission_inv env t4"
      using True admits_exact [OF i3 ok e, of port] keys(1) [of port]
      by (intro updateListener_admission [OF upd i3]) (auto simp: u r regs)
    ultimately show ?thesis using admission_inv_shrinks by blast
  next
    case False
    obtain others t4 where q4: "getListenersForStreamId now sid vid t3 = (others, t4)" by (cases "getListenersForStreamId now sid vid t3")
    have "srp_inv t3" using i3 by (simp add: admission_inv_def)
    from listener_keys(2) [OF this q4] have "admission_inv env t4" using admission_inv_shrinks [OF ageing_shrinks i3] by simp
    moreover have "shrinks t4 t'"
      using rest False q4 to_talker_shrinks [of t4 now env sid vid] by (auto split: if_splits) (metis fst_conv)+
    ultimately show ?thesis using admission_inv_shrinks by blast
  qed
qed

subsection \<open>Runs of the protocol\<close>

text \<open>Messages arrive on any port at any time; a talker that is known repeats its demand.\<close>

inductive srp_reachable :: "srp_env \<Rightarrow> sr_protocol \<Rightarrow> srp_table \<Rightarrow> bool" for env p where
  no_reservations: "srp_reachable env p (srp_empty ag)"
| message: "srp_reachable env p t \<Longrightarrow> same_demand p pdu t \<Longrightarrow> handleMessage_srp now env p arrivedOn pdu t = Inr (t', out) \<Longrightarrow>
     srp_reachable env p t'"
| withdrawal: "srp_reachable env p t \<Longrightarrow> removeListenerWithStreamId sid m vid t = (b, t') \<Longrightarrow> srp_reachable env p t'"

lemma empty_admission: "admission_inv env (srp_empty ag)"
  by (simp add: admission_inv_def small_talkers_def within_limit_def)
    (simp add: srp_empty_def port_regs_def srp_registrations_def)

lemma handleMessage_admission:
  assumes run: "handleMessage_srp now env p arrivedOn pdu t = Inr (t', out)" and inv: "admission_inv env t" and ok: "env_ok env"
    and same: "same_demand p pdu t"
  shows "admission_inv env t'"
proof (cases "as_talker pdu")
  case (Some ta)
  from run Some have "handle_talker now env p (env_port env arrivedOn) ta t = Inr (t', out)"
    by (simp add: handleMessage_srp_def)
  then obtain b t1 where "updateTalkerWithStreamId now (ta_streamID ta) (env_port env arrivedOn) (ta_destination ta)
      (class_of_priority p (ta_priorityAndRank ta)) (ucast (ta_maxFrameSize ta)) (ta_maxIntervalFrames ta) (ta_vlan ta) (drop_bit 5 (ta_priorityAndRank ta AND 0xE0)) False t = Inr (b, t1)"
    and "shrinks t1 t'"
    unfolding handle_talker_def using with_signals_Inr by blast
  moreover from this(1) have "admission_inv env t1"
    using inv same Some by (elim updateTalker_admission) (auto simp: same_demand_def)
  ultimately show ?thesis using admission_inv_shrinks by blast
next
  case None
  show ?thesis
  proof (cases "as_listener_ready pdu")
    case (Some x)
    with None run show ?thesis
      by (cases x) (auto simp: handleMessage_srp_def intro: handle_listener_admission [OF _ inv ok])
  next
    case no: None
    have "shrinks t t'"
      using run None no to_talker_shrinks [of t now env] by (auto simp: handleMessage_srp_def split: option.splits) (metis fst_conv)
    then show ?thesis using inv by (rule admission_inv_shrinks)
  qed
qed

lemma removeListener_shrinks: "removeListenerWithStreamId sid m vid t = (b, t') \<Longrightarrow> srp_inv t \<Longrightarrow> srp_linked t \<Longrightarrow> shrinks t t'"
proof -
  assume run: "removeListenerWithStreamId sid m vid t = (b, t')" and inv: "srp_inv t" "srp_linked t"
  have inv': "srp_inv t'" using removeListener_inv [OF inv(1), of sid m vid] run by simp
  have linked': "srp_linked t'" using srp_exec_linked [of 0 "RemoveListener sid m vid" t t'] run inv by simp
  have tab: "talkerTables t' = talkerTables t"
    using run by (auto simp: removeListenerWithStreamId_def split: option.splits)
  have "port_regs k t' \<subseteq> port_regs k t" for k
  proof (cases "\<exists>ls l. smap_get sid (smap_inner vid (listenerTables t)) = Some ls \<and> smap_get m ls = Some l")
    case True
    then obtain ls where ls: "smap_get sid (smap_inner vid (listenerTables t)) = Some ls"
      and "listenerTables t' = listenerTables (set_listeners vid sid (smap_erase m ls) t)"
      using run by (auto simp: removeListenerWithStreamId_def set_listeners_def Let_def)
    then show ?thesis
      by (auto simp: port_regs_iff [OF inv(1)] port_regs_iff [OF inv'] set_listeners_get [OF inv(1)] smap_erase_def split: if_splits)
  next
    case False
    then have "t' = t" using run by (auto simp: removeListenerWithStreamId_def split: option.splits)
    then show ?thesis by simp
  qed
  then show "shrinks t t'" using inv' linked' tab by (simp add: shrinks_def)
qed

lemma reachable_admission: "srp_reachable env p t \<Longrightarrow> env_ok env \<Longrightarrow> admission_inv env t"
proof (induction rule: srp_reachable.induct)
  case (withdrawal t sid m vid b t')
  then have inv: "admission_inv env t" by simp
  then show ?case using removeListener_shrinks [OF withdrawal.hyps(2)] admission_inv_shrinks by (auto simp: admission_inv_def)
qed (simp_all add: empty_admission handleMessage_admission)


text \<open>A switch with four ports of 10 Mbit/s, three quarters of which are reservable.\<close>

definition example_env :: srp_env where
  "example_env = \<lparr>env_port = (\<lambda>i. if 0 \<le> i \<and> i < 4 then nat i + 1 else nullptr),
     env_portIndex = (\<lambda>m. if 1 \<le> m \<and> m \<le> 4 then Some (m - 1) else None), env_higher = (\<lambda>m. 0),
     env_datarate = (\<lambda>m. 10000000), env_reservable = 3 / 4,
     env_window = (\<lambda>c. case c of SR_CLASS_A \<Rightarrow> 1 / 8000 | SR_CLASS_B \<Rightarrow> 1 / 4000)\<rparr>"

definition example_protocol :: sr_protocol where
  "example_protocol = \<lparr>pcpSRClassA = 6, pcpSRClassB = 5, priortyAndRankSRClassA = 0xD0, priortyAndRankSRClassB = 0xB0\<rparr>"

definition example_talker :: "16 word \<Rightarrow> talker_advertise" where
  "example_talker sz = \<lparr>ta_streamID = 7, ta_source = 0, ta_destination = 0xA1, ta_vlan = 2, ta_maxFrameSize = sz, ta_maxIntervalFrames = 1,
     ta_priorityAndRank = 0xD0\<rparr>"

definition example_entry :: "16 word \<Rightarrow> simtime \<Rightarrow> talker_entry" where
  "example_entry sz now = \<lparr>te_streamId = 7, te_srClass = SR_CLASS_A, te_address = 0xA1, te_module = 1, te_framesize = ucast sz,
     te_intervalFrames = 1, te_vlan_id = 2, te_pcp = 6, te_insertionTime = now, te_isStatic = False\<rparr>"

definition reserved_table :: srp_table where
  "reserved_table = \<lparr>talkerTables = [(2, [(7, example_entry 60 1)])],
     listenerTables = [(2, [(7, [(2, \<lparr>le_streamId = 7, le_module = 2, le_vlan_id = 2, le_insertionTime = 2, le_isStatic = False\<rparr>)])])],
     srp_nextAging = 12, srp_agingTime = 10,
     srp_emitted = [NF_AVB_TALKER_REGISTERED (example_entry 60 1),
       NF_AVB_LISTENER_REGISTERED \<lparr>le_streamId = 7, le_module = 2, le_vlan_id = 2, le_insertionTime = 2, le_isStatic = False\<rparr>]\<rparr>"

definition announced_table :: srp_table where
  "announced_table = reserved_table\<lparr>listenerTables := [], srp_nextAging := 0, srp_emitted := [NF_AVB_TALKER_REGISTERED (example_entry 60 1)]\<rparr>"

lemmas example_srp_defs = example_env_def example_protocol_def example_talker_def example_entry_def reserved_table_def announced_table_def

lemma example_env_ok: "env_ok example_env"
  by (auto simp: env_ok_def example_env_def split: sr_class.split)

lemma example_bandwidth: "talker_bandwidth (env_window example_env) (example_entry 60 t) = 5184000"
  by (simp add: talker_bandwidth_def bandwidthFromSizeAndInterval_def example_env_def example_entry_def)

lemma announce_step:
  "\<exists>out. handleMessage_srp 1 example_env example_protocol 0 (TalkerAdvertise (example_talker 60)) (srp_empty 10) = Inr (announced_table, out)"
  by (simp add: handleMessage_srp_def handle_talker_def with_signals_def updateTalkerWithStreamId_def example_srp_defs srp_empty_def
      smap_inner_def nullptr_def class_of_priority_def set_talker_def srp_emit_def receiveSignal_srp_def Let_def)

lemma reserve_step:
  "\<exists>out. handleMessage_srp 2 example_env example_protocol 1 (ListenerReady 7 2) announced_table = Inr (reserved_table, out)"
proof -
  have q: "getListenersForStreamId 2 7 2 announced_table = ([], announced_table)"
    by (simp add: getListenersForStreamId_def removeAgedEntriesIfNeeded_srp_def announced_table_def Let_def)
  have b: "getBandwidthForModule (env_window example_env) 2 2 announced_table = Inr (0, announced_table)"
    by (simp add: getBandwidthForModule_def removeAgedEntriesIfNeeded_srp_def announced_table_def srp_registrations_def Let_def)
  have s: "getBandwidthForStream (env_window example_env) 2 7 2 announced_table = Inr (5184000, announced_table)"
    using example_bandwidth [of 1]
    by (simp add: getBandwidthForStream_def removeAgedEntriesIfNeeded_srp_def announced_table_def reserved_table_def smap_inner_def Let_def)
  have a: "admits example_env 2 0 5184000"
    by (simp add: admits_def example_env_def)
  have "env_port example_env 1 = 2" by (simp add: example_env_def)
  then show ?thesis
    using q b s a
    by (simp add: handleMessage_srp_def handle_listener_def nullptr_def)
      (simp add: with_signals_def updateListenerWithStreamId_def example_srp_defs set_listeners_def srp_emit_def smap_inner_def nullptr_def
        receiveSignal_srp_def to_talker_def getTalkerForStreamId_def removeAgedEntriesIfNeeded_srp_def Let_def)
qed

lemma example_protocol_reachable: "srp_reachable example_env example_protocol reserved_table"
proof -
  obtain out where one: "handleMessage_srp 1 example_env example_protocol 0 (TalkerAdvertise (example_talker 60)) (srp_empty 10) = Inr (announced_table, out)"
    using announce_step by blast
  have "same_demand example_protocol (TalkerAdvertise (example_talker 60)) (srp_empty 10)"
    by (simp add: same_demand_def srp_empty_def smap_inner_def)
  from srp_reachable.message [OF srp_reachable.no_reservations this one]
  have announced: "srp_reachable example_env example_protocol announced_table" .
  obtain out' where two: "handleMessage_srp 2 example_env example_protocol 1 (ListenerReady 7 2) announced_table = Inr (reserved_table, out')"
    using reserve_step by blast
  have "same_demand example_protocol (ListenerReady 7 2) announced_table"
    by (simp add: same_demand_def)
  from srp_reachable.message [OF announced this two] show ?thesis .
qed

lemma example_registered: "(2, 7, 2) \<in> set (srp_registrations reserved_table)"
  by (simp add: reserved_table_def srp_registrations_def)


lemma is_up_example: "is_up (ucast :: 16 word \<Rightarrow> 64 word)"
  by (simp add: is_up)

lemma updateTalker_known:
  assumes "smap_get sid (smap_inner vid (talkerTables t)) = Some e" and "te_module e = m" and "fs \<noteq> 0" and "ivf \<noteq> 0"
  shows "\<exists>e' t'. updateTalkerWithStreamId now sid m addr cls fs ivf vid pcp False t = Inr (True, t')
    \<and> t' = srp_emit (NF_AVB_TALKER_UPDATED e') (set_talker vid sid e' t)
    \<and> te_framesize e' = fs \<and> te_intervalFrames e' = ivf \<and> te_srClass e' = cls"
  using assms by (auto simp: updateTalkerWithStreamId_def Let_def word_gt_0)

text \<open>
  What a talker asks for later is not checked: when a registered talker announces itself again on its
  port with another frame size, interval or class, the protocol stores the new demand and answers
  nothing. Every port that has a listener of the stream is charged the new bandwidth instead of
  the old one, whatever its limit is, no listener is withdrawn, and the other switches do not hear of it, because the protocol
  listens to new talkers only.
\<close>

theorem talker_update_unchecked:
  assumes "srp_inv t" and "smap_get (ta_streamID ta) (smap_inner (ta_vlan ta) (talkerTables t)) = Some e"
    and "te_module e = env_port env arrivedOn" and "ta_maxFrameSize ta \<noteq> 0" and "ta_maxIntervalFrames ta \<noteq> 0"
    and "(ta_vlan ta, ta_streamID ta) \<in> port_regs m t"
  shows "\<exists>t'. handleMessage_srp now env p arrivedOn (TalkerAdvertise ta) t = Inr (t', [])
    \<and> listenerTables t' = listenerTables t
    \<and> port_load win m t' = port_load win m t - uint (talker_bandwidth win e)
        + uint (bandwidthFromSizeAndInterval (ucast (ta_maxFrameSize ta) + 1) (ta_maxIntervalFrames ta) (win (class_of_priority p (ta_priorityAndRank ta))))"
proof -
  let ?x = "(ta_vlan ta, ta_streamID ta)"
  have "(ucast (ta_maxFrameSize ta) :: 64 word) \<noteq> 0"
  proof
    assume "(ucast (ta_maxFrameSize ta) :: 64 word) = 0"
    then have "uint (ucast (ta_maxFrameSize ta) :: 64 word) = uint (0 :: 64 word)" by (rule arg_cong)
    then have "uint (ta_maxFrameSize ta) = 0" by (simp only: uint_up_ucast [OF is_up_example] uint_0_eq)
    then show False using assms(4) by (simp add: uint_0_iff)
  qed
  from updateTalker_known [OF assms(2,3) this assms(5)] obtain e' t' where
    upd: "updateTalkerWithStreamId now (ta_streamID ta) (env_port env arrivedOn) (ta_destination ta) (class_of_priority p (ta_priorityAndRank ta))
      (ucast (ta_maxFrameSize ta)) (ta_maxIntervalFrames ta) (ta_vlan ta) (drop_bit 5 (ta_priorityAndRank ta AND 0xE0)) False t = Inr (True, t')"
    and t': "t' = srp_emit (NF_AVB_TALKER_UPDATED e') (set_talker (ta_vlan ta) (ta_streamID ta) e' t)"
    and e': "te_framesize e' = ucast (ta_maxFrameSize ta)" "te_intervalFrames e' = ta_maxIntervalFrames ta" "te_srClass e' = class_of_priority p (ta_priorityAndRank ta)"
    by blast
  have get: "smap_get s (smap_inner v (talkerTables t')) =
      (if (v, s) = ?x then Some e' else smap_get s (smap_inner v (talkerTables t)))" for v s
    by (simp add: t' set_talker_get [OF assms(1)])
  have regs: "port_regs m t' = port_regs m t" by (simp add: t')
  have "(\<Sum>x \<in> port_regs m t - {?x}. stream_load win t' x) = (\<Sum>x \<in> port_regs m t - {?x}. stream_load win t x)"
    by (rule sum.cong) (auto simp: stream_load_def get)
  then have "port_load win m t' - stream_load win t' ?x = port_load win m t - stream_load win t ?x"
    unfolding port_load_def regs using assms(6) by (simp add: sum.remove)
  then have "port_load win m t' = port_load win m t - uint (talker_bandwidth win e) + uint (talker_bandwidth win e')"
    using assms(2) by (simp add: stream_load_def get)
  moreover have "handleMessage_srp now env p arrivedOn (TalkerAdvertise ta) t = Inr (t', [])"
    unfolding handleMessage_srp_def handle_talker_def with_signals_def as_talker.simps option.case prod.case Let_def upd
    by (simp add: t' srp_emit_def set_talker_def receiveSignal_srp_def)
  moreover have "listenerTables t' = listenerTables t" by (simp add: t')
  ultimately show ?thesis by (simp add: talker_bandwidth_def e')
qed

text \<open>The stream of the example grows to frames of 1500 bytes; its port of 10 Mbit/s is then charged 97 Mbit/s.\<close>

theorem talker_update_unchecked_witness:
  "\<exists>t'. handleMessage_srp 3 example_env example_protocol 0 (TalkerAdvertise (example_talker 1500)) reserved_table = Inr (t', [])
     \<and> port_load (env_window example_env) 2 t' = 97344000"
proof -
  have regs: "port_regs 2 reserved_table = {(2, 7)}"
    by (auto simp: port_regs_def reserved_table_def srp_registrations_def)
  have e: "smap_get (ta_streamID (example_talker 1500)) (smap_inner (ta_vlan (example_talker 1500)) (talkerTables reserved_table)) = Some (example_entry 60 1)"
    by (simp add: reserved_table_def example_talker_def smap_inner_def)
  have m: "te_module (example_entry 60 1) = env_port example_env 0" "(ta_vlan (example_talker 1500), ta_streamID (example_talker 1500)) \<in> port_regs 2 reserved_table"
    "ta_maxFrameSize (example_talker 1500) \<noteq> 0" "ta_maxIntervalFrames (example_talker 1500) \<noteq> 0"
    by (simp_all add: example_entry_def example_env_def example_talker_def regs)
  have inv: "srp_inv reserved_table" using reachable_admission [OF example_protocol_reachable example_env_ok] by (simp add: admission_inv_def)
  have old: "port_load (env_window example_env) 2 reserved_table = uint (talker_bandwidth (env_window example_env) (example_entry 60 1))"
    using e by (simp add: port_load_def regs stream_load_def example_talker_def)
  show ?thesis
    using talker_update_unchecked [where now = 3 and p = example_protocol and win = "env_window example_env", OF inv e m(1) m(3,4) m(2)]
    unfolding old by (auto simp: example_talker_def class_of_priority_def example_protocol_def bandwidthFromSizeAndInterval_def example_env_def)
qed

end
