(* ===== verification/AvbSwitch.thy ===== *)
theory AvbSwitch
  imports SwitchAgent SRPAdmission
begin

text \<open>
  The switches that speak the stream reservation protocol under an OpenFlow controller
  (SDN4CoRE/switch): \<open>AVB\_OF\_RelayUnit\<close>, which moves bare SRP packets, \<open>TSN\_OF\_RelayUnit\<close>, which moves them
  in Ethernet frames, and \<open>AVB\_OF\_SwitchAgent\<close>. Both tunnel what arrives to the controller; what the controller
  sends back goes to the \<open>SRProtocol\<close> module of the switch and its answers to the ports. Also the relay of a switch without
  OpenFlow, \<open>SRPRelay\<close> of CoRE4INET. Messages between modules of one switch have no delay, so an operation
  runs through all of them.
\<close>

subsection \<open>Packets of the data plane\<close>

datatype avb_packet =
    EthernetMsg frame
  | SrpMsg srp_frame nat   \<comment> \<open>a bare SRP packet and its arrival gate\<close>
  | OtherMsg

definition isSRPMessage_avb :: "avb_packet \<Rightarrow> bool res" where
  "isSRPMessage_avb m = Inr (case m of SrpMsg srp g \<Rightarrow> True | _ \<Rightarrow> False)"

text \<open>The TSN relay looks into an Ethernet frame and calls a method of what it finds there, null included.\<close>

definition isSRPMessage_tsn :: "avb_packet \<Rightarrow> bool res" where
  "isSRPMessage_tsn m =
     (case m of
        EthernetMsg f \<Rightarrow>
          (case fr_payload f of
             NoPayload \<Rightarrow> Inl (NullDeref ''encapsulated packet'')
           | SrpPayload srp \<Rightarrow> Inr True
           | _ \<Rightarrow> isSRPMessage_avb m)
      | _ \<Rightarrow> isSRPMessage_avb m)"

text \<open>\<open>isSRP\<close> is the virtual \<open>isSRPMessage\<close>.\<close>

definition processDataPlanePacket_avb :: "(avb_packet \<Rightarrow> bool res) \<Rightarrow> simtime \<Rightarrow> avb_packet \<Rightarrow> 'a of_switch_scheme
    \<Rightarrow> ('a of_switch_scheme \<times> relay_effect list) res" where
  "processDataPlanePacket_avb isSRP now m s =
     rbind (isSRP m) (\<lambda>b.
       if b then
         (case m of
            SrpMsg srp g \<Rightarrow> Inr (s\<lparr>sw_dataPlanePacket := sw_dataPlanePacket s + 1\<rparr>, [ForwardSRP srp g 0])
          | _ \<Rightarrow> Inl (NullDeref ''toController''))
       else
         (case m of
            EthernetMsg f \<Rightarrow> processDataPlanePacket extractMatch_avb now f s
          | _ \<Rightarrow> Inr (s\<lparr>sw_dataPlanePacket := sw_dataPlanePacket s + 1\<rparr>, [])))"

definition processDataPlanePacket_tsn :: "simtime \<Rightarrow> avb_packet \<Rightarrow> 'a of_switch_scheme
    \<Rightarrow> ('a of_switch_scheme \<times> relay_effect list) res" where
  "processDataPlanePacket_tsn now m s =
     rbind (isSRPMessage_tsn m) (\<lambda>b.
       case m of
         EthernetMsg f \<Rightarrow>
           (case fr_payload f of
              SrpPayload srp \<Rightarrow>
                Inr (s\<lparr>sw_dataPlanePacket := sw_dataPlanePacket s + 1\<rparr>, [ForwardSRP srp (fr_arrivalGate f) 0])
            | _ \<Rightarrow> processDataPlanePacket_avb isSRPMessage_tsn now m s)
       | _ \<Rightarrow> processDataPlanePacket_avb isSRPMessage_tsn now m s)"

subsection \<open>From the protocol to the ports\<close>

datatype avb_effect =
    Plain agent_effect
  | SrpDataOut nat srp_frame   \<comment> \<open>a bare packet\<close>
  | SrpFrameOut nat frame

text \<open>The number of ports, the message and its \<open>ExtendedIeee802Ctrl\<close>.\<close>

type_synonym srp_dispatch = "nat \<Rightarrow> srp_frame \<Rightarrow> srp_ctrl option \<Rightarrow> avb_effect list res"

definition other_ports :: "nat \<Rightarrow> srp_ctrl \<Rightarrow> nat list" where
  "other_ports n c = filter (\<lambda>i. int i \<noteq> sc_notSwitchPort c) [0 ..< n]"

definition gate_index :: "int \<Rightarrow> nat \<Rightarrow> nat res" where
  "gate_index p n = (if 0 \<le> p \<and> p < int n then Inr (nat p) else Inl (RuntimeError ''gate index out of range''))"

definition handleSRPFromProtocol_avb :: srp_dispatch where
  "handleSRPFromProtocol_avb n srp ctrl =
     (case ctrl of
        None \<Rightarrow> Inl (RuntimeError ''Packet from SRP received without ExtendedIeee802Ctrl'')
      | Some c \<Rightarrow>
          if as_talker srp \<noteq> None then Inr (map (\<lambda>i. SrpDataOut i srp) (other_ports n c))
          else if as_listener_ready srp \<noteq> None then
            rbind (gate_index (sc_switchPort c) n) (\<lambda>i. Inr [SrpDataOut i srp])
          else Inr [])"

text \<open>The address of the first port's network interface, if it is an \<open>EtherMACBase\<close>, is the source.\<close>

definition srp_ethernet_frame :: "mac \<Rightarrow> mac \<Rightarrow> srp_frame \<Rightarrow> frame" where
  "srp_ethernet_frame srp_address source srp =
     \<lparr>fr_src = source, fr_dst = srp_address, fr_etherType = MSRP_ETHERTYPE, fr_arrivalGate = 0, fr_qtag = None,
      fr_payload = SrpPayload srp\<rparr>"

definition handleSRPFromProtocol_tsn :: "mac \<Rightarrow> mac option \<Rightarrow> srp_dispatch" where
  "handleSRPFromProtocol_tsn srp_address nic n srp ctrl =
     (case ctrl of
        None \<Rightarrow> Inl (RuntimeError ''SRP is missing ControlInfo'')
      | Some c \<Rightarrow>
          if int n \<le> sc_switchPort c then Inl (RuntimeError ''Output port doesn't exist!'')
          else if n = 0 then Inl (RuntimeError ''gate index out of range'')
          else
            (let f = srp_ethernet_frame srp_address (case nic of Some a \<Rightarrow> a | None \<Rightarrow> 0) srp in
             if sc_switchPort c = SWITCH_PORT_BROADCAST then Inr (map (\<lambda>i. SrpFrameOut i f) (other_ports n c))
             else rbind (gate_index (sc_switchPort c) n) (\<lambda>i. Inr [SrpFrameOut i f])))"

subsection \<open>The switch\<close>

record avb_switch = agent +
  av_srpTable :: srp_table
  av_protocol :: sr_protocol

fun dispatch_all :: "srp_dispatch \<Rightarrow> nat \<Rightarrow> srp_out list \<Rightarrow> avb_effect list res" where
  "dispatch_all dispatch n [] = Inr []"
| "dispatch_all dispatch n ((srp, c) # outs) =
     rbind (dispatch n srp (Some c)) (\<lambda>es. rbind (dispatch_all dispatch n outs) (\<lambda>es'. Inr (es @ es')))"

text \<open>
  A packet from the data plane. The agent listens to the relay unit; its packet-in for an SRP message is
  the one of the edge agent.
\<close>

definition dataPlaneIn_avb :: "simtime \<Rightarrow> avb_packet \<Rightarrow> 'a agent_scheme \<Rightarrow> ('a agent_scheme \<times> agent_effect list) res" where
  "dataPlaneIn_avb now m s =
     rbind (processDataPlanePacket_avb isSRPMessage_avb now m s) (\<lambda>(s', es). receiveSignals es s')"

definition dataPlaneIn_tsn :: "simtime \<Rightarrow> avb_packet \<Rightarrow> 'a agent_scheme \<Rightarrow> ('a agent_scheme \<times> agent_effect list) res" where
  "dataPlaneIn_tsn now m s =
     rbind (processDataPlanePacket_tsn now m s) (\<lambda>(s', es). receiveSignals es s')"

text \<open>A message that the agent passes to the protocol, and the answers on their way to the ports.\<close>

definition srpOut :: "srp_dispatch \<Rightarrow> srp_env \<Rightarrow> simtime \<Rightarrow> srp_frame \<Rightarrow> int \<Rightarrow> 'a avb_switch_scheme
    \<Rightarrow> ('a avb_switch_scheme \<times> avb_effect list) res" where
  "srpOut dispatch env now srp port s =
     rbind (arrive_srp now env (av_protocol s) True (Some port) srp (av_srpTable s)) (\<lambda>(t, outs).
     rbind (dispatch_all dispatch (length (sw_portState s)) outs) (\<lambda>es.
       Inr (s\<lparr>av_srpTable := t\<rparr>, es)))"

definition handleSRPFromController_avb :: "srp_dispatch \<Rightarrow> srp_env \<Rightarrow> simtime \<Rightarrow> 32 word \<Rightarrow> encapsulated option
    \<Rightarrow> 'a avb_switch_scheme \<Rightarrow> ('a avb_switch_scheme \<times> avb_effect list) res" where
  "handleSRPFromController_avb dispatch env now inPort enc s =
     (case enc of
        Some (EncSrp srp) \<Rightarrow> srpOut dispatch env now srp (sint inPort) s
      | _ \<Rightarrow> Inl (RuntimeError ''SRP packet from controller received without Ieee802Ctrl''))"

definition processControlPlanePacket_avb :: "srp_dispatch \<Rightarrow> srp_env \<Rightarrow> simtime \<Rightarrow> ptr \<Rightarrow> of_msg
    \<Rightarrow> 'a avb_switch_scheme \<Rightarrow> ('a avb_switch_scheme \<times> avb_effect list) res" where
  "processControlPlanePacket_avb dispatch env now new msg s =
     (case msg of
        OfVendor inPort enc \<Rightarrow>
          handleSRPFromController_avb dispatch env now inPort enc (s\<lparr>ag_controlPlanePacket := ag_controlPlanePacket s + 1\<rparr>)
      | _ \<Rightarrow> rbind (processControlPlanePacket now new msg s) (\<lambda>(s', es). Inr (s', map Plain es)))"

definition serviceEvent_avb :: "srp_dispatch \<Rightarrow> srp_env \<Rightarrow> simtime \<Rightarrow> ptr \<Rightarrow> 'a avb_switch_scheme
    \<Rightarrow> ('a avb_switch_scheme \<times> avb_effect list) res" where
  "serviceEvent_avb dispatch env now new s =
     (case ag_events s of
        [] \<Rightarrow> Inr (s, [])
      | (t, m) # es \<Rightarrow>
          rbind (processControlPlanePacket_avb dispatch env now new m (s\<lparr>ag_events := es\<rparr>)) (\<lambda>(s', out).
            Inr (scheduleNextServiceTime now s', out)))"

subsection \<open>The relay without OpenFlow\<close>

datatype relay_msg =
    FromProtocol srp_frame "srp_ctrl option"
  | FromInterface frame
  | SelfMessage

datatype srp_relay_effect =
    IfOut nat frame
  | SrpOutTo srp_frame nat   \<comment> \<open>to the protocol, with the arrival port\<close>
  | BaseRelay frame          \<comment> \<open>handled by \<open>Ieee8021dRelay\<close>\<close>

definition dispatchSRP :: "mac \<Rightarrow> mac \<Rightarrow> nat \<Rightarrow> srp_frame \<Rightarrow> srp_ctrl option \<Rightarrow> srp_relay_effect list res" where
  "dispatchSRP srp_address bridge n srp ctrl =
     (case ctrl of
        None \<Rightarrow> Inl (RuntimeError ''SRP is missing ControlInfo'')
      | Some c \<Rightarrow>
          if int n \<le> sc_switchPort c then Inl (RuntimeError ''Output port doesn't exist!'')
          else
            (let f = srp_ethernet_frame srp_address bridge srp in
             if sc_switchPort c < 0 then Inr (map (\<lambda>i. IfOut i f) (other_ports n c))
             else Inr [IfOut (nat (sc_switchPort c)) f]))"

definition deliverSRP :: "frame \<Rightarrow> srp_relay_effect list res" where
  "deliverSRP f =
     (case fr_payload f of
        SrpPayload srp \<Rightarrow> Inr [SrpOutTo srp (fr_arrivalGate f)]
      | _ \<Rightarrow> Inl (RuntimeError ''check_and_cast(): cannot cast to SRPFrame''))"

definition handleMessage_relay :: "bool \<Rightarrow> mac \<Rightarrow> mac \<Rightarrow> nat \<Rightarrow> relay_msg \<Rightarrow> srp_relay_effect list res" where
  "handleMessage_relay isOperational srp_address bridge n m =
     (if \<not> isOperational then Inr []
      else
        (case m of
           FromProtocol srp ctrl \<Rightarrow> dispatchSRP srp_address bridge n srp ctrl
         | FromInterface f \<Rightarrow>
             if fr_dst f = srp_address \<or> fr_dst f = bridge then deliverSRP f else Inr [BaseRelay f]
         | SelfMessage \<Rightarrow> Inl (RuntimeError ''This module doesn't handle self-messages!'')))"

subsection \<open>What leaves the switch\<close>

fun srp_outputs :: "avb_effect list \<Rightarrow> (nat \<times> srp_frame) list" where
  "srp_outputs [] = []"
| "srp_outputs (Plain e # es) = srp_outputs es"
| "srp_outputs (SrpDataOut i srp # es) = (i, srp) # srp_outputs es"
| "srp_outputs (SrpFrameOut i f # es) =
     (case fr_payload f of SrpPayload srp \<Rightarrow> [(i, srp)] | _ \<Rightarrow> []) @ srp_outputs es"

lemma srp_outputs_append [simp]: "srp_outputs (es @ es') = srp_outputs es @ srp_outputs es'"
  by (induction es rule: srp_outputs.induct) simp_all

lemma srp_outputs_avb [simp]: "srp_outputs (map (\<lambda>i. SrpDataOut i srp) is) = map (\<lambda>i. (i, srp)) is"
  by (induction "is") simp_all

lemma srp_outputs_tsn [simp]:
  "srp_outputs (map (\<lambda>i. SrpFrameOut i (srp_ethernet_frame a b srp)) is) = map (\<lambda>i. (i, srp)) is"
  by (induction "is") (simp_all add: srp_ethernet_frame_def)

text \<open>Talkers are announced to all ports, everything else goes to one port of the switch.\<close>

definition out_ok :: "nat \<Rightarrow> srp_out \<Rightarrow> bool" where
  "out_ok n out \<longleftrightarrow>
     (case out of (srp, c) \<Rightarrow>
        if as_talker srp \<noteq> None then sc_switchPort c = SWITCH_PORT_BROADCAST
        else (as_listener_ready srp \<noteq> None) \<noteq> (as_asking_failed srp \<noteq> None) \<and> (\<exists>i < n. sc_switchPort c = int i))"

definition ports_ok :: "nat \<Rightarrow> srp_env \<Rightarrow> bool" where
  "ports_ok n env \<longleftrightarrow> 0 < n \<and> (\<forall>m i. env_portIndex env m = Some i \<longrightarrow> i < n)"

lemma to_talker_out:
  "ports_ok n env \<Longrightarrow> as_talker srp = None \<Longrightarrow> (as_listener_ready srp \<noteq> None) \<noteq> (as_asking_failed srp \<noteq> None)
     \<Longrightarrow> o' \<in> set (snd (to_talker now env sid vid srp t)) \<Longrightarrow> out_ok n o'"
  by (auto simp: to_talker_def out_ok_def to_port_def ports_ok_def split: prod.splits if_splits option.splits)

lemma receiveSignal_out: "ports_ok n env \<Longrightarrow> o' \<in> set (snd (receiveSignal_srp now env p g t)) \<Longrightarrow> out_ok n o'"
  by (cases g) (auto simp: receiveSignal_srp_def talker_pdu_def out_ok_def [of n "(_, _)"] elim: to_talker_out [rotated 3])

lemma deliver_signals_out: "ports_ok n env \<Longrightarrow> o' \<in> set (snd (deliver_signals now env p gs t)) \<Longrightarrow> out_ok n o'"
proof (induction now env p gs t rule: deliver_signals.induct)
  case (2 now env p g gs t)
  obtain t1 o1 where one: "receiveSignal_srp now env p g t = (t1, o1)" by (cases "receiveSignal_srp now env p g t")
  with receiveSignal_out [OF "2.prems"(1), of _ now p g t] have "\<And>x. x \<in> set o1 \<Longrightarrow> out_ok n x" by simp
  with "2.IH" [OF one [symmetric] "2.prems"(1)] "2.prems"(2) one show ?case
    by (cases o') (auto split: prod.splits)
qed simp

lemma with_signals_out:
  assumes ok: "ports_ok n env" and run: "with_signals now env p t r = Inr (t', out)" and mem: "o' \<in> set out"
  shows "out_ok n o'"
proof -
  from run obtain t1 where "deliver_signals now env p (drop (length (srp_emitted t)) (srp_emitted t1)) t1 = (t', out)"
    by (auto simp: with_signals_def rbind_Inr_iff)
  with mem deliver_signals_out [OF ok, of o' now p "drop (length (srp_emitted t)) (srp_emitted t1)" t1] show ?thesis by simp
qed

lemma handle_listener_out:
  assumes run: "handle_listener now env p port sid vid t = Inr (t', out)" and ok: "ports_ok n env" and mem: "o' \<in> set out"
  shows "out_ok n o'"
proof -
  obtain ls t1 where ls: "getListenersForStreamId now sid vid t = (ls, t1)" by (cases "getListenersForStreamId now sid vid t")
  have port: "port \<noteq> nullptr" using run ls by (auto simp: handle_listener_def rbind_Inr_iff)
  from run ls port obtain u t2 q t3 where
    rest: "(if port \<in> set ls \<or> admits env port u q
      then with_signals now env p t3 (updateListenerWithStreamId now sid port vid False t3)
      else (case getListenersForStreamId now sid vid t3 of (others, t4) \<Rightarrow>
              Inr (to_talker now env sid vid
                (if others \<noteq> [] then ListenerReadyFailed sid vid else ListenerAskingFailed sid vid) t4))) = Inr (t', out)"
    by (simp add: handle_listener_def rbind_Inr_iff split_beta) blast
  show ?thesis
  proof (cases "port \<in> set ls \<or> admits env port u q")
    case True
    with rest mem show ?thesis by (auto intro: with_signals_out [OF ok])
  next
    case False
    obtain others t4 where "getListenersForStreamId now sid vid t3 = (others, t4)" by (cases "getListenersForStreamId now sid vid t3")
    with rest False have out: "to_talker now env sid vid (if others \<noteq> [] then ListenerReadyFailed sid vid else ListenerAskingFailed sid vid) t4 = (t', out)"
      by simp
    then have "o' \<in> set (snd (to_talker now env sid vid (if others \<noteq> [] then ListenerReadyFailed sid vid else ListenerAskingFailed sid vid) t4))"
      using mem by simp
    then show ?thesis by (rule to_talker_out [OF ok, rotated 2]) simp_all
  qed
qed

lemma handleMessage_srp_out:
  assumes run: "handleMessage_srp now env p a srp t = Inr (t', out)" and ok: "ports_ok n env" and mem: "o' \<in> set out"
  shows "out_ok n o'"
proof (cases srp)
  case (ListenerAskingFailed sid vid)
  with run have "to_talker now env sid vid (ListenerAskingFailed sid vid) t = (t', out)" by (simp add: handleMessage_srp_def)
  with mem have "o' \<in> set (snd (to_talker now env sid vid (ListenerAskingFailed sid vid) t))" by simp
  then show ?thesis by (rule to_talker_out [OF ok, rotated 2]) simp_all
qed (use run mem in \<open>auto simp: handleMessage_srp_def handle_talker_def intro: with_signals_out [OF ok] handle_listener_out [OF _ ok]\<close>)

subsection \<open>The two relay units compared\<close>

definition sends :: "nat \<Rightarrow> srp_out \<Rightarrow> (nat \<times> srp_frame) list" where
  "sends n out = (case out of (srp, c) \<Rightarrow>
     if sc_switchPort c = SWITCH_PORT_BROADCAST then map (\<lambda>i. (i, srp)) (other_ports n c)
     else [(nat (sc_switchPort c), srp)])"

lemma dispatch_tsn:
  "out_ok n (srp, c) \<Longrightarrow> 0 < n \<Longrightarrow>
     \<exists>es. handleSRPFromProtocol_tsn a nic n srp (Some c) = Inr es \<and> srp_outputs es = sends n (srp, c)"
  by (auto simp: out_ok_def handleSRPFromProtocol_tsn_def sends_def gate_index_def SWITCH_PORT_BROADCAST_def Let_def split: if_splits)
    (simp_all add: srp_ethernet_frame_def)

lemma filter_same_frame: "filter (\<lambda>(i, f). P f) (map (\<lambda>i. (i, srp)) is) = (if P srp then map (\<lambda>i. (i, srp)) is else [])"
  by (induction "is") simp_all

lemma as_talker_exclusive: "as_talker srp \<noteq> None \<Longrightarrow> as_listener_ready srp = None \<and> as_asking_failed srp = None"
  by (cases srp) simp_all

lemma dispatch_avb:
  "out_ok n (srp, c) \<Longrightarrow>
     \<exists>es. handleSRPFromProtocol_avb n srp (Some c) = Inr es
       \<and> srp_outputs es = filter (\<lambda>(i, f). as_asking_failed f = None) (sends n (srp, c))"
  using as_talker_exclusive [of srp]
  by (auto simp: out_ok_def handleSRPFromProtocol_avb_def sends_def gate_index_def SWITCH_PORT_BROADCAST_def filter_same_frame
      split: if_splits)

lemma dispatch_all_both:
  "\<forall>x \<in> set outs. out_ok n x \<Longrightarrow> 0 < n \<Longrightarrow>
     \<exists>es es'. dispatch_all (handleSRPFromProtocol_tsn a nic) n outs = Inr es \<and> srp_outputs es = concat (map (sends n) outs)
       \<and> dispatch_all handleSRPFromProtocol_avb n outs = Inr es'
       \<and> srp_outputs es' = filter (\<lambda>(i, f). as_asking_failed f = None) (concat (map (sends n) outs))"
proof (induction outs)
  case (Cons x outs)
  obtain srp c where x: "x = (srp, c)" by (cases x)
  from Cons obtain es es' where rest: "dispatch_all (handleSRPFromProtocol_tsn a nic) n outs = Inr es"
      "srp_outputs es = concat (map (sends n) outs)" "dispatch_all handleSRPFromProtocol_avb n outs = Inr es'"
      "srp_outputs es' = filter (\<lambda>(i, f). as_asking_failed f = None) (concat (map (sends n) outs))"
    by auto
  have ok: "out_ok n (srp, c)" using Cons.prems(1) x by simp
  from dispatch_tsn [OF ok Cons.prems(2), of a nic] dispatch_avb [OF ok] rest show ?case
    by (auto simp: x)
qed simp

text \<open>
  C26: For every message that the controller hands back, the two kinds of switch leave the same state and send the
  same packets to the same ports in the same order, except that the AVB switch loses every
  \<open>ListenerAskingFailed\<close>: what it sends is what the TSN switch sends without them. Neither of them fails
  after the protocol has answered.
\<close>

theorem relays_agree:
  assumes "ports_ok (length (sw_portState s)) env"
    and "arrive_srp now env (av_protocol s) True (Some port) srp (av_srpTable s) = Inr (t, outs)"
  shows "\<exists>es es'. srpOut (handleSRPFromProtocol_tsn a nic) env now srp port s = Inr (s\<lparr>av_srpTable := t\<rparr>, es)
    \<and> srpOut handleSRPFromProtocol_avb env now srp port s = Inr (s\<lparr>av_srpTable := t\<rparr>, es')
    \<and> srp_outputs es' = filter (\<lambda>(i, f). as_asking_failed f = None) (srp_outputs es)"
proof -
  have "\<forall>x \<in> set outs. out_ok (length (sw_portState s)) x"
    using assms(2) handleMessage_srp_out [OF _ assms(1)] by (simp add: arrive_srp_def)
  from dispatch_all_both [OF this, of a nic] assms show ?thesis
    by (auto simp: srpOut_def ports_ok_def)
qed

subsection \<open>Talkers\<close>

text \<open>The bandwidth classes of a protocol that accepts its parameters are told apart.\<close>


lemma pcp_cases: "(a :: 8 word) \<le> 7 \<Longrightarrow> a \<in> {0, 1, 2, 3, 4, 5, 6, 7}"
proof -
  assume "a \<le> 7"
  then have "uint a \<le> 7" by (simp add: word_le_def)
  then consider "uint a = 0" | "uint a = 1" | "uint a = 2" | "uint a = 3" | "uint a = 4" | "uint a = 5" | "uint a = 6" | "uint a = 7"
    using uint_ge_0 [of a] by linarith
  then show ?thesis by cases (simp_all add: word_uint_eq_iff)
qed

lemma priority_and_rank_pcp: "(a :: 8 word) \<le> 7 \<Longrightarrow> drop_bit 5 (priority_and_rank a AND 0xE0) = a"
  by (drule pcp_cases) (auto simp: priority_and_rank_def)

lemma parameters_distinct:
  assumes "handleParameterChange_srp (Some a) (Some b) p0 = Inr p"
  shows "priortyAndRankSRClassA p = priority_and_rank (pcpSRClassA p)" "priortyAndRankSRClassB p = priority_and_rank (pcpSRClassB p)"
    and "pcpSRClassA p \<le> 7" "pcpSRClassB p \<le> 7" "pcpSRClassA p \<noteq> pcpSRClassB p"
  using assms
  by (auto simp: handleParameterChange_srp_def pcp_parameter_def rbind_Inr_iff word_le_def uint_word_of_int split: if_splits)

lemma parameters_roundtrip:
  assumes "handleParameterChange_srp (Some a) (Some b) p0 = Inr p"
  shows "class_of_priority p (priority_of_class p c) = c"
proof -
  note d = parameters_distinct [OF assms]
  have "priortyAndRankSRClassA p \<noteq> priortyAndRankSRClassB p"
    using priority_and_rank_pcp [OF d(3)] priority_and_rank_pcp [OF d(4)] d(1,2,5) by metis
  then show ?thesis by (cases c) (auto simp: class_of_priority_def priority_of_class_def)
qed

lemma broadcast_dispatch:
  assumes "dispatch = handleSRPFromProtocol_avb \<or> dispatch = handleSRPFromProtocol_tsn a nic" and "as_talker srp \<noteq> None" and "0 < n"
  shows "\<exists>es. dispatch_all dispatch n [(srp, \<lparr>sc_switchPort = SWITCH_PORT_BROADCAST, sc_notSwitchPort = int i\<rparr>)] = Inr es
    \<and> srp_outputs es = map (\<lambda>j. (j, srp)) (filter (\<lambda>j. j \<noteq> i) [0 ..< n])"
proof -
  have "other_ports n \<lparr>sc_switchPort = SWITCH_PORT_BROADCAST, sc_notSwitchPort = int i\<rparr> = filter (\<lambda>j. j \<noteq> i) [0 ..< n]"
    by (simp add: other_ports_def)
  with assms show ?thesis
    by (auto simp: handleSRPFromProtocol_avb_def handleSRPFromProtocol_tsn_def SWITCH_PORT_BROADCAST_def Let_def)
qed

lemma ucast_up_down [simp]: "ucast (ucast (x :: 16 word) :: 64 word) = x"
  by (rule bit_word_eqI) (simp add: bit_ucast_iff)

lemma ucast_up_zero: "(ucast (x :: 16 word) :: 64 word) = 0 \<longleftrightarrow> x = 0"
  by (metis ucast_up_down unsigned_0)

text \<open>
  A new talker that the controller hands to the switch is announced: in a switch with valid parameters
  the message leaves on every port but the one of the talker, once, with the stream, the destination, the
  demand and the class that arrived, and the talker is stored with its port and with the priority code point
  of its class. Only the source address is not passed on. Both kinds of switch do this.
\<close>

theorem talker_announced:
  assumes dispatch: "dispatch = handleSRPFromProtocol_avb \<or> dispatch = handleSRPFromProtocol_tsn a nic"
    and params: "handleParameterChange_srp (Some pa) (Some pb) p0 = Inr (av_protocol s)"
    and prio: "ta_priorityAndRank ta \<in> {priortyAndRankSRClassA (av_protocol s), priortyAndRankSRClassB (av_protocol s)}"
    and new: "smap_get (ta_streamID ta) (smap_inner (ta_vlan ta) (talkerTables (av_srpTable s))) = None"
    and demand: "ta_maxFrameSize ta \<noteq> 0" "ta_maxIntervalFrames ta \<noteq> 0"
    and port: "env_port env (sint inPort) \<noteq> nullptr" "env_portIndex env (env_port env (sint inPort)) = Some i"
    and ports: "ports_ok (length (sw_portState s)) env" and inv: "srp_inv (av_srpTable s)"
  shows "\<exists>s' es e. processControlPlanePacket_avb dispatch env now new_ptr (OfVendor inPort (Some (EncSrp (TalkerAdvertise ta)))) s = Inr (s', es)
    \<and> srp_outputs es = map (\<lambda>j. (j, TalkerAdvertise (ta\<lparr>ta_source := 0\<rparr>))) (filter (\<lambda>j. j \<noteq> i) [0 ..< length (sw_portState s)])
    \<and> smap_get (ta_streamID ta) (smap_inner (ta_vlan ta) (talkerTables (av_srpTable s'))) = Some e
    \<and> te_module e = env_port env (sint inPort) \<and> priority_and_rank (te_pcp e) = ta_priorityAndRank ta"
proof -
  let ?p = "av_protocol s" and ?n = "length (sw_portState s)" and ?m = "env_port env (sint inPort)"
  define e where "e = \<lparr>te_streamId = ta_streamID ta, te_srClass = class_of_priority ?p (ta_priorityAndRank ta), te_address = ta_destination ta,
    te_module = ?m, te_framesize = ucast (ta_maxFrameSize ta), te_intervalFrames = ta_maxIntervalFrames ta, te_vlan_id = ta_vlan ta,
    te_pcp = drop_bit 5 (ta_priorityAndRank ta AND 0xE0), te_insertionTime = now, te_isStatic = False\<rparr>"
  define t where "t = srp_emit (NF_AVB_TALKER_REGISTERED e) (set_talker (ta_vlan ta) (ta_streamID ta) e (av_srpTable s))"
  let ?c = "\<lparr>sc_switchPort = SWITCH_PORT_BROADCAST, sc_notSwitchPort = int i\<rparr>"
  note d = parameters_distinct [OF params]
  have "priority_of_class ?p (class_of_priority ?p (ta_priorityAndRank ta)) = ta_priorityAndRank ta"
    using prio by (auto simp: class_of_priority_def priority_of_class_def)
  then have pdu: "talker_pdu ?p e = TalkerAdvertise (ta\<lparr>ta_source := 0\<rparr>)"
    by (simp add: talker_pdu_def e_def)
  have arrive: "arrive_srp now env ?p True (Some (sint inPort)) (TalkerAdvertise ta) (av_srpTable s) = Inr (t, [(talker_pdu ?p e, ?c)])"
    using new demand port
    by (simp add: arrive_srp_def handleMessage_srp_def handle_talker_def with_signals_def updateTalkerWithStreamId_def ucast_up_zero Let_def)
      (simp add: t_def e_def srp_emit_def set_talker_def receiveSignal_srp_def)
  have "\<exists>es. dispatch_all dispatch ?n [(talker_pdu ?p e, ?c)] = Inr es
      \<and> srp_outputs es = map (\<lambda>j. (j, talker_pdu ?p e)) (filter (\<lambda>j. j \<noteq> i) [0 ..< ?n])"
    by (rule broadcast_dispatch [OF dispatch]) (use ports in \<open>simp_all add: talker_pdu_def ports_ok_def\<close>)
  moreover have "smap_get (ta_streamID ta) (smap_inner (ta_vlan ta) (talkerTables t)) = Some e"
    by (simp add: t_def set_talker_get [OF inv])
  moreover have "priority_and_rank (te_pcp e) = ta_priorityAndRank ta"
    using prio priority_and_rank_pcp [OF d(3)] priority_and_rank_pcp [OF d(4)] by (auto simp: e_def d(1,2))
  ultimately show ?thesis
    using arrive
    by (auto simp: processControlPlanePacket_avb_def handleSRPFromController_avb_def srpOut_def pdu e_def [symmetric] intro!: exI [of _ e]) (simp_all add: e_def)
qed

subsection \<open>Listeners that are refused\<close>

lemma no_listeners:
  assumes "srp_inv t" and "\<forall>m. (vid, sid) \<notin> port_regs m t"
  shows "getListenersForStreamId now sid vid t = ([], removeAgedEntriesIfNeeded_srp now t)"
proof -
  obtain ls t1 where q: "getListenersForStreamId now sid vid t = (ls, t1)" by (cases "getListenersForStreamId now sid vid t")
  note keys = listener_keys [OF assms(1) q]
  have "port_regs m t1 \<subseteq> port_regs m t" for m
    using ageing_shrinks [of t now] assms(1) unfolding keys(2) shrinks_def by blast
  with assms(2) have "m \<notin> set ls" for m unfolding keys(1) by blast
  then have "ls = []" by (cases ls) auto
  with q keys(2) show ?thesis by simp
qed

lemma first_listener_refused:
  assumes inv: "srp_inv t" "srp_linked t"
    and talker: "smap_get sid (smap_inner vid (talkerTables t)) = Some e"
    and alone: "\<forall>m. (vid, sid) \<notin> port_regs m t" and port: "port \<noteq> nullptr"
    and full: "\<not> admits env port (word_of_int (port_load (env_window env) port (removeAgedEntriesIfNeeded_srp now t)))
      (talker_bandwidth (env_window env) e)"
  shows "\<exists>t4. handle_listener now env p port sid vid t = Inr (to_talker now env sid vid (ListenerAskingFailed sid vid) t4)
    \<and> srp_inv t4 \<and> talkerTables t4 = talkerTables t \<and> (\<forall>m. (vid, sid) \<notin> port_regs m t4)"
proof -
  let ?age = "removeAgedEntriesIfNeeded_srp now"
  define t1 where "t1 = ?age t"
  define t2 where "t2 = ?age t1"
  define t3 where "t3 = ?age t2"
  have shr: "shrinks t t1" "shrinks t t2" "shrinks t t3"
    unfolding t1_def t2_def t3_def by (blast intro: ageing_shrinks shrinks_trans)+
  then have tabs: "talkerTables t2 = talkerTables t" "talkerTables t3 = talkerTables t" "talkerTables t1 = talkerTables t"
    and invs: "srp_inv t2" "srp_linked t2" "srp_inv t3"
    using inv by (auto simp: shrinks_def)
  have none: "\<forall>m. (vid, sid) \<notin> port_regs m t3" using shr(3) alone inv(1) by (auto simp: shrinks_def)
  from linked_bandwidth [OF invs(1,2)] obtain u where u: "bandwidth_loop (talker_bandwidth (env_window env)) port (talkerTables t2) (srp_registrations t2) 0 = Inr u"
    by blast
  have "port_regs port t2 = port_regs port t1" by (simp add: t1_def t2_def ageing_idle_regs)
  then have "port_load (env_window env) port t2 = port_load (env_window env) port t1"
    by (simp add: port_load_def stream_load_def tabs)
  with bandwidth_is_load [OF invs(1) u] full have "\<not> admits env port u (talker_bandwidth (env_window env) e)"
    by (simp add: t1_def)
  moreover have "getBandwidthForModule (env_window env) now port t1 = Inr (u, t2)"
    using u by (simp add: getBandwidthForModule_def t2_def Let_def)
  moreover have "getBandwidthForStream (env_window env) now sid vid t2 = Inr (talker_bandwidth (env_window env) e, t3)"
    using talker tabs by (simp add: getBandwidthForStream_def t3_def Let_def)
  ultimately have "handle_listener now env p port sid vid t = Inr (to_talker now env sid vid (ListenerAskingFailed sid vid) (?age t3))"
    using no_listeners [OF inv(1) alone] no_listeners [OF invs(3) none] port by (simp add: handle_listener_def t1_def)
  moreover have "srp_inv (?age t3)" "talkerTables (?age t3) = talkerTables t"
    using ageing_shrinks [of t3 now] invs(3) tabs(2) by (auto simp: shrinks_def)
  moreover have "\<forall>m. (vid, sid) \<notin> port_regs m (?age t3)"
    using none ageing_shrinks [of t3 now] invs(3) unfolding shrinks_def by blast
  ultimately show ?thesis by blast
qed

lemma refused_run:
  assumes inv: "srp_inv (av_srpTable s)" "srp_linked (av_srpTable s)"
    and talker: "smap_get sid (smap_inner vid (talkerTables (av_srpTable s))) = Some e"
    and tport: "te_module e \<noteq> nullptr" "env_portIndex env (te_module e) = Some i" "i < length (sw_portState s)"
    and alone: "\<forall>m. (vid, sid) \<notin> port_regs m (av_srpTable s)" and port: "env_port env (sint inPort) \<noteq> nullptr"
    and full: "\<not> admits env (env_port env (sint inPort))
      (word_of_int (port_load (env_window env) (env_port env (sint inPort)) (removeAgedEntriesIfNeeded_srp now (av_srpTable s))))
      (talker_bandwidth (env_window env) e)"
  shows "\<exists>s'. processControlPlanePacket_avb handleSRPFromProtocol_avb env now new_ptr
        (OfVendor inPort (Some (EncSrp (ListenerReady sid vid)))) s = Inr (s', [])
    \<and> processControlPlanePacket_avb (handleSRPFromProtocol_tsn a (Some src)) env now new_ptr
        (OfVendor inPort (Some (EncSrp (ListenerReady sid vid)))) s
      = Inr (s', [SrpFrameOut i (srp_ethernet_frame a src (ListenerAskingFailed sid vid))])
    \<and> (\<forall>m. (vid, sid) \<notin> port_regs m (av_srpTable s'))"
proof -
  from first_listener_refused [OF inv talker alone port full, of "av_protocol s"] obtain t4 where
    refused: "handle_listener now env (av_protocol s) (env_port env (sint inPort)) sid vid (av_srpTable s)
      = Inr (to_talker now env sid vid (ListenerAskingFailed sid vid) t4)" and tabs: "talkerTables t4 = talkerTables (av_srpTable s)"
    and t4: "srp_inv t4" "\<forall>m. (vid, sid) \<notin> port_regs m t4"
    by blast
  have none: "\<forall>m. (vid, sid) \<notin> port_regs m (removeAgedEntriesIfNeeded_srp now t4)"
    using t4 ageing_shrinks [of t4 now] unfolding shrinks_def by blast
  have tabs': "talkerTables (removeAgedEntriesIfNeeded_srp now t4) = talkerTables t4"
    using ageing_shrinks [of t4 now] by (simp add: shrinks_def)
  have "to_talker now env sid vid (ListenerAskingFailed sid vid) t4
      = (removeAgedEntriesIfNeeded_srp now t4, [(ListenerAskingFailed sid vid, to_port i)])"
    using talker tport tabs by (simp add: to_talker_def getTalkerForStreamId_def tabs' Let_def)
  moreover have "sw_portState s \<noteq> []" using tport(3) by auto
  ultimately show ?thesis
    using refused tport(3) none
    by (simp add: processControlPlanePacket_avb_def handleSRPFromController_avb_def srpOut_def arrive_srp_def handleMessage_srp_def
        handleSRPFromProtocol_avb_def handleSRPFromProtocol_tsn_def to_port_def SWITCH_PORT_BROADCAST_def gate_index_def Let_def)
qed

text \<open>
  When the first listener of a stream asks through a port whose reservable bandwidth is exhausted, the
  TSN switch reports the failure to the port of the talker, but the AVB switch sends nothing at all: neither the
  talker nor the listener ever hears that the reservation was refused.
\<close>

theorem refusal_lost:
  assumes inv: "srp_inv (av_srpTable s)" "srp_linked (av_srpTable s)"
    and talker: "smap_get sid (smap_inner vid (talkerTables (av_srpTable s))) = Some e"
    and tport: "te_module e \<noteq> nullptr" "env_portIndex env (te_module e) = Some i" "i < length (sw_portState s)"
    and alone: "\<forall>m. (vid, sid) \<notin> port_regs m (av_srpTable s)" and port: "env_port env (sint inPort) \<noteq> nullptr"
    and full: "\<not> admits env (env_port env (sint inPort))
      (word_of_int (port_load (env_window env) (env_port env (sint inPort)) (removeAgedEntriesIfNeeded_srp now (av_srpTable s))))
      (talker_bandwidth (env_window env) e)"
  shows "\<exists>s'. processControlPlanePacket_avb handleSRPFromProtocol_avb env now new_ptr
        (OfVendor inPort (Some (EncSrp (ListenerReady sid vid)))) s = Inr (s', [])
    \<and> processControlPlanePacket_avb (handleSRPFromProtocol_tsn a (Some src)) env now new_ptr
        (OfVendor inPort (Some (EncSrp (ListenerReady sid vid)))) s
      = Inr (s', [SrpFrameOut i (srp_ethernet_frame a src (ListenerAskingFailed sid vid))])"
  using refused_run [OF assms] by blast

subsection \<open>Examples\<close>

definition example_avb :: "srp_table \<Rightarrow> avb_switch" where
  "example_avb t = agent.extend example_agent (avb_switch.fields t example_protocol)"

lemma example_avb_simps [simp]:
  "av_srpTable (example_avb t) = t" "av_protocol (example_avb t) = example_protocol" "sw_portState (example_avb t) = [0, 0, 0, 2]"
  by (simp_all add: example_avb_def example_agent_def example_edge_def example_switch_def avb_switch.defs agent.defs edge_switch.defs of_switch.defs)

lemma example_ports_ok: "ports_ok (Suc (Suc (Suc (Suc 0)))) example_env"
  by (auto simp: ports_ok_def example_env_def split: if_splits)

lemma example_parameters: "handleParameterChange_srp (Some 6) (Some 5) example_protocol = Inr example_protocol"
  by (simp add: handleParameterChange_srp_def pcp_parameter_def priority_and_rank_def example_protocol_def)

theorem talker_announced_witness:
  "\<exists>s' es. processControlPlanePacket_avb handleSRPFromProtocol_avb example_env 1 0
       (OfVendor 0 (Some (EncSrp (TalkerAdvertise (example_talker 60))))) (example_avb (srp_empty 10)) = Inr (s', es)
     \<and> srp_outputs es = map (\<lambda>j. (j, TalkerAdvertise (example_talker 60))) [1, 2, 3]"
proof -
  have "\<exists>s' es e. processControlPlanePacket_avb handleSRPFromProtocol_avb example_env 1 0
       (OfVendor 0 (Some (EncSrp (TalkerAdvertise (example_talker 60))))) (example_avb (srp_empty 10)) = Inr (s', es)
     \<and> srp_outputs es = map (\<lambda>j. (j, TalkerAdvertise ((example_talker 60)\<lparr>ta_source := 0\<rparr>)))
         (filter (\<lambda>j. j \<noteq> 0) [0 ..< length (sw_portState (example_avb (srp_empty 10)))])
     \<and> smap_get (ta_streamID (example_talker 60)) (smap_inner (ta_vlan (example_talker 60)) (talkerTables (av_srpTable s'))) = Some e
     \<and> te_module e = env_port example_env (sint (0 :: 32 word)) \<and> priority_and_rank (te_pcp e) = ta_priorityAndRank (example_talker 60)"
    by (rule talker_announced [where pa = 6 and pb = 5 and ?p0.0 = example_protocol])
      (simp_all add: example_parameters example_ports_ok,
       simp_all add: example_talker_def example_protocol_def srp_empty_def smap_inner_def example_env_def nullptr_def)
  moreover have "(example_talker 60)\<lparr>ta_source := 0\<rparr> = example_talker 60" by (simp add: example_talker_def)
  ultimately show ?thesis by (auto simp: upt_rec)
qed

definition big_table :: srp_table where
  "big_table = announced_table\<lparr>talkerTables := [(2, [(7, example_entry 1500 1)])]\<rparr>"

lemma big_table_ok: "srp_inv big_table" "srp_linked big_table" "port_regs m big_table = {}"
  by (simp_all add: big_table_def announced_table_def reserved_table_def example_entry_def srp_inv_def srp_linked_def port_regs_def
      srp_registrations_def smap_wf_def smap_all_def ttable_ok_def talker_ok_def nullptr_def)

lemma big_bandwidth: "talker_bandwidth (env_window example_env) (example_entry 1500 1) = 97344000"
  by (simp add: talker_bandwidth_def bandwidthFromSizeAndInterval_def example_env_def example_entry_def)

theorem refusal_lost_witness:
  "\<exists>s'. processControlPlanePacket_avb handleSRPFromProtocol_avb example_env 2 0
        (OfVendor 1 (Some (EncSrp (ListenerReady 7 2)))) (example_avb big_table) = Inr (s', [])
    \<and> processControlPlanePacket_avb (handleSRPFromProtocol_tsn 5 (Some 9)) example_env 2 0
        (OfVendor 1 (Some (EncSrp (ListenerReady 7 2)))) (example_avb big_table)
      = Inr (s', [SrpFrameOut 0 (srp_ethernet_frame 5 9 (ListenerAskingFailed 7 2))])"
proof (rule refusal_lost [where e = "example_entry 1500 1"])
  have "removeAgedEntriesIfNeeded_srp 2 big_table = big_table"
    by (simp add: removeAgedEntriesIfNeeded_srp_def big_table_def announced_table_def)
  then have "port_load (env_window example_env) m (removeAgedEntriesIfNeeded_srp 2 big_table) = 0" for m
    by (simp add: port_load_def big_table_ok)
  then show "\<not> admits example_env (env_port example_env (sint (1 :: 32 word)))
      (word_of_int (port_load (env_window example_env) (env_port example_env (sint (1 :: 32 word)))
        (removeAgedEntriesIfNeeded_srp 2 (av_srpTable (example_avb big_table)))))
      (talker_bandwidth (env_window example_env) (example_entry 1500 1))"
    by (simp add: admits_def big_bandwidth) (simp add: example_env_def)
qed (simp_all add: big_table_ok, simp_all add: big_table_def announced_table_def reserved_table_def smap_inner_def example_entry_def example_env_def nullptr_def)

theorem relays_agree_witness:
  "\<exists>t es es'. srpOut (handleSRPFromProtocol_tsn 5 (Some 9)) example_env 1 (TalkerAdvertise (example_talker 60)) 0 (example_avb (srp_empty 10))
      = Inr ((example_avb (srp_empty 10))\<lparr>av_srpTable := t\<rparr>, es)
    \<and> srpOut handleSRPFromProtocol_avb example_env 1 (TalkerAdvertise (example_talker 60)) 0 (example_avb (srp_empty 10))
      = Inr ((example_avb (srp_empty 10))\<lparr>av_srpTable := t\<rparr>, es')
    \<and> srp_outputs es' = filter (\<lambda>(i, f). as_asking_failed f = None) (srp_outputs es)"
proof -
  have "ports_ok (length (sw_portState (example_avb (srp_empty 10)))) example_env" using example_ports_ok by simp
  moreover obtain out where "arrive_srp 1 example_env (av_protocol (example_avb (srp_empty 10))) True (Some 0) (TalkerAdvertise (example_talker 60))
      (av_srpTable (example_avb (srp_empty 10))) = Inr (announced_table, out)"
    using announce_step by (auto simp: arrive_srp_def)
  ultimately show ?thesis using relays_agree by blast
qed

text \<open>
  An Ethernet frame without payload ends the simulation of a TSN switch, whatever its addresses and its flow
  table are; an AVB switch looks it up like every other frame.
\<close>

theorem tsn_empty_frame_crashes:
  assumes "fr_payload f = NoPayload"
  shows "dataPlaneIn_tsn now (EthernetMsg f) s = Inl (NullDeref ''encapsulated packet'')"
    and "dataPlaneIn_avb now (EthernetMsg f) s
      = rbind (processDataPlanePacket extractMatch_avb now f s) (\<lambda>(s', es). receiveSignals es s')"
  using assms
  by (simp_all add: dataPlaneIn_tsn_def dataPlaneIn_avb_def processDataPlanePacket_tsn_def processDataPlanePacket_avb_def
      isSRPMessage_tsn_def isSRPMessage_avb_def)

end
