(* ===== verification/LearningApps.thy ===== *)
theory LearningApps
  imports AvbSwitch ControllerCore "HOL-Library.Option_ord"
begin

text \<open>
  The applications of an OpenFlow controller that learn where stations and streams are:
  \<open>AbstractControllerApp\<close>, \<open>Hub\<close> and \<open>LearningSwitch\<close> (OpenFlow/controllerApps), \<open>MACTableManagement\<close>,
  \<open>SRPTableManagement\<close>, \<open>AVBLearningControllerApp\<close> and \<open>TSNLearningControllerApp\<close> (SDN4CoRE/controllerApps). A pointer
  to a switch is its index in the controller's list, a port module is its position in the order of creation
  (the first is 1, 0 is the null pointer). What a subclass overrides is the record \<open>app_methods\<close>. Loading and
  writing XML is left out.
\<close>

subsection \<open>Packet-ins\<close>

record packet_in =
  pi_conn :: int
  pi_buffer_id :: "32 word"
  pi_no_match :: bool   \<comment> \<open>the reason is \<open>OFPR_NO_MATCH\<close>\<close>
  pi_match :: oxm_basic_match
  pi_packet :: "encapsulated option"

record header_fields =
  hf_buffer_id :: "32 word"
  hf_swInfo :: "nat option"
  hf_inport :: "32 word"
  hf_src_mac :: mac
  hf_dst_mac :: mac
  hf_eth_type :: int
  hf_arp_src_adr :: ipv4
  hf_arp_dst_adr :: ipv4
  hf_arp_op :: int

definition extractCommonHeaderFields :: "packet_in \<Rightarrow> 'a of_controller_scheme \<Rightarrow> header_fields res" where
  "extractCommonHeaderFields pkt s =
     (let sw = findSwitchInfoFor (pi_conn pkt) s; b = pi_buffer_id pkt; m = pi_match pkt in
      if b = OFP_NO_BUFFER then
        (case pi_packet pkt of
           Some (EncFrame f) \<Rightarrow>
             (let hf = \<lparr>hf_buffer_id = b, hf_swInfo = sw, hf_inport = of_nat (fr_arrivalGate f), hf_src_mac = fr_src f,
                    hf_dst_mac = fr_dst f, hf_eth_type = uint (fr_etherType f), hf_arp_src_adr = 0, hf_arp_dst_adr = 0, hf_arp_op = 0\<rparr>
              in if fr_etherType f = ETHERTYPE_ARP then
                   (case fr_payload f of
                      ArpPacket oper sip dip \<Rightarrow> Inr (hf\<lparr>hf_arp_src_adr := sip, hf_arp_dst_adr := dip, hf_arp_op := oper\<rparr>)
                    | _ \<Rightarrow> Inl (RuntimeError ''check_and_cast(): cannot cast to ARPPacket''))
                 else Inr hf)
         | _ \<Rightarrow> Inl (NullDeref ''EthernetIIFrame''))
      else Inr \<lparr>hf_buffer_id = b, hf_swInfo = sw, hf_inport = ucast (OFB_IN_PORT m), hf_src_mac = OFB_ETH_SRC m,
             hf_dst_mac = OFB_ETH_DST m, hf_eth_type = uint (OFB_ETH_TYPE m), hf_arp_src_adr = OFB_ARP_SPA m,
             hf_arp_dst_adr = OFB_ARP_TPA m, hf_arp_op = OFB_ARP_OP m\<rparr>)"

subsection \<open>Messages to the switch\<close>

text \<open>A new builder: everything is a wildcard. Fields that nobody sets are indeterminate in the code and zero here.\<close>

definition fresh_match :: oxm_basic_match where
  "fresh_match = oxm_zero\<lparr>wildcards := OFPFW_ALL\<rparr>"

fun build_match :: "match_field list \<Rightarrow> oxm_basic_match \<Rightarrow> oxm_basic_match res" where
  "build_match [] m = Inr m"
| "build_match (f # fs) m = rbind (setField f m) (build_match fs)"

text \<open>\<open>createPacketOutFromPacketIn\<close>, \<open>createFloodPacketFromPacketIn\<close> and \<open>createDropPacketFromPacketIn\<close> differ in the port.\<close>

definition createPacketOutFromPacketIn :: "packet_in \<Rightarrow> 32 word \<Rightarrow> of_msg res" where
  "createPacketOutFromPacketIn pkt outport =
     (if pi_buffer_id pkt = OFP_NO_BUFFER then
        (case pi_packet pkt of
           Some (EncFrame f) \<Rightarrow> Inr (OfPacketOut OFP_NO_BUFFER (of_nat (fr_arrivalGate f)) [outport] (Some (EncFrame f)))
         | _ \<Rightarrow> Inl (NullDeref ''EthernetIIFrame''))
      else Inr (OfPacketOut (pi_buffer_id pkt) (ucast (OFB_IN_PORT (pi_match pkt))) [outport] None))"

definition createFloodPacketFromPacketIn :: "packet_in \<Rightarrow> of_msg res" where
  "createFloodPacketFromPacketIn pkt = createPacketOutFromPacketIn pkt OFPP_FLOOD"

definition createDropPacketFromPacketIn :: "packet_in \<Rightarrow> of_msg res" where
  "createDropPacketFromPacketIn pkt = createPacketOutFromPacketIn pkt OFPP_ANY"

text \<open>\<open>OF100MessageFactory::createFlowModMessage\<close>; the array of ports is read at index 0 in any case.\<close>

definition createFlowModMessage :: "flow_mod_command \<Rightarrow> oxm_basic_match \<Rightarrow> int \<Rightarrow> 32 word list option \<Rightarrow> int \<Rightarrow> int \<Rightarrow> flow_mod res" where
  "createFlowModMessage com m prio outports idle hard =
     (case outports of
        None \<Rightarrow> Inl (NullDeref ''outports'')
      | Some [] \<Rightarrow> Inl OutOfRange
      | Some ps \<Rightarrow> Inr \<lparr>fm_table_id = 0, fm_command = com, fm_cookie = 42, fm_priority = of_int prio, fm_flags = 0,
          fm_idle_timeout = of_int idle, fm_hard_timeout = of_int hard, fm_match = m, fm_actions = ps\<rparr>)"

definition createPacketOut :: "32 word list \<Rightarrow> 32 word \<Rightarrow> 32 word \<Rightarrow> frame option \<Rightarrow> of_msg res" where
  "createPacketOut outports in_port buffer_id f =
     (if buffer_id = OFP_NO_BUFFER then
        (case f of
           Some f' \<Rightarrow> Inr (OfPacketOut buffer_id in_port outports (Some (EncFrame f')))
         | None \<Rightarrow> Inl (RuntimeError ''OFP_NO_BUFFER was set but no frame was provided''))
      else Inr (OfPacketOut buffer_id in_port outports None))"

subsection \<open>State of the applications\<close>

text \<open>
  \<open>MACTableManagement\<close> and \<open>SRPTableManagement\<close> are submodules of the controller; a port module belongs to the
  vector that is named after the address of its switch.
\<close>

record learning_app = of_controller +
  la_priority :: int
  la_idleTimeout :: int
  la_hardTimeout :: int
  la_packetsFlooded :: int
  la_packetsDropped :: int
  la_numPacketOut :: int
  la_numFlowMod :: int
  la_lookupTable :: "(nat, (mac, 32 word) smap) smap"
  la_srpTables :: "(nat, srp_table) smap"
  la_portModules :: "(mac option \<times> int) list"
  la_unknownMacs :: "(nat, (mac, int) smap) smap"
  la_agingTime :: rat

type_synonym app_sending = "int \<times> of_msg"

text \<open>Sending over the socket that \<open>findSocketFor\<close> returns.\<close>

definition la_send :: "packet_in \<Rightarrow> of_msg \<Rightarrow> 'a of_controller_scheme \<Rightarrow> app_sending list res" where
  "la_send pkt m s =
     (case findSocketFor (pi_conn pkt) s of
        None \<Rightarrow> Inl (NullDeref ''socket'')
      | Some c \<Rightarrow> Inr [(c, m)])"

record app_methods =
  vm_createMatch :: "packet_in \<Rightarrow> header_fields \<Rightarrow> oxm_basic_match res"
  vm_flowMod :: "int \<Rightarrow> flow_mod_command \<Rightarrow> oxm_basic_match \<Rightarrow> 32 word \<Rightarrow> int \<Rightarrow> int \<Rightarrow> flow_mod res"
  vm_srpFlowMod :: "flow_mod_command \<Rightarrow> oxm_basic_match \<Rightarrow> int list \<Rightarrow> int \<Rightarrow> int \<Rightarrow> flow_mod res"
  vm_packetOut :: "packet_in \<Rightarrow> 32 word \<Rightarrow> of_msg res"

definition floodPacket :: "packet_in \<Rightarrow> 'a learning_app_scheme \<Rightarrow> ('a learning_app_scheme \<times> app_sending list) res" where
  "floodPacket pkt s =
     rbind (createFloodPacketFromPacketIn pkt) (\<lambda>m. rbind (la_send pkt m s) (\<lambda>out.
       Inr (s\<lparr>la_packetsFlooded := la_packetsFlooded s + 1\<rparr>, out)))"

definition dropPacket :: "packet_in \<Rightarrow> 'a learning_app_scheme \<Rightarrow> ('a learning_app_scheme \<times> app_sending list) res" where
  "dropPacket pkt s =
     rbind (createDropPacketFromPacketIn pkt) (\<lambda>m. rbind (la_send pkt m s) (\<lambda>out.
       Inr (s\<lparr>la_packetsDropped := la_packetsDropped s + 1\<rparr>, out)))"

definition sendPacket :: "app_methods \<Rightarrow> packet_in \<Rightarrow> 32 word \<Rightarrow> 'a learning_app_scheme
    \<Rightarrow> ('a learning_app_scheme \<times> app_sending list) res" where
  "sendPacket vm pkt outport s =
     rbind (vm_packetOut vm pkt outport) (\<lambda>m. rbind (la_send pkt m s) (\<lambda>out.
       Inr (s\<lparr>la_numPacketOut := la_numPacketOut s + 1\<rparr>, out)))"

definition send_flow_mod :: "app_methods \<Rightarrow> packet_in \<Rightarrow> oxm_basic_match \<Rightarrow> 32 word \<Rightarrow> 'a learning_app_scheme
    \<Rightarrow> ('a learning_app_scheme \<times> app_sending list) res" where
  "send_flow_mod vm pkt m outport s =
     rbind (vm_flowMod vm (la_priority s) OFPFC_ADD m outport (la_idleTimeout s) (la_hardTimeout s)) (\<lambda>fm.
     rbind (la_send pkt (OfFlowMod fm) s) (\<lambda>out. Inr (s\<lparr>la_numFlowMod := la_numFlowMod s + 1\<rparr>, out)))"

subsection \<open>Learning addresses\<close>

definition MAC_MANAGER_OUTPORT_FLOOD :: int where
  "MAC_MANAGER_OUTPORT_FLOOD = -1"

type_synonym mac_table = "(nat, (mac, 32 word) smap) smap"

definition update_mac :: "nat \<Rightarrow> mac \<Rightarrow> 32 word \<Rightarrow> mac_table \<Rightarrow> mac_table" where
  "update_mac sw source in_port t =
     (case smap_get sw t of
        None \<Rightarrow> smap_put sw (smap_put source in_port []) t
      | Some m \<Rightarrow> if smap_get source m = None then smap_put sw (smap_put source in_port m) t else t)"

text \<open>The port is stored unsigned and returned as \<open>int\<close>.\<close>

definition lookup_mac :: "nat \<Rightarrow> mac \<Rightarrow> mac_table \<Rightarrow> int" where
  "lookup_mac sw destination t =
     (case smap_get sw t of
        None \<Rightarrow> MAC_MANAGER_OUTPORT_FLOOD
      | Some m \<Rightarrow> (case smap_get destination m of None \<Rightarrow> MAC_MANAGER_OUTPORT_FLOOD | Some p \<Rightarrow> sint p))"

definition isBroadcast :: "mac \<Rightarrow> bool" where
  "isBroadcast m \<longleftrightarrow> m = 0xFFFFFFFFFFFF"

definition note_unknown :: "nat \<Rightarrow> mac \<Rightarrow> 32 word \<Rightarrow> (nat, (mac, int) smap) smap \<Rightarrow> (nat, (mac, int) smap) smap" where
  "note_unknown sw dst inport u =
     (case smap_get sw u of
        None \<Rightarrow> smap_put sw (smap_put dst (sint inport) []) u
      | Some m \<Rightarrow> if smap_get dst m = None then smap_put sw (smap_put dst (sint inport) m) u else u)"

text \<open>The match of \<open>LearningSwitch\<close> and of \<open>AVBLearningControllerApp::createMatchFromPacketIn\<close>.\<close>

definition basic_fields :: "header_fields \<Rightarrow> match_field list" where
  "basic_fields hf = [F_ETH_DST (hf_dst_mac hf), F_ETH_TYPE (of_int (hf_eth_type hf)), F_ETH_SRC (hf_src_mac hf),
     F_IN_PORT (ucast (hf_inport hf))]"

definition createMatchFromPacketIn :: "packet_in \<Rightarrow> header_fields \<Rightarrow> oxm_basic_match res" where
  "createMatchFromPacketIn pkt hf = build_match (basic_fields hf) fresh_match"

text \<open>A switch that the controller does not know ends the run in every branch, because its socket is missing.\<close>

definition doSwitching :: "app_methods \<Rightarrow> packet_in \<Rightarrow> 'a learning_app_scheme
    \<Rightarrow> ('a learning_app_scheme \<times> app_sending list) res" where
  "doSwitching vm pkt s =
     rbind (extractCommonHeaderFields pkt s) (\<lambda>hf.
       case hf_swInfo hf of
         None \<Rightarrow> Inl (NullDeref ''socket'')
       | Some sw \<Rightarrow>
           (let t = update_mac sw (hf_src_mac hf) (hf_inport hf) (la_lookupTable s);
                s1 = s\<lparr>la_lookupTable := t\<rparr>;
                outport = lookup_mac sw (hf_dst_mac hf) t
            in if outport = MAC_MANAGER_OUTPORT_FLOOD then
                 floodPacket pkt
                   (if isBroadcast (hf_dst_mac hf) then s1
                    else s1\<lparr>la_unknownMacs := note_unknown sw (hf_dst_mac hf) (hf_inport hf) (la_unknownMacs s1)\<rparr>)
               else
                 rbind (vm_createMatch vm pkt hf) (\<lambda>m.
                 rbind (send_flow_mod vm pkt m (of_int outport) s1) (\<lambda>(s2, out1).
                 rbind (sendPacket vm pkt (of_int outport) s2) (\<lambda>(s3, out2). Inr (s3, out1 @ out2))))))"

text \<open>\<open>LearningSwitch\<close> asks its table directly, so no port number stands for flooding.\<close>

definition doSwitching_ls :: "app_methods \<Rightarrow> packet_in \<Rightarrow> 'a learning_app_scheme
    \<Rightarrow> ('a learning_app_scheme \<times> app_sending list) res" where
  "doSwitching_ls vm pkt s =
     rbind (extractCommonHeaderFields pkt s) (\<lambda>hf.
       case hf_swInfo hf of
         None \<Rightarrow> Inl (NullDeref ''socket'')
       | Some sw \<Rightarrow>
           (let t = update_mac sw (hf_src_mac hf) (hf_inport hf) (la_lookupTable s);
                s1 = s\<lparr>la_lookupTable := t\<rparr>
            in case Option.bind (smap_get sw t) (smap_get (hf_dst_mac hf)) of
                 None \<Rightarrow> floodPacket pkt s1
               | Some outport \<Rightarrow>
                   rbind (build_match (basic_fields hf) fresh_match) (\<lambda>m.
                   rbind (send_flow_mod vm pkt m outport s1) (\<lambda>(s2, out1).
                   rbind (sendPacket vm pkt outport s2) (\<lambda>(s3, out2). Inr (s3, out1 @ out2))))))"

definition base_methods :: app_methods where
  "base_methods =
     \<lparr>vm_createMatch = createMatchFromPacketIn,
      vm_flowMod = (\<lambda>prio com m p idle hard. Inr (createFlowMod com m p prio idle hard)),
      vm_srpFlowMod = (\<lambda>com m ps idle hard. createFlowModMessage com m 5000 (Some (map of_int ps)) idle hard),
      vm_packetOut = createPacketOutFromPacketIn\<rparr>"

text \<open>\<open>TSNLearningControllerApp\<close>: the priority of a tagged frame is matched too, static priorities are not switched.\<close>

definition tagged_packet :: "packet_in \<Rightarrow> qtag option" where
  "tagged_packet pkt = (case pi_packet pkt of Some (EncFrame f) \<Rightarrow> fr_qtag f | _ \<Rightarrow> None)"

definition createMatchFromPacketIn_tsn :: "packet_in \<Rightarrow> header_fields \<Rightarrow> oxm_basic_match res" where
  "createMatchFromPacketIn_tsn pkt hf =
     (case tagged_packet pkt of
        Some q \<Rightarrow> build_match (basic_fields hf @ [F_VLAN_PCP (q_pcp q)]) fresh_match
      | None \<Rightarrow> createMatchFromPacketIn pkt hf)"

definition tsn_methods :: app_methods where
  "tsn_methods = base_methods\<lparr>vm_createMatch := createMatchFromPacketIn_tsn\<rparr>"

definition doSwitching_tsn :: "int list \<Rightarrow> app_methods \<Rightarrow> packet_in \<Rightarrow> 'a learning_app_scheme
    \<Rightarrow> ('a learning_app_scheme \<times> app_sending list) res" where
  "doSwitching_tsn staticPriorities vm pkt s =
     (case tagged_packet pkt of
        Some q \<Rightarrow> if uint (q_pcp q) \<in> set staticPriorities then dropPacket pkt s else doSwitching vm pkt s
      | None \<Rightarrow> doSwitching vm pkt s)"

subsection \<open>Learning streams\<close>

definition "PRIOANDRANK_SRCLASSA = (0xD0 :: 8 word)"
definition "PRIOANDRANK_SRCLASSB = (0xB0 :: 8 word)"

definition getPort :: "cmodule \<Rightarrow> 'a learning_app_scheme \<Rightarrow> int res" where
  "getPort m s =
     (if m = nullptr \<or> length (la_portModules s) < m then Inl (NullDeref ''PortModule'')
      else Inr (snd (la_portModules s ! (m - 1))))"

definition checkOrCreatePortModule :: "nat \<Rightarrow> int \<Rightarrow> 'a learning_app_scheme \<Rightarrow> cmodule \<times> 'a learning_app_scheme" where
  "checkOrCreatePortModule sw port s =
     (let name = si_macAddress (oc_switchesList s ! sw) in
      case find_idx (\<lambda>x. x = (name, port)) (la_portModules s) of
        Some i \<Rightarrow> (Suc i, s)
      | None \<Rightarrow> (Suc (length (la_portModules s)), s\<lparr>la_portModules := la_portModules s @ [(name, port)]\<rparr>))"

definition checkOrCreateTable :: "nat \<Rightarrow> 'a learning_app_scheme \<Rightarrow> 'a learning_app_scheme" where
  "checkOrCreateTable sw s =
     (if smap_get sw (la_srpTables s) = None
      then s\<lparr>la_srpTables := smap_put sw (srp_empty (la_agingTime s)) (la_srpTables s)\<rparr> else s)"

definition the_table :: "nat \<Rightarrow> 'a learning_app_scheme \<Rightarrow> srp_table" where
  "the_table sw s = (case smap_get sw (la_srpTables s) of Some t \<Rightarrow> t | None \<Rightarrow> srp_empty (la_agingTime s))"

definition put_table :: "nat \<Rightarrow> srp_table \<Rightarrow> 'a learning_app_scheme \<Rightarrow> 'a learning_app_scheme" where
  "put_table sw t s = s\<lparr>la_srpTables := smap_put sw t (la_srpTables s)\<rparr>"

definition registerTalker :: "simtime \<Rightarrow> nat \<Rightarrow> int \<Rightarrow> talker_advertise \<Rightarrow> 'a learning_app_scheme
    \<Rightarrow> (bool \<times> 'a learning_app_scheme) res" where
  "registerTalker now sw arrivalPort ta s0 =
     (let s1 = checkOrCreateTable sw s0 in
      case getTalkerForStreamId now (ta_streamID ta) (ta_vlan ta) (the_table sw s1) of (m, t1) \<Rightarrow>
      let s2 = put_table sw t1 s1 in
      rbind (if m = nullptr then Inr True else rbind (getPort m s2) (\<lambda>p. Inr (p = arrivalPort))) (\<lambda>same.
      if \<not> same then Inl (InvalidArgument ''Talker already exists on another port'')
      else
        (case checkOrCreatePortModule sw arrivalPort s2 of (k, s3) \<Rightarrow>
         let prio = ta_priorityAndRank ta;
             cls = (if prio = PRIOANDRANK_SRCLASSA then SR_CLASS_A
                    else if prio = PRIOANDRANK_SRCLASSB then SR_CLASS_B else SR_CLASS_A)
         in rbind (updateTalkerWithStreamId now (ta_streamID ta) k (ta_destination ta) cls (ucast (ta_maxFrameSize ta))
                (ta_maxIntervalFrames ta) (ta_vlan ta) (drop_bit 5 (prio AND 0xE0)) False (the_table sw s3)) (\<lambda>(b, t2).
              Inr (b, put_table sw t2 s3)))))"

text \<open>The first listener whose port is the arrival port.\<close>

fun find_listener :: "int \<Rightarrow> cmodule list \<Rightarrow> 'a learning_app_scheme \<Rightarrow> cmodule option res" where
  "find_listener p [] s = Inr None"
| "find_listener p (l # ls) s = rbind (getPort l s) (\<lambda>q. if q = p then Inr (Some l) else find_listener p ls s)"

definition registerListener :: "simtime \<Rightarrow> nat \<Rightarrow> int \<Rightarrow> 64 word \<Rightarrow> 16 word \<Rightarrow> 'a learning_app_scheme
    \<Rightarrow> (bool \<times> 'a learning_app_scheme) res" where
  "registerListener now sw arrivalPort sid vid s =
     (case smap_get sw (la_srpTables s) of
        None \<Rightarrow> Inr (False, s)
      | Some t \<Rightarrow>
          (case getListenersForStreamId now sid vid t of (ls, t1) \<Rightarrow>
           let s1 = put_table sw t1 s in
           rbind (find_listener arrivalPort ls s1) (\<lambda>found.
             case (case found of Some k \<Rightarrow> (k, s1) | None \<Rightarrow> checkOrCreatePortModule sw arrivalPort s1) of (k, s2) \<Rightarrow>
             rbind (updateListenerWithStreamId now sid k vid False (the_table sw s2)) (\<lambda>(b, t2).
               Inr (True, put_table sw t2 s2)))))"

record forwarding_info =
  fwd_inPort :: int
  fwd_dest :: mac
  fwd_vlanID :: "16 word"
  fwd_pcp :: "8 word"
  fwd_srClass :: sr_class
  fwd_streamID :: "64 word"
  fwd_outports :: "int list"

fun listener_ports :: "cmodule list \<Rightarrow> 'a learning_app_scheme \<Rightarrow> int list \<Rightarrow> int list res" where
  "listener_ports [] s acc = Inr acc"
| "listener_ports (l # ls) s acc =
     rbind (getPort l s) (\<lambda>p. listener_ports ls s (if p \<in> set acc then acc else acc @ [p]))"

definition getForwardingInfoForStreamID :: "simtime \<Rightarrow> nat \<Rightarrow> 64 word \<Rightarrow> 16 word \<Rightarrow> 'a learning_app_scheme
    \<Rightarrow> (forwarding_info \<times> 'a learning_app_scheme) res" where
  "getForwardingInfoForStreamID now sw sid vid s =
     (case smap_get sw (la_srpTables s) of
        None \<Rightarrow> Inl (RuntimeError ''Forwarding info for switch requested, but there is no srp table for it.'')
      | Some t \<Rightarrow>
          (case getTalkerEntryForStreamId now sid vid t of
             (None, t1) \<Rightarrow> Inl (RuntimeError ''Forwarding info for stream requested, but there is no talker entry in srp table.'')
           | (Some e, t1) \<Rightarrow>
               rbind (getPort (te_module e) s) (\<lambda>inPort.
               case getListenersForStreamId now sid vid t1 of (ls, t2) \<Rightarrow>
               rbind (listener_ports ls s []) (\<lambda>outports.
                 Inr (\<lparr>fwd_inPort = inPort, fwd_dest = te_address e, fwd_vlanID = vid, fwd_pcp = te_pcp e,
                        fwd_srClass = te_srClass e, fwd_streamID = sid, fwd_outports = outports\<rparr>, put_table sw t2 s)))))"

subsection \<open>Streams\<close>

definition avb_match :: "forwarding_info \<Rightarrow> oxm_basic_match res" where
  "avb_match fwd = build_match [F_IN_PORT (of_int (fwd_inPort fwd)), F_ETH_DST (fwd_dest fwd), F_ETH_TYPE 0x8100,
     F_VLAN_VID (fwd_vlanID fwd), F_VLAN_PCP (fwd_pcp fwd)] fresh_match"

definition sendSRPFlowModMessage :: "app_methods \<Rightarrow> packet_in \<Rightarrow> forwarding_info \<Rightarrow> 'a learning_app_scheme
    \<Rightarrow> ('a learning_app_scheme \<times> app_sending list) res" where
  "sendSRPFlowModMessage vm pkt fwd s =
     rbind (avb_match fwd) (\<lambda>m.
     rbind (vm_srpFlowMod vm OFPFC_ADD m (fwd_outports fwd) (la_idleTimeout s) (la_hardTimeout s)) (\<lambda>fm.
     rbind (la_send pkt (OfFlowMod fm) s) (\<lambda>out. Inr (s\<lparr>la_numFlowMod := la_numFlowMod s + 1\<rparr>, out))))"

definition forwardSRPPacket :: "packet_in \<Rightarrow> srp_frame \<Rightarrow> 'a learning_app_scheme \<Rightarrow> app_sending list res" where
  "forwardSRPPacket pkt srp s = la_send pkt (OfVendor (ucast (OFB_IN_PORT (pi_match pkt))) (Some (EncSrp srp))) s"

definition listener_rule :: "app_methods \<Rightarrow> simtime \<Rightarrow> packet_in \<Rightarrow> nat \<Rightarrow> 64 word \<Rightarrow> 16 word \<Rightarrow> 'a learning_app_scheme
    \<Rightarrow> ('a learning_app_scheme \<times> app_sending list) res" where
  "listener_rule vm now pkt sw sid vid s =
     rbind (registerListener now sw (uint (OFB_IN_PORT (pi_match pkt))) sid vid s) (\<lambda>(updated, s1).
       if updated then
         rbind (getForwardingInfoForStreamID now sw sid vid s1) (\<lambda>(fwd, s2). sendSRPFlowModMessage vm pkt fwd s2)
       else Inr (s1, []))"

definition doSRP :: "app_methods \<Rightarrow> simtime \<Rightarrow> packet_in \<Rightarrow> srp_frame \<Rightarrow> 'a learning_app_scheme
    \<Rightarrow> ('a learning_app_scheme \<times> app_sending list) res" where
  "doSRP vm now pkt srp s =
     rbind
       (case as_talker srp of
          Some ta \<Rightarrow>
            (case findSwitchInfoFor (pi_conn pkt) s of
               None \<Rightarrow> Inl (NullDeref ''swInfo'')
             | Some sw \<Rightarrow> rbind (registerTalker now sw (uint (OFB_IN_PORT (pi_match pkt))) ta s) (\<lambda>(b, s1). Inr (s1, [])))
        | None \<Rightarrow>
            (case as_listener_ready srp of
               Some (sid, vid) \<Rightarrow>
                 (case findSwitchInfoFor (pi_conn pkt) s of
                    None \<Rightarrow> Inr (s, [])
                  | Some sw \<Rightarrow> listener_rule vm now pkt sw sid vid s)
             | None \<Rightarrow> Inr (s, [])))
       (\<lambda>(s1, out1). rbind (forwardSRPPacket pkt srp s1) (\<lambda>out2. Inr (s1, out1 @ out2)))"

text \<open>
  The packet-in signal. \<open>isAVB\<close> tells the frames of class \<open>AVBFrame\<close>; \<open>switching\<close> is the virtual
  \<open>doSwitching\<close>.
\<close>

definition receiveSignal_avb :: "(frame \<Rightarrow> bool) \<Rightarrow> (packet_in \<Rightarrow> 'a learning_app_scheme \<Rightarrow> ('a learning_app_scheme \<times> app_sending list) res)
    \<Rightarrow> app_methods \<Rightarrow> simtime \<Rightarrow> packet_in \<Rightarrow> 'a learning_app_scheme \<Rightarrow> ('a learning_app_scheme \<times> app_sending list) res" where
  "receiveSignal_avb isAVB switching vm now pkt s =
     (case pi_packet pkt of
        Some (EncSrp srp) \<Rightarrow> doSRP vm now pkt srp s
      | Some (EncFrame f) \<Rightarrow> if isAVB f then Inr (s, []) else switching pkt s
      | None \<Rightarrow> switching pkt s)"

definition receiveSignal_ls :: "packet_in \<Rightarrow> 'a learning_app_scheme \<Rightarrow> ('a learning_app_scheme \<times> app_sending list) res" where
  "receiveSignal_ls pkt s = doSwitching_ls base_methods pkt s"

definition receiveSignal_hub :: "packet_in \<Rightarrow> 'a learning_app_scheme \<Rightarrow> ('a learning_app_scheme \<times> app_sending list) res" where
  "receiveSignal_hub pkt s = floodPacket pkt s"

end
