(* ===== verification/StreamRules.thy ===== *)
theory StreamRules
  imports LearningApps
begin

text \<open>
  What the applications of \<open>LearningApps\<close> install: the invariant of the reservation tables that the
  controller keeps for its switches, the rule of a stream, and what it means that the controller does not
  wait for the answer of the switch. What a subclass may change about messages is the locale \<open>controller_methods\<close>.
\<close>

unbundle bit_operations_syntax

subsection \<open>Port modules\<close>

definition module_of :: "'a learning_app_scheme \<Rightarrow> nat \<Rightarrow> cmodule \<Rightarrow> bool" where
  "module_of s sw m \<longleftrightarrow> 0 < m \<and> m \<le> length (la_portModules s)
     \<and> fst (la_portModules s ! (m - 1)) = si_macAddress (oc_switchesList s ! sw)
     \<and> 0 \<le> snd (la_portModules s ! (m - 1)) \<and> snd (la_portModules s ! (m - 1)) < 2 ^ 16"

definition port_of :: "'a learning_app_scheme \<Rightarrow> cmodule \<Rightarrow> int" where
  "port_of s m = snd (la_portModules s ! (m - 1))"

lemma getPort_module: "module_of s sw m \<Longrightarrow> getPort m s = Inr (port_of s m)"
  by (simp add: module_of_def getPort_def port_of_def nullptr_def)

lemma module_unique:
  assumes "distinct (la_portModules s)" and "module_of s sw m" and "module_of s sw k" and "port_of s m = port_of s k"
  shows "m = k"
proof -
  have "la_portModules s ! (m - 1) = la_portModules s ! (k - 1)"
    using assms(2-4) by (simp add: module_of_def port_of_def prod_eq_iff)
  moreover have "m - 1 < length (la_portModules s)" "k - 1 < length (la_portModules s)" "0 < m" "0 < k"
    using assms(2,3) by (auto simp: module_of_def)
  ultimately show ?thesis using assms(1) by (simp add: nth_eq_iff_index_eq)
qed

text \<open>A state with more modules.\<close>

definition grows :: "'a learning_app_scheme \<Rightarrow> 'a learning_app_scheme \<Rightarrow> bool" where
  "grows s s' \<longleftrightarrow> (\<exists>ms. la_portModules s' = la_portModules s @ ms) \<and> oc_switchesList s' = oc_switchesList s"

lemma grows_refl [simp]: "grows s s"
  by (simp add: grows_def)

lemma grows_trans: "grows s s1 \<Longrightarrow> grows s1 s2 \<Longrightarrow> grows s s2"
  by (auto simp: grows_def)

lemma module_grows: "grows s s' \<Longrightarrow> module_of s sw m \<Longrightarrow> module_of s' sw m \<and> port_of s' m = port_of s m"
  by (auto simp: grows_def module_of_def port_of_def nth_append)

subsection \<open>The invariant\<close>

definition mods_ok :: "'a learning_app_scheme \<Rightarrow> nat \<Rightarrow> srp_table \<Rightarrow> bool" where
  "mods_ok s sw t \<longleftrightarrow> (\<forall>v sid e. smap_get sid (smap_inner v (talkerTables t)) = Some e \<longrightarrow> module_of s sw (te_module e))
     \<and> (\<forall>m. port_regs m t \<noteq> {} \<longrightarrow> module_of s sw m)"

definition table_ok :: "'a learning_app_scheme \<Rightarrow> nat \<Rightarrow> srp_table \<Rightarrow> bool" where
  "table_ok s sw t \<longleftrightarrow> srp_inv t \<and> srp_linked t \<and> mods_ok s sw t \<and> 0 \<le> srp_agingTime t"

definition la_inv :: "'a learning_app_scheme \<Rightarrow> bool" where
  "la_inv s \<longleftrightarrow> 0 \<le> la_agingTime s \<and> smap_wf (la_srpTables s) \<and> distinct (la_portModules s)
     \<and> (\<forall>sw t. smap_get sw (la_srpTables s) = Some t \<longrightarrow> table_ok s sw t)"

lemma mods_ok_grows: "grows s s' \<Longrightarrow> mods_ok s sw t \<Longrightarrow> mods_ok s' sw t"
  using module_grows by (fastforce simp: mods_ok_def)

lemma table_ok_grows: "grows s s' \<Longrightarrow> table_ok s sw t \<Longrightarrow> table_ok s' sw t"
  using mods_ok_grows by (auto simp: table_ok_def)

lemma aged_agingTime [simp]: "srp_agingTime (removeAgedEntriesIfNeeded_srp now t) = srp_agingTime t"
  by (simp add: removeAgedEntriesIfNeeded_srp_def removeAgedEntries_srp_tables)

lemma table_ok_aged: "table_ok s sw t \<Longrightarrow> table_ok s sw (removeAgedEntriesIfNeeded_srp now t)"
  using ageing_shrinks [of t now] by (fastforce simp: table_ok_def mods_ok_def shrinks_def)

lemma grows_put [simp]: "grows s (put_table sw t s') = grows s s'" "grows (put_table sw t s) s' = grows s s'"
  by (simp_all add: grows_def put_table_def)

lemma put_table_ok [simp]: "table_ok (put_table sw t s) sw' t' = table_ok s sw' t'"
  by (simp add: table_ok_def mods_ok_def module_of_def put_table_def)

lemma put_table_inv: "la_inv s \<Longrightarrow> table_ok s sw t \<Longrightarrow> la_inv (put_table sw t s)"
  unfolding la_inv_def put_table_ok by (auto simp: put_table_def smap_simps split: if_splits)

lemma put_table_get [simp]: "la_inv s \<Longrightarrow> smap_get j (la_srpTables (put_table sw t s)) = (if j = sw then Some t else smap_get j (la_srpTables s))"
  by (simp add: put_table_def la_inv_def smap_simps)

lemma put_table_ports [simp]: "port_of (put_table sw t s) m = port_of s m" "module_of (put_table sw t s) sw' m = module_of s sw' m"
  by (simp_all add: port_of_def module_of_def put_table_def)

lemma checkOrCreatePortModule_spec:
  assumes run: "checkOrCreatePortModule sw p s = (k, s')" and inv: "la_inv s" and p: "0 \<le> p" "p < 2 ^ 16"
  shows "la_inv s'" and "grows s s'" and "module_of s' sw k" and "port_of s' k = p" and "la_srpTables s' = la_srpTables s"
proof -
  let ?x = "(si_macAddress (oc_switchesList s ! sw), p)"
  have all: "la_inv s' \<and> grows s s' \<and> module_of s' sw k \<and> port_of s' k = p \<and> la_srpTables s' = la_srpTables s"
  proof (cases "find_idx (\<lambda>x. x = ?x) (la_portModules s)")
    case (Some i)
    with run find_idx_Some [OF Some] inv p show ?thesis
      by (auto simp: checkOrCreatePortModule_def module_of_def port_of_def Let_def)
  next
    case None
    then have new: "?x \<notin> set (la_portModules s)" by (auto simp: find_idx_None)
    from None run have s': "s' = s\<lparr>la_portModules := la_portModules s @ [?x]\<rparr>" "k = Suc (length (la_portModules s))"
      by (auto simp: checkOrCreatePortModule_def Let_def)
    then have g: "grows s s'" by (simp add: grows_def)
    then have "la_inv s'" using inv new table_ok_grows [OF g] by (auto simp: la_inv_def s')
    with g p show ?thesis by (simp add: s' module_of_def port_of_def nth_append)
  qed
  then show "la_inv s'" "grows s s'" "module_of s' sw k" "port_of s' k = p" "la_srpTables s' = la_srpTables s" by simp_all
qed

subsection \<open>Registration keeps the invariant\<close>

lemma the_table_get: "smap_get sw (la_srpTables s) = Some t \<Longrightarrow> the_table sw s = t"
  by (simp add: the_table_def)

lemma checkOrCreateTable_spec:
  assumes "la_inv s"
  shows "la_inv (checkOrCreateTable sw s)" and "grows s (checkOrCreateTable sw s)"
    and "\<exists>t. smap_get sw (la_srpTables (checkOrCreateTable sw s)) = Some t \<and> table_ok (checkOrCreateTable sw s) sw t"
proof -
  have new: "table_ok s sw (srp_empty (la_agingTime s))"
    using assms by (simp add: table_ok_def mods_ok_def la_inv_def) (simp add: srp_empty_def port_regs_def srp_registrations_def)
  have eq: "checkOrCreateTable sw s = (if smap_get sw (la_srpTables s) = None then put_table sw (srp_empty (la_agingTime s)) s else s)"
    by (simp add: checkOrCreateTable_def put_table_def)
  show "la_inv (checkOrCreateTable sw s)" "grows s (checkOrCreateTable sw s)"
    and "\<exists>t. smap_get sw (la_srpTables (checkOrCreateTable sw s)) = Some t \<and> table_ok (checkOrCreateTable sw s) sw t"
    using assms put_table_inv [OF assms new] new by (auto simp: eq la_inv_def)
qed

lemma updateTalker_shape:
  assumes run: "updateTalkerWithStreamId now sid m addr cls fs ivf vid pcp st t = Inr (b, t')"
  shows "\<exists>e. (t' = set_talker vid sid e t \<or> (\<exists>g. t' = srp_emit g (set_talker vid sid e t))) \<and> te_module e = m"
proof (cases "smap_get sid (smap_inner vid (talkerTables t))")
  case None
  let ?e = "\<lparr>te_streamId = sid, te_srClass = cls, te_address = addr, te_module = m, te_framesize = fs,
      te_intervalFrames = ivf, te_vlan_id = vid, te_pcp = pcp, te_insertionTime = now, te_isStatic = st\<rparr>"
  from None run show ?thesis
    by (intro exI [of _ ?e]) (auto simp: updateTalkerWithStreamId_def Let_def split: if_splits)
next
  case (Some e0)
  let ?e = "e0\<lparr>te_streamId := sid, te_srClass := cls, te_address := addr, te_module := m,
      te_framesize := (if fs > 0 then fs else te_framesize e0), te_intervalFrames := (if ivf > 0 then ivf else te_intervalFrames e0),
      te_vlan_id := vid, te_pcp := pcp, te_insertionTime := now, te_isStatic := st\<rparr>"
  have "t' = set_talker vid sid ?e t \<or> (\<exists>g. t' = srp_emit g (set_talker vid sid ?e t))"
    using Some run by (auto simp: updateTalkerWithStreamId_def Let_def split: if_splits)
  then show ?thesis by (intro exI [of _ ?e]) simp
qed

lemma updateTalker_mods:
  assumes run: "updateTalkerWithStreamId now sid m addr cls fs ivf vid pcp st t = Inr (b, t')" and ok: "table_ok s sw t" and m: "module_of s sw m"
  shows "table_ok s sw t'"
proof -
  have inv: "srp_inv t" "srp_linked t" using ok by (auto simp: table_ok_def)
  from updateTalker_shape [OF run] obtain e
    where t': "t' = set_talker vid sid e t \<or> (\<exists>g. t' = srp_emit g (set_talker vid sid e t))" and e: "te_module e = m" by blast
  then have get: "smap_get s' (smap_inner v (talkerTables t')) = (if v = vid \<and> s' = sid then Some e else smap_get s' (smap_inner v (talkerTables t)))" for v s'
    by (auto simp: set_talker_get [OF inv(1)])
  have lists: "listenerTables t' = listenerTables t" and regs: "port_regs k t' = port_regs k t" for k using t' by auto
  have "srp_inv t'" using updateTalker_inv [OF inv(1) run] .
  moreover have "srp_linked t'" using inv(2) by (auto simp: srp_linked_def get lists)
  moreover have "mods_ok s sw t'" using ok m e by (auto simp: table_ok_def mods_ok_def get regs)
  moreover have "srp_agingTime t' = srp_agingTime t" using t' by (auto simp: srp_emit_def)
  ultimately show ?thesis using ok by (simp add: table_ok_def)
qed

lemma updateListener_mods:
  assumes run: "updateListenerWithStreamId now sid m vid st t = Inr (b, t')" and ok: "table_ok s sw t" and m: "module_of s sw m"
  shows "table_ok s sw t'"
proof -
  have inv: "srp_inv t" "srp_linked t" using ok by (auto simp: table_ok_def)
  note upd = updateListener_regs [OF inv(1) run]
  have "srp_inv t'" using updateListener_inv [OF inv(1) run] .
  moreover have "srp_linked t'"
    using srp_exec_linked [of now "UpdateListener sid m vid st" t t'] run inv by simp
  moreover have "mods_ok s sw t'" using ok m by (auto simp: table_ok_def mods_ok_def upd(1,2))
  moreover have "srp_agingTime t' = srp_agingTime t"
    using run by (auto simp: updateListenerWithStreamId_def srp_emit_def Let_def split: if_splits)
  ultimately show ?thesis using ok by (simp add: table_ok_def)
qed

lemma registerTalker_inv:
  assumes run: "registerTalker now sw p ta s = Inr (b, s')" and inv: "la_inv s" and p: "0 \<le> p" "p < 2 ^ 16"
  shows "la_inv s'" and "grows s s'"
proof -
  define s1 where "s1 = checkOrCreateTable sw s"
  note c = checkOrCreateTable_spec [OF inv, of sw, folded s1_def]
  from c(3) obtain t where t: "smap_get sw (la_srpTables s1) = Some t" "table_ok s1 sw t" by blast
  obtain m t1 where q: "getTalkerForStreamId now (ta_streamID ta) (ta_vlan ta) t = (m, t1)"
    by (cases "getTalkerForStreamId now (ta_streamID ta) (ta_vlan ta) t")
  then have "t1 = removeAgedEntriesIfNeeded_srp now t" by (auto simp: getTalkerForStreamId_def Let_def split: option.splits)
  with t(2) have ok1: "table_ok s1 sw t1" by (simp add: table_ok_aged)
  define s2 where "s2 = put_table sw t1 s1"
  have inv2: "la_inv s2" using put_table_inv [OF c(1) ok1] by (simp add: s2_def)
  obtain k s3 where port: "checkOrCreatePortModule sw p s2 = (k, s3)" by (cases "checkOrCreatePortModule sw p s2")
  note m = checkOrCreatePortModule_spec [OF port inv2 p]
  have get: "smap_get sw (la_srpTables s3) = Some t1" using c(1) by (simp add: m(5) s2_def)
  have ok3: "table_ok s3 sw t1" using table_ok_grows [OF m(2)] ok1 by (simp add: s2_def)
  from run t(1) q port obtain t2 where upd: "\<exists>cls pcp. updateTalkerWithStreamId now (ta_streamID ta) k (ta_destination ta) cls
      (ucast (ta_maxFrameSize ta)) (ta_maxIntervalFrames ta) (ta_vlan ta) pcp False t1 = Inr (b, t2)" and s': "s' = put_table sw t2 s3"
    by (auto simp: registerTalker_def s1_def [symmetric] s2_def [symmetric] the_table_get [OF get] the_table_get rbind_Inr_iff Let_def
        split: if_splits)
  then have "table_ok s3 sw t2" using updateTalker_mods [OF _ ok3 m(3)] by blast
  then show "la_inv s'" using put_table_inv [OF m(1)] by (simp add: s')
  show "grows s s'" using c(2) m(2) by (auto simp: s' s2_def intro: grows_trans)
qed

lemma find_listener_eq:
  "\<forall>l \<in> set ls. module_of s sw l \<Longrightarrow> find_listener p ls s = Inr (find (\<lambda>l. port_of s l = p) ls)"
  by (induction ls) (simp_all add: getPort_module [of s sw])

lemma listener_ports_spec:
  "\<forall>l \<in> set ls. module_of s sw l \<Longrightarrow> distinct acc \<Longrightarrow>
     \<exists>ps. listener_ports ls s acc = Inr ps \<and> distinct ps \<and> set ps = set acc \<union> port_of s ` set ls"
proof (induction ls arbitrary: acc)
  case (Cons l ls)
  then have g: "getPort l s = Inr (port_of s l)" by (simp add: getPort_module [of s sw])
  from Cons.IH [of "if port_of s l \<in> set acc then acc else acc @ [port_of s l]"] Cons.prems show ?case
    by (auto simp: g)
qed simp

text \<open>A registration of this moment outlives every ageing pass of this moment.\<close>

definition fresh :: "simtime \<Rightarrow> 16 word \<Rightarrow> 64 word \<Rightarrow> cmodule \<Rightarrow> srp_table \<Rightarrow> bool" where
  "fresh now vid sid k t \<longleftrightarrow> (\<exists>ls l. smap_get sid (smap_inner vid (listenerTables t)) = Some ls
     \<and> smap_get k ls = Some l \<and> le_insertionTime l = now)"

lemma fresh_aged:
  assumes ok: "table_ok s sw t" and fresh: "fresh now vid sid k t"
  shows "fresh now vid sid k (removeAgedEntriesIfNeeded_srp now t)"
proof (cases "srp_nextAging t \<noteq> 0 \<and> now \<ge> srp_nextAging t \<and> srp_agingTime t \<noteq> 0")
  case True
  have inv: "srp_inv t" and pos: "0 < srp_agingTime t" using ok True by (auto simp: table_ok_def)
  have wf: "smap_wf (smap_inner v (listenerTables t))" for v
    using srp_inv_inner(2) [OF inv] by (simp add: ltable_ok_def)
  from fresh obtain ls l where ls: "smap_get sid (smap_inner vid (listenerTables t)) = Some ls" "smap_get k ls = Some l" "le_insertionTime l = now"
    by (auto simp: fresh_def)
  have wfl: "smap_wf ls" using llist_get_ok [OF inv ls(1)] by (simp add: llist_ok_def)
  have "listener_alive now (srp_agingTime t) l" using pos ls(3) by (simp add: listener_alive_def)
  with ls(2) have "smap_get k (aged_llist now (srp_agingTime t) ls) = Some l"
    unfolding aged_llist_def smap_get_filter [OF wfl, of k "\<lambda>_ l. listener_alive now (srp_agingTime t) l"] by simp
  moreover from this have "aged_llist now (srp_agingTime t) ls \<noteq> []" by auto
  ultimately show ?thesis
    using True ls(1,3)
    by (simp add: fresh_def removeAgedEntriesIfNeeded_srp_def removeAgedEntries_srp_tables smap_inner_aged smap_get_aged_ltable [OF wf])
next
  case False
  then have "removeAgedEntriesIfNeeded_srp now t = t"
    by (auto simp: removeAgedEntriesIfNeeded_srp_def removeAgedEntries_srp_tables)
  with fresh show ?thesis by simp
qed

lemma fresh_registered: "srp_inv t \<Longrightarrow> fresh now vid sid k t \<Longrightarrow> (vid, sid) \<in> port_regs k t"
proof -
  assume inv: "srp_inv t" and "fresh now vid sid k t"
  then obtain ls l where ls: "smap_get sid (smap_inner vid (listenerTables t)) = Some ls" "smap_get k ls = Some l"
    by (auto simp: fresh_def)
  then have "k \<in> fst ` set ls" using smap_get_notin [of k ls] by auto
  with ls(1) show ?thesis by (auto simp: port_regs_iff [OF inv])
qed

lemma updateListener_fresh:
  assumes inv: "srp_inv t" and run: "updateListenerWithStreamId now sid m vid st t = Inr (b, t')"
  shows "fresh now vid sid m t'"
proof -
  let ?ls = "smap_inner sid (smap_inner vid (listenerTables t))"
  let ?l = "\<lparr>le_streamId = sid, le_module = m, le_vlan_id = vid, le_insertionTime = now, le_isStatic = st\<rparr>"
  have "listenerTables t' = listenerTables (set_listeners vid sid (smap_put m ?l ?ls) t)"
    using run by (auto simp: updateListenerWithStreamId_def Let_def split: if_splits)
  moreover have "smap_put m ?l ?ls \<noteq> []" using set_keys_put [of m ?l ?ls] by auto
  moreover have "smap_wf ?ls" using llist_inner_ok [OF inv] by (simp add: llist_ok_def)
  ultimately show ?thesis by (simp add: fresh_def set_listeners_get [OF inv] smap_get_put)
qed

text \<open>The listener ends on a module of its switch with its port, whether the module was there or not.\<close>

lemma registerListener_spec:
  assumes inv: "la_inv s" and t: "smap_get sw (la_srpTables s) = Some t" and p: "0 \<le> p" "p < 2 ^ 16"
    and talker: "smap_get sid (smap_inner vid (talkerTables t)) \<noteq> None"
  shows "\<exists>s' t' k. registerListener now sw p sid vid s = Inr (True, s') \<and> la_inv s' \<and> grows s s'
    \<and> smap_get sw (la_srpTables s') = Some t' \<and> talkerTables t' = talkerTables t
    \<and> module_of s' sw k \<and> port_of s' k = p \<and> fresh now vid sid k t'"
proof -
  obtain ls t1 where q: "getListenersForStreamId now sid vid t = (ls, t1)" by (cases "getListenersForStreamId now sid vid t")
  have ok: "table_ok s sw t" using inv t by (simp add: la_inv_def)
  then have srp: "srp_inv t" by (simp add: table_ok_def)
  note keys = listener_keys [OF srp q]
  have shr: "shrinks t t1" using ageing_shrinks [of t now] by (simp add: keys(2))
  from ok have ok1: "table_ok s sw t1" by (simp add: keys(2) table_ok_aged)
  then have regs_mod: "port_regs l t1 \<noteq> {} \<Longrightarrow> module_of s sw l" for l by (simp add: table_ok_def mods_ok_def)
  have mods: "\<forall>l \<in> set ls. module_of s sw l"
  proof
    fix l assume "l \<in> set ls"
    then have "(vid, sid) \<in> port_regs l t1" by (simp only: keys(1))
    then show "module_of s sw l" using regs_mod [of l] by auto
  qed
  have tabs: "talkerTables t1 = talkerTables t" using shr by (simp add: shrinks_def)
  define s1 where "s1 = put_table sw t1 s"
  have inv1: "la_inv s1" using put_table_inv [OF inv ok1] by (simp add: s1_def)
  have found: "find_listener p ls s1 = Inr (find (\<lambda>l. port_of s l = p) ls)"
    using find_listener_eq [of ls s1 sw p] mods by (simp add: s1_def)
  obtain k s2 where mod: "(case find (\<lambda>l. port_of s l = p) ls of Some k \<Rightarrow> (k, s1) | None \<Rightarrow> checkOrCreatePortModule sw p s1) = (k, s2)"
    by (cases "case find (\<lambda>l. port_of s l = p) ls of Some k \<Rightarrow> (k, s1) | None \<Rightarrow> checkOrCreatePortModule sw p s1")
  have m: "la_inv s2 \<and> grows s1 s2 \<and> module_of s2 sw k \<and> port_of s2 k = p \<and> la_srpTables s2 = la_srpTables s1"
  proof (cases "find (\<lambda>l. port_of s l = p) ls")
    case None
    with mod have "checkOrCreatePortModule sw p s1 = (k, s2)" by simp
    from checkOrCreatePortModule_spec [OF this inv1 p] show ?thesis by simp
  next
    case (Some l)
    then have "l \<in> set ls" "port_of s l = p" by (auto simp: find_Some_iff)
    with mods Some mod inv1 show ?thesis by (auto simp: s1_def)
  qed
  have get: "smap_get sw (la_srpTables s2) = Some t1" using m inv by (simp add: s1_def)
  have ok2: "table_ok s2 sw t1" using ok1 m table_ok_grows [of s1 s2] by (simp add: s1_def)
  have "k \<noteq> nullptr" using m by (auto simp: module_of_def nullptr_def)
  with talker tabs obtain b t2 where upd: "updateListenerWithStreamId now sid k vid False t1 = Inr (b, t2)"
    by (auto simp: updateListenerWithStreamId_def Let_def)
  note regs = updateListener_regs [OF _ upd]
  have ok': "table_ok s2 sw t2" using updateListener_mods [OF upd ok2] m by simp
  have run: "registerListener now sw p sid vid s = Inr (True, put_table sw t2 s2)"
    using t q found mod upd get by (simp add: registerListener_def s1_def [symmetric] the_table_get)
  have "srp_inv t1" using ok1 by (simp add: table_ok_def)
  then have "fresh now vid sid k t2" "talkerTables t2 = talkerTables t" using regs tabs updateListener_fresh [OF _ upd] by auto
  with run m ok' put_table_inv [of s2 sw t2] show ?thesis
    by (intro exI [of _ "put_table sw t2 s2"] exI [of _ t2] exI [of _ k]) (auto simp: s1_def)
qed

subsection \<open>Forwarding information\<close>

text \<open>The ports of the listeners of a stream.\<close>

definition stream_ports :: "'a learning_app_scheme \<Rightarrow> nat \<Rightarrow> 64 word \<Rightarrow> 16 word \<Rightarrow> int set" where
  "stream_ports s sw sid vid = {port_of s m | m. (vid, sid) \<in> port_regs m (the_table sw s)}"

lemma getForwardingInfo_spec:
  assumes inv: "la_inv s" and t: "smap_get sw (la_srpTables s) = Some t"
    and talker: "smap_get sid (smap_inner vid (talkerTables t)) = Some e"
  shows "\<exists>ps s'. getForwardingInfoForStreamID now sw sid vid s
      = Inr (\<lparr>fwd_inPort = port_of s (te_module e), fwd_dest = te_address e, fwd_vlanID = vid, fwd_pcp = te_pcp e,
          fwd_srClass = te_srClass e, fwd_streamID = sid, fwd_outports = ps\<rparr>, s')
    \<and> distinct ps \<and> set ps = stream_ports s' sw sid vid \<and> la_inv s' \<and> grows s s'
    \<and> smap_get sw (la_srpTables s') = Some (removeAgedEntriesIfNeeded_srp now (removeAgedEntriesIfNeeded_srp now t))"
proof -
  let ?age = "removeAgedEntriesIfNeeded_srp now"
  have ok: "table_ok s sw t" using inv t by (simp add: la_inv_def)
  have shr: "shrinks t (?age t)" "shrinks t (?age (?age t))" by (blast intro: ageing_shrinks shrinks_trans)+
  have ok1: "table_ok s sw (?age t)" "table_ok s sw (?age (?age t))" using ok by (simp_all add: table_ok_aged)
  have e: "getTalkerEntryForStreamId now sid vid t = (Some e, ?age t)"
    using shr(1) talker by (simp add: getTalkerEntryForStreamId_def shrinks_def Let_def)
  obtain ls t2 where q: "getListenersForStreamId now sid vid (?age t) = (ls, t2)" by (cases "getListenersForStreamId now sid vid (?age t)")
  have "srp_inv (?age t)" using ok1 by (simp add: table_ok_def)
  note keys = listener_keys [OF this q]
  have mod: "getPort (te_module e) s = Inr (port_of s (te_module e))"
    using ok talker by (intro getPort_module [of s sw]) (auto simp: table_ok_def mods_ok_def)
  have "\<forall>l \<in> set ls. module_of s sw l"
  proof
    fix l assume "l \<in> set ls"
    then have "(vid, sid) \<in> port_regs l (?age (?age t))" using keys by simp
    with ok1(2) show "module_of s sw l" by (auto simp: table_ok_def mods_ok_def)
  qed
  from listener_ports_spec [OF this, of "[]"] obtain ps where
    ps: "listener_ports ls s [] = Inr ps" "distinct ps" "set ps = port_of s ` set ls" by auto
  define s' where "s' = put_table sw t2 s"
  have get: "smap_get sw (la_srpTables s') = Some t2" using inv by (simp add: s'_def)
  have "set ps = stream_ports s' sw sid vid"
    using ps(3) keys(1) by (auto simp: stream_ports_def the_table_get [OF get]) (auto simp: s'_def)
  moreover have "la_inv s'" "grows s s'" using put_table_inv [OF inv ok1(2)] by (simp_all add: s'_def keys(2))
  moreover have "getForwardingInfoForStreamID now sw sid vid s
      = Inr (\<lparr>fwd_inPort = port_of s (te_module e), fwd_dest = te_address e, fwd_vlanID = vid, fwd_pcp = te_pcp e,
          fwd_srClass = te_srClass e, fwd_streamID = sid, fwd_outports = ps\<rparr>, s')"
    using t e mod q ps(1) by (simp add: getForwardingInfoForStreamID_def s'_def)
  ultimately show ?thesis using get ps(2) keys(2) by blast
qed

subsection \<open>The rule of a stream\<close>

definition stream_wildcards :: "32 word" where
  "stream_wildcards = OFPFW_ALL AND NOT OFPFW_IN_PORT AND NOT OFPFW_DL_DST AND NOT OFPFW_DL_TYPE AND NOT OFPFW_DL_VLAN
     AND NOT OFPFW_DL_VLAN_PCP"

lemma avb_match_eq:
  "avb_match fwd = Inr (oxm_zero\<lparr>OFB_IN_PORT := of_int (fwd_inPort fwd), OFB_ETH_DST := fwd_dest fwd, OFB_ETH_TYPE := 0x8100,
     OFB_VLAN_VID := fwd_vlanID fwd, OFB_VLAN_PCP := fwd_pcp fwd, wildcards := stream_wildcards\<rparr>)"
  by (simp add: avb_match_def fresh_match_def setField_def unwild_def stream_wildcards_def oxm_zero_def and.assoc)

lemma stream_bits:
  "stream_wildcards AND OFPFW_IN_PORT = 0" "stream_wildcards AND OFPFW_DL_SRC \<noteq> 0" "stream_wildcards AND OFPFW_DL_DST = 0"
  "stream_wildcards AND OFPFW_DL_VLAN = 0" "stream_wildcards AND OFPFW_DL_TYPE = 0" "stream_wildcards AND OFPFW_DL_VLAN_PCP = 0"
  "stream_wildcards AND OFPFW_NW_PROTO \<noteq> 0" "stream_wildcards AND OFPFW_NW_SRC_ALL \<noteq> 0" "stream_wildcards AND OFPFW_NW_DST_ALL \<noteq> 0"
  "stream_wildcards AND OFPFW_TP_SRC \<noteq> 0" "stream_wildcards AND OFPFW_TP_DST \<noteq> 0"
  by (simp_all add: stream_wildcards_def ofpfw_defs OFPFW_ALL_def)

text \<open>The frames that a talker's stream consists of.\<close>

definition stream_frame :: "int \<Rightarrow> talker_entry \<Rightarrow> 16 word \<Rightarrow> oxm_basic_match \<Rightarrow> bool" where
  "stream_frame port e vid x \<longleftrightarrow> OFB_IN_PORT x = of_int port \<and> OFB_ETH_DST x = te_address e \<and> OFB_ETH_TYPE x = 0x8100
     \<and> OFB_VLAN_VID x = vid \<and> OFB_VLAN_PCP x = te_pcp e"

lemma avb_match_frames:
  assumes "avb_match fwd = Inr m" and "fm_match fm = m"
    and "fwd = \<lparr>fwd_inPort = port, fwd_dest = te_address e, fwd_vlanID = vid, fwd_pcp = te_pcp e, fwd_srClass = c, fwd_streamID = sid,
      fwd_outports = ps\<rparr>"
  shows "tryMatch (createEntry now fm) x \<longleftrightarrow> stream_frame port e vid x"
proof -
  have "fm_match fm = oxm_zero\<lparr>OFB_IN_PORT := of_int port, OFB_ETH_DST := te_address e, OFB_ETH_TYPE := 0x8100,
     OFB_VLAN_VID := vid, OFB_VLAN_PCP := te_pcp e, wildcards := stream_wildcards\<rparr>"
    using assms by (simp add: avb_match_eq)
  then show ?thesis
    by (simp add: tryMatch_def tryMatch_wild_def createEntry_def stream_bits stream_frame_def) (intro iffI; simp)
qed

subsection \<open>What a subclass may change\<close>

text \<open>
  The messages of an application carry the command and the match they are asked for; a subclass may only add
  ports: \<open>extra\<close> to a switching rule, \<open>extra_srp\<close> to the rule of a stream.
\<close>

locale controller_methods =
  fixes vm :: app_methods
    and extra :: "oxm_basic_match \<Rightarrow> 32 word \<Rightarrow> 32 word set"
    and extra_srp :: "oxm_basic_match \<Rightarrow> 32 word set"
  assumes flow_mod: "\<exists>fm. vm_flowMod vm prio com m p idle hard = Inr fm \<and> fm_command fm = com \<and> fm_match fm = m
      \<and> set (fm_actions fm) = insert p (extra m p)"
    and srp_flow_mod: "ps \<noteq> [] \<Longrightarrow> \<exists>fm. vm_srpFlowMod vm com m ps idle hard = Inr fm \<and> fm_command fm = com \<and> fm_match fm = m
      \<and> fm_table_id fm = 0 \<and> set (fm_actions fm) = of_int ` set ps \<union> extra_srp m"
begin

lemma listener_rule_sent:
  assumes inv: "la_inv s" and t: "smap_get sw (la_srpTables s) = Some t"
    and talker: "smap_get sid (smap_inner vid (talkerTables t)) = Some e"
    and socket: "findSocketFor (pi_conn pkt) s = Some c"
  shows "\<exists>s' fm. listener_rule vm now pkt sw sid vid s = Inr (s', [(c, OfFlowMod fm)]) \<and> la_inv s' \<and> grows s s'
    \<and> fm_command fm = OFPFC_ADD \<and> fm_table_id fm = 0 \<and> (\<forall>time x. tryMatch (createEntry time fm) x \<longleftrightarrow> stream_frame (port_of s (te_module e)) e vid x)
    \<and> set (fm_actions fm) = of_int ` stream_ports s' sw sid vid \<union> extra_srp (fm_match fm)
    \<and> uint (OFB_IN_PORT (pi_match pkt)) \<in> stream_ports s' sw sid vid"
proof -
  let ?p = "uint (OFB_IN_PORT (pi_match pkt))"
  let ?age = "removeAgedEntriesIfNeeded_srp now"
  have "0 \<le> ?p" "?p < 2 ^ 16" using uint_lt2p [of "OFB_IN_PORT (pi_match pkt)"] by simp_all
  from registerListener_spec [OF inv t this, of sid vid now] talker obtain s1 t1 k where
    reg: "registerListener now sw ?p sid vid s = Inr (True, s1)" "la_inv s1" "grows s s1" "smap_get sw (la_srpTables s1) = Some t1"
      "talkerTables t1 = talkerTables t" "module_of s1 sw k" "port_of s1 k = ?p" "fresh now vid sid k t1"
    by auto
  with talker have talker1: "smap_get sid (smap_inner vid (talkerTables t1)) = Some e" by simp
  from getForwardingInfo_spec [OF reg(2,4) this, of now] obtain ps s2 where
    fwd: "getForwardingInfoForStreamID now sw sid vid s1
      = Inr (\<lparr>fwd_inPort = port_of s1 (te_module e), fwd_dest = te_address e, fwd_vlanID = vid, fwd_pcp = te_pcp e,
          fwd_srClass = te_srClass e, fwd_streamID = sid, fwd_outports = ps\<rparr>, s2)"
    and ps: "distinct ps" "set ps = stream_ports s2 sw sid vid" and s2: "la_inv s2" "grows s1 s2"
      "smap_get sw (la_srpTables s2) = Some (?age (?age t1))"
    by blast
  have ok1: "table_ok s1 sw t1" using reg(2,4) by (simp add: la_inv_def)
  then have ok2: "table_ok s1 sw (?age (?age t1))" by (simp add: table_ok_aged)
  have "fresh now vid sid k (?age (?age t1))" using fresh_aged [OF table_ok_aged [OF ok1] fresh_aged [OF ok1 reg(8)]] .
  with ok2 have "(vid, sid) \<in> port_regs k (?age (?age t1))" using fresh_registered by (simp add: table_ok_def)
  moreover have "port_of s2 k = ?p" using module_grows [OF s2(2) reg(6)] reg(7) by simp
  ultimately have mem: "?p \<in> stream_ports s2 sw sid vid"
    unfolding stream_ports_def the_table_get [OF s2(3)] by (intro CollectI exI [of _ k]) simp
  then have "ps \<noteq> []" using ps(2) by auto
  obtain m where m: "avb_match \<lparr>fwd_inPort = port_of s1 (te_module e), fwd_dest = te_address e, fwd_vlanID = vid, fwd_pcp = te_pcp e,
          fwd_srClass = te_srClass e, fwd_streamID = sid, fwd_outports = ps\<rparr> = Inr m"
    by (simp add: avb_match_eq)
  from srp_flow_mod [OF \<open>ps \<noteq> []\<close>, of OFPFC_ADD m "la_idleTimeout s2" "la_hardTimeout s2"] obtain fm where
    fm: "vm_srpFlowMod vm OFPFC_ADD m ps (la_idleTimeout s2) (la_hardTimeout s2) = Inr fm" "fm_command fm = OFPFC_ADD" "fm_match fm = m" "fm_table_id fm = 0"
      "set (fm_actions fm) = of_int ` set ps \<union> extra_srp m"
    by blast
  have grow: "grows s s2" using reg(3) s2(2) by (rule grows_trans)
  then have sock2: "findSocketFor (pi_conn pkt) s2 = Some c" using socket by (simp add: grows_def findSocketFor_def)
  have mod: "module_of s sw (te_module e)" using inv t talker by (auto simp: la_inv_def table_ok_def mods_ok_def)
  have frames: "tryMatch (createEntry time fm) x \<longleftrightarrow> stream_frame (port_of s (te_module e)) e vid x" for time x
    using avb_match_frames [OF m fm(3) refl] module_grows [OF reg(3) mod] by simp
  have ports: "(of_int :: int \<Rightarrow> 32 word) ` set ps = of_int ` stream_ports s2 sw sid vid" by (simp add: ps(2))
  let ?s' = "s2\<lparr>la_numFlowMod := la_numFlowMod s2 + 1\<rparr>"
  have "the_table sw ?s' = the_table sw s2" by (cases "smap_get sw (la_srpTables s2)") (simp_all add: the_table_def)
  then have same: "stream_ports ?s' sw sid vid = stream_ports s2 sw sid vid" "la_inv ?s' = la_inv s2" "grows s ?s' = grows s s2"
    by (simp_all add: stream_ports_def port_of_def la_inv_def table_ok_def mods_ok_def module_of_def grows_def)
  have "listener_rule vm now pkt sw sid vid s = Inr (?s', [(c, OfFlowMod fm)])"
    using reg(1) fwd m fm(1) sock2 by (simp add: listener_rule_def sendSRPFlowModMessage_def la_send_def)
  then show ?thesis
    using s2(1) grow fm(2-5) frames ps(2) mem by (intro exI [of _ ?s'] exI [of _ fm]) (simp only: same simp_thms)
qed

lemma stream_rule_sent:
  assumes inv: "la_inv s" and sw: "findSwitchInfoFor (pi_conn pkt) s = Some sw" and socket: "findSocketFor (pi_conn pkt) s = Some c"
    and t: "smap_get sw (la_srpTables s) = Some t" and talker: "smap_get sid (smap_inner vid (talkerTables t)) = Some e"
    and srp: "as_listener_ready srp = Some (sid, vid)"
  shows "\<exists>s' fm. doSRP vm now pkt srp s
      = Inr (s', [(c, OfFlowMod fm), (c, OfVendor (ucast (OFB_IN_PORT (pi_match pkt))) (Some (EncSrp srp)))]) \<and> la_inv s'
    \<and> fm_command fm = OFPFC_ADD \<and> fm_table_id fm = 0 \<and> (\<forall>time x. tryMatch (createEntry time fm) x \<longleftrightarrow> stream_frame (port_of s (te_module e)) e vid x)
    \<and> set (fm_actions fm) = of_int ` stream_ports s' sw sid vid \<union> extra_srp (fm_match fm)
    \<and> uint (OFB_IN_PORT (pi_match pkt)) \<in> stream_ports s' sw sid vid"
proof -
  from listener_rule_sent [OF inv t talker socket, of now] obtain s' fm where
    rule: "listener_rule vm now pkt sw sid vid s = Inr (s', [(c, OfFlowMod fm)])" and rest: "la_inv s'" "grows s s'"
      "fm_command fm = OFPFC_ADD" "fm_table_id fm = 0" "\<forall>time x. tryMatch (createEntry time fm) x \<longleftrightarrow> stream_frame (port_of s (te_module e)) e vid x"
      "set (fm_actions fm) = of_int ` stream_ports s' sw sid vid \<union> extra_srp (fm_match fm)"
      "uint (OFB_IN_PORT (pi_match pkt)) \<in> stream_ports s' sw sid vid"
    by blast
  have "as_talker srp = None" using srp by (cases srp) simp_all
  moreover have "findSocketFor (pi_conn pkt) s' = Some c" using rest(2) socket by (simp add: grows_def findSocketFor_def)
  ultimately have "doSRP vm now pkt srp s
      = Inr (s', [(c, OfFlowMod fm), (c, OfVendor (ucast (OFB_IN_PORT (pi_match pkt))) (Some (EncSrp srp)))])"
    using sw srp rule by (simp add: doSRP_def forwardSRPPacket_def la_send_def)
  with rest show ?thesis by blast
qed

end

interpretation base: controller_methods base_methods "\<lambda>m p. {}" "\<lambda>m. {}"
proof unfold_locales
  show "ps \<noteq> [] \<Longrightarrow> \<exists>fm. vm_srpFlowMod base_methods com m ps idle hard = Inr fm \<and> fm_command fm = com \<and> fm_match fm = m
      \<and> fm_table_id fm = 0 \<and> set (fm_actions fm) = of_int ` set ps \<union> {}" for ps com m idle hard
    by (cases ps) (auto simp: base_methods_def createFlowModMessage_def)
qed (simp add: base_methods_def createFlowMod_def)

interpretation tsn: controller_methods tsn_methods "\<lambda>m p. {}" "\<lambda>m. {}"
  using base.flow_mod base.srp_flow_mod by unfold_locales (simp_all add: tsn_methods_def)

text \<open>
  C22: The rule of a stream: when a listener of a known stream answers, the controller sends to its switch one rule
  and gives the message back. The rule selects exactly the frames that come in on the port of the
  talker with the destination, VLAN and priority that the talker announced, and it forwards them to
  exactly the ports on which listeners of the stream are registered, of which the port of this message is one.
\<close>

theorem srp_rule_correct:
  assumes "la_inv s" and "findSwitchInfoFor (pi_conn pkt) s = Some sw" and "findSocketFor (pi_conn pkt) s = Some c"
    and "smap_get sw (la_srpTables s) = Some t" and "smap_get sid (smap_inner vid (talkerTables t)) = Some e"
    and "as_listener_ready srp = Some (sid, vid)"
  shows "\<exists>s' fm. doSRP base_methods now pkt srp s
      = Inr (s', [(c, OfFlowMod fm), (c, OfVendor (ucast (OFB_IN_PORT (pi_match pkt))) (Some (EncSrp srp)))])
    \<and> fm_command fm = OFPFC_ADD \<and> (\<forall>time x. tryMatch (createEntry time fm) x \<longleftrightarrow> stream_frame (port_of s (te_module e)) e vid x)
    \<and> set (fm_actions fm) = of_int ` stream_ports s' sw sid vid
    \<and> uint (OFB_IN_PORT (pi_match pkt)) \<in> stream_ports s' sw sid vid"
  using base.stream_rule_sent [OF assms, of now] by auto

lemma registerListener_unknown:
  assumes inv: "la_inv s" and t: "smap_get sw (la_srpTables s) = Some t" and p: "0 \<le> p" "p < 2 ^ 16"
    and unknown: "smap_get sid (smap_inner vid (talkerTables t)) = None"
  shows "registerListener now sw p sid vid s = Inl (InvalidArgument ''no talker for stream'')"
proof -
  have ok: "table_ok s sw t" using inv t by (simp add: la_inv_def)
  then have srp: "srp_inv t" "srp_linked t" by (auto simp: table_ok_def)
  then have "(vid, sid) \<notin> port_regs m t" for m using linked_regs unknown by blast
  with no_listeners [OF srp(1), of vid sid] have q: "getListenersForStreamId now sid vid t = ([], removeAgedEntriesIfNeeded_srp now t)"
    by simp
  define s1 where "s1 = put_table sw (removeAgedEntriesIfNeeded_srp now t) s"
  have inv1: "la_inv s1" using put_table_inv [OF inv table_ok_aged [OF ok]] by (simp add: s1_def)
  obtain k s2 where mod: "checkOrCreatePortModule sw p s1 = (k, s2)" by (cases "checkOrCreatePortModule sw p s1")
  have "smap_get sw (la_srpTables s2) = Some (removeAgedEntriesIfNeeded_srp now t)"
    using inv by (simp add: checkOrCreatePortModule_spec(5) [OF mod inv1 p] s1_def)
  moreover have "talkerTables (removeAgedEntriesIfNeeded_srp now t) = talkerTables t" using ageing_shrinks [of t now] by (simp add: shrinks_def)
  ultimately show ?thesis
    using t q mod unknown by (simp add: registerListener_def s1_def [symmetric] the_table_get updateListenerWithStreamId_def)
qed

lemma registerListener_inv:
  assumes run: "registerListener now sw p sid vid s = Inr (b, s')" and inv: "la_inv s" and p: "0 \<le> p" "p < 2 ^ 16"
  shows "la_inv s' \<and> (b \<longrightarrow> (\<exists>t. smap_get sw (la_srpTables s') = Some t \<and> smap_get sid (smap_inner vid (talkerTables t)) \<noteq> None))"
proof (cases "smap_get sw (la_srpTables s)")
  case None
  with run inv show ?thesis by (simp add: registerListener_def)
next
  case (Some t)
  show ?thesis
  proof (cases "smap_get sid (smap_inner vid (talkerTables t))")
    case None
    with registerListener_unknown [OF inv Some p None] run show ?thesis by simp
  next
    case (Some e)
    then have "smap_get sid (smap_inner vid (talkerTables t)) \<noteq> None" by simp
    from registerListener_spec [OF inv \<open>smap_get sw (la_srpTables s) = Some t\<close> p this, of now] run Some show ?thesis by auto
  qed
qed

lemma doSRP_inv:
  assumes run: "doSRP vm now pkt srp s = Inr (s', out)" and inv: "la_inv s"
  shows "la_inv s'"
proof -
  have p: "0 \<le> uint (OFB_IN_PORT (pi_match pkt))" "uint (OFB_IN_PORT (pi_match pkt)) < 2 ^ 16"
    using uint_lt2p [of "OFB_IN_PORT (pi_match pkt)"] by simp_all
  have counter: "la_inv (x\<lparr>la_numFlowMod := n\<rparr>) = la_inv x" for x :: "'a learning_app_scheme" and n
    by (simp add: la_inv_def table_ok_def mods_ok_def module_of_def)
  have rule: "la_inv s1" if "listener_rule vm now pkt sw sid vid s = Inr (s1, out1)" for sw sid vid s1 out1
  proof -
    from that obtain b s2 where reg: "registerListener now sw (uint (OFB_IN_PORT (pi_match pkt))) sid vid s = Inr (b, s2)"
      and rest: "(if b then rbind (getForwardingInfoForStreamID now sw sid vid s2) (\<lambda>(fwd, s2). sendSRPFlowModMessage vm pkt fwd s2)
          else Inr (s2, [])) = Inr (s1, out1)"
      by (auto simp: listener_rule_def rbind_Inr_iff)
    note r = registerListener_inv [OF reg inv p]
    show ?thesis
    proof (cases b)
      case True
      with r obtain t e where "smap_get sw (la_srpTables s2) = Some t" "smap_get sid (smap_inner vid (talkerTables t)) = Some e" by auto
      from getForwardingInfo_spec [OF _ this, of now] r obtain fwd s3 where
        "getForwardingInfoForStreamID now sw sid vid s2 = Inr (fwd, s3)" "la_inv s3" by blast
      with rest True show ?thesis by (auto simp: sendSRPFlowModMessage_def rbind_Inr_iff counter)
    qed (use r rest in simp)
  qed
  from run obtain s1 out1 where step: "(case as_talker srp of
          Some ta \<Rightarrow>
            (case findSwitchInfoFor (pi_conn pkt) s of
               None \<Rightarrow> Inl (NullDeref ''swInfo'')
             | Some sw \<Rightarrow> rbind (registerTalker now sw (uint (OFB_IN_PORT (pi_match pkt))) ta s) (\<lambda>(b, s1). Inr (s1, [])))
        | None \<Rightarrow>
            (case as_listener_ready srp of
               Some (sid, vid) \<Rightarrow>
                 (case findSwitchInfoFor (pi_conn pkt) s of
                    None \<Rightarrow> Inr (s, [])
                  | Some sw \<Rightarrow> listener_rule vm now pkt sw sid vid s)
             | None \<Rightarrow> Inr (s, []))) = Inr (s1, out1)" and s': "s' = s1"
    by (auto simp: doSRP_def rbind_Inr_iff)
  from step have "la_inv s1"
    using inv p by (auto simp: rbind_Inr_iff dest: registerTalker_inv(1) rule split: option.splits)
  then show ?thesis by (simp add: s')
qed

text \<open>
  A listener that answers for a stream the controller has not seen at this switch ends the run, if the switch
  has any stream at all; at a switch without streams the message is given back and ignored.
\<close>

theorem unknown_stream_ends_run:
  assumes "la_inv s" and "findSwitchInfoFor (pi_conn pkt) s = Some sw" and "findSocketFor (pi_conn pkt) s = Some c"
    and "as_listener_ready srp = Some (sid, vid)"
    and "\<And>t. smap_get sw (la_srpTables s) = Some t \<Longrightarrow> smap_get sid (smap_inner vid (talkerTables t)) = None"
  shows "doSRP vm now pkt srp s
    = (if smap_get sw (la_srpTables s) = None
       then Inr (s, [(c, OfVendor (ucast (OFB_IN_PORT (pi_match pkt))) (Some (EncSrp srp)))])
       else Inl (InvalidArgument ''no talker for stream''))"
proof -
  have "as_talker srp = None" using assms(4) by (cases srp) simp_all
  moreover have "0 \<le> uint (OFB_IN_PORT (pi_match pkt))" "uint (OFB_IN_PORT (pi_match pkt)) < 2 ^ 16"
    using uint_lt2p [of "OFB_IN_PORT (pi_match pkt)"] by simp_all
  ultimately show ?thesis
    using assms registerListener_unknown [OF assms(1) _ _ _ assms(5)]
    by (cases "smap_get sw (la_srpTables s)")
      (simp_all add: doSRP_def listener_rule_def registerListener_def forwardSRPPacket_def la_send_def)
qed

subsection \<open>Example\<close>

definition example_sw :: switch_info where
  "example_sw = \<lparr>si_connID = 1, si_socket = Some 1, si_version = 4, si_macAddress = Some 9, si_numOfPorts = 4,
     si_topoindex = None, si_IsEdge = False, si_connectedHostIndexes = []\<rparr>"

definition empty_app :: learning_app where
  "empty_app = \<lparr>oc_booted = True, oc_busy = False, oc_serviceTime = 0, oc_msgList = [], oc_events = [], oc_numPacketIn = 0,
     oc_switchesList = [example_sw], oc_topology = [], oc_switchIndexes = [], oc_hostIndexes = [], oc_hostsList = [],
     oc_EdgeSwitches = [], oc_SwitchInfoTable = [], oc_HostProfileTable = [],
     la_priority = 1, la_idleTimeout = 0, la_hardTimeout = 0, la_packetsFlooded = 0, la_packetsDropped = 0, la_numPacketOut = 0,
     la_numFlowMod = 0, la_lookupTable = [], la_srpTables = [], la_portModules = [], la_unknownMacs = [], la_agingTime = 7\<rparr>"

text \<open>One talker at port 0 of the switch.\<close>

definition example_app :: learning_app where
  "example_app = empty_app\<lparr>la_srpTables := [(0, announced_table)], la_portModules := [(Some 9, 0)]\<rparr>"

definition srp_packet :: "16 word \<Rightarrow> srp_frame \<Rightarrow> packet_in" where
  "srp_packet port srp = \<lparr>pi_conn = 1, pi_buffer_id = OFP_NO_BUFFER, pi_no_match = True, pi_match = oxm_zero\<lparr>OFB_IN_PORT := port\<rparr>,
     pi_packet = Some (EncSrp srp)\<rparr>"

lemma srp_packet_simps [simp]:
  "pi_conn (srp_packet port srp) = 1" "OFB_IN_PORT (pi_match (srp_packet port srp)) = port"
  by (simp_all add: srp_packet_def)

lemma empty_app_inv: "la_inv empty_app"
  by (simp add: la_inv_def empty_app_def)

lemma example_app_known:
  "findSwitchInfoFor 1 example_app = Some 0" "findSocketFor 1 example_app = Some 1"
  "smap_get 0 (la_srpTables example_app) = Some announced_table"
  "smap_get 7 (smap_inner 2 (talkerTables announced_table)) = Some (example_entry 60 1)"
  by (simp_all add: example_app_def empty_app_def example_sw_def findSwitchInfoFor_def findSocketFor_def announced_table_def
      reserved_table_def smap_inner_def)

lemma example_app_inv: "la_inv example_app"
proof -
  have "srp_inv announced_table" "srp_linked announced_table" "\<And>m. port_regs m announced_table = {}"
    by (simp_all add: announced_table_def reserved_table_def example_entry_def srp_inv_def srp_linked_def port_regs_def
        srp_registrations_def smap_wf_def smap_all_def ttable_ok_def talker_ok_def nullptr_def)
  moreover have "0 \<le> srp_agingTime announced_table" by (simp add: announced_table_def reserved_table_def)
  moreover have "te_module e = 1" if "smap_get sid (smap_inner v (talkerTables announced_table)) = Some e" for v sid e
    using that by (auto simp: announced_table_def reserved_table_def smap_inner_def example_entry_def split: if_splits option.splits)
  ultimately have "table_ok example_app 0 announced_table"
    by (auto simp: table_ok_def mods_ok_def module_of_def example_app_def empty_app_def example_sw_def)
  then show ?thesis by (auto simp: la_inv_def example_app_def empty_app_def smap_wf_Cons)
qed

theorem srp_rule_correct_witness:
  "\<exists>s' fm. doSRP base_methods 2 (srp_packet 1 (ListenerReady 7 2)) (ListenerReady 7 2) example_app
      = Inr (s', [(1, OfFlowMod fm), (1, OfVendor 1 (Some (EncSrp (ListenerReady 7 2))))])
    \<and> tryMatch (createEntry 3 fm) (oxm_zero\<lparr>OFB_ETH_DST := 0xA1, OFB_ETH_TYPE := 0x8100, OFB_VLAN_VID := 2, OFB_VLAN_PCP := 6\<rparr>)
    \<and> \<not> tryMatch (createEntry 3 fm) (oxm_zero\<lparr>OFB_ETH_DST := 0xA1, OFB_ETH_TYPE := 0x8100, OFB_VLAN_VID := 3, OFB_VLAN_PCP := 6\<rparr>)
    \<and> 1 \<in> set (fm_actions fm)"
proof -
  from srp_rule_correct [where pkt = "srp_packet 1 (ListenerReady 7 2)" and srp = "ListenerReady 7 2" and now = 2,
      unfolded srp_packet_simps, OF example_app_inv example_app_known as_listener_ready.simps(1)]
  obtain s' fm where run: "doSRP base_methods 2 (srp_packet 1 (ListenerReady 7 2)) (ListenerReady 7 2) example_app
      = Inr (s', [(1, OfFlowMod fm), (1, OfVendor (ucast (1 :: 16 word)) (Some (EncSrp (ListenerReady 7 2))))])"
    and match: "\<And>time x. tryMatch (createEntry time fm) x \<longleftrightarrow> stream_frame (port_of example_app (te_module (example_entry 60 1))) (example_entry 60 1) 2 x"
    and acts: "set (fm_actions fm) = of_int ` stream_ports s' 0 7 2" and mem: "uint (1 :: 16 word) \<in> stream_ports s' 0 7 2"
    by blast
  have "of_int (uint (1 :: 16 word)) \<in> set (fm_actions fm)" unfolding acts using mem by (rule imageI)
  moreover have "port_of example_app (te_module (example_entry 60 1)) = 0"
    by (simp add: port_of_def example_app_def empty_app_def example_entry_def)
  ultimately show ?thesis using run by (auto simp: match stream_frame_def oxm_zero_def example_entry_def)
qed

theorem unknown_stream_ends_run_witness:
  "doSRP base_methods 2 (srp_packet 1 (ListenerReady 8 2)) (ListenerReady 8 2) example_app = Inl (InvalidArgument ''no talker for stream'')"
proof -
  have "smap_get 8 (smap_inner 2 (talkerTables t)) = None" if "smap_get 0 (la_srpTables example_app) = Some t" for t
    using that by (simp add: example_app_known) (auto simp: announced_table_def reserved_table_def smap_inner_def)
  from unknown_stream_ends_run [where pkt = "srp_packet 1 (ListenerReady 8 2)" and srp = "ListenerReady 8 2" and now = 2,
      unfolded srp_packet_simps, OF example_app_inv example_app_known(1,2) as_listener_ready.simps(1) this, of base_methods]
  show ?thesis by (simp add: example_app_known)
qed

end
