(* ===== verification/LearnedPorts.thy ===== *)
theory LearnedPorts
  imports StreamRules
begin

text \<open>
  Runs of a learning application over a sequence of packet-ins: what is kept, and that the first port on
  which a station was seen is the port it keeps.
\<close>

subsection \<open>Runs\<close>

type_synonym 'a switching = "packet_in \<Rightarrow> 'a learning_app_scheme \<Rightarrow> ('a learning_app_scheme \<times> app_sending list) res"

fun app_run :: "(frame \<Rightarrow> bool) \<Rightarrow> 'a switching \<Rightarrow> app_methods \<Rightarrow> (simtime \<times> packet_in) list \<Rightarrow> 'a learning_app_scheme
    \<Rightarrow> ('a learning_app_scheme \<times> app_sending list) res" where
  "app_run isAVB switching vm [] s = Inr (s, [])"
| "app_run isAVB switching vm ((now, pkt) # evs) s =
     rbind (receiveSignal_avb isAVB switching vm now pkt s) (\<lambda>(s1, out1).
     rbind (app_run isAVB switching vm evs s1) (\<lambda>(s2, out2). Inr (s2, out1 @ out2)))"

text \<open>A relation between states that every step respects holds along a run.\<close>

lemma app_run_rel:
  assumes "\<And>s. R s s" and "\<And>s t u. R s t \<Longrightarrow> R t u \<Longrightarrow> R s u"
    and "\<And>now pkt s s' out. receiveSignal_avb isAVB switching vm now pkt s = Inr (s', out) \<Longrightarrow> R s s'"
  shows "app_run isAVB switching vm evs s = Inr (s', out) \<Longrightarrow> R s s'"
proof (induction evs arbitrary: s out)
  case (Cons ev evs)
  obtain now pkt where ev: "ev = (now, pkt)" by (cases ev)
  from Cons.prems obtain s1 out1 out2 where step: "receiveSignal_avb isAVB switching vm now pkt s = Inr (s1, out1)"
    and rest: "app_run isAVB switching vm evs s1 = Inr (s', out2)"
    by (auto simp: ev rbind_Inr_iff)
  from assms(3) [OF step] Cons.IH [OF rest] show ?case by (rule assms(2))
qed (use assms(1) in simp)

subsection \<open>Switching does not touch the streams\<close>

definition same_streams :: "'a learning_app_scheme \<Rightarrow> 'a learning_app_scheme \<Rightarrow> bool" where
  "same_streams s s' \<longleftrightarrow> la_srpTables s' = la_srpTables s \<and> la_portModules s' = la_portModules s
     \<and> oc_switchesList s' = oc_switchesList s \<and> la_agingTime s' = la_agingTime s
     \<and> learning_app.more s' = learning_app.more s"

lemma same_streams_inv: "same_streams s s' \<Longrightarrow> la_inv s \<Longrightarrow> la_inv s'"
  by (simp add: same_streams_def la_inv_def table_ok_def mods_ok_def module_of_def)

lemma floodPacket_same: "floodPacket pkt s = Inr (s', out) \<Longrightarrow> same_streams s s' \<and> la_lookupTable s' = la_lookupTable s"
  by (auto simp: floodPacket_def rbind_Inr_iff same_streams_def)

lemma dropPacket_same: "dropPacket pkt s = Inr (s', out) \<Longrightarrow> same_streams s s' \<and> la_lookupTable s' = la_lookupTable s"
  by (auto simp: dropPacket_def rbind_Inr_iff same_streams_def)

lemma sends_same:
  "sendPacket vm pkt p s = Inr (s', out) \<Longrightarrow> same_streams s s' \<and> la_lookupTable s' = la_lookupTable s"
  "send_flow_mod vm pkt m p s = Inr (s', out) \<Longrightarrow> same_streams s s' \<and> la_lookupTable s' = la_lookupTable s"
  by (auto simp: sendPacket_def send_flow_mod_def rbind_Inr_iff same_streams_def)

text \<open>A packet is flooded, or a rule and a packet are sent, after the source is learned.\<close>

lemma doSwitching_run:
  assumes "doSwitching vm pkt s = Inr (s', out)"
  shows "\<exists>s1. same_streams s s1 \<and> (\<exists>sw a p. la_lookupTable s1 = update_mac sw a p (la_lookupTable s))
    \<and> (floodPacket pkt s1 = Inr (s', out)
       \<or> (\<exists>m q s2 out1 out2. send_flow_mod vm pkt m q s1 = Inr (s2, out1) \<and> sendPacket vm pkt q s2 = Inr (s', out2) \<and> out = out1 @ out2))"
proof -
  from assms obtain hf sw where hf: "extractCommonHeaderFields pkt s = Inr hf" "hf_swInfo hf = Some sw"
    by (auto simp: doSwitching_def rbind_Inr_iff split: option.splits)
  let ?t = "update_mac sw (hf_src_mac hf) (hf_inport hf) (la_lookupTable s)"
  show ?thesis
  proof (cases "lookup_mac sw (hf_dst_mac hf) ?t = MAC_MANAGER_OUTPORT_FLOOD")
    case True
    with assms hf obtain s1 where "floodPacket pkt s1 = Inr (s', out)" "same_streams s s1" "la_lookupTable s1 = ?t"
      by (auto simp: doSwitching_def Let_def same_streams_def split: if_splits)
    then show ?thesis by blast
  next
    case False
    with assms hf obtain m s2 out1 out2 where
      "send_flow_mod vm pkt m (of_int (lookup_mac sw (hf_dst_mac hf) ?t)) (s\<lparr>la_lookupTable := ?t\<rparr>) = Inr (s2, out1)"
      "sendPacket vm pkt (of_int (lookup_mac sw (hf_dst_mac hf) ?t)) s2 = Inr (s', out2)" "out = out1 @ out2"
      by (auto simp: doSwitching_def Let_def rbind_Inr_iff)
    moreover have "same_streams s (s\<lparr>la_lookupTable := ?t\<rparr>)" by (simp add: same_streams_def)
    moreover have "\<exists>sw a p. la_lookupTable (s\<lparr>la_lookupTable := ?t\<rparr>) = update_mac sw a p (la_lookupTable s)" by auto
    ultimately show ?thesis by blast
  qed
qed

lemma same_streams_trans: "same_streams s s1 \<Longrightarrow> same_streams s1 s2 \<Longrightarrow> same_streams s s2"
  by (simp add: same_streams_def)

lemma doSwitching_same:
  assumes "doSwitching vm pkt s = Inr (s', out)"
  shows "same_streams s s' \<and> (\<exists>sw a p. la_lookupTable s' = update_mac sw a p (la_lookupTable s))"
proof -
  from doSwitching_run [OF assms] obtain s1 where s1: "same_streams s s1" "\<exists>sw a p. la_lookupTable s1 = update_mac sw a p (la_lookupTable s)"
    and sent: "floodPacket pkt s1 = Inr (s', out)
       \<or> (\<exists>m q s2 out1 out2. send_flow_mod vm pkt m q s1 = Inr (s2, out1) \<and> sendPacket vm pkt q s2 = Inr (s', out2) \<and> out = out1 @ out2)"
    by blast
  from sent have "same_streams s1 s' \<and> la_lookupTable s' = la_lookupTable s1"
    by (auto dest!: floodPacket_same sends_same intro: same_streams_trans)
  then show ?thesis using same_streams_trans [OF s1(1)] s1(2) by simp
qed

lemma doSwitching_tsn_same:
  "doSwitching_tsn prios vm pkt s = Inr (s', out) \<Longrightarrow>
     same_streams s s' \<and> (la_lookupTable s' = la_lookupTable s \<or> (\<exists>sw a p. la_lookupTable s' = update_mac sw a p (la_lookupTable s)))"
  by (auto simp: doSwitching_tsn_def split: option.splits if_splits dest!: dropPacket_same doSwitching_same)

text \<open>
  C25: The reservation tables of the controller stay well-formed: for every sequence of packet-ins, whatever
  they carry, every table the application keeps for a switch is well-formed, every stream with a listener has
  a talker, and every module a table names is a port of that switch, created once per port.
\<close>

theorem stream_tables_invariant:
  assumes "switching = doSwitching vm \<or> switching = doSwitching_tsn prios vm" and "la_inv s"
    and "app_run isAVB switching vm evs s = Inr (s', out)"
  shows "la_inv s'"
proof -
  have "la_inv s \<longrightarrow> la_inv s'"
  proof (rule app_run_rel [where R = "\<lambda>s s'. la_inv s \<longrightarrow> la_inv s'", OF _ _ _ assms(3)])
    fix now pkt s s' out
    assume step: "receiveSignal_avb isAVB switching vm now pkt s = Inr (s', out)"
    have sw: "la_inv s \<longrightarrow> la_inv s'" if "switching pkt s = Inr (s', out)"
      using that assms(1) doSwitching_same doSwitching_tsn_same same_streams_inv by metis
    show "la_inv s \<longrightarrow> la_inv s'"
      using step by (auto simp: receiveSignal_avb_def dest: sw [THEN mp] doSRP_inv split: option.splits encapsulated.splits if_splits)
  qed auto
  then show ?thesis using assms(2) by blast
qed

subsection \<open>Learned ports\<close>

definition mac_wf :: "mac_table \<Rightarrow> bool" where
  "mac_wf t \<longleftrightarrow> smap_wf t \<and> smap_all (\<lambda>sw m. smap_wf m) t"

definition learned :: "nat \<Rightarrow> mac \<Rightarrow> mac_table \<Rightarrow> 32 word option" where
  "learned sw a t = Option.bind (smap_get sw t) (smap_get a)"

lemma update_mac_wf: "mac_wf t \<Longrightarrow> mac_wf (update_mac sw a p t)"
  by (auto simp: mac_wf_def update_mac_def smap_put_wf smap_wf_Cons intro!: smap_all_put split: option.splits dest: smap_all_get)

lemma update_mac_learned:
  assumes "mac_wf t"
  shows "learned sw' b (update_mac sw a p t)
    = (if sw' = sw \<and> b = a \<and> learned sw a t = None then Some p else learned sw' b t)"
  using assms
  by (auto simp: mac_wf_def learned_def update_mac_def smap_get_put split: option.splits dest: smap_all_get)

lemma lookup_learned: "lookup_mac sw a t = (case learned sw a t of None \<Rightarrow> MAC_MANAGER_OUTPORT_FLOOD | Some p \<Rightarrow> sint p)"
  by (simp add: lookup_mac_def learned_def split: option.split)

text \<open>Nothing that was learned is lost or changed.\<close>

definition keeps_learned :: "mac_table \<Rightarrow> mac_table \<Rightarrow> bool" where
  "keeps_learned t t' \<longleftrightarrow> mac_wf t \<longrightarrow> mac_wf t' \<and> (\<forall>sw a p. learned sw a t = Some p \<longrightarrow> learned sw a t' = Some p)"

lemma keeps_update: "keeps_learned t (update_mac sw a p t)"
  by (auto simp: keeps_learned_def update_mac_wf update_mac_learned)

lemma keeps_refl: "keeps_learned t t"
  by (simp add: keeps_learned_def)

lemma keeps_trans: "keeps_learned t u \<Longrightarrow> keeps_learned u v \<Longrightarrow> keeps_learned t v"
  by (auto simp: keeps_learned_def)

text \<open>Streams do not touch the addresses, and neither touches what a subclass adds.\<close>

definition same_addresses :: "'a learning_app_scheme \<Rightarrow> 'a learning_app_scheme \<Rightarrow> bool" where
  "same_addresses s s' \<longleftrightarrow> la_lookupTable s' = la_lookupTable s \<and> learning_app.more s' = learning_app.more s"

lemma same_addresses_simps [simp]:
  "same_addresses s s" "same_addresses s (checkOrCreateTable sw s0) = same_addresses s s0"
  "same_addresses s (put_table sw t s0) = same_addresses s s0" "same_addresses (put_table sw t s) s0 = same_addresses s s0"
  "same_addresses (checkOrCreateTable sw s) s0 = same_addresses s s0"
  "same_addresses s (s0\<lparr>la_numFlowMod := n\<rparr>) = same_addresses s s0"
  by (simp_all add: same_addresses_def checkOrCreateTable_def put_table_def)

lemma same_addresses_trans: "same_addresses s s1 \<Longrightarrow> same_addresses s1 s2 \<Longrightarrow> same_addresses s s2"
  by (simp add: same_addresses_def)

lemma checkOrCreatePortModule_addresses: "checkOrCreatePortModule sw p s = (k, s') \<Longrightarrow> same_addresses s s'"
  by (auto simp: checkOrCreatePortModule_def same_addresses_def Let_def split: option.splits)

lemma registerTalker_addresses: "registerTalker now sw p ta s = Inr (b, s') \<Longrightarrow> same_addresses s s'"
  by (auto simp: registerTalker_def rbind_Inr_iff Let_def dest!: checkOrCreatePortModule_addresses split: prod.splits if_splits)

lemma registerListener_addresses:
  assumes "registerListener now sw p sid vid s = Inr (b, s')"
  shows "same_addresses s s'"
proof (cases "smap_get sw (la_srpTables s)")
  case None
  with assms show ?thesis by (simp add: registerListener_def)
next
  case (Some t)
  obtain ls t1 where q: "getListenersForStreamId now sid vid t = (ls, t1)" by (cases "getListenersForStreamId now sid vid t")
  from assms Some q obtain found where found: "(case (case found of Some k \<Rightarrow> (k, put_table sw t1 s)
        | None \<Rightarrow> checkOrCreatePortModule sw p (put_table sw t1 s)) of (k, s2) \<Rightarrow>
      rbind (updateListenerWithStreamId now sid k vid False (the_table sw s2)) (\<lambda>(b, t2). Inr (True, put_table sw t2 s2))) = Inr (b, s')"
    by (auto simp: registerListener_def rbind_Inr_iff Let_def)
  obtain k s2 where m: "(case found of Some k \<Rightarrow> (k, put_table sw t1 s)
        | None \<Rightarrow> checkOrCreatePortModule sw p (put_table sw t1 s)) = (k, s2)" by fastforce
  then have "same_addresses s s2" by (auto split: option.splits dest!: checkOrCreatePortModule_addresses)
  moreover from found m obtain t2 where "s' = put_table sw t2 s2" by (auto simp: rbind_Inr_iff)
  ultimately show ?thesis by simp
qed

lemma getForwardingInfo_addresses:
  assumes "getForwardingInfoForStreamID now sw sid vid s = Inr (fwd, s')"
  shows "same_addresses s s'"
proof -
  from assms obtain t where t: "smap_get sw (la_srpTables s) = Some t"
    by (auto simp: getForwardingInfoForStreamID_def split: option.splits)
  obtain e t1 where talker: "getTalkerEntryForStreamId now sid vid t = (e, t1)" by (cases "getTalkerEntryForStreamId now sid vid t")
  obtain ls t2 where "getListenersForStreamId now sid vid t1 = (ls, t2)" by (cases "getListenersForStreamId now sid vid t1")
  with assms t talker have "s' = put_table sw t2 s"
    by (auto simp: getForwardingInfoForStreamID_def rbind_Inr_iff split: option.splits)
  then show ?thesis by simp
qed

lemma listener_rule_addresses: "listener_rule vm now pkt sw sid vid s = Inr (s', out) \<Longrightarrow> same_addresses s s'"
  by (auto simp: listener_rule_def sendSRPFlowModMessage_def rbind_Inr_iff split: if_splits
      dest!: registerListener_addresses getForwardingInfo_addresses intro: same_addresses_trans)

lemma doSRP_addresses: "doSRP vm now pkt srp s = Inr (s', out) \<Longrightarrow> same_addresses s s'"
  by (auto simp: doSRP_def rbind_Inr_iff split: option.splits dest!: registerTalker_addresses listener_rule_addresses)

lemma app_run_keeps:
  assumes "switching = doSwitching vm \<or> switching = doSwitching_tsn prios vm"
    and "app_run isAVB switching vm evs s = Inr (s', out)"
  shows "keeps_learned (la_lookupTable s) (la_lookupTable s')"
proof (rule app_run_rel [where R = "\<lambda>s s'. keeps_learned (la_lookupTable s) (la_lookupTable s')", OF _ _ _ assms(2)])
  fix now pkt s s' out
  assume step: "receiveSignal_avb isAVB switching vm now pkt s = Inr (s', out)"
  have sw: "keeps_learned (la_lookupTable s) (la_lookupTable s')" if "switching pkt s = Inr (s', out)"
    using that assms(1) keeps_update keeps_refl by (auto dest!: doSwitching_same doSwitching_tsn_same)
  show "keeps_learned (la_lookupTable s) (la_lookupTable s')"
    using step keeps_refl
    by (auto simp: receiveSignal_avb_def same_addresses_def dest: sw dest!: doSRP_addresses split: option.splits encapsulated.splits if_splits)
qed (auto intro: keeps_refl keeps_trans)

text \<open>
  The first port on which a station is seen at a switch is final: whatever packet-ins follow, from
  whatever port the station sends in the meantime, every later packet to it at this switch goes to the first port, and
  so does the rule that is installed for it.
\<close>

theorem learned_port_final:
  assumes switching: "switching = doSwitching base_methods \<or> switching = doSwitching_tsn prios base_methods"
    and wf: "mac_wf (la_lookupTable s)" and first: "learned sw a (la_lookupTable s) = Some p" and p: "p \<noteq> -1"
    and run: "app_run isAVB switching base_methods evs s = Inr (s', out)"
    and hf: "extractCommonHeaderFields pkt s' = Inr hf" "hf_swInfo hf = Some sw" "hf_dst_mac hf = a"
    and socket: "findSocketFor (pi_conn pkt) s' = Some c"
  shows "\<exists>s'' fm enc. doSwitching base_methods pkt s'
      = Inr (s'', [(c, OfFlowMod fm), (c, OfPacketOut (pi_buffer_id pkt) (hf_inport hf) [p] enc)])
    \<and> fm_actions fm = [p] \<and> OFB_ETH_DST (fm_match fm) = a \<and> OFB_IN_PORT (fm_match fm) = ucast (hf_inport hf)"
proof -
  let ?t = "update_mac sw (hf_src_mac hf) (hf_inport hf) (la_lookupTable s')"
  have "mac_wf (la_lookupTable s')" "learned sw a (la_lookupTable s') = Some p"
    using app_run_keeps [OF switching run] wf first by (auto simp: keeps_learned_def)
  then have "learned sw a ?t = Some p" by (auto simp: update_mac_learned)
  moreover have "sint p \<noteq> -1"
  proof
    assume "sint p = -1"
    then have "(of_int (sint p) :: 32 word) = -1" by simp
    then show False using p by simp
  qed
  ultimately have out: "lookup_mac sw a ?t = sint p" "lookup_mac sw a ?t \<noteq> MAC_MANAGER_OUTPORT_FLOOD"
    by (simp_all add: lookup_learned MAC_MANAGER_OUTPORT_FLOOD_def)
  have m: "\<exists>m. createMatchFromPacketIn pkt hf = Inr m \<and> OFB_ETH_DST m = a \<and> OFB_IN_PORT m = ucast (hf_inport hf)"
    by (simp add: createMatchFromPacketIn_def basic_fields_def fresh_match_def setField_def unwild_def hf(3))
  have po: "\<exists>enc. createPacketOutFromPacketIn pkt p = Inr (OfPacketOut (pi_buffer_id pkt) (hf_inport hf) [p] enc)"
    using hf(1) by (auto simp: createPacketOutFromPacketIn_def extractCommonHeaderFields_def Let_def
        split: if_splits option.splits encapsulated.splits payload.splits)
  have sock: "findSocketFor (pi_conn pkt) (s'\<lparr>la_lookupTable := t, la_numFlowMod := n\<rparr>) = Some c"
    "findSocketFor (pi_conn pkt) (s'\<lparr>la_lookupTable := t\<rparr>) = Some c" for t n
    using socket by (simp_all add: findSocketFor_def)
  from m po hf out sock show ?thesis
    by (auto simp: doSwitching_def base_methods_def send_flow_mod_def sendPacket_def la_send_def createFlowMod_def)
qed

subsection \<open>Examples\<close>

theorem stream_tables_invariant_witness:
  "\<exists>s' out. app_run (\<lambda>f. False) (doSwitching base_methods) base_methods [(2, srp_packet 1 (ListenerReady 7 2))] example_app = Inr (s', out)
     \<and> la_inv s'"
proof -
  from base.stream_rule_sent [where pkt = "srp_packet 1 (ListenerReady 7 2)" and srp = "ListenerReady 7 2" and now = 2,
      unfolded srp_packet_simps, OF example_app_inv example_app_known as_listener_ready.simps(1)]
  obtain s' out where "doSRP base_methods 2 (srp_packet 1 (ListenerReady 7 2)) (ListenerReady 7 2) example_app = Inr (s', out)" by blast
  then have "app_run (\<lambda>f. False) (doSwitching base_methods) base_methods [(2, srp_packet 1 (ListenerReady 7 2))] example_app = Inr (s', out)"
    by (simp add: receiveSignal_avb_def srp_packet_def)
  with stream_tables_invariant [OF disjI1 [OF refl] example_app_inv this] show ?thesis by blast
qed

definition mac_packet :: "mac \<Rightarrow> mac \<Rightarrow> 16 word \<Rightarrow> packet_in" where
  "mac_packet src dst port = \<lparr>pi_conn = 1, pi_buffer_id = 3, pi_no_match = True,
     pi_match = oxm_zero\<lparr>OFB_IN_PORT := port, OFB_ETH_SRC := src, OFB_ETH_DST := dst\<rparr>, pi_packet = None\<rparr>"

text \<open>Station 5 was seen at port 2 and now sends from port 3; packets to it still go to port 2.\<close>

theorem learned_port_final_witness:
  "\<exists>s' out s'' fm enc. app_run (\<lambda>f. False) (doSwitching base_methods) base_methods [(2, mac_packet 5 0xFFFFFFFFFFFF 3)]
       (empty_app\<lparr>la_lookupTable := [(0, [(5, 2)])]\<rparr>) = Inr (s', out)
     \<and> doSwitching base_methods (mac_packet 6 5 1) s' = Inr (s'', [(1, OfFlowMod fm), (1, OfPacketOut 3 1 [2] enc)])
     \<and> fm_actions fm = [2]"
proof -
  let ?s = "empty_app\<lparr>la_lookupTable := [(0, [(5, 2)])]\<rparr>"
  note defs = empty_app_def example_sw_def findSwitchInfoFor_def findSocketFor_def mac_packet_def extractCommonHeaderFields_def
    OFP_NO_BUFFER_def oxm_zero_def Let_def
  obtain s' out where run: "app_run (\<lambda>f. False) (doSwitching base_methods) base_methods [(2, mac_packet 5 0xFFFFFFFFFFFF 3)] ?s = Inr (s', out)"
    and same: "oc_switchesList s' = oc_switchesList ?s"
    by (simp add: defs receiveSignal_avb_def doSwitching_def update_mac_def lookup_mac_def MAC_MANAGER_OUTPORT_FLOOD_def isBroadcast_def
        floodPacket_def createFloodPacketFromPacketIn_def createPacketOutFromPacketIn_def la_send_def)
  have wf: "mac_wf (la_lookupTable ?s)" by (simp add: mac_wf_def smap_wf_def smap_all_def)
  have first: "learned 0 5 (la_lookupTable ?s) = Some 2" by (simp add: learned_def)
  have hf: "extractCommonHeaderFields (mac_packet 6 5 1) s' = Inr \<lparr>hf_buffer_id = 3, hf_swInfo = Some 0, hf_inport = 1, hf_src_mac = 6,
      hf_dst_mac = 5, hf_eth_type = 0, hf_arp_src_adr = 0, hf_arp_dst_adr = 0, hf_arp_op = 0\<rparr>"
    using same by (simp add: defs)
  have socket: "findSocketFor (pi_conn (mac_packet 6 5 1)) s' = Some 1" using same by (simp add: defs)
  have "(2 :: 32 word) \<noteq> -1" by simp
  from learned_port_final [OF disjI1 [OF refl] wf first this run hf _ _ socket]
  obtain s'' fm enc where "doSwitching base_methods (mac_packet 6 5 1) s' = Inr (s'', [(1, OfFlowMod fm), (1, OfPacketOut 3 1 [2] enc)])"
      "fm_actions fm = [2]"
    by (auto simp: mac_packet_def)
  with run show ?thesis by blast
qed

end
