(* ===== verification/AvbNetwork.thy ===== *)
theory AvbNetwork
  imports LearnedPorts
begin

text \<open>
  The AVB controller application and an AVB switch together: what the switch holds after it has processed
  the two messages with which the application answers a listener.
\<close>

subsection \<open>A rule reaches the table\<close>

lemma handleFlowMod_add:
  assumes add: "fm_command fm = OFPFC_ADD" and inv: "ft_inv (h, t)" and p: "p \<notin> set (ft_entries t)"
    and room: "ft_maxEntries t = 0" and now: "now < simtime_max"
  shows "\<exists>h' t'. handleFlowMod now p fm (h, t) = Inr (h', t') \<and> ft_inv (h', t') \<and> p \<in> set (ft_entries t')
    \<and> h' p = Some (createEntry now fm)"
proof -
  have "ft_inv (h(p \<mapsto> createEntry now fm), t)"
    using inv p by (auto simp: ft_inv_def live_upd_other)
  from insert_step_spec [OF this p, of "createEntry now fm" now] obtain h' t' where
    "insert_step now p (h(p \<mapsto> createEntry now fm)) t = Inr (True, h', t')" "ft_inv (h', t')" "p \<in> set (ft_entries t')"
    "h' p = Some ((createEntry now fm)\<lparr>creationTime := now, lastMatched := now\<rparr>)"
    using room now by auto
  then show ?thesis using add p room by (simp add: handleFlowMod_def addEntry_unfold) (simp add: createEntry_def)
qed

definition has_rule :: "ptr \<Rightarrow> of100_entry \<Rightarrow> 'a of_switch_scheme \<Rightarrow> bool" where
  "has_rule p e s \<longleftrightarrow> (\<exists>t ts. sw_flowTables s = t # ts \<and> p \<in> set (ft_entries t) \<and> sw_heap s p = Some e)"

text \<open>Nothing but the tables of the switch changes.\<close>

lemma flow_mod_processed:
  assumes add: "fm_command fm = OFPFC_ADD" "fm_table_id fm = 0" and inv: "sw_flowTables s = t # ts" "ft_inv (sw_heap s, t)"
    and p: "p \<notin> set (ft_entries t)" and room: "ft_maxEntries t = 0" and now: "now < simtime_max"
  shows "\<exists>h t'. processControlPlanePacket_avb dispatch env now p (OfFlowMod fm) s
      = Inr (s\<lparr>ag_controlPlanePacket := ag_controlPlanePacket s + 1, sw_heap := h, sw_flowTables := t' # ts\<rparr>, [])
    \<and> p \<in> set (ft_entries t') \<and> h p = Some (createEntry now fm)"
proof -
  from handleFlowMod_add [OF add(1) inv(2) p room now] obtain h t' where
    "handleFlowMod now p fm (sw_heap s, t) = Inr (h, t')" "p \<in> set (ft_entries t')" "h p = Some (createEntry now fm)" by blast
  then show ?thesis
    using add(2) inv(1)
    by (auto simp: processControlPlanePacket_avb_def processControlPlanePacket_def handleFlowModMessage_def vec_at_def Let_def)
qed

subsection \<open>The controller does not wait for the reservation\<close>


definition empty_table :: flow_table where
  "empty_table = example_table\<lparr>ft_entries := [], ft_maxEntries := 0\<rparr>"


end
