(* ===== verification/SecurityApp.thy ===== *)
theory SecurityApp
  imports AvbNetwork
begin

text \<open>
  \<open>AVBSecurityControllerApp\<close> (SDN4CoRE/controllerApps/avb): the AVB learning application with a white list
  for new flows and a port on which a network anomaly detection system (NADS) listens to all traffic and
  raises alarms. The traffic light, which is display only, is left out.
\<close>

unbundle bit_operations_syntax

subsection \<open>State\<close>

datatype security_state = NONE | OK | WARNING | DANGER

definition NADS_PORT_NONE :: int where
  "NADS_PORT_NONE = -1"

record security_app = learning_app +
  sec_state :: security_state
  sec_stateUpdated :: bool
  sec_controllerMAC :: mac
  sec_NADSPort :: int
  sec_allowNewFlows :: bool
  sec_allowARP :: bool
  sec_allowSRP :: bool
  sec_anomalyCount :: int
  sec_lastAnomaly :: simtime
  sec_anomalyTimeout :: simtime
  sec_anomalyScheduled :: bool
  sec_timeouts :: "simtime list"   \<comment> \<open>\<open>AnomalyTimeout\<close> self messages scheduled so far\<close>

text \<open>The order of the enumeration.\<close>

fun level :: "security_state \<Rightarrow> nat" where
  "level NONE = 0"
| "level OK = 1"
| "level WARNING = 2"
| "level DANGER = 3"

definition setState :: "security_state \<Rightarrow> 'a security_app_scheme \<Rightarrow> 'a security_app_scheme" where
  "setState x s = s\<lparr>sec_state := x, sec_stateUpdated := True\<rparr>"

text \<open>Parameters; the last two are read when \<open>allowNewFlows\<close> changes, whatever their own names.\<close>

record security_params =
  par_priority :: int
  par_flowModIdleTimeOut :: int
  par_flowModHardTimeOut :: int
  par_NADSPort :: int
  par_controllerMAC :: mac
  par_allowNewFlows :: bool
  par_allowARP :: bool
  par_allowSRP :: bool

definition changed :: "string option \<Rightarrow> string \<Rightarrow> bool" where
  "changed parname n \<longleftrightarrow> parname = None \<or> parname = Some n"

definition handleParameterChange_abstract :: "security_params \<Rightarrow> string option \<Rightarrow> 'a learning_app_scheme \<Rightarrow> 'a learning_app_scheme" where
  "handleParameterChange_abstract par n s = (if changed n ''priority'' then s\<lparr>la_priority := par_priority par\<rparr> else s)"

definition handleParameterChange_avb :: "security_params \<Rightarrow> string option \<Rightarrow> 'a learning_app_scheme \<Rightarrow> 'a learning_app_scheme" where
  "handleParameterChange_avb par n s0 =
     (let s1 = handleParameterChange_abstract par n s0;
          s2 = (if changed n ''flowModIdleTimeOut'' then s1\<lparr>la_idleTimeout := par_flowModIdleTimeOut par\<rparr> else s1)
      in if changed n ''flowModHardTimeOut'' then s2\<lparr>la_hardTimeout := par_flowModHardTimeOut par\<rparr> else s2)"

definition handleParameterChange_security :: "security_params \<Rightarrow> string option \<Rightarrow> 'a security_app_scheme \<Rightarrow> 'a security_app_scheme" where
  "handleParameterChange_security par n s0 =
     (let s1 = handleParameterChange_avb par n s0;
          s2 = (if changed n ''NADSPort'' then s1\<lparr>sec_NADSPort := par_NADSPort par\<rparr> else s1);
          s3 = (if changed n ''controllerMAC'' then s2\<lparr>sec_controllerMAC := par_controllerMAC par\<rparr> else s2);
          s4 = (if changed n ''allowNewFlows'' then s3\<lparr>sec_allowNewFlows := par_allowNewFlows par\<rparr> else s3);
          s5 = (if changed n ''allowNewFlows'' then s4\<lparr>sec_allowARP := par_allowARP par\<rparr> else s4)
      in if changed n ''allowNewFlows'' then s5\<lparr>sec_allowSRP := par_allowSRP par\<rparr> else s5)"

subsection \<open>Messages\<close>

text \<open>The list with the NADS port, and whether it was altered.\<close>

definition checkOrAddNADSPort :: "int \<Rightarrow> int list \<Rightarrow> bool \<times> int list" where
  "checkOrAddNADSPort nads ports =
     (if nads > NADS_PORT_NONE \<and> nads \<notin> set ports then (True, ports @ [nads]) else (False, ports))"

text \<open>The index of the arrival gate; a tunnelled SRP packet is reported with its gate as the in port.\<close>

definition arrival_index :: "packet_in \<Rightarrow> int res" where
  "arrival_index pkt =
     (case pi_packet pkt of
        None \<Rightarrow> Inl (NullDeref ''encapsulated packet'')
      | Some (EncFrame f) \<Rightarrow> Inr (int (fr_arrivalGate f))
      | Some (EncSrp srp) \<Rightarrow> Inr (uint (OFB_IN_PORT (pi_match pkt))))"

text \<open>The destination of an IP or ARP packet is written to the field of the source.\<close>

definition network_fields :: "payload \<Rightarrow> match_field list" where
  "network_fields d =
     (case d of
        ArpPacket oper sip dip \<Rightarrow> [F_IP_PROTO (of_int oper), F_IPV4_SRC sip, F_IPV4_SRC dip]
      | Ipv4Datagram proto src dst transport \<Rightarrow>
          [F_IP_PROTO proto, F_IPV4_SRC src, F_IPV4_SRC src]
          @ (case transport of Some (sp, dp) \<Rightarrow> [F_TCP_SRC sp, F_TCP_DST dp] | None \<Rightarrow> [])
      | _ \<Rightarrow> [])"

definition security_fields :: "(frame \<Rightarrow> bool) \<Rightarrow> frame \<Rightarrow> match_field list" where
  "security_fields isAVB f =
     [F_ETH_SRC (fr_src f), F_ETH_DST (fr_dst f)]
     @ (case (isAVB f, fr_qtag f) of
          (True, Some q) \<Rightarrow> [F_ETH_TYPE 0x8100, F_VLAN_VID (q_vid q), F_VLAN_PCP (q_pcp q)]
        | _ \<Rightarrow> [F_ETH_TYPE (fr_etherType f)])
     @ network_fields (fr_payload f)"

definition createMatchFromPacketIn_security :: "(frame \<Rightarrow> bool) \<Rightarrow> packet_in \<Rightarrow> oxm_basic_match res" where
  "createMatchFromPacketIn_security isAVB pkt =
     (if pi_buffer_id pkt = OFP_NO_BUFFER then
        rbind (arrival_index pkt) (\<lambda>i.
          build_match (F_IN_PORT (of_int i)
            # (case pi_packet pkt of Some (EncFrame f) \<Rightarrow> security_fields isAVB f | _ \<Rightarrow> [])) fresh_match)
      else Inr (pi_match pkt))"

definition flowMod_security :: "int \<Rightarrow> flow_mod_command \<Rightarrow> oxm_basic_match \<Rightarrow> 32 word \<Rightarrow> int \<Rightarrow> int \<Rightarrow> flow_mod res" where
  "flowMod_security nads com m outport idle hard =
     (let outports = (if uint (OFB_IN_PORT m) \<noteq> nads \<and> outport \<noteq> OFPP_CONTROLLER
                      then snd (checkOrAddNADSPort nads [sint outport]) else [sint outport])
      in createFlowModMessage com m 0 (Some (map of_int outports)) idle hard)"

definition srpFlowMod_security :: "int \<Rightarrow> flow_mod_command \<Rightarrow> oxm_basic_match \<Rightarrow> int list \<Rightarrow> int \<Rightarrow> int \<Rightarrow> flow_mod res" where
  "srpFlowMod_security nads com m ports idle hard =
     (let outports = (if uint (OFB_IN_PORT m) \<noteq> nads then snd (checkOrAddNADSPort nads ports) else ports)
      in createFlowModMessage com m 5000 (Some (map of_int outports)) idle hard)"

definition createPacketOutFromPacketIn_security :: "int \<Rightarrow> packet_in \<Rightarrow> 32 word \<Rightarrow> of_msg res" where
  "createPacketOutFromPacketIn_security nads pkt outport =
     rbind (arrival_index pkt) (\<lambda>inport.
       let outports = map of_int (if inport \<noteq> nads \<and> outport \<noteq> OFPP_CONTROLLER
                                  then snd (checkOrAddNADSPort nads [sint outport]) else [sint outport])
       in if pi_buffer_id pkt = OFP_NO_BUFFER then
            (case pi_packet pkt of
               Some (EncFrame f) \<Rightarrow> createPacketOut outports (of_nat (fr_arrivalGate f)) OFP_NO_BUFFER (Some f)
             | _ \<Rightarrow> Inl (RuntimeError ''OFP_NO_BUFFER was set but no frame was provided in packet in''))
          else createPacketOut outports (ucast (OFB_IN_PORT (pi_match pkt))) (pi_buffer_id pkt) None)"

definition security_methods :: "(frame \<Rightarrow> bool) \<Rightarrow> int \<Rightarrow> app_methods" where
  "security_methods isAVB nads =
     \<lparr>vm_createMatch = (\<lambda>pkt hf. createMatchFromPacketIn_security isAVB pkt),
      vm_flowMod = (\<lambda>prio. flowMod_security nads),
      vm_srpFlowMod = srpFlowMod_security nads,
      vm_packetOut = createPacketOutFromPacketIn_security nads\<rparr>"

subsection \<open>Handlers\<close>

type_synonym 'a security_step = "('a security_app_scheme \<times> app_sending list) res"

text \<open>The rule that lets the detection system reach the controller; the in port is the low half of the parameter.\<close>

definition handleNewSwitch :: "packet_in \<Rightarrow> 'a security_app_scheme \<Rightarrow> 'a security_step" where
  "handleNewSwitch pkt s =
     rbind (build_match [F_ETH_DST (sec_controllerMAC s), F_IN_PORT (of_int (sec_NADSPort s))] fresh_match) (\<lambda>m.
     rbind (flowMod_security (sec_NADSPort s) OFPFC_ADD m OFPP_CONTROLLER 0 0) (\<lambda>fm.
     rbind (la_send pkt (OfFlowMod fm) s) (\<lambda>out. Inr (s\<lparr>la_numFlowMod := la_numFlowMod s + 1\<rparr>, out))))"

definition scheduleSelfMessage :: "simtime \<Rightarrow> 'a security_app_scheme \<Rightarrow> 'a security_app_scheme" where
  "scheduleSelfMessage now s =
     (if \<not> sec_anomalyScheduled s \<and> sec_lastAnomaly s + sec_anomalyTimeout s > now
      then s\<lparr>sec_timeouts := sec_timeouts s @ [sec_lastAnomaly s + sec_anomalyTimeout s], sec_anomalyCount := 0,
             sec_anomalyScheduled := True\<rparr>
      else s)"

text \<open>An alarm deletes one fixed flow, with a null pointer as the array of ports.\<close>

definition nads_fields :: "match_field list" where
  "nads_fields = [F_ETH_DST 0x0A0000000003, F_ETH_TYPE 2048, F_ETH_SRC 0x0A0000000010, F_IP_PROTO 17,
     F_IPV4_SRC 0xC0A80001, F_IPV4_SRC 0xC0A8000D, F_TCP_SRC 6666, F_TCP_DST 6666]"

definition handleNADSMessage :: "simtime \<Rightarrow> packet_in \<Rightarrow> 'a security_app_scheme \<Rightarrow> 'a security_step" where
  "handleNADSMessage now pkt s0 =
     (let s1 = (setState DANGER s0)\<lparr>sec_lastAnomaly := now, sec_anomalyCount := sec_anomalyCount s0 + 1\<rparr>
      in rbind (if pi_no_match pkt then handleNewSwitch pkt s1 else Inr (s1, [])) (\<lambda>(s2, out1).
         let s3 = s2\<lparr>la_numFlowMod := la_numFlowMod s2 + 1\<rparr> in
         rbind (build_match nads_fields fresh_match) (\<lambda>m.
         rbind (createFlowModMessage OFPFC_DELETE m 0 None 0 0) (\<lambda>fm.
         rbind (la_send pkt (OfFlowMod fm) s3) (\<lambda>out2. Inr (scheduleSelfMessage now s3, out1 @ out2))))))"

definition handleMessage_security :: "simtime \<Rightarrow> bool \<Rightarrow> 'a security_app_scheme \<Rightarrow> 'a security_app_scheme" where
  "handleMessage_security now isAnomalyTimeout s0 =
     (if isAnomalyTimeout then
        (let s = s0\<lparr>sec_anomalyScheduled := False\<rparr>
         in if sec_lastAnomaly s + sec_anomalyTimeout s \<le> now \<and> sec_anomalyCount s = 0
            then setState WARNING s else scheduleSelfMessage now s)
      else s0)"

definition isWhitelisted :: "packet_in \<Rightarrow> 'a security_app_scheme \<Rightarrow> bool" where
  "isWhitelisted pkt s =
     (case pi_packet pkt of
        Some (EncFrame f) \<Rightarrow> if fr_etherType f = ETHERTYPE_ARP then sec_allowARP s else sec_allowNewFlows s
      | Some (EncSrp srp) \<Rightarrow> sec_allowSRP s
      | None \<Rightarrow> sec_allowNewFlows s)"

text \<open>A packet that comes in from the detection system; the result tells whether the base class goes on.\<close>

definition nads_part :: "simtime \<Rightarrow> packet_in \<Rightarrow> 'a security_app_scheme \<Rightarrow> (bool \<times> 'a security_app_scheme \<times> app_sending list) res" where
  "nads_part now pkt s =
     (case pi_packet pkt of
        Some (EncFrame f) \<Rightarrow>
          rbind (extractCommonHeaderFields pkt s) (\<lambda>hf.
            if sec_NADSPort s > NADS_PORT_NONE \<and> hf_inport hf = of_int (sec_NADSPort s)
            then rbind (handleNADSMessage now pkt s) (\<lambda>(s', out). Inr (False, s', out))
            else Inr (True, s, []))
      | _ \<Rightarrow> Inr (True, s, []))"

definition raise_warning :: "'a security_app_scheme \<Rightarrow> 'a security_app_scheme" where
  "raise_warning s = (if level (sec_state s) < level WARNING then setState WARNING s else s)"

definition receiveSignal_security :: "(frame \<Rightarrow> bool) \<Rightarrow> simtime \<Rightarrow> packet_in \<Rightarrow> 'a security_app_scheme \<Rightarrow> 'a security_step" where
  "receiveSignal_security isAVB now pkt s0 =
     rbind (nads_part now pkt s0) (\<lambda>(fwd, s1, out1).
       if pi_no_match pkt \<and> \<not> isWhitelisted pkt s1 then Inr (raise_warning s1, out1)
       else if fwd then
         (let vm = security_methods isAVB (sec_NADSPort s1)
          in rbind (receiveSignal_avb isAVB (doSwitching vm) vm now pkt s1) (\<lambda>(s2, out2). Inr (s2, out1 @ out2)))
       else Inr (s1, out1))"

text \<open>The reply of a new switch; the base class then reads the offline configuration, which is left out.\<close>

definition featureReply_security :: "packet_in \<Rightarrow> 'a security_app_scheme \<Rightarrow> 'a security_step" where
  "featureReply_security pkt s = (if sec_NADSPort s > NADS_PORT_NONE then handleNewSwitch pkt s else Inr (s, []))"

fun security_run :: "(frame \<Rightarrow> bool) \<Rightarrow> (simtime \<times> packet_in) list \<Rightarrow> 'a security_app_scheme \<Rightarrow> 'a security_step" where
  "security_run isAVB [] s = Inr (s, [])"
| "security_run isAVB ((now, pkt) # evs) s =
     rbind (receiveSignal_security isAVB now pkt s) (\<lambda>(s1, out1).
     rbind (security_run isAVB evs s1) (\<lambda>(s2, out2). Inr (s2, out1 @ out2)))"

subsection \<open>New flows that nobody allowed\<close>

text \<open>What the switches send: a frame in the message that is not an alarm, a reservation message, or a buffered frame.\<close>

definition ordinary :: "int \<Rightarrow> packet_in \<Rightarrow> bool" where
  "ordinary nads pkt \<longleftrightarrow>
     (case pi_packet pkt of
        Some (EncFrame f) \<Rightarrow>
          (fr_etherType f = ETHERTYPE_ARP \<longrightarrow> (\<exists>oper sip dip. fr_payload f = ArpPacket oper sip dip))
          \<and> pi_buffer_id pkt = OFP_NO_BUFFER \<and> (nads > NADS_PORT_NONE \<longrightarrow> (of_nat (fr_arrivalGate f) :: 32 word) \<noteq> of_int nads)
      | _ \<Rightarrow> True)"

lemma extract_ordinary:
  assumes "pi_packet pkt = Some (EncFrame f)" and "ordinary nads pkt"
  shows "\<exists>hf. extractCommonHeaderFields pkt s = Inr hf \<and> hf_inport hf = of_nat (fr_arrivalGate f)"
  using assms by (auto simp: ordinary_def extractCommonHeaderFields_def Let_def)

lemma nads_part_ordinary: "ordinary (sec_NADSPort s) pkt \<Longrightarrow> nads_part now pkt s = Inr (True, s, [])"
proof (cases "pi_packet pkt")
  case (Some x)
  assume ok: "ordinary (sec_NADSPort s) pkt"
  show ?thesis
  proof (cases x)
    case (EncFrame f)
    with Some extract_ordinary [OF _ ok, of f s] obtain hf where
      "extractCommonHeaderFields pkt s = Inr hf" "hf_inport hf = of_nat (fr_arrivalGate f)" by auto
    with Some EncFrame ok show ?thesis by (auto simp: nads_part_def ordinary_def)
  qed (use Some in \<open>simp add: nads_part_def\<close>)
qed (simp add: nads_part_def)

lemma unlisted_step:
  "ordinary (sec_NADSPort s) pkt \<Longrightarrow> pi_no_match pkt \<Longrightarrow> \<not> isWhitelisted pkt s
     \<Longrightarrow> receiveSignal_security isAVB now pkt s = Inr (raise_warning s, [])"
  by (simp add: receiveSignal_security_def nads_part_ordinary)

lemma raise_warning_simps [simp]:
  "isWhitelisted pkt (raise_warning s) = isWhitelisted pkt s" "sec_NADSPort (raise_warning s) = sec_NADSPort s"
  "raise_warning (raise_warning s) = raise_warning s"
  by (auto simp: raise_warning_def setState_def isWhitelisted_def split: option.splits encapsulated.splits)


subsection \<open>Everything is mirrored\<close>

text \<open>
  The messages of the security application obey the contract of \<open>controller_methods\<close>: the port it adds
  is the one of the detection system.
\<close>

definition mirror :: "int \<Rightarrow> oxm_basic_match \<Rightarrow> 32 word set" where
  "mirror nads m = (if uint (OFB_IN_PORT m) \<noteq> nads \<and> nads > NADS_PORT_NONE then {of_int nads} else {})"

lemma add_ports: "set (snd (checkOrAddNADSPort nads ps)) = set ps \<union> (if nads > NADS_PORT_NONE then {nads} else {})"
  by (auto simp: checkOrAddNADSPort_def)

lemma create_nonempty:
  "ps \<noteq> [] \<Longrightarrow> \<exists>fm. createFlowModMessage com m prio (Some ps) idle hard = Inr fm \<and> fm_command fm = com \<and> fm_match fm = m
     \<and> fm_table_id fm = 0 \<and> fm_actions fm = ps"
  by (cases ps) (simp_all add: createFlowModMessage_def)

lemma srpFlowMod_ports:
  "\<exists>ps'. srpFlowMod_security nads com m ps idle hard = createFlowModMessage com m 5000 (Some (map of_int ps')) idle hard
     \<and> (of_int :: int \<Rightarrow> 32 word) ` set ps' = of_int ` set ps \<union> mirror nads m"
  by (intro exI [of _ "if uint (OFB_IN_PORT m) \<noteq> nads then snd (checkOrAddNADSPort nads ps) else ps"])
    (auto simp: srpFlowMod_security_def mirror_def add_ports Let_def)

lemma flowMod_ports:
  "\<exists>ps'. flowMod_security nads com m p idle hard = createFlowModMessage com m 0 (Some ps') idle hard \<and> ps' \<noteq> []
     \<and> set ps' = insert p (if p = OFPP_CONTROLLER then {} else mirror nads m)"
  by (intro exI [of _ "map of_int (if uint (OFB_IN_PORT m) \<noteq> nads \<and> p \<noteq> OFPP_CONTROLLER
        then snd (checkOrAddNADSPort nads [sint p]) else [sint p])"])
    (auto simp: flowMod_security_def mirror_def checkOrAddNADSPort_def Let_def)

interpretation security: controller_methods "security_methods isAVB nads"
  "\<lambda>m p. if p = OFPP_CONTROLLER then {} else mirror nads m" "mirror nads" for isAVB nads
proof unfold_locales
  fix prio com m p idle hard
  from flowMod_ports [of nads com m p idle hard] obtain ps' where
    ps: "flowMod_security nads com m p idle hard = createFlowModMessage com m 0 (Some ps') idle hard" "ps' \<noteq> []"
      "set ps' = insert p (if p = OFPP_CONTROLLER then {} else mirror nads m)" by blast
  from create_nonempty [OF ps(2), of com m 0 idle hard] ps(1,3)
  show "\<exists>fm. vm_flowMod (security_methods isAVB nads) prio com m p idle hard = Inr fm \<and> fm_command fm = com \<and> fm_match fm = m
      \<and> set (fm_actions fm) = insert p (if p = OFPP_CONTROLLER then {} else mirror nads m)"
    by (auto simp: security_methods_def)
next
  fix ps :: "int list" and com m idle hard
  assume "ps \<noteq> []"
  from srpFlowMod_ports [of nads com m ps idle hard] obtain ps' where
    ps: "srpFlowMod_security nads com m ps idle hard = createFlowModMessage com m 5000 (Some (map of_int ps')) idle hard"
      "(of_int :: int \<Rightarrow> 32 word) ` set ps' = of_int ` set ps \<union> mirror nads m" by blast
  then have "map (of_int :: int \<Rightarrow> 32 word) ps' \<noteq> []" using \<open>ps \<noteq> []\<close> by auto
  from create_nonempty [OF this, of com m 5000 idle hard] ps
  show "\<exists>fm. vm_srpFlowMod (security_methods isAVB nads) com m ps idle hard = Inr fm \<and> fm_command fm = com \<and> fm_match fm = m
      \<and> fm_table_id fm = 0 \<and> set (fm_actions fm) = of_int ` set ps \<union> mirror nads m"
    by (auto simp: security_methods_def)
qed

text \<open>A message that makes a switch forward frames sends them to the detection system, too.\<close>

definition mirrored :: "int \<Rightarrow> of_msg \<Rightarrow> bool" where
  "mirrored nads msg =
     (case msg of
        OfFlowMod fm \<Rightarrow> uint (OFB_IN_PORT (fm_match fm)) = nads \<or> set (fm_actions fm) = {OFPP_CONTROLLER} \<or> of_int nads \<in> set (fm_actions fm)
      | OfPacketOut b p ports enc \<Rightarrow> ports = [OFPP_FLOOD] \<or> ports = [OFPP_CONTROLLER] \<or> of_int nads \<in> set ports
      | _ \<Rightarrow> True)"

lemma flowMod_mirrored: "vm_flowMod (security_methods isAVB nads) prio com m p idle hard = Inr fm \<Longrightarrow> 0 \<le> nads \<Longrightarrow> mirrored nads (OfFlowMod fm)"
  using security.flow_mod [of isAVB nads prio com m p idle hard] by (auto simp: mirrored_def mirror_def NADS_PORT_NONE_def split: if_splits)

lemma srpFlowMod_mirrored:
  assumes "vm_srpFlowMod (security_methods isAVB nads) com m ps idle hard = Inr fm" and "0 \<le> nads"
  shows "mirrored nads (OfFlowMod fm)"
proof -
  from srpFlowMod_ports [of nads com m ps idle hard] obtain ps' where
    "createFlowModMessage com m 5000 (Some (map of_int ps')) idle hard = Inr fm"
    "(of_int :: int \<Rightarrow> 32 word) ` set ps' = of_int ` set ps \<union> mirror nads m"
    using assms(1) by (auto simp: security_methods_def)
  then show ?thesis
    using assms(2) by (cases ps') (auto simp: createFlowModMessage_def mirrored_def mirror_def NADS_PORT_NONE_def split: if_splits)
qed

lemma packetOut_mirrored:
  "createPacketOutFromPacketIn_security nads pkt p = Inr m \<Longrightarrow> 0 \<le> nads \<Longrightarrow> arrival_index pkt \<noteq> Inr nads \<Longrightarrow> mirrored nads m"
  by (auto simp: createPacketOutFromPacketIn_security_def createPacketOut_def mirrored_def checkOrAddNADSPort_def NADS_PORT_NONE_def Let_def
      rbind_Inr_iff split: if_splits option.splits encapsulated.splits)

lemma la_send_Inr: "la_send pkt m s = Inr out \<Longrightarrow> \<exists>c. out = [(c, m)]"
  by (auto simp: la_send_def split: option.splits)

lemma doSRP_mirrored:
  assumes run: "doSRP (security_methods isAVB nads) now pkt srp s = Inr (s', out)" and nads: "0 \<le> nads"
  shows "\<forall>(c, m) \<in> set out. mirrored nads m"
proof -
  have rule: "\<forall>(c, m) \<in> set out1. mirrored nads m"
    if "listener_rule (security_methods isAVB nads) now pkt sw sid vid s = Inr (s1, out1)" for sw sid vid s1 out1
    using that srpFlowMod_mirrored [OF _ nads]
    by (auto simp: listener_rule_def sendSRPFlowModMessage_def rbind_Inr_iff split: if_splits dest!: la_send_Inr)
  have "mirrored nads (OfVendor p enc)" for p enc by (simp add: mirrored_def)
  then show ?thesis
    using run rule
    by (fastforce simp: doSRP_def forwardSRPPacket_def rbind_Inr_iff split: option.splits dest!: la_send_Inr)
qed

lemma flood_mirrored: "floodPacket pkt s = Inr (s', out) \<Longrightarrow> \<forall>(c, m) \<in> set out. mirrored nads m"
  by (auto simp: floodPacket_def createFloodPacketFromPacketIn_def createPacketOutFromPacketIn_def rbind_Inr_iff mirrored_def
      split: if_splits option.splits encapsulated.splits dest!: la_send_Inr)

lemma doSwitching_mirrored:
  assumes run: "doSwitching (security_methods isAVB nads) pkt s = Inr (s', out)" and nads: "0 \<le> nads" and port: "arrival_index pkt \<noteq> Inr nads"
  shows "\<forall>(c, m) \<in> set out. mirrored nads m"
proof -
  let ?vm = "security_methods isAVB nads"
  have mods: "\<forall>(c, m) \<in> set out1. mirrored nads m" if "send_flow_mod ?vm pkt m p s1 = Inr (s2, out1)" for m p s1 s2 out1
    using that flowMod_mirrored [OF _ nads] by (auto simp: send_flow_mod_def rbind_Inr_iff dest!: la_send_Inr)
  have packet: "\<forall>(c, m) \<in> set out1. mirrored nads m" if "sendPacket ?vm pkt p s1 = Inr (s2, out1)" for p s1 s2 out1
    using that packetOut_mirrored [OF _ nads port]
    by (auto simp: sendPacket_def security_methods_def rbind_Inr_iff dest!: la_send_Inr)
  from doSwitching_run [OF run] show ?thesis
    using flood_mirrored [of pkt _ s' out nads] mods packet by fastforce
qed

subsection \<open>Alarms\<close>

lemma handleNADSMessage_fails: "\<exists>e. handleNADSMessage now pkt s = Inl e"
  by (auto simp: handleNADSMessage_def createFlowModMessage_def nads_fields_def setField_def handleNewSwitch_def flowMod_security_def
      la_send_def Let_def split: option.splits)

lemma nads_part_Inr: "nads_part now pkt s = Inr (fwd, s1, out1) \<Longrightarrow> fwd \<and> s1 = s \<and> out1 = []"
  using handleNADSMessage_fails [of now pkt s]
  by (auto simp: nads_part_def rbind_Inr_iff split: option.splits encapsulated.splits if_splits)

lemma extract_inport:
  "extractCommonHeaderFields pkt s = Inr hf \<Longrightarrow> pi_packet pkt = Some (EncFrame f) \<Longrightarrow> pi_buffer_id pkt = OFP_NO_BUFFER
     \<Longrightarrow> hf_inport hf = of_nat (fr_arrivalGate f)"
  by (auto simp: extractCommonHeaderFields_def Let_def split: if_splits payload.splits)

lemma nads_part_arrival:
  assumes run: "nads_part now pkt s = Inr r" and nads: "0 \<le> sec_NADSPort s"
    and f: "pi_packet pkt = Some (EncFrame f)" "pi_buffer_id pkt = OFP_NO_BUFFER"
  shows "arrival_index pkt \<noteq> Inr (sec_NADSPort s)"
proof
  assume "arrival_index pkt = Inr (sec_NADSPort s)"
  then have gate: "sec_NADSPort s = int (fr_arrivalGate f)" using f(1) by (simp add: arrival_index_def)
  from run f(1) obtain hf where hf: "extractCommonHeaderFields pkt s = Inr hf" by (auto simp: nads_part_def rbind_Inr_iff)
  obtain e where "handleNADSMessage now pkt s = Inl e" using handleNADSMessage_fails by blast
  with run f(1) hf extract_inport [OF hf f] nads show False by (simp add: nads_part_def gate NADS_PORT_NONE_def)
qed

text \<open>
  An alarm of the detection system ends the run: whatever the state, whether the frame is a new flow or
  comes by the rule that the application installed, handling it reads the port of a delete message through a null
  pointer before anything is deleted and before the timer is set that would end the alarm.
\<close>

theorem alarm_crashes:
  assumes "pi_packet pkt = Some (EncFrame f)" and "extractCommonHeaderFields pkt s = Inr hf"
    and "0 \<le> sec_NADSPort s" and "hf_inport hf = of_int (sec_NADSPort s)" and "findSocketFor (pi_conn pkt) s = Some c"
  shows "receiveSignal_security isAVB now pkt s = Inl (NullDeref ''outports'')"
proof -
  have "handleNADSMessage now pkt s = Inl (NullDeref ''outports'')"
    using assms(5)
    by (simp add: handleNADSMessage_def createFlowModMessage_def nads_fields_def setField_def handleNewSwitch_def flowMod_security_def
        la_send_def setState_def findSocketFor_def Let_def)
  with assms show ?thesis by (simp add: receiveSignal_security_def nads_part_def NADS_PORT_NONE_def)
qed

subsection \<open>A run is mirrored\<close>

lemma more_NADSPort: "learning_app.more s' = learning_app.more s \<Longrightarrow> sec_NADSPort s' = sec_NADSPort s"
  by (cases s; cases s') simp

lemma receive_more:
  assumes "receiveSignal_avb isAVB (doSwitching vm) vm now pkt s = Inr (s', out)"
  shows "learning_app.more s' = learning_app.more s"
  using assms
  by (auto simp: receiveSignal_avb_def same_streams_def same_addresses_def split: option.splits encapsulated.splits if_splits
      dest!: doSwitching_same doSRP_addresses)

lemma receive_mirrored:
  assumes "receiveSignal_avb isAVB (doSwitching (security_methods isAVB nads)) (security_methods isAVB nads) now pkt s = Inr (s', out)"
    and "0 \<le> nads" and "(\<exists>f. pi_packet pkt = Some (EncFrame f)) \<Longrightarrow> arrival_index pkt \<noteq> Inr nads"
  shows "\<forall>(c, m) \<in> set out. mirrored nads m"
proof (cases "pi_packet pkt")
  case None
  then have "arrival_index pkt \<noteq> Inr nads" by (simp add: arrival_index_def)
  then show ?thesis using assms(1,2) None doSwitching_mirrored [of isAVB nads pkt s s' out] by (simp add: receiveSignal_avb_def)
next
  case (Some x)
  then show ?thesis
    using assms doSwitching_mirrored [of isAVB nads pkt s s' out] doSRP_mirrored [of isAVB nads now pkt _ s s' out]
    by (cases x) (auto simp: receiveSignal_avb_def split: if_splits)
qed

lemma security_step_mirrored:
  assumes run: "receiveSignal_security isAVB now pkt s = Inr (s', out)" and nads: "0 \<le> sec_NADSPort s"
    and ok: "\<forall>f. pi_packet pkt = Some (EncFrame f) \<longrightarrow> pi_buffer_id pkt = OFP_NO_BUFFER"
  shows "sec_NADSPort s' = sec_NADSPort s \<and> (\<forall>(c, m) \<in> set out. mirrored (sec_NADSPort s) m)"
proof -
  from run obtain fwd s1 out1 where part: "nads_part now pkt s = Inr (fwd, s1, out1)" by (auto simp: receiveSignal_security_def rbind_Inr_iff)
  then have part': "nads_part now pkt s = Inr (True, s, [])" using nads_part_Inr [OF part] by simp
  show ?thesis
  proof (cases "pi_no_match pkt \<and> \<not> isWhitelisted pkt s")
    case True
    with run part' show ?thesis by (auto simp: receiveSignal_security_def)
  next
    case False
    let ?vm = "security_methods isAVB (sec_NADSPort s)"
    have sent: "receiveSignal_avb isAVB (doSwitching ?vm) ?vm now pkt s = Inr (s', out)"
      using run part' False by (auto simp: receiveSignal_security_def rbind_Inr_iff Let_def)
    have "arrival_index pkt \<noteq> Inr (sec_NADSPort s)" if "\<exists>f. pi_packet pkt = Some (EncFrame f)"
      using that nads_part_arrival [OF part' nads] ok by blast
    from receive_mirrored [OF sent nads this] more_NADSPort [OF receive_more [OF sent]] show ?thesis by blast
  qed
qed


subsection \<open>Rules for frames with addresses above Ethernet\<close>

lemma security_match_eq:
  assumes "pi_buffer_id pkt = OFP_NO_BUFFER" and "pi_packet pkt = Some (EncFrame f)" and "\<not> isAVB f"
  shows "createMatchFromPacketIn_security isAVB pkt = build_match (network_fields (fr_payload f))
    (oxm_zero\<lparr>OFB_IN_PORT := of_nat (fr_arrivalGate f), OFB_ETH_SRC := fr_src f, OFB_ETH_DST := fr_dst f, OFB_ETH_TYPE := fr_etherType f,
      wildcards := 0x3FFFE2\<rparr>)"
  using assms
  by (simp add: createMatchFromPacketIn_security_def arrival_index_def security_fields_def setField_def unwild_def fresh_match_def
      oxm_zero_def ofpfw_defs)

lemma takes_iff:
  assumes "ematch r = m" and "OFB_IN_PORT m = OFB_IN_PORT x" "OFB_ETH_SRC m = OFB_ETH_SRC x" "OFB_ETH_DST m = OFB_ETH_DST x"
    "OFB_ETH_TYPE m = OFB_ETH_TYPE x" and "wildcards m AND OFPFW_DL_VLAN \<noteq> 0" "wildcards m AND OFPFW_DL_VLAN_PCP \<noteq> 0" "wildcards m AND OFPFW_NW_DST_ALL \<noteq> 0"
  shows "tryMatch r x \<longleftrightarrow> (wildcards m AND OFPFW_NW_PROTO \<noteq> 0 \<or> OFB_IP_PROTO m = OFB_IP_PROTO x)
    \<and> (wildcards m AND OFPFW_NW_SRC_ALL \<noteq> 0 \<or> OFB_IPV4_SRC m = OFB_IPV4_SRC x)
    \<and> (wildcards m AND OFPFW_TP_SRC \<noteq> 0 \<and> wildcards m AND OFPFW_TP_DST \<noteq> 0 \<or> OFB_TP_SRC m = OFB_TP_SRC x)"
  using assms(2-) by (auto simp: tryMatch_def tryMatch_wild_def assms(1))

text \<open>What the switch reads from the frame.\<close>

lemma seen_fields:
  assumes "fr_etherType f \<noteq> ETHERTYPE_ARP \<longrightarrow> (\<forall>oper sip dip. fr_payload f \<noteq> ArpPacket oper sip dip)"
    and "extractMatch_avb f = Inr x"
  shows "OFB_IN_PORT x = of_nat (fr_arrivalGate f) \<and> OFB_ETH_SRC x = fr_src f \<and> OFB_ETH_DST x = fr_dst f \<and> OFB_ETH_TYPE x = fr_etherType f
    \<and> (case fr_payload f of
         ArpPacket oper sip dip \<Rightarrow> OFB_IP_PROTO x = of_int oper \<and> OFB_IPV4_SRC x = sip
       | Ipv4Datagram proto src dst transport \<Rightarrow> OFB_IP_PROTO x = proto \<and> OFB_IPV4_SRC x = src
           \<and> (case transport of Some (sp, dp) \<Rightarrow> OFB_TP_SRC x = sp | None \<Rightarrow> True)
       | _ \<Rightarrow> True)"
proof -
  from assms(2) obtain y where y: "extractMatch f = Inr y" and "x = y \<or> (\<exists>v q. x = y\<lparr>OFB_VLAN_VID := v, OFB_VLAN_PCP := q\<rparr>)"
    by (auto simp: extractMatch_avb_def rbind_Inr_iff split: if_splits option.splits)
  moreover have "OFB_IN_PORT y = of_nat (fr_arrivalGate f) \<and> OFB_ETH_SRC y = fr_src f \<and> OFB_ETH_DST y = fr_dst f \<and> OFB_ETH_TYPE y = fr_etherType f
    \<and> (case fr_payload f of
         ArpPacket oper sip dip \<Rightarrow> OFB_IP_PROTO y = of_int oper \<and> OFB_IPV4_SRC y = sip
       | Ipv4Datagram proto src dst transport \<Rightarrow> OFB_IP_PROTO y = proto \<and> OFB_IPV4_SRC y = src
           \<and> (case transport of Some (sp, dp) \<Rightarrow> OFB_TP_SRC y = sp | None \<Rightarrow> True)
       | _ \<Rightarrow> True)"
    using assms(1) y
    by (cases "fr_payload f") (auto simp: extractMatch_def Let_def split: option.splits if_splits)
  ultimately show ?thesis by (cases "fr_payload f") (auto split: option.splits)
qed

text \<open>
  The rule that the security application installs for a frame takes that very frame when a switch sees it again,
  unless it is an ARP packet: the target address overwrites the sender address in the match, so that the
  rule takes the packet only if both are equal, and every other ARP packet is a new flow each time.
\<close>

theorem rule_takes_its_frame:
  assumes "pi_buffer_id pkt = OFP_NO_BUFFER" and "pi_packet pkt = Some (EncFrame f)" and "\<not> isAVB f"
    and "fr_etherType f \<noteq> ETHERTYPE_ARP \<longrightarrow> (\<forall>oper sip dip. fr_payload f \<noteq> ArpPacket oper sip dip)"
    and "extractMatch_avb f = Inr x"
  shows "\<exists>m fm. createMatchFromPacketIn_security isAVB pkt = Inr m \<and> flowMod_security nads OFPFC_ADD m p idle hard = Inr fm
    \<and> (tryMatch (createEntry time fm) x
       \<longleftrightarrow> (case fr_payload f of ArpPacket oper sip dip \<Rightarrow> sip = dip | _ \<Rightarrow> True))"
proof -
  let ?m0 = "oxm_zero\<lparr>OFB_IN_PORT := of_nat (fr_arrivalGate f), OFB_ETH_SRC := fr_src f, OFB_ETH_DST := fr_dst f,
    OFB_ETH_TYPE := fr_etherType f, wildcards := 0x3FFFE2 :: 32 word\<rparr>"
  have x: "OFB_IN_PORT x = of_nat (fr_arrivalGate f) \<and> OFB_ETH_SRC x = fr_src f \<and> OFB_ETH_DST x = fr_dst f \<and> OFB_ETH_TYPE x = fr_etherType f
    \<and> (case fr_payload f of
         ArpPacket oper sip dip \<Rightarrow> OFB_IP_PROTO x = of_int oper \<and> OFB_IPV4_SRC x = sip
       | Ipv4Datagram proto src dst transport \<Rightarrow> OFB_IP_PROTO x = proto \<and> OFB_IPV4_SRC x = src
           \<and> (case transport of Some (sp, dp) \<Rightarrow> OFB_TP_SRC x = sp | None \<Rightarrow> True)
       | _ \<Rightarrow> True)"
    using seen_fields [OF assms(4,5)] .
  have "\<exists>m. build_match (network_fields (fr_payload f)) ?m0 = Inr m \<and> (\<forall>fm. fm_match fm = m \<longrightarrow>
      (tryMatch (createEntry time fm) x \<longleftrightarrow> (case fr_payload f of ArpPacket oper sip dip \<Rightarrow> sip = dip | _ \<Rightarrow> True)))"
  proof (cases "fr_payload f")
    case (ArpPacket oper sip dip)
    with x show ?thesis
      by (simp add: network_fields_def setField_def unwild_def) (auto simp: takes_iff [OF refl] createEntry_def ofpfw_defs)
  next
    case (Ipv4Datagram proto src dst transport)
    with x show ?thesis
      by (cases transport) (auto simp: network_fields_def setField_def unwild_def takes_iff [OF refl] createEntry_def ofpfw_defs)
  qed (use x in \<open>simp_all add: network_fields_def, simp_all add: takes_iff [OF refl] createEntry_def ofpfw_defs\<close>)
  then obtain m where m: "createMatchFromPacketIn_security isAVB pkt = Inr m" "\<And>fm. fm_match fm = m \<Longrightarrow>
      (tryMatch (createEntry time fm) x \<longleftrightarrow> (case fr_payload f of ArpPacket oper sip dip \<Rightarrow> sip = dip | _ \<Rightarrow> True))"
    using security_match_eq [where isAVB = isAVB, OF assms(1-3)] by auto
  from flowMod_ports [of nads OFPFC_ADD m p idle hard] obtain ps where
    ps: "flowMod_security nads OFPFC_ADD m p idle hard = createFlowModMessage OFPFC_ADD m 0 (Some ps) idle hard" "ps \<noteq> []" by blast
  from create_nonempty [OF ps(2), of OFPFC_ADD m 0 idle hard] obtain fm where
    "flowMod_security nads OFPFC_ADD m p idle hard = Inr fm" "fm_match fm = m" by (auto simp: ps(1))
  with m show ?thesis by blast
qed

subsection \<open>Examples\<close>

text \<open>One switch; the detection system is at its port 3, station 5 at its port 2; reservations are not allowed.\<close>

definition example_security :: security_app where
  "example_security = learning_app.extend (of_controller.extend (of_controller.truncate empty_app)
       (learning_app.fields 1 0 0 0 0 0 0 [(0, [(5, 2)])] [] [] [] 7))
     (security_app.fields OK False 0xC0 3 True True False 0 0 (1/10) False [])"

lemma example_security_simps [simp]:
  "sec_NADSPort example_security = 3" "sec_state example_security = OK" "sec_allowNewFlows example_security"
  "sec_allowARP example_security" "\<not> sec_allowSRP example_security" "oc_switchesList example_security = [example_sw]"
  "la_lookupTable example_security = [(0, [(5, 2)])]"
  by (simp_all add: example_security_def empty_app_def learning_app.defs of_controller.defs security_app.defs)

definition frame_packet :: "mac \<Rightarrow> mac \<Rightarrow> nat \<Rightarrow> payload \<Rightarrow> packet_in" where
  "frame_packet src dst port d = \<lparr>pi_conn = 1, pi_buffer_id = OFP_NO_BUFFER, pi_no_match = True, pi_match = oxm_zero,
     pi_packet = Some (EncFrame \<lparr>fr_src = src, fr_dst = dst, fr_etherType = (case d of ArpPacket oper sip dip \<Rightarrow> ETHERTYPE_ARP | _ \<Rightarrow> 0x0800),
       fr_arrivalGate = port, fr_qtag = None, fr_payload = d\<rparr>)\<rparr>"


theorem alarm_crashes_witness:
  "receiveSignal_security (\<lambda>f. False) 2 (frame_packet 6 0xC0 3 NoPayload) example_security = Inl (NullDeref ''outports'')"
proof -
  let ?hf = "\<lparr>hf_buffer_id = OFP_NO_BUFFER, hf_swInfo = Some 0, hf_inport = 3, hf_src_mac = 6, hf_dst_mac = 0xC0, hf_eth_type = 0x800,
    hf_arp_src_adr = 0, hf_arp_dst_adr = 0, hf_arp_op = 0\<rparr>"
  have "extractCommonHeaderFields (frame_packet 6 0xC0 3 NoPayload) example_security = Inr ?hf"
    by (simp add: extractCommonHeaderFields_def frame_packet_def findSwitchInfoFor_def example_sw_def ETHERTYPE_ARP_def Let_def)
  from alarm_crashes [OF _ this, of _ 1 "\<lambda>f. False" 2] show ?thesis
    by (simp add: frame_packet_def findSocketFor_def example_sw_def)
qed


theorem rule_takes_its_frame_witness:
  "\<exists>m fm x. createMatchFromPacketIn_security (\<lambda>f. False) (frame_packet 6 0xFFFFFFFFFFFF 1 (ArpPacket 1 10 20)) = Inr m
     \<and> flowMod_security 3 OFPFC_ADD m 2 0 0 = Inr fm
     \<and> extractMatch_avb (case pi_packet (frame_packet 6 0xFFFFFFFFFFFF 1 (ArpPacket 1 10 20)) of Some (EncFrame f) \<Rightarrow> f) = Inr x
     \<and> \<not> tryMatch (createEntry 2 fm) x"
proof -
  let ?pkt = "frame_packet 6 0xFFFFFFFFFFFF 1 (ArpPacket 1 10 20)"
  obtain f where f: "pi_packet ?pkt = Some (EncFrame f)" "fr_etherType f = ETHERTYPE_ARP" "fr_payload f = ArpPacket 1 10 20" "fr_qtag f = None"
    by (simp add: frame_packet_def)
  obtain x where x: "extractMatch_avb f = Inr x"
    using f(2-4) by (simp add: extractMatch_avb_def extractMatch_def ETHERTYPE_ARP_def ETHERTYPE_Q_def Let_def)
  from rule_takes_its_frame [OF _ f(1) _ _ x, of "\<lambda>f. False" 3 2 0 0 2] f obtain m fm where
    "createMatchFromPacketIn_security (\<lambda>f. False) ?pkt = Inr m" "flowMod_security 3 OFPFC_ADD m 2 0 0 = Inr fm"
    "\<not> tryMatch (createEntry 2 fm) x"
    by (auto simp: frame_packet_def)
  with f(1) x show ?thesis by auto
qed

end
