(* ===== verification/TopologyDiscovery.thy ===== *)
theory TopologyDiscovery
  imports LearnedPorts
begin

text \<open>
  The topology that OpenFlow controller applications discover (OpenFlow/controllerApps): \<open>LLDPMib\<close>, one direction
  of a link, \<open>LLDPMibGraph\<close>, the links by their source, and \<open>LLDPAgent\<close>, which sends LLDP frames to all ports and enters
  what comes back. A chassis is the MAC address of a switch or host, \<open>None\<close> the empty string. The statistics of the
  applications are those of \<open>AbstractControllerApp\<close>, whose fields \<open>learning_app\<close> holds, and the time outs of the
  rules are in \<open>la_idleTimeout\<close> and \<open>la_hardTimeout\<close>.
\<close>

subsection \<open>Links\<close>

type_synonym chassis = "mac option"

record lldp_mib =
  mib_srcPort :: int
  mib_dstPort :: int
  mib_srcID :: chassis
  mib_dstID :: chassis
  mib_expiresAt :: simtime

definition lldp_mib_of :: "int \<Rightarrow> int \<Rightarrow> chassis \<Rightarrow> chassis \<Rightarrow> simtime \<Rightarrow> lldp_mib" where
  "lldp_mib_of sPort dPort sID dID ex = \<lparr>mib_srcPort = sPort, mib_dstPort = dPort, mib_srcID = sID, mib_dstID = dID, mib_expiresAt = ex\<rparr>"

text \<open>The same link, in either direction.\<close>

definition mib_eq :: "lldp_mib \<Rightarrow> lldp_mib \<Rightarrow> bool" where
  "mib_eq a b \<longleftrightarrow>
     (mib_dstID b = mib_dstID a \<and> mib_srcID b = mib_srcID a \<and> mib_dstPort b = mib_dstPort a \<and> mib_srcPort b = mib_srcPort a)
   \<or> (mib_dstID b = mib_srcID a \<and> mib_srcID b = mib_dstID a \<and> mib_dstPort b = mib_srcPort a \<and> mib_srcPort b = mib_dstPort a)"

subsection \<open>The graph\<close>

record lldp_graph =
  gr_verticies :: "(chassis, lldp_mib list) smap"
  gr_numOfVerticies :: int
  gr_numOfEdges :: int
  gr_version :: int

definition empty_graph :: lldp_graph where
  "empty_graph = \<lparr>gr_verticies = [], gr_numOfVerticies = 0, gr_numOfEdges = 0, gr_version = 0\<rparr>"

text \<open>One direction of \<open>addEntry\<close>: a known link is only refreshed.\<close>

definition enter_mib :: "lldp_mib \<Rightarrow> lldp_graph \<Rightarrow> lldp_graph" where
  "enter_mib m g =
     (case smap_get (mib_srcID m) (gr_verticies g) of
        None \<Rightarrow> g\<lparr>gr_verticies := smap_put (mib_srcID m) [m] (gr_verticies g), gr_numOfVerticies := gr_numOfVerticies g + 1,
                 gr_numOfEdges := gr_numOfEdges g + 1, gr_version := gr_version g + 1\<rparr>
      | Some l \<Rightarrow>
          (case find_idx (\<lambda>e. mib_eq e m) l of
             Some i \<Rightarrow> g\<lparr>gr_verticies := smap_put (mib_srcID m) (l[i := (l ! i)\<lparr>mib_expiresAt := mib_expiresAt m\<rparr>]) (gr_verticies g)\<rparr>
           | None \<Rightarrow> g\<lparr>gr_verticies := smap_put (mib_srcID m) (l @ [m]) (gr_verticies g),
                      gr_numOfEdges := gr_numOfEdges g + 1, gr_version := gr_version g + 1\<rparr>))"

text \<open>A station (source port -1) is entered only where no link between switches ends.\<close>

definition behind_link :: "chassis \<Rightarrow> int \<Rightarrow> lldp_graph \<Rightarrow> bool" where
  "behind_link dst dstPort g \<longleftrightarrow>
     (case smap_get dst (gr_verticies g) of
        None \<Rightarrow> False
      | Some l \<Rightarrow> list_ex (\<lambda>e. mib_srcPort e = dstPort \<and> mib_dstPort e \<noteq> -1) l)"

definition addEntry_lldp :: "simtime \<Rightarrow> chassis \<Rightarrow> int \<Rightarrow> chassis \<Rightarrow> int \<Rightarrow> simtime \<Rightarrow> lldp_graph \<Rightarrow> bool \<times> lldp_graph" where
  "addEntry_lldp now src srcPort dst dstPort timeOut g =
     (if srcPort = -1 \<and> behind_link dst dstPort g then (False, g)
      else (True, enter_mib (lldp_mib_of dstPort srcPort dst src (now + timeOut))
                    (enter_mib (lldp_mib_of srcPort dstPort src dst (now + timeOut)) g)))"

text \<open>
  An iterator of a vector is a pointer, so that stepping back after an erased element is possible; a vertex
  without links is erased through an iterator of the map, which is used afterwards.
\<close>

fun expire_loop :: "simtime \<Rightarrow> (chassis, lldp_mib list) smap \<Rightarrow> (chassis, lldp_mib list) smap res" where
  "expire_loop now [] = Inr []"
| "expire_loop now ((v, l) # es) =
     (let l' = filter (\<lambda>e. \<not> mib_expiresAt e < now) l
      in if l' = [] then Inl OutOfRange
         else rbind (expire_loop now es) (\<lambda>es'. Inr ((v, l') # es')))"

definition edge_count :: "(chassis, lldp_mib list) smap \<Rightarrow> int" where
  "edge_count vs = int (sum_list (map (\<lambda>x. length (snd x)) vs))"

definition removeExpiredEntries :: "simtime \<Rightarrow> lldp_graph \<Rightarrow> lldp_graph res" where
  "removeExpiredEntries now g =
     rbind (expire_loop now (gr_verticies g)) (\<lambda>vs.
       let removed = edge_count (gr_verticies g) - edge_count vs
       in Inr (g\<lparr>gr_verticies := vs, gr_numOfEdges := gr_numOfEdges g - removed, gr_version := gr_version g + removed\<rparr>))"

subsection \<open>The agent\<close>

definition ETHERTYPE_LLDP :: "16 word" where
  "ETHERTYPE_LLDP = 0x88CC"

record lldp_agent = learning_app +
  lg_graph :: lldp_graph
  lg_pollInterval :: simtime
  lg_timeOut :: simtime
  lg_triggers :: "simtime list"   \<comment> \<open>self messages scheduled so far\<close>

definition lldp_frame :: "mac \<Rightarrow> nat \<Rightarrow> frame" where
  "lldp_frame m port =
     \<lparr>fr_src = m, fr_dst = 0xAA80C200000E, fr_etherType = ETHERTYPE_LLDP, fr_arrivalGate = 0, fr_qtag = None,
      fr_payload = LldpPayload (int port) (Some m)\<rparr>"

text \<open>One packet-out per port of a connected switch; its in port is -1.\<close>

fun lldp_ports :: "int \<Rightarrow> mac \<Rightarrow> nat list \<Rightarrow> app_sending list" where
  "lldp_ports c m [] = []"
| "lldp_ports c m (j # js) = (c, OfPacketOut OFP_NO_BUFFER (-1) [of_nat j] (Some (EncFrame (lldp_frame m j)))) # lldp_ports c m js"

fun sendLLDP_loop :: "switch_info list \<Rightarrow> app_sending list res" where
  "sendLLDP_loop [] = Inr []"
| "sendLLDP_loop (sw # sws) =
     (case si_macAddress sw of
        None \<Rightarrow> sendLLDP_loop sws
      | Some m \<Rightarrow>
          rbind (if si_numOfPorts sw \<le> 0 then Inr []
                 else (case si_socket sw of
                         None \<Rightarrow> Inl (NullDeref ''socket'')
                       | Some c \<Rightarrow> Inr (lldp_ports c m [0 ..< nat (si_numOfPorts sw)]))) (\<lambda>out1.
          rbind (sendLLDP_loop sws) (\<lambda>out2. Inr (out1 @ out2))))"

definition sendLLDP :: "'a lldp_agent_scheme \<Rightarrow> app_sending list res" where
  "sendLLDP s = sendLLDP_loop (oc_switchesList s)"

text \<open>The trigger: LLDP frames are sent and the next trigger is scheduled.\<close>

definition handleMessage_lldp :: "simtime \<Rightarrow> 'a lldp_agent_scheme \<Rightarrow> ('a lldp_agent_scheme \<times> app_sending list) res" where
  "handleMessage_lldp now s =
     rbind (sendLLDP s) (\<lambda>out. Inr (s\<lparr>lg_triggers := lg_triggers s @ [now + lg_pollInterval s]\<rparr>, out))"

definition booted_lldp :: "simtime \<Rightarrow> 'a lldp_agent_scheme \<Rightarrow> 'a lldp_agent_scheme" where
  "booted_lldp now s = s\<lparr>lg_triggers := lg_triggers s @ [now + lg_pollInterval s]\<rparr>"

text \<open>The rule that brings all LLDP frames to the controller.\<close>

definition triggerFlowMod :: "nat option \<Rightarrow> 'a lldp_agent_scheme \<Rightarrow> ('a lldp_agent_scheme \<times> app_sending list) res" where
  "triggerFlowMod swInfo s =
     rbind (build_match [F_ETH_TYPE ETHERTYPE_LLDP] fresh_match) (\<lambda>m.
       case swInfo of
         None \<Rightarrow> Inl (NullDeref ''swInfo'')
       | Some i \<Rightarrow>
           (case si_socket (oc_switchesList s ! i) of
              None \<Rightarrow> Inl (NullDeref ''socket'')
            | Some c \<Rightarrow> Inr (s\<lparr>la_numFlowMod := la_numFlowMod s + 1\<rparr>,
                [(c, OfFlowMod (createFlowMod OFPFC_ADD m OFPP_CONTROLLER (la_priority s) (la_idleTimeout s) (la_hardTimeout s)))])))"

definition handlePacketIn_lldp :: "simtime \<Rightarrow> packet_in \<Rightarrow> 'a lldp_agent_scheme \<Rightarrow> ('a lldp_agent_scheme \<times> app_sending list) res" where
  "handlePacketIn_lldp now pkt s =
     rbind (extractCommonHeaderFields pkt s) (\<lambda>hf.
       if hf_eth_type hf = uint ETHERTYPE_LLDP then
         (case pi_packet pkt of
            Some (EncFrame f) \<Rightarrow>
              (case (fr_payload f, hf_swInfo hf) of
                 (LldpPayload port chassis, Some i) \<Rightarrow>
                   Inr (s\<lparr>lg_graph := snd (addEntry_lldp now chassis port (si_macAddress (oc_switchesList s ! i)) (sint (hf_inport hf))
                          (lg_timeOut s) (lg_graph s))\<rparr>, [])
               | (LldpPayload port chassis, None) \<Rightarrow> Inl (NullDeref ''swInfo'')
               | _ \<Rightarrow> Inl (Uninitialised ''LLDP''))
          | _ \<Rightarrow> triggerFlowMod (hf_swInfo hf) s)
       else
         (case hf_swInfo hf of
            None \<Rightarrow> Inl (NullDeref ''swInfo'')
          | Some i \<Rightarrow>
              Inr (s\<lparr>lg_graph := snd (addEntry_lldp now (Some (hf_src_mac hf)) (-1) (si_macAddress (oc_switchesList s ! i)) (sint (hf_inport hf))
                     (lg_timeOut s) (lg_graph s))\<rparr>, [])))"

definition featureReply_lldp :: "int \<Rightarrow> 'a lldp_agent_scheme \<Rightarrow> ('a lldp_agent_scheme \<times> app_sending list) res" where
  "featureReply_lldp conn s = triggerFlowMod (findSwitchInfoFor conn s) s"

subsection \<open>The entries of a vertex\<close>

definition mibs :: "lldp_graph \<Rightarrow> chassis \<Rightarrow> lldp_mib list" where
  "mibs g v = (case smap_get v (gr_verticies g) of None \<Rightarrow> [] | Some l \<Rightarrow> l)"

definition vertices :: "lldp_graph \<Rightarrow> chassis set" where
  "vertices g = {v. smap_get v (gr_verticies g) \<noteq> None}"

definition enter_list :: "lldp_mib \<Rightarrow> lldp_mib list \<Rightarrow> lldp_mib list" where
  "enter_list m l =
     (case find_idx (\<lambda>e. mib_eq e m) l of
        Some i \<Rightarrow> l[i := (l ! i)\<lparr>mib_expiresAt := mib_expiresAt m\<rparr>]
      | None \<Rightarrow> l @ [m])"

lemma mib_eq_refl [simp]: "mib_eq m m"
  by (simp add: mib_eq_def)

lemma mib_eq_cong: "mib_eq a b \<Longrightarrow> mib_eq a c \<longleftrightarrow> mib_eq b c"
  by (auto simp: mib_eq_def)

lemma mib_eq_commute: "mib_eq a b \<longleftrightarrow> mib_eq b a"
  by (auto simp: mib_eq_def)

lemma enter_mib_spec:
  assumes "smap_wf (gr_verticies g)"
  shows "smap_wf (gr_verticies (enter_mib m g))"
    and "mibs (enter_mib m g) v = (if v = mib_srcID m then enter_list m (mibs g v) else mibs g v)"
    and "vertices (enter_mib m g) = insert (mib_srcID m) (vertices g)"
proof -
  show "smap_wf (gr_verticies (enter_mib m g))"
    using assms by (auto simp: enter_mib_def smap_put_wf split: option.splits)
  show "mibs (enter_mib m g) v = (if v = mib_srcID m then enter_list m (mibs g v) else mibs g v)"
    using assms by (auto simp: enter_mib_def mibs_def enter_list_def smap_get_put find_idx_def split: option.splits)
  show "vertices (enter_mib m g) = insert (mib_srcID m) (vertices g)"
    using assms by (auto simp: enter_mib_def vertices_def smap_get_put split: option.splits)
qed

text \<open>One entry per link in a list, so that entering a link leaves the others alone.\<close>

definition one_each :: "lldp_mib list \<Rightarrow> bool" where
  "one_each l \<longleftrightarrow> (\<forall>i < length l. \<forall>j < length l. mib_eq (l ! i) (l ! j) \<longrightarrow> i = j)"

lemma enter_list_cases:
  assumes "one_each l"
  shows "\<exists>x. mib_eq x m \<and> mib_expiresAt x = mib_expiresAt m \<and> set (enter_list m l) = {e \<in> set l. \<not> mib_eq e m} \<union> {x}
    \<and> one_each (enter_list m l) \<and> (x = m \<or> (\<exists>e \<in> set l. mib_eq e m \<and> x = e\<lparr>mib_expiresAt := mib_expiresAt m\<rparr>))"
proof (cases "find_idx (\<lambda>e. mib_eq e m) l")
  case None
  then have new: "\<forall>e \<in> set l. \<not> mib_eq e m" by (simp add: find_idx_None)
  moreover have "one_each (l @ [m])"
    using assms new by (auto simp: one_each_def nth_append less_Suc_eq mib_eq_commute [of m])
  ultimately show ?thesis using None by (intro exI [of _ m]) (auto simp: enter_list_def)
next
  case (Some i)
  note i = find_idx_Some [OF Some]
  let ?x = "(l ! i)\<lparr>mib_expiresAt := mib_expiresAt m\<rparr>"
  have same: "mib_eq ?x e \<longleftrightarrow> mib_eq (l ! i) e" "mib_eq e ?x \<longleftrightarrow> mib_eq e (l ! i)" for e by (simp_all add: mib_eq_def)
  have other: "\<not> mib_eq (l ! j) m" if "j < length l" "j \<noteq> i" for j
    using assms i that mib_eq_cong [of "l ! i" m "l ! j"] by (auto simp: one_each_def mib_eq_commute [of "l ! j" m])
  have "set (l[i := ?x]) = {e \<in> set l. \<not> mib_eq e m} \<union> {?x}"
  proof (intro equalityI subsetI)
    fix e assume "e \<in> set (l[i := ?x])"
    then obtain j where "j < length l" "e = l[i := ?x] ! j" by (auto simp: in_set_conv_nth)
    then show "e \<in> {e \<in> set l. \<not> mib_eq e m} \<union> {?x}" using other by (cases "j = i") auto
  next
    fix e assume e: "e \<in> {e \<in> set l. \<not> mib_eq e m} \<union> {?x}"
    show "e \<in> set (l[i := ?x])"
    proof (cases "e = ?x")
      case True
      then show ?thesis using i by (simp add: set_update_memI)
    next
      case False
      with e obtain j where "j < length l" "e = l ! j" "\<not> mib_eq e m" by (auto simp: in_set_conv_nth)
      with i have "l[i := ?x] ! j = e" "j < length (l[i := ?x])" by (auto simp: nth_list_update)
      then show ?thesis by (metis nth_mem)
    qed
  qed
  moreover have "mib_eq (l[i := ?x] ! j) c = mib_eq (l ! j) c" "mib_eq c (l[i := ?x] ! j) = mib_eq c (l ! j)" if "j < length l" for j c
    using i that same by (cases "j = i"; simp)+
  then have "one_each (l[i := ?x])" using assms by (simp add: one_each_def)
  ultimately show ?thesis
    using i by (intro exI [of _ ?x]) (auto simp: enter_list_def Some same)
qed

subsection \<open>The invariant of the graph\<close>

text \<open>
  The lists are those of their keys and not empty, no link is entered twice, every link to another vertex is entered
  at its other end, with the same expiry, and the counters count.
\<close>

definition rev_mib :: "lldp_mib \<Rightarrow> lldp_mib" where
  "rev_mib e = lldp_mib_of (mib_dstPort e) (mib_srcPort e) (mib_dstID e) (mib_srcID e) (mib_expiresAt e)"

definition graph_inv :: "lldp_graph \<Rightarrow> bool" where
  "graph_inv g \<longleftrightarrow> smap_wf (gr_verticies g)
     \<and> (\<forall>v \<in> vertices g. mibs g v \<noteq> [])
     \<and> (\<forall>v. one_each (mibs g v) \<and> (\<forall>e \<in> set (mibs g v). mib_srcID e = v \<and> mib_dstID e \<in> vertices g))
     \<and> (\<forall>v. \<forall>e \<in> set (mibs g v). mib_dstID e \<noteq> v \<longrightarrow> rev_mib e \<in> set (mibs g (mib_dstID e)))
     \<and> gr_numOfVerticies g = int (length (gr_verticies g)) \<and> gr_numOfEdges g = edge_count (gr_verticies g)"

lemma graph_invD:
  assumes "graph_inv g"
  shows "smap_wf (gr_verticies g)" and "v \<in> vertices g \<Longrightarrow> mibs g v \<noteq> []" and "one_each (mibs g v)"
    and "e \<in> set (mibs g v) \<Longrightarrow> mib_srcID e = v" and "e \<in> set (mibs g v) \<Longrightarrow> mib_dstID e \<in> vertices g"
    and "e \<in> set (mibs g v) \<Longrightarrow> mib_dstID e \<noteq> v \<Longrightarrow> rev_mib e \<in> set (mibs g (mib_dstID e))"
  using assms by (auto simp: graph_inv_def)

lemma empty_graph_inv: "graph_inv empty_graph"
  by (simp add: graph_inv_def empty_graph_def vertices_def mibs_def one_each_def edge_count_def)

lemma get_before: "\<forall>x \<in> set m. a < fst x \<Longrightarrow> k < a \<Longrightarrow> smap_get k m = None"
  by (rule smap_get_notin) force

lemma edge_count_put:
  "smap_wf m \<Longrightarrow> edge_count (smap_put k l m) = edge_count m + int (length l) - int (length (case smap_get k m of None \<Rightarrow> [] | Some l' \<Rightarrow> l'))"
  by (induction m) (auto simp: edge_count_def smap_wf_Cons get_before split: option.splits)

lemma length_put: "smap_wf m \<Longrightarrow> length (smap_put k l m) = length m + (if smap_get k m = None then 1 else 0)"
  by (induction m) (auto simp: smap_wf_Cons get_before split: if_splits)

lemma enter_mib_counts:
  assumes "smap_wf (gr_verticies g)" and "gr_numOfVerticies g = int (length (gr_verticies g))" and "gr_numOfEdges g = edge_count (gr_verticies g)"
  shows "gr_numOfVerticies (enter_mib m g) = int (length (gr_verticies (enter_mib m g)))"
    and "gr_numOfEdges (enter_mib m g) = edge_count (gr_verticies (enter_mib m g))"
  using assms by (auto simp: enter_mib_def edge_count_put length_put split: option.splits)

lemma rev_mib_simps [simp]:
  "mib_srcID (rev_mib e) = mib_dstID e" "mib_dstID (rev_mib e) = mib_srcID e" "rev_mib (rev_mib e) = e"
  "rev_mib (lldp_mib_of p q a b t) = lldp_mib_of q p b a t"
  by (simp_all add: rev_mib_def lldp_mib_of_def)

lemma mib_of_simps [simp]:
  "mib_srcID (lldp_mib_of p q a b t) = a" "mib_dstID (lldp_mib_of p q a b t) = b" "mib_srcPort (lldp_mib_of p q a b t) = p"
  "mib_dstPort (lldp_mib_of p q a b t) = q" "mib_expiresAt (lldp_mib_of p q a b t) = t"
  by (simp_all add: lldp_mib_of_def)

text \<open>A link between two vertices is refreshed to exactly the new entry.\<close>

lemma enter_list_link:
  assumes "one_each l" and "\<forall>e \<in> set l. mib_srcID e = mib_srcID m" and "mib_dstID m \<noteq> mib_srcID m"
  shows "set (enter_list m l) = {e \<in> set l. \<not> mib_eq e m} \<union> {m}" and "one_each (enter_list m l)"
proof -
  from enter_list_cases [OF assms(1), of m] obtain x where
    x: "set (enter_list m l) = {e \<in> set l. \<not> mib_eq e m} \<union> {x}" "one_each (enter_list m l)"
      "x = m \<or> (\<exists>e \<in> set l. mib_eq e m \<and> x = e\<lparr>mib_expiresAt := mib_expiresAt m\<rparr>)" by blast
  have "x = m"
  proof (rule disjE [OF x(3)])
    assume "\<exists>e \<in> set l. mib_eq e m \<and> x = e\<lparr>mib_expiresAt := mib_expiresAt m\<rparr>"
    then obtain e where "e \<in> set l" "mib_eq e m" "x = e\<lparr>mib_expiresAt := mib_expiresAt m\<rparr>" by blast
    with assms(2,3) show ?thesis by (auto simp: mib_eq_def)
  qed simp
  with x show "set (enter_list m l) = {e \<in> set l. \<not> mib_eq e m} \<union> {m}" "one_each (enter_list m l)" by simp_all
qed

lemma enter_both_inv:
  assumes inv: "graph_inv g" and m: "m = lldp_mib_of p q a b t"
  shows "graph_inv (enter_mib (rev_mib m) (enter_mib m g))"
proof -
  define g1 where "g1 = enter_mib m g"
  define g2 where "g2 = enter_mib (rev_mib m) g1"
  note i = graph_invD [OF inv]
  note e1 = enter_mib_spec [OF i(1), of m, folded g1_def]
  note e2 = enter_mib_spec [OF e1(1), of "rev_mib m", folded g2_def]
  have ms: "mib_srcID m = a" "mib_dstID m = b" "mib_srcID (rev_mib m) = b" "mib_dstID (rev_mib m) = a" by (simp_all add: m)
  have verts: "vertices g2 = {a, b} \<union> vertices g" using e1(3) e2(3) ms by auto
  have counts: "gr_numOfVerticies g2 = int (length (gr_verticies g2)) \<and> gr_numOfEdges g2 = edge_count (gr_verticies g2)"
    using enter_mib_counts [OF i(1), of m, folded g1_def] enter_mib_counts [OF e1(1), of "rev_mib m", folded g2_def] inv
    by (simp add: graph_inv_def)
  have "graph_inv g2"
  proof (cases "a = b")
    case False
    have ga: "set (mibs g2 a) = {e \<in> set (mibs g a). \<not> mib_eq e m} \<union> {m}" "one_each (mibs g2 a)"
      using enter_list_link [OF i(3), of a m] i(4) False e1(2) e2(2) ms by auto
    have gb: "set (mibs g2 b) = {e \<in> set (mibs g b). \<not> mib_eq e (rev_mib m)} \<union> {rev_mib m}" "one_each (mibs g2 b)"
      using enter_list_link [OF i(3), of b "rev_mib m"] i(4) False e1(2) e2(2) ms by auto
    have other: "mibs g2 v = mibs g v" if "v \<noteq> a" "v \<noteq> b" for v using that e1(2) e2(2) ms by simp
    have lists: "one_each (mibs g2 v)" "e \<in> set (mibs g2 v) \<Longrightarrow> mib_srcID e = v \<and> mib_dstID e \<in> vertices g2" for v e
      using ga gb other [of v] i(3,4,5) ms by (cases "v = a"; cases "v = b"; auto simp: verts)+
    have nonempty: "mibs g2 v \<noteq> []" if "v \<in> vertices g2" for v
      using that ga(1) gb(1) other [of v] i(2) by (cases "v = a"; cases "v = b") (auto simp: verts)
    have ends: "rev_mib e \<in> set (mibs g2 (mib_dstID e))" if e: "e \<in> set (mibs g2 v)" "mib_dstID e \<noteq> v" for v e
    proof (cases "e = m \<or> e = rev_mib m")
      case True
      then show ?thesis using ga(1) gb(1) ms by auto
    next
      case False
      note notnew = False
      have old: "e \<in> set (mibs g v)" "v = a \<longrightarrow> \<not> mib_eq e m" "v = b \<longrightarrow> \<not> mib_eq e (rev_mib m)"
        using e(1) notnew ga(1) gb(1) other [of v] \<open>a \<noteq> b\<close> by (cases "v = a"; cases "v = b"; auto)+
      have src: "mib_srcID e = v" using i(4) [OF old(1)] .
      have rev: "rev_mib e \<in> set (mibs g (mib_dstID e))" using i(6) [OF old(1) e(2)] .
      have "mib_dstID e = a \<longrightarrow> \<not> mib_eq (rev_mib e) m" "mib_dstID e = b \<longrightarrow> \<not> mib_eq (rev_mib e) (rev_mib m)"
        using old(2,3) src e(2) ms \<open>a \<noteq> b\<close> by (auto simp: mib_eq_def m rev_mib_def)
      then show ?thesis using rev ga(1) gb(1) other [of "mib_dstID e"] by (cases "mib_dstID e = a"; cases "mib_dstID e = b") auto
    qed
    show ?thesis using e2(1) nonempty lists ends counts by (auto simp: graph_inv_def)
  next
    case True
    note ab = this
    from enter_list_cases [OF i(3), of m a] obtain x where
      x: "mib_eq x m" "set (enter_list m (mibs g a)) = {e \<in> set (mibs g a). \<not> mib_eq e m} \<union> {x}" "one_each (enter_list m (mibs g a))" by blast
    from enter_list_cases [OF x(3), of "rev_mib m"] obtain y where
      y: "mib_eq y (rev_mib m)" "set (mibs g2 a) = {e \<in> set (enter_list m (mibs g a)). \<not> mib_eq e (rev_mib m)} \<union> {y}" "one_each (mibs g2 a)"
      using e1(2) [of a] e2(2) [of a] ms ab by auto
    have loop: "mib_srcID y = a \<and> mib_dstID y = a" "mib_srcID x = a \<and> mib_dstID x = a" using x(1) y(1) ms ab by (auto simp: mib_eq_def)
    have other: "mibs g2 v = mibs g v" if "v \<noteq> a" for v using that e1(2) e2(2) ms ab by simp
    have lists: "one_each (mibs g2 v)" "e \<in> set (mibs g2 v) \<Longrightarrow> mib_srcID e = v \<and> mib_dstID e \<in> vertices g2" for v e
      using x y other [of v] i(3,4,5) loop by (cases "v = a"; auto simp: verts)+
    have nonempty: "mibs g2 v \<noteq> []" if "v \<in> vertices g2" for v
      using that y(2) other [of v] i(2) ab by (cases "v = a") (auto simp: verts)
    have ends: "rev_mib e \<in> set (mibs g2 (mib_dstID e))" if e: "e \<in> set (mibs g2 v)" "mib_dstID e \<noteq> v" for v e
    proof -
      have old: "e \<in> set (mibs g v)" using e loop x(2) y(2) other [of v] by (cases "v = a") auto
      note rev = i(6) [OF old e(2)] and src = i(4) [OF old]
      show ?thesis
      proof (cases "mib_dstID e = a")
        case True
        have "\<not> mib_eq (rev_mib e) m" "\<not> mib_eq (rev_mib e) (rev_mib m)"
          using e(2) src True ms ab by (auto simp: mib_eq_def m rev_mib_def)
        then show ?thesis using rev x(2) y(2) True by auto
      qed (use rev other in simp)
    qed
    show ?thesis using e2(1) nonempty lists ends counts by (auto simp: graph_inv_def)
  qed
  then show ?thesis by (simp add: g1_def g2_def)
qed

lemma addEntry_lldp_inv: "graph_inv g \<Longrightarrow> graph_inv (snd (addEntry_lldp now src sp dst dp t g))"
  using enter_both_inv [of g "lldp_mib_of sp dp src dst (now + t)" sp dp src dst "now + t"] by (simp add: addEntry_lldp_def)

abbreviation alive :: "simtime \<Rightarrow> lldp_mib \<Rightarrow> bool" where
  "alive now e \<equiv> \<not> mib_expiresAt e < now"

lemma expire_loop_spec:
  "expire_loop now vs = (if \<exists>(v, l) \<in> set vs. filter (alive now) l = [] then Inl OutOfRange
     else Inr (map (\<lambda>(v, l). (v, filter (alive now) l)) vs))"
  by (induction vs) (auto simp: Let_def)

lemma entry_iff: "smap_wf (gr_verticies g) \<Longrightarrow> (v, l) \<in> set (gr_verticies g) \<longleftrightarrow> v \<in> vertices g \<and> l = mibs g v"
  by (auto simp: smap_entries_get vertices_def mibs_def)

lemma one_each_sorted: "one_each l \<longleftrightarrow> sorted_wrt (\<lambda>a b. \<not> mib_eq a b) l"
proof
  assume "one_each l"
  then have "i < j \<Longrightarrow> j < length l \<Longrightarrow> \<not> mib_eq (l ! i) (l ! j)" for i j
    unfolding one_each_def by (metis less_irrefl order_less_trans)
  then show "sorted_wrt (\<lambda>a b. \<not> mib_eq a b) l" by (simp add: sorted_wrt_iff_nth_less)
next
  assume "sorted_wrt (\<lambda>a b. \<not> mib_eq a b) l"
  then have no: "i < j \<Longrightarrow> j < length l \<Longrightarrow> \<not> mib_eq (l ! i) (l ! j)" for i j by (simp add: sorted_wrt_iff_nth_less)
  show "one_each l"
    unfolding one_each_def using no mib_eq_commute by (metis linorder_neqE_nat)
qed

lemma removeExpired_spec:
  assumes run: "removeExpiredEntries now g = Inr g'" and wf: "smap_wf (gr_verticies g)"
  shows "smap_wf (gr_verticies g')" and "mibs g' v = filter (alive now) (mibs g v)" and "vertices g' = vertices g"
    and "v \<in> vertices g \<Longrightarrow> mibs g' v \<noteq> []" and "length (gr_verticies g') = length (gr_verticies g)"
proof -
  let ?f = "\<lambda>(v :: chassis, l). (v, filter (alive now) l)"
  from run have some: "\<forall>(v, l) \<in> set (gr_verticies g). filter (alive now) l \<noteq> []" and vs: "gr_verticies g' = map ?f (gr_verticies g)"
    by (auto simp: removeExpiredEntries_def rbind_Inr_iff expire_loop_spec Let_def split: if_splits)
  have get: "smap_get v (gr_verticies g') = map_option (filter (alive now)) (smap_get v (gr_verticies g))" for v
    by (simp add: vs smap_get_map)
  show "smap_wf (gr_verticies g')" using wf by (simp add: vs smap_wf_map)
  show m: "mibs g' v = filter (alive now) (mibs g v)" for v by (simp add: mibs_def get split: option.split)
  show "vertices g' = vertices g" by (simp add: vertices_def get)
  show "v \<in> vertices g \<Longrightarrow> mibs g' v \<noteq> []"
    using some entry_iff [OF wf, of v "mibs g v"] by (auto simp: m)
  show "length (gr_verticies g') = length (gr_verticies g)" by (simp add: vs)
qed

lemma removeExpired_inv:
  assumes run: "removeExpiredEntries now g = Inr g'" and inv: "graph_inv g"
  shows "graph_inv g'"
proof -
  note i = graph_invD [OF inv]
  note e = removeExpired_spec [OF run i(1)]
  have "gr_numOfVerticies g' = int (length (gr_verticies g')) \<and> gr_numOfEdges g' = edge_count (gr_verticies g')"
    using run inv e(5) by (auto simp: removeExpiredEntries_def rbind_Inr_iff graph_inv_def Let_def)
  moreover have "one_each (mibs g' v)" for v using i(3) [of v] by (simp add: e(2) one_each_sorted sorted_wrt_filter)
  moreover have "rev_mib x \<in> set (mibs g' (mib_dstID x))" if "x \<in> set (mibs g' v)" "mib_dstID x \<noteq> v" for v x
    using that i(6) [of x v] by (simp add: e(2)) (simp add: rev_mib_def)
  ultimately show ?thesis using e(1,3,4) i(4,5) by (auto simp: graph_inv_def) (auto simp: e(2))
qed

text \<open>What the agent and the applications do with the graph.\<close>

datatype graph_op =
    AddEntry simtime chassis int chassis int simtime
  | RemoveExpired simtime

fun graph_run :: "graph_op list \<Rightarrow> lldp_graph \<Rightarrow> lldp_graph res" where
  "graph_run [] g = Inr g"
| "graph_run (AddEntry now src sp dst dp t # ops) g = graph_run ops (snd (addEntry_lldp now src sp dst dp t g))"
| "graph_run (RemoveExpired now # ops) g = rbind (removeExpiredEntries now g) (graph_run ops)"

lemma graph_run_inv: "graph_run ops g0 = Inr g \<Longrightarrow> graph_inv g0 \<Longrightarrow> graph_inv g"
  by (induction ops g0 rule: graph_run.induct) (auto simp: rbind_Inr_iff addEntry_lldp_inv dest: removeExpired_inv)


text \<open>
  A removal is undefined, and ends the run, as soon as one vertex has lost all of its links, because the erased
  node of the map is used; otherwise exactly the expired links disappear, at both ends.
\<close>

theorem expired_vertex_crashes:
  assumes "graph_inv g"
  shows "if \<exists>v \<in> vertices g. filter (alive now) (mibs g v) = [] then removeExpiredEntries now g = Inl OutOfRange
    else \<exists>g'. removeExpiredEntries now g = Inr g' \<and> vertices g' = vertices g \<and> (\<forall>v. mibs g' v = filter (alive now) (mibs g v))"
proof -
  have iff: "(\<exists>v \<in> vertices g. filter (alive now) (mibs g v) = []) \<longleftrightarrow> (\<exists>(v, l) \<in> set (gr_verticies g). filter (alive now) l = [])"
    unfolding split_beta by (metis entry_iff [OF graph_invD(1) [OF assms]] fst_conv prod.collapse snd_conv)
  show ?thesis
  proof (cases "\<exists>(v, l) \<in> set (gr_verticies g). filter (alive now) l = []")
    case True
    then show ?thesis using iff by (simp add: removeExpiredEntries_def expire_loop_spec)
  next
    case False
    then obtain g' where "removeExpiredEntries now g = Inr g'" by (simp add: removeExpiredEntries_def expire_loop_spec Let_def)
    then show ?thesis using False iff removeExpired_spec(2,3) [OF _ graph_invD(1) [OF assms], of now g'] by auto
  qed
qed

subsection \<open>A link is discovered\<close>

lemma entered_mem:
  assumes "graph_inv g" and "a \<noteq> b" and "m = lldp_mib_of p q a b t"
  shows "m \<in> set (mibs (enter_mib (rev_mib m) (enter_mib m g)) a)" and "rev_mib m \<in> set (mibs (enter_mib (rev_mib m) (enter_mib m g)) b)"
proof -
  note i = graph_invD [OF assms(1)]
  note e1 = enter_mib_spec [OF i(1), of m]
  note e2 = enter_mib_spec [OF e1(1), of "rev_mib m"]
  show "m \<in> set (mibs (enter_mib (rev_mib m) (enter_mib m g)) a)"
    unfolding e2(2) e1(2) using enter_list_link(1) [OF i(3), of a m] i(4) assms(2) by (simp add: assms(3))
  show "rev_mib m \<in> set (mibs (enter_mib (rev_mib m) (enter_mib m g)) b)"
    unfolding e2(2) e1(2) using enter_list_link(1) [OF i(3), of b "rev_mib m"] i(4) assms(2) by (simp add: assms(3))
qed

text \<open>
  C16: A link is discovered: when the LLDP frame that the agent sent out of a port of one switch comes in at a port
  of another switch and is reported to the controller, the graph contains the link with these two ports in both
  directions, valid for the time out of the agent.
\<close>

theorem link_discovered:
  assumes "graph_inv (lg_graph s)" and "(c, OfPacketOut b p ports (Some (EncFrame f))) \<in> set (lldp_ports c m [0 ..< n])" and "ports = [of_nat port]"
    and "port < 2 ^ 31" and "n \<le> 2 ^ 31"
    and "pkt = \<lparr>pi_conn = conn, pi_buffer_id = OFP_NO_BUFFER, pi_no_match = no_match, pi_match = match,
           pi_packet = Some (EncFrame (f\<lparr>fr_arrivalGate := inport\<rparr>))\<rparr>"
    and "inport < 2 ^ 31" and "findSwitchInfoFor conn s = Some i" and "si_macAddress (oc_switchesList s ! i) = Some m'" and "m' \<noteq> m"
  shows "\<exists>s'. handlePacketIn_lldp now pkt s = Inr (s', [])
    \<and> lldp_mib_of (int port) (int inport) (Some m) (Some m') (now + lg_timeOut s) \<in> set (mibs (lg_graph s') (Some m))
    \<and> lldp_mib_of (int inport) (int port) (Some m') (Some m) (now + lg_timeOut s) \<in> set (mibs (lg_graph s') (Some m'))"
proof -
  have "(c, OfPacketOut b p ports (Some (EncFrame f))) \<in> set (lldp_ports c m js) \<Longrightarrow> \<exists>j \<in> set js. f = lldp_frame m j \<and> ports = [of_nat j]" for js
    by (induction js) auto
  with assms(2) obtain j where j: "j < n" "f = lldp_frame m j" "ports = [of_nat j]" by fastforce
  have "unat (of_nat j :: 32 word) = j" "unat (of_nat port :: 32 word) = port"
    using j(1) assms(4,5) by (simp_all add: unsigned_of_nat take_bit_nat_eq_self)
  then have "j = port" using j(3) assms(3) by auto
  moreover have "sint (of_nat inport :: 32 word) = int inport"
    using assms(7) by (simp add: signed_of_nat signed_take_bit_int_eq_self)
  ultimately show ?thesis
    using entered_mem [OF assms(1), of "Some m" "Some m'" "lldp_mib_of (int port) (int inport) (Some m) (Some m') (now + lg_timeOut s)"] assms(8-10) j(2)
    by (simp add: assms(6) handlePacketIn_lldp_def extractCommonHeaderFields_def lldp_frame_def ETHERTYPE_LLDP_def ETHERTYPE_ARP_def addEntry_lldp_def Let_def)
qed

subsection \<open>Witnesses\<close>

text \<open>Two switches with a link between them, and a station at the second one.\<close>

definition example_links :: "graph_op list" where
  "example_links = [AddEntry 1 (Some 1) 0 (Some 2) 1 10, AddEntry 2 (Some 9) (-1) (Some 2) 0 20, AddEntry 3 (Some 2) 1 (Some 1) 0 30]"

definition example_graph :: lldp_graph where
  "example_graph =
     \<lparr>gr_verticies = [(Some 1, [lldp_mib_of 0 1 (Some 1) (Some 2) 33]),
        (Some 2, [lldp_mib_of 1 0 (Some 2) (Some 1) 33, lldp_mib_of 0 (-1) (Some 2) (Some 9) 22]),
        (Some 9, [lldp_mib_of (-1) 0 (Some 9) (Some 2) 22])],
      gr_numOfVerticies = 3, gr_numOfEdges = 4, gr_version = 4\<rparr>"

lemma example_graph_run: "graph_run example_links empty_graph = Inr example_graph"
  by (simp add: example_links_def example_graph_def empty_graph_def addEntry_lldp_def behind_link_def enter_mib_def lldp_mib_of_def
      find_idx_def mib_eq_def)


lemma example_graph_inv: "graph_inv example_graph"
  using graph_run_inv [OF example_graph_run empty_graph_inv] .

theorem expired_vertex_crashes_witness:
  "removeExpiredEntries 25 example_graph = Inl OutOfRange
   \<and> (\<exists>g'. removeExpiredEntries 5 example_graph = Inr g' \<and> vertices g' = vertices example_graph)"
proof -
  have m: "mibs example_graph (Some 9) = [lldp_mib_of (-1) 0 (Some 9) (Some 2) 22]" "Some 9 \<in> vertices example_graph"
    by (simp_all add: mibs_def vertices_def example_graph_def)
  then have gone: "\<exists>v \<in> vertices example_graph. filter (alive 25) (mibs example_graph v) = []" by (intro bexI [of _ "Some 9"]) simp_all
  have "expire_loop 5 (gr_verticies example_graph) = Inr (gr_verticies example_graph)" by (simp add: example_graph_def)
  then have here: "\<not> (\<exists>v \<in> vertices example_graph. filter (alive 5) (mibs example_graph v) = [])"
    using expired_vertex_crashes [OF example_graph_inv, of 5] by (auto simp: removeExpiredEntries_def split: if_splits)
  show ?thesis
    using expired_vertex_crashes [OF example_graph_inv, of 25] expired_vertex_crashes [OF example_graph_inv, of 5] gone here by auto
qed

definition discovering_agent :: lldp_agent where
  "discovering_agent = learning_app.extend (of_controller.extend (of_controller.truncate (empty_app\<lparr>oc_switchesList :=
       [example_sw\<lparr>si_macAddress := Some 1\<rparr>, example_sw\<lparr>si_connID := 2, si_socket := Some 2, si_macAddress := Some 2\<rparr>]\<rparr>))
       (learning_app.fields 1 0 0 0 0 0 0 [] [] [] [] 7))
     (lldp_agent.fields empty_graph 1 30 [])"

lemma discovering_agent_simps [simp]:
  "lg_graph discovering_agent = empty_graph" "lg_timeOut discovering_agent = 30"
  "oc_switchesList discovering_agent = [example_sw\<lparr>si_macAddress := Some 1\<rparr>, example_sw\<lparr>si_connID := 2, si_socket := Some 2, si_macAddress := Some 2\<rparr>]"
  by (simp_all add: discovering_agent_def learning_app.defs of_controller.defs lldp_agent.defs)

theorem link_discovered_witness:
  "\<exists>s'. handlePacketIn_lldp 4 \<lparr>pi_conn = 2, pi_buffer_id = OFP_NO_BUFFER, pi_no_match = True, pi_match = oxm_zero,
      pi_packet = Some (EncFrame ((lldp_frame 1 0)\<lparr>fr_arrivalGate := 3\<rparr>))\<rparr> discovering_agent = Inr (s', [])
    \<and> lldp_mib_of 0 3 (Some 1) (Some 2) 34 \<in> set (mibs (lg_graph s') (Some 1))
    \<and> lldp_mib_of 3 0 (Some 2) (Some 1) 34 \<in> set (mibs (lg_graph s') (Some 2))"
proof -
  have sent: "(1, OfPacketOut OFP_NO_BUFFER (-1) [of_nat 0] (Some (EncFrame (lldp_frame 1 0)))) \<in> set (lldp_ports 1 1 [0 ..< 2])"
    by (simp add: upt_rec)
  have found: "findSwitchInfoFor 2 discovering_agent = Some 1" by (simp add: findSwitchInfoFor_def example_sw_def)
  have graph: "graph_inv (lg_graph discovering_agent)" by (simp add: empty_graph_inv)
  from link_discovered [where now = 4 and no_match = True and match = oxm_zero and m' = 2 and inport = 3, OF graph sent refl _ _ refl _ found]
  show ?thesis by simp
qed

end
