(* ===== verification/RouteComputation.thy ===== *)
theory RouteComputation
  imports TopologyDiscovery "HOL-Library.While_Combinator" "HOL-Library.Product_Lexorder"
begin

text \<open>
  Routes over the discovered topology (OpenFlow/controllerApps, \<open>LLDPForwarding\<close>): \<open>computePath\<close> finds a
  route with the fewest hops and keeps it in a cache that belongs to a version of the graph. The queue is a
  \<open>std::priority_queue\<close>, whose element of lowest distance is a parameter \<open>pick\<close> under the interface \<open>priority_queue\<close>. An
  \<open>int\<close> is read with wrap-around, the empty chassis identifier is \<open>None\<close>, and a loop that does not end has the
  value \<open>None\<close>.
\<close>

subsection \<open>The search\<close>

record path_segment =
  ps_chassisId :: chassis
  ps_outport :: int

abbreviation INT_MAX :: int where
  "INT_MAX \<equiv> 2147483647"

definition succ_int :: "int \<Rightarrow> int" where
  "succ_int d = (if d = INT_MAX then -2147483648 else d + 1)"

record dijkstra =
  dj_q :: "(chassis \<times> int) list"
  dj_dist :: "(chassis, int) smap"
  dj_prev :: "(chassis, path_segment) smap"
  dj_visited :: "(chassis, bool) smap"

text \<open>\<open>operator[]\<close>: an absent key reads as zero or as an empty segment.\<close>

definition dist_at :: "dijkstra \<Rightarrow> chassis \<Rightarrow> int" where
  "dist_at s v = (case smap_get v (dj_dist s) of None \<Rightarrow> 0 | Some d \<Rightarrow> d)"

definition prev_at :: "dijkstra \<Rightarrow> chassis \<Rightarrow> path_segment" where
  "prev_at s v = (case smap_get v (dj_prev s) of None \<Rightarrow> \<lparr>ps_chassisId = None, ps_outport = 0\<rparr> | Some p \<Rightarrow> p)"

definition no_segment :: path_segment where
  "no_segment = \<lparr>ps_chassisId = None, ps_outport = -1\<rparr>"

fun dijkstra_fill :: "chassis \<Rightarrow> chassis list \<Rightarrow> dijkstra \<Rightarrow> dijkstra" where
  "dijkstra_fill src [] s = s"
| "dijkstra_fill src (v # vs) s =
     dijkstra_fill src vs
       (if v \<noteq> src then
          s\<lparr>dj_q := dj_q s @ [(v, INT_MAX)], dj_dist := smap_put v INT_MAX (dj_dist s), dj_prev := smap_put v no_segment (dj_prev s)\<rparr>
        else s)"

definition dijkstra_init :: "lldp_graph \<Rightarrow> chassis \<Rightarrow> dijkstra" where
  "dijkstra_init g src =
     (let s = dijkstra_fill src (map fst (gr_verticies g)) \<lparr>dj_q = [], dj_dist = [], dj_prev = [], dj_visited = []\<rparr>
      in s\<lparr>dj_q := dj_q s @ [(src, 0)], dj_prev := smap_put src no_segment (dj_prev s)\<rparr>)"

definition relax_edge :: "chassis \<Rightarrow> lldp_mib \<Rightarrow> dijkstra \<Rightarrow> dijkstra" where
  "relax_edge u e s =
     (if smap_get (mib_dstID e) (dj_visited s) \<noteq> None then s
      else let alt = succ_int (dist_at s u)
       in if alt < dist_at s (mib_dstID e) then
            s\<lparr>dj_dist := smap_put (mib_dstID e) alt (dj_dist s),
              dj_prev := smap_put (mib_dstID e) \<lparr>ps_chassisId = u, ps_outport = mib_srcPort e\<rparr> (dj_prev s),
              dj_q := dj_q s @ [(mib_dstID e, alt)]\<rparr>
          else s)"

definition dijkstra_step :: "((chassis \<times> int) list \<Rightarrow> chassis \<times> int) \<Rightarrow> lldp_graph \<Rightarrow> dijkstra \<Rightarrow> dijkstra" where
  "dijkstra_step pick g s =
     (let u = fst (pick (dj_q s));
          s1 = s\<lparr>dj_q := remove1 (pick (dj_q s)) (dj_q s)\<rparr>
      in if smap_get u (dj_visited s) \<noteq> None then s1
         else let s2 = fold (relax_edge u) (case smap_get u (gr_verticies g) of None \<Rightarrow> [] | Some l \<Rightarrow> l) s1
              in s2\<lparr>dj_visited := smap_put u True (dj_visited s2)\<rparr>)"

definition dijkstra_search :: "((chassis \<times> int) list \<Rightarrow> chassis \<times> int) \<Rightarrow> lldp_graph \<Rightarrow> dijkstra \<Rightarrow> dijkstra option" where
  "dijkstra_search pick g s = while_option (\<lambda>s. dj_q s \<noteq> []) (dijkstra_step pick g) s"

definition back_track :: "dijkstra \<Rightarrow> chassis \<Rightarrow> (chassis \<times> path_segment list) option" where
  "back_track s dst =
     while_option (\<lambda>(trg, r). ps_chassisId (prev_at s trg) \<noteq> None)
       (\<lambda>(trg, r). (ps_chassisId (prev_at s trg),
                    \<lparr>ps_chassisId = ps_chassisId (prev_at s trg), ps_outport = ps_outport (prev_at s trg)\<rparr> # r)) (dst, [])"

text \<open>The search and the list it yields, \<open>Some None\<close> if the source was not reached.\<close>

definition find_route ::
  "((chassis \<times> int) list \<Rightarrow> chassis \<times> int) \<Rightarrow> lldp_graph \<Rightarrow> chassis \<Rightarrow> chassis \<Rightarrow> path_segment list option option" where
  "find_route pick g src dst =
     (case dijkstra_search pick g (dijkstra_init g src) of
        None \<Rightarrow> None
      | Some s \<Rightarrow>
          (case back_track s dst of
             None \<Rightarrow> None
           | Some (trg, r) \<Rightarrow> Some (if src \<noteq> trg then None else Some r)))"

subsection \<open>The invariant of the search\<close>

text \<open>
  Below: a vertex is reached while its distance is a count; the others have the largest \<open>int\<close>, or have been
  counted on from it past the wrap-around.
\<close>

definition reached :: "int \<Rightarrow> bool" where
  "reached d \<longleftrightarrow> 0 \<le> d \<and> d < INT_MAX"

definition in_range :: "int \<Rightarrow> bool" where
  "in_range d \<longleftrightarrow> -2147483648 \<le> d \<and> d \<le> INT_MAX"

definition rank_of :: "int \<Rightarrow> int" where
  "rank_of d = (if reached d then d else if d = INT_MAX then 0 else d + 2147483649)"

lemma succ_int_rank:
  assumes "in_range d" and "rank_of d + 1 < INT_MAX"
  shows "in_range (succ_int d)" and "reached (succ_int d) = reached d" and "rank_of (succ_int d) = rank_of d + 1"
    and "reached d \<Longrightarrow> succ_int d = d + 1" and "\<not> reached d \<Longrightarrow> succ_int d < 0"
  using assms by (auto simp: succ_int_def rank_of_def reached_def in_range_def split: if_splits)

definition parent_ok :: "(chassis \<Rightarrow> lldp_mib list) \<Rightarrow> chassis \<Rightarrow> chassis set \<Rightarrow> (chassis \<Rightarrow> int) \<Rightarrow> chassis \<Rightarrow> path_segment \<Rightarrow> bool" where
  "parent_ok adj src W d v p \<longleftrightarrow>
     (if ps_chassisId p = None then v = src \<or> \<not> reached (d v)
      else v \<noteq> src \<and> ps_chassisId p \<in> W
        \<and> (\<exists>e \<in> set (adj (ps_chassisId p)). mib_srcPort e = ps_outport p \<and> mib_dstID e = v)
        \<and> reached (d (ps_chassisId p)) = reached (d v) \<and> rank_of (d v) = rank_of (d (ps_chassisId p)) + 1)"

text \<open>\<open>W\<close> are the visited vertices and the one being visited, \<open>u\<close>, whose edges \<open>es\<close> are still to be relaxed.\<close>

definition search_ok :: "chassis set \<Rightarrow> (chassis \<Rightarrow> lldp_mib list) \<Rightarrow> chassis \<Rightarrow> chassis set \<Rightarrow> chassis \<Rightarrow> lldp_mib list
    \<Rightarrow> (chassis \<Rightarrow> int) \<Rightarrow> (chassis \<Rightarrow> path_segment) \<Rightarrow> (chassis \<times> int) set \<Rightarrow> bool" where
  "search_ok V adj src W u es d p Q \<longleftrightarrow>
     W \<subseteq> V \<and> d src = 0
   \<and> (\<forall>v \<in> V. in_range (d v) \<and> rank_of (d v) \<le> int (card W) \<and> parent_ok adj src W d v (p v))
   \<and> (\<forall>w \<in> W. reached (d w) \<longrightarrow> (\<forall>e \<in> set (adj w).
        (w = u \<and> e \<in> set es) \<or> (reached (d (mib_dstID e)) \<and> d (mib_dstID e) \<le> d w + 1)))
   \<and> (\<forall>w \<in> W. \<forall>v \<in> V - W. reached (d w) \<longrightarrow> reached (d v) \<longrightarrow> d w \<le> d v)
   \<and> (\<forall>v \<in> V - W. (v, d v) \<in> Q) \<and> (\<forall>(v, x) \<in> Q. v \<in> V \<and> (v \<notin> W \<longrightarrow> d v \<le> x))"

text \<open>
  First the vertices that can be reached are visited, in the order of their distance, and then the others.
\<close>

definition focus_ok :: "chassis set \<Rightarrow> chassis set \<Rightarrow> chassis \<Rightarrow> (chassis \<Rightarrow> int) \<Rightarrow> bool" where
  "focus_ok V W u d \<longleftrightarrow>
     (if reached (d u) then (\<forall>w \<in> W. reached (d w) \<and> d w \<le> d u) \<and> (\<forall>v \<in> V. 0 \<le> d v)
      else \<forall>v \<in> V. reached (d v) \<longrightarrow> v \<in> W)"

definition phases_ok :: "chassis set \<Rightarrow> chassis set \<Rightarrow> (chassis \<Rightarrow> int) \<Rightarrow> bool" where
  "phases_ok V W d \<longleftrightarrow>
     (\<exists>v \<in> V. \<not> reached (d v) \<and> (v \<in> W \<or> d v < 0)) \<longrightarrow> (\<forall>v \<in> V. reached (d v) \<longrightarrow> v \<in> W)"

lemma focus_phases: "focus_ok V W u d \<Longrightarrow> phases_ok V W d"
  by (fastforce simp: focus_ok_def phases_ok_def split: if_splits)

lemma search_okD:
  assumes "search_ok V adj src W u es d p Q"
  shows "W \<subseteq> V" and "d src = 0" and "v \<in> V \<Longrightarrow> in_range (d v)" and "v \<in> V \<Longrightarrow> rank_of (d v) \<le> int (card W)"
    and "v \<in> V \<Longrightarrow> parent_ok adj src W d v (p v)"
    and "w \<in> W \<Longrightarrow> reached (d w) \<Longrightarrow> e \<in> set (adj w) \<Longrightarrow> (w = u \<and> e \<in> set es) \<or> (reached (d (mib_dstID e)) \<and> d (mib_dstID e) \<le> d w + 1)"
    and "w \<in> W \<Longrightarrow> v \<in> V - W \<Longrightarrow> reached (d w) \<Longrightarrow> reached (d v) \<Longrightarrow> d w \<le> d v"
    and "v \<in> V - W \<Longrightarrow> (v, d v) \<in> Q" and "(v, x) \<in> Q \<Longrightarrow> v \<in> V \<and> (v \<notin> W \<longrightarrow> d v \<le> x)"
  using assms by (auto simp: search_ok_def)

lemma relax_skip:
  assumes ok: "search_ok V adj src W u (e # es) d p Q"
    and "reached (d u) \<Longrightarrow> reached (d (mib_dstID e)) \<and> d (mib_dstID e) \<le> d u + 1"
  shows "search_ok V adj src W u es d p Q"
  unfolding search_ok_def
proof (intro conjI)
  show "\<forall>w \<in> W. reached (d w) \<longrightarrow> (\<forall>e \<in> set (adj w).
        (w = u \<and> e \<in> set es) \<or> (reached (d (mib_dstID e)) \<and> d (mib_dstID e) \<le> d w + 1))"
    using search_okD(6) [OF ok] assms(2) by fastforce
qed (use ok in \<open>simp_all add: search_ok_def\<close>)

lemma relax_take:
  assumes ok: "search_ok V adj src W u (e # es) d p Q" and foc: "focus_ok V W u d"
    and u: "u \<in> W" and e: "e \<in> set (adj u)" and v: "mib_dstID e = v" "v \<in> V" "v \<notin> W" and "u \<noteq> None"
    and alt: "in_range alt" "reached alt = reached (d u)" "rank_of alt = rank_of (d u) + 1"
      "reached (d u) \<Longrightarrow> alt = d u + 1" "\<not> reached (d u) \<Longrightarrow> alt < 0" "rank_of alt \<le> int (card W)"
    and less: "alt < d v" and src: "src \<in> V"
  shows "search_ok V adj src W u es (d(v := alt)) (p(v := \<lparr>ps_chassisId = u, ps_outport = mib_srcPort e\<rparr>)) (insert (v, alt) Q)
    \<and> focus_ok V W u (d(v := alt))"
proof -
  note o = search_okD [OF ok]
  have uv: "u \<noteq> v" using u v by auto
  have notsrc: "v \<noteq> src"
  proof
    assume "v = src"
    then have "d v = 0" using o(2) by simp
    moreover have "reached (d u)" using foc \<open>d v = 0\<close> v(2,3) by (auto simp: focus_ok_def reached_def split: if_splits)
    ultimately show False using alt(4) less by (simp add: reached_def)
  qed
  have phase: "reached (d w) \<Longrightarrow> w \<in> W \<Longrightarrow> x \<in> set (adj w) \<Longrightarrow> mib_dstID x = v \<Longrightarrow> reached alt \<and> alt \<le> d w + 1" for w x
    using o(6) [of w x] foc v(1-3) alt(2,4) less by (cases "reached (d u)") (auto simp: focus_ok_def)
  have parents: "parent_ok adj src W (d(v := alt)) x ((p(v := \<lparr>ps_chassisId = u, ps_outport = mib_srcPort e\<rparr>)) x)" if x: "x \<in> V" for x
  proof (cases "x = v")
    case True
    then show ?thesis using u e v alt(2,3) notsrc uv \<open>u \<noteq> None\<close> by (auto simp: parent_ok_def)
  next
    case False
    then show ?thesis using o(5) [OF x] v(3) by (auto simp: parent_ok_def)
  qed
  have order: "\<forall>w \<in> W. \<forall>x \<in> V - W. reached ((d(v := alt)) w) \<longrightarrow> reached ((d(v := alt)) x) \<longrightarrow> (d(v := alt)) w \<le> (d(v := alt)) x"
  proof (intro ballI impI)
    fix w x assume w: "w \<in> W" "reached ((d(v := alt)) w)" and x: "x \<in> V - W" "reached ((d(v := alt)) x)"
    then have wv: "w \<noteq> v" and r: "reached (d w)" using v(3) by (auto split: if_splits)
    show "(d(v := alt)) w \<le> (d(v := alt)) x"
    proof (cases "x = v")
      case True
      then have "reached (d u)" using x alt(2) by simp
      then show ?thesis using True foc w(1) wv alt(4) by (auto simp: focus_ok_def)
    next
      case False
      then show ?thesis using o(7) [OF w(1) x(1) r] x(2) wv by simp
    qed
  qed
  have edges: "\<forall>w \<in> W. reached ((d(v := alt)) w) \<longrightarrow> (\<forall>x \<in> set (adj w). (w = u \<and> x \<in> set es)
      \<or> (reached ((d(v := alt)) (mib_dstID x)) \<and> (d(v := alt)) (mib_dstID x) \<le> (d(v := alt)) w + 1))"
  proof (intro ballI impI)
    fix w x assume w: "w \<in> W" "reached ((d(v := alt)) w)" and x: "x \<in> set (adj w)"
    then have wv: "w \<noteq> v" and r: "reached (d w)" using v(3) by (auto split: if_splits)
    show "(w = u \<and> x \<in> set es) \<or> (reached ((d(v := alt)) (mib_dstID x)) \<and> (d(v := alt)) (mib_dstID x) \<le> (d(v := alt)) w + 1)"
      using phase [OF r w(1) x] o(6) [OF w(1) r x] wv v(1) by auto
  qed
  have "search_ok V adj src W u es (d(v := alt)) (p(v := \<lparr>ps_chassisId = u, ps_outport = mib_srcPort e\<rparr>)) (insert (v, alt) Q)"
    unfolding search_ok_def
  proof (intro conjI)
    show "\<forall>x \<in> V. in_range ((d(v := alt)) x) \<and> rank_of ((d(v := alt)) x) \<le> int (card W)
        \<and> parent_ok adj src W (d(v := alt)) x ((p(v := \<lparr>ps_chassisId = u, ps_outport = mib_srcPort e\<rparr>)) x)"
      using o(3,4) alt(1,6) parents by simp
    show "\<forall>x \<in> V - W. (x, (d(v := alt)) x) \<in> insert (v, alt) Q" using o(8) by simp
    show "\<forall>(x, y) \<in> insert (v, alt) Q. x \<in> V \<and> (x \<notin> W \<longrightarrow> (d(v := alt)) x \<le> y)"
      using o(9) v(2) less by fastforce
  qed (use o(1,2) notsrc order edges in simp_all)
  moreover have "focus_ok V W u (d(v := alt))"
  proof (cases "reached (d u)")
    case True
    then have "0 \<le> alt" using alt(4) by (simp add: reached_def)
    moreover have "w \<in> W \<Longrightarrow> w \<noteq> v" for w using v(3) by blast
    ultimately show ?thesis using True foc uv by (simp add: focus_ok_def)
  next
    case False
    then show ?thesis using foc uv alt(2) by (simp add: focus_ok_def)
  qed
  ultimately show ?thesis ..
qed

subsection \<open>The search keeps the invariant\<close>

definition visited_set :: "dijkstra \<Rightarrow> chassis set" where
  "visited_set s = {v. smap_get v (dj_visited s) \<noteq> None}"

definition maps_ok :: "dijkstra \<Rightarrow> bool" where
  "maps_ok s \<longleftrightarrow> smap_wf (dj_dist s) \<and> smap_wf (dj_prev s) \<and> smap_wf (dj_visited s)"

text \<open>The graphs the search is proved for: no link from a switch to itself, no switch without an address.\<close>

definition searchable :: "lldp_graph \<Rightarrow> bool" where
  "searchable g \<longleftrightarrow> graph_inv g \<and> None \<notin> vertices g \<and> (\<forall>v. \<forall>e \<in> set (mibs g v). mib_dstID e \<noteq> v)
     \<and> int (card (vertices g)) < INT_MAX"

abbreviation search_inv :: "lldp_graph \<Rightarrow> chassis \<Rightarrow> chassis set \<Rightarrow> chassis \<Rightarrow> lldp_mib list \<Rightarrow> dijkstra \<Rightarrow> bool" where
  "search_inv g src W u es s \<equiv> search_ok (vertices g) (mibs g) src W u es (dist_at s) (prev_at s) (set (dj_q s))"

lemma finite_vertices: "smap_wf (gr_verticies g) \<Longrightarrow> finite (vertices g)"
proof -
  have "vertices g \<subseteq> fst ` set (gr_verticies g)"
  proof
    fix v assume "v \<in> vertices g"
    then have "smap_get v (gr_verticies g) \<noteq> None" by (simp add: vertices_def)
    then show "v \<in> fst ` set (gr_verticies g)" by (rule contrapos_np) (rule smap_get_notin)
  qed
  then show ?thesis using finite_surj by blast
qed

definition relaxing :: "lldp_graph \<Rightarrow> chassis \<Rightarrow> chassis \<Rightarrow> lldp_mib list \<Rightarrow> dijkstra \<Rightarrow> bool" where
  "relaxing g src u es s \<longleftrightarrow>
     (let W = insert u (visited_set s)
      in u \<notin> visited_set s \<and> u \<in> vertices g \<and> set es \<subseteq> set (mibs g u) \<and> maps_ok s
        \<and> search_inv g src W u es s \<and> focus_ok (vertices g) W u (dist_at s) \<and> rank_of (dist_at s u) + 1 \<le> int (card W))"

lemma relax_edge_ok:
  assumes g: "searchable g" and src: "src \<in> vertices g" and r: "relaxing g src u (e # es) s"
  shows "relaxing g src u es (relax_edge u e s) \<and> dj_visited (relax_edge u e s) = dj_visited s
    \<and> length (dj_q (relax_edge u e s)) \<le> length (dj_q s) + 1"
proof -
  let ?W = "insert u (visited_set s)" and ?v = "mib_dstID e" and ?alt = "succ_int (dist_at s u)"
  note G = graph_invD [of g]
  have inv: "graph_inv g" and none: "None \<notin> vertices g" and loop: "x \<in> set (mibs g v) \<Longrightarrow> mib_dstID x \<noteq> v"
    and small: "int (card (vertices g)) < INT_MAX" for x v using g by (auto simp: searchable_def)
  have u: "u \<notin> visited_set s" "u \<in> vertices g" "set es \<subseteq> set (mibs g u)" "e \<in> set (mibs g u)" "maps_ok s"
    and ok: "search_inv g src ?W u (e # es) s" and foc: "focus_ok (vertices g) ?W u (dist_at s)"
    and rank: "rank_of (dist_at s u) + 1 \<le> int (card ?W)" using r by (auto simp: relaxing_def Let_def)
  note o = search_okD [OF ok]
  have v: "?v \<noteq> u" "?v \<in> vertices g" using loop [OF u(4)] G(5) [OF inv u(4)] by auto
  have "card ?W \<le> card (vertices g)" using o(1) finite_vertices [OF G(1) [OF inv]] by (simp add: card_mono)
  then have below: "rank_of (dist_at s u) + 1 < INT_MAX" using rank small by linarith
  note alt = succ_int_rank [OF o(3) [OF u(2)] below]
  have seen: "smap_get ?v (dj_visited s) \<noteq> None \<longleftrightarrow> ?v \<in> ?W" using v(1) by (simp add: visited_set_def)
  show ?thesis
  proof (cases "?v \<notin> ?W \<and> ?alt < dist_at s ?v")
    case False
    have unchanged: "relax_edge u e s = s" using False seen by (auto simp: relax_edge_def Let_def)
    have "reached (dist_at s ?v) \<and> dist_at s ?v \<le> dist_at s u + 1" if "reached (dist_at s u)"
    proof (cases "?v \<in> ?W")
      case True
      then show ?thesis using foc that by (fastforce simp: focus_ok_def)
    next
      case out: False
      then have "dist_at s ?v \<le> dist_at s u + 1" "0 \<le> dist_at s ?v" using False alt(4) that foc v(2) by (auto simp: focus_ok_def)
      moreover have "dist_at s u + 1 < INT_MAX" using alt(2,4) that by (simp add: reached_def)
      ultimately show ?thesis by (simp add: reached_def)
    qed
    from relax_skip [OF ok this] show ?thesis
      using u foc rank by (simp add: relaxing_def Let_def unchanged)
  next
    case True
    let ?s = "relax_edge u e s"
    have eq: "?s = s\<lparr>dj_dist := smap_put ?v ?alt (dj_dist s),
        dj_prev := smap_put ?v \<lparr>ps_chassisId = u, ps_outport = mib_srcPort e\<rparr> (dj_prev s), dj_q := dj_q s @ [(?v, ?alt)]\<rparr>"
      using True seen by (auto simp: relax_edge_def Let_def)
    have d: "dist_at ?s = (dist_at s)(?v := ?alt)" and p: "prev_at ?s = (prev_at s)(?v := \<lparr>ps_chassisId = u, ps_outport = mib_srcPort e\<rparr>)"
      using u(5) by (auto simp: eq dist_at_def prev_at_def maps_ok_def smap_get_put fun_eq_iff)
    have q: "set (dj_q ?s) = insert (?v, ?alt) (set (dj_q s))" and vis: "dj_visited ?s = dj_visited s" by (auto simp: eq)
    have W: "visited_set ?s = visited_set s" by (simp add: visited_set_def vis)
    have "u \<noteq> None" using u(2) none by metis
    have "search_inv g src ?W u es ?s \<and> focus_ok (vertices g) ?W u (dist_at ?s)"
      unfolding d p q by (rule relax_take [OF ok foc])
        (use u v True alt rank src \<open>u \<noteq> None\<close> in auto)
    moreover have "maps_ok ?s" using u(5) by (simp add: eq maps_ok_def smap_put_wf)
    moreover have "dist_at ?s u = dist_at s u" using v(1) by (simp add: d)
    ultimately show ?thesis using u rank by (simp add: relaxing_def Let_def W vis) (simp add: eq)
  qed
qed

lemma relax_fold_ok:
  assumes "searchable g" and "src \<in> vertices g" and "relaxing g src u es s"
  shows "relaxing g src u [] (fold (relax_edge u) es s) \<and> dj_visited (fold (relax_edge u) es s) = dj_visited s
    \<and> length (dj_q (fold (relax_edge u) es s)) \<le> length (dj_q s) + length es"
  using assms(3)
proof (induction es arbitrary: s)
  case (Cons e es)
  from relax_edge_ok [OF assms(1,2) Cons.prems] Cons.IH [of "relax_edge u e s"] show ?case by auto
qed simp

definition searching :: "lldp_graph \<Rightarrow> chassis \<Rightarrow> dijkstra \<Rightarrow> bool" where
  "searching g src s \<longleftrightarrow> maps_ok s \<and> search_inv g src (visited_set s) None [] s \<and> phases_ok (vertices g) (visited_set s) (dist_at s)"

definition search_left :: "lldp_graph \<Rightarrow> dijkstra \<Rightarrow> nat" where
  "search_left g s = length (dj_q s) + (\<Sum>v \<in> vertices g - visited_set s. length (mibs g v))"

lemma queue_change:
  assumes "search_ok V adj src W u es d p Q" and "\<And>v. v \<in> V - W \<Longrightarrow> (v, d v) \<in> Q'" and "Q' \<subseteq> Q"
  shows "search_ok V adj src W u es d p Q'"
  using assms unfolding search_ok_def by blast

lemma mibs_alt: "(case smap_get u (gr_verticies g) of None \<Rightarrow> [] | Some l \<Rightarrow> l) = mibs g u"
  by (simp add: mibs_def)

lemma searching_done:
  assumes "relaxing g src u [] s"
  shows "searching g src (s\<lparr>dj_visited := smap_put u True (dj_visited s)\<rparr>)"
proof -
  let ?s = "s\<lparr>dj_visited := smap_put u True (dj_visited s)\<rparr>"
  have wf: "smap_wf (dj_visited s)" using assms by (simp add: relaxing_def maps_ok_def Let_def)
  have W: "visited_set ?s = insert u (visited_set s)" using wf by (auto simp: visited_set_def smap_get_put)
  have same: "dist_at ?s = dist_at s" "prev_at ?s = prev_at s" by (simp_all add: dist_at_def prev_at_def fun_eq_iff)
  have "search_inv g src (insert u (visited_set s)) u [] s" "focus_ok (vertices g) (insert u (visited_set s)) u (dist_at s)" "maps_ok s"
    using assms by (simp_all add: relaxing_def Let_def)
  then show ?thesis
    using focus_phases by (auto simp: searching_def W same maps_ok_def smap_put_wf search_ok_def)
qed

text \<open>The interface of \<open>std::priority_queue\<close> with the comparison \<open>comp\<close>.\<close>

locale priority_queue =
  fixes pick :: "(chassis \<times> int) list \<Rightarrow> chassis \<times> int"
  assumes pick_in: "q \<noteq> [] \<Longrightarrow> pick q \<in> set q"
    and pick_least: "x \<in> set q \<Longrightarrow> snd (pick q) \<le> snd x"
begin

lemma visit_ok:
  assumes g: "searchable g" and src: "src \<in> vertices g" and s: "searching g src s" and q: "dj_q s \<noteq> []"
    and new: "fst (pick (dj_q s)) = u" "u \<notin> visited_set s"
  shows "relaxing g src u (mibs g u) (s\<lparr>dj_q := remove1 (pick (dj_q s)) (dj_q s)\<rparr>)"
proof -
  let ?V = "vertices g" and ?W = "visited_set s" and ?d = "dist_at s" and ?s = "s\<lparr>dj_q := remove1 (pick (dj_q s)) (dj_q s)\<rparr>"
  have ok: "search_inv g src ?W None [] s" and ph: "phases_ok ?V ?W ?d" and maps: "maps_ok s" using s by (auto simp: searching_def)
  note o = search_okD [OF ok]
  obtain x where x: "pick (dj_q s) = (u, x)" using new(1) by (metis prod.collapse)
  have uV: "u \<in> ?V" and ux: "?d u \<le> x" using o(9) [of u x] pick_in [OF q] new(2) x by auto
  have least: "?d u \<le> ?d v" if "v \<in> ?V - ?W" for v
    using pick_least [OF o(8) [OF that]] ux x by simp
  have fin: "finite ?W" using o(1) finite_vertices graph_invD(1) g by (meson finite_subset searchable_def)
  have card: "int (card (insert u ?W)) = int (card ?W) + 1" using fin new(2) by simp
  have same: "dist_at ?s = ?d" "prev_at ?s = prev_at s" "visited_set ?s = ?W" by (simp_all add: dist_at_def prev_at_def visited_set_def fun_eq_iff)
  have parents: "parent_ok (mibs g) src (insert u ?W) ?d v (prev_at s v)" if "v \<in> ?V" for v
    using o(5) [OF that] by (auto simp: parent_ok_def split: if_splits)
  have queue: "(v, ?d v) \<in> set (remove1 (u, x) (dj_q s))" if "v \<in> ?V - insert u ?W" for v
    using o(8) [of v] that by (auto simp: in_set_remove1)
  have edges: "w \<in> insert u ?W \<Longrightarrow> reached (?d w) \<Longrightarrow> e \<in> set (mibs g w) \<Longrightarrow>
      (w = u \<and> e \<in> set (mibs g u)) \<or> (reached (?d (mib_dstID e)) \<and> ?d (mib_dstID e) \<le> ?d w + 1)" for w e
    using o(6) [of w e] by auto
  have order: "w \<in> insert u ?W \<Longrightarrow> v \<in> ?V - insert u ?W \<Longrightarrow> reached (?d w) \<Longrightarrow> reached (?d v) \<Longrightarrow> ?d w \<le> ?d v" for w v
    using o(7) [of w v] least [of v] by auto
  have "search_inv g src (insert u ?W) u (mibs g u) ?s"
    unfolding search_ok_def same
  proof (intro conjI)
    show "\<forall>v \<in> ?V. in_range (?d v) \<and> rank_of (?d v) \<le> int (card (insert u ?W)) \<and> parent_ok (mibs g) src (insert u ?W) ?d v (prev_at s v)"
      using o(3,4) card parents by force
    show "\<forall>(v, y) \<in> set (dj_q ?s). v \<in> ?V \<and> (v \<notin> insert u ?W \<longrightarrow> ?d v \<le> y)"
      using o(9) notin_set_remove1 by fastforce
  qed (use o(1,2) uV x queue edges order in auto)
  moreover have "focus_ok ?V (insert u ?W) u ?d"
  proof (cases "reached (?d u)")
    case True
    then have none: "\<not> (\<exists>v \<in> ?V. \<not> reached (?d v) \<and> (v \<in> ?W \<or> ?d v < 0))" using ph uV new(2) by (auto simp: phases_ok_def)
    then have "\<forall>w \<in> ?W. reached (?d w)" "\<forall>v \<in> ?V. 0 \<le> ?d v" using o(1) by (auto simp: reached_def)
    then show ?thesis using True o(7) uV new(2) by (auto simp: focus_ok_def)
  next
    case False
    have "v \<in> ?W" if "v \<in> ?V" "reached (?d v)" for v
    proof (rule ccontr)
      assume "v \<notin> ?W"
      with least [of v] that have "?d u < 0" using False by (auto simp: reached_def)
      with ph uV False that \<open>v \<notin> ?W\<close> show False by (auto simp: phases_ok_def)
    qed
    then show ?thesis using False by (simp add: focus_ok_def)
  qed
  moreover have "rank_of (?d u) + 1 \<le> int (card (insert u ?W))" using o(4) [OF uV] card by simp
  moreover have "maps_ok ?s" using maps by (simp add: maps_ok_def)
  ultimately show ?thesis using uV new(2) by (simp add: relaxing_def Let_def same)
qed

lemma step_ok:
  assumes g: "searchable g" and src: "src \<in> vertices g" and s: "searching g src s" and q: "dj_q s \<noteq> []"
  shows "searching g src (dijkstra_step pick g s) \<and> search_left g (dijkstra_step pick g s) < search_left g s"
proof -
  obtain u x where ux: "pick (dj_q s) = (u, x)" by force
  let ?s = "s\<lparr>dj_q := remove1 (u, x) (dj_q s)\<rparr>"
  have len: "length (dj_q ?s) < length (dj_q s)" using pick_in [OF q] ux q by (simp add: length_remove1)
  show ?thesis
  proof (cases "u \<in> visited_set s")
    case True
    then have eq: "dijkstra_step pick g s = ?s" by (auto simp: dijkstra_step_def ux visited_set_def)
    have same: "dist_at ?s = dist_at s" "prev_at ?s = prev_at s" "visited_set ?s = visited_set s"
      by (simp_all add: dist_at_def prev_at_def visited_set_def fun_eq_iff)
    have inv: "search_inv g src (visited_set s) None [] s" using s by (simp add: searching_def)
    have "(v, dist_at s v) \<in> set (dj_q ?s)" if "v \<in> vertices g - visited_set s" for v
    proof -
      have "(v, dist_at s v) \<noteq> (u, x)" using that True by auto
      then show ?thesis using search_okD(8) [OF inv that] by (simp add: in_set_remove1)
    qed
    moreover have "set (dj_q ?s) \<subseteq> set (dj_q s)" by (simp add: set_remove1_subset)
    ultimately have "search_inv g src (visited_set ?s) None [] ?s" unfolding same by (intro queue_change [OF inv]) auto
    then have "searching g src ?s" using s by (simp add: searching_def same maps_ok_def)
    then show ?thesis using len by (simp add: eq search_left_def visited_set_def)
  next
    case False
    define s2 where "s2 = fold (relax_edge u) (mibs g u) ?s"
    have eq: "dijkstra_step pick g s = s2\<lparr>dj_visited := smap_put u True (dj_visited s2)\<rparr>"
      using False by (simp add: dijkstra_step_def ux visited_set_def mibs_alt s2_def Let_def)
    from visit_ok [OF g src s q _ False] ux have "relaxing g src u (mibs g u) ?s" by simp
    from relax_fold_ok [OF g src this, folded s2_def]
    have s2: "relaxing g src u [] s2" "dj_visited s2 = dj_visited s" "length (dj_q s2) \<le> length (dj_q ?s) + length (mibs g u)" by simp_all
    have uV: "u \<in> vertices g" and wf: "smap_wf (dj_visited s2)" using s2(1) by (simp_all add: relaxing_def maps_ok_def Let_def)
    have W: "visited_set (s2\<lparr>dj_visited := smap_put u True (dj_visited s2)\<rparr>) = insert u (visited_set s)"
      using wf s2(2) by (auto simp: visited_set_def smap_get_put)
    have "finite (vertices g)" using finite_vertices graph_invD(1) g by (simp add: searchable_def)
    then have fin: "finite (vertices g - visited_set s)" and mem: "u \<in> vertices g - visited_set s" using uV False by simp_all
    have less: "vertices g - insert u (visited_set s) = vertices g - visited_set s - {u}" by blast
    have "(\<Sum>v \<in> vertices g - visited_set s. length (mibs g v))
        = length (mibs g u) + (\<Sum>v \<in> vertices g - insert u (visited_set s). length (mibs g v))"
      unfolding less by (rule sum.remove [OF fin mem])
    then have "search_left g (dijkstra_step pick g s) < search_left g s" using s2(3) len by (simp add: eq search_left_def W)
    then show ?thesis using searching_done [OF s2(1)] by (simp add: eq)
  qed
qed

lemma search_ends:
  assumes "searchable g" and "src \<in> vertices g" and "searching g src s"
  shows "\<exists>t. dijkstra_search pick g s = Some t \<and> searching g src t \<and> dj_q t = []"
proof -
  have "\<exists>t. while_option (\<lambda>s. dj_q s \<noteq> []) (dijkstra_step pick g) s = Some t"
    by (rule measure_while_option_Some [where P = "searching g src" and f = "search_left g"]) (use assms step_ok in auto)
  then obtain t where t: "while_option (\<lambda>s. dj_q s \<noteq> []) (dijkstra_step pick g) s = Some t" ..
  have "searching g src t" by (rule while_option_rule [OF _ t]) (use assms step_ok in auto)
  then show ?thesis using t while_option_stop [OF t] by (auto simp: dijkstra_search_def)
qed

end

subsection \<open>The start of the search\<close>

lemma dijkstra_fill_spec:
  assumes "maps_ok s"
  shows "maps_ok (dijkstra_fill src vs s) \<and> dj_visited (dijkstra_fill src vs s) = dj_visited s
    \<and> dist_at (dijkstra_fill src vs s) v = (if v \<in> set vs \<and> v \<noteq> src then INT_MAX else dist_at s v)
    \<and> prev_at (dijkstra_fill src vs s) v = (if v \<in> set vs \<and> v \<noteq> src then no_segment else prev_at s v)
    \<and> set (dj_q (dijkstra_fill src vs s)) = set (dj_q s) \<union> {(w, INT_MAX) | w. w \<in> set vs \<and> w \<noteq> src}"
  using assms
proof (induction vs arbitrary: s)
  case (Cons w vs)
  let ?s = "s\<lparr>dj_q := dj_q s @ [(w, INT_MAX)], dj_dist := smap_put w INT_MAX (dj_dist s), dj_prev := smap_put w no_segment (dj_prev s)\<rparr>"
  have put: "maps_ok ?s" "dist_at ?s v = (if v = w then INT_MAX else dist_at s v)" "prev_at ?s v = (if v = w then no_segment else prev_at s v)"
    using Cons.prems by (simp_all add: maps_ok_def smap_put_wf dist_at_def prev_at_def smap_get_put)
  show ?case
  proof (cases "w = src")
    case True
    then show ?thesis using Cons by auto
  next
    case False
    then show ?thesis using Cons.IH [OF put(1)] put(2,3) by auto
  qed
qed simp

lemma keys_vertices: "smap_wf (gr_verticies g) \<Longrightarrow> set (map fst (gr_verticies g)) = vertices g"
proof -
  assume wf: "smap_wf (gr_verticies g)"
  show "set (map fst (gr_verticies g)) = vertices g"
  proof (intro equalityI subsetI)
    fix v assume "v \<in> set (map fst (gr_verticies g))"
    then obtain l where "(v, l) \<in> set (gr_verticies g)" by auto
    then show "v \<in> vertices g" using entry_iff [OF wf] by blast
  next
    fix v assume "v \<in> vertices g"
    then have "(v, mibs g v) \<in> set (gr_verticies g)" using entry_iff [OF wf] by blast
    then show "v \<in> set (map fst (gr_verticies g))" by force
  qed
qed

lemma searching_init:
  assumes g: "searchable g" and src: "src \<in> vertices g"
  shows "searching g src (dijkstra_init g src)"
proof -
  let ?blank = "\<lparr>dj_q = [], dj_dist = [], dj_prev = [], dj_visited = []\<rparr>" and ?s = "dijkstra_init g src"
  have keys: "set (map fst (gr_verticies g)) = vertices g" using keys_vertices graph_invD(1) g by (simp add: searchable_def)
  have "maps_ok ?blank" by (simp add: maps_ok_def)
  note f = dijkstra_fill_spec [OF this, of src "map fst (gr_verticies g)", unfolded keys]
  have d: "dist_at ?s v = (if v \<in> vertices g \<and> v \<noteq> src then INT_MAX else 0)" for v
    using f [of v] by (simp add: dijkstra_init_def dist_at_def Let_def)
  have p: "v \<in> vertices g \<Longrightarrow> prev_at ?s v = no_segment" for v
    using f [of v] by (auto simp: dijkstra_init_def prev_at_def Let_def maps_ok_def smap_get_put)
  have q: "set (dj_q ?s) = insert (src, 0) {(w, INT_MAX) | w. w \<in> vertices g \<and> w \<noteq> src}"
    using f by (auto simp: dijkstra_init_def Let_def)
  have W: "visited_set ?s = {}" using f by (simp add: dijkstra_init_def visited_set_def Let_def)
  have "maps_ok (dijkstra_fill src (map fst (gr_verticies g)) ?blank)" using f by blast
  then have "maps_ok ?s" by (simp add: dijkstra_init_def Let_def maps_ok_def smap_put_wf)
  moreover have "search_inv g src {} None [] ?s"
    unfolding search_ok_def using src
    by (auto simp: d p q in_range_def rank_of_def reached_def parent_ok_def no_segment_def)
  moreover have "phases_ok (vertices g) {} (dist_at ?s)" by (auto simp: phases_ok_def d split: if_splits)
  ultimately show ?thesis by (simp add: searching_def W)
qed

subsection \<open>Routes\<close>

text \<open>A list of segments leads from one vertex to another.\<close>

fun is_route :: "lldp_graph \<Rightarrow> chassis \<Rightarrow> chassis \<Rightarrow> path_segment list \<Rightarrow> bool" where
  "is_route g a b [] \<longleftrightarrow> a = b"
| "is_route g a b (p # r) \<longleftrightarrow>
     ps_chassisId p = a \<and> list_ex (\<lambda>e. mib_srcPort e = ps_outport p \<and> is_route g (mib_dstID e) b r) (mibs g a)"

definition shortest_route :: "lldp_graph \<Rightarrow> chassis \<Rightarrow> chassis \<Rightarrow> path_segment list \<Rightarrow> bool" where
  "shortest_route g a b r \<longleftrightarrow> is_route g a b r \<and> (\<forall>r'. is_route g a b r' \<longrightarrow> length r \<le> length r')"

lemma rank_nonneg: "in_range d \<Longrightarrow> 0 \<le> rank_of d"
  by (simp add: rank_of_def in_range_def reached_def)

lemma back_track_ok:
  assumes g: "searchable g" and src: "src \<in> vertices g" and dst: "dst \<in> vertices g"
    and s: "searching g src s" and all: "visited_set s = vertices g"
  shows "\<exists>trg r. back_track s dst = Some (trg, r)
    \<and> (if reached (dist_at s dst) then trg = src \<and> is_route g src dst r \<and> int (length r) = dist_at s dst else trg \<noteq> src)"
proof -
  let ?V = "vertices g" and ?d = "dist_at s"
  let ?b = "\<lambda>(trg, r). ps_chassisId (prev_at s trg) \<noteq> None"
  let ?c = "\<lambda>(trg, r). (ps_chassisId (prev_at s trg), \<lparr>ps_chassisId = ps_chassisId (prev_at s trg), ps_outport = ps_outport (prev_at s trg)\<rparr> # r)"
  let ?P = "\<lambda>(trg, r). trg \<in> ?V \<and> is_route g trg dst r \<and> reached (?d trg) = reached (?d dst) \<and> rank_of (?d trg) + int (length r) = rank_of (?d dst)"
  have inv: "search_inv g src ?V None [] s" using s all by (simp add: searching_def)
  note o = search_okD [OF inv]
  have step: "?P (?c x) \<and> nat (rank_of (?d (fst (?c x)))) < nat (rank_of (?d (fst x)))" if x: "?P x" "?b x" for x
  proof (cases x)
    case (Pair trg r)
    with x have t: "trg \<in> ?V" "is_route g trg dst r" "reached (?d trg) = reached (?d dst)"
      "rank_of (?d trg) + int (length r) = rank_of (?d dst)" "ps_chassisId (prev_at s trg) \<noteq> None" by auto
    from o(5) [OF t(1)] t(5) have p: "ps_chassisId (prev_at s trg) \<in> ?V"
      "\<exists>e \<in> set (mibs g (ps_chassisId (prev_at s trg))). mib_srcPort e = ps_outport (prev_at s trg) \<and> mib_dstID e = trg"
      "reached (?d (ps_chassisId (prev_at s trg))) = reached (?d trg)" "rank_of (?d trg) = rank_of (?d (ps_chassisId (prev_at s trg))) + 1"
      by (auto simp: parent_ok_def)
    have "is_route g (ps_chassisId (prev_at s trg)) dst
        (\<lparr>ps_chassisId = ps_chassisId (prev_at s trg), ps_outport = ps_outport (prev_at s trg)\<rparr> # r)"
      using p(2) t(2) by (auto simp: list_ex_iff)
    then show ?thesis using t(3,4) p(1,3,4) rank_nonneg [OF o(3) [OF p(1)]] by (simp add: Pair)
  qed
  have start: "?P (dst, [])" using dst by simp
  have "\<exists>t. while_option ?b ?c (dst, []) = Some t"
    by (rule measure_while_option_Some [where P = ?P and f = "\<lambda>x. nat (rank_of (?d (fst x)))", OF step start])
  then obtain trg r where w: "while_option ?b ?c (dst, []) = Some (trg, r)" by auto
  have "?P (trg, r)" by (rule while_option_rule [OF step [THEN conjunct1] w start])
  moreover have "ps_chassisId (prev_at s trg) = None" using while_option_stop [OF w] by simp
  ultimately have stop: "trg \<in> ?V" "is_route g trg dst r" "reached (?d trg) = reached (?d dst)"
    "rank_of (?d trg) + int (length r) = rank_of (?d dst)" "trg = src \<or> \<not> reached (?d trg)"
    using o(5) [of trg] by (auto simp: parent_ok_def)
  have "reached (?d src)" "rank_of (?d src) = 0" using o(2) by (simp_all add: reached_def rank_of_def)
  then show ?thesis using stop w by (auto simp: back_track_def rank_of_def)
qed

lemma route_reached:
  assumes "searching g src s" and "visited_set s = vertices g" and "is_route g a b r" and "a \<in> vertices g" and "reached (dist_at s a)"
  shows "reached (dist_at s b) \<and> dist_at s b \<le> dist_at s a + int (length r)"
  using assms(3-5)
proof (induction r arbitrary: a)
  case (Cons p r)
  from Cons.prems(1) obtain e where e: "e \<in> set (mibs g a)" "is_route g (mib_dstID e) b r" by (auto simp: list_ex_iff)
  have inv: "search_inv g src (vertices g) None [] s" using assms(1,2) by (simp add: searching_def)
  from search_okD(6) [OF inv Cons.prems(2,3) e(1)] have n: "reached (dist_at s (mib_dstID e))" "dist_at s (mib_dstID e) \<le> dist_at s a + 1" by auto
  show ?case
  proof (cases "mib_dstID e \<in> vertices g")
    case True
    then show ?thesis using Cons.IH [OF e(2) True n(1)] n(2) by auto
  next
    case False
    then have "mibs g (mib_dstID e) = []" by (simp add: vertices_def mibs_def)
    then have "r = [] \<and> mib_dstID e = b" using e(2) by (cases r) auto
    then show ?thesis using n by simp
  qed
qed simp

context priority_queue
begin

lemma find_route_correct:
  assumes g: "searchable g" and src: "src \<in> vertices g" and dst: "dst \<in> vertices g"
  shows "(\<exists>r. find_route pick g src dst = Some (Some r) \<and> shortest_route g src dst r)
    \<or> (find_route pick g src dst = Some None \<and> (\<forall>r. \<not> is_route g src dst r))"
proof -
  from search_ends [OF g src searching_init [OF g src]] obtain t where
    t: "dijkstra_search pick g (dijkstra_init g src) = Some t" "searching g src t" "dj_q t = []" by blast
  have inv: "search_inv g src (visited_set t) None [] t" using t(2) by (simp add: searching_def)
  have all: "visited_set t = vertices g" using search_okD(1,8) [OF inv] t(3) by fastforce
  have "dist_at t src = 0" using search_okD(2) [OF inv] .
  then have least: "is_route g src dst r \<Longrightarrow> reached (dist_at t dst) \<and> dist_at t dst \<le> int (length r)" for r
    using route_reached [OF t(2) all _ src, of dst r] by (simp add: reached_def)
  from back_track_ok [OF g src dst t(2) all] obtain trg r where b: "back_track t dst = Some (trg, r)"
    "if reached (dist_at t dst) then trg = src \<and> is_route g src dst r \<and> int (length r) = dist_at t dst else trg \<noteq> src" by blast
  show ?thesis
  proof (cases "reached (dist_at t dst)")
    case True
    then have "shortest_route g src dst r" using b(2) least by (fastforce simp: shortest_route_def)
    then show ?thesis using True b t(1) by (simp add: find_route_def)
  next
    case False
    then show ?thesis using b t(1) least by (auto simp: find_route_def)
  qed
qed

end

subsection \<open>The application\<close>

record lldp_forwarding = learning_app +
  fw_dropIfNoRouteFound :: bool
  fw_ignoreArpRequests :: bool
  fw_version :: int
  fw_versionHit :: int
  fw_versionMiss :: int
  fw_cacheHit :: int
  fw_cacheMiss :: int
  fw_idleTimeout :: int
  fw_hardTimeout :: int
  fw_routeCache :: "(chassis \<times> chassis, path_segment list) smap"

text \<open>The hit or miss of the version; a miss empties the cache.\<close>

definition check_version :: "lldp_graph \<Rightarrow> 'a lldp_forwarding_scheme \<Rightarrow> 'a lldp_forwarding_scheme" where
  "check_version g s =
     (if gr_version g = fw_version s then s\<lparr>fw_versionHit := fw_versionHit s + 1\<rparr>
      else s\<lparr>fw_versionMiss := fw_versionMiss s + 1, fw_routeCache := [], fw_version := gr_version g\<rparr>)"

definition note_miss :: "bool \<Rightarrow> 'a lldp_forwarding_scheme \<Rightarrow> 'a lldp_forwarding_scheme" where
  "note_miss hit s = (if hit then s\<lparr>fw_cacheMiss := fw_cacheMiss s + 1\<rparr> else s)"

text \<open>A route that is not in the cache; \<open>None\<close> stands for a search that does not return.\<close>

definition search_path :: "((chassis \<times> int) list \<Rightarrow> chassis \<times> int) \<Rightarrow> chassis \<Rightarrow> chassis \<Rightarrow> lldp_graph
    \<Rightarrow> 'a lldp_forwarding_scheme \<Rightarrow> ('a lldp_forwarding_scheme \<times> path_segment list) option" where
  "search_path pick src dst g s =
     (if smap_get src (gr_verticies g) = None \<or> smap_get dst (gr_verticies g) = None then Some (s, [])
      else case find_route pick g src dst of
             None \<Rightarrow> None
           | Some None \<Rightarrow> Some (s, [])
           | Some (Some r) \<Rightarrow> Some (s\<lparr>fw_routeCache := smap_put (src, dst) r (fw_routeCache s)\<rparr>, r))"

text \<open>\<open>computePath\<close>; the graph belongs to the agent.\<close>

definition computePath :: "((chassis \<times> int) list \<Rightarrow> chassis \<times> int) \<Rightarrow> simtime \<Rightarrow> chassis \<Rightarrow> chassis \<Rightarrow> lldp_graph
    \<Rightarrow> 'a lldp_forwarding_scheme \<Rightarrow> (lldp_graph \<times> 'a lldp_forwarding_scheme \<times> path_segment list) option res" where
  "computePath pick now src dst g0 s =
     rbind (removeExpiredEntries now g0) (\<lambda>g.
       let hit = (gr_version g = fw_version s); s1 = check_version g s in
       Inr (case (if hit then smap_get (src, dst) (fw_routeCache s1) else None) of
              Some r \<Rightarrow> Some (g, s1\<lparr>fw_cacheHit := fw_cacheHit s1 + 1\<rparr>, r)
            | None \<Rightarrow> map_option (\<lambda>(s2, r). (g, s2, r)) (search_path pick src dst g (note_miss hit s1))))"

subsection \<open>The cache\<close>

definition hop :: "lldp_mib \<Rightarrow> int \<times> chassis" where
  "hop e = (mib_srcPort e, mib_dstID e)"

definition same_hops :: "lldp_graph \<Rightarrow> lldp_graph \<Rightarrow> bool" where
  "same_hops g g' \<longleftrightarrow> (\<forall>v. map hop (mibs g v) = map hop (mibs g' v))"

lemma same_hops_refl [simp]: "same_hops g g"
  by (simp add: same_hops_def)

lemma same_hops_trans: "same_hops g g1 \<Longrightarrow> same_hops g1 g2 \<Longrightarrow> same_hops g g2"
  by (simp add: same_hops_def)

lemma same_hops_route: "same_hops g g' \<Longrightarrow> is_route g a b r = is_route g' a b r"
proof (induction r arbitrary: a)
  case (Cons p r)
  have ex: "list_ex (\<lambda>e. mib_srcPort e = ps_outport p \<and> is_route h (mib_dstID e) b r) l
      = list_ex (\<lambda>(q, v). q = ps_outport p \<and> is_route h v b r) (map hop l)" for h l
    by (induction l) (simp_all add: hop_def)
  have "map hop (mibs g a) = map hop (mibs g' a)" using Cons.prems by (simp add: same_hops_def)
  then show ?case using Cons by (simp add: ex)
qed simp

lemma same_hops_shortest: "same_hops g g' \<Longrightarrow> shortest_route g a b r = shortest_route g' a b r"
  by (simp add: shortest_route_def same_hops_route)

text \<open>The version tells whether the routes may have changed.\<close>

lemma enter_mib_version:
  assumes "smap_wf (gr_verticies g)"
  shows "gr_version (enter_mib m g) = gr_version g \<and> same_hops g (enter_mib m g) \<or> gr_version (enter_mib m g) > gr_version g"
proof (cases "smap_get (mib_srcID m) (gr_verticies g)")
  case (Some l)
  show ?thesis
  proof (cases "find_idx (\<lambda>e. mib_eq e m) l")
    case (Some i)
    with \<open>smap_get (mib_srcID m) (gr_verticies g) = Some l\<close> find_idx_Some(1) [OF Some] have
      "map hop (enter_list m (mibs g (mib_srcID m))) = map hop (mibs g (mib_srcID m))"
      by (simp add: mibs_def enter_list_def map_update hop_def list_update_same_conv)
    then have "same_hops g (enter_mib m g)" using enter_mib_spec(2) [OF assms] by (simp add: same_hops_def)
    then show ?thesis using Some \<open>smap_get (mib_srcID m) (gr_verticies g) = Some l\<close> by (simp add: enter_mib_def)
  next
    case None
    then show ?thesis using Some by (simp add: enter_mib_def)
  qed
qed (simp add: enter_mib_def)

lemma addEntry_version:
  assumes "smap_wf (gr_verticies g)"
  shows "(let g' = snd (addEntry_lldp now src sp dst dp t g)
          in gr_version g' = gr_version g \<and> same_hops g g' \<or> gr_version g' > gr_version g)"
proof -
  let ?m = "lldp_mib_of sp dp src dst (now + t)" and ?m' = "lldp_mib_of dp sp dst src (now + t)"
  from enter_mib_version [OF assms, of ?m] enter_mib_version [OF enter_mib_spec(1) [OF assms], of ?m' ?m]
  show ?thesis by (auto simp: addEntry_lldp_def Let_def dest: same_hops_trans)
qed

lemma edge_count_filter:
  "edge_count (map (\<lambda>(v, l). (v, filter P l)) vs) \<le> edge_count vs
    \<and> (edge_count (map (\<lambda>(v, l). (v, filter P l)) vs) = edge_count vs \<longrightarrow> map (\<lambda>(v, l). (v, filter P l)) vs = vs)"
proof (induction vs)
  case (Cons x vs)
  obtain v l where x: "x = (v, l)" by force
  have "length (filter P l) \<le> length l" "filter P l = l \<or> length (filter P l) < length l"
    using length_filter_less [of _ l P] by (auto simp: filter_id_conv)
  with Cons show ?case by (auto simp: edge_count_def x)
qed (simp add: edge_count_def)

lemma removeExpired_version:
  assumes "removeExpiredEntries now g = Inr g'"
  shows "gr_version g' = gr_version g \<and> same_hops g g' \<or> gr_version g' > gr_version g"
proof -
  from assms have vs: "gr_verticies g' = map (\<lambda>(v, l). (v, filter (alive now) l)) (gr_verticies g)"
    and ver: "gr_version g' = gr_version g + (edge_count (gr_verticies g) - edge_count (gr_verticies g'))"
    by (auto simp: removeExpiredEntries_def rbind_Inr_iff expire_loop_spec Let_def split: if_splits)
  show ?thesis
  proof (cases "gr_verticies g' = gr_verticies g")
    case True
    then show ?thesis using ver by (simp add: same_hops_def mibs_def)
  next
    case False
    then show ?thesis using edge_count_filter [of "alive now" "gr_verticies g", folded vs] ver by auto
  qed
qed

definition cache_ok :: "lldp_graph \<Rightarrow> 'a lldp_forwarding_scheme \<Rightarrow> bool" where
  "cache_ok g s \<longleftrightarrow> smap_wf (fw_routeCache s) \<and> fw_version s \<le> gr_version g
     \<and> (fw_version s = gr_version g \<longrightarrow> (\<forall>a b r. smap_get (a, b) (fw_routeCache s) = Some r \<longrightarrow> shortest_route g a b r))"

lemma cache_ok_graph:
  assumes "cache_ok g s" and "gr_version g' = gr_version g \<and> same_hops g g' \<or> gr_version g' > gr_version g"
  shows "cache_ok g' s"
  using assms same_hops_shortest [of g g'] by (auto simp: cache_ok_def)

subsection \<open>The answers of the application\<close>

text \<open>What a caller of \<open>computePath\<close> may rely on.\<close>

definition route_answer :: "lldp_graph \<Rightarrow> chassis \<Rightarrow> chassis \<Rightarrow> path_segment list \<Rightarrow> bool" where
  "route_answer g a b r \<longleftrightarrow> shortest_route g a b r \<or> (r = [] \<and> (\<forall>r'. \<not> is_route g a b r'))"

lemma route_ends:
  assumes inv: "graph_inv g" and "is_route g a b r" and "r \<noteq> []"
  shows "a \<in> vertices g" and "b \<in> vertices g"
proof -
  have ends: "r \<noteq> [] \<Longrightarrow> is_route g a b r \<Longrightarrow> a \<in> vertices g \<and> b \<in> vertices g" for a
  proof (induction r arbitrary: a)
    case (Cons p r)
    then obtain e where e: "e \<in> set (mibs g a)" "is_route g (mib_dstID e) b r" by (auto simp: list_ex_iff)
    have "a \<in> vertices g" using e(1) by (cases "smap_get a (gr_verticies g)") (simp_all add: vertices_def mibs_def)
    moreover have "mib_dstID e \<in> vertices g" using graph_invD(5) [OF inv e(1)] .
    ultimately show ?case using e(2) Cons.IH [of "mib_dstID e"] by (cases "r = []") auto
  qed simp
  from ends assms(2,3) show "a \<in> vertices g" "b \<in> vertices g" by blast+
qed

text \<open>What \<open>computePath\<close> leaves alone.\<close>

definition same_app :: "'a lldp_forwarding_scheme \<Rightarrow> 'a lldp_forwarding_scheme \<Rightarrow> bool" where
  "same_app s s' \<longleftrightarrow> oc_switchesList s = oc_switchesList s' \<and> fw_idleTimeout s = fw_idleTimeout s' \<and> fw_hardTimeout s = fw_hardTimeout s' \<and> la_priority s = la_priority s'
     \<and> fw_dropIfNoRouteFound s = fw_dropIfNoRouteFound s' \<and> fw_ignoreArpRequests s = fw_ignoreArpRequests s'
     \<and> la_numFlowMod s = la_numFlowMod s' \<and> la_numPacketOut s = la_numPacketOut s'"

lemma searchable_expire:
  assumes "removeExpiredEntries now g = Inr g'" and "searchable g"
  shows "searchable g'"
proof -
  have inv: "graph_inv g" using assms(2) by (simp add: searchable_def)
  from removeExpired_spec(2,3) [OF assms(1) graph_invD(1) [OF inv]] removeExpired_inv [OF assms(1) inv] assms(2)
  show ?thesis by (auto simp: searchable_def)
qed

context priority_queue
begin

lemma search_path_ok:
  assumes g: "searchable g" and c: "cache_ok g s" "fw_version s = gr_version g"
  shows "\<exists>s' r. search_path pick a b g s = Some (s', r) \<and> route_answer g a b r \<and> cache_ok g s'"
proof (cases "a \<in> vertices g \<and> b \<in> vertices g")
  case False
  have inv: "graph_inv g" using g by (simp add: searchable_def)
  have only: "is_route g a b r \<Longrightarrow> r = []" for r using False route_ends [OF inv] by blast
  have "route_answer g a b []"
  proof (cases "a = b")
    case True
    then show ?thesis by (simp add: route_answer_def shortest_route_def)
  next
    case ab: False
    then have "\<not> is_route g a b r" for r using only [of r] by auto
    then show ?thesis by (simp add: route_answer_def)
  qed
  moreover have "search_path pick a b g s = Some (s, [])" using False by (auto simp: search_path_def vertices_def)
  ultimately show ?thesis using c by simp
next
  case True
  then have eq: "search_path pick a b g s = (case find_route pick g a b of None \<Rightarrow> None | Some None \<Rightarrow> Some (s, [])
      | Some (Some r) \<Rightarrow> Some (s\<lparr>fw_routeCache := smap_put (a, b) r (fw_routeCache s)\<rparr>, r))" by (auto simp: search_path_def vertices_def)
  from find_route_correct [OF g conjunct1 [OF True] conjunct2 [OF True]] show ?thesis
  proof (elim disjE exE conjE)
    fix r assume r: "find_route pick g a b = Some (Some r)" "shortest_route g a b r"
    then have "cache_ok g (s\<lparr>fw_routeCache := smap_put (a, b) r (fw_routeCache s)\<rparr>)"
      using c by (auto simp: cache_ok_def smap_put_wf smap_get_put split: if_splits)
    then show ?thesis using r by (simp add: eq route_answer_def)
  next
    assume "find_route pick g a b = Some None" "\<forall>r. \<not> is_route g a b r"
    then show ?thesis using c by (simp add: eq route_answer_def)
  qed
qed

lemma computePath_ok:
  assumes run: "removeExpiredEntries now g0 = Inr g" and "searchable g0" and "cache_ok g0 s"
  shows "\<exists>s' r. computePath pick now a b g0 s = Inr (Some (g, s', r)) \<and> route_answer g a b r \<and> cache_ok g s'"
proof -
  let ?s1 = "check_version g s" and ?hit = "gr_version g = fw_version s"
  have g: "searchable g" using searchable_expire [OF run assms(2)] .
  have c: "cache_ok g s" using cache_ok_graph [OF assms(3) removeExpired_version [OF run]] .
  have c1: "cache_ok g ?s1" "fw_version ?s1 = gr_version g" using c by (auto simp: cache_ok_def check_version_def)
  have miss: "cache_ok g (note_miss ?hit ?s1)" "fw_version (note_miss ?hit ?s1) = gr_version g"
    using c1 by (simp_all add: note_miss_def cache_ok_def)
  show ?thesis
  proof (cases "if ?hit then smap_get (a, b) (fw_routeCache ?s1) else None")
    case (Some r)
    then have "shortest_route g a b r" using c1 by (simp add: cache_ok_def split: if_splits)
    moreover have "cache_ok g (?s1\<lparr>fw_cacheHit := fw_cacheHit ?s1 + 1\<rparr>)" using c1 by (simp add: cache_ok_def)
    ultimately show ?thesis using Some by (auto simp: computePath_def run Let_def route_answer_def)
  next
    case None
    from search_path_ok [OF g miss, of a b] obtain s' r where
      "search_path pick a b g (note_miss ?hit ?s1) = Some (s', r)" "route_answer g a b r" "cache_ok g s'" by blast
    with None show ?thesis by (auto simp: computePath_def run Let_def)
  qed
qed

end

lemma same_app_trans: "same_app s s1 \<Longrightarrow> same_app s1 s2 \<Longrightarrow> same_app s s2"
  by (simp add: same_app_def)

lemma same_app_simps [simp]:
  "same_app s s" "same_app s (check_version g s)" "same_app s (note_miss hit s)" "same_app s (s\<lparr>fw_cacheHit := n\<rparr>)"
  "same_app s (s\<lparr>fw_routeCache := c\<rparr>)"
  by (simp_all add: same_app_def check_version_def note_miss_def)

lemma computePath_same:
  assumes "computePath pick now a b g0 s = Inr (Some (g, s', r))"
  shows "same_app s s'"
proof -
  obtain g1 where run: "removeExpiredEntries now g0 = Inr g1" using assms by (auto simp: computePath_def rbind_Inr_iff)
  let ?s1 = "check_version g1 s"
  have search: "search_path pick a b g1 t = Some (s', r) \<Longrightarrow> same_app t s'" for t
    by (auto simp: search_path_def split: if_splits option.splits)
  have "same_app ?s1 s'"
  proof (cases "if gr_version g1 = fw_version s then smap_get (a, b) (fw_routeCache ?s1) else None")
    case (Some r')
    then show ?thesis using assms by (auto simp: computePath_def run Let_def)
  next
    case None
    then have "search_path pick a b g1 (note_miss (gr_version g1 = fw_version s) ?s1) = Some (s', r)"
      using assms by (auto simp: computePath_def run Let_def)
    from same_app_trans [OF _ search [OF this]] show ?thesis by simp
  qed
  from same_app_trans [OF same_app_simps(2) this] show ?thesis .
qed

subsection \<open>Runs\<close>

text \<open>What happens to the graph and what callers ask for, in any order; the answers are listed with their graphs.\<close>

datatype route_op =
    Topology graph_op
  | FindPath simtime chassis chassis

fun route_run :: "((chassis \<times> int) list \<Rightarrow> chassis \<times> int) \<Rightarrow> route_op list \<Rightarrow> lldp_graph \<Rightarrow> 'a lldp_forwarding_scheme
    \<Rightarrow> (lldp_graph \<times> chassis \<times> chassis \<times> path_segment list) list option res" where
  "route_run pick [] g s = Inr (Some [])"
| "route_run pick (Topology op # ops) g s = rbind (graph_run [op] g) (\<lambda>g'. route_run pick ops g' s)"
| "route_run pick (FindPath now a b # ops) g s =
     rbind (computePath pick now a b g s) (\<lambda>res.
       case res of
         None \<Rightarrow> Inr None
       | Some (g', s', r) \<Rightarrow> rbind (route_run pick ops g' s') (\<lambda>rs. Inr (map_option (\<lambda>l. (g', a, b, r) # l) rs)))"

definition proper_link :: "graph_op \<Rightarrow> bool" where
  "proper_link op \<longleftrightarrow> (case op of AddEntry now src sp dst dp t \<Rightarrow> src \<noteq> dst \<and> src \<noteq> None \<and> dst \<noteq> None | RemoveExpired now \<Rightarrow> True)"

text \<open>The graph without the bound on its size.\<close>

definition plain_graph :: "lldp_graph \<Rightarrow> bool" where
  "plain_graph g \<longleftrightarrow> graph_inv g \<and> None \<notin> vertices g \<and> (\<forall>v. \<forall>e \<in> set (mibs g v). mib_dstID e \<noteq> v)"

lemma enter_list_dsts:
  assumes "one_each l" and "e \<in> set (enter_list m l)"
  shows "mib_dstID e = mib_dstID m \<or> (\<exists>e' \<in> set l. mib_dstID e = mib_dstID e')"
proof -
  from enter_list_cases [OF assms(1), of m] obtain x where
    "set (enter_list m l) = {e \<in> set l. \<not> mib_eq e m} \<union> {x}" "x = m \<or> (\<exists>e \<in> set l. mib_eq e m \<and> x = e\<lparr>mib_expiresAt := mib_expiresAt m\<rparr>)"
    by blast
  with assms(2) show ?thesis by auto
qed

lemma enter_mib_dsts:
  assumes "smap_wf (gr_verticies g)" and "\<forall>v. one_each (mibs g v)" and "mib_srcID m \<noteq> mib_dstID m" and "\<forall>v. \<forall>e \<in> set (mibs g v). mib_dstID e \<noteq> v"
  shows "\<forall>v. one_each (mibs (enter_mib m g) v)" and "\<forall>v. \<forall>e \<in> set (mibs (enter_mib m g) v). mib_dstID e \<noteq> v"
proof -
  note spec = enter_mib_spec(2) [OF assms(1)]
  show "\<forall>v. one_each (mibs (enter_mib m g) v)"
    using spec assms(2) enter_list_cases by metis
  show "\<forall>v. \<forall>e \<in> set (mibs (enter_mib m g) v). mib_dstID e \<noteq> v"
  proof (intro allI ballI)
    fix v e assume "e \<in> set (mibs (enter_mib m g) v)"
    then show "mib_dstID e \<noteq> v"
      using spec [of m v] assms(3,4) enter_list_dsts [of "mibs g v" e m] assms(2) by (cases "v = mib_srcID m") fastforce+
  qed
qed

lemma graph_step_ok:
  assumes "graph_run [op] g = Inr g'" and "plain_graph g" and "proper_link op"
  shows "plain_graph g'" and "card (vertices g') \<le> card (vertices g) + 2"
    and "gr_version g' = gr_version g \<and> same_hops g g' \<or> gr_version g' > gr_version g"
proof -
  have inv: "graph_inv g" using assms(2) by (simp add: plain_graph_def)
  note i = graph_invD [OF inv]
  have "plain_graph g' \<and> card (vertices g') \<le> card (vertices g) + 2
      \<and> (gr_version g' = gr_version g \<and> same_hops g g' \<or> gr_version g' > gr_version g)"
  proof (cases op)
    case (RemoveExpired now)
    then have run: "removeExpiredEntries now g = Inr g'" using assms(1) by (auto simp: rbind_Inr_iff)
    from removeExpired_spec(2,3) [OF run i(1)] removeExpired_inv [OF run inv] assms(2) removeExpired_version [OF run]
    show ?thesis by (auto simp: plain_graph_def)
  next
    case (AddEntry now src sp dst dp t)
    let ?m = "lldp_mib_of sp dp src dst (now + t)" and ?m' = "lldp_mib_of dp sp dst src (now + t)"
    have g': "g' = snd (addEntry_lldp now src sp dst dp t g)" using assms(1) AddEntry by simp
    have ends: "src \<noteq> dst" "src \<noteq> None" "dst \<noteq> None" using assms(3) AddEntry by (simp_all add: proper_link_def)
    have loops: "\<forall>v. \<forall>e \<in> set (mibs g v). mib_dstID e \<noteq> v" and each: "\<forall>v. one_each (mibs g v)"
      using assms(2) i(3) by (simp_all add: plain_graph_def)
    note w1 = enter_mib_spec [OF i(1), of ?m]
    note d1 = enter_mib_dsts [OF i(1) each _ loops, of ?m]
    note d2 = enter_mib_dsts(2) [OF w1(1) d1(1) _ d1(2), of ?m']
    have verts: "vertices g' \<subseteq> {src, dst} \<union> vertices g"
      using w1(3) enter_mib_spec(3) [OF w1(1), of ?m'] by (auto simp: g' addEntry_lldp_def)
    have "\<forall>v. \<forall>e \<in> set (mibs g' v). mib_dstID e \<noteq> v" using d2 ends loops by (simp add: g' addEntry_lldp_def)
    moreover have "None \<notin> vertices g'" using verts ends assms(2) by (auto simp: plain_graph_def)
    moreover have "card (vertices g') \<le> card ({src, dst} \<union> vertices g)" using verts finite_vertices [OF i(1)] by (simp add: card_mono)
    moreover have "card ({src, dst} \<union> vertices g) \<le> card (vertices g) + 2"
      using card_Un_le [of "{src, dst}" "vertices g"] card_insert_le_m1 [of 2 "{dst}" src] by simp
    ultimately show ?thesis
      using addEntry_lldp_inv [OF inv] addEntry_version [OF i(1), of now src sp dst dp t] by (simp add: plain_graph_def g' Let_def)
  qed
  then show "plain_graph g'" "card (vertices g') \<le> card (vertices g) + 2"
    "gr_version g' = gr_version g \<and> same_hops g g' \<or> gr_version g' > gr_version g" by blast+
qed

lemma plain_searchable: "plain_graph g \<Longrightarrow> int (card (vertices g)) < INT_MAX \<Longrightarrow> searchable g"
  by (simp add: plain_graph_def searchable_def)

definition proper_op :: "route_op \<Rightarrow> bool" where
  "proper_op op \<longleftrightarrow> (case op of Topology gop \<Rightarrow> proper_link gop | FindPath now a b \<Rightarrow> True)"

context priority_queue
begin

lemma route_run_ok:
  assumes "route_run pick ops g s = Inr res" and "list_all proper_op ops" and "plain_graph g" and "cache_ok g s"
    and "int (card (vertices g)) + 2 * int (length ops) < INT_MAX"
  shows "\<exists>rs. res = Some rs \<and> (\<forall>(g, a, b, r) \<in> set rs. route_answer g a b r)"
  using assms
proof (induction ops arbitrary: g s res)
  case (Cons op ops)
  show ?case
  proof (cases op)
    case (Topology gop)
    from Cons.prems(1) Topology obtain g' where g': "graph_run [gop] g = Inr g'" "route_run pick ops g' s = Inr res"
      by (auto simp: rbind_Inr_iff simp del: graph_run.simps)
    have "proper_link gop" using Cons.prems(2) Topology by (simp add: proper_op_def)
    note st = graph_step_ok [OF g'(1) Cons.prems(3) this]
    show ?thesis
      by (rule Cons.IH [OF g'(2) _ st(1) cache_ok_graph [OF Cons.prems(4) st(3)]]) (use Cons.prems(2,5) st(2) in auto)
  next
    case (FindPath now a b)
    from Cons.prems(1) FindPath obtain p where p: "computePath pick now a b g s = Inr p" by (auto simp: rbind_Inr_iff)
    then obtain g' where g': "removeExpiredEntries now g = Inr g'" by (auto simp: computePath_def rbind_Inr_iff)
    have "searchable g" using plain_searchable [OF Cons.prems(3)] Cons.prems(5) by simp
    from computePath_ok [OF g' this Cons.prems(4), of a b] p obtain s' r where
      r: "p = Some (g', s', r)" "route_answer g' a b r" "cache_ok g' s'" by auto
    from Cons.prems(1) FindPath p r(1) obtain rs where
      rs: "route_run pick ops g' s' = Inr rs" "res = map_option (\<lambda>l. (g', a, b, r) # l) rs" by (auto simp: rbind_Inr_iff)
    have "graph_run [RemoveExpired now] g = Inr g'" by (simp add: g')
    note st = graph_step_ok [OF this Cons.prems(3)]
    have "vertices g' = vertices g" using removeExpired_spec(3) [OF g'] Cons.prems(3) by (simp add: plain_graph_def graph_inv_def)
    then have "\<exists>l. rs = Some l \<and> (\<forall>(g, a, b, r) \<in> set l. route_answer g a b r)"
      by (intro Cons.IH [OF rs(1) _ _ r(3)]) (use Cons.prems(2,5) st(1) in \<open>auto simp: proper_link_def\<close>)
    then show ?thesis using rs(2) r(2) by auto
  qed
qed simp

end


subsection \<open>The queue\<close>

text \<open>A queue that takes the first of the least elements.\<close>

fun least_entry :: "(chassis \<times> int) list \<Rightarrow> chassis \<times> int" where
  "least_entry [] = (None, 0)"
| "least_entry [x] = x"
| "least_entry (x # y # xs) = (let m = least_entry (y # xs) in if snd x \<le> snd m then x else m)"

lemma least_entry_in: "q \<noteq> [] \<Longrightarrow> least_entry q \<in> set q"
  by (induction q rule: least_entry.induct) (auto simp: Let_def)

lemma least_entry_least: "x \<in> set q \<Longrightarrow> snd (least_entry q) \<le> snd x"
  by (induction q rule: least_entry.induct) (auto simp: Let_def)

interpretation queue: priority_queue least_entry
  by unfold_locales (simp_all add: least_entry_in least_entry_least)

subsection \<open>A packet at the controller\<close>

definition ARP_REQUEST :: int where
  "ARP_REQUEST = 1"

definition dst_match :: "mac \<Rightarrow> oxm_basic_match res" where
  "dst_match d = build_match [F_ETH_DST d] fresh_match"

definition rule_to :: "oxm_basic_match \<Rightarrow> path_segment \<Rightarrow> 'a lldp_forwarding_scheme \<Rightarrow> of_msg" where
  "rule_to m p s = OfFlowMod (createFlowMod OFPFC_ADD m (of_int (ps_outport p)) (la_priority s) (fw_idleTimeout s) (fw_hardTimeout s))"

text \<open>The rules for the other switches of the route, as far as they are connected to this controller.\<close>

fun route_rules :: "mac \<Rightarrow> path_segment list \<Rightarrow> 'a lldp_forwarding_scheme \<Rightarrow> ('a lldp_forwarding_scheme \<times> app_sending list) res" where
  "route_rules d [] s = Inr (s, [])"
| "route_rules d (p # r) s =
     rbind (dst_match d) (\<lambda>m.
       case findSocketForChassisId (ps_chassisId p) s of
         None \<Rightarrow> route_rules d r s
       | Some c \<Rightarrow>
           rbind (route_rules d r (s\<lparr>la_numFlowMod := la_numFlowMod s + 1\<rparr>)) (\<lambda>(s', out). Inr (s', (c, rule_to m p s) # out)))"

definition use_route :: "packet_in \<Rightarrow> header_fields \<Rightarrow> path_segment list \<Rightarrow> 'a lldp_forwarding_scheme
    \<Rightarrow> ('a lldp_forwarding_scheme \<times> app_sending list) res" where
  "use_route pkt hf route s =
     (case route of
        [] \<Rightarrow> if fw_dropIfNoRouteFound s \<and> hf_eth_type hf \<noteq> uint ETHERTYPE_ARP then dropPacket pkt s else floodPacket pkt s
      | p # r \<Rightarrow>
          rbind (sendPacket base_methods pkt (of_int (ps_outport p)) s) (\<lambda>(s1, out1).
          rbind (dst_match (hf_dst_mac hf)) (\<lambda>m.
          rbind (la_send pkt (rule_to m p s1) s1) (\<lambda>out2.
          rbind (route_rules (hf_dst_mac hf) r (s1\<lparr>la_numFlowMod := la_numFlowMod s1 + 1\<rparr>)) (\<lambda>(s2, out3).
            Inr (s2, out1 @ out2 @ out3))))))"

definition handlePacketIn_fwd :: "((chassis \<times> int) list \<Rightarrow> chassis \<times> int) \<Rightarrow> simtime \<Rightarrow> packet_in \<Rightarrow> lldp_graph
    \<Rightarrow> 'a lldp_forwarding_scheme \<Rightarrow> (lldp_graph \<times> 'a lldp_forwarding_scheme \<times> app_sending list) option res" where
  "handlePacketIn_fwd pick now pkt g s =
     rbind (extractCommonHeaderFields pkt s) (\<lambda>hf.
       if hf_eth_type hf = uint ETHERTYPE_LLDP then Inr (Some (g, s, []))
       else if fw_ignoreArpRequests s \<and> hf_eth_type hf = uint ETHERTYPE_ARP \<and> OFB_ARP_OP (pi_match pkt) = ARP_REQUEST
       then Inr (Some (g, s, []))
       else (case hf_swInfo hf of
               None \<Rightarrow> Inl (NullDeref ''swInfo'')
             | Some i \<Rightarrow>
                 rbind (computePath pick now (si_macAddress (oc_switchesList s ! i)) (Some (hf_dst_mac hf)) g s) (\<lambda>res.
                   case res of
                     None \<Rightarrow> Inr None
                   | Some (g', s', route) \<Rightarrow> rbind (use_route pkt hf route s') (\<lambda>(s'', out). Inr (Some (g', s'', out))))))"

definition to_station :: "mac \<Rightarrow> oxm_basic_match" where
  "to_station d = unwild OFPFW_DL_DST (fresh_match\<lparr>OFB_ETH_DST := d\<rparr>)"

lemma dst_match_eq: "dst_match d = Inr (to_station d)"
  by (simp add: dst_match_def to_station_def setField_def)

lemma route_rules_eq:
  assumes "oc_switchesList t = oc_switchesList s" and "la_priority t = la_priority s" and "fw_idleTimeout t = fw_idleTimeout s"
    and "fw_hardTimeout t = fw_hardTimeout s"
  shows "\<exists>t'. route_rules d r t = Inr (t', concat (map (\<lambda>p. case findSocketForChassisId (ps_chassisId p) s of
      None \<Rightarrow> [] | Some k \<Rightarrow> [(k, rule_to (to_station d) p s)]) r))"
  using assms
proof (induction r arbitrary: t)
  case (Cons p r)
  have socket: "findSocketForChassisId (ps_chassisId p) t = findSocketForChassisId (ps_chassisId p) s"
    and rule: "rule_to m p t = rule_to m p s" for m using Cons.prems by (simp_all add: findSocketForChassisId_def rule_to_def)
  show ?case
  proof (cases "findSocketForChassisId (ps_chassisId p) s")
    case None
    then show ?thesis using Cons.IH [OF Cons.prems] by (simp add: dst_match_eq socket)
  next
    case (Some c)
    from Cons.IH [of "t\<lparr>la_numFlowMod := la_numFlowMod t + 1\<rparr>"] Cons.prems show ?thesis
      by (auto simp: dst_match_eq socket Some rule)
  qed
qed simp

text \<open>
  C14: The rules of a packet follow a shortest route: when a switch reports a packet to a station that can be reached,
  the packet leaves the switch by the first hop of a shortest route, this switch gets the rule for the first hop
  and every other switch of the route that is connected to the controller the rule for its hop, all with the
  station as destination, and no other message is sent.
\<close>

theorem rules_follow_route:
  assumes "priority_queue pick" and "searchable g0" and "cache_ok g0 s" and "removeExpiredEntries now g0 = Inr g"
    and "extractCommonHeaderFields pkt s = Inr hf" and "hf_eth_type hf \<noteq> uint ETHERTYPE_LLDP"
    and "\<not> (fw_ignoreArpRequests s \<and> hf_eth_type hf = uint ETHERTYPE_ARP \<and> OFB_ARP_OP (pi_match pkt) = ARP_REQUEST)"
    and "hf_swInfo hf = Some i" and "si_macAddress (oc_switchesList s ! i) = a" and "findSocketFor (pi_conn pkt) s = Some c"
    and "\<exists>r0. is_route g a (Some (hf_dst_mac hf)) r0" and "a \<noteq> Some (hf_dst_mac hf)"
    and "createPacketOutFromPacketIn pkt 0 = Inr (OfPacketOut b inport [0] enc)"
  shows "\<exists>s' p r. shortest_route g a (Some (hf_dst_mac hf)) (p # r)
    \<and> handlePacketIn_fwd pick now pkt g0 s = Inr (Some (g, s',
        [(c, OfPacketOut b inport [of_int (ps_outport p)] enc), (c, rule_to (to_station (hf_dst_mac hf)) p s)]
        @ concat (map (\<lambda>q. case findSocketForChassisId (ps_chassisId q) s of
            None \<Rightarrow> [] | Some k \<Rightarrow> [(k, rule_to (to_station (hf_dst_mac hf)) q s)]) r)))"
proof -
  from priority_queue.computePath_ok [OF assms(1,4,2,3), of a "Some (hf_dst_mac hf)"] obtain s1 route where
    run: "computePath pick now a (Some (hf_dst_mac hf)) g0 s = Inr (Some (g, s1, route))" and "route_answer g a (Some (hf_dst_mac hf)) route" by blast
  with assms(11) have short: "shortest_route g a (Some (hf_dst_mac hf)) route" by (auto simp: route_answer_def)
  then obtain p r where route: "route = p # r" using assms(12) by (cases route) (auto simp: shortest_route_def)
  have out: "createPacketOutFromPacketIn pkt q = Inr (OfPacketOut b inport [q] enc)" for q
    using assms(13) by (auto simp: createPacketOutFromPacketIn_def split: if_splits option.splits encapsulated.splits)
  note same = computePath_same [OF run]
  let ?t = "s1\<lparr>la_numPacketOut := la_numPacketOut s1 + 1\<rparr>"
  have socket: "findSocketFor (pi_conn pkt) s1 = Some c" "findSocketFor (pi_conn pkt) ?t = Some c"
    using assms(10) same by (simp_all add: findSocketFor_def same_app_def)
  have rule: "rule_to m p ?t = rule_to m p s" for m using same by (simp add: rule_to_def same_app_def)
  obtain s2 where rest: "route_rules (hf_dst_mac hf) r (?t\<lparr>la_numFlowMod := la_numFlowMod ?t + 1\<rparr>)
      = Inr (s2, concat (map (\<lambda>q. case findSocketForChassisId (ps_chassisId q) s of
          None \<Rightarrow> [] | Some k \<Rightarrow> [(k, rule_to (to_station (hf_dst_mac hf)) q s)]) r))"
    using route_rules_eq [of "?t\<lparr>la_numFlowMod := la_numFlowMod ?t + 1\<rparr>" s "hf_dst_mac hf" r] same by (auto simp: same_app_def)
  have used: "use_route pkt hf (p # r) s1 = Inr (s2, [(c, OfPacketOut b inport [of_int (ps_outport p)] enc), (c, rule_to (to_station (hf_dst_mac hf)) p s)]
        @ concat (map (\<lambda>q. case findSocketForChassisId (ps_chassisId q) s of
            None \<Rightarrow> [] | Some k \<Rightarrow> [(k, rule_to (to_station (hf_dst_mac hf)) q s)]) r))"
    using rest by (simp add: use_route_def sendPacket_def base_methods_def out la_send_def socket dst_match_eq rule)
  have "handlePacketIn_fwd pick now pkt g0 s = rbind (use_route pkt hf route s1) (\<lambda>(s'', out). Inr (Some (g, s'', out)))"
    unfolding handlePacketIn_fwd_def assms(5) rbind_simps if_not_P [OF assms(6)] if_not_P [OF assms(7)] by (simp add: assms(8,9) run)
  then show ?thesis using short used by (auto simp: route)
qed

subsection \<open>Witnesses\<close>

definition example_fwd :: lldp_forwarding where
  "example_fwd = learning_app.extend (of_controller.extend (of_controller.truncate (empty_app\<lparr>oc_switchesList :=
       [example_sw\<lparr>si_macAddress := Some 1\<rparr>, example_sw\<lparr>si_connID := 2, si_socket := Some 2, si_macAddress := Some 2\<rparr>]\<rparr>))
       (learning_app.fields 1 0 0 0 0 0 0 [] [] [] [] 7))
     (lldp_forwarding.fields True False (-1) 0 0 0 0 1 0 [])"

lemma example_fwd_simps [simp]:
  "fw_version example_fwd = -1" "fw_routeCache example_fwd = []" "\<not> fw_ignoreArpRequests example_fwd"
  "oc_switchesList example_fwd = [example_sw\<lparr>si_macAddress := Some 1\<rparr>, example_sw\<lparr>si_connID := 2, si_socket := Some 2, si_macAddress := Some 2\<rparr>]"
  by (simp_all add: example_fwd_def learning_app.defs of_controller.defs lldp_forwarding.defs)

lemma example_route: "find_route least_entry example_graph (Some 1) (Some 9)
  = Some (Some [\<lparr>ps_chassisId = Some 1, ps_outport = 0\<rparr>, \<lparr>ps_chassisId = Some 2, ps_outport = 0\<rparr>])"
  by code_simp

lemma example_fresh: "removeExpiredEntries 5 example_graph = Inr example_graph"
  by (simp add: removeExpiredEntries_def example_graph_def edge_count_def)


theorem rules_follow_route_witness:
  "\<exists>s' p r. shortest_route example_graph (Some 1) (Some 9) (p # r)
    \<and> handlePacketIn_fwd least_entry 5 (mac_packet 5 9 1) example_graph example_fwd = Inr (Some (example_graph, s',
        [(1, OfPacketOut 3 1 [of_int (ps_outport p)] None), (1, rule_to (to_station 9) p example_fwd)]
        @ concat (map (\<lambda>q. case findSocketForChassisId (ps_chassisId q) example_fwd of
            None \<Rightarrow> [] | Some k \<Rightarrow> [(k, rule_to (to_station 9) q example_fwd)]) r)))"
proof -
  note defs = findSwitchInfoFor_def findSocketFor_def mac_packet_def extractCommonHeaderFields_def OFP_NO_BUFFER_def oxm_zero_def Let_def example_sw_def
  have v: "vertices example_graph = {Some 1, Some 2, Some 9}"
    using keys_vertices [of example_graph] example_graph_inv by (auto simp: graph_inv_def example_graph_def)
  have loops: "mib_dstID e \<noteq> u" if "e \<in> set (mibs example_graph u)" for u e
    using that by (auto simp: mibs_def example_graph_def split: if_splits)
  have s: "searchable example_graph" using v loops example_graph_inv by (auto simp: searchable_def)
  have c: "cache_ok example_graph example_fwd" by (simp add: cache_ok_def example_graph_def)
  have hf: "extractCommonHeaderFields (mac_packet 5 9 1) example_fwd = Inr \<lparr>hf_buffer_id = 3, hf_swInfo = Some 0, hf_inport = 1, hf_src_mac = 5,
      hf_dst_mac = 9, hf_eth_type = 0, hf_arp_src_adr = 0, hf_arp_dst_adr = 0, hf_arp_op = 0\<rparr>" by (simp add: defs)
  have po: "createPacketOutFromPacketIn (mac_packet 5 9 1) 0 = Inr (OfPacketOut 3 1 [0] None)" by (simp add: createPacketOutFromPacketIn_def defs)
  have socket: "findSocketFor (pi_conn (mac_packet 5 9 1)) example_fwd = Some 1" by (simp add: defs)
  have "is_route example_graph (Some 1) (Some 9) [\<lparr>ps_chassisId = Some 1, ps_outport = 0\<rparr>, \<lparr>ps_chassisId = Some 2, ps_outport = 0\<rparr>]"
    by (simp add: mibs_def example_graph_def)
  then have ex: "\<exists>r0. is_route example_graph (Some 1) (Some 9) r0" ..
  show ?thesis
    using rules_follow_route [OF queue.priority_queue_axioms s c example_fresh hf _ _ _ _ socket, of 0 "Some 1" 3 1 None, unfolded header_fields.select_convs] ex po
    by (simp add: ETHERTYPE_LLDP_def)
qed

subsection \<open>A cable from a switch to itself\<close>

lemma back_track_hangs:
  assumes "ps_chassisId (prev_at s v) = v" and "v \<noteq> None"
  shows "back_track s v = None"
proof (rule ccontr)
  let ?b = "\<lambda>(trg, r). ps_chassisId (prev_at s trg) \<noteq> None"
  let ?c = "\<lambda>(trg, r). (ps_chassisId (prev_at s trg), \<lparr>ps_chassisId = ps_chassisId (prev_at s trg), ps_outport = ps_outport (prev_at s trg)\<rparr> # r)"
  assume "back_track s v \<noteq> None"
  then obtain t where t: "while_option ?b ?c (v, []) = Some t" by (auto simp: back_track_def)
  have "fst t = v" by (rule while_option_rule [OF _ t]) (use assms(1) in auto)
  moreover have "\<not> ?b t" by (rule while_option_stop [OF t])
  ultimately show False using assms by (auto simp: split_beta)
qed

text \<open>Two ports of switch 5 are connected by a cable, and switch 5 is not connected to switch 1.\<close>

definition looped_links :: "graph_op list" where
  "looped_links = [AddEntry 1 (Some 1) 0 (Some 2) 1 10, AddEntry 1 (Some 5) 2 (Some 5) 3 10]"

definition looped_graph :: lldp_graph where
  "looped_graph =
     \<lparr>gr_verticies = [(Some 1, [lldp_mib_of 0 1 (Some 1) (Some 2) 11]), (Some 2, [lldp_mib_of 1 0 (Some 2) (Some 1) 11]),
        (Some 5, [lldp_mib_of 2 3 (Some 5) (Some 5) 11])],
      gr_numOfVerticies = 3, gr_numOfEdges = 3, gr_version = 3\<rparr>"

lemma looped_search: "map_option (\<lambda>s. prev_at s (Some 5)) (dijkstra_search least_entry looped_graph (dijkstra_init looped_graph (Some 1)))
  = Some \<lparr>ps_chassisId = Some 5, ps_outport = 2\<rparr>"
  by code_simp


end
