(* ===== verification/StreamFilter.thy ===== *)
theory StreamFilter
  imports GateControl SRPTable SwitchRelay
begin

text \<open>
  Filtering at the input of a port (CoRE4INET/linklayer/filtering/IEEE8021Qci): \<open>IEEE8021QciInput\<close> with the filters
  \<open>IEEE8021QciFilter\<close>, \<open>MACFilter\<close> and \<open>QTagFilter\<close>, the gates with their control list, and the meters \<open>IEEE8021QciMeter\<close>,
  \<open>FrameSizeMeter\<close> and \<open>CreditBasedMeter\<close>. Modules are found by their index; a frame goes through them without delay, so
  that one function is its way. The channel and the oscillator are external and given by \<open>meter_env\<close>. A \<open>double\<close> is an exact
  number, and its conversion to \<open>int\<close> is an error where the value does not fit, which is undefined in the code, as is the
  overflow of the credit.
\<close>

subsection \<open>Filters\<close>

record sized_frame = frame +
  fs_bytes :: nat

datatype filter_kind =
    StreamIdFilter
  | MacFilter mac mac
  | TagFilter int int mac mac

record qci_filter =
  qf_streamID :: "64 word"
  qf_gateID :: nat
  qf_meterID :: nat
  qf_kind :: filter_kind

definition isMatching_stream :: "srp_table \<Rightarrow> qci_filter \<Rightarrow> 'a frame_scheme \<Rightarrow> bool res" where
  "isMatching_stream t f fr =
     (if qf_streamID f = 0 then Inr True
      else if fr_etherType fr = ETHERTYPE_Q then
        (case fr_qtag fr of
           None \<Rightarrow> Inl (RuntimeError ''Ethertype is 0x8100 but message type is not EthernetIIFrameWithQTag'')
         | Some q \<Rightarrow>
             if containsStream (fr_dst fr) (q_vid q) t
             then rbind (getStreamIdForTalkerAddress (fr_dst fr) (q_vid q) t) (\<lambda>sid. Inr (qf_streamID f = sid))
             else Inr False)
      else Inr False)"

definition isMatching_mac :: "srp_table \<Rightarrow> mac \<Rightarrow> mac \<Rightarrow> qci_filter \<Rightarrow> 'a frame_scheme \<Rightarrow> bool res" where
  "isMatching_mac t src dst f fr =
     (if (src = 0 \<or> src = fr_src fr) \<and> (dst = 0 \<or> dst = fr_dst fr) then isMatching_stream t f fr else Inr False)"

definition isMatching_tag :: "srp_table \<Rightarrow> int \<Rightarrow> int \<Rightarrow> mac \<Rightarrow> mac \<Rightarrow> qci_filter \<Rightarrow> 'a frame_scheme \<Rightarrow> bool res" where
  "isMatching_tag t vid pcp src dst f fr =
     (case fr_qtag fr of
        None \<Rightarrow> Inr False
      | Some q \<Rightarrow>
          if (vid = -1 \<or> vid = uint (q_vid q)) \<and> (pcp = -1 \<or> pcp = uint (q_pcp q)) then isMatching_mac t src dst f fr
          else Inr False)"

definition isMatching :: "srp_table \<Rightarrow> qci_filter \<Rightarrow> 'a frame_scheme \<Rightarrow> bool res" where
  "isMatching t f fr =
     (case qf_kind f of
        StreamIdFilter \<Rightarrow> isMatching_stream t f fr
      | MacFilter src dst \<Rightarrow> isMatching_mac t src dst f fr
      | TagFilter vid pcp src dst \<Rightarrow> isMatching_tag t vid pcp src dst f fr)"

text \<open>The parameters of \<open>QTagFilter\<close> pass through unsigned types of 16 and 8 bits.\<close>

definition MAX_VLAN_ID :: int where
  "MAX_VLAN_ID = 4094"

definition tag_parameters :: "int \<Rightarrow> int \<Rightarrow> (int \<times> int) res" where
  "tag_parameters vid pcp =
     (if vid < -1 \<or> vid > MAX_VLAN_ID then Inl (RuntimeError ''Parameter vID is not within the allowed range'')
      else if pcp < -1 \<or> pcp > 7 then Inl (RuntimeError ''Parameter pcp is not within the allowed range'')
      else Inr (uint (of_int vid :: 16 word), uint (of_int pcp :: 8 word)))"

definition parameter_range :: "int \<Rightarrow> int \<Rightarrow> int \<Rightarrow> int res" where
  "parameter_range mn mx v = (if v < mn \<or> v > mx then Inl (RuntimeError ''Parameter not within the allowed range'') else Inr v)"

definition filter_parameters :: "int \<Rightarrow> int \<Rightarrow> int \<Rightarrow> qci_filter \<Rightarrow> qci_filter res" where
  "filter_parameters sid gid mid f =
     rbind (parameter_range 0 (2 ^ 64 - 1) sid) (\<lambda>s. rbind (parameter_range 0 (2 ^ 32 - 1) gid) (\<lambda>g.
     rbind (parameter_range 0 (2 ^ 32 - 1) mid) (\<lambda>m.
       Inr (f\<lparr>qf_streamID := of_int s, qf_gateID := nat g, qf_meterID := nat m\<rparr>))))"

subsection \<open>Gates\<close>

record qci_gate =
  qg_state :: gate_state
  qg_passed :: nat
  qg_dropped :: nat

definition gate_parameter :: "string \<Rightarrow> qci_gate \<Rightarrow> qci_gate res" where
  "gate_parameter st g =
     (if st = ''o'' then Inr (g\<lparr>qg_state := OPEN\<rparr>)
      else if st = ''C'' then Inr (g\<lparr>qg_state := CLOSED\<rparr>)
      else Inl (RuntimeError ''Parameter state is only allowed to be o or C''))"

text \<open>The states of a control list element, from the last gate to the first.\<close>

fun propagate_qci :: "nat \<Rightarrow> string list \<Rightarrow> qci_gate list \<Rightarrow> qci_gate list res" where
  "propagate_qci 0 sts gs = Inr gs"
| "propagate_qci (Suc i) sts gs =
     (if i \<ge> length sts then Inl OutOfRange
      else if sts ! i = ''o'' \<or> sts ! i = ''C'' then
        (if i \<ge> length gs then Inl (NullDeref ''streamGate'')
         else propagate_qci i sts (gs[i := (gs ! i)\<lparr>qg_state := (if sts ! i = ''o'' then OPEN else CLOSED)\<rparr>]))
      else propagate_qci i sts gs)"

subsection \<open>Meters\<close>

record meter_stats =
  ms_framesReceived :: nat
  ms_framesSent :: nat
  ms_bytesReceived :: nat
  ms_bytesSent :: nat

record meter_env =
  me_datarate :: rat
  me_duration :: "nat \<Rightarrow> simtime"   \<comment> \<open>of a number of bytes on the channel\<close>
  me_tick :: simtime
  me_window :: obs_window

datatype receive_state = R_RA | R_RF

record cbm =
  cm_credit :: int
  cm_state :: receive_state
  cm_reservedBandwidth :: "64 word"
  cm_maxCredit :: int
  cm_lastCalcTime :: simtime
  cm_maxBurst :: "64 word"
  cm_srClass :: sr_class
  cm_isSendSlopeActive :: bool
  cm_timers :: "(int \<times> string) list"

definition received_stats :: "nat \<Rightarrow> meter_stats \<Rightarrow> meter_stats" where
  "received_stats n m = m\<lparr>ms_framesReceived := ms_framesReceived m + 1, ms_bytesReceived := ms_bytesReceived m + n\<rparr>"

definition sent_stats :: "nat \<Rightarrow> meter_stats \<Rightarrow> meter_stats" where
  "sent_stats n m = m\<lparr>ms_framesSent := ms_framesSent m + 1, ms_bytesSent := ms_bytesSent m + n\<rparr>"

text \<open>The base class counts only the bytes of what it receives and passes every frame on.\<close>

definition meter_plain :: "nat \<Rightarrow> meter_stats \<Rightarrow> meter_stats \<times> bool" where
  "meter_plain n m = (sent_stats n (m\<lparr>ms_bytesReceived := ms_bytesReceived m + n\<rparr>), True)"

definition meter_size :: "nat \<Rightarrow> nat \<Rightarrow> nat \<Rightarrow> meter_stats \<Rightarrow> meter_stats \<times> bool" where
  "meter_size mn mx n m =
     (let m1 = received_stats n m in
      if n < mn \<or> n > mx then (m1, False) else (sent_stats n m1, True))"

definition check_int :: "int \<Rightarrow> int res" where
  "check_int x = (if -2147483648 \<le> x \<and> x \<le> 2147483647 then Inr x else Inl OutOfRange)"

text \<open>\<open>simtime\<close> and \<open>double\<close> are exact here; \<open>to_int\<close> is \<open>static_cast<int>(ceil(x))\<close>.\<close>

definition to_int :: "rat \<Rightarrow> int res" where
  "to_int x = check_int \<lceil>x\<rceil>"

fun add_vids :: "meter_env \<Rightarrow> simtime \<Rightarrow> 64 word \<Rightarrow> 16 word list \<Rightarrow> srp_table \<Rightarrow> 64 word \<Rightarrow> 64 word \<Rightarrow> (64 word \<times> 64 word \<times> srp_table) res" where
  "add_vids env now sid [] t bw biggest = Inr (bw, biggest, t)"
| "add_vids env now sid (v # vs) t bw biggest =
     rbind (getBandwidthForStream (me_window env) now sid v t) (\<lambda>(b, t').
       add_vids env now sid vs t' (bw + b) (if b > biggest then b else biggest))"

fun add_streams :: "meter_env \<Rightarrow> simtime \<Rightarrow> nat \<Rightarrow> qci_filter list \<Rightarrow> srp_table \<Rightarrow> 64 word \<Rightarrow> 64 word \<Rightarrow> (64 word \<times> 64 word \<times> srp_table) res" where
  "add_streams env now idx [] t bw biggest = Inr (bw, biggest, t)"
| "add_streams env now idx (f # fs) t bw biggest =
     (if qf_meterID f = idx then
        (let (vids, t1) = getVidsForStreamId now (qf_streamID f) t in
         rbind (add_vids env now (qf_streamID f) vids t1 bw biggest) (\<lambda>(bw', biggest', t2). add_streams env now idx fs t2 bw' biggest'))
      else add_streams env now idx fs t bw biggest)"

definition class_interval :: "sr_class \<Rightarrow> simtime" where
  "class_interval c = (case c of SR_CLASS_A \<Rightarrow> 125 / 1000000 | SR_CLASS_B \<Rightarrow> 250 / 1000000)"

definition refreshReservedBandwidthAndMaxCredit :: "meter_env \<Rightarrow> simtime \<Rightarrow> nat \<Rightarrow> qci_filter list \<Rightarrow> srp_table \<Rightarrow> cbm \<Rightarrow> (cbm \<times> srp_table) res" where
  "refreshReservedBandwidthAndMaxCredit env now idx fs t c =
     rbind (add_streams env now idx fs t 0 0) (\<lambda>(bw, biggest, t').
       let duration = of_int (uint biggest) / me_datarate env * class_interval (cm_srClass c) in
       rbind (to_int ((me_datarate env - of_int (uint bw)) * duration * of_int (uint (cm_maxBurst c - 1)))) (\<lambda>mc.
         Inr (c\<lparr>cm_reservedBandwidth := bw, cm_maxCredit := mc\<rparr>, t')))"

definition idleSlope_m :: "simtime \<Rightarrow> simtime \<Rightarrow> cbm \<Rightarrow> cbm res" where
  "idleSlope_m now delta c =
     (let calcTime = now - delta; idleDuration = calcTime - cm_lastCalcTime c in
      if idleDuration > 0 then
        rbind (to_int (of_int (uint (cm_reservedBandwidth c)) * idleDuration)) (\<lambda>x.
        rbind (check_int (cm_credit c + x)) (\<lambda>cr.
          Inr (c\<lparr>cm_credit := (if cr > cm_maxCredit c then cm_maxCredit c else cr), cm_lastCalcTime := calcTime\<rparr>)))
      else Inr c)"

definition refreshState_m :: "cbm \<Rightarrow> cbm" where
  "refreshState_m c = c\<lparr>cm_state := (if cm_credit c < 0 then R_RF else R_RA)\<rparr>"

definition scheduleEvent_m :: "meter_env \<Rightarrow> simtime \<Rightarrow> string \<Rightarrow> cbm \<Rightarrow> cbm" where
  "scheduleEvent_m env duration name c = c\<lparr>cm_timers := cm_timers c @ [(\<lceil>duration / me_tick env\<rceil>, name)]\<rparr>"

text \<open>The frame with preamble, start of frame delimiter and inter frame gap.\<close>

definition calculateTransmissionDuration :: "meter_env \<Rightarrow> nat \<Rightarrow> simtime" where
  "calculateTransmissionDuration env n = me_duration env (n + 7 + 1 + 96 div 8)"

definition sendSlope_m :: "meter_env \<Rightarrow> simtime \<Rightarrow> nat \<Rightarrow> cbm \<Rightarrow> cbm res" where
  "sendSlope_m env now n c =
     (let d = calculateTransmissionDuration env n in
      rbind (to_int ((me_datarate env - of_int (uint (cm_reservedBandwidth c))) * d)) (\<lambda>x.
      rbind (check_int (cm_credit c - x)) (\<lambda>cr.
        Inr ((scheduleEvent_m env d ''CBM_SENDSLOPE_END'' (c\<lparr>cm_credit := cr, cm_lastCalcTime := now + d\<rparr>))\<lparr>cm_isSendSlopeActive := True\<rparr>))))"

text \<open>The decision on one frame: whether it is sent on.\<close>

definition meter_frame :: "meter_env \<Rightarrow> simtime \<Rightarrow> nat \<Rightarrow> cbm \<Rightarrow> (cbm \<times> bool) res" where
  "meter_frame env now n c =
     (case cm_state c of
        R_RA \<Rightarrow> rbind (sendSlope_m env now n c) (\<lambda>c'. Inr (refreshState_m c', True))
      | R_RF \<Rightarrow> Inr (c, False))"

definition frame_cbm :: "meter_env \<Rightarrow> simtime \<Rightarrow> nat \<Rightarrow> qci_filter list \<Rightarrow> nat \<Rightarrow> srp_table \<times> cbm \<Rightarrow> (srp_table \<times> cbm \<times> bool) res" where
  "frame_cbm env now idx fs n tc =
     rbind (refreshReservedBandwidthAndMaxCredit env now idx fs (fst tc) (snd tc)) (\<lambda>(c1, t').
     rbind (idleSlope_m now 0 c1) (\<lambda>c2.
     rbind (meter_frame env now n (refreshState_m c2)) (\<lambda>(c3, ok). Inr (t', c3, ok))))"

definition scheduleCreditReachZero :: "meter_env \<Rightarrow> cbm \<Rightarrow> cbm" where
  "scheduleCreditReachZero env c =
     (if cm_credit c < 0 \<and> cm_reservedBandwidth c > 0
      then scheduleEvent_m env (of_int \<bar>cm_credit c\<bar> / of_int (uint (cm_reservedBandwidth c))) ''API Scheduler Task Event'' c else c)"

text \<open>The time of a division by zero is infinite and no \<open>simtime\<close>.\<close>

definition scheduleCreditReachMax :: "meter_env \<Rightarrow> cbm \<Rightarrow> cbm res" where
  "scheduleCreditReachMax env c =
     (if cm_credit c < cm_maxCredit c \<and> cm_credit c \<ge> 0
      then if cm_reservedBandwidth c = 0 then Inl (RuntimeError ''simtime overflow'')
           else Inr (scheduleEvent_m env (of_int (cm_maxCredit c - cm_credit c) / of_int (uint (cm_reservedBandwidth c)))
                  ''API Scheduler Task Event'' c)
      else Inr c)"

definition timer_cbm :: "meter_env \<Rightarrow> simtime \<Rightarrow> nat \<Rightarrow> qci_filter list \<Rightarrow> string \<Rightarrow> srp_table \<times> cbm \<Rightarrow> (srp_table \<times> cbm) res" where
  "timer_cbm env now idx fs name tc =
     (let c0 = (if name = ''CBM_SENDSLOPE_END'' then (snd tc)\<lparr>cm_isSendSlopeActive := False\<rparr> else snd tc) in
      if cm_isSendSlopeActive c0 then Inr (fst tc, c0)
      else rbind (refreshReservedBandwidthAndMaxCredit env now idx fs (fst tc) c0) (\<lambda>(c1, t').
           rbind (idleSlope_m now 0 c1) (\<lambda>c2.
           rbind (scheduleCreditReachMax env (scheduleCreditReachZero env c2)) (\<lambda>c3. Inr (t', refreshState_m c3)))))"

definition receive_state_cbm :: "meter_env \<Rightarrow> simtime \<Rightarrow> nat \<Rightarrow> qci_filter list \<Rightarrow> srp_table \<times> cbm \<Rightarrow> (srp_table \<times> cbm) res" where
  "receive_state_cbm env now idx fs tc =
     rbind (refreshReservedBandwidthAndMaxCredit env now idx fs (fst tc) (snd tc)) (\<lambda>(c1, t').
     rbind (idleSlope_m now 0 c1) (\<lambda>c2. Inr (t', refreshState_m c2)))"

definition burst_parameter :: "int \<Rightarrow> cbm \<Rightarrow> cbm res" where
  "burst_parameter b c = rbind (parameter_range 0 (2 ^ 32 - 1) b) (\<lambda>v. Inr (c\<lparr>cm_maxBurst := of_int v\<rparr>))"

definition class_parameter :: "string \<Rightarrow> cbm \<Rightarrow> cbm res" where
  "class_parameter k c =
     (if k = ''A'' then Inr (c\<lparr>cm_srClass := SR_CLASS_A\<rparr>)
      else if k = ''B'' then Inr (c\<lparr>cm_srClass := SR_CLASS_B\<rparr>)
      else Inl (RuntimeError ''Parameter srClass is only allowed to be A or B''))"

definition size_parameters :: "int \<Rightarrow> int \<Rightarrow> (nat \<times> nat) res" where
  "size_parameters mn mx =
     rbind (parameter_range 64 1526 mn) (\<lambda>a. rbind (parameter_range 64 1526 mx) (\<lambda>b. Inr (nat a, nat b)))"

subsection \<open>The way of a frame\<close>

datatype qci_meter =
    PlainMeter meter_stats
  | SizeMeter meter_stats nat nat
  | CreditMeter meter_stats cbm

record ingress =
  in_filters :: "qci_filter list"
  in_gates :: "qci_gate list"
  in_meters :: "qci_meter list"
  in_isWhiteList :: bool

fun first_match :: "srp_table \<Rightarrow> 'a frame_scheme \<Rightarrow> qci_filter list \<Rightarrow> qci_filter option res" where
  "first_match t fr [] = Inr None"
| "first_match t fr (f # fs) = rbind (isMatching t f fr) (\<lambda>b. if b then Inr (Some f) else first_match t fr fs)"

definition meter_in :: "meter_env \<Rightarrow> simtime \<Rightarrow> nat \<Rightarrow> nat \<Rightarrow> srp_table \<Rightarrow> ingress \<Rightarrow> (ingress \<times> srp_table \<times> bool) res" where
  "meter_in env now idx n t g =
     (case in_meters g ! idx of
        PlainMeter m \<Rightarrow> (let (m', ok) = meter_plain n m in Inr (g\<lparr>in_meters := (in_meters g)[idx := PlainMeter m']\<rparr>, t, ok))
      | SizeMeter m mn mx \<Rightarrow> (let (m', ok) = meter_size mn mx n m in Inr (g\<lparr>in_meters := (in_meters g)[idx := SizeMeter m' mn mx]\<rparr>, t, ok))
      | CreditMeter m c \<Rightarrow>
          rbind (frame_cbm env now idx (in_filters g) n (t, c)) (\<lambda>(t', c', ok).
            let m1 = received_stats n m in
            Inr (g\<lparr>in_meters := (in_meters g)[idx := CreditMeter (if ok then sent_stats n m1 else m1) c']\<rparr>, t', ok)))"

text \<open>The result says whether the frame goes on to the upper layer.\<close>

definition ingress_frame :: "meter_env \<Rightarrow> simtime \<Rightarrow> sized_frame \<Rightarrow> srp_table \<Rightarrow> ingress \<Rightarrow> (ingress \<times> srp_table \<times> bool) res" where
  "ingress_frame env now fr t g =
     rbind (first_match t fr (in_filters g)) (\<lambda>m.
       case m of
         None \<Rightarrow> Inr (g, t, \<not> in_isWhiteList g)
       | Some f \<Rightarrow>
           if qf_gateID f \<ge> length (in_gates g) then Inl (RuntimeError ''Cannot find gate configured in filter'')
           else (let gate = in_gates g ! qf_gateID f in
             case qg_state gate of
               OPEN \<Rightarrow>
                 if qf_meterID f \<ge> length (in_meters g) then Inl (RuntimeError ''Cannot find meter'')
                 else meter_in env now (qf_meterID f) (fs_bytes fr) t
                        (g\<lparr>in_gates := (in_gates g)[qf_gateID f := gate\<lparr>qg_passed := qg_passed gate + 1\<rparr>]\<rparr>)
             | CLOSED \<Rightarrow> Inr (g\<lparr>in_gates := (in_gates g)[qf_gateID f := gate\<lparr>qg_dropped := qg_dropped gate + 1\<rparr>]\<rparr>, t, False)))"

subsection \<open>Gates and the way of a frame\<close>

lemma propagate_qci_spec:
  assumes "propagate_qci n sts gs = Inr gs'"
  shows "n \<le> length sts \<and> length gs' = length gs \<and> (\<forall>i < length gs. qg_state (gs' ! i) =
    (if i < n \<and> sts ! i = ''o'' then OPEN else if i < n \<and> sts ! i = ''C'' then CLOSED else qg_state (gs ! i)))"
  using assms
proof (induction n sts gs rule: propagate_qci.induct)
  case (2 i sts gs)
  show ?case
  proof (cases "sts ! i = ''o'' \<or> sts ! i = ''C''")
    case True
    with "2.prems" have len: "i < length sts" "i < length gs"
      and rest: "propagate_qci i sts (gs[i := (gs ! i)\<lparr>qg_state := (if sts ! i = ''o'' then OPEN else CLOSED)\<rparr>]) = Inr gs'"
      by (auto split: if_splits)
    from "2.IH"(1) [OF _ True _ rest] len show ?thesis using True by (auto simp: nth_list_update less_Suc_eq)
  next
    case False
    with "2.prems" have "i < length sts" "propagate_qci i sts gs = Inr gs'" by (auto split: if_splits)
    with "2.IH"(2) False show ?thesis by (auto simp: less_Suc_eq)
  qed
qed simp

lemma meter_in_size:
  assumes "meter_in env now idx n t g = Inr (g', t', True)" and "in_meters g ! idx = SizeMeter m mn mx"
  shows "mn \<le> n \<and> n \<le> mx"
  using assms by (auto simp: meter_in_def meter_size_def Let_def split: if_splits)


text \<open>
  C20: A tag filter whose VLAN or priority is left at its default -1, which stands for any, matches no frame: the
  parameter is stored through an unsigned type, and no VLAN identifier or priority has that value.
\<close>

theorem default_tag_filter_matches_nothing:
  assumes "tag_parameters vid pcp = Inr (v, p)" and "vid = -1 \<or> pcp = -1" and "qf_kind f = TagFilter v p src dst"
    and "fr_qtag fr = Some q" and "uint (q_vid q) \<le> 4095" and "uint (q_pcp q) \<le> 7"
  shows "isMatching t f fr = Inr False"
proof -
  have vp: "v = uint (of_int vid :: 16 word)" "p = uint (of_int pcp :: 8 word)" using assms(1) by (auto simp: tag_parameters_def split: if_splits)
  have "v \<noteq> -1" "p \<noteq> -1" unfolding vp using uint_ge_0 by (metis not_one_le_zero neg_0_le_iff_le)+
  moreover have "uint (-1 :: 16 word) = 65535" "uint (-1 :: 8 word) = 255" by code_simp+
  ultimately show ?thesis using assms(2-6) vp by (auto simp: isMatching_def isMatching_tag_def)
qed

subsection \<open>The credit\<close>

lemma to_int_Inr: "to_int x = Inr y \<longleftrightarrow> y = \<lceil>x\<rceil> \<and> check_int y = Inr y"
  by (auto simp: to_int_def check_int_def split: if_splits)

lemma unsigned_nonneg: "0 \<le> (unsigned (w :: 'a :: len word) :: rat)"
  by (metis of_nat_0_le_iff of_nat_unat)

lemma check_int_Inr: "check_int x = Inr y \<Longrightarrow> y = x"
  by (auto simp: check_int_def split: if_splits)

datatype meter_event =
    FrameIn nat
  | Timer string

fun meter_step :: "meter_env \<Rightarrow> nat \<Rightarrow> qci_filter list \<Rightarrow> simtime \<times> meter_event \<Rightarrow> srp_table \<times> cbm \<Rightarrow> (srp_table \<times> cbm \<times> nat list) res" where
  "meter_step env idx fs (now, FrameIn n) tc = rbind (frame_cbm env now idx fs n tc) (\<lambda>(t', c', ok). Inr (t', c', if ok then [n] else []))"
| "meter_step env idx fs (now, Timer name) tc = rbind (timer_cbm env now idx fs name tc) (\<lambda>(t', c'). Inr (t', c', []))"

text \<open>A run and the sizes of the frames that passed.\<close>

fun meter_run :: "meter_env \<Rightarrow> nat \<Rightarrow> qci_filter list \<Rightarrow> (simtime \<times> meter_event) list \<Rightarrow> srp_table \<times> cbm \<Rightarrow> (srp_table \<times> cbm \<times> nat list) res" where
  "meter_run env idx fs [] tc = Inr (fst tc, snd tc, [])"
| "meter_run env idx fs (ev # evs) tc =
     rbind (meter_step env idx fs ev tc) (\<lambda>(t', c', passed).
     rbind (meter_run env idx fs evs (t', c')) (\<lambda>(t'', c'', passed'). Inr (t'', c'', passed @ passed')))"

text \<open>Frames arrive after the end of the send slope of the frame before them.\<close>

fun spaced :: "meter_env \<Rightarrow> nat \<Rightarrow> qci_filter list \<Rightarrow> (simtime \<times> meter_event) list \<Rightarrow> srp_table \<times> cbm \<Rightarrow> bool" where
  "spaced env idx fs [] tc = True"
| "spaced env idx fs (ev # evs) tc \<longleftrightarrow>
     (case snd ev of FrameIn n \<Rightarrow> cm_lastCalcTime (snd tc) \<le> fst ev | Timer name \<Rightarrow> True)
     \<and> (case meter_step env idx fs ev tc of Inl e \<Rightarrow> True | Inr (t', c', passed) \<Rightarrow> spaced env idx fs evs (t', c'))"

definition wire_bits :: "meter_env \<Rightarrow> nat \<Rightarrow> rat" where
  "wire_bits env n = me_datarate env * calculateTransmissionDuration env n"

definition frame_cost :: "meter_env \<Rightarrow> 64 word \<Rightarrow> nat \<Rightarrow> int" where
  "frame_cost env R n = \<lceil>(me_datarate env - of_int (uint R)) * calculateTransmissionDuration env n\<rceil>"

text \<open>The potential: credit less what the reservation has granted until the last calculation.\<close>

definition credit_pot :: "64 word \<Rightarrow> cbm \<Rightarrow> rat" where
  "credit_pot R c = of_int (cm_credit c) - of_int (uint R) * cm_lastCalcTime c"

lemma refresh_steady:
  assumes "add_streams env now idx fs t 0 0 = Inr (R, B, t)" and "refreshReservedBandwidthAndMaxCredit env now idx fs t c = Inr (c', t')"
    and "of_int (uint R) \<le> me_datarate env" and "0 < me_datarate env"
  shows "t' = t" and "cm_reservedBandwidth c' = R" and "0 \<le> cm_maxCredit c'" and "cm_credit c' = cm_credit c"
    and "cm_lastCalcTime c' = cm_lastCalcTime c"
proof -
  let ?d = "of_int (uint B) / me_datarate env * class_interval (cm_srClass c)"
  from assms(1,2) obtain mc where mc: "mc = \<lceil>(me_datarate env - of_int (uint R)) * ?d * of_int (uint (cm_maxBurst c - 1))\<rceil>"
    and c': "c' = c\<lparr>cm_reservedBandwidth := R, cm_maxCredit := mc\<rparr>" "t' = t"
    by (auto simp: refreshReservedBandwidthAndMaxCredit_def rbind_Inr_iff to_int_Inr Let_def)
  have "0 \<le> class_interval (cm_srClass c)" by (simp add: class_interval_def split: sr_class.split)
  moreover have "0 \<le> of_int (uint B) / me_datarate env" using assms(4) by (simp add: unsigned_nonneg)
  ultimately have d: "0 \<le> ?d" by (rule mult_nonneg_nonneg [rotated])
  have "0 \<le> (me_datarate env - of_int (uint R)) * ?d * of_int (uint (cm_maxBurst c - 1))"
    by (rule mult_nonneg_nonneg [OF mult_nonneg_nonneg [OF _ d]]) (use assms(3) in \<open>simp_all add: unsigned_nonneg\<close>)
  then have "0 \<le> mc" unfolding mc by linarith
  then show "t' = t" "cm_reservedBandwidth c' = R" "0 \<le> cm_maxCredit c'" "cm_credit c' = cm_credit c" "cm_lastCalcTime c' = cm_lastCalcTime c"
    using c' by simp_all
qed

lemma idle_pot:
  assumes "idleSlope_m now 0 c = Inr c'" and "cm_reservedBandwidth c = R" and "0 \<le> cm_maxCredit c" and "- C \<le> cm_credit c" and "0 \<le> C"
  shows "credit_pot R c' \<le> credit_pot R c + 1" and "- C \<le> cm_credit c'" and "cm_reservedBandwidth c' = R"
    and "cm_lastCalcTime c \<le> now \<Longrightarrow> cm_lastCalcTime c' = now"
proof -
  have "credit_pot R c' \<le> credit_pot R c + 1 \<and> - C \<le> cm_credit c' \<and> cm_reservedBandwidth c' = R
    \<and> (cm_lastCalcTime c \<le> now \<longrightarrow> cm_lastCalcTime c' = now)"
  proof (cases "now - cm_lastCalcTime c > 0")
    case True
    let ?x = "of_int (uint R) * (now - cm_lastCalcTime c) :: rat"
    from assms(1,2) True have c': "c' = c\<lparr>cm_credit := (if cm_credit c + \<lceil>?x\<rceil> > cm_maxCredit c then cm_maxCredit c else cm_credit c + \<lceil>?x\<rceil>),
        cm_lastCalcTime := now\<rparr>"
      by (auto simp: idleSlope_m_def rbind_Inr_iff to_int_Inr Let_def dest: check_int_Inr)
    have "0 \<le> ?x" using True by (simp add: unsigned_nonneg)
    then have x: "0 \<le> \<lceil>?x\<rceil>" by linarith
    have low: "- C \<le> cm_credit c'"
    proof (cases "cm_credit c + \<lceil>?x\<rceil> > cm_maxCredit c")
      case True
      then show ?thesis using assms(3,5) by (simp add: c')
    next
      case False
      then have "cm_credit c' = cm_credit c + \<lceil>?x\<rceil>" by (simp only: c' if_False) simp
      then show ?thesis using x assms(4) by linarith
    qed
    have "cm_credit c' \<le> cm_credit c + \<lceil>?x\<rceil>" by (simp add: c')
    then have "(of_int (cm_credit c') :: rat) \<le> of_int (cm_credit c) + of_int \<lceil>?x\<rceil>" by (metis of_int_add of_int_le_iff)
    moreover have "of_int \<lceil>?x\<rceil> \<le> ?x + 1" by (rule of_int_ceiling_le_add_one)
    ultimately have "credit_pot R c' \<le> credit_pot R c + 1" by (simp add: credit_pot_def c' algebra_simps)
    then show ?thesis using low assms(2) by (simp add: c')
  next
    case False
    then show ?thesis using assms by (simp add: idleSlope_m_def Let_def)
  qed
  then show "credit_pot R c' \<le> credit_pot R c + 1" "- C \<le> cm_credit c'" "cm_reservedBandwidth c' = R"
    "cm_lastCalcTime c \<le> now \<Longrightarrow> cm_lastCalcTime c' = now" by blast+
qed

lemma meter_frame_pot:
  assumes "meter_frame env now n (refreshState_m c) = Inr (c', ok)" and "cm_reservedBandwidth c = R" and "cm_lastCalcTime c = now"
    and "frame_cost env R n \<le> C" and "- C \<le> cm_credit c"
  shows "credit_pot R c' + (if ok then wire_bits env n else 0) \<le> credit_pot R c" and "- C \<le> cm_credit c'"
proof -
  have "credit_pot R c' + (if ok then wire_bits env n else 0) \<le> credit_pot R c \<and> - C \<le> cm_credit c'"
  proof (cases "cm_credit c < 0")
    case True
    then show ?thesis using assms by (auto simp: meter_frame_def refreshState_m_def credit_pot_def)
  next
    case False
    let ?d = "calculateTransmissionDuration env n"
    from False assms(1,2) have c': "ok" "cm_credit c' = cm_credit c - frame_cost env R n" "cm_lastCalcTime c' = now + ?d"
      by (auto simp: meter_frame_def refreshState_m_def sendSlope_m_def rbind_Inr_iff to_int_Inr Let_def scheduleEvent_m_def frame_cost_def
          dest!: check_int_Inr)
    have "(me_datarate env - of_int (uint R)) * ?d \<le> of_int (frame_cost env R n)" by (simp add: frame_cost_def)
    then have "credit_pot R c' + wire_bits env n \<le> credit_pot R c"
      by (simp add: credit_pot_def c' wire_bits_def assms(3) algebra_simps)
    then show ?thesis using c' False assms(4) by simp
  qed
  then show "credit_pot R c' + (if ok then wire_bits env n else 0) \<le> credit_pot R c" "- C \<le> cm_credit c'" by blast+
qed

definition cost_ok :: "meter_env \<Rightarrow> 64 word \<Rightarrow> int \<Rightarrow> meter_event \<Rightarrow> bool" where
  "cost_ok env R C ev \<longleftrightarrow> (case ev of FrameIn n \<Rightarrow> frame_cost env R n \<le> C | Timer name \<Rightarrow> True)"

lemma schedule_pot [simp]:
  "cm_credit (refreshState_m c) = cm_credit c" "credit_pot R (refreshState_m c) = credit_pot R c"
  "cm_credit (scheduleCreditReachZero env c) = cm_credit c" "credit_pot R (scheduleCreditReachZero env c) = credit_pot R c"
  by (simp_all add: refreshState_m_def credit_pot_def scheduleCreditReachZero_def scheduleEvent_m_def)

lemma reach_max_pot:
  "scheduleCreditReachMax env c = Inr c' \<Longrightarrow> cm_credit c' = cm_credit c \<and> credit_pot R c' = credit_pot R c"
  by (auto simp: scheduleCreditReachMax_def credit_pot_def scheduleEvent_m_def split: if_splits)

lemma frame_step_pot:
  assumes step: "frame_cbm env now idx fs n (t, c) = Inr (t', c', ok)" and steady: "add_streams env now idx fs t 0 0 = Inr (R, B, t)"
    and rate: "of_int (uint R) \<le> me_datarate env" "0 < me_datarate env" and cost: "frame_cost env R n \<le> C"
    and spaced: "cm_lastCalcTime c \<le> now" and low: "- C \<le> cm_credit c" "0 \<le> C"
  shows "t' = t" and "credit_pot R c' + (if ok then wire_bits env n else 0) \<le> credit_pot R c + 1" and "- C \<le> cm_credit c'"
proof -
  from step obtain c1 t1 c2 c3 where
    r: "refreshReservedBandwidthAndMaxCredit env now idx fs t c = Inr (c1, t1)" and i: "idleSlope_m now 0 c1 = Inr c2"
    and m: "meter_frame env now n (refreshState_m c2) = Inr (c', ok)" and t: "t' = t1"
    by (auto simp: frame_cbm_def rbind_Inr_iff)
  note r = refresh_steady [OF steady r rate]
  have pot: "credit_pot R c1 = credit_pot R c" by (simp add: credit_pot_def r)
  have low1: "- C \<le> cm_credit c1" using low(1) by (simp add: r(4))
  note i = idle_pot [OF i r(2,3) low1 low(2)]
  have now: "cm_lastCalcTime c2 = now" by (rule i(4)) (simp add: r(5) spaced)
  note m = meter_frame_pot [OF m i(3) now cost i(2)]
  show "t' = t" by (simp add: t r(1))
  show "credit_pot R c' + (if ok then wire_bits env n else 0) \<le> credit_pot R c + 1" using m(1) i(1) pot by linarith
  show "- C \<le> cm_credit c'" by (rule m(2))
qed

lemma timer_step_pot:
  assumes step: "timer_cbm env now idx fs name (t, c) = Inr (t', c')" and steady: "add_streams env now idx fs t 0 0 = Inr (R, B, t)"
    and rate: "of_int (uint R) \<le> me_datarate env" "0 < me_datarate env" and low: "- C \<le> cm_credit c" "0 \<le> C"
  shows "t' = t" and "credit_pot R c' \<le> credit_pot R c + 1" and "- C \<le> cm_credit c'"
proof -
  define c0 where "c0 = (if name = ''CBM_SENDSLOPE_END'' then c\<lparr>cm_isSendSlopeActive := False\<rparr> else c)"
  have c0: "credit_pot R c0 = credit_pot R c" "- C \<le> cm_credit c0" using low(1) by (simp_all add: c0_def credit_pot_def)
  have eq: "timer_cbm env now idx fs name (t, c) =
      (if cm_isSendSlopeActive c0 then Inr (t, c0)
       else rbind (refreshReservedBandwidthAndMaxCredit env now idx fs t c0) (\<lambda>(c1, t').
            rbind (idleSlope_m now 0 c1) (\<lambda>c2.
            rbind (scheduleCreditReachMax env (scheduleCreditReachZero env c2)) (\<lambda>c3. Inr (t', refreshState_m c3)))))"
    by (simp add: timer_cbm_def c0_def Let_def)
  have "t' = t \<and> credit_pot R c' \<le> credit_pot R c + 1 \<and> - C \<le> cm_credit c'"
  proof (cases "cm_isSendSlopeActive c0")
    case True
    then show ?thesis using step c0 by (simp add: eq)
  next
    case False
    with step obtain c1 t1 c2 c3 where
      r: "refreshReservedBandwidthAndMaxCredit env now idx fs t c0 = Inr (c1, t1)" and i: "idleSlope_m now 0 c1 = Inr c2"
      and m: "scheduleCreditReachMax env (scheduleCreditReachZero env c2) = Inr c3" and t: "t' = t1" "c' = refreshState_m c3"
      by (auto simp: eq rbind_Inr_iff)
    note r = refresh_steady [OF steady r rate]
    have low1: "- C \<le> cm_credit c1" using c0(2) by (simp add: r(4))
    note i = idle_pot [OF i r(2,3) low1 low(2)]
    have "credit_pot R c1 = credit_pot R c0" by (simp add: credit_pot_def r)
    then show ?thesis using i(1,2) reach_max_pot [OF m] c0(1) t r(1) by simp
  qed
  then show "t' = t" "credit_pot R c' \<le> credit_pot R c + 1" "- C \<le> cm_credit c'" by blast+
qed

text \<open>Each step lets through what it takes from the potential, up to one bit of rounding.\<close>

lemma meter_run_pot:
  assumes "meter_run env idx fs evs (t, c) = Inr (t', c', passed)" and "spaced env idx fs evs (t, c)"
    and "list_all (\<lambda>(now, ev). add_streams env now idx fs t 0 0 = Inr (R, B, t) \<and> cost_ok env R C ev) evs"
    and rate: "of_int (uint R) \<le> me_datarate env" "0 < me_datarate env" and "- C \<le> cm_credit c" and C: "0 \<le> C"
  shows "credit_pot R c' + (\<Sum>n \<leftarrow> passed. wire_bits env n) \<le> credit_pot R c + of_nat (length evs) \<and> - C \<le> cm_credit c'"
  using assms(1-3,6)
proof (induction evs arbitrary: c passed)
  case (Cons x evs)
  obtain now ev where x: "x = (now, ev)" by force
  from Cons.prems(1) obtain t1 c1 p1 p2 where step: "meter_step env idx fs x (t, c) = Inr (t1, c1, p1)"
    and run: "meter_run env idx fs evs (t1, c1) = Inr (t', c', p2)" and passed: "passed = p1 @ p2" by (auto simp: rbind_Inr_iff)
  have steady: "add_streams env now idx fs t 0 0 = Inr (R, B, t)" and cost: "cost_ok env R C ev" using Cons.prems(3) x by simp_all
  have one: "t1 = t \<and> credit_pot R c1 + (\<Sum>n \<leftarrow> p1. wire_bits env n) \<le> credit_pot R c + 1 \<and> - C \<le> cm_credit c1"
  proof (cases ev)
    case (FrameIn n)
    with step x obtain ok where f: "frame_cbm env now idx fs n (t, c) = Inr (t1, c1, ok)" "p1 = (if ok then [n] else [])"
      by (auto simp: rbind_Inr_iff)
    have "cm_lastCalcTime c \<le> now" "frame_cost env R n \<le> C" using Cons.prems(2) cost FrameIn x by (simp_all add: cost_ok_def)
    from frame_step_pot [OF f(1) steady rate this(2,1) Cons.prems(4) C] show ?thesis using f(2) by (cases ok) simp_all
  next
    case (Timer name)
    with step x have f: "timer_cbm env now idx fs name (t, c) = Inr (t1, c1)" "p1 = []" by (auto simp: rbind_Inr_iff)
    from timer_step_pot [OF f(1) steady rate Cons.prems(4) C] show ?thesis using f(2) by simp
  qed
  have "spaced env idx fs evs (t, c1)" using Cons.prems(2) step one by simp
  from Cons.IH [of c1 p2] run one this Cons.prems(3)
  have "credit_pot R c' + (\<Sum>n \<leftarrow> p2. wire_bits env n) \<le> credit_pot R c1 + of_nat (length evs) \<and> - C \<le> cm_credit c'" by simp
  then show ?case using one by (simp add: passed)
qed simp

text \<open>
  C18: The credit based meter polices the reserved bandwidth: while the reservation of its streams is R, the frames
  that it lets through carry on the wire, in bits, at most R times the elapsed time, plus the initial credit, plus the cost
  of one frame, plus one bit of rounding for every frame or timer. Frames arrive after the send slope of the frame before them.
\<close>

theorem policed_bandwidth:
  assumes "meter_run env idx fs evs (t, c) = Inr (t', c', passed)" and "spaced env idx fs evs (t, c)"
    and "list_all (\<lambda>(now, ev). add_streams env now idx fs t 0 0 = Inr (R, B, t) \<and> cost_ok env R C ev) evs"
    and "of_int (uint R) \<le> me_datarate env" and "0 < me_datarate env" and "- C \<le> cm_credit c" and "0 \<le> C"
  shows "(\<Sum>n \<leftarrow> passed. wire_bits env n)
    \<le> of_int (uint R) * (cm_lastCalcTime c' - cm_lastCalcTime c) + of_int (cm_credit c) + of_int C + of_nat (length evs)"
proof -
  have "(- of_int C :: rat) \<le> of_int (cm_credit c')" using meter_run_pot [OF assms] by (metis of_int_le_iff of_int_minus)
  then show ?thesis using meter_run_pot [OF assms] by (simp add: credit_pot_def algebra_simps)
qed

subsection \<open>Witnesses\<close>

text \<open>A stream of 5184000 bit/s at a port of 100 Mbit/s.\<close>

definition metered_table :: srp_table where
  "metered_table = \<lparr>talkerTables = [(2, [(7, \<lparr>te_streamId = 7, te_srClass = SR_CLASS_A, te_address = 0xA1, te_module = 1, te_framesize = 60,
     te_intervalFrames = 1, te_vlan_id = 2, te_pcp = 6, te_insertionTime = 0, te_isStatic = False\<rparr>)])],
     listenerTables = [], srp_nextAging = 0, srp_agingTime = 10, srp_emitted = []\<rparr>"

definition metered_filter :: qci_filter where
  "metered_filter = \<lparr>qf_streamID = 7, qf_gateID = 1, qf_meterID = 0, qf_kind = StreamIdFilter\<rparr>"

definition meter_example_env :: meter_env where
  "meter_example_env = \<lparr>me_datarate = 100000000, me_duration = (\<lambda>n. of_nat n * 8 / 100000000), me_tick = 1 / 1000000,
     me_window = (\<lambda>c. case c of SR_CLASS_A \<Rightarrow> 1 / 8000 | SR_CLASS_B \<Rightarrow> 1 / 4000)\<rparr>"

definition example_cbm :: cbm where
  "example_cbm = \<lparr>cm_credit = -6000, cm_state = R_RF, cm_reservedBandwidth = 0, cm_maxCredit = 0, cm_lastCalcTime = 0, cm_maxBurst = 4,
     cm_srClass = SR_CLASS_A, cm_isSendSlopeActive = False, cm_timers = []\<rparr>"

definition example_events :: "(simtime \<times> meter_event) list" where
  "example_events = [(1 / 1000, FrameIn 64), (11 / 10000, Timer ''API Scheduler Task Event''), (12 / 10000, FrameIn 64)]"

lemma example_reservation: "add_streams meter_example_env now 0 [metered_filter] metered_table 0 0 = Inr (5184000, 5184000, metered_table)"
  by (simp add: meter_example_env_def metered_filter_def metered_table_def getVidsForStreamId_def getBandwidthForStream_def
      removeAgedEntriesIfNeeded_srp_def smap_inner_def talker_bandwidth_def bandwidthFromSizeAndInterval_def)

lemma example_ceilings: "\<lceil>2592 / 5 :: rat\<rceil> = 519" "\<lceil>5760072 / 3125 :: rat\<rceil> = 1844" "\<lceil>248892 / 390625 :: rat\<rceil> = 1" "\<lceil>1991136 / 3125 :: rat\<rceil> = 638"
  by (simp_all add: ceiling_eq_iff)

lemma example_refresh:
  assumes "cm_maxBurst c = 4" and "cm_srClass c = SR_CLASS_A"
  shows "refreshReservedBandwidthAndMaxCredit meter_example_env now 0 [metered_filter] metered_table c
    = Inr (c\<lparr>cm_reservedBandwidth := 5184000, cm_maxCredit := 1844\<rparr>, metered_table)"
  unfolding refreshReservedBandwidthAndMaxCredit_def example_reservation
  by (simp add: assms class_interval_def to_int_def check_int_def meter_example_env_def Let_def example_ceilings)

text \<open>The first frame is dropped, the timer adds credit, the second frame passes.\<close>

definition cbm_after :: "int \<Rightarrow> simtime \<Rightarrow> cbm" where
  "cbm_after cr now = example_cbm\<lparr>cm_credit := cr, cm_reservedBandwidth := 5184000, cm_maxCredit := 1844, cm_lastCalcTime := now\<rparr>"

lemmas meter_step_defs = frame_cbm_def timer_cbm_def example_refresh example_cbm_def cbm_after_def idleSlope_m_def to_int_def check_int_def
  refreshState_m_def meter_frame_def Let_def

lemma example_first: "meter_step meter_example_env 0 [metered_filter] (1 / 1000, FrameIn 64) (metered_table, example_cbm)
  = Inr (metered_table, cbm_after (-816) (1 / 1000), [])"
  by (simp add: meter_step_defs)

lemma example_second: "\<exists>c. meter_step meter_example_env 0 [metered_filter] (11 / 10000, Timer ''API Scheduler Task Event'') (metered_table, cbm_after (-816) (1 / 1000))
  = Inr (metered_table, c, []) \<and> (\<exists>tm. c = (cbm_after (-297) (11 / 10000))\<lparr>cm_timers := tm\<rparr>)"
  by (simp add: meter_step_defs scheduleCreditReachZero_def scheduleCreditReachMax_def scheduleEvent_m_def example_ceilings)

lemma example_third: "\<exists>c. meter_step meter_example_env 0 [metered_filter] (12 / 10000, FrameIn 64) (metered_table, (cbm_after (-297) (11 / 10000))\<lparr>cm_timers := tm\<rparr>)
  = Inr (metered_table, c, [64])"
proof -
  have rate: "me_datarate meter_example_env = 100000000" by (simp add: meter_example_env_def)
  have d: "calculateTransmissionDuration meter_example_env 64 = 21 / 3125000"
    by (simp add: calculateTransmissionDuration_def meter_example_env_def)
  show ?thesis by (simp add: meter_step_defs sendSlope_m_def scheduleEvent_m_def rate d example_ceilings)
qed

lemma example_meter_run:
  "\<exists>t c. meter_run meter_example_env 0 [metered_filter] example_events (metered_table, example_cbm) = Inr (t, c, [64])
   \<and> spaced meter_example_env 0 [metered_filter] example_events (metered_table, example_cbm)"
proof -
  from example_second obtain c2 tm where two: "meter_step meter_example_env 0 [metered_filter] (11 / 10000, Timer ''API Scheduler Task Event'')
      (metered_table, cbm_after (-816) (1 / 1000)) = Inr (metered_table, c2, [])" "c2 = (cbm_after (-297) (11 / 10000))\<lparr>cm_timers := tm\<rparr>" by blast
  from example_third [of tm] obtain c3 where three: "meter_step meter_example_env 0 [metered_filter] (12 / 10000, FrameIn 64) (metered_table, c2)
      = Inr (metered_table, c3, [64])" using two(2) by blast
  have "cm_lastCalcTime example_cbm = 0" "cm_lastCalcTime c2 = 11 / 10000" by (simp_all add: example_cbm_def cbm_after_def two(2))
  then show ?thesis
    unfolding example_events_def meter_run.simps spaced.simps example_first rbind_simps sum.case prod.case two(1) three by simp
qed

theorem policed_bandwidth_witness:
  "\<exists>t' c'. meter_run meter_example_env 0 [metered_filter] example_events (metered_table, example_cbm) = Inr (t', c', [64])
    \<and> wire_bits meter_example_env 64 \<le> 5184000 * cm_lastCalcTime c' + 3"
proof -
  from example_meter_run obtain t' c' where run: "meter_run meter_example_env 0 [metered_filter] example_events (metered_table, example_cbm) = Inr (t', c', [64])"
    and sp: "spaced meter_example_env 0 [metered_filter] example_events (metered_table, example_cbm)" by blast
  have steady: "list_all (\<lambda>(now, ev). add_streams meter_example_env now 0 [metered_filter] metered_table 0 0 = Inr (5184000, 5184000, metered_table)
      \<and> cost_ok meter_example_env 5184000 6000 ev) example_events"
    unfolding example_reservation example_events_def
    by (simp add: cost_ok_def frame_cost_def calculateTransmissionDuration_def meter_example_env_def)
  from policed_bandwidth [OF run sp steady] run show ?thesis
    by (simp add: meter_example_env_def example_cbm_def example_events_def)
qed

definition example_ingress :: ingress where
  "example_ingress = \<lparr>in_filters = [metered_filter], in_gates = [\<lparr>qg_state = OPEN, qg_passed = 0, qg_dropped = 0\<rparr>, \<lparr>qg_state = CLOSED, qg_passed = 0, qg_dropped = 0\<rparr>],
     in_meters = [SizeMeter \<lparr>ms_framesReceived = 0, ms_framesSent = 0, ms_bytesReceived = 0, ms_bytesSent = 0\<rparr> 64 1518], in_isWhiteList = True\<rparr>"

definition tagged_frame :: sized_frame where
  "tagged_frame = \<lparr>fr_src = 3, fr_dst = 0xA1, fr_etherType = ETHERTYPE_Q, fr_arrivalGate = 0,
     fr_qtag = Some \<lparr>q_vid = 2, q_pcp = 6, q_matchVersion = 0, q_streamID = 7, q_displayString = []\<rparr>, fr_payload = NoPayload, fs_bytes = 100\<rparr>"

lemma example_match: "first_match metered_table tagged_frame (in_filters example_ingress) = Inr (Some metered_filter)"
  by (simp add: example_ingress_def metered_filter_def isMatching_def isMatching_stream_def tagged_frame_def containsStream_def
      getStreamIdForTalkerAddress_def metered_table_def smap_inner_def)


theorem default_tag_filter_matches_nothing_witness:
  "tag_parameters (-1) 6 = Inr (65535, 6)
   \<and> isMatching metered_table \<lparr>qf_streamID = 0, qf_gateID = 0, qf_meterID = 0, qf_kind = TagFilter 65535 6 0 0\<rparr> tagged_frame = Inr False"
proof -
  have "uint (-1 :: 16 word) = 65535" by code_simp
  then have par: "tag_parameters (-1) 6 = Inr (65535, 6)" by (simp add: tag_parameters_def MAX_VLAN_ID_def)
  have "isMatching metered_table \<lparr>qf_streamID = 0, qf_gateID = 0, qf_meterID = 0, qf_kind = TagFilter 65535 6 0 0\<rparr> tagged_frame = Inr False"
    by (rule default_tag_filter_matches_nothing [OF par, where q = "the (fr_qtag tagged_frame)"]) (simp_all add: tagged_frame_def)
  with par show ?thesis by blast
qed

end
